(* ===== verification/Prelude.thy ===== *)
theory Prelude
  imports Main "HOL-Library.Word" "HOL-Library.Multiset"
begin

text \<open>
  What every component shares: the named collections of facts, the result type of a Rust
  call, and small facts on lists and options that the component proofs use.

  A Rust call returns a value, returns an error, panics, or does not return. The type
  \<open>('e, 'a) outcome\<close> has one constructor for each; \<open>Diverge\<close> is only produced
  by the loops that carry fuel.
\<close>

named_theorems poll_defs \<open>definitions of the polling layer\<close>
named_theorems source_defs \<open>definitions of the event sources\<close>
named_theorems loop_defs \<open>definitions of the event loop\<close>
named_theorems inv_intros \<open>preservation facts of the invariants\<close>

section \<open>Results of Rust calls\<close>

datatype ('e, 'a) outcome = Ok 'a | Err 'e | Panic | Diverge

text \<open>Rust's \<open>Result::map_err\<close> and \<open>Result::map\<close>; a panic passes through.\<close>

fun map_err :: "('e \<Rightarrow> 'f) \<Rightarrow> ('e, 'a) outcome \<Rightarrow> ('f, 'a) outcome" where
  "map_err f (Ok a) = Ok a"
| "map_err f (Err e) = Err (f e)"
| "map_err f Panic = Panic"
| "map_err f Diverge = Diverge"

fun map_ok :: "('a \<Rightarrow> 'b) \<Rightarrow> ('e, 'a) outcome \<Rightarrow> ('e, 'b) outcome" where
  "map_ok f (Ok a) = Ok (f a)"
| "map_ok f (Err e) = Err e"
| "map_ok f Panic = Panic"
| "map_ok f Diverge = Diverge"

text \<open>
  The \<open>?\<close> operator on a state-passing call: continue with the value, or leave with the
  error, the panic or the divergence and the state reached so far.
\<close>

fun and_then :: "('e, 'a) outcome \<times> 's \<Rightarrow> ('a \<Rightarrow> 's \<Rightarrow> ('e, 'b) outcome \<times> 's)
    \<Rightarrow> ('e, 'b) outcome \<times> 's" where
  "and_then (Ok a, s) f = f a s"
| "and_then (Err e, s) f = (Err e, s)"
| "and_then (Panic, s) f = (Panic, s)"
| "and_then (Diverge, s) f = (Diverge, s)"

lemma and_then_Ok_iff:
  "and_then r f = (Ok b, t) \<longleftrightarrow> (\<exists>a s. r = (Ok a, s) \<and> f a s = (Ok b, t))"
  by (cases r; cases "fst r") auto

lemma and_then_cases:
  assumes "and_then r f = q"
  obtains (ok) a s where "r = (Ok a, s)" and "f a s = q"
    | (err) e s where "r = (Err e, s)" and "q = (Err e, s)"
    | (panic) s where "r = (Panic, s)" and "q = (Panic, s)"
    | (diverge) s where "r = (Diverge, s)" and "q = (Diverge, s)"
  using assms by (cases r; cases "fst r") auto

lemma map_err_eq_Ok [simp]: "map_err f r = Ok a \<longleftrightarrow> r = Ok a"
  by (cases r) auto

lemma map_ok_eq_Err [simp]: "map_ok f r = Err e \<longleftrightarrow> r = Err e"
  by (cases r) auto

definition is_ok :: "('e, 'a) outcome \<Rightarrow> bool" where
  "is_ok r = (case r of Ok _ \<Rightarrow> True | _ \<Rightarrow> False)"

lemma is_ok_simps [simp]:
  "is_ok (Ok a)" "\<not> is_ok (Err e)" "\<not> is_ok Panic" "\<not> is_ok Diverge"
  by (simp_all add: is_ok_def)

lemma is_ok_iff: "is_ok r \<longleftrightarrow> (\<exists>a. r = Ok a)"
  by (cases r) auto

section \<open>Lists\<close>

text \<open>\<open>Iterator::position\<close>: the index of the first element that satisfies the test.\<close>

fun position :: "('a \<Rightarrow> bool) \<Rightarrow> 'a list \<Rightarrow> nat option" where
  "position p [] = None"
| "position p (x # xs) = (if p x then Some 0 else map_option Suc (position p xs))"

lemma position_None_iff: "position p xs = None \<longleftrightarrow> (\<forall>x \<in> set xs. \<not> p x)"
  by (induction xs) auto

lemma position_SomeD:
  "position p xs = Some i \<Longrightarrow> i < length xs \<and> p (xs ! i) \<and> (\<forall>j < i. \<not> p (xs ! j))"
proof (induction xs arbitrary: i)
  case Nil
  then show ?case by simp
next
  case (Cons x xs)
  show ?case
  proof (cases "p x")
    case True
    with Cons.prems show ?thesis by simp
  next
    case False
    with Cons.prems obtain k where "position p xs = Some k" and "i = Suc k" by auto
    with False Cons.IH [of k] show ?thesis
      by (auto simp: less_Suc_eq_0_disj)
  qed
qed

text \<open>\<open>Vec::get\<close>: reading at an index, \<open>None\<close> out of range.\<close>

definition vec_get :: "'a list \<Rightarrow> nat \<Rightarrow> 'a option" where
  "vec_get xs i = (if i < length xs then Some (xs ! i) else None)"

lemma vec_get_Some_iff: "vec_get xs i = Some x \<longleftrightarrow> i < length xs \<and> xs ! i = x"
  by (auto simp: vec_get_def)

lemma vec_get_None_iff: "vec_get xs i = None \<longleftrightarrow> length xs \<le> i"
  by (auto simp: vec_get_def)

lemma vec_get_update:
  "i < length xs \<Longrightarrow> vec_get (xs[i := x]) j = (if i = j then Some x else vec_get xs j)"
  by (auto simp: vec_get_def)

lemma vec_get_update_other [simp]: "i \<noteq> j \<Longrightarrow> vec_get (xs[i := x]) j = vec_get xs j"
  by (simp add: vec_get_def)

lemma vec_get_append1: "vec_get (xs @ [x]) i = (if i = length xs then Some x else vec_get xs i)"
  by (auto simp: vec_get_def nth_append)

lemma vec_get_append_Some: "vec_get xs i = Some x \<Longrightarrow> vec_get (xs @ ys) i = Some x"
  by (auto simp: vec_get_def nth_append split: if_splits)

section \<open>Words\<close>

lemma unat_less_power: "unat (x :: 'w::len word) < 2 ^ LENGTH('w)"
  by (rule unsigned_less)

end
