(* ===== verification/Errors.thy ===== *)
theory Errors
  imports Prelude
begin

text \<open>
  The error types of \<open>src/src/error.rs\<close>: the crate's \<open>Error\<close>, the \<open>InsertError\<close>
  that gives an event source back, and the conversions between them. A boxed error
  (\<open>Box<dyn Error>\<close>) is opaque to the loop; here it records where it comes from.
\<close>

text \<open>The \<open>std::io::ErrorKind\<close> values that the code names; any other kind is a number.\<close>

datatype io_error = Interrupted | WouldBlock | NotFound | AlreadyExists | InvalidInput | OtherIo nat

text \<open>
  \<open>Box<dyn std::error::Error>\<close>: a user's error, a boxed I/O error, or one of the
  wrappers of the crate's own sources (\<open>PingError\<close>, \<open>ChannelError\<close>,
  \<open>ExecutorError::WakeError\<close>, \<open>StreamError\<close>, \<open>SignalError\<close>).
\<close>

datatype boxed_error =
    BUser nat
  | BIo io_error
  | PingError boxed_error
  | ChannelError boxed_error
  | WakeError boxed_error
  | StreamError boxed_error
  | SignalError boxed_error

datatype error = InvalidToken | IoError io_error | OtherError boxed_error

text \<open>\<open>From<std::io::Error>\<close> and \<open>From<Box<dyn Error>>\<close> for \<open>Error\<close>.\<close>

definition error_from_io :: "io_error \<Rightarrow> error" where
  "error_from_io value = IoError value"

definition error_from_box :: "boxed_error \<Rightarrow> error" where
  "error_from_box value = OtherError value"

text \<open>
  \<open>From<Error> for std::io::Error\<close>. An I/O error keeps its kind; an invalid token is
  \<open>InvalidInput\<close>; anything else is \<open>io::Error::other\<close>, which carries the boxed error.
\<close>

datatype std_io_error = IoKind io_error | IoInvalidInput error | IoOther boxed_error

fun io_from_error :: "error \<Rightarrow> std_io_error" where
  "io_from_error (IoError source) = IoKind source"
| "io_from_error InvalidToken = IoInvalidInput InvalidToken"
| "io_from_error (OtherError source) = IoOther source"

text \<open>\<open>Error::source\<close>: the underlying error, where there is one.\<close>

fun error_source :: "error \<Rightarrow> boxed_error option" where
  "error_source InvalidToken = None"
| "error_source (IoError err) = Some (BIo err)"
| "error_source (OtherError err) = Some err"

text \<open>\<open>InsertError<T>\<close> and its conversion into \<open>Error\<close>, which drops the source.\<close>

record 's insert_error =
  ie_inserted :: 's
  ie_error :: error

definition error_from_insert :: "'s insert_error \<Rightarrow> error" where
  "error_from_insert e = ie_error e"

type_synonym 'a cresult = "(error, 'a) outcome"

text \<open>An I/O result of a system call, turned into the crate's result by \<open>?\<close>.\<close>

fun lift_io :: "io_error + 'a \<Rightarrow> 'a cresult" where
  "lift_io (Inr a) = Ok a"
| "lift_io (Inl e) = Err (error_from_io e)"

text \<open>
  The messages (\<open>Display\<close>), given those of I/O errors and of user errors. The wrappers of the ping,
  channel, stream and signal sources forward to what they wrap.
\<close>

fun boxed_display :: "(io_error \<Rightarrow> string) \<Rightarrow> (nat \<Rightarrow> string) \<Rightarrow> boxed_error \<Rightarrow> string" where
  "boxed_display io user (BUser n) = user n"
| "boxed_display io user (BIo e) = io e"
| "boxed_display io user (PingError e) = boxed_display io user e"
| "boxed_display io user (ChannelError e) = boxed_display io user e"
| "boxed_display io user (WakeError e) = ''error processing wake events: '' @ boxed_display io user e"
| "boxed_display io user (StreamError e) = boxed_display io user e"
| "boxed_display io user (SignalError e) = boxed_display io user e"

fun error_display :: "(io_error \<Rightarrow> string) \<Rightarrow> (nat \<Rightarrow> string) \<Rightarrow> error \<Rightarrow> string" where
  "error_display io user InvalidToken = ''invalid token provided to internal function''"
| "error_display io user (IoError err) = ''underlying IO error: '' @ io err"
| "error_display io user (OtherError err) = ''other error during loop operation: '' @ boxed_display io user err"

definition insert_error_display :: "(io_error \<Rightarrow> string) \<Rightarrow> (nat \<Rightarrow> string) \<Rightarrow> 's insert_error \<Rightarrow> string" where
  "insert_error_display io user e = ''error inserting event source: '' @ error_display io user (ie_error e)"

text \<open>Every message ends in that of the innermost cause.\<close>

fun boxed_cause :: "boxed_error \<Rightarrow> boxed_error" where
  "boxed_cause (PingError e) = boxed_cause e"
| "boxed_cause (ChannelError e) = boxed_cause e"
| "boxed_cause (WakeError e) = boxed_cause e"
| "boxed_cause (StreamError e) = boxed_cause e"
| "boxed_cause (SignalError e) = boxed_cause e"
| "boxed_cause e = e"

lemma boxed_display_cause: "\<exists>prefix. boxed_display io user e = prefix @ boxed_display io user (boxed_cause e)"
proof (induction e)
  case (WakeError e)
  then obtain prefix where "boxed_display io user e = prefix @ boxed_display io user (boxed_cause e)" by blast
  then show ?case by (intro exI [of _ "''error processing wake events: '' @ prefix"]) simp
qed simp_all

lemma error_display_cause:
  assumes "error_source e = Some b"
  shows "\<exists>prefix. error_display io user e = prefix @ boxed_display io user (boxed_cause b)"
proof (cases e)
  case (OtherError err)
  obtain prefix where "boxed_display io user err = prefix @ boxed_display io user (boxed_cause err)"
    using boxed_display_cause [of io user err] by blast
  with OtherError assms show ?thesis
    by (intro exI [of _ "''other error during loop operation: '' @ prefix"]) simp
qed (use assms in auto)

lemma io_error_roundtrip: "io_from_error (error_from_io e) = IoKind e"
  by (simp add: error_from_io_def)

lemma error_source_None_iff: "error_source e = None \<longleftrightarrow> e = InvalidToken"
  by (cases e) auto

lemma lift_io_Ok_iff [simp]: "lift_io r = Ok a \<longleftrightarrow> r = Inr a"
  by (cases r) auto

lemma lift_io_Err_iff: "lift_io r = Err e \<longleftrightarrow> (\<exists>i. r = Inl i \<and> e = IoError i)"
  by (cases r) (auto simp: error_from_io_def)

lemma lift_io_total [simp]: "lift_io r \<noteq> Panic" "lift_io r \<noteq> Diverge"
  by (cases r; simp)+

end
