(* ===== verification/Tokens.thy ===== *)
theory Tokens
  imports Errors
begin

unbundle bit_operations_syntax

text \<open>
  \<open>src/src/token.rs\<close>: the token that names a source of the loop. It has a slot number, the
  version of the slot and the number of a sub-source, and is packed into a \<open>usize\<close> to be
  the key of a polling event. The field widths depend on the pointer width; the functions
  below take that width \<open>w\<close> (16, 32 or 64) where the source has a \<open>cfg\<close>.
\<close>

type_synonym u16 = "16 word"
type_synonym u32 = "32 word"
type_synonym usize = "64 word"

section \<open>Widths and masks\<close>

definition BITS_VERSION :: "nat \<Rightarrow> nat" where
  "BITS_VERSION w = (if w = 64 then 16 else if w = 32 then 8 else 4)"

definition BITS_SUBID :: "nat \<Rightarrow> nat" where
  "BITS_SUBID w = (if w = 64 then 16 else if w = 32 then 8 else 4)"

text \<open>\<open>(1 << BITS) - 1\<close>, cast to \<open>u16\<close> where it is used.\<close>

definition MASK_VERSION :: "nat \<Rightarrow> 'w::len word" where
  "MASK_VERSION w = push_bit (BITS_VERSION w) 1 - 1"

definition MASK_SUBID :: "nat \<Rightarrow> 'w::len word" where
  "MASK_SUBID w = push_bit (BITS_SUBID w) 1 - 1"

section \<open>TokenInner\<close>

record token_inner =
  tok_id :: u32
  tok_version :: u16
  tok_sub_id :: u16

text \<open>\<open>TokenInner::new\<close>: fails where the slot number does not fit in 32 bits.\<close>

definition TokenInner_new :: "nat \<Rightarrow> (unit, token_inner) outcome" where
  "TokenInner_new i =
     (if i < 2 ^ 32 then Ok \<lparr>tok_id = of_nat i, tok_version = 0, tok_sub_id = 0\<rparr> else Err ())"

definition get_id :: "token_inner \<Rightarrow> nat" where
  "get_id t = unat (tok_id t)"

definition same_source_as :: "token_inner \<Rightarrow> token_inner \<Rightarrow> bool" where
  "same_source_as t u \<longleftrightarrow> tok_id t = tok_id u \<and> tok_version t = tok_version u"

definition increment_version :: "nat \<Rightarrow> token_inner \<Rightarrow> token_inner" where
  "increment_version w t =
     \<lparr>tok_id = tok_id t, tok_version = (tok_version t + 1) AND MASK_VERSION w, tok_sub_id = 0\<rparr>"

text \<open>\<open>u16::checked_add\<close>.\<close>

definition checked_add16 :: "u16 \<Rightarrow> u16 \<Rightarrow> u16 option" where
  "checked_add16 a b = (if unat a + unat b < 2 ^ 16 then Some (a + b) else None)"

definition increment_sub_id :: "nat \<Rightarrow> token_inner \<Rightarrow> ('e, token_inner) outcome" where
  "increment_sub_id w t =
     (case checked_add16 (tok_sub_id t) 1 of
        Some sid \<Rightarrow> if sid \<le> MASK_SUBID w then Ok (t\<lparr>tok_sub_id := sid\<rparr>) else Panic
      | None \<Rightarrow> Panic)"

definition forget_sub_id :: "token_inner \<Rightarrow> token_inner" where
  "forget_sub_id t = t\<lparr>tok_sub_id := 0\<rparr>"

text \<open>\<open>From<usize>\<close>: unpack a key; \<open>From<TokenInner>\<close>: pack a token.\<close>

definition token_of_usize :: "'w::len word \<Rightarrow> token_inner" where
  "token_of_usize value =
     (let w = LENGTH('w) in
      \<lparr>tok_id = ucast (drop_bit (BITS_SUBID w + BITS_VERSION w) value),
       tok_version = ucast (drop_bit (BITS_SUBID w) value AND MASK_VERSION w),
       tok_sub_id = ucast (value AND MASK_SUBID w)\<rparr>)"

definition usize_of_token :: "token_inner \<Rightarrow> 'w::len word" where
  "usize_of_token t =
     (let w = LENGTH('w) in
      push_bit (BITS_SUBID w + BITS_VERSION w) (ucast (tok_id t))
      + push_bit (BITS_SUBID w) (ucast (tok_version t))
      + ucast (tok_sub_id t))"



section \<open>Packing and unpacking\<close>

text \<open>The pointer widths the crate supports, and the tokens that fit a key of that width.\<close>

definition pointer_width :: "nat \<Rightarrow> bool" where
  "pointer_width w \<longleftrightarrow> w = 16 \<or> w = 32 \<or> w = 64"

definition token_fits :: "nat \<Rightarrow> token_inner \<Rightarrow> bool" where
  "token_fits w t \<longleftrightarrow>
     unat (tok_id t) < 2 ^ (w - (BITS_SUBID w + BITS_VERSION w)) \<and>
     unat (tok_version t) < 2 ^ BITS_VERSION w \<and> unat (tok_sub_id t) < 2 ^ BITS_SUBID w"

lemma bits_bounds:
  assumes "pointer_width w"
  shows "BITS_SUBID w \<le> 16" "BITS_VERSION w \<le> 16" "BITS_SUBID w + BITS_VERSION w < w"
  using assms by (auto simp: pointer_width_def BITS_SUBID_def BITS_VERSION_def)

lemma bits_min [simp]:
  "min (BITS_VERSION w) 16 = BITS_VERSION w" "min 16 (BITS_VERSION w) = BITS_VERSION w"
  "min (BITS_SUBID w) 16 = BITS_SUBID w" "min 16 (BITS_SUBID w) = BITS_SUBID w"
  by (auto simp: BITS_SUBID_def BITS_VERSION_def)

lemma MASK_SUBID_mask: "(MASK_SUBID w :: 'w::len word) = mask (BITS_SUBID w)"
  by (simp add: MASK_SUBID_def mask_eq_exp_minus_1 push_bit_eq_mult)

lemma MASK_VERSION_mask: "(MASK_VERSION w :: 'w::len word) = mask (BITS_VERSION w)"
  by (simp add: MASK_VERSION_def mask_eq_exp_minus_1 push_bit_eq_mult)

lemma unat_push_ucast:
  fixes x :: "'a::len word"
  assumes "unat x < 2 ^ k" and "n + k \<le> LENGTH('w::len)"
  shows "unat (push_bit n (ucast x) :: 'w word) = unat x * 2 ^ n"
proof -
  have "unat x * 2 ^ n < 2 ^ k * 2 ^ n" using assms(1) by simp
  also have "\<dots> = 2 ^ (n + k)" by (simp add: power_add)
  also have "\<dots> \<le> 2 ^ LENGTH('w)" using assms(2) by (intro power_increasing) auto
  finally have small: "unat x * 2 ^ n < 2 ^ LENGTH('w)" .
  moreover have "unat x \<le> unat x * 2 ^ n" by simp
  ultimately have "unat x < 2 ^ LENGTH('w)" by linarith
  with small show ?thesis
    unfolding unsigned_push_bit_eq unsigned_ucast_eq by (simp add: push_bit_eq_mult take_bit_eq_mod)
qed

lemma unat_plus_small:
  fixes a b :: "'w::len word"
  shows "unat a + unat b < 2 ^ LENGTH('w) \<Longrightarrow> unat (a + b) = unat a + unat b"
  by (simp add: unat_word_ariths)

lemma unat_usize_of_token:
  fixes t :: token_inner
  assumes w: "LENGTH('w::len) = w" "pointer_width w" and fits: "token_fits w t"
  shows "unat (usize_of_token t :: 'w word) =
    unat (tok_id t) * 2 ^ (BITS_SUBID w + BITS_VERSION w)
    + unat (tok_version t) * 2 ^ BITS_SUBID w + unat (tok_sub_id t)"
proof -
  let ?s = "BITS_SUBID w" and ?v = "BITS_VERSION w"
  let ?i = "unat (tok_id t)" and ?r = "unat (tok_version t)" and ?u = "unat (tok_sub_id t)"
  note b = bits_bounds [OF w(2)]
  have i: "unat (push_bit (?s + ?v) (ucast (tok_id t)) :: 'w word) = ?i * 2 ^ (?s + ?v)"
    using fits b w by (intro unat_push_ucast [where k = "w - (?s + ?v)"]) (auto simp: token_fits_def)
  have r: "unat (push_bit ?s (ucast (tok_version t)) :: 'w word) = ?r * 2 ^ ?s"
    using fits b w by (intro unat_push_ucast [where k = ?v]) (auto simp: token_fits_def)
  have u: "unat (ucast (tok_sub_id t) :: 'w word) = ?u"
    using unat_push_ucast [of "tok_sub_id t" ?s 0, where 'w = 'w] fits b w by (simp add: token_fits_def)
  have low: "?r * 2 ^ ?s + ?u < 2 ^ (?s + ?v)"
  proof -
    have "?r * 2 ^ ?s + ?u < (?r + 1) * 2 ^ ?s" using fits by (simp add: token_fits_def)
    also have "\<dots> \<le> 2 ^ ?v * 2 ^ ?s" using fits by (intro mult_right_mono) (auto simp: token_fits_def)
    finally show ?thesis by (simp add: power_add mult.commute)
  qed
  have "?i * 2 ^ (?s + ?v) + (?r * 2 ^ ?s + ?u) < (?i + 1) * 2 ^ (?s + ?v)" using low by simp
  also have "\<dots> \<le> 2 ^ (w - (?s + ?v)) * 2 ^ (?s + ?v)"
    using fits by (intro mult_right_mono) (auto simp: token_fits_def)
  also have "\<dots> = 2 ^ w" using b by (simp flip: power_add)
  finally have tot: "?i * 2 ^ (?s + ?v) + ?r * 2 ^ ?s + ?u < 2 ^ w" by simp
  show ?thesis
    unfolding usize_of_token_def Let_def w(1)
    using tot w(1) by (simp add: unat_plus_small i r u)
qed

lemma ucast_eqI: "unat y = unat z \<Longrightarrow> ucast y = (z :: 'b::len word)"
  by (rule unsigned_word_eqI [where 'a = nat]) (simp add: unsigned_ucast_eq take_bit_nat_eq_self)

lemma unat_take: "n < 2 ^ k \<Longrightarrow> (m * 2 ^ k + n) mod 2 ^ k = (n::nat)" "n < 2 ^ k \<Longrightarrow> (m * 2 ^ k + n) div 2 ^ k = (m::nat)"
  by simp_all

lemma token_roundtrip_width:
  fixes t :: token_inner
  assumes w: "LENGTH('w::len) = w" "pointer_width w" and fits: "token_fits w t"
  shows "token_of_usize (usize_of_token t :: 'w word) = t"
proof -
  let ?s = "BITS_SUBID w" and ?v = "BITS_VERSION w" and ?x = "usize_of_token t :: 'w word"
  let ?i = "unat (tok_id t)" and ?r = "unat (tok_version t)" and ?u = "unat (tok_sub_id t)"
  have x: "unat ?x = ?i * 2 ^ (?s + ?v) + ?r * 2 ^ ?s + ?u"
    using w fits by (rule unat_usize_of_token)
  have f: "?r < 2 ^ ?v" "?u < 2 ^ ?s" using fits by (auto simp: token_fits_def)
  have hi: "unat ?x = (?i * 2 ^ ?v + ?r) * 2 ^ ?s + ?u"
    unfolding x by (simp add: power_add algebra_simps)
  have d1: "unat (drop_bit ?s ?x) = ?i * 2 ^ ?v + ?r"
    by (simp only: unat_drop_bit_eq drop_bit_eq_div [where 'a = nat] hi unat_take(2) [OF f(2)])
  have d2: "unat (drop_bit (?s + ?v) ?x) = ?i"
  proof -
    have "drop_bit (?s + ?v) ?x = drop_bit ?v (drop_bit ?s ?x)" by (simp add: drop_bit_drop_bit add.commute)
    then show ?thesis by (simp only: unat_drop_bit_eq [of ?v] d1 drop_bit_eq_div [where 'a = nat] unat_take(2) [OF f(1)])
  qed
  have a: "unat (drop_bit ?s ?x AND mask ?v) = ?r"
    by (simp add: unsigned_and_eq unsigned_take_bit_eq d1 f(1) flip: take_bit_eq_mask) (simp add: take_bit_eq_mod f(1))
  have b: "unat (?x AND mask ?s) = ?u"
    by (simp add: hi f(2) unsigned_take_bit_eq flip: take_bit_eq_mask) (simp add: take_bit_eq_mod f(2))
  show ?thesis
    unfolding token_of_usize_def Let_def w(1) MASK_SUBID_mask MASK_VERSION_mask
    by (simp add: ucast_eqI [OF d2] ucast_eqI [OF a] ucast_eqI [OF b])
qed

lemma token_of_usize_fits:
  assumes w: "LENGTH('w::len) = w" "pointer_width w"
  shows "token_fits w (token_of_usize (x :: 'w word))"
proof -
  let ?s = "BITS_SUBID w" and ?v = "BITS_VERSION w"
  note b = bits_bounds [OF w(2)]
  have lt: "unat x < 2 ^ w" using w(1) unsigned_less [of x] by simp
  have m: "\<And>y k. take_bit k y < (2::nat) ^ k" by (simp add: take_bit_eq_mod)
  have i: "unat (tok_id (token_of_usize x)) < 2 ^ (w - (?s + ?v))"
  proof -
    have "unat (tok_id (token_of_usize x)) \<le> unat x div 2 ^ (?s + ?v)"
      by (simp add: token_of_usize_def Let_def w(1) unsigned_ucast_eq unat_drop_bit_eq
          drop_bit_eq_div [where 'a = nat] take_bit_nat_less_eq_self)
    also have "\<dots> < 2 ^ (w - (?s + ?v))"
      using lt b by (simp add: less_mult_imp_div_less flip: power_add)
    finally show ?thesis .
  qed
  have r: "unat (tok_version (token_of_usize x)) < 2 ^ ?v"
    using le_less_trans [OF take_bit_nat_less_eq_self m]
    by (simp add: token_of_usize_def Let_def w(1) unsigned_ucast_eq MASK_VERSION_mask
        unsigned_take_bit_eq flip: take_bit_eq_mask)
  have u: "unat (tok_sub_id (token_of_usize x)) < 2 ^ ?s"
    using le_less_trans [OF take_bit_nat_less_eq_self m]
    by (simp add: token_of_usize_def Let_def w(1) unsigned_ucast_eq MASK_SUBID_mask
        unsigned_take_bit_eq flip: take_bit_eq_mask)
  from i r u show ?thesis by (simp add: token_fits_def)
qed

lemma unat_ucast_small: "unat (y :: 'a::len word) < 2 ^ LENGTH('b::len) \<Longrightarrow> unat (ucast y :: 'b word) = unat y"
  by (simp add: unsigned_ucast_eq take_bit_nat_eq_self)

lemma usize_roundtrip_width:
  assumes w: "LENGTH('w::len) = w" "pointer_width w"
  shows "usize_of_token (token_of_usize x) = (x :: 'w word)"
proof (rule unsigned_word_eqI [where 'a = nat])
  let ?s = "BITS_SUBID w" and ?v = "BITS_VERSION w" and ?t = "token_of_usize x"
  note b = bits_bounds [OF w(2)]
  have lt: "unat x < 2 ^ w" using w(1) unsigned_less [of x] by simp
  have "unat x div 2 ^ (?s + ?v) < 2 ^ (w - (?s + ?v))"
    using lt b by (simp add: less_mult_imp_div_less flip: power_add)
  also have "\<dots> \<le> 2 ^ 32"
    using w(2) by (auto simp: pointer_width_def BITS_SUBID_def BITS_VERSION_def)
  finally have i: "unat (tok_id ?t) = unat x div 2 ^ (?s + ?v)"
    by (simp add: token_of_usize_def Let_def w(1) unsigned_ucast_eq unat_drop_bit_eq
        drop_bit_eq_div [where 'a = nat] take_bit_nat_eq_self)
  have p: "2 ^ ?v \<le> (2::nat) ^ 16" "2 ^ ?s \<le> (2::nat) ^ 16"
    using b by (intro power_increasing; simp)+
  have dv: "(2::nat) ^ ?v dvd 65536" using le_imp_power_dvd [OF b(2), of "2::nat"] by simp
  have "unat x div 2 ^ ?s mod 2 ^ ?v < 2 ^ 16"
    by (rule less_le_trans [OF mod_less_divisor p(1)]) simp
  then have r: "unat (tok_version ?t) = unat x div 2 ^ ?s mod 2 ^ ?v"
    by (simp add: token_of_usize_def Let_def w(1) unsigned_ucast_eq unat_drop_bit_eq MASK_VERSION_mask
        unsigned_take_bit_eq drop_bit_eq_div [where 'a = nat] take_bit_eq_mod [where 'a = nat]
        mod_mod_cancel [OF dv] flip: take_bit_eq_mask)
  have ds: "(2::nat) ^ ?s dvd 65536" using le_imp_power_dvd [OF b(1), of "2::nat"] by simp
  have "unat x mod 2 ^ ?s < 2 ^ 16"
    by (rule less_le_trans [OF mod_less_divisor p(2)]) simp
  then have u: "unat (tok_sub_id ?t) = unat x mod 2 ^ ?s"
    by (simp add: token_of_usize_def Let_def w(1) unsigned_ucast_eq MASK_SUBID_mask
        unsigned_take_bit_eq take_bit_eq_mod [where 'a = nat] mod_mod_cancel [OF ds] flip: take_bit_eq_mask)
  have "unat (usize_of_token ?t :: 'w word) = unat x div 2 ^ (?s + ?v) * 2 ^ (?s + ?v)
      + unat x div 2 ^ ?s mod 2 ^ ?v * 2 ^ ?s + unat x mod 2 ^ ?s"
    using unat_usize_of_token [OF w token_of_usize_fits [OF w, of x]] by (simp add: i r u)
  also have "\<dots> = (unat x div 2 ^ ?s div 2 ^ ?v * 2 ^ ?v + unat x div 2 ^ ?s mod 2 ^ ?v) * 2 ^ ?s
      + unat x mod 2 ^ ?s"
    by (simp only: power_add div_mult2_eq distrib_right mult.assoc mult.commute [of "2 ^ ?v" "2 ^ ?s"])
  also have "\<dots> = unat x" by (simp only: div_mult_mod_eq)
  finally show "unat (usize_of_token ?t :: 'w word) = unat x" .
qed

section \<open>Versions and sub-ids\<close>

lemma unat_increment_version:
  assumes "pointer_width w"
  shows "unat (tok_version (increment_version w t)) = (unat (tok_version t) + 1) mod 2 ^ BITS_VERSION w"
proof -
  have "(2::nat) ^ BITS_VERSION w dvd 2 ^ 16"
    using bits_bounds(2) [OF assms] by (rule le_imp_power_dvd)
  then show ?thesis
    by (simp add: increment_version_def MASK_VERSION_mask unsigned_take_bit_eq unat_word_ariths
        take_bit_eq_mod [where 'a = nat] mod_mod_cancel flip: take_bit_eq_mask)
qed

lemma increment_version_iterate:
  assumes "pointer_width w" and "unat (tok_version t) < 2 ^ BITS_VERSION w"
  shows "unat (tok_version ((increment_version w ^^ k) t)) = (unat (tok_version t) + k) mod 2 ^ BITS_VERSION w"
  using assms by (induction k) (simp_all add: unat_increment_version mod_Suc_eq)

lemma increment_version_id [simp]: "tok_id (increment_version w t) = tok_id t"
  by (simp add: increment_version_def)

lemma increment_version_sub [simp]: "tok_sub_id (increment_version w t) = 0"
  by (simp add: increment_version_def)

lemma increment_version_iterate_id [simp]: "tok_id ((increment_version w ^^ k) t) = tok_id t"
  by (induction k) simp_all

lemma mod_add_eq_iff_dvd: "v < m \<Longrightarrow> (v + k) mod m = v \<longleftrightarrow> m dvd (k::nat)"
  using mod_eq_dvd_iff_nat [of v "v + k" m] by simp

lemma stale_version_iff:
  assumes "pointer_width w" and "unat (tok_version t) < 2 ^ BITS_VERSION w"
  shows "same_source_as ((increment_version w ^^ k) t) t \<longleftrightarrow> 2 ^ BITS_VERSION w dvd k"
  using mod_add_eq_iff_dvd [OF assms(2), of k] increment_version_iterate [OF assms, of k]
  by (simp add: same_source_as_def word_eq_iff_unsigned [where 'a = nat])

lemma increment_sub_id_eq:
  assumes "pointer_width w"
  shows "increment_sub_id w t =
    (if unat (tok_sub_id t) + 1 < 2 ^ BITS_SUBID w then Ok (t\<lparr>tok_sub_id := tok_sub_id t + 1\<rparr>) else Panic)"
proof -
  have p: "(2::nat) ^ BITS_SUBID w \<le> 2 ^ 16"
    using bits_bounds(1) [OF assms] by (intro power_increasing; simp)
  have m: "unat (MASK_SUBID w :: u16) = 2 ^ BITS_SUBID w - 1"
    using assms by (auto simp: pointer_width_def BITS_SUBID_def MASK_SUBID_def push_bit_eq_mult)
  show ?thesis
    using p by (auto simp: increment_sub_id_def checked_add16_def word_le_nat_alt m unat_word_ariths)
qed

section \<open>The codec interface\<close>

text \<open>
  What the polling layer relies on: keys are made from tokens by \<open>enc\<close> and read back by
  \<open>dec\<close>, and a token that fits is read back unchanged. Then two tokens that fit and share
  a key are the same token.
\<close>

locale key_codec =
  fixes enc :: "'t \<Rightarrow> 'k" and dec :: "'k \<Rightarrow> 't" and fits :: "'t \<Rightarrow> bool"
  assumes dec_enc: "fits t \<Longrightarrow> dec (enc t) = t"
begin

lemma enc_inj: "fits t \<Longrightarrow> fits u \<Longrightarrow> enc t = enc u \<longleftrightarrow> t = u"
  using dec_enc by metis

lemma dec_unique: "fits t \<Longrightarrow> enc t = k \<Longrightarrow> dec k = t"
  using dec_enc by auto

end

lemma pointer_widths [simp]: "pointer_width 64" "pointer_width 32" "pointer_width 16"
  by (simp_all add: pointer_width_def)

interpretation key64: key_codec "usize_of_token :: token_inner \<Rightarrow> 64 word" token_of_usize "token_fits 64"
  by unfold_locales (rule token_roundtrip_width; simp)

interpretation key32: key_codec "usize_of_token :: token_inner \<Rightarrow> 32 word" token_of_usize "token_fits 32"
  by unfold_locales (rule token_roundtrip_width; simp)

interpretation key16: key_codec "usize_of_token :: token_inner \<Rightarrow> 16 word" token_of_usize "token_fits 16"
  by unfold_locales (rule token_roundtrip_width; simp)

text \<open>On a 64-bit target every token fits: 32 + 16 + 16 bits.\<close>

lemma token_fits_64 [simp]: "token_fits 64 t"
  using unsigned_less [of "tok_id t"] unsigned_less [of "tok_version t"] unsigned_less [of "tok_sub_id t"]
  by (simp add: token_fits_def BITS_SUBID_def BITS_VERSION_def)

lemmas key_of_token = key64.dec_enc [OF token_fits_64] key64.enc_inj [OF token_fits_64 token_fits_64]

lemma token_of_key_inj: "token_of_usize x = token_of_usize (y :: usize) \<longleftrightarrow> x = y"
proof -
  have "usize_of_token (token_of_usize z) = z" for z :: usize
    by (rule usize_roundtrip_width [of 64]) simp_all
  then show ?thesis by metis
qed

section \<open>Sameness of sources\<close>

lemma same_source_refl [simp]: "same_source_as t t"
  by (simp add: same_source_as_def)

lemma same_source_sym: "same_source_as t u \<longleftrightarrow> same_source_as u t"
  by (auto simp: same_source_as_def)

lemma same_source_trans: "same_source_as t u \<Longrightarrow> same_source_as u v \<Longrightarrow> same_source_as t v"
  by (simp add: same_source_as_def)

lemma forget_sub_id_simps [simp]:
  "tok_id (forget_sub_id t) = tok_id t" "tok_version (forget_sub_id t) = tok_version t"
  "tok_sub_id (forget_sub_id t) = 0" "forget_sub_id (forget_sub_id t) = forget_sub_id t"
  by (simp_all add: forget_sub_id_def)

lemma same_source_forget [simp]:
  "same_source_as (forget_sub_id t) u \<longleftrightarrow> same_source_as t u"
  "same_source_as t (forget_sub_id u) \<longleftrightarrow> same_source_as t u"
  by (simp_all add: same_source_as_def)

lemma same_source_iff_forget: "same_source_as t u \<longleftrightarrow> forget_sub_id t = forget_sub_id u"
  by (cases t; cases u) (auto simp: same_source_as_def forget_sub_id_def)

lemma get_id_forget [simp]: "get_id (forget_sub_id t) = get_id t"
  by (simp add: get_id_def)

lemma same_source_get_id: "same_source_as t u \<Longrightarrow> get_id t = get_id u"
  by (simp add: same_source_as_def get_id_def)

lemma get_id_increment [simp]: "get_id (increment_version w t) = get_id t"
  by (simp add: get_id_def)

lemma increment_version_not_same [simp]: "\<not> same_source_as (increment_version 64 t) t"
  using stale_version_iff [of 64 t 1] unsigned_less [of "tok_version t"]
  by (simp add: BITS_VERSION_def)

lemma TokenInner_new_Ok_iff:
  "TokenInner_new i = Ok t \<longleftrightarrow> i < 2 ^ 32 \<and> t = \<lparr>tok_id = of_nat i, tok_version = 0, tok_sub_id = 0\<rparr>"
  by (auto simp: TokenInner_new_def)

lemma get_id_new: "TokenInner_new i = Ok t \<Longrightarrow> get_id t = i"
  by (auto simp: TokenInner_new_Ok_iff get_id_def unat_of_nat)

text \<open>
  C35: packing a token into a polling key and unpacking it gives the token back, and
  unpacking a key and packing it again gives the key back, for each of the three pointer
  widths, whenever the token's fields fit the widths of its target (on 64 bits every token
  does, by \<open>token_fits_64\<close>).
\<close>

theorem token_key_roundtrip:
  fixes t :: token_inner and x :: "'w::len word"
  assumes "pointer_width LENGTH('w)" and "token_fits LENGTH('w) t"
  shows "token_of_usize (usize_of_token t :: 'w word) = t \<and> usize_of_token (token_of_usize x) = x"
  using token_roundtrip_width [OF refl assms] usize_roundtrip_width [OF refl assms(1)] by blast+

theorem token_key_roundtrip_witness:
  "token_of_usize (usize_of_token \<lparr>tok_id = 7, tok_version = 3, tok_sub_id = 2\<rparr> :: 64 word)
     = \<lparr>tok_id = 7, tok_version = 3, tok_sub_id = 2\<rparr>
   \<and> usize_of_token (token_of_usize (12345678901 :: 64 word)) = (12345678901 :: 64 word)"
  by (rule token_key_roundtrip) simp_all

text \<open>
  On a 32-bit target a key keeps 16 bits of the slot number, although
  \<open>TokenInner::new\<close> accepts any 32-bit slot number: slots 0 and 65536 are created without an
  error and get the same polling key.
\<close>

theorem narrow_key_collision:
  "\<exists>t u. TokenInner_new 0 = Ok t \<and> TokenInner_new 65536 = Ok u \<and> \<not> same_source_as t u
     \<and> (usize_of_token t :: 32 word) = usize_of_token u"
  by (rule exI [of _ "\<lparr>tok_id = 0, tok_version = 0, tok_sub_id = 0\<rparr>"],
      rule exI [of _ "\<lparr>tok_id = 65536, tok_version = 0, tok_sub_id = 0\<rparr>"])
    (simp add: TokenInner_new_def same_source_as_def usize_of_token_def BITS_SUBID_def
      BITS_VERSION_def push_bit_eq_mult)

end
