(* ===== verification/Timer_Wheel.thy ===== *)
theory Timer_Wheel
  imports Tokens
begin

text \<open>
  The timer wheel of \<open>src/src/sources/timer.rs\<close> (\<open>TimeoutData\<close>, \<open>TimerWheel\<close>): the priority
  queue of registered timeouts that \<open>Poll\<close> consults. \<open>std::collections::BinaryHeap\<close> is modelled
  by the list of its elements, in which \<open>peek\<close> takes the first element of greatest priority;
  the standard library leaves the order of elements of equal priority open, and no lemma below
  depends on it. \<open>self.counter += 1\<close> wraps, as it does where overflow checks are off.
\<close>

section \<open>Instants\<close>

text \<open>
  \<open>Instant\<close> and \<open>Duration\<close> are nanosecond counts. \<open>Instant::checked_add\<close> fails past the
  platform's last instant (a signed 64-bit count of seconds).
\<close>

type_synonym instant = nat
type_synonym duration = nat

definition INSTANT_MAX :: instant where
  "INSTANT_MAX = 2 ^ 63 * 1000000000 - 1"

definition instant_checked_add :: "instant \<Rightarrow> duration \<Rightarrow> instant option" where
  "instant_checked_add i d = (if i + d \<le> INSTANT_MAX then Some (i + d) else None)"

definition saturating_duration_since :: "instant \<Rightarrow> instant \<Rightarrow> duration" where
  "saturating_duration_since later earlier = (if earlier \<le> later then later - earlier else 0)"

section \<open>TimeoutData and its order\<close>

type_synonym token = token_inner

record timeout_data =
  td_deadline :: instant
  td_token :: token
  td_counter :: u32

text \<open>\<open>self.deadline.cmp(&other.deadline).reverse()\<close>: an earlier deadline is a greater element.\<close>

datatype priority = Priority (prio_deadline: instant)

instantiation priority :: linorder
begin

definition less_eq_priority :: "priority \<Rightarrow> priority \<Rightarrow> bool" where
  "less_eq_priority p q \<longleftrightarrow> prio_deadline q \<le> prio_deadline p"

definition less_priority :: "priority \<Rightarrow> priority \<Rightarrow> bool" where
  "less_priority p q \<longleftrightarrow> prio_deadline q < prio_deadline p"

instance
  by standard (auto simp: less_eq_priority_def less_priority_def intro: priority.expand)

end

definition td_priority :: "timeout_data \<Rightarrow> priority" where
  "td_priority d = Priority (td_deadline d)"

text \<open>\<open>PartialEq\<close>: only the deadlines are compared.\<close>

definition td_eq :: "timeout_data \<Rightarrow> timeout_data \<Rightarrow> bool" where
  "td_eq d e \<longleftrightarrow> td_deadline d = td_deadline e"

lemma td_priority_less [simp]: "td_priority d < td_priority e \<longleftrightarrow> td_deadline e < td_deadline d"
  by (simp add: td_priority_def less_priority_def)

lemma td_priority_le [simp]: "td_priority d \<le> td_priority e \<longleftrightarrow> td_deadline e \<le> td_deadline d"
  by (simp add: td_priority_def less_eq_priority_def)

lemma td_eq_priority: "td_eq d e \<longleftrightarrow> td_priority d = td_priority e"
  by (simp add: td_eq_def td_priority_def)

section \<open>BinaryHeap\<close>

fun heap_max :: "timeout_data \<Rightarrow> timeout_data list \<Rightarrow> timeout_data" where
  "heap_max m [] = m"
| "heap_max m (x # xs) = heap_max (if td_priority m < td_priority x then x else m) xs"

fun heap_peek :: "timeout_data list \<Rightarrow> timeout_data option" where
  "heap_peek [] = None"
| "heap_peek (x # xs) = Some (heap_max x xs)"

definition heap_pop :: "timeout_data list \<Rightarrow> timeout_data list" where
  "heap_pop h = (case heap_peek h of None \<Rightarrow> h | Some m \<Rightarrow> remove1 m h)"

definition heap_push :: "timeout_data \<Rightarrow> timeout_data list \<Rightarrow> timeout_data list" where
  "heap_push d h = h @ [d]"

lemma heap_max_props:
  "heap_max m xs \<in> set (m # xs) \<and> (\<forall>x \<in> set (m # xs). td_deadline (heap_max m xs) \<le> td_deadline x)"
proof (induction xs arbitrary: m)
  case Nil
  then show ?case by simp
next
  case (Cons x xs)
  show ?case
    using Cons.IH [of "if td_priority m < td_priority x then x else m"] by (auto split: if_splits)
qed

lemma heap_peek_None_iff [simp]: "heap_peek h = None \<longleftrightarrow> h = []"
  by (cases h) auto

lemma heap_peek_SomeD:
  "heap_peek h = Some d \<Longrightarrow> d \<in> set h \<and> (\<forall>x \<in> set h. td_deadline d \<le> td_deadline x)"
  using heap_max_props by (cases h) auto

lemma mset_heap_pop: "heap_peek h = Some d \<Longrightarrow> mset (heap_pop h) = mset h - {#d#}"
  by (simp add: heap_pop_def)

lemma length_heap_pop: "heap_peek h = Some d \<Longrightarrow> length (heap_pop h) < length h"
  using heap_peek_SomeD [of h d] by (auto simp: heap_pop_def length_remove1 dest: length_pos_if_in_set)

section \<open>TimerWheel\<close>

record timer_wheel =
  tw_heap :: "timeout_data list"
  tw_counter :: u32

definition TimerWheel_new :: timer_wheel where
  "TimerWheel_new = \<lparr>tw_heap = [], tw_counter = 0\<rparr>"

definition wheel_insert :: "instant \<Rightarrow> token \<Rightarrow> timer_wheel \<Rightarrow> u32 \<times> timer_wheel" where
  "wheel_insert deadline token w =
     (let w' = w\<lparr>tw_heap := heap_push \<lparr>td_deadline = deadline, td_token = token, td_counter = tw_counter w\<rparr> (tw_heap w)\<rparr>;
          ret = tw_counter w'
      in (ret, w'\<lparr>tw_counter := tw_counter w' + 1\<rparr>))"

definition wheel_insert_reuse :: "u32 \<Rightarrow> instant \<Rightarrow> token \<Rightarrow> timer_wheel \<Rightarrow> timer_wheel" where
  "wheel_insert_reuse counter deadline token w =
     w\<lparr>tw_heap := heap_push \<lparr>td_deadline = deadline, td_token = token, td_counter = counter\<rparr> (tw_heap w)\<rparr>"

definition wheel_cancel :: "u32 \<Rightarrow> timer_wheel \<Rightarrow> timer_wheel" where
  "wheel_cancel counter w =
     (if (case heap_peek (tw_heap w) of Some data \<Rightarrow> td_counter data = counter | None \<Rightarrow> False)
      then w\<lparr>tw_heap := heap_pop (tw_heap w)\<rparr>
      else w\<lparr>tw_heap := filter (\<lambda>data. td_counter data \<noteq> counter) (tw_heap w)\<rparr>)"

definition wheel_next_expired :: "instant \<Rightarrow> timer_wheel \<Rightarrow> (u32 \<times> token) option \<times> timer_wheel" where
  "wheel_next_expired now w =
     (case heap_peek (tw_heap w) of
        None \<Rightarrow> (None, w)
      | Some data \<Rightarrow>
          if td_deadline data \<le> now
          then (Some (td_counter data, td_token data), w\<lparr>tw_heap := heap_pop (tw_heap w)\<rparr>)
          else (None, w))"

definition wheel_next_deadline :: "timer_wheel \<Rightarrow> instant option" where
  "wheel_next_deadline w = map_option td_deadline (heap_peek (tw_heap w))"

section \<open>The contract of the wheel\<close>

text \<open>
  The wheel as a multiset of timeouts. What \<open>Poll\<close> and the timer source rely on: inserting adds
  one entry, cancelling a counter removes its entry, expiring takes an earliest entry whose
  deadline is not after \<open>now\<close>, and fails only if there is none.
\<close>

definition wheel_items :: "timer_wheel \<Rightarrow> timeout_data multiset" where
  "wheel_items w = mset (tw_heap w)"

definition distinct_counters :: "timeout_data multiset \<Rightarrow> bool" where
  "distinct_counters M \<longleftrightarrow> (\<forall>c. size (filter_mset (\<lambda>d. td_counter d = c) M) \<le> 1)"

locale timer_queue =
  fixes items :: "'q \<Rightarrow> timeout_data multiset"
    and insert :: "instant \<Rightarrow> token \<Rightarrow> 'q \<Rightarrow> u32 \<times> 'q"
    and reuse :: "u32 \<Rightarrow> instant \<Rightarrow> token \<Rightarrow> 'q \<Rightarrow> 'q"
    and cancel :: "u32 \<Rightarrow> 'q \<Rightarrow> 'q"
    and expire :: "instant \<Rightarrow> 'q \<Rightarrow> (u32 \<times> token) option \<times> 'q"
    and earliest :: "'q \<Rightarrow> instant option"
  assumes items_insert: "insert d t q = (c, q') \<Longrightarrow>
      items q' = add_mset \<lparr>td_deadline = d, td_token = t, td_counter = c\<rparr> (items q)"
    and items_reuse: "items (reuse c d t q) =
      add_mset \<lparr>td_deadline = d, td_token = t, td_counter = c\<rparr> (items q)"
    and items_cancel: "distinct_counters (items q) \<Longrightarrow>
      items (cancel c q) = filter_mset (\<lambda>d. td_counter d \<noteq> c) (items q)"
    and expire_None: "expire now q = (None, q') \<Longrightarrow> q' = q \<and> (\<forall>d \<in># items q. now < td_deadline d)"
    and expire_Some: "expire now q = (Some (c, t), q') \<Longrightarrow>
      \<exists>d. d \<in># items q \<and> td_counter d = c \<and> td_token d = t \<and> td_deadline d \<le> now
        \<and> (\<forall>e \<in># items q. td_deadline d \<le> td_deadline e) \<and> items q' = items q - {#d#}"
    and earliest_None: "earliest q = None \<Longrightarrow> items q = {#}"
    and earliest_Some: "earliest q = Some i \<Longrightarrow>
      \<exists>d. d \<in># items q \<and> td_deadline d = i \<and> (\<forall>e \<in># items q. i \<le> td_deadline e)"
begin

lemma cancel_gone: "distinct_counters (items q) \<Longrightarrow> d \<in># items (cancel c q) \<Longrightarrow> td_counter d \<noteq> c"
  by (simp add: items_cancel)

lemma cancel_frame:
  "distinct_counters (items q) \<Longrightarrow> td_counter d \<noteq> c \<Longrightarrow> count (items (cancel c q)) d = count (items q) d"
  by (simp add: items_cancel)

lemma expire_due:
  assumes "d \<in># items q" and "td_deadline d \<le> now"
  shows "fst (expire now q) \<noteq> None"
proof
  assume "fst (expire now q) = None"
  then have "expire now q = (None, snd (expire now q))" by (metis prod.collapse)
  from expire_None [OF this] assms show False by force
qed

lemma earliest_due:
  assumes "d \<in># items q"
  shows "\<exists>i. earliest q = Some i \<and> i \<le> td_deadline d"
  using assms earliest_None [of q] earliest_Some [of q] by (cases "earliest q") force+

lemma expire_shrinks: "expire now q = (Some e, q') \<Longrightarrow> size (items q') < size (items q)"
  using expire_Some [of now q "fst e" "snd e" q'] by (metis prod.collapse size_Diff1_less)

end

lemma distinct_counters_remove:
  assumes "distinct_counters M" and "d \<in># M"
  shows "M - {#d#} = filter_mset (\<lambda>e. td_counter e \<noteq> td_counter d) M"
proof -
  let ?p = "\<lambda>e. td_counter e = td_counter d"
  obtain N where N: "M = add_mset d N" using assms(2) by (meson mset_add)
  have "size (filter_mset ?p M) \<le> 1" using assms(1) unfolding distinct_counters_def by blast
  then have "filter_mset ?p N = {#}" by (simp add: N)
  then have "filter_mset (\<lambda>e. \<not> ?p e) N = filter_mset (\<lambda>_. True) N"
    by (intro filter_mset_cong refl) auto
  then show ?thesis by (simp add: N)
qed

interpretation wheel: timer_queue wheel_items wheel_insert wheel_insert_reuse wheel_cancel
  wheel_next_expired wheel_next_deadline
proof (unfold_locales, goal_cases)
  case (1 d t q c q')
  then show ?case by (auto simp: wheel_insert_def wheel_items_def heap_push_def Let_def)
next
  case (2 c d t q)
  then show ?case by (simp add: wheel_insert_reuse_def wheel_items_def heap_push_def)
next
  case (3 q c)
  then show ?case
    using distinct_counters_remove [of "wheel_items q"] heap_peek_SomeD [of "tw_heap q"]
    by (auto simp: wheel_cancel_def wheel_items_def mset_heap_pop split: option.splits)
next
  case (4 now q q')
  then show ?case
    using heap_peek_SomeD [of "tw_heap q"]
    by (fastforce simp: wheel_next_expired_def wheel_items_def split: option.splits if_splits)
next
  case (5 now q c t q')
  then obtain d where d: "heap_peek (tw_heap q) = Some d" "td_deadline d \<le> now"
    "td_counter d = c" "td_token d = t" "q' = q\<lparr>tw_heap := heap_pop (tw_heap q)\<rparr>"
    by (auto simp: wheel_next_expired_def split: option.splits if_splits)
  then show ?case
    using heap_peek_SomeD [OF d(1)] by (auto simp: wheel_items_def mset_heap_pop)
next
  case (6 q)
  then show ?case by (simp add: wheel_next_deadline_def wheel_items_def)
next
  case (7 q i)
  then obtain d where "heap_peek (tw_heap q) = Some d" "td_deadline d = i"
    by (auto simp: wheel_next_deadline_def)
  then show ?case using heap_peek_SomeD [of "tw_heap q" d] by (auto simp: wheel_items_def)
qed

end
