(* ===== verification/Sys.thy ===== *)
theory Sys
  imports Timer_Wheel
begin

text \<open>
  \<open>src/src/sys.rs\<close>: registration modes and interests, the token factory, and \<open>Poll\<close>, which
  couples the third-party poller with the timer wheel and emulates level-triggering where the
  poller lacks it.

  The \<open>polling\<close> crate and the clock are not part of the repository: the type \<open>'p\<close> is the state
  of the operating system they give access to, and a record of operations on it is an argument
  of every definition that uses them. \<open>poller_contract\<close> states the documented behaviour the
  properties rely on.
\<close>

section \<open>Modes, interests, readiness\<close>

datatype mode = OneShot | Level | Edge

record interest =
  in_readable :: bool
  in_writable :: bool

definition Interest_EMPTY :: interest where
  "Interest_EMPTY = \<lparr>in_readable = False, in_writable = False\<rparr>"

definition Interest_READ :: interest where
  "Interest_READ = \<lparr>in_readable = True, in_writable = False\<rparr>"

definition Interest_WRITE :: interest where
  "Interest_WRITE = \<lparr>in_readable = False, in_writable = True\<rparr>"

definition Interest_BOTH :: interest where
  "Interest_BOTH = \<lparr>in_readable = True, in_writable = True\<rparr>"

record readiness =
  rd_readable :: bool
  rd_writable :: bool
  rd_error :: bool

definition Readiness_EMPTY :: readiness where
  "Readiness_EMPTY = \<lparr>rd_readable = False, rd_writable = False, rd_error = False\<rparr>"

record poll_event =
  pe_readiness :: readiness
  pe_token :: token

section \<open>TokenFactory\<close>

type_synonym registration_token = token_inner

record token_factory =
  next_token :: token_inner

definition TokenFactory_new :: "token_inner \<Rightarrow> token_factory" where
  "TokenFactory_new token = \<lparr>next_token = forget_sub_id token\<rparr>"

definition factory_registration_token :: "token_factory \<Rightarrow> registration_token" where
  "factory_registration_token tf = forget_sub_id (next_token tf)"

definition factory_token :: "token_factory \<Rightarrow> token cresult \<times> token_factory" where
  "factory_token tf =
     (let token = next_token tf in
      case increment_sub_id 64 token of
        Ok nt \<Rightarrow> (Ok token, tf\<lparr>next_token := nt\<rparr>)
      | Err e \<Rightarrow> (Err e, tf)
      | Panic \<Rightarrow> (Panic, tf)
      | Diverge \<Rightarrow> (Diverge, tf))"

section \<open>The poller\<close>

type_synonym raw_fd = nat

datatype poll_mode = PollOneshot | PollLevel | PollEdge

record pevent =
  ev_key :: usize
  ev_readable :: bool
  ev_writable :: bool

record 'p poller_ops =
  pl_now :: "'p \<Rightarrow> instant"
  pl_supports_level :: "'p \<Rightarrow> bool"
  pl_add :: "'p \<Rightarrow> raw_fd \<Rightarrow> pevent \<Rightarrow> poll_mode \<Rightarrow> (io_error + unit) \<times> 'p"
  pl_modify :: "'p \<Rightarrow> raw_fd \<Rightarrow> pevent \<Rightarrow> poll_mode \<Rightarrow> (io_error + unit) \<times> 'p"
  pl_delete :: "'p \<Rightarrow> raw_fd \<Rightarrow> (io_error + unit) \<times> 'p"
  pl_wait :: "'p \<Rightarrow> duration option \<Rightarrow> (io_error + pevent list) \<times> 'p"
  pl_notify :: "'p \<Rightarrow> (io_error + unit) \<times> 'p"

text \<open>\<open>Event::none(key)\<close> with the two flags set; \<open>cvt_mode\<close>.\<close>

definition cvt_interest :: "interest \<Rightarrow> token \<Rightarrow> pevent" where
  "cvt_interest i tok =
     \<lparr>ev_key = usize_of_token tok, ev_readable = in_readable i, ev_writable = in_writable i\<rparr>"

definition cvt_mode :: "mode \<Rightarrow> bool \<Rightarrow> poll_mode" where
  "cvt_mode m supports_other_modes =
     (if \<not> supports_other_modes then PollOneshot
      else case m of Edge \<Rightarrow> PollEdge | Level \<Rightarrow> PollLevel | OneShot \<Rightarrow> PollOneshot)"

section \<open>Poll\<close>

type_synonym level_map = "usize \<rightharpoonup> raw_fd \<times> pevent"

record 'p poll =
  poller :: 'p
  level_triggered :: "level_map option"
  timers :: timer_wheel

text \<open>\<open>Poll::new_inner\<close>; the result of \<open>Poller::new()\<close> is an argument.\<close>

definition Poll_new_inner :: "'p poller_ops \<Rightarrow> (io_error + 'p) \<Rightarrow> bool \<Rightarrow> 'p poll cresult" where
  "Poll_new_inner K new_poller force_fallback_lt =
     (case new_poller of
        Inl e \<Rightarrow> Err (error_from_io e)
      | Inr p \<Rightarrow>
          Ok \<lparr>poller = p,
              level_triggered = (if pl_supports_level K p \<and> \<not> force_fallback_lt then None else Some Map.empty),
              timers = TimerWheel_new\<rparr>)"

definition Poll_new :: "'p poller_ops \<Rightarrow> (io_error + 'p) \<Rightarrow> 'p poll cresult" where
  "Poll_new K new_poller = Poll_new_inner K new_poller False"

text \<open>The first step of \<open>Poll::poll\<close>: the timeout, shortened to the next timer deadline.\<close>

definition poll_timeout :: "'p poller_ops \<Rightarrow> 'p poll \<Rightarrow> duration option \<Rightarrow> duration option" where
  "poll_timeout K P timeout =
     (let next_timeout = map_option (\<lambda>deadline. saturating_duration_since deadline (pl_now K (poller P)))
            (wheel_next_deadline (timers P))
      in case (timeout, next_timeout) of
           (Some t, Some n) \<Rightarrow> Some (min t n)
         | (Some t, None) \<Rightarrow> Some t
         | (None, n) \<Rightarrow> n)"

text \<open>
  The conversion of the poller's events. Where level-triggering is emulated, the descriptor of
  an event found in the map is armed again (\<open>Poller::modify\<close> is one-shot); the first failure
  ends the conversion.
\<close>

definition event_of_pevent :: "pevent \<Rightarrow> poll_event" where
  "event_of_pevent ev =
     \<lparr>pe_readiness = \<lparr>rd_readable = ev_readable ev, rd_writable = ev_writable ev, rd_error = False\<rparr>,
      pe_token = token_of_usize (ev_key ev)\<rparr>"

definition rearm :: "'p poller_ops \<Rightarrow> level_map option \<Rightarrow> pevent \<Rightarrow> 'p \<Rightarrow> (io_error + unit) \<times> 'p" where
  "rearm K lt ev p =
     (case lt of
        None \<Rightarrow> (Inr (), p)
      | Some m \<Rightarrow>
          (case m (ev_key ev) of
             None \<Rightarrow> (Inr (), p)
           | Some (source, i) \<Rightarrow> pl_modify K p source i PollOneshot))"

fun convert_events :: "'p poller_ops \<Rightarrow> level_map option \<Rightarrow> pevent list \<Rightarrow> 'p
    \<Rightarrow> (io_error + poll_event list) \<times> 'p" where
  "convert_events K lt [] p = (Inr [], p)"
| "convert_events K lt (ev # evs) p =
     (case rearm K lt ev p of
        (Inl e, p') \<Rightarrow> (Inl e, p')
      | (Inr _, p') \<Rightarrow>
          (case convert_events K lt evs p' of
             (Inl e, p'') \<Rightarrow> (Inl e, p'')
           | (Inr pes, p'') \<Rightarrow> (Inr (event_of_pevent ev # pes), p'')))"

text \<open>
  The last step of \<open>Poll::poll\<close>: \<open>while let Some((_, token)) = timers.next_expired(now)\<close>. Each
  round removes an entry from the heap.
\<close>

function drain_expired :: "instant \<Rightarrow> timer_wheel \<Rightarrow> token list \<times> timer_wheel" where
  "drain_expired now w =
     (case wheel_next_expired now w of
        (None, w') \<Rightarrow> ([], w')
      | (Some (_, token), w') \<Rightarrow>
          (case drain_expired now w' of (ts, w'') \<Rightarrow> (token # ts, w'')))"
  by pat_completeness auto
termination
  by (relation "measure (\<lambda>(now, w). length (tw_heap w))")
    (auto simp: wheel_next_expired_def length_heap_pop split: option.splits if_splits)

declare drain_expired.simps [simp del]

definition timer_event :: "token \<Rightarrow> poll_event" where
  "timer_event token =
     \<lparr>pe_readiness = \<lparr>rd_readable = True, rd_writable = False, rd_error = False\<rparr>, pe_token = token\<rparr>"

definition Poll_poll :: "'p poller_ops \<Rightarrow> duration option \<Rightarrow> 'p poll \<Rightarrow> poll_event list cresult \<times> 'p poll" where
  "Poll_poll K timeout P =
     (case pl_wait K (poller P) (poll_timeout K P timeout) of
        (Inl e, p) \<Rightarrow> (Err (error_from_io e), P\<lparr>poller := p\<rparr>)
      | (Inr events, p) \<Rightarrow>
          (case convert_events K (level_triggered P) events p of
             (Inl e, p') \<Rightarrow> (Err (error_from_io e), P\<lparr>poller := p'\<rparr>)
           | (Inr poll_events, p') \<Rightarrow>
               (case drain_expired (pl_now K p') (timers P) of
                  (tokens, w) \<Rightarrow>
                    (Ok (poll_events @ map timer_event tokens), P\<lparr>poller := p', timers := w\<rparr>))))"

text \<open>\<open>if let (Mode::Level, Some(level_triggered))\<close>: remember an emulated registration.\<close>

definition track_level :: "mode \<Rightarrow> raw_fd \<Rightarrow> pevent \<Rightarrow> 'p poll \<Rightarrow> 'p poll" where
  "track_level m raw ev P =
     (case (m, level_triggered P) of
        (Level, Some lt) \<Rightarrow> P\<lparr>level_triggered := Some (lt(ev_key ev \<mapsto> (raw, ev)))\<rparr>
      | _ \<Rightarrow> P)"

definition Poll_register :: "'p poller_ops \<Rightarrow> raw_fd \<Rightarrow> interest \<Rightarrow> mode \<Rightarrow> token \<Rightarrow> 'p poll
    \<Rightarrow> unit cresult \<times> 'p poll" where
  "Poll_register K raw i m token P =
     (let ev = cvt_interest i token in
      case pl_add K (poller P) raw ev (cvt_mode m (pl_supports_level K (poller P))) of
        (Inl e, p) \<Rightarrow> (Err (error_from_io e), P\<lparr>poller := p\<rparr>)
      | (Inr _, p) \<Rightarrow> (Ok (), track_level m raw ev (P\<lparr>poller := p\<rparr>)))"

definition Poll_reregister :: "'p poller_ops \<Rightarrow> raw_fd \<Rightarrow> interest \<Rightarrow> mode \<Rightarrow> token \<Rightarrow> 'p poll
    \<Rightarrow> unit cresult \<times> 'p poll" where
  "Poll_reregister K raw i m token P =
     (let ev = cvt_interest i token in
      case pl_modify K (poller P) raw ev (cvt_mode m (pl_supports_level K (poller P))) of
        (Inl e, p) \<Rightarrow> (Err (error_from_io e), P\<lparr>poller := p\<rparr>)
      | (Inr _, p) \<Rightarrow> (Ok (), track_level m raw ev (P\<lparr>poller := p\<rparr>)))"

definition level_retain :: "raw_fd \<Rightarrow> level_map \<Rightarrow> level_map" where
  "level_retain raw lt =
     (\<lambda>k. case lt k of Some (source, ev) \<Rightarrow> if source \<noteq> raw then Some (source, ev) else None | None \<Rightarrow> None)"

definition Poll_unregister :: "'p poller_ops \<Rightarrow> raw_fd \<Rightarrow> 'p poll \<Rightarrow> unit cresult \<times> 'p poll" where
  "Poll_unregister K raw P =
     (case pl_delete K (poller P) raw of
        (Inl e, p) \<Rightarrow> (Err (error_from_io e), P\<lparr>poller := p\<rparr>)
      | (Inr _, p) \<Rightarrow>
          (Ok (), P\<lparr>poller := p, level_triggered := map_option (level_retain raw) (level_triggered P)\<rparr>))"

text \<open>\<open>Notifier::notify\<close>.\<close>

definition Notifier_notify :: "'p poller_ops \<Rightarrow> 'p poll \<Rightarrow> unit cresult \<times> 'p poll" where
  "Notifier_notify K P = (case pl_notify K (poller P) of (r, p) \<Rightarrow> (lift_io r, P\<lparr>poller := p\<rparr>))"


lemmas poll_op_defs [poll_defs] =
  Poll_register_def Poll_reregister_def Poll_unregister_def track_level_def Notifier_notify_def

section \<open>Tokens of a factory\<close>

lemma factory_token_eq:
  "factory_token tf =
     (if unat (tok_sub_id (next_token tf)) + 1 < 65536
      then (Ok (next_token tf), tf\<lparr>next_token := (next_token tf)\<lparr>tok_sub_id := tok_sub_id (next_token tf) + 1\<rparr>\<rparr>)
      else (Panic, tf))"
  by (simp add: factory_token_def increment_sub_id_eq BITS_SUBID_def Let_def)

lemma factory_new_token [simp]:
  "factory_token (TokenFactory_new t) =
     (Ok (forget_sub_id t), \<lparr>next_token = (forget_sub_id t)\<lparr>tok_sub_id := 1\<rparr>\<rparr>)"
  by (simp add: factory_token_eq TokenFactory_new_def)

lemma factory_new_registration [simp]:
  "factory_registration_token (TokenFactory_new t) = forget_sub_id t"
  by (simp add: factory_registration_token_def TokenFactory_new_def)

lemma factory_token_registration:
  "factory_token tf = (r, tf') \<Longrightarrow> factory_registration_token tf' = factory_registration_token tf"
  by (auto simp: factory_token_eq factory_registration_token_def forget_sub_id_def split: if_splits)

lemma factory_token_same_source:
  "factory_token tf = (Ok t, tf') \<Longrightarrow> forget_sub_id t = factory_registration_token tf"
  by (auto simp: factory_token_eq factory_registration_token_def split: if_splits)

fun factory_tokens :: "nat \<Rightarrow> token_factory \<Rightarrow> token list cresult \<times> token_factory" where
  "factory_tokens 0 tf = (Ok [], tf)"
| "factory_tokens (Suc n) tf =
     and_then (factory_token tf) (\<lambda>t tf'. and_then (factory_tokens n tf') (\<lambda>ts tf''. (Ok (t # ts), tf'')))"

lemma factory_tokens_from:
  "unat (tok_sub_id t) + n < 65536 \<Longrightarrow>
     \<exists>ts. fst (factory_tokens n \<lparr>next_token = t\<rparr>) = Ok ts \<and> length ts = n
       \<and> (\<forall>i < n. ts ! i = t\<lparr>tok_sub_id := tok_sub_id t + of_nat i\<rparr>)"
proof (induction n arbitrary: t)
  case 0
  then show ?case by simp
next
  case (Suc n)
  let ?t' = "t\<lparr>tok_sub_id := tok_sub_id t + 1\<rparr>"
  have next_sub: "unat (tok_sub_id t + 1) = unat (tok_sub_id t) + 1"
    using Suc.prems by (simp add: unat_word_ariths)
  obtain ts where ts: "fst (factory_tokens n \<lparr>next_token = ?t'\<rparr>) = Ok ts" "length ts = n"
      "\<forall>i < n. ts ! i = t\<lparr>tok_sub_id := tok_sub_id t + 1 + of_nat i\<rparr>"
    using Suc.IH [of ?t'] Suc.prems next_sub by auto
  then have "fst (factory_tokens (Suc n) \<lparr>next_token = t\<rparr>) = Ok (t # ts)"
    using Suc.prems by (cases "factory_tokens n \<lparr>next_token = ?t'\<rparr> :: token list cresult \<times> token_factory")
      (auto simp: factory_token_eq)
  then show ?case
    using ts(2,3) by (intro exI [of _ "t # ts"]) (auto simp: nth_Cons' algebra_simps of_nat_diff)
qed

lemma factory_tokens_too_many:
  "unat (tok_sub_id t) + n \<ge> 65536 \<Longrightarrow> fst (factory_tokens n \<lparr>next_token = t\<rparr>) = Panic"
proof (induction n arbitrary: t)
  case 0
  then show ?case using unat_less_power [of "tok_sub_id t"] by simp
next
  case (Suc n)
  let ?t' = "t\<lparr>tok_sub_id := tok_sub_id t + 1\<rparr>"
  show ?case
  proof (cases "unat (tok_sub_id t) + 1 < 65536")
    case True
    then have "fst (factory_tokens n \<lparr>next_token = ?t'\<rparr> :: token list cresult \<times> token_factory) = Panic"
      using Suc.IH [of ?t'] Suc.prems by (simp add: unat_word_ariths)
    with True show ?thesis
      by (cases "factory_tokens n \<lparr>next_token = ?t'\<rparr> :: token list cresult \<times> token_factory")
        (auto simp: factory_token_eq)
  next
    case False
    then show ?thesis by (simp add: factory_token_eq)
  qed
qed

section \<open>The poller's contract\<close>

text \<open>
  The documented behaviour of \<open>polling::Poller\<close>: \<open>regs\<close> is its table of registrations. Adding
  succeeds only for a descriptor that is not registered, modifying and deleting only for one
  that is; a failed call changes no registration; waiting reports only keys of registered
  descriptors and neither adds nor removes one; the clock never goes back.
\<close>

definition poller_contract :: "'p poller_ops \<Rightarrow> ('p \<Rightarrow> raw_fd \<rightharpoonup> pevent \<times> poll_mode) \<Rightarrow> bool" where
  "poller_contract K regs \<longleftrightarrow>
     (\<forall>p fd ev m. case pl_add K p fd ev m of
        (Inl _, p') \<Rightarrow> regs p' = regs p \<and> pl_now K p \<le> pl_now K p'
      | (Inr _, p') \<Rightarrow> regs p fd = None \<and> regs p' = (regs p)(fd \<mapsto> (ev, m)) \<and> pl_now K p \<le> pl_now K p') \<and>
     (\<forall>p fd ev m. case pl_modify K p fd ev m of
        (Inl _, p') \<Rightarrow> regs p' = regs p \<and> pl_now K p \<le> pl_now K p'
      | (Inr _, p') \<Rightarrow> regs p fd \<noteq> None \<and> regs p' = (regs p)(fd \<mapsto> (ev, m)) \<and> pl_now K p \<le> pl_now K p') \<and>
     (\<forall>p fd. case pl_delete K p fd of
        (Inl _, p') \<Rightarrow> regs p' = regs p \<and> pl_now K p \<le> pl_now K p'
      | (Inr _, p') \<Rightarrow> regs p fd \<noteq> None \<and> regs p' = (regs p)(fd := None) \<and> pl_now K p \<le> pl_now K p') \<and>
     (\<forall>p t. case pl_wait K p t of
        (Inl _, p') \<Rightarrow> dom (regs p') = dom (regs p) \<and> pl_now K p \<le> pl_now K p'
      | (Inr evs, p') \<Rightarrow> dom (regs p') = dom (regs p) \<and> pl_now K p \<le> pl_now K p' \<and>
          (\<forall>ev \<in> set evs. \<exists>fd e m. regs p fd = Some (e, m) \<and> ev_key e = ev_key ev)) \<and>
     (\<forall>p. case pl_notify K p of (_, p') \<Rightarrow> regs p' = regs p \<and> pl_now K p \<le> pl_now K p')"

lemma contract_add:
  assumes "poller_contract K regs"
  shows "pl_add K p fd ev m = (Inr u, p') \<Longrightarrow> regs p fd = None \<and> regs p' = (regs p)(fd \<mapsto> (ev, m))"
    and "pl_add K p fd ev m = (Inl e, p') \<Longrightarrow> regs p' = regs p"
  using assms [unfolded poller_contract_def, THEN conjunct1, rule_format, of p fd ev m]
  by auto

lemma contract_modify:
  assumes "poller_contract K regs"
  shows "pl_modify K p fd ev m = (Inr u, p') \<Longrightarrow> regs p fd \<noteq> None \<and> regs p' = (regs p)(fd \<mapsto> (ev, m))"
    and "pl_modify K p fd ev m = (Inl e, p') \<Longrightarrow> regs p' = regs p"
  using assms [unfolded poller_contract_def, THEN conjunct2, THEN conjunct1, rule_format, of p fd ev m]
  by auto

lemma contract_delete:
  assumes "poller_contract K regs"
  shows "pl_delete K p fd = (Inr u, p') \<Longrightarrow> regs p fd \<noteq> None \<and> regs p' = (regs p)(fd := None)"
    and "pl_delete K p fd = (Inl e, p') \<Longrightarrow> regs p' = regs p"
  using assms [unfolded poller_contract_def, THEN conjunct2, THEN conjunct2, THEN conjunct1, rule_format, of p fd]
  by auto

lemma contract_wait:
  assumes "poller_contract K regs" and "pl_wait K p t = (r, p')"
  shows "dom (regs p') = dom (regs p)"
    and "r = Inr evs \<Longrightarrow> ev \<in> set evs \<Longrightarrow> \<exists>fd e m. regs p fd = Some (e, m) \<and> ev_key e = ev_key ev"
  using assms(1) [unfolded poller_contract_def, THEN conjunct2, THEN conjunct2, THEN conjunct2,
      THEN conjunct1, rule_format, of p t] assms(2)
  by (auto split: sum.splits)

lemma contract_notify:
  assumes "poller_contract K regs" and "pl_notify K p = (r, p')"
  shows "regs p' = regs p"
  using assms(1) [unfolded poller_contract_def, THEN conjunct2, THEN conjunct2, THEN conjunct2,
      THEN conjunct2, rule_format, of p] assms(2)
  by auto

end
