(* ===== verification/Poll_Laws.thy ===== *)
theory Poll_Laws
  imports Sys
begin

text \<open>
  What the polling layer of \<open>src/src/sys.rs\<close> guarantees: the timeout passed to the poller,
  the expired timers it reports, the tokens of a factory, and the invariant of the map that
  emulates level-triggering, over every sequence of calls on a \<open>Poll\<close>.

  \<open>script_poller\<close> is a poller with a table of registrations, a clock and a script of the
  results its \<open>wait\<close> calls give; the witnesses run the model on it.
\<close>

section \<open>A scripted poller for the witnesses\<close>

record script_poller =
  sp_regs :: "(raw_fd \<times> pevent \<times> poll_mode) list"
  sp_now :: instant
  sp_level :: bool
  sp_script :: "(duration \<times> (io_error + pevent list)) list"

definition sp_table :: "script_poller \<Rightarrow> raw_fd \<rightharpoonup> pevent \<times> poll_mode" where
  "sp_table p = map_of (sp_regs p)"

definition sp_keys :: "script_poller \<Rightarrow> usize set" where
  "sp_keys p = set (map (\<lambda>(fd, e, m). ev_key e) (filter (\<lambda>(fd, e, m). map_of (sp_regs p) fd = Some (e, m)) (sp_regs p)))"

definition sp_drop :: "raw_fd \<Rightarrow> (raw_fd \<times> 'a) list \<Rightarrow> (raw_fd \<times> 'a) list" where
  "sp_drop fd xs = filter (\<lambda>(f, _). f \<noteq> fd) xs"

definition sp_wait :: "script_poller \<Rightarrow> duration option \<Rightarrow> (io_error + pevent list) \<times> script_poller" where
  "sp_wait p t =
     (case sp_script p of
        [] \<Rightarrow> (Inr [], p\<lparr>sp_now := sp_now p + (case t of None \<Rightarrow> 0 | Some d \<Rightarrow> d)\<rparr>)
      | (d, r) # rest \<Rightarrow>
          (map_sum id (filter (\<lambda>ev. ev_key ev \<in> sp_keys p)) r,
           p\<lparr>sp_now := sp_now p + d, sp_script := rest\<rparr>))"

definition SP :: "script_poller poller_ops" where
  "SP = \<lparr>pl_now = sp_now, pl_supports_level = sp_level,
     pl_add = (\<lambda>p fd ev m. if map_of (sp_regs p) fd = None
        then (Inr (), p\<lparr>sp_regs := (fd, ev, m) # sp_regs p\<rparr>) else (Inl AlreadyExists, p)),
     pl_modify = (\<lambda>p fd ev m. if map_of (sp_regs p) fd \<noteq> None
        then (Inr (), p\<lparr>sp_regs := (fd, ev, m) # sp_drop fd (sp_regs p)\<rparr>) else (Inl NotFound, p)),
     pl_delete = (\<lambda>p fd. if map_of (sp_regs p) fd \<noteq> None
        then (Inr (), p\<lparr>sp_regs := sp_drop fd (sp_regs p)\<rparr>) else (Inl NotFound, p)),
     pl_wait = sp_wait,
     pl_notify = (\<lambda>p. (Inr (), p))\<rparr>"

lemma map_of_sp_drop: "map_of (sp_drop fd xs) = (map_of xs)(fd := None)"
  by (induction xs) (auto simp: sp_drop_def)

lemma sp_keys_registered: "k \<in> sp_keys p \<Longrightarrow> \<exists>fd e m. sp_table p fd = Some (e, m) \<and> ev_key e = k"
  by (auto simp: sp_keys_def sp_table_def)

lemma SP_contract: "poller_contract SP sp_table"
  unfolding poller_contract_def
  by (auto simp: SP_def sp_table_def map_of_sp_drop sp_wait_def map_sum_def
      split: list.splits sum.splits dest!: sp_keys_registered) blast

section \<open>The timeout of a poll\<close>

text \<open>
  The timeout handed to the poller is the caller's, shortened to the time left until the
  next timer: it is absent exactly if the caller gave none and no timer is registered, it never
  exceeds the caller's, and no registered timer's deadline lies further away than it unless the
  caller's own timeout ends first.
\<close>

theorem poll_timeout_bounds:
  "(poll_timeout K P timeout = None \<longleftrightarrow> timeout = None \<and> wheel_items (timers P) = {#}) \<and>
   (\<forall>t. timeout = Some t \<longrightarrow> (\<exists>s. poll_timeout K P timeout = Some s \<and> s \<le> t)) \<and>
   (\<forall>d \<in># wheel_items (timers P). \<exists>s. poll_timeout K P timeout = Some s \<and>
      s \<le> td_deadline d - pl_now K (poller P))"
proof (intro conjI allI ballI impI)
  show "poll_timeout K P timeout = None \<longleftrightarrow> timeout = None \<and> wheel_items (timers P) = {#}"
    by (auto simp: poll_timeout_def wheel_next_deadline_def wheel_items_def Let_def split: option.splits)
next
  fix t assume "timeout = Some t"
  then show "\<exists>s. poll_timeout K P timeout = Some s \<and> s \<le> t"
    by (auto simp: poll_timeout_def Let_def split: option.splits)
next
  fix d assume "d \<in># wheel_items (timers P)"
  then obtain i where "wheel_next_deadline (timers P) = Some i" "i \<le> td_deadline d"
    using wheel.earliest_due by blast
  then show "\<exists>s. poll_timeout K P timeout = Some s \<and> s \<le> td_deadline d - pl_now K (poller P)"
    by (auto simp: poll_timeout_def saturating_duration_since_def Let_def split: option.splits)
qed

text \<open>A poll with one timer, due at 7, and the clock at 4.\<close>

definition timer_poll :: "script_poller poll" where
  "timer_poll =
     \<lparr>poller = \<lparr>sp_regs = [], sp_now = 4, sp_level = True, sp_script = []\<rparr>, level_triggered = None,
      timers = snd (wheel_insert 7 \<lparr>tok_id = 0, tok_version = 0, tok_sub_id = 0\<rparr> TimerWheel_new)\<rparr>"

theorem poll_timeout_bounds_witness:
  "\<exists>s. poll_timeout SP timer_poll (Some 10) = Some s \<and> s \<le> 3"
proof -
  have "wheel_items (timers timer_poll) = {#\<lparr>td_deadline = 7, td_token = \<lparr>tok_id = 0, tok_version = 0, tok_sub_id = 0\<rparr>, td_counter = 0\<rparr>#}"
    by (simp add: timer_poll_def wheel_insert_def heap_push_def TimerWheel_new_def wheel_items_def Let_def)
  with poll_timeout_bounds [of SP timer_poll "Some 10"] show ?thesis
    by (auto simp: timer_poll_def SP_def)
qed

section \<open>Expired timers\<close>

lemma drain_expired_items:
  "drain_expired now w = (ts, w') \<Longrightarrow>
     \<exists>ds. ts = map td_token ds \<and> mset ds = filter_mset (\<lambda>d. td_deadline d \<le> now) (wheel_items w)
       \<and> sorted (map td_deadline ds)
       \<and> wheel_items w' = filter_mset (\<lambda>d. now < td_deadline d) (wheel_items w)
       \<and> tw_counter w' = tw_counter w"
proof (induction now w arbitrary: ts w' rule: drain_expired.induct)
  case (1 now w)
  show ?case
  proof (cases "fst (wheel_next_expired now w)")
    case None
    then have none: "wheel_next_expired now w = (None, w)"
      by (auto simp: wheel_next_expired_def split: option.splits if_splits)
    then have "\<forall>d \<in># wheel_items w. now < td_deadline d" using wheel.expire_None by blast
    then have "filter_mset (\<lambda>d. td_deadline d \<le> now) (wheel_items w) = {#}"
      "filter_mset (\<lambda>d. now < td_deadline d) (wheel_items w) = wheel_items w"
      by (auto simp: filter_mset_eq_conv not_le [symmetric])
    with "1.prems" none show ?thesis by (simp add: drain_expired.simps [of now w])
  next
    case (Some e)
    then obtain c t v where e: "wheel_next_expired now w = (Some (c, t), v)"
      by (metis prod.collapse)
    obtain ts' where ts': "drain_expired now v = (ts', w')" "ts = t # ts'"
      using "1.prems" e by (auto simp: drain_expired.simps [of now w] split: prod.splits)
    from wheel.expire_Some [OF e] obtain d where d: "d \<in># wheel_items w" "td_token d = t"
      "td_deadline d \<le> now" "\<forall>x \<in># wheel_items w. td_deadline d \<le> td_deadline x"
      "wheel_items v = wheel_items w - {#d#}" by auto
    have cnt: "tw_counter v = tw_counter w"
      using e by (auto simp: wheel_next_expired_def split: option.splits if_splits)
    obtain M where M: "wheel_items w = add_mset d M" using d(1) by (meson mset_add)
    from "1.IH" [OF e [symmetric] refl refl ts'(1)] obtain ds where ds: "ts' = map td_token ds"
      "mset ds = filter_mset (\<lambda>d. td_deadline d \<le> now) M" "sorted (map td_deadline ds)"
      "wheel_items w' = filter_mset (\<lambda>d. now < td_deadline d) M" "tw_counter w' = tw_counter v"
      using d(5) M by auto
    have "\<forall>x \<in> set ds. td_deadline d \<le> td_deadline x"
      using d(4) ds(2) M by (metis filter_mset_eq_conv insert_iff mset_subset_eqD set_mset_add_mset_insert set_mset_mset multiset_filter_subset)
    with ds d(2,3) ts'(2) M cnt show ?thesis
      by (intro exI [of _ "d # ds"]) auto
  qed
qed

lemma drain_expired_mono: "drain_expired now w = (ts, w') \<Longrightarrow> wheel_items w' \<subseteq># wheel_items w"
  using drain_expired_items [of now w ts w'] by auto




section \<open>Tokens of one registration\<close>

text \<open>
  The factory that a registration receives gives out at most 65535 tokens, numbered from
  sub-id 0 and all of the source it was made for, hence pairwise different; asking for one more
  panics.
\<close>

theorem factory_gives_distinct_tokens:
  "(n < 65536 \<longrightarrow> (\<exists>ts. fst (factory_tokens n (TokenFactory_new t)) = Ok ts \<and> length ts = n \<and> distinct ts
      \<and> (\<forall>i < n. ts ! i = (forget_sub_id t)\<lparr>tok_sub_id := of_nat i\<rparr>))) \<and>
   (65536 \<le> n \<longrightarrow> fst (factory_tokens n (TokenFactory_new t)) = Panic)"
proof (intro conjI impI)
  assume n: "n < 65536"
  then obtain ts where ts: "fst (factory_tokens n (TokenFactory_new t)) = Ok ts" "length ts = n"
      "\<forall>i < n. ts ! i = (forget_sub_id t)\<lparr>tok_sub_id := of_nat i\<rparr>"
    using factory_tokens_from [of "forget_sub_id t" n] by (auto simp: TokenFactory_new_def)
  have "distinct ts"
  proof (rule distinct_conv_nth [THEN iffD2], intro allI impI)
    fix i j assume ij: "i < length ts" "j < length ts" "i \<noteq> j"
    have "(of_nat i :: u16) \<noteq> of_nat j"
      using ij ts(2) n by (simp add: word_of_nat_eq_iff take_bit_nat_eq_self)
    with ij ts(2,3) show "ts ! i \<noteq> ts ! j" by (metis token_inner.select_convs(3) token_inner.surjective token_inner.update_convs(3))
  qed
  with ts show "\<exists>ts. fst (factory_tokens n (TokenFactory_new t)) = Ok ts \<and> length ts = n \<and> distinct ts
      \<and> (\<forall>i < n. ts ! i = (forget_sub_id t)\<lparr>tok_sub_id := of_nat i\<rparr>)" by blast
next
  assume "65536 \<le> n"
  then show "fst (factory_tokens n (TokenFactory_new t)) = Panic"
    using factory_tokens_too_many [of "forget_sub_id t" n] by (simp add: TokenFactory_new_def)
qed

theorem factory_gives_distinct_tokens_witness:
  "fst (factory_tokens 70000 (TokenFactory_new \<lparr>tok_id = 3, tok_version = 1, tok_sub_id = 0\<rparr>)) = Panic \<and>
   (\<exists>ts. fst (factory_tokens 3 (TokenFactory_new \<lparr>tok_id = 3, tok_version = 1, tok_sub_id = 0\<rparr>)) = Ok ts \<and> distinct ts)"
  using factory_gives_distinct_tokens [of 70000 "\<lparr>tok_id = 3, tok_version = 1, tok_sub_id = 0\<rparr>"]
    factory_gives_distinct_tokens [of 3 "\<lparr>tok_id = 3, tok_version = 1, tok_sub_id = 0\<rparr>"] by auto

section \<open>Emulated level-triggering\<close>

text \<open>The calls on a \<open>Poll\<close>, in any order and with any result.\<close>

inductive poll_step :: "'p poller_ops \<Rightarrow> 'p poll \<Rightarrow> 'p poll \<Rightarrow> bool" for K where
  ps_register: "Poll_register K fd i m t P = (r, P') \<Longrightarrow> poll_step K P P'"
| ps_reregister: "Poll_reregister K fd i m t P = (r, P') \<Longrightarrow> poll_step K P P'"
| ps_unregister: "Poll_unregister K fd P = (r, P') \<Longrightarrow> poll_step K P P'"
| ps_poll: "Poll_poll K timeout P = (r, P') \<Longrightarrow> poll_step K P P'"
| ps_notify: "Notifier_notify K P = (r, P') \<Longrightarrow> poll_step K P P'"
| ps_timers: "poll_step K P (P\<lparr>timers := w\<rparr>)"

definition level_inv :: "('p \<Rightarrow> raw_fd \<rightharpoonup> pevent \<times> poll_mode) \<Rightarrow> 'p poll \<Rightarrow> bool" where
  "level_inv regs P \<longleftrightarrow>
     (\<forall>lt k fd ev. level_triggered P = Some lt \<longrightarrow> lt k = Some (fd, ev) \<longrightarrow>
        ev_key ev = k \<and> fd \<in> dom (regs (poller P)))"

lemma level_invD:
  "level_inv regs P \<Longrightarrow> level_triggered P = Some lt \<Longrightarrow> lt k = Some (fd, ev) \<Longrightarrow>
     ev_key ev = k \<and> fd \<in> dom (regs (poller P))"
  by (simp add: level_inv_def)

lemma level_inv_mono:
  assumes "level_inv regs P" and "level_triggered P' = level_triggered P"
    and "dom (regs (poller P)) \<subseteq> dom (regs (poller P'))"
  shows "level_inv regs P'"
  using assms unfolding level_inv_def by (metis subsetD)

lemma level_inv_track:
  "level_inv regs P \<Longrightarrow> fd \<in> dom (regs (poller P)) \<Longrightarrow> level_inv regs (track_level m fd ev P)"
  by (auto simp: level_inv_def track_level_def split: option.splits mode.splits if_splits)

lemma rearm_dom:
  assumes "poller_contract K regs" and "rearm K lt ev p = (r, p')"
  shows "dom (regs p) \<subseteq> dom (regs p')"
proof (cases "\<exists>m fd e. lt = Some m \<and> m (ev_key ev) = Some (fd, e)")
  case True
  then obtain fd e where "pl_modify K p fd e PollOneshot = (r, p')"
    using assms(2) by (auto simp: rearm_def)
  then show ?thesis
    using contract_modify [OF assms(1), of p fd e PollOneshot] by (cases r) auto
next
  case False
  then show ?thesis using assms(2) by (auto simp: rearm_def split: option.splits)
qed

lemma convert_events_dom:
  "poller_contract K regs \<Longrightarrow> convert_events K lt evs p = (r, p') \<Longrightarrow> dom (regs p) \<subseteq> dom (regs p')"
proof (induction evs arbitrary: p r p')
  case Nil
  then show ?case by simp
next
  case (Cons ev evs)
  obtain r1 p1 where r1: "rearm K lt ev p = (r1, p1)" by force
  have d: "dom (regs p) \<subseteq> dom (regs p1)" using Cons.prems(1) r1 by (rule rearm_dom)
  show ?case
  proof (cases r1)
    case (Inl e)
    with Cons.prems r1 d show ?thesis by auto
  next
    case (Inr u)
    then have "p' = snd (convert_events K lt evs p1)"
      using Cons.prems r1 by (auto split: sum.splits prod.splits)
    with Cons.IH [OF Cons.prems(1), of p1 "fst (convert_events K lt evs p1)" p'] d show ?thesis by auto
  qed
qed

lemma poll_step_level_inv:
  assumes K: "poller_contract K regs" and "poll_step K P P'" and inv: "level_inv regs P"
  shows "level_inv regs P'"
  using assms(2)
proof cases
  case (ps_register fd i m t r)
  obtain s p where a: "pl_add K (poller P) fd (cvt_interest i t) (cvt_mode m (pl_supports_level K (poller P))) = (s, p)"
    by force
  with contract_add [OF K, of "poller P" fd] inv have "level_inv regs (P\<lparr>poller := p\<rparr>)"
    by (cases s) (auto intro!: level_inv_mono [of regs P])
  moreover have "s = Inr () \<Longrightarrow> fd \<in> dom (regs p)" using contract_add(1) [OF K] a by auto
  ultimately show ?thesis
    using ps_register a by (auto simp: Poll_register_def intro: level_inv_track split: sum.splits)
next
  case (ps_reregister fd i m t r)
  obtain s p where a: "pl_modify K (poller P) fd (cvt_interest i t) (cvt_mode m (pl_supports_level K (poller P))) = (s, p)"
    by force
  with contract_modify [OF K, of "poller P" fd] inv have "level_inv regs (P\<lparr>poller := p\<rparr>)"
    by (cases s) (auto intro!: level_inv_mono [of regs P])
  moreover have "s = Inr () \<Longrightarrow> fd \<in> dom (regs p)" using contract_modify(1) [OF K] a by auto
  ultimately show ?thesis
    using ps_reregister a by (auto simp: Poll_reregister_def intro: level_inv_track split: sum.splits)
next
  case (ps_unregister fd r)
  then show ?thesis
    using contract_delete [OF K, of "poller P" fd] inv
    by (fastforce simp: Poll_unregister_def level_inv_def level_retain_def split: sum.splits prod.splits option.splits if_splits)
next
  case (ps_poll timeout r)
  obtain s p where a: "pl_wait K (poller P) (poll_timeout K P timeout) = (s, p)" by force
  have d: "dom (regs p) = dom (regs (poller P))" using contract_wait(1) [OF K a] .
  show ?thesis
  proof (cases s)
    case (Inl e)
    have "level_inv regs (P\<lparr>poller := p\<rparr>)" by (rule level_inv_mono [OF inv]) (simp_all add: d)
    with Inl ps_poll a show ?thesis by (auto simp: Poll_poll_def)
  next
    case (Inr evs)
    obtain u q where c: "convert_events K (level_triggered P) evs p = (u, q)" by force
    with d convert_events_dom [OF K c] have "dom (regs (poller P)) \<subseteq> dom (regs q)" by simp
    with ps_poll a c Inr inv show ?thesis
      by (auto simp: Poll_poll_def intro!: level_inv_mono [OF inv] split: sum.splits prod.splits)
  qed
next
  case (ps_notify r)
  then show ?thesis
    using contract_notify [OF K] inv by (auto simp: Notifier_notify_def intro: level_inv_mono split: prod.splits)
next
  case (ps_timers w)
  with inv show ?thesis by (auto intro: level_inv_mono)
qed


text \<open>
  C21: in every state a \<open>Poll\<close> reaches from its creation by any sequence of registrations,
  updates, removals, polls and notifications, whatever their results, each entry of the map
  that emulates level-triggering is stored under its own key and names a descriptor that is
  still registered with the poller, so re-arming it never touches a descriptor that has been
  unregistered.
\<close>

theorem level_map_only_registered:
  assumes "poller_contract K regs" and "Poll_new_inner K (Inr p) force = Ok P0"
    and "(poll_step K)\<^sup>*\<^sup>* P0 P"
  shows "level_inv regs P"
  using assms(3)
proof (induction rule: rtranclp_induct)
  case base
  show ?case using assms(2) by (auto simp: Poll_new_inner_def level_inv_def split: if_splits)
next
  case (step P P')
  then show ?case using poll_step_level_inv [OF assms(1)] by blast
qed

theorem level_map_only_registered_witness:
  "\<exists>P :: script_poller poll. level_inv sp_table P \<and> level_triggered P = Some [5 \<mapsto> (3, \<lparr>ev_key = 5, ev_readable = True, ev_writable = False\<rparr>)]"
proof -
  let ?p = "\<lparr>sp_regs = [], sp_now = 0, sp_level = False, sp_script = []\<rparr>"
  let ?t = "\<lparr>tok_id = 0, tok_version = 0, tok_sub_id = 5\<rparr> :: token_inner"
  let ?e = "\<lparr>ev_key = 5, ev_readable = True, ev_writable = False\<rparr>"
  let ?Init = "\<lparr>poller = ?p, level_triggered = Some Map.empty, timers = TimerWheel_new\<rparr>"
  let ?P = "\<lparr>poller = ?p\<lparr>sp_regs := [(3, ?e, PollOneshot)]\<rparr>, level_triggered = Some [5 \<mapsto> (3, ?e)], timers = TimerWheel_new\<rparr>"
  have new: "Poll_new_inner SP (Inr ?p) False = Ok ?Init" by (simp add: Poll_new_inner_def SP_def)
  have "Poll_register SP 3 Interest_READ Level ?t ?Init = (Ok (), ?P)"
    by (simp add: poll_defs SP_def cvt_interest_def Interest_READ_def usize_of_token_def cvt_mode_def Let_def)
  then have "(poll_step SP)\<^sup>*\<^sup>* ?Init ?P" using poll_step.ps_register by blast
  with level_map_only_registered [OF SP_contract new] have "level_inv sp_table ?P" by blast
  then show ?thesis by (intro exI [of _ ?P]) simp
qed

text \<open>
  Where level-triggering is emulated, switching a registered descriptor from level to
  one-shot mode under the same token leaves the old entry in the map: the next event of that key
  arms the descriptor again, with the interest of the earlier level registration, although a
  one-shot registration is to be disabled by its first event.
\<close>

theorem oneshot_update_keeps_level_entry:
  assumes "Poll_register K fd i Level tok P = (Ok (), P1)" and "level_triggered P = Some lt"
    and "Poll_reregister K fd j OneShot tok P1 = (Ok (), P2)"
    and "ev_key ev = usize_of_token tok"
  shows "rearm K (level_triggered P2) ev p = pl_modify K p fd (cvt_interest i tok) PollOneshot"
  using assms by (auto simp: poll_defs rearm_def cvt_interest_def Let_def split: prod.splits sum.splits)

theorem oneshot_update_keeps_level_entry_witness:
  "\<exists>P2 :: script_poller poll. level_triggered P2 \<noteq> None \<and>
     rearm SP (level_triggered P2) \<lparr>ev_key = 0, ev_readable = True, ev_writable = False\<rparr> (poller P2)
       = pl_modify SP (poller P2) 3 \<lparr>ev_key = 0, ev_readable = True, ev_writable = False\<rparr> PollOneshot"
proof -
  let ?p = "\<lparr>sp_regs = [], sp_now = 0, sp_level = False, sp_script = []\<rparr>"
  let ?t = "\<lparr>tok_id = 0, tok_version = 0, tok_sub_id = 0\<rparr> :: token_inner"
  let ?Init = "\<lparr>poller = ?p, level_triggered = Some Map.empty, timers = TimerWheel_new\<rparr>"
  obtain P1 where 1: "Poll_register SP 3 Interest_READ Level ?t ?Init = (Ok (), P1)"
    "sp_regs (poller P1) = [(3, cvt_interest Interest_READ ?t, PollOneshot)]" "level_triggered P1 \<noteq> None"
    by (simp add: poll_defs SP_def cvt_mode_def Let_def)
  obtain P2 where 2: "Poll_reregister SP 3 Interest_WRITE OneShot ?t P1 = (Ok (), P2)" "level_triggered P2 \<noteq> None"
    using 1(2,3) by (simp add: poll_defs SP_def Let_def)
  have r: "rearm SP (level_triggered P2) \<lparr>ev_key = 0, ev_readable = True, ev_writable = False\<rparr> (poller P2)
      = pl_modify SP (poller P2) 3 (cvt_interest Interest_READ ?t) PollOneshot"
    by (rule oneshot_update_keeps_level_entry [OF 1(1) _ 2(1)]) (simp_all add: usize_of_token_def)
  have c: "cvt_interest Interest_READ ?t = \<lparr>ev_key = 0, ev_readable = True, ev_writable = False\<rparr>"
    by (simp add: cvt_interest_def Interest_READ_def usize_of_token_def)
  show ?thesis using r 2(2) unfolding c by blast
qed

end
