(* ===== verification/Source_List.thy ===== *)
theory Source_List
  imports Poll_Laws
begin

text \<open>
  \<open>src/src/list.rs\<close>: the table of source slots. A removed source leaves its slot empty; the
  next insertion takes the first empty slot and advances its version, so that tokens of the
  source that was there are refused. A source is represented by a value of type \<open>'x\<close> (in the
  loop, the identity of its dispatcher).
\<close>

record 'x source_entry =
  se_token :: token_inner
  se_source :: "'x option"

type_synonym 'x source_list = "'x source_entry list"

definition SourceList_new :: "'x source_list" where
  "SourceList_new = []"

text \<open>
  \<open>vacant_entry\<close> gives the index of the slot whose \<open>&mut\<close> reference the code returns. \<open>w\<close> is the
  pointer width, 64 in the model of the loop.
\<close>

definition vacant_entry_at :: "nat \<Rightarrow> 'x source_list \<Rightarrow> nat cresult \<times> 'x source_list" where
  "vacant_entry_at w sl =
     (case position (\<lambda>slot. se_source slot = None) sl of
        Some i \<Rightarrow> (Ok i, sl[i := (sl ! i)\<lparr>se_token := increment_version w (se_token (sl ! i))\<rparr>])
      | None \<Rightarrow>
          (case TokenInner_new (length sl) of
             Ok t \<Rightarrow> (Ok (length sl), sl @ [\<lparr>se_token = t, se_source = None\<rparr>])
           | _ \<Rightarrow> (Panic, sl)))"

abbreviation vacant_entry :: "'x source_list \<Rightarrow> nat cresult \<times> 'x source_list" where
  "vacant_entry \<equiv> vacant_entry_at 64"

lemmas vacant_entry_def = vacant_entry_at_def [of 64]

text \<open>\<open>get\<close>, and \<open>get_mut\<close> with the index of the slot.\<close>

definition sl_get :: "'x source_list \<Rightarrow> token_inner \<Rightarrow> 'x source_entry cresult" where
  "sl_get sl token =
     (case vec_get sl (get_id token) of
        None \<Rightarrow> Err InvalidToken
      | Some entry \<Rightarrow> if same_source_as (se_token entry) token then Ok entry else Err InvalidToken)"

definition sl_get_mut :: "'x source_list \<Rightarrow> token_inner \<Rightarrow> nat cresult" where
  "sl_get_mut sl token =
     (case vec_get sl (get_id token) of
        None \<Rightarrow> Err InvalidToken
      | Some entry \<Rightarrow> if same_source_as (se_token entry) token then Ok (get_id token) else Err InvalidToken)"

text \<open>\<open>slot.source = src\<close> through the reference to slot \<open>i\<close>.\<close>

definition set_source :: "nat \<Rightarrow> 'x option \<Rightarrow> 'x source_list \<Rightarrow> 'x source_list" where
  "set_source i src sl = sl[i := (sl ! i)\<lparr>se_source := src\<rparr>]"

section \<open>The occupant of a token\<close>

text \<open>
  \<open>get(token).ok().and_then(|entry| entry.source.clone())\<close>: the source that a token names now.
  \<open>sl_claim\<close> and \<open>sl_release\<close> are the two ways the loop changes the table.
\<close>

definition sl_lookup :: "'x source_list \<Rightarrow> token_inner \<Rightarrow> 'x option" where
  "sl_lookup sl token = (case sl_get sl token of Ok entry \<Rightarrow> se_source entry | _ \<Rightarrow> None)"

definition sl_claim_at :: "nat \<Rightarrow> 'x \<Rightarrow> 'x source_list \<Rightarrow> token_inner cresult \<times> 'x source_list" where
  "sl_claim_at w x sl =
     (case vacant_entry_at w sl of
        (Ok i, sl') \<Rightarrow> (Ok (se_token (sl' ! i)), set_source i (Some x) sl')
      | (Err e, sl') \<Rightarrow> (Err e, sl')
      | (Panic, sl') \<Rightarrow> (Panic, sl')
      | (Diverge, sl') \<Rightarrow> (Diverge, sl'))"

abbreviation sl_claim :: "'x \<Rightarrow> 'x source_list \<Rightarrow> token_inner cresult \<times> 'x source_list" where
  "sl_claim \<equiv> sl_claim_at 64"

lemmas sl_claim_def = sl_claim_at_def [of 64]

definition sl_release :: "token_inner \<Rightarrow> 'x source_list \<Rightarrow> 'x source_list" where
  "sl_release token sl = (case sl_get_mut sl token of Ok i \<Rightarrow> set_source i None sl | _ \<Rightarrow> sl)"

text \<open>Slot \<open>i\<close> carries slot number \<open>i\<close> and no sub-id.\<close>

definition slots_wf :: "'x source_list \<Rightarrow> bool" where
  "slots_wf sl \<longleftrightarrow> (\<forall>i < length sl. get_id (se_token (sl ! i)) = i \<and> tok_sub_id (se_token (sl ! i)) = 0)"

lemma slots_wf_new [simp]: "slots_wf SourceList_new"
  by (simp add: slots_wf_def SourceList_new_def)

lemma slots_wfD:
  "slots_wf sl \<Longrightarrow> i < length sl \<Longrightarrow> get_id (se_token (sl ! i)) = i"
  "slots_wf sl \<Longrightarrow> i < length sl \<Longrightarrow> tok_sub_id (se_token (sl ! i)) = 0"
  by (simp_all add: slots_wf_def)

lemma forget_wf_token: "slots_wf sl \<Longrightarrow> i < length sl \<Longrightarrow> forget_sub_id (se_token (sl ! i)) = se_token (sl ! i)"
  by (simp add: slots_wf_def forget_sub_id_def)

lemma sl_get_mut_iff:
  "sl_get_mut sl t = Ok i \<longleftrightarrow> i = get_id t \<and> i < length sl \<and> same_source_as (se_token (sl ! i)) t"
  by (auto simp: sl_get_mut_def vec_get_def split: if_splits)

lemma sl_get_iff:
  "sl_get sl t = Ok e \<longleftrightarrow> get_id t < length sl \<and> e = sl ! get_id t \<and> same_source_as (se_token e) t"
  by (auto simp: sl_get_def vec_get_def split: if_splits)

lemma sl_get_Err: "sl_get sl t = Err e \<Longrightarrow> e = InvalidToken"
  by (auto simp: sl_get_def split: option.splits if_splits)

lemma sl_get_no_panic [simp]: "sl_get sl t \<noteq> Panic" "sl_get sl t \<noteq> Diverge"
  "sl_get_mut sl t \<noteq> Panic" "sl_get_mut sl t \<noteq> Diverge"
  by (auto simp: sl_get_def sl_get_mut_def split: option.splits)

lemma sl_lookup_iff:
  "sl_lookup sl t = Some x \<longleftrightarrow>
     get_id t < length sl \<and> same_source_as (se_token (sl ! get_id t)) t \<and> se_source (sl ! get_id t) = Some x"
  by (auto simp: sl_lookup_def sl_get_def vec_get_def split: if_splits)

lemma sl_lookup_same: "same_source_as t u \<Longrightarrow> sl_lookup sl t = sl_lookup sl u"
  by (auto simp: sl_lookup_def sl_get_def same_source_as_def get_id_def split: option.splits)

lemma sl_lookup_forget [simp]: "sl_lookup sl (forget_sub_id t) = sl_lookup sl t"
  by (rule sl_lookup_same) simp

lemma slots_wf_set_source [simp]: "slots_wf (set_source i src sl) \<longleftrightarrow> slots_wf sl"
  by (cases "i < length sl") (auto simp: slots_wf_def set_source_def nth_list_update)

lemma length_set_source [simp]: "length (set_source i src sl) = length sl"
  by (simp add: set_source_def)

lemma token_set_source [simp]: "i < length sl \<Longrightarrow> se_token (set_source i src sl ! j) = se_token (sl ! j)"
  by (cases "i = j") (auto simp: set_source_def)

lemma source_set_source: "i < length sl \<Longrightarrow> se_source (set_source i src sl ! j) = (if i = j then src else se_source (sl ! j))"
  by (auto simp: set_source_def nth_list_update)

lemma sl_release_eq:
  "sl_release t sl =
     (if get_id t < length sl \<and> same_source_as (se_token (sl ! get_id t)) t then set_source (get_id t) None sl else sl)"
  by (auto simp: sl_release_def sl_get_mut_def vec_get_def)

lemma slots_wf_release: "slots_wf sl \<Longrightarrow> slots_wf (sl_release t sl)"
  by (auto simp: sl_release_def split: outcome.splits)

lemma vacant_entry_Ok:
  assumes "slots_wf sl" and "vacant_entry sl = (Ok i, sl')"
  shows "slots_wf sl'" "i < length sl'" "se_source (sl' ! i) = None"
    "get_id (se_token (sl' ! i)) = i" "sl_lookup sl (se_token (sl' ! i)) = None"
    "\<And>u. sl_lookup sl' u = sl_lookup sl u"
proof -
  show "slots_wf sl'"
    using assms position_SomeD [of "\<lambda>slot. se_source slot = None" sl]
    by (auto simp: vacant_entry_def slots_wf_def nth_list_update nth_append get_id_new
        TokenInner_new_Ok_iff less_Suc_eq split: option.splits outcome.splits)
  show i: "i < length sl'" and none: "se_source (sl' ! i) = None"
    using assms position_SomeD [of "\<lambda>slot. se_source slot = None" sl]
    by (auto simp: vacant_entry_def nth_append split: option.splits outcome.splits)
  show id: "get_id (se_token (sl' ! i)) = i"
    using \<open>slots_wf sl'\<close> i by (rule slots_wfD)
  show "sl_lookup sl (se_token (sl' ! i)) = None"
    using assms position_SomeD [of "\<lambda>slot. se_source slot = None" sl] id
    by (auto simp: vacant_entry_def sl_lookup_def sl_get_def vec_get_def same_source_sym
        split: option.splits outcome.splits)
  fix u
  show "sl_lookup sl' u = sl_lookup sl u"
    using assms position_SomeD [of "\<lambda>slot. se_source slot = None" sl]
    by (cases "i = get_id u") (auto simp: vacant_entry_def sl_lookup_def sl_get_def vec_get_def nth_append
        split: option.splits outcome.splits if_splits)
qed

lemma vacant_entry_grows: "vacant_entry sl = (r, sl') \<Longrightarrow> length sl \<le> length sl' \<and> (r = Panic \<or> (\<exists>i. r = Ok i))"
  by (auto simp: vacant_entry_def split: option.splits outcome.splits)

section \<open>The interface of the table\<close>

text \<open>
  What the loop relies on: a claimed token is fresh and names the new source, other tokens keep
  the source they name, and a released token names nothing.
\<close>

locale slot_table =
  fixes wf :: "'m \<Rightarrow> bool"
    and lookup :: "'m \<Rightarrow> token_inner \<Rightarrow> 'x option"
    and claim :: "'x \<Rightarrow> 'm \<Rightarrow> token_inner cresult \<times> 'm"
    and release :: "token_inner \<Rightarrow> 'm \<Rightarrow> 'm"
  assumes lookup_same: "same_source_as t u \<Longrightarrow> lookup m t = lookup m u"
    and wf_claim: "wf m \<Longrightarrow> claim x m = (Ok t, m') \<Longrightarrow> wf m'"
    and wf_release: "wf m \<Longrightarrow> wf (release t m)"
    and claim_fresh: "wf m \<Longrightarrow> claim x m = (Ok t, m') \<Longrightarrow> lookup m t = None"
    and claim_named: "wf m \<Longrightarrow> claim x m = (Ok t, m') \<Longrightarrow> lookup m' t = Some x"
    and claim_frame: "wf m \<Longrightarrow> claim x m = (Ok t, m') \<Longrightarrow> \<not> same_source_as u t \<Longrightarrow> lookup m' u = lookup m u"
    and release_none: "wf m \<Longrightarrow> lookup (release t m) t = None"
    and release_frame: "wf m \<Longrightarrow> \<not> same_source_as u t \<Longrightarrow> lookup (release t m) u = lookup m u"
begin

lemma release_lookup: "wf m \<Longrightarrow> lookup (release t m) u = (if same_source_as u t then None else lookup m u)"
  using release_none release_frame lookup_same by metis

lemma claim_lookup:
  "wf m \<Longrightarrow> claim x m = (Ok t, m') \<Longrightarrow> lookup m' u = (if same_source_as u t then Some x else lookup m u)"
  using claim_named claim_frame lookup_same by metis

lemma claim_release:
  assumes "wf m" and "claim x m = (Ok t, m')"
  shows "lookup (release t m') u = lookup m u"
  using assms release_lookup [OF wf_claim [OF assms]] claim_lookup [OF assms] claim_fresh [OF assms] lookup_same
  by metis

lemma stale_stays_stale:
  assumes "wf m" and "lookup m u = Some y" and "claim x (release u m) = (Ok t, m')" and "same_source_as u t"
  shows "lookup m' u = Some x"
  using claim_named [OF wf_release [OF assms(1)] assms(3)] lookup_same [OF assms(4)] by simp

end

interpretation slots: slot_table slots_wf sl_lookup sl_claim sl_release
proof (unfold_locales, goal_cases)
  case (1 t u m)
  then show ?case by (rule sl_lookup_same)
next
  case (2 m x t m')
  then obtain i sl where "vacant_entry m = (Ok i, sl)" "m' = set_source i (Some x) sl"
    by (auto simp: sl_claim_def split: prod.splits outcome.splits)
  with 2 vacant_entry_Ok [of m i sl] show ?case by simp
next
  case (3 m t)
  then show ?case by (rule slots_wf_release)
next
  case (4 m x t m')
  then obtain i sl where "vacant_entry m = (Ok i, sl)" "t = se_token (sl ! i)"
    by (auto simp: sl_claim_def split: prod.splits outcome.splits)
  with 4 vacant_entry_Ok [of m i sl] show ?case by simp
next
  case (5 m x t m')
  then obtain i sl where v: "vacant_entry m = (Ok i, sl)" "t = se_token (sl ! i)" "m' = set_source i (Some x) sl"
    by (auto simp: sl_claim_def split: prod.splits outcome.splits)
  with 5 vacant_entry_Ok [of m i sl] show ?case by (simp add: sl_lookup_iff source_set_source)
next
  case (6 m x t m' u)
  then obtain i sl where v: "vacant_entry m = (Ok i, sl)" "t = se_token (sl ! i)" "m' = set_source i (Some x) sl"
    by (auto simp: sl_claim_def split: prod.splits outcome.splits)
  note ve = vacant_entry_Ok [OF 6(1) v(1)]
  have "sl_lookup m' u = sl_lookup sl u"
    using v 6(3) ve(2) by (auto simp: sl_lookup_def sl_get_def vec_get_def source_set_source same_source_sym
        split: outcome.splits)
  with ve(6) show ?case by simp
next
  case (7 m t)
  show ?case
    by (auto simp: sl_release_eq sl_lookup_def sl_get_def vec_get_def source_set_source)
next
  case (8 m u t)
  show ?case
  proof (cases "get_id u = get_id t \<and> get_id t < length m \<and> same_source_as (se_token (m ! get_id t)) t")
    case True
    then have "\<not> same_source_as (se_token (m ! get_id t)) u"
      using 8(2) same_source_trans same_source_sym by metis
    with True show ?thesis by (simp add: sl_release_eq sl_lookup_def sl_get_def vec_get_def)
  next
    case False
    then show ?thesis
      by (auto simp: sl_release_eq sl_lookup_def sl_get_def vec_get_def source_set_source)
  qed
qed

section \<open>Stale tokens\<close>

text \<open>
  A sequence of insertions and removals on a table of pointer width \<open>w\<close>, and how many of the
  insertions were given slot \<open>i\<close>.
\<close>

datatype 'x table_op = Claim 'x | Release token_inner

fun table_do :: "nat \<Rightarrow> 'x table_op \<Rightarrow> 'x source_list \<Rightarrow> 'x source_list" where
  "table_do w (Claim x) sl = snd (sl_claim_at w x sl)"
| "table_do w (Release t) sl = sl_release t sl"

fun table_run :: "nat \<Rightarrow> 'x table_op list \<Rightarrow> 'x source_list \<Rightarrow> 'x source_list" where
  "table_run w [] sl = sl"
| "table_run w (a # as) sl = table_run w as (table_do w a sl)"

fun takes_slot :: "nat \<Rightarrow> nat \<Rightarrow> 'x table_op \<Rightarrow> 'x source_list \<Rightarrow> bool" where
  "takes_slot w i (Claim x) sl \<longleftrightarrow> (\<exists>t. fst (sl_claim_at w x sl) = Ok t \<and> get_id t = i)"
| "takes_slot w i (Release t) sl \<longleftrightarrow> False"

fun reuses :: "nat \<Rightarrow> nat \<Rightarrow> 'x table_op list \<Rightarrow> 'x source_list \<Rightarrow> nat" where
  "reuses w i [] sl = 0"
| "reuses w i (a # as) sl = (if takes_slot w i a sl then 1 else 0) + reuses w i as (table_do w a sl)"

text \<open>The version of a slot fits the bits that a key has for it.\<close>

definition versions_fit :: "nat \<Rightarrow> 'x source_list \<Rightarrow> bool" where
  "versions_fit w sl \<longleftrightarrow> slots_wf sl \<and> (\<forall>i < length sl. unat (tok_version (se_token (sl ! i))) < 2 ^ BITS_VERSION w)"

lemma increment_version_fits: "unat (tok_version (increment_version w t)) < 2 ^ BITS_VERSION w"
  by (simp add: increment_version_def MASK_VERSION_mask take_bit_eq_mask [symmetric] unsigned_take_bit_eq take_bit_nat_less_exp)

lemma table_do_slot:
  assumes "versions_fit w sl"
  shows "versions_fit w (table_do w a sl) \<and> length sl \<le> length (table_do w a sl) \<and>
    (\<forall>i < length sl. se_token (table_do w a sl ! i) =
       (if takes_slot w i a sl then increment_version w (se_token (sl ! i)) else se_token (sl ! i)))"
proof (cases a)
  case (Release t)
  with assms show ?thesis by (auto simp: versions_fit_def sl_release_eq)
next
  case (Claim x)
  show ?thesis
  proof (cases "position (\<lambda>slot. se_source slot = None) sl")
    case None
    with assms Claim show ?thesis
      by (cases "length sl < 2 ^ 32")
        (auto simp: versions_fit_def slots_wf_def sl_claim_at_def vacant_entry_at_def TokenInner_new_def set_source_def nth_append
          get_id_def unat_of_nat less_Suc_eq)
  next
    case (Some j)
    then have j: "j < length sl" using position_SomeD by blast
    with assms have "get_id (increment_version w (se_token (sl ! j))) = j" by (simp add: versions_fit_def slots_wfD)
    with Some j assms Claim increment_version_fits [of w "se_token (sl ! j)"] show ?thesis
      by (auto simp: versions_fit_def slots_wf_def sl_claim_at_def vacant_entry_at_def set_source_def nth_list_update)
  qed
qed

lemma table_run_slot:
  "versions_fit w sl \<Longrightarrow> i < length sl \<Longrightarrow>
    se_token (table_run w as sl ! i) = (increment_version w ^^ reuses w i as sl) (se_token (sl ! i)) \<and>
    i < length (table_run w as sl)"
proof (induction as arbitrary: sl)
  case (Cons a as)
  have "(increment_version w ^^ n) (increment_version w t) = (increment_version w ^^ Suc n) t" for n t
    by (simp add: funpow_swap1)
  with Cons table_do_slot [OF Cons.prems(1), of a] show ?case by auto
qed simp

lemma table_run_fit: "versions_fit w sl \<Longrightarrow> versions_fit w (table_run w as sl)"
  by (induction as arbitrary: sl) (simp_all add: table_do_slot)

text \<open>
  C36: a stale token is refused until the version of its slot has wrapped all the way round. Take any
  table that insertions and removals have made and a token that one of its slots has. After any further insertions and
  removals the slot carries that token again, for a lookup, exactly if the number of insertions that
  got the slot in between is a multiple of 2 ^ \<open>BITS_VERSION\<close>: 65536 for a pointer width of 64, 256 for 32
  and 16 for 16. So the token can name a source only then.
\<close>

theorem stale_token_refused_until_wrap:
  assumes "pointer_width w" and "sl = table_run w before SourceList_new" and "i < length sl" and "t = se_token (sl ! i)"
    and "sl' = table_run w after sl"
  shows "(same_source_as (se_token (sl' ! i)) t \<longleftrightarrow> 2 ^ BITS_VERSION w dvd reuses w i after sl) \<and>
    (sl_lookup sl' t \<noteq> None \<longrightarrow> 2 ^ BITS_VERSION w dvd reuses w i after sl)"
proof -
  have fit: "versions_fit w sl" unfolding assms(2) by (rule table_run_fit) (simp add: versions_fit_def SourceList_new_def slots_wf_def)
  then have "unat (tok_version t) < 2 ^ BITS_VERSION w" "get_id t = i" using assms(3,4) by (auto simp: versions_fit_def slots_wfD)
  with stale_version_iff [OF assms(1)] table_run_slot [OF fit assms(3)] assms(4,5)
  show ?thesis by (auto simp: sl_lookup_iff)
qed

text \<open>On a 16-bit target: the slot of the first token, reused once.\<close>

theorem stale_token_refused_until_wrap_witness:
  "sl_lookup (table_run 16 [Release \<lparr>tok_id = 0, tok_version = 0, tok_sub_id = 0\<rparr>, Claim (8 :: nat)] (table_run 16 [Claim 7] SourceList_new))
     \<lparr>tok_id = 0, tok_version = 0, tok_sub_id = 0\<rparr> = None"
proof -
  let ?t = "\<lparr>tok_id = 0, tok_version = 0, tok_sub_id = 0\<rparr> :: token_inner"
  let ?sl = "table_run 16 [Claim (7 :: nat)] SourceList_new" and ?as = "[Release ?t, Claim (8 :: nat)]"
  have sl: "?sl = [\<lparr>se_token = ?t, se_source = Some 7\<rparr>]"
    by (simp add: sl_claim_at_def vacant_entry_at_def SourceList_new_def TokenInner_new_def set_source_def)
  have "reuses 16 0 ?as ?sl = 1"
    unfolding sl by (simp add: sl_claim_at_def vacant_entry_at_def set_source_def sl_release_eq get_id_def same_source_as_def increment_version_def)
  then have "\<not> 2 ^ BITS_VERSION 16 dvd reuses 16 0 ?as ?sl" by (simp add: BITS_VERSION_def)
  moreover have "0 < length ?sl" "?t = se_token (?sl ! 0)" unfolding sl by simp_all
  moreover have "pointer_width 16" by (simp add: pointer_width_def)
  ultimately show ?thesis using stale_token_refused_until_wrap [where w = 16 and before = "[Claim 7]" and i = 0 and t = ?t and after = ?as, OF _ refl _ _ refl] by blast
qed

end
