(* ===== verification/Event_Source.thy ===== *)
theory Event_Source
  imports Source_List
begin

text \<open>
  \<open>src/src/sources/mod.rs\<close>: post actions, the \<open>EventSource\<close> trait as a record of operations,
  the dispatcher that pairs a source with its callback behind a \<open>RefCell\<close>, and the list of
  sources that want the additional lifecycle calls.

  A source has a state of type \<open>'s\<close>. The user's callback is part of its \<open>process\<close> operation:
  that operation, and the two lifecycle calls, receive the whole world \<open>'w\<close> (the event loop's
  state) and return it changed, since a callback owns the shared data and a \<open>LoopHandle\<close>.
  The registration operations receive the \<open>Poll\<close> they are given and nothing else.
\<close>

section \<open>PostAction\<close>

datatype post_action = Continue | Reregister | Disable | Remove

definition post_bitor :: "post_action \<Rightarrow> post_action \<Rightarrow> post_action" where
  "post_bitor a rhs = (if a = rhs then a else Reregister)"

definition post_bitor_assign :: "post_action \<Rightarrow> post_action \<Rightarrow> post_action" where
  "post_bitor_assign a rhs = (if a \<noteq> rhs then Reregister else a)"

section \<open>EventSource\<close>

type_synonym ('s, 'p) register_op =
  "'s \<Rightarrow> 'p poll \<Rightarrow> token_factory \<Rightarrow> unit cresult \<times> 's \<times> 'p poll \<times> token_factory"

type_synonym ('s, 'p) unregister_op = "'s \<Rightarrow> 'p poll \<Rightarrow> unit cresult \<times> 's \<times> 'p poll"

type_synonym ('s, 'w) process_op =
  "'s \<Rightarrow> readiness \<Rightarrow> token \<Rightarrow> 'w \<Rightarrow> (boxed_error, post_action) outcome \<times> 's \<times> 'w"

record ('s, 'p, 'w) source_ops =
  so_process :: "('s, 'w) process_op"
  so_register :: "('s, 'p) register_op"
  so_reregister :: "('s, 'p) register_op"
  so_unregister :: "('s, 'p) unregister_op"
  so_needs_extra :: "'s \<Rightarrow> bool"
  so_before_sleep :: "'s \<Rightarrow> 'w \<Rightarrow> (readiness \<times> token) option cresult \<times> 's \<times> 'w"
  so_before_handle :: "'s \<Rightarrow> (readiness \<times> token) list \<Rightarrow> 'w \<Rightarrow> 's \<times> 'w"

text \<open>
  The provided methods of the trait: no additional lifecycle events, a \<open>before_sleep\<close> that
  reports nothing and a \<open>before_handle_events\<close> that does nothing.
\<close>

definition default_needs_extra :: "'s \<Rightarrow> bool" where
  "default_needs_extra s = False"

definition default_before_sleep :: "'s \<Rightarrow> 'w \<Rightarrow> (readiness \<times> token) option cresult \<times> 's \<times> 'w" where
  "default_before_sleep s w = (Ok None, s, w)"

definition default_before_handle :: "'s \<Rightarrow> (readiness \<times> token) list \<Rightarrow> 'w \<Rightarrow> 's \<times> 'w" where
  "default_before_handle s events w = (s, w)"

text \<open>The blanket implementations for \<open>Box<T>\<close> and \<open>&mut T\<close> delegate every method.\<close>

definition box_source_ops :: "('s, 'p, 'w) source_ops \<Rightarrow> ('s, 'p, 'w) source_ops" where
  "box_source_ops T =
     \<lparr>so_process = (\<lambda>s readiness token w. so_process T s readiness token w),
      so_register = (\<lambda>s poll tf. so_register T s poll tf),
      so_reregister = (\<lambda>s poll tf. so_reregister T s poll tf),
      so_unregister = (\<lambda>s poll. so_unregister T s poll),
      so_needs_extra = so_needs_extra T,
      so_before_sleep = (\<lambda>s w. so_before_sleep T s w),
      so_before_handle = (\<lambda>s events w. so_before_handle T s events w)\<rparr>"

definition ref_source_ops :: "('s, 'p, 'w) source_ops \<Rightarrow> ('s, 'p, 'w) source_ops" where
  "ref_source_ops T =
     \<lparr>so_process = (\<lambda>s readiness token w. so_process T s readiness token w),
      so_register = (\<lambda>s poll tf. so_register T s poll tf),
      so_reregister = (\<lambda>s poll tf. so_reregister T s poll tf),
      so_unregister = (\<lambda>s poll. so_unregister T s poll),
      so_needs_extra = so_needs_extra T,
      so_before_sleep = (\<lambda>s w. so_before_sleep T s w),
      so_before_handle = (\<lambda>s events w. so_before_handle T s events w)\<rparr>"

section \<open>AdditionalLifecycleEventsSet\<close>

definition lc_register :: "registration_token \<Rightarrow> registration_token list \<Rightarrow> registration_token list" where
  "lc_register token values = values @ [token]"

definition lc_unregister :: "registration_token \<Rightarrow> registration_token list \<Rightarrow> registration_token list" where
  "lc_unregister token values = filter (\<lambda>it. it \<noteq> token) values"

section \<open>Dispatchers\<close>

record 's dispatcher_inner =
  di_source :: 's
  di_needs :: bool

text \<open>
  \<open>IoDispatcher\<close> of \<open>src/src/io.rs\<close>, the other implementation of \<open>EventDispatcher\<close>. A waker is
  a number.
\<close>

record io_dispatcher =
  io_fd :: raw_fd
  io_token :: "token option"
  io_waker :: "nat option"
  io_is_registered :: bool
  io_interest :: interest
  io_last_readiness :: readiness

datatype 's dispatcher = SourceDisp "'s dispatcher_inner" | IoDisp io_dispatcher

text \<open>\<open>RefCell<...>\<close>: the dispatcher and whether it is mutably borrowed.\<close>

record 's cell =
  cell_val :: "'s dispatcher"
  cell_borrowed :: bool

type_synonym ('s, 'p, 'a) disp_result = "'a cresult \<times> 's cell \<times> 'p poll \<times> registration_token list"

text \<open>
  What an \<open>IoDispatcher\<close> does itself: \<open>Async::new\<close> registers and re-registers its descriptor, so these two
  are \<open>unreachable!()\<close>; \<open>unregister\<close> borrows the dispatcher with \<open>borrow\<close>, which panics where it is
  borrowed mutably.
\<close>

definition io_disp_register :: "'s cell \<Rightarrow> 'p poll \<Rightarrow> registration_token list \<Rightarrow> token_factory \<Rightarrow> ('s, 'p, unit) disp_result" where
  [simp]: "io_disp_register c P lc tf = (Panic, c, P, lc)"

definition io_disp_reregister :: "'s cell \<Rightarrow> 'p poll \<Rightarrow> registration_token list \<Rightarrow> token_factory \<Rightarrow> ('s, 'p, bool) disp_result" where
  [simp]: "io_disp_reregister c P lc tf = (Panic, c, P, lc)"

definition io_disp_unregister :: "'p poller_ops \<Rightarrow> io_dispatcher \<Rightarrow> 's cell \<Rightarrow> 'p poll \<Rightarrow> registration_token list
    \<Rightarrow> ('s, 'p, bool) disp_result" where
  [simp]: "io_disp_unregister K disp c P lc =
     (if cell_borrowed c then (Panic, c, P, lc)
      else if io_is_registered disp then
        (case Poll_unregister K (io_fd disp) P of (r, P') \<Rightarrow> (map_ok (\<lambda>_. True) r, c, P', lc))
      else (Ok True, c, P, lc))"

text \<open>The operations of an \<open>EventDispatcher\<close>, of which a \<open>DispatcherInner\<close> is the other implementation.\<close>

definition disp_register :: "('s, 'p, 'w) source_ops \<Rightarrow> 's cell \<Rightarrow> 'p poll \<Rightarrow> registration_token list
    \<Rightarrow> token_factory \<Rightarrow> ('s, 'p, unit) disp_result" where
  "disp_register ops c P lc tf =
     (case cell_val c of
        IoDisp _ \<Rightarrow> io_disp_register c P lc tf
      | SourceDisp this \<Rightarrow>
          if cell_borrowed c then (Panic, c, P, lc)
          else
            (let lc' = (if di_needs this then lc_register (factory_registration_token tf) lc else lc) in
             case so_register ops (di_source this) P tf of
               (r, s, P', _) \<Rightarrow> (r, c\<lparr>cell_val := SourceDisp (this\<lparr>di_source := s\<rparr>)\<rparr>, P', lc')))"

definition disp_reregister :: "('s, 'p, 'w) source_ops \<Rightarrow> 's cell \<Rightarrow> 'p poll \<Rightarrow> registration_token list
    \<Rightarrow> token_factory \<Rightarrow> ('s, 'p, bool) disp_result" where
  "disp_reregister ops c P lc tf =
     (case cell_val c of
        IoDisp _ \<Rightarrow> io_disp_reregister c P lc tf
      | SourceDisp me \<Rightarrow>
          if cell_borrowed c then (Ok False, c, P, lc)
          else
            (case so_reregister ops (di_source me) P tf of
               (r, s, P', tf') \<Rightarrow>
                 (let c' = c\<lparr>cell_val := SourceDisp (me\<lparr>di_source := s\<rparr>)\<rparr> in
                  case r of
                    Ok _ \<Rightarrow> (Ok True, c', P',
                       if di_needs me then lc_register (factory_registration_token tf') lc else lc)
                  | Err e \<Rightarrow> (Err e, c', P', lc)
                  | Panic \<Rightarrow> (Panic, c', P', lc)
                  | Diverge \<Rightarrow> (Diverge, c', P', lc))))"

definition disp_unregister :: "'p poller_ops \<Rightarrow> ('s, 'p, 'w) source_ops \<Rightarrow> 's cell \<Rightarrow> 'p poll
    \<Rightarrow> registration_token list \<Rightarrow> registration_token \<Rightarrow> ('s, 'p, bool) disp_result" where
  "disp_unregister K ops c P lc reg =
     (case cell_val c of
        IoDisp io \<Rightarrow> io_disp_unregister K io c P lc
      | SourceDisp me \<Rightarrow>
          if cell_borrowed c then (Ok False, c, P, lc)
          else
            (case so_unregister ops (di_source me) P of
               (r, s, P') \<Rightarrow>
                 (let c' = c\<lparr>cell_val := SourceDisp (me\<lparr>di_source := s\<rparr>)\<rparr> in
                  case r of
                    Ok _ \<Rightarrow> (Ok True, c', P', if di_needs me then lc_unregister reg lc else lc)
                  | Err e \<Rightarrow> (Err e, c', P', lc)
                  | Panic \<Rightarrow> (Panic, c', P', lc)
                  | Diverge \<Rightarrow> (Diverge, c', P', lc))))"

section \<open>Laws of post actions\<close>

lemma post_bitor_assign_eq: "post_bitor_assign a b = post_bitor a b"
  by (simp add: post_bitor_def post_bitor_assign_def)

lemma post_bitor_idem [simp]: "post_bitor a a = a"
  by (simp add: post_bitor_def)

lemma post_bitor_comm: "post_bitor a b = post_bitor b a"
  by (simp add: post_bitor_def)

lemma post_bitor_reregister [simp]: "post_bitor a Reregister = Reregister" "post_bitor Reregister a = Reregister"
  by (simp_all add: post_bitor_def)

lemma post_bitor_assoc: "post_bitor (post_bitor a b) c = post_bitor a (post_bitor b c)"
  by (cases a; cases b; cases c) (simp_all add: post_bitor_def)

lemma foldl_post_bitor:
  "foldl post_bitor a as = (if \<forall>b \<in> set as. b = a then a else Reregister)"
proof (induction as rule: rev_induct)
  case Nil
  then show ?case by simp
next
  case (snoc b as)
  then show ?case by (auto simp: post_bitor_def)
qed

lemma foldr_post_bitor:
  "foldr post_bitor as a = (if \<forall>b \<in> set as. b = a then a else Reregister)"
  by (induction as) (auto simp: post_bitor_def)

text \<open>
  Combining the post actions of any number of child sources with \<open>|\<close> gives their common
  value if they all agree and \<open>Reregister\<close> otherwise, in whatever order and grouping they are
  combined; in particular a child's \<open>Remove\<close> or \<open>Disable\<close> never takes its siblings with it.
\<close>

theorem post_actions_combine:
  "foldl post_bitor a as = (if \<forall>b \<in> set as. b = a then a else Reregister) \<and>
   foldr post_bitor as a = foldl post_bitor a as"
  by (simp add: foldl_post_bitor foldr_post_bitor)

lemma box_source_ops_eq [simp]: "box_source_ops T = T" "ref_source_ops T = T"
  by (simp_all add: box_source_ops_def ref_source_ops_def)

end
