(* ===== verification/Loop_State.thy ===== *)
theory Loop_State
  imports Event_Source
begin

text \<open>
  The state of the loop (\<open>LoopInner\<close>, \<open>EventLoop\<close> and \<open>Signals\<close> of \<open>src/src/loop_logic.rs\<close>)
  and the operations of \<open>LoopHandle\<close> and \<open>LoopSignal\<close>.

  The \<open>Rc<RefCell<...>>\<close> dispatchers live in \<open>lp_cells\<close> and are named by their index there, so
  that a slot of the table, a \<open>Dispatcher\<close> kept by the user and the dispatch in progress share
  one dispatcher. A cell stays in the list after its last reference is gone; \<open>Dropped_Sources\<close>
  shows that nothing depends on it any more. The \<open>RefCell\<close>s of \<open>LoopInner\<close> itself are never borrowed
  while user code runs and have no flag, except around the two lifecycle calls.
\<close>

section \<open>The state\<close>

text \<open>
  An idle callback: armed, running, done, or cancelled. \<open>'i\<close> names the user's closure.
\<close>

datatype 'i idle_cell = IdleArmed 'i | IdleRunning | IdleDone | IdleCancelled

record ('s, 'i, 'p, 'd) loop_state =
  lp_poll :: "'p poll"
  lp_sources :: "nat source_list"
  lp_cells :: "'s cell list"
  lp_lifecycle :: "registration_token list"
  lp_idles :: "nat list"
  lp_idle_cells :: "'i idle_cell list"
  lp_pending :: post_action
  lp_stop :: bool
  lp_future_ready :: bool
  lp_synthetic :: "poll_event list"
  lp_woken :: "nat list"
  lp_data :: 'd

type_synonym ('s, 'i, 'p, 'd) loop_ops = "('s, 'p, ('s, 'i, 'p, 'd) loop_state) source_ops"

text \<open>\<open>EventLoop::try_new\<close>: the result of \<open>Poller::new()\<close> is an argument, as is the shared data.\<close>

definition try_new :: "'p poller_ops \<Rightarrow> (io_error + 'p) \<Rightarrow> 'd \<Rightarrow> ('s, 'i, 'p, 'd) loop_state cresult" where
  "try_new K new_poller d =
     map_ok (\<lambda>poll.
       \<lparr>lp_poll = poll, lp_sources = SourceList_new, lp_cells = [], lp_lifecycle = [], lp_idles = [],
        lp_idle_cells = [], lp_pending = Continue, lp_stop = False, lp_future_ready = False,
        lp_synthetic = [], lp_woken = [], lp_data = d\<rparr>) (Poll_new K new_poller)"

section \<open>Calls on the dispatcher of a cell\<close>

text \<open>
  \<open>poll.borrow_mut()\<close> and the lifecycle set are passed to the dispatcher and written back.
\<close>

definition store_disp :: "nat \<Rightarrow> ('s, 'p, 'a) disp_result \<Rightarrow> ('s, 'i, 'p, 'd) loop_state
    \<Rightarrow> 'a cresult \<times> ('s, 'i, 'p, 'd) loop_state" where
  "store_disp did res L =
     (case res of (r, c, P, lc) \<Rightarrow>
        (r, L\<lparr>lp_cells := (lp_cells L)[did := c], lp_poll := P, lp_lifecycle := lc\<rparr>))"

definition loop_register :: "('s, 'i, 'p, 'd) loop_ops \<Rightarrow> nat \<Rightarrow> token_factory
    \<Rightarrow> ('s, 'i, 'p, 'd) loop_state \<Rightarrow> unit cresult \<times> ('s, 'i, 'p, 'd) loop_state" where
  "loop_register ops did tf L =
     store_disp did (disp_register ops (lp_cells L ! did) (lp_poll L) (lp_lifecycle L) tf) L"

definition loop_reregister :: "('s, 'i, 'p, 'd) loop_ops \<Rightarrow> nat \<Rightarrow> token_factory
    \<Rightarrow> ('s, 'i, 'p, 'd) loop_state \<Rightarrow> bool cresult \<times> ('s, 'i, 'p, 'd) loop_state" where
  "loop_reregister ops did tf L =
     store_disp did (disp_reregister ops (lp_cells L ! did) (lp_poll L) (lp_lifecycle L) tf) L"

definition loop_unregister :: "'p poller_ops \<Rightarrow> ('s, 'i, 'p, 'd) loop_ops \<Rightarrow> nat \<Rightarrow> registration_token
    \<Rightarrow> ('s, 'i, 'p, 'd) loop_state \<Rightarrow> bool cresult \<times> ('s, 'i, 'p, 'd) loop_state" where
  "loop_unregister K ops did reg L =
     store_disp did (disp_unregister K ops (lp_cells L ! did) (lp_poll L) (lp_lifecycle L) reg) L"

section \<open>LoopHandle: inserting\<close>

text \<open>\<open>Dispatcher::new\<close>: a new cell; its index is the dispatcher's name.\<close>

definition Dispatcher_new :: "('s, 'i, 'p, 'd) loop_ops \<Rightarrow> 's \<Rightarrow> ('s, 'i, 'p, 'd) loop_state
    \<Rightarrow> nat \<times> ('s, 'i, 'p, 'd) loop_state" where
  "Dispatcher_new ops source L =
     (length (lp_cells L),
      L\<lparr>lp_cells := lp_cells L @
        [\<lparr>cell_val = SourceDisp \<lparr>di_source = source, di_needs = so_needs_extra ops source\<rparr>, cell_borrowed = False\<rparr>]\<rparr>)"

definition register_dispatcher :: "('s, 'i, 'p, 'd) loop_ops \<Rightarrow> nat \<Rightarrow> ('s, 'i, 'p, 'd) loop_state
    \<Rightarrow> registration_token cresult \<times> ('s, 'i, 'p, 'd) loop_state" where
  "register_dispatcher ops did L =
     (case vacant_entry (lp_sources L) of
        (Ok i, sl) \<Rightarrow>
          (let sl' = set_source i (Some did) sl; tok = se_token (sl' ! i) in
           case loop_register ops did (TokenFactory_new tok) (L\<lparr>lp_sources := sl'\<rparr>) of
             (Ok _, L') \<Rightarrow> (Ok tok, L')
           | (Err e, L') \<Rightarrow> (Err e, L'\<lparr>lp_sources := set_source i None (lp_sources L')\<rparr>)
           | (Panic, L') \<Rightarrow> (Panic, L')
           | (Diverge, L') \<Rightarrow> (Diverge, L'))
      | (_, sl) \<Rightarrow> (Panic, L\<lparr>lp_sources := sl\<rparr>))"

text \<open>
  \<open>Dispatcher::into_source_inner\<close> takes the source out of its cell where it holds the last reference
  to it, and panics otherwise. The other references are those of the slots, of the dispatch in
  progress, and \<open>clones\<close> of the \<open>Dispatcher\<close> that the user holds.
\<close>

definition dispatcher_in_use :: "nat \<Rightarrow> ('s, 'i, 'p, 'd) loop_state \<Rightarrow> bool" where
  "dispatcher_in_use did L =
     (list_ex (\<lambda>entry. se_source entry = Some did) (lp_sources L) \<or> cell_borrowed (lp_cells L ! did))"

definition into_source_inner :: "nat \<Rightarrow> nat \<Rightarrow> ('s, 'i, 'p, 'd) loop_state \<Rightarrow> 's cresult" where
  "into_source_inner clones did L =
     (if clones \<noteq> 0 \<or> dispatcher_in_use did L then Panic
      else case cell_val (lp_cells L ! did) of SourceDisp di \<Rightarrow> Ok (di_source di) | IoDisp _ \<Rightarrow> Panic)"

definition insert_source :: "('s, 'i, 'p, 'd) loop_ops \<Rightarrow> 's \<Rightarrow> ('s, 'i, 'p, 'd) loop_state
    \<Rightarrow> ('s insert_error, registration_token) outcome \<times> ('s, 'i, 'p, 'd) loop_state" where
  "insert_source ops source L =
     (case Dispatcher_new ops source L of
        (dispatcher, L1) \<Rightarrow>
          (case register_dispatcher ops dispatcher L1 of
             (Ok token, L2) \<Rightarrow> (Ok token, L2)
           | (Err error, L2) \<Rightarrow>
               (case into_source_inner 0 dispatcher L2 of
                  Ok inserted \<Rightarrow> (Err \<lparr>ie_inserted = inserted, ie_error = error\<rparr>, L2)
                | _ \<Rightarrow> (Panic, L2))
           | (Panic, L2) \<Rightarrow> (Panic, L2)
           | (Diverge, L2) \<Rightarrow> (Diverge, L2)))"

lemma insert_source_snd: "snd (insert_source ops s L) =
    snd (register_dispatcher ops (fst (Dispatcher_new ops s L)) (snd (Dispatcher_new ops s L)))"
  by (auto simp: insert_source_def split: prod.splits outcome.splits)

lemma insert_source_Ok: "insert_source ops s L = (Ok t, L') \<longleftrightarrow>
    register_dispatcher ops (fst (Dispatcher_new ops s L)) (snd (Dispatcher_new ops s L)) = (Ok t, L')"
  by (auto simp: insert_source_def split: prod.splits outcome.splits)

definition insert_idle :: "'i \<Rightarrow> ('s, 'i, 'p, 'd) loop_state \<Rightarrow> nat \<times> ('s, 'i, 'p, 'd) loop_state" where
  "insert_idle callback L =
     (let cb = length (lp_idle_cells L) in
      (cb, L\<lparr>lp_idle_cells := lp_idle_cells L @ [IdleArmed callback], lp_idles := lp_idles L @ [cb]\<rparr>))"

text \<open>\<open>Idle::cancel\<close>; the \<open>borrow_mut\<close> panics while that idle callback runs.\<close>

definition idle_cancel :: "nat \<Rightarrow> ('s, 'i, 'p, 'd) loop_state \<Rightarrow> unit cresult \<times> ('s, 'i, 'p, 'd) loop_state" where
  "idle_cancel cb L =
     (if lp_idle_cells L ! cb = IdleRunning then (Panic, L)
      else (Ok (), L\<lparr>lp_idle_cells := (lp_idle_cells L)[cb := IdleCancelled]\<rparr>))"

section \<open>LoopHandle: enable, update, disable, remove\<close>

definition handle_enable :: "('s, 'i, 'p, 'd) loop_ops \<Rightarrow> registration_token \<Rightarrow> ('s, 'i, 'p, 'd) loop_state
    \<Rightarrow> unit cresult \<times> ('s, 'i, 'p, 'd) loop_state" where
  "handle_enable ops token L =
     (case sl_get (lp_sources L) token of
        Err e \<Rightarrow> (Err e, L)
      | Panic \<Rightarrow> (Panic, L)
      | Diverge \<Rightarrow> (Diverge, L)
      | Ok entry \<Rightarrow>
          (case se_source entry of
             None \<Rightarrow> (Err InvalidToken, L)
           | Some source \<Rightarrow> loop_register ops source (TokenFactory_new (se_token entry)) L))"

definition handle_update :: "('s, 'i, 'p, 'd) loop_ops \<Rightarrow> registration_token \<Rightarrow> ('s, 'i, 'p, 'd) loop_state
    \<Rightarrow> unit cresult \<times> ('s, 'i, 'p, 'd) loop_state" where
  "handle_update ops token L =
     (case sl_get (lp_sources L) token of
        Err e \<Rightarrow> (Err e, L)
      | Panic \<Rightarrow> (Panic, L)
      | Diverge \<Rightarrow> (Diverge, L)
      | Ok entry \<Rightarrow>
          (case se_source entry of
             None \<Rightarrow> (Err InvalidToken, L)
           | Some source \<Rightarrow>
               and_then (loop_reregister ops source (TokenFactory_new (se_token entry)) L)
                 (\<lambda>done_now L'. (Ok (), if \<not> done_now then L'\<lparr>lp_pending := Reregister\<rparr> else L'))))"

definition handle_disable :: "'p poller_ops \<Rightarrow> ('s, 'i, 'p, 'd) loop_ops \<Rightarrow> registration_token
    \<Rightarrow> ('s, 'i, 'p, 'd) loop_state \<Rightarrow> unit cresult \<times> ('s, 'i, 'p, 'd) loop_state" where
  "handle_disable K ops token L =
     (case sl_get (lp_sources L) token of
        Err e \<Rightarrow> (Err e, L)
      | Panic \<Rightarrow> (Panic, L)
      | Diverge \<Rightarrow> (Diverge, L)
      | Ok entry \<Rightarrow>
          (case se_source entry of
             None \<Rightarrow> (Err InvalidToken, L)
           | Some source \<Rightarrow>
               if \<not> same_source_as token (se_token entry) then (Err InvalidToken, L)
               else
                 and_then (loop_unregister K ops source token L)
                   (\<lambda>done_now L'. (Ok (), if \<not> done_now then L'\<lparr>lp_pending := Disable\<rparr> else L'))))"

text \<open>\<open>remove\<close> empties the slot first; an error of \<open>unregister\<close> is only logged.\<close>

definition log_error :: "'a cresult \<times> 'w \<Rightarrow> unit cresult \<times> 'w" where
  "log_error r = (case r of (Ok _, w) \<Rightarrow> (Ok (), w) | (Err _, w) \<Rightarrow> (Ok (), w)
     | (Panic, w) \<Rightarrow> (Panic, w) | (Diverge, w) \<Rightarrow> (Diverge, w))"

definition handle_remove :: "'p poller_ops \<Rightarrow> ('s, 'i, 'p, 'd) loop_ops \<Rightarrow> registration_token
    \<Rightarrow> ('s, 'i, 'p, 'd) loop_state \<Rightarrow> unit cresult \<times> ('s, 'i, 'p, 'd) loop_state" where
  "handle_remove K ops token L =
     (case sl_get_mut (lp_sources L) token of
        Ok i \<Rightarrow>
          (case se_source (lp_sources L ! i) of
             Some source \<Rightarrow>
               log_error (loop_unregister K ops source token
                 (L\<lparr>lp_sources := set_source i None (lp_sources L)\<rparr>))
           | None \<Rightarrow> (Ok (), L))
      | _ \<Rightarrow> (Ok (), L))"

section \<open>Access to a registered source, signals\<close>

text \<open>\<open>Dispatcher::as_source_ref\<close>: the \<open>borrow\<close> panics while the source dispatches.\<close>

definition as_source_ref :: "nat \<Rightarrow> ('s, 'i, 'p, 'd) loop_state \<Rightarrow> 's cresult" where
  "as_source_ref did L =
     (let c = lp_cells L ! did in
      if cell_borrowed c then Panic
      else case cell_val c of SourceDisp di \<Rightarrow> Ok (di_source di) | IoDisp _ \<Rightarrow> Panic)"

text \<open>
  \<open>Dispatcher::as_source_mut\<close>: change a source through the user's \<open>Dispatcher\<close>; the
  \<open>borrow_mut\<close> panics while the source dispatches.
\<close>

definition as_source_mut :: "nat \<Rightarrow> ('s \<Rightarrow> 's) \<Rightarrow> ('s, 'i, 'p, 'd) loop_state
    \<Rightarrow> unit cresult \<times> ('s, 'i, 'p, 'd) loop_state" where
  "as_source_mut did f L =
     (let c = lp_cells L ! did in
      if cell_borrowed c then (Panic, L)
      else case cell_val c of
             SourceDisp di \<Rightarrow>
               (Ok (), L\<lparr>lp_cells := (lp_cells L)[did := c\<lparr>cell_val := SourceDisp (di\<lparr>di_source := f (di_source di)\<rparr>)\<rparr>]\<rparr>)
           | IoDisp _ \<Rightarrow> (Ok (), L))"

text \<open>\<open>LoopSignal::stop\<close> and \<open>LoopSignal::wakeup\<close>.\<close>

definition signal_stop :: "('s, 'i, 'p, 'd) loop_state \<Rightarrow> ('s, 'i, 'p, 'd) loop_state" where
  "signal_stop L = L\<lparr>lp_stop := True\<rparr>"

definition signal_wakeup :: "'p poller_ops \<Rightarrow> ('s, 'i, 'p, 'd) loop_state \<Rightarrow> ('s, 'i, 'p, 'd) loop_state" where
  "signal_wakeup K L = L\<lparr>lp_poll := snd (Notifier_notify K (lp_poll L))\<rparr>"

text \<open>\<open>EventLoopWaker::wake\<close>, the waker of \<open>block_on\<close>.\<close>

definition loop_waker_wake :: "'p poller_ops \<Rightarrow> ('s, 'i, 'p, 'd) loop_state \<Rightarrow> ('s, 'i, 'p, 'd) loop_state" where
  "loop_waker_wake K L = signal_wakeup K (L\<lparr>lp_future_ready := True\<rparr>)"

end
