(* ===== verification/Loop_Handles.thy ===== *)
theory Loop_Handles
  imports Loop_State
begin

text \<open>
  The handles of \<open>src/src/loop_logic.rs\<close>. \<open>LoopHandle\<close> is an \<open>Rc<LoopInner>\<close> and \<open>WeakLoopHandle\<close> a \<open>Weak\<close>. The
  allocation behind them has a count of strong references, and the \<open>LoopInner\<close> in it until that
  count is zero: then the sources, the idle callbacks and what these own are dropped. Callbacks may
  own handles, so the content says how many each one does.
\<close>

record loop_alloc =
  la_strong :: nat
  la_weak :: nat
  la_callbacks :: "nat list option"

text \<open>A weak handle is dangling (\<open>Weak::default()\<close>) or refers to the allocation.\<close>

datatype weak_handle = WeakDangling | WeakTo

section \<open>The operations\<close>

text \<open>\<open>Clone\<close> and the drop of a \<open>LoopHandle\<close>; the last drop drops the content.\<close>

definition handle_clone :: "loop_alloc \<Rightarrow> loop_alloc" where
  "handle_clone a = a\<lparr>la_strong := la_strong a + 1\<rparr>"

definition handle_drop :: "loop_alloc \<Rightarrow> loop_alloc" where
  "handle_drop a = a\<lparr>la_strong := la_strong a - 1, la_callbacks := (if la_strong a = 1 then None else la_callbacks a)\<rparr>"

definition handle_downgrade :: "loop_alloc \<Rightarrow> weak_handle \<times> loop_alloc" where
  "handle_downgrade a = (WeakTo, a\<lparr>la_weak := la_weak a + 1\<rparr>)"

fun weak_clone :: "weak_handle \<Rightarrow> loop_alloc \<Rightarrow> weak_handle \<times> loop_alloc" where
  "weak_clone WeakDangling a = (WeakDangling, a)"
| "weak_clone WeakTo a = (WeakTo, a\<lparr>la_weak := la_weak a + 1\<rparr>)"

definition weak_default :: weak_handle where
  "weak_default = WeakDangling"

text \<open>\<open>upgrade\<close>: whether there is a handle, which is then one strong reference more; \<open>expired\<close>.\<close>

fun weak_strong_count :: "weak_handle \<Rightarrow> loop_alloc \<Rightarrow> nat" where
  "weak_strong_count WeakDangling a = 0"
| "weak_strong_count WeakTo a = la_strong a"

definition weak_upgrade :: "weak_handle \<Rightarrow> loop_alloc \<Rightarrow> bool \<times> loop_alloc" where
  "weak_upgrade w a = (if weak_strong_count w a = 0 then (False, a) else (True, handle_clone a))"

definition weak_expired :: "weak_handle \<Rightarrow> loop_alloc \<Rightarrow> bool" where
  "weak_expired w a = (weak_strong_count w a = 0)"

section \<open>The life of a loop\<close>

text \<open>
  What a program does with the handles it holds outside the loop, \<open>n\<close> of them: it clones and drops
  them, upgrades weak ones, moves \<open>k\<close> of them into the callback of a source or an idle callback,
  and has such a callback dropped, by a removal or, for an idle callback, by having it run. The last
  two need a handle to call with.
\<close>

inductive handle_step :: "nat \<times> loop_alloc \<Rightarrow> nat \<times> loop_alloc \<Rightarrow> bool" where
  hs_clone: "0 < n \<Longrightarrow> handle_step (n, a) (n + 1, handle_clone a)"
| hs_drop: "0 < n \<Longrightarrow> handle_step (n, a) (n - 1, handle_drop a)"
| hs_downgrade: "0 < n \<Longrightarrow> handle_step (n, a) (n, snd (handle_downgrade a))"
| hs_weak_clone: "handle_step (n, a) (n, snd (weak_clone w a))"
| hs_upgrade: "weak_upgrade w a = (True, a') \<Longrightarrow> handle_step (n, a) (n + 1, a')"
| hs_insert: "k < n \<Longrightarrow> la_callbacks a = Some ks \<Longrightarrow> handle_step (n, a) (n - k, a\<lparr>la_callbacks := Some (ks @ [k])\<rparr>)"
| hs_remove: "0 < n \<Longrightarrow> la_callbacks a = Some (ks @ k # ks') \<Longrightarrow>
    handle_step (n, a) (n, (handle_drop ^^ k) (a\<lparr>la_callbacks := Some (ks @ ks')\<rparr>))"

definition handles_counted :: "nat \<times> loop_alloc \<Rightarrow> bool" where
  "handles_counted = (\<lambda>(n, a). case la_callbacks a of
     Some ks \<Rightarrow> la_strong a = n + sum_list ks \<and> 0 < la_strong a
   | None \<Rightarrow> la_strong a = 0 \<and> n = 0)"

lemma handle_drops: "k < la_strong a \<Longrightarrow> (handle_drop ^^ k) a = a\<lparr>la_strong := la_strong a - k\<rparr>"
proof (induction k)
  case (Suc k)
  then have "(handle_drop ^^ k) a = a\<lparr>la_strong := la_strong a - k\<rparr>" by simp
  then have "(handle_drop ^^ Suc k) a = handle_drop (a\<lparr>la_strong := la_strong a - k\<rparr>)" by simp
  also have "\<dots> = a\<lparr>la_strong := la_strong a - Suc k\<rparr>" using Suc.prems by (simp add: handle_drop_def)
  finally show ?case .
qed simp

lemma handle_step_counted: "handle_step s s' \<Longrightarrow> handles_counted s \<Longrightarrow> handles_counted s'"
proof (induction rule: handle_step.induct)
  case (hs_weak_clone n a w)
  then show ?case by (cases w) (auto simp: handles_counted_def split: option.splits)
next
  case (hs_upgrade w a a' n)
  then show ?case
    by (cases w) (auto simp: handles_counted_def weak_upgrade_def handle_clone_def split: option.splits if_splits)
next
  case (hs_remove n a ks k ks')
  then have "la_strong a = n + sum_list ks + k + sum_list ks'" by (simp add: handles_counted_def)
  then show ?case
    using hs_remove handle_drops [of k "a\<lparr>la_callbacks := Some (ks @ ks')\<rparr>"] by (simp add: handles_counted_def)
qed (auto simp: handles_counted_def handle_clone_def handle_drop_def handle_downgrade_def split: option.splits)

lemma handle_steps_counted: "handle_step\<^sup>*\<^sup>* s s' \<Longrightarrow> handles_counted s \<Longrightarrow> handles_counted s'"
  by (induction rule: rtranclp_induct) (auto intro: handle_step_counted)

text \<open>
  The count is always right, so that an upgrade gives a handle exactly while the loop's data is
  there. Once the program holds no handle, the data is there only because a callback in it owns a
  strong handle: such a cycle is never freed, and weak handles in callbacks avoid it.
\<close>

lemma loop_data_lifetime:
  assumes "handle_step\<^sup>*\<^sup>* (1, \<lparr>la_strong = 1, la_weak = 0, la_callbacks = Some []\<rparr>) (n, a)"
  shows "(weak_expired WeakTo a \<longleftrightarrow> la_callbacks a = None) \<and> (fst (weak_upgrade WeakTo a) \<longleftrightarrow> la_callbacks a \<noteq> None) \<and>
    (n = 0 \<longrightarrow> la_callbacks a \<noteq> None \<longrightarrow> (\<exists>k \<in> set (the (la_callbacks a)). 0 < k))"
proof -
  have "handles_counted (n, a)"
    using handle_steps_counted [OF assms] by (simp add: handles_counted_def)
  moreover have "0 < sum_list ks \<longleftrightarrow> (\<exists>k \<in> set ks. 0 < k)" for ks :: "nat list"
    by (metis not_gr_zero sum_list_eq_0_iff)
  ultimately show ?thesis
    by (cases "la_callbacks a") (auto simp: handles_counted_def weak_expired_def weak_upgrade_def)
qed

text \<open>A loop whose data is gone stays gone.\<close>

lemma expired_stays: "handle_step\<^sup>*\<^sup>* s s' \<Longrightarrow> handles_counted s \<Longrightarrow> la_callbacks (snd s) = None \<Longrightarrow>
    fst s' = 0 \<and> weak_expired w (snd s')"
proof -
  have one: "la_callbacks (snd v) = None" if "handle_step u v" "handles_counted u" "la_callbacks (snd u) = None" for u v
    using that
  proof (induction rule: handle_step.induct)
    case (hs_weak_clone n a w)
    then show ?case by (cases w) auto
  next
    case (hs_upgrade w a a' n)
    then show ?case by (cases w) (auto simp: weak_upgrade_def handles_counted_def)
  qed (auto simp: handles_counted_def handle_clone_def handle_downgrade_def)
  assume steps: "handle_step\<^sup>*\<^sup>* s s'" "handles_counted s" "la_callbacks (snd s) = None"
  from steps have "handles_counted s' \<and> la_callbacks (snd s') = None"
    by (induction rule: rtranclp_induct) (auto intro: handle_step_counted one)
  then show ?thesis by (cases w; cases s') (auto simp: handles_counted_def weak_expired_def)
qed

end
