(* ===== verification/Async_Io.thy ===== *)
theory Async_Io
  imports Loop_State
begin

text \<open>
  \<open>src/src/io.rs\<close>: the \<open>Async\<close> adapter for I/O objects. It registers its descriptor with the
  loop's poller itself (\<open>IoLoopInner\<close>) and keeps an \<open>IoDispatcher\<close> in the loop's table, which
  records the readiness the loop reports and wakes the waiting future. A waker is a number;
  calling it is recorded in \<open>lp_woken\<close>. Setting the non-blocking flag of the descriptor is a
  system call and its result is an argument.
\<close>

section \<open>IoDispatcher\<close>

definition io_disp_new :: "raw_fd \<Rightarrow> io_dispatcher" where
  "io_disp_new fd =
     \<lparr>io_fd = fd, io_token = None, io_waker = None, io_is_registered = False,
      io_interest = Interest_EMPTY, io_last_readiness = Readiness_EMPTY\<rparr>"

text \<open>\<open>IoDispatcher::readiness\<close> takes the last readiness and leaves it empty.\<close>

definition io_readiness :: "io_dispatcher \<Rightarrow> readiness \<times> io_dispatcher" where
  "io_readiness io = (io_last_readiness io, io\<lparr>io_last_readiness := Readiness_EMPTY\<rparr>)"

text \<open>\<open>process_events\<close>: store the readiness, take the waker and wake it.\<close>

definition io_process_events :: "readiness \<Rightarrow> io_dispatcher \<Rightarrow> nat list \<Rightarrow> io_dispatcher \<times> nat list" where
  "io_process_events readiness io woken =
     (let disp = io\<lparr>io_last_readiness := readiness\<rparr> in
      case io_waker disp of
        Some w \<Rightarrow> (disp\<lparr>io_waker := None\<rparr>, woken @ [w])
      | None \<Rightarrow> (disp, woken))"

text \<open>The dispatcher of an adapter, and writing it back.\<close>

definition io_at :: "nat \<Rightarrow> ('s, 'i, 'p, 'd) loop_state \<Rightarrow> io_dispatcher option" where
  "io_at did L = (case cell_val (lp_cells L ! did) of IoDisp io \<Rightarrow> Some io | SourceDisp _ \<Rightarrow> None)"

definition io_put :: "nat \<Rightarrow> io_dispatcher \<Rightarrow> ('s, 'i, 'p, 'd) loop_state \<Rightarrow> ('s, 'i, 'p, 'd) loop_state" where
  "io_put did io L = L\<lparr>lp_cells := (lp_cells L)[did := (lp_cells L ! did)\<lparr>cell_val := IoDisp io\<rparr>]\<rparr>"

section \<open>IoLoopInner\<close>

text \<open>
  \<open>IoLoopInner::register\<close>, \<open>reregister\<close> and \<open>kill\<close>. \<open>expect("No token for IO dispatcher")\<close> is a
  panic where the token is missing.
\<close>

definition io_register :: "'p poller_ops \<Rightarrow> nat \<Rightarrow> io_dispatcher \<Rightarrow> ('s, 'i, 'p, 'd) loop_state
    \<Rightarrow> unit cresult \<times> ('s, 'i, 'p, 'd) loop_state" where
  "io_register K did disp L =
     (case io_token disp of
        None \<Rightarrow> (Panic, L)
      | Some token \<Rightarrow>
          (case Poll_register K (io_fd disp) Interest_EMPTY OneShot token (lp_poll L) of
             (result, P) \<Rightarrow>
               (let L' = L\<lparr>lp_poll := P\<rparr> in
                (result, if is_ok result then io_put did (disp\<lparr>io_is_registered := True\<rparr>) L' else L'))))"

definition io_reregister :: "'p poller_ops \<Rightarrow> nat \<Rightarrow> io_dispatcher \<Rightarrow> ('s, 'i, 'p, 'd) loop_state
    \<Rightarrow> unit cresult \<times> ('s, 'i, 'p, 'd) loop_state" where
  "io_reregister K did disp L =
     (case io_token disp of
        None \<Rightarrow> (Panic, L)
      | Some token \<Rightarrow>
          (case Poll_reregister K (io_fd disp) (io_interest disp) OneShot token (lp_poll L) of
             (result, P) \<Rightarrow>
               (let L' = L\<lparr>lp_poll := P\<rparr> in
                (result, if is_ok result then io_put did (disp\<lparr>io_is_registered := True\<rparr>) L' else L'))))"

definition io_kill :: "'p poller_ops \<Rightarrow> nat \<Rightarrow> io_dispatcher \<Rightarrow> ('s, 'i, 'p, 'd) loop_state
    \<Rightarrow> unit cresult \<times> ('s, 'i, 'p, 'd) loop_state" where
  "io_kill K did disp L =
     (case io_token disp of
        None \<Rightarrow> (Panic, L)
      | Some token \<Rightarrow>
          (let L' = (if io_is_registered disp then
               (case Poll_unregister K (io_fd disp) (lp_poll L) of
                  (r, P) \<Rightarrow>
                    (let L1 = L\<lparr>lp_poll := P\<rparr> in
                     if is_ok r then io_put did (disp\<lparr>io_is_registered := False\<rparr>) L1 else L1))
               else L)
           in (Ok (), L'\<lparr>lp_sources := sl_release token (lp_sources L')\<rparr>)))"

section \<open>Async\<close>

record async_io =
  as_dispatcher :: nat
  as_was_nonblocking :: bool

text \<open>
  \<open>Async::new\<close>: \<open>set_nonblocking\<close>'s result is the first argument. The slot is claimed for the
  dispatcher before the descriptor is registered.
\<close>

definition Async_new :: "'p poller_ops \<Rightarrow> (io_error + bool) \<Rightarrow> raw_fd \<Rightarrow> ('s, 'i, 'p, 'd) loop_state
    \<Rightarrow> async_io cresult \<times> ('s, 'i, 'p, 'd) loop_state" where
  "Async_new K set_nonblocking fd L =
     (case set_nonblocking of
        Inl e \<Rightarrow> (Err (error_from_io e), L)
      | Inr was_nonblocking \<Rightarrow>
          (let did = length (lp_cells L) in
           case vacant_entry (lp_sources L) of
             (Ok i, sl) \<Rightarrow>
               (let sl' = set_source i (Some did) sl;
                    disp = (io_disp_new fd)\<lparr>io_token := Some (se_token (sl' ! i))\<rparr>;
                    L1 = L\<lparr>lp_cells := lp_cells L @ [\<lparr>cell_val = IoDisp disp, cell_borrowed = False\<rparr>],
                           lp_sources := sl'\<rparr>
                in and_then (io_register K did disp L1)
                     (\<lambda>_ L2. (Ok \<lparr>as_dispatcher = did, as_was_nonblocking = was_nonblocking\<rparr>, L2)))
           | (_, sl) \<Rightarrow> (Panic, L\<lparr>lp_sources := sl\<rparr>)))"

definition async_register_waker :: "'p poller_ops \<Rightarrow> async_io \<Rightarrow> interest \<Rightarrow> nat \<Rightarrow> ('s, 'i, 'p, 'd) loop_state
    \<Rightarrow> unit cresult \<times> ('s, 'i, 'p, 'd) loop_state" where
  "async_register_waker K a interest waker L =
     (case io_at (as_dispatcher a) L of
        None \<Rightarrow> (Panic, L)
      | Some disp \<Rightarrow>
          (let disp' = disp\<lparr>io_interest := interest, io_waker := Some waker\<rparr> in
           io_reregister K (as_dispatcher a) disp' (io_put (as_dispatcher a) disp' L)))"

text \<open>
  Polling \<open>Readable\<close> and \<open>Writable\<close>: \<open>True\<close> for \<open>Ready\<close>. A failure to re-register is dropped
  (\<open>let _ = ...\<close>).
\<close>

definition async_poll :: "'p poller_ops \<Rightarrow> (readiness \<Rightarrow> bool) \<Rightarrow> interest \<Rightarrow> async_io \<Rightarrow> nat
    \<Rightarrow> ('s, 'i, 'p, 'd) loop_state \<Rightarrow> bool cresult \<times> ('s, 'i, 'p, 'd) loop_state" where
  "async_poll K wanted interest a waker L =
     (case io_at (as_dispatcher a) L of
        None \<Rightarrow> (Panic, L)
      | Some disp \<Rightarrow>
          (case io_readiness disp of
             (rd, disp') \<Rightarrow>
               (let L1 = io_put (as_dispatcher a) disp' L in
                if wanted rd \<or> rd_error rd then (Ok True, L1)
                else case async_register_waker K a interest waker L1 of
                       (Ok _, L2) \<Rightarrow> (Ok False, L2)
                     | (Err _, L2) \<Rightarrow> (Ok False, L2)
                     | (Panic, L2) \<Rightarrow> (Panic, L2)
                     | (Diverge, L2) \<Rightarrow> (Diverge, L2))))"

definition readable_poll :: "'p poller_ops \<Rightarrow> async_io \<Rightarrow> nat \<Rightarrow> ('s, 'i, 'p, 'd) loop_state
    \<Rightarrow> bool cresult \<times> ('s, 'i, 'p, 'd) loop_state" where
  "readable_poll K a waker L = async_poll K rd_readable Interest_READ a waker L"

definition writable_poll :: "'p poller_ops \<Rightarrow> async_io \<Rightarrow> nat \<Rightarrow> ('s, 'i, 'p, 'd) loop_state
    \<Rightarrow> bool cresult \<times> ('s, 'i, 'p, 'd) loop_state" where
  "writable_poll K a waker L = async_poll K rd_writable Interest_WRITE a waker L"

text \<open>
  \<open>AsyncRead::poll_read\<close>, \<open>AsyncWrite::poll_write\<close> and \<open>poll_flush\<close> (the vectored forms are the
  same): \<open>None\<close> is \<open>Pending\<close>. The result of the I/O call is an argument; \<open>WouldBlock\<close> registers
  the waker, and a failure to do so is returned as the I/O result.
\<close>

definition async_try_io :: "'p poller_ops \<Rightarrow> interest \<Rightarrow> (io_error + 'n) \<Rightarrow> async_io \<Rightarrow> nat
    \<Rightarrow> ('s, 'i, 'p, 'd) loop_state \<Rightarrow> (std_io_error + 'n) option cresult \<times> ('s, 'i, 'p, 'd) loop_state" where
  "async_try_io K interest io_result a waker L =
     (case io_result of
        Inl WouldBlock \<Rightarrow>
          (case async_register_waker K a interest waker L of
             (Ok _, L') \<Rightarrow> (Ok None, L')
           | (Err e, L') \<Rightarrow> (Ok (Some (Inl (io_from_error e))), L')
           | (Panic, L') \<Rightarrow> (Panic, L')
           | (Diverge, L') \<Rightarrow> (Diverge, L'))
      | Inl e \<Rightarrow> (Ok (Some (Inl (IoKind e))), L)
      | Inr n \<Rightarrow> (Ok (Some (Inr n)), L))"

definition poll_read :: "'p poller_ops \<Rightarrow> (io_error + 'n) \<Rightarrow> async_io \<Rightarrow> nat \<Rightarrow> ('s, 'i, 'p, 'd) loop_state
    \<Rightarrow> (std_io_error + 'n) option cresult \<times> ('s, 'i, 'p, 'd) loop_state" where
  "poll_read K read_result a waker L = async_try_io K Interest_READ read_result a waker L"

definition poll_write :: "'p poller_ops \<Rightarrow> (io_error + 'n) \<Rightarrow> async_io \<Rightarrow> nat \<Rightarrow> ('s, 'i, 'p, 'd) loop_state
    \<Rightarrow> (std_io_error + 'n) option cresult \<times> ('s, 'i, 'p, 'd) loop_state" where
  "poll_write K write_result a waker L = async_try_io K Interest_WRITE write_result a waker L"

definition poll_flush :: "'p poller_ops \<Rightarrow> (io_error + unit) \<Rightarrow> async_io \<Rightarrow> nat \<Rightarrow> ('s, 'i, 'p, 'd) loop_state
    \<Rightarrow> (std_io_error + unit) option cresult \<times> ('s, 'i, 'p, 'd) loop_state" where
  "poll_flush K flush_result a waker L = async_try_io K Interest_WRITE flush_result a waker L"

definition poll_close :: "'p poller_ops \<Rightarrow> (io_error + unit) \<Rightarrow> async_io \<Rightarrow> nat \<Rightarrow> ('s, 'i, 'p, 'd) loop_state
    \<Rightarrow> (std_io_error + unit) option cresult \<times> ('s, 'i, 'p, 'd) loop_state" where
  "poll_close K flush_result a waker L = poll_flush K flush_result a waker L"

text \<open>\<open>Drop for Async\<close>, up to the file flag (\<open>Async_Flags\<close>).\<close>

definition async_drop :: "'p poller_ops \<Rightarrow> async_io \<Rightarrow> ('s, 'i, 'p, 'd) loop_state
    \<Rightarrow> unit cresult \<times> ('s, 'i, 'p, 'd) loop_state" where
  "async_drop K a L =
     (case io_at (as_dispatcher a) L of
        None \<Rightarrow> (Panic, L)
      | Some disp \<Rightarrow> io_kill K (as_dispatcher a) disp L)"

end
