(* ===== verification/Dispatch.thy ===== *)
theory Dispatch
  imports Async_Io
begin

text \<open>
  The dispatching half of \<open>src/src/loop_logic.rs\<close>: \<open>EventLoop::dispatch_events\<close>, cut into its
  five phases, \<open>dispatch_idles\<close>, \<open>dispatch\<close>, \<open>run\<close> and \<open>block_on\<close>; with the dispatcher calls of
  \<open>src/src/sources/mod.rs\<close> that run user code.

  While the lifecycle calls run, the table and the lifecycle set are borrowed by the loop, so
  the list they walk over is the one read at the start. Two loops have no bound in the code and
  carry fuel: the retry of an interrupted wait and \<open>run\<close> or \<open>block_on\<close> themselves.
\<close>

section \<open>Dispatcher calls that run user code\<close>

definition set_cell :: "nat \<Rightarrow> 's cell \<Rightarrow> ('s, 'i, 'p, 'd) loop_state \<Rightarrow> ('s, 'i, 'p, 'd) loop_state" where
  "set_cell did c L = L\<lparr>lp_cells := (lp_cells L)[did := c]\<rparr>"

text \<open>
  \<open>EventDispatcher::process_events\<close>: the cell is mutably borrowed while the source and its
  callback run. An error of the source is boxed.
\<close>

definition disp_process :: "('s, 'i, 'p, 'd) loop_ops \<Rightarrow> nat \<Rightarrow> readiness \<Rightarrow> token
    \<Rightarrow> ('s, 'i, 'p, 'd) loop_state \<Rightarrow> post_action cresult \<times> ('s, 'i, 'p, 'd) loop_state" where
  "disp_process ops did readiness token L =
     (let c = lp_cells L ! did in
      if cell_borrowed c then (Panic, L)
      else case cell_val c of
             SourceDisp disp \<Rightarrow>
               (case so_process ops (di_source disp) readiness token (set_cell did (c\<lparr>cell_borrowed := True\<rparr>) L) of
                  (r, s, L') \<Rightarrow>
                    (map_err error_from_box r,
                     set_cell did \<lparr>cell_val = SourceDisp (disp\<lparr>di_source := s\<rparr>), cell_borrowed = False\<rparr> L'))
           | IoDisp disp \<Rightarrow>
               (case io_process_events readiness disp (lp_woken L) of
                  (disp', woken) \<Rightarrow> (Ok Continue, (io_put did disp' L)\<lparr>lp_woken := woken\<rparr>)))"

definition disp_before_sleep :: "('s, 'i, 'p, 'd) loop_ops \<Rightarrow> nat \<Rightarrow> ('s, 'i, 'p, 'd) loop_state
    \<Rightarrow> (readiness \<times> token) option cresult \<times> ('s, 'i, 'p, 'd) loop_state" where
  "disp_before_sleep ops did L =
     (let c = lp_cells L ! did in
      case cell_val c of
        IoDisp _ \<Rightarrow> (Ok None, L)
      | SourceDisp disp \<Rightarrow>
          if cell_borrowed c then (Panic, L)
          else (case so_before_sleep ops (di_source disp) (set_cell did (c\<lparr>cell_borrowed := True\<rparr>) L) of
                  (r, s, L') \<Rightarrow>
                    (r, set_cell did \<lparr>cell_val = SourceDisp (disp\<lparr>di_source := s\<rparr>), cell_borrowed = False\<rparr> L')))"

definition disp_before_handle :: "('s, 'i, 'p, 'd) loop_ops \<Rightarrow> nat \<Rightarrow> (readiness \<times> token) list
    \<Rightarrow> ('s, 'i, 'p, 'd) loop_state \<Rightarrow> unit cresult \<times> ('s, 'i, 'p, 'd) loop_state" where
  "disp_before_handle ops did events L =
     (let c = lp_cells L ! did in
      case cell_val c of
        IoDisp _ \<Rightarrow> (Ok (), L)
      | SourceDisp disp \<Rightarrow>
          if cell_borrowed c then (Panic, L)
          else (case so_before_handle ops (di_source disp) events (set_cell did (c\<lparr>cell_borrowed := True\<rparr>) L) of
                  (s, L') \<Rightarrow>
                    (Ok (), set_cell did \<lparr>cell_val = SourceDisp (disp\<lparr>di_source := s\<rparr>), cell_borrowed = False\<rparr> L')))"

section \<open>dispatch_events: before sleeping\<close>

text \<open>
  The first loop: a reported event is kept as synthetic and the timeout becomes zero. A token
  that names no source is \<open>unreachable!()\<close>.
\<close>

fun run_before_sleep :: "('s, 'i, 'p, 'd) loop_ops \<Rightarrow> registration_token list \<Rightarrow> duration option
    \<Rightarrow> ('s, 'i, 'p, 'd) loop_state \<Rightarrow> duration option cresult \<times> ('s, 'i, 'p, 'd) loop_state" where
  "run_before_sleep ops [] timeout L = (Ok timeout, L)"
| "run_before_sleep ops (source # rest) timeout L =
     (case sl_lookup (lp_sources L) source of
        None \<Rightarrow> (Panic, L)
      | Some disp \<Rightarrow>
          and_then (disp_before_sleep ops disp L)
            (\<lambda>ev L'. case ev of
               Some (readiness, token) \<Rightarrow>
                 run_before_sleep ops rest (Some 0)
                   (L'\<lparr>lp_synthetic := lp_synthetic L' @ [\<lparr>pe_readiness = readiness, pe_token = token\<rparr>]\<rparr>)
             | None \<Rightarrow> run_before_sleep ops rest timeout L'))"

section \<open>dispatch_events: waiting\<close>

text \<open>
  The retry loop around \<open>Poll::poll\<close>; \<open>None\<close> is its \<open>return Ok(())\<close>. \<open>now\<close> is the instant the
  dispatch began. The fuel is the number of waits.
\<close>

fun poll_retry :: "'p poller_ops \<Rightarrow> nat \<Rightarrow> instant \<Rightarrow> duration option \<Rightarrow> 'p poll
    \<Rightarrow> poll_event list option cresult \<times> 'p poll" where
  "poll_retry K 0 now timeout P = (Diverge, P)"
| "poll_retry K (Suc n) now timeout P =
     (case Poll_poll K timeout P of
        (Ok events, P') \<Rightarrow> (Ok (Some events), P')
      | (Err err, P') \<Rightarrow>
          if err = IoError Interrupted then
            (case timeout of
               Some to \<Rightarrow>
                 (let elapsed = saturating_duration_since (pl_now K (poller P')) now in
                  if elapsed \<ge> to then (Ok None, P') else poll_retry K n now (Some (to - elapsed)) P')
             | None \<Rightarrow> poll_retry K n now None P')
          else (Err err, P')
      | (Panic, P') \<Rightarrow> (Panic, P')
      | (Diverge, P') \<Rightarrow> (Diverge, P'))"

section \<open>dispatch_events: before handling\<close>

text \<open>\<open>EventIterator\<close>: the events of one registration, in order.\<close>

definition event_iterator :: "registration_token \<Rightarrow> poll_event list \<Rightarrow> (readiness \<times> token) list" where
  "event_iterator registration_token events =
     map (\<lambda>next. (pe_readiness next, pe_token next))
       (filter (\<lambda>next. same_source_as (pe_token next) registration_token) events)"

fun run_before_handle :: "('s, 'i, 'p, 'd) loop_ops \<Rightarrow> registration_token list \<Rightarrow> poll_event list
    \<Rightarrow> ('s, 'i, 'p, 'd) loop_state \<Rightarrow> unit cresult \<times> ('s, 'i, 'p, 'd) loop_state" where
  "run_before_handle ops [] events L = (Ok (), L)"
| "run_before_handle ops (source # rest) events L =
     (case sl_lookup (lp_sources L) source of
        None \<Rightarrow> (Panic, L)
      | Some disp \<Rightarrow>
          and_then (disp_before_handle ops disp (event_iterator source events) L)
            (\<lambda>_ L'. run_before_handle ops rest events L'))"

section \<open>dispatch_events: one event\<close>

definition apply_post_action :: "'p poller_ops \<Rightarrow> ('s, 'i, 'p, 'd) loop_ops \<Rightarrow> registration_token \<Rightarrow> nat
    \<Rightarrow> post_action \<Rightarrow> ('s, 'i, 'p, 'd) loop_state \<Rightarrow> unit cresult \<times> ('s, 'i, 'p, 'd) loop_state" where
  "apply_post_action K ops reg_token disp ret L =
     (case ret of
        Reregister \<Rightarrow>
          and_then (loop_reregister ops disp (TokenFactory_new reg_token) L) (\<lambda>_ L'. (Ok (), L'))
      | Disable \<Rightarrow> and_then (loop_unregister K ops disp reg_token L) (\<lambda>_ L'. (Ok (), L'))
      | Remove \<Rightarrow> (Ok (), L\<lparr>lp_sources := sl_release reg_token (lp_sources L)\<rparr>)
      | Continue \<Rightarrow> (Ok (), L))"

text \<open>A source whose slot is gone, or reused, after its callback is unregistered.\<close>

definition unregister_if_removed :: "'p poller_ops \<Rightarrow> ('s, 'i, 'p, 'd) loop_ops \<Rightarrow> registration_token \<Rightarrow> nat
    \<Rightarrow> ('s, 'i, 'p, 'd) loop_state \<Rightarrow> unit cresult \<times> ('s, 'i, 'p, 'd) loop_state" where
  "unregister_if_removed K ops reg_token disp L =
     (if sl_lookup (lp_sources L) reg_token = None then log_error (loop_unregister K ops disp reg_token L)
      else (Ok (), L))"

text \<open>
  \<open>pending_action.replace(Continue)\<close>: only a \<open>Continue\<close> of the source is overwritten by it.
\<close>

definition take_pending :: "post_action \<Rightarrow> ('s, 'i, 'p, 'd) loop_state \<Rightarrow> post_action \<times> ('s, 'i, 'p, 'd) loop_state" where
  "take_pending ret L = (if ret = Continue then lp_pending L else ret, L\<lparr>lp_pending := Continue\<rparr>)"

definition dispatch_event :: "'p poller_ops \<Rightarrow> ('s, 'i, 'p, 'd) loop_ops \<Rightarrow> poll_event
    \<Rightarrow> ('s, 'i, 'p, 'd) loop_state \<Rightarrow> unit cresult \<times> ('s, 'i, 'p, 'd) loop_state" where
  "dispatch_event K ops event L =
     (let reg_token = forget_sub_id (pe_token event) in
      case sl_lookup (lp_sources L) reg_token of
        None \<Rightarrow> (Ok (), L)
      | Some disp \<Rightarrow>
          and_then (disp_process ops disp (pe_readiness event) (pe_token event) L)
            (\<lambda>ret L1. case take_pending ret L1 of
               (ret', L2) \<Rightarrow>
                 and_then (apply_post_action K ops reg_token disp ret' L2)
                   (\<lambda>_ L3. unregister_if_removed K ops reg_token disp L3)))"

fun dispatch_list :: "'p poller_ops \<Rightarrow> ('s, 'i, 'p, 'd) loop_ops \<Rightarrow> poll_event list
    \<Rightarrow> ('s, 'i, 'p, 'd) loop_state \<Rightarrow> unit cresult \<times> ('s, 'i, 'p, 'd) loop_state" where
  "dispatch_list K ops [] L = (Ok (), L)"
| "dispatch_list K ops (event # events) L =
     and_then (dispatch_event K ops event L) (\<lambda>_ L'. dispatch_list K ops events L')"

definition loop_poll :: "'p poller_ops \<Rightarrow> nat \<Rightarrow> instant \<Rightarrow> duration option \<Rightarrow> ('s, 'i, 'p, 'd) loop_state
    \<Rightarrow> poll_event list option cresult \<times> ('s, 'i, 'p, 'd) loop_state" where
  "loop_poll K n now timeout L = (case poll_retry K n now timeout (lp_poll L) of (r, P) \<Rightarrow> (r, L\<lparr>lp_poll := P\<rparr>))"

definition dispatch_events :: "'p poller_ops \<Rightarrow> ('s, 'i, 'p, 'd) loop_ops \<Rightarrow> nat \<Rightarrow> duration option
    \<Rightarrow> ('s, 'i, 'p, 'd) loop_state \<Rightarrow> unit cresult \<times> ('s, 'i, 'p, 'd) loop_state" where
  "dispatch_events K ops n timeout L =
     (let now = pl_now K (poller (lp_poll L)) in
      and_then (run_before_sleep ops (lp_lifecycle L) timeout L)
        (\<lambda>timeout' L1. and_then (loop_poll K n now timeout' L1)
          (\<lambda>polled L2. case polled of
             None \<Rightarrow> (Ok (), L2)
           | Some events \<Rightarrow>
               and_then (run_before_handle ops (lp_lifecycle L2) events L2)
                 (\<lambda>_ L3. dispatch_list K ops (lp_synthetic L3 @ events) (L3\<lparr>lp_synthetic := []\<rparr>)))))"

section \<open>Idle callbacks\<close>

text \<open>\<open>IdleDispatcher::dispatch\<close> on the shared cell: the closure runs at most once.\<close>

definition idle_dispatch :: "('i \<Rightarrow> ('s, 'i, 'p, 'd) loop_state \<Rightarrow> ('s, 'i, 'p, 'd) loop_state) \<Rightarrow> nat
    \<Rightarrow> ('s, 'i, 'p, 'd) loop_state \<Rightarrow> ('s, 'i, 'p, 'd) loop_state" where
  "idle_dispatch run_idle cb L =
     (case lp_idle_cells L ! cb of
        IdleArmed f \<Rightarrow>
          (let L' = run_idle f (L\<lparr>lp_idle_cells := (lp_idle_cells L)[cb := IdleRunning]\<rparr>) in
           L'\<lparr>lp_idle_cells := (lp_idle_cells L')[cb := IdleDone]\<rparr>)
      | _ \<Rightarrow> L)"

definition dispatch_idles :: "('i \<Rightarrow> ('s, 'i, 'p, 'd) loop_state \<Rightarrow> ('s, 'i, 'p, 'd) loop_state)
    \<Rightarrow> ('s, 'i, 'p, 'd) loop_state \<Rightarrow> ('s, 'i, 'p, 'd) loop_state" where
  "dispatch_idles run_idle L = fold (idle_dispatch run_idle) (lp_idles L) (L\<lparr>lp_idles := []\<rparr>)"

section \<open>dispatch, run, block_on\<close>

definition dispatch :: "'p poller_ops \<Rightarrow> ('s, 'i, 'p, 'd) loop_ops
    \<Rightarrow> ('i \<Rightarrow> ('s, 'i, 'p, 'd) loop_state \<Rightarrow> ('s, 'i, 'p, 'd) loop_state) \<Rightarrow> nat \<Rightarrow> duration option
    \<Rightarrow> ('s, 'i, 'p, 'd) loop_state \<Rightarrow> unit cresult \<times> ('s, 'i, 'p, 'd) loop_state" where
  "dispatch K ops run_idle n timeout L =
     and_then (dispatch_events K ops n timeout L) (\<lambda>_ L'. (Ok (), dispatch_idles run_idle L'))"

fun run_loop :: "'p poller_ops \<Rightarrow> ('s, 'i, 'p, 'd) loop_ops
    \<Rightarrow> ('i \<Rightarrow> ('s, 'i, 'p, 'd) loop_state \<Rightarrow> ('s, 'i, 'p, 'd) loop_state) \<Rightarrow> nat \<Rightarrow> duration option
    \<Rightarrow> (('s, 'i, 'p, 'd) loop_state \<Rightarrow> ('s, 'i, 'p, 'd) loop_state) \<Rightarrow> nat
    \<Rightarrow> ('s, 'i, 'p, 'd) loop_state \<Rightarrow> unit cresult \<times> ('s, 'i, 'p, 'd) loop_state" where
  "run_loop K ops run_idle n timeout cb 0 L = (if lp_stop L then (Ok (), L) else (Diverge, L))"
| "run_loop K ops run_idle n timeout cb (Suc m) L =
     (if lp_stop L then (Ok (), L)
      else and_then (dispatch K ops run_idle n timeout L)
             (\<lambda>_ L'. run_loop K ops run_idle n timeout cb m (cb L')))"

definition run :: "'p poller_ops \<Rightarrow> ('s, 'i, 'p, 'd) loop_ops
    \<Rightarrow> ('i \<Rightarrow> ('s, 'i, 'p, 'd) loop_state \<Rightarrow> ('s, 'i, 'p, 'd) loop_state) \<Rightarrow> nat \<Rightarrow> nat \<Rightarrow> duration option
    \<Rightarrow> (('s, 'i, 'p, 'd) loop_state \<Rightarrow> ('s, 'i, 'p, 'd) loop_state)
    \<Rightarrow> ('s, 'i, 'p, 'd) loop_state \<Rightarrow> unit cresult \<times> ('s, 'i, 'p, 'd) loop_state" where
  "run K ops run_idle n m timeout cb L = run_loop K ops run_idle n timeout cb m (L\<lparr>lp_stop := False\<rparr>)"

text \<open>
  The future of \<open>block_on\<close> has a state \<open>'f\<close>; polling it may use the loop, and gives \<open>Some\<close>
  result when it is ready. Its waker is \<open>loop_waker_wake\<close>.
\<close>

fun block_on_loop :: "'p poller_ops \<Rightarrow> ('s, 'i, 'p, 'd) loop_ops
    \<Rightarrow> ('i \<Rightarrow> ('s, 'i, 'p, 'd) loop_state \<Rightarrow> ('s, 'i, 'p, 'd) loop_state) \<Rightarrow> nat
    \<Rightarrow> ('f \<Rightarrow> ('s, 'i, 'p, 'd) loop_state \<Rightarrow> 'r option \<times> 'f \<times> ('s, 'i, 'p, 'd) loop_state)
    \<Rightarrow> (('s, 'i, 'p, 'd) loop_state \<Rightarrow> ('s, 'i, 'p, 'd) loop_state) \<Rightarrow> nat
    \<Rightarrow> 'f \<Rightarrow> ('s, 'i, 'p, 'd) loop_state \<Rightarrow> 'r option cresult \<times> ('s, 'i, 'p, 'd) loop_state" where
  "block_on_loop K ops run_idle n poll_future cb 0 fut L =
     (if lp_stop L then (Ok None, L) else (Diverge, L))"
| "block_on_loop K ops run_idle n poll_future cb (Suc m) fut L =
     (if lp_stop L then (Ok None, L)
      else
        (case (if lp_future_ready L then poll_future fut (L\<lparr>lp_future_ready := False\<rparr>) else (None, fut, L)) of
           (Some result, fut', L') \<Rightarrow> (Ok (Some result), L')
         | (None, fut', L') \<Rightarrow>
             and_then (dispatch_events K ops n None L')
               (\<lambda>_ L2. block_on_loop K ops run_idle n poll_future cb m fut' (cb (dispatch_idles run_idle L2)))))"

definition block_on :: "'p poller_ops \<Rightarrow> ('s, 'i, 'p, 'd) loop_ops
    \<Rightarrow> ('i \<Rightarrow> ('s, 'i, 'p, 'd) loop_state \<Rightarrow> ('s, 'i, 'p, 'd) loop_state) \<Rightarrow> nat \<Rightarrow> nat
    \<Rightarrow> ('f \<Rightarrow> ('s, 'i, 'p, 'd) loop_state \<Rightarrow> 'r option \<times> 'f \<times> ('s, 'i, 'p, 'd) loop_state)
    \<Rightarrow> (('s, 'i, 'p, 'd) loop_state \<Rightarrow> ('s, 'i, 'p, 'd) loop_state) \<Rightarrow> 'f
    \<Rightarrow> ('s, 'i, 'p, 'd) loop_state \<Rightarrow> 'r option cresult \<times> ('s, 'i, 'p, 'd) loop_state" where
  "block_on K ops run_idle n m poll_future cb fut L =
     block_on_loop K ops run_idle n poll_future cb m fut (L\<lparr>lp_stop := False, lp_future_ready := True\<rparr>)"

lemmas dispatch_defs [loop_defs] = disp_process_def disp_before_sleep_def disp_before_handle_def set_cell_def
  apply_post_action_def unregister_if_removed_def take_pending_def

end
