(* ===== verification/Loop_Invariant.thy ===== *)
theory Loop_Invariant
  imports Dispatch
begin

text \<open>
  What user code may do while the loop runs, as a language of API calls, and the invariant
  of the loop that every call and every dispatch keeps.

  A callback owns \<open>&mut Data\<close> and may hold any handle of the loop, so its effect on the loop is a
  sequence of calls. \<open>exec_call\<close> gives the effect of one; \<open>valid_call\<close> is what Rust's ownership
  gives for free: a handle refers to an object that exists, and a \<open>RegistrationToken\<close> has no
  sub-id, since only the loop creates them.
\<close>

section \<open>API calls\<close>

datatype ('s, 'i, 'p, 'd) api_call =
    CallDispatcherNew 's | CallRegister nat | CallInsertSource 's
  | CallEnable registration_token | CallUpdate registration_token
  | CallDisable registration_token | CallRemove registration_token
  | CallInsertIdle 'i | CallCancelIdle nat | CallSourceMut nat "'s \<Rightarrow> 's"
  | CallStop | CallWakeup | CallWakeFuture
  | CallData 'd | CallSystem 'p | CallTimers timer_wheel | CallWake "nat list"
  | CallAdaptIo "io_error + bool" raw_fd | CallAsyncWait async_io interest nat
  | CallReadable async_io nat | CallWritable async_io nat | CallAsyncDrop async_io

definition forget_result :: "('e, 'a) outcome \<times> 'w \<Rightarrow> ('e, unit) outcome \<times> 'w" where
  "forget_result r = (map_ok (\<lambda>_. ()) (fst r), snd r)"

fun exec_call :: "'p poller_ops \<Rightarrow> ('s, 'i, 'p, 'd) loop_ops \<Rightarrow> ('s, 'i, 'p, 'd) api_call
    \<Rightarrow> ('s, 'i, 'p, 'd) loop_state \<Rightarrow> unit cresult \<times> ('s, 'i, 'p, 'd) loop_state" where
  "exec_call K ops (CallDispatcherNew s) L = (Ok (), snd (Dispatcher_new ops s L))"
| "exec_call K ops (CallRegister did) L = forget_result (register_dispatcher ops did L)"
| "exec_call K ops (CallInsertSource s) L =
     (case insert_source ops s L of (r, L') \<Rightarrow> (map_err ie_error (map_ok (\<lambda>_. ()) r), L'))"
| "exec_call K ops (CallEnable t) L = handle_enable ops t L"
| "exec_call K ops (CallUpdate t) L = handle_update ops t L"
| "exec_call K ops (CallDisable t) L = handle_disable K ops t L"
| "exec_call K ops (CallRemove t) L = handle_remove K ops t L"
| "exec_call K ops (CallInsertIdle f) L = (Ok (), snd (insert_idle f L))"
| "exec_call K ops (CallCancelIdle cb) L = idle_cancel cb L"
| "exec_call K ops (CallSourceMut did f) L = as_source_mut did f L"
| "exec_call K ops CallStop L = (Ok (), signal_stop L)"
| "exec_call K ops CallWakeup L = (Ok (), signal_wakeup K L)"
| "exec_call K ops CallWakeFuture L = (Ok (), loop_waker_wake K L)"
| "exec_call K ops (CallData d) L = (Ok (), L\<lparr>lp_data := d\<rparr>)"
| "exec_call K ops (CallSystem p) L = (Ok (), L\<lparr>lp_poll := (lp_poll L)\<lparr>poller := p\<rparr>\<rparr>)"
| "exec_call K ops (CallTimers w) L = (Ok (), L\<lparr>lp_poll := (lp_poll L)\<lparr>timers := w\<rparr>\<rparr>)"
| "exec_call K ops (CallWake ws) L = (Ok (), L\<lparr>lp_woken := ws\<rparr>)"
| "exec_call K ops (CallAdaptIo r fd) L = forget_result (Async_new K r fd L)"
| "exec_call K ops (CallAsyncWait a i wk) L = async_register_waker K a i wk L"
| "exec_call K ops (CallReadable a wk) L = forget_result (readable_poll K a wk L)"
| "exec_call K ops (CallWritable a wk) L = forget_result (writable_poll K a wk L)"
| "exec_call K ops (CallAsyncDrop a) L = async_drop K a L"

definition valid_call :: "('s, 'i, 'p, 'd) api_call \<Rightarrow> ('s, 'i, 'p, 'd) loop_state \<Rightarrow> bool" where
  "valid_call c L =
     (case c of
        CallRegister did \<Rightarrow> did < length (lp_cells L)
      | CallSourceMut did _ \<Rightarrow> did < length (lp_cells L)
      | CallCancelIdle cb \<Rightarrow> cb < length (lp_idle_cells L)
      | CallEnable t \<Rightarrow> tok_sub_id t = 0
      | CallUpdate t \<Rightarrow> tok_sub_id t = 0
      | CallDisable t \<Rightarrow> tok_sub_id t = 0
      | CallRemove t \<Rightarrow> tok_sub_id t = 0
      | CallAsyncWait a _ _ \<Rightarrow> as_dispatcher a < length (lp_cells L)
      | CallReadable a _ \<Rightarrow> as_dispatcher a < length (lp_cells L)
      | CallWritable a _ \<Rightarrow> as_dispatcher a < length (lp_cells L)
      | CallAsyncDrop a \<Rightarrow> as_dispatcher a < length (lp_cells L)
      | _ \<Rightarrow> True)"

text \<open>The calls that touch neither the table of sources nor the lifecycle set.\<close>

definition quiet :: "('s, 'i, 'p, 'd) api_call \<Rightarrow> ('s, 'i, 'p, 'd) loop_state \<Rightarrow> bool" where
  "quiet c L =
     (case c of
        CallInsertIdle _ \<Rightarrow> True | CallCancelIdle _ \<Rightarrow> True | CallSourceMut _ _ \<Rightarrow> True | CallStop \<Rightarrow> True
      | CallWakeup \<Rightarrow> True | CallWakeFuture \<Rightarrow> True | CallData _ \<Rightarrow> True | CallSystem _ \<Rightarrow> True
      | CallTimers _ \<Rightarrow> True | CallWake _ \<Rightarrow> True | _ \<Rightarrow> False)"

definition any_call :: "('s, 'i, 'p, 'd) api_call \<Rightarrow> ('s, 'i, 'p, 'd) loop_state \<Rightarrow> bool" where
  "any_call c L = True"

definition returns :: "('e, 'a) outcome \<Rightarrow> bool" where
  "returns r = (case r of Ok _ \<Rightarrow> True | Err _ \<Rightarrow> True | _ \<Rightarrow> False)"

lemma returns_simps [simp]:
  "returns (Ok a)" "returns (Err e)" "\<not> returns Panic" "\<not> returns Diverge"
  "returns (map_ok f r) = returns r" "returns (map_err g r) = returns r"
  by (simp_all add: returns_def) (cases r; simp)+

text \<open>One call of user code that is allowed by \<open>D\<close>, valid, and returns.\<close>

inductive api_step :: "'p poller_ops \<Rightarrow> ('s, 'i, 'p, 'd) loop_ops
    \<Rightarrow> (('s, 'i, 'p, 'd) api_call \<Rightarrow> ('s, 'i, 'p, 'd) loop_state \<Rightarrow> bool)
    \<Rightarrow> ('s, 'i, 'p, 'd) loop_state \<Rightarrow> ('s, 'i, 'p, 'd) loop_state \<Rightarrow> bool"
  for K ops D where
  call: "D c L \<Longrightarrow> valid_call c L \<Longrightarrow> exec_call K ops c L = (r, L') \<Longrightarrow> returns r \<Longrightarrow> api_step K ops D L L'"

inductive_cases api_stepE: "api_step K ops D L L'"

lemma api_step_mono: "api_step K ops D L L' \<Longrightarrow> (\<And>c L. D c L \<Longrightarrow> E c L) \<Longrightarrow> api_step K ops E L L'"
  by (auto elim!: api_stepE intro: api_step.call)

lemma api_steps_mono:
  assumes "(api_step K ops D)\<^sup>*\<^sup>* L L'" and "\<And>c L. D c L \<Longrightarrow> E c L"
  shows "(api_step K ops E)\<^sup>*\<^sup>* L L'"
  using assms(1) by (rule rtranclp_mono [THEN predicate2D, rotated]) (auto intro: api_step_mono assms(2))

section \<open>The invariant\<close>

text \<open>
  The table is well formed, every slot names a dispatcher that exists, and exactly the
  dispatcher in \<open>cur\<close> is borrowed.
\<close>

definition core_inv :: "nat option \<Rightarrow> ('s, 'i, 'p, 'd) loop_state \<Rightarrow> bool" where
  "core_inv cur L \<longleftrightarrow>
     slots_wf (lp_sources L) \<and>
     (\<forall>i < length (lp_sources L). \<forall>d. se_source (lp_sources L ! i) = Some d \<longrightarrow> d < length (lp_cells L)) \<and>
     (\<forall>d < length (lp_cells L). cell_borrowed (lp_cells L ! d) \<longleftrightarrow> cur = Some d) \<and>
     (\<forall>d. cur = Some d \<longrightarrow> d < length (lp_cells L))"

lemma core_invD:
  assumes "core_inv cur L"
  shows "slots_wf (lp_sources L)"
    and "i < length (lp_sources L) \<Longrightarrow> se_source (lp_sources L ! i) = Some d \<Longrightarrow> d < length (lp_cells L)"
    and "d < length (lp_cells L) \<Longrightarrow> cell_borrowed (lp_cells L ! d) \<longleftrightarrow> cur = Some d"
  using assms by (auto simp: core_inv_def)

lemma core_inv_lookup: "core_inv cur L \<Longrightarrow> sl_lookup (lp_sources L) t = Some d \<Longrightarrow> d < length (lp_cells L)"
  by (auto simp: sl_lookup_iff dest: core_invD)

lemma core_inv_get:
  "core_inv cur L \<Longrightarrow> sl_get (lp_sources L) t = Ok e \<Longrightarrow> se_source e = Some d \<Longrightarrow> d < length (lp_cells L)"
  by (auto simp: sl_get_iff dest: core_invD)

text \<open>A change of the other fields.\<close>

lemma core_inv_cong:
  "lp_sources L' = lp_sources L \<Longrightarrow> lp_cells L' = lp_cells L \<Longrightarrow> core_inv cur L' = core_inv cur L"
  by (simp add: core_inv_def)

lemma core_inv_other [simp]:
  "core_inv cur (L\<lparr>lp_poll := P\<rparr>) = core_inv cur L" "core_inv cur (L\<lparr>lp_lifecycle := lc\<rparr>) = core_inv cur L"
  "core_inv cur (L\<lparr>lp_idles := is\<rparr>) = core_inv cur L" "core_inv cur (L\<lparr>lp_idle_cells := cs\<rparr>) = core_inv cur L"
  "core_inv cur (L\<lparr>lp_pending := pa\<rparr>) = core_inv cur L" "core_inv cur (L\<lparr>lp_stop := b\<rparr>) = core_inv cur L"
  "core_inv cur (L\<lparr>lp_future_ready := b\<rparr>) = core_inv cur L" "core_inv cur (L\<lparr>lp_synthetic := es\<rparr>) = core_inv cur L"
  "core_inv cur (L\<lparr>lp_woken := ws\<rparr>) = core_inv cur L" "core_inv cur (L\<lparr>lp_data := d\<rparr>) = core_inv cur L"
  by (simp_all add: core_inv_def)

text \<open>Writing a cell back, with its borrow flag kept.\<close>

lemma core_inv_cell:
  "core_inv cur L \<Longrightarrow> (did < length (lp_cells L) \<Longrightarrow> cell_borrowed c = (cur = Some did)) \<Longrightarrow>
     core_inv cur (L\<lparr>lp_cells := (lp_cells L)[did := c]\<rparr>)"
  by (cases "did < length (lp_cells L)") (auto simp: core_inv_def nth_list_update split: if_splits)

lemma core_inv_borrow:
  "core_inv None L \<Longrightarrow> cell_borrowed c \<Longrightarrow> did < length (lp_cells L) \<Longrightarrow>
     core_inv (Some did) (set_cell did c L)"
  by (auto simp: core_inv_def set_cell_def nth_list_update)

lemma core_inv_unborrow:
  "core_inv (Some did) L \<Longrightarrow> \<not> cell_borrowed c \<Longrightarrow> core_inv None (set_cell did c L)"
  by (auto simp: core_inv_def set_cell_def nth_list_update)

lemma core_inv_set_source:
  "core_inv cur L \<Longrightarrow> (\<And>d. src = Some d \<Longrightarrow> d < length (lp_cells L)) \<Longrightarrow>
     core_inv cur (L\<lparr>lp_sources := set_source i src (lp_sources L)\<rparr>)"
proof (cases "i < length (lp_sources L)")
  case True
  moreover assume "core_inv cur L" and "\<And>d. src = Some d \<Longrightarrow> d < length (lp_cells L)"
  ultimately show ?thesis by (auto simp: core_inv_def source_set_source split: if_splits)
next
  case False
  moreover assume "core_inv cur L"
  moreover have "set_source i src (lp_sources L) = lp_sources L"
    using False by (simp add: set_source_def list_update_beyond)
  ultimately show ?thesis by (simp add: core_inv_def)
qed

lemma core_inv_release:
  "core_inv cur L \<Longrightarrow> core_inv cur (L\<lparr>lp_sources := sl_release t (lp_sources L)\<rparr>)"
  unfolding sl_release_eq by (cases "get_id t < length (lp_sources L) \<and> same_source_as (se_token (lp_sources L ! get_id t)) t")
    (auto intro!: core_inv_set_source simp del: core_inv_other)

lemma core_inv_new_cell:
  "core_inv cur L \<Longrightarrow> \<not> cell_borrowed c \<Longrightarrow>
     core_inv cur (L\<lparr>lp_cells := lp_cells L @ [c]\<rparr>)"
  by (auto simp: core_inv_def nth_append less_Suc_eq intro: less_SucI)

section \<open>Every call keeps the invariant\<close>

lemma disp_borrow [simp]:
  "cell_borrowed (fst (snd (disp_register ops c P lc tf))) = cell_borrowed c"
  "cell_borrowed (fst (snd (disp_reregister ops c P lc tf))) = cell_borrowed c"
  "cell_borrowed (fst (snd (disp_unregister K ops c P lc reg))) = cell_borrowed c"
  by (auto simp: disp_register_def disp_reregister_def disp_unregister_def Let_def
      split: dispatcher.splits if_splits prod.splits outcome.splits)

lemma core_inv_store:
  assumes "core_inv cur L" and "fst (snd res) = c" and "cell_borrowed c = cell_borrowed (lp_cells L ! did)"
  shows "core_inv cur (snd (store_disp did res L))"
proof -
  obtain r P lc where "res = (r, c, P, lc)" using assms(2) by (metis prod.collapse)
  moreover have "core_inv cur (L\<lparr>lp_cells := (lp_cells L)[did := c]\<rparr>)"
    using assms(1,3) by (intro core_inv_cell) (auto dest: core_invD)
  ultimately show ?thesis by (simp add: store_disp_def core_inv_def)
qed

lemma core_inv_register [inv_intros]: "core_inv cur L \<Longrightarrow> core_inv cur (snd (loop_register ops did tf L))"
  unfolding loop_register_def by (rule core_inv_store [OF _ refl]) simp_all

lemma core_inv_reregister [inv_intros]: "core_inv cur L \<Longrightarrow> core_inv cur (snd (loop_reregister ops did tf L))"
  unfolding loop_reregister_def by (rule core_inv_store [OF _ refl]) simp_all

lemma core_inv_unregister [inv_intros]: "core_inv cur L \<Longrightarrow> core_inv cur (snd (loop_unregister K ops did reg L))"
  unfolding loop_unregister_def by (rule core_inv_store [OF _ refl]) simp_all

lemma store_disp_frame:
  "length (lp_cells (snd (store_disp did res L))) = length (lp_cells L)"
  "lp_sources (snd (store_disp did res L)) = lp_sources L"
  by (auto simp: store_disp_def split: prod.splits)

lemma loop_register_frame [simp]:
  "length (lp_cells (snd (loop_register ops did tf L))) = length (lp_cells L)"
  "lp_sources (snd (loop_register ops did tf L)) = lp_sources L"
  "length (lp_cells (snd (loop_reregister ops did tf L))) = length (lp_cells L)"
  "lp_sources (snd (loop_reregister ops did tf L)) = lp_sources L"
  "length (lp_cells (snd (loop_unregister K ops did reg L))) = length (lp_cells L)"
  "lp_sources (snd (loop_unregister K ops did reg L)) = lp_sources L"
  by (simp_all add: loop_register_def loop_reregister_def loop_unregister_def store_disp_frame)

lemma core_inv_and_then:
  "core_inv cur (snd r) \<Longrightarrow> (\<And>a L. r = (Ok a, L) \<Longrightarrow> core_inv cur (snd (f a L))) \<Longrightarrow> core_inv cur (snd (and_then r f))"
  by (cases r; cases "fst r") auto

lemma core_inv_log [inv_intros]: "core_inv cur (snd r) \<Longrightarrow> core_inv cur (snd (log_error r))"
  by (cases r; cases "fst r") (auto simp: log_error_def)

lemma core_inv_vacant:
  assumes "core_inv cur L" and "vacant_entry (lp_sources L) = (r, sl)"
  shows "core_inv cur (L\<lparr>lp_sources := sl\<rparr>)"
proof (cases "\<exists>i. r = Ok i")
  case True
  then obtain i where v: "vacant_entry (lp_sources L) = (Ok i, sl)" using assms(2) by blast
  note ve = vacant_entry_Ok [OF core_invD(1) [OF assms(1)] v]
  have "se_source (sl ! j) = Some d \<Longrightarrow> j < length sl \<Longrightarrow> d < length (lp_cells L)" for j d
  proof -
    assume j: "se_source (sl ! j) = Some d" "j < length sl"
    have "get_id (se_token (sl ! j)) = j" using ve(1) j(2) by (rule slots_wfD)
    then have "sl_lookup sl (se_token (sl ! j)) = Some d" using j by (simp add: sl_lookup_iff)
    then have "sl_lookup (lp_sources L) (se_token (sl ! j)) = Some d" by (simp only: ve(6))
    then show "d < length (lp_cells L)" by (rule core_inv_lookup [OF assms(1)])
  qed
  then show ?thesis using assms(1) ve(1) by (auto simp: core_inv_def)
next
  case False
  then show ?thesis using assms by (auto simp: vacant_entry_def core_inv_def split: option.splits outcome.splits)
qed

lemma core_inv_register_dispatcher [inv_intros]:
  assumes "core_inv cur L" and "did < length (lp_cells L)"
  shows "core_inv cur (snd (register_dispatcher ops did L))"
proof -
  obtain r sl where v: "vacant_entry (lp_sources L) = (r, sl)" by force
  note inv = core_inv_vacant [OF assms(1) v]
  show ?thesis
  proof (cases "\<exists>i. r = Ok i")
    case False
    with v inv show ?thesis by (cases r) (auto simp: register_dispatcher_def)
  next
    case True
    then obtain i where r: "r = Ok i" by blast
    define L1 where "L1 = L\<lparr>lp_sources := set_source i (Some did) sl\<rparr>"
    have "core_inv cur L1"
      using core_inv_set_source [OF inv, of "Some did" i] assms(2) by (simp add: L1_def)
    then have 2: "core_inv cur (snd (loop_register ops did tf L1))" for tf by (rule core_inv_register)
    obtain s L2 where e: "loop_register ops did (TokenFactory_new (se_token (set_source i (Some did) sl ! i))) L1 = (s, L2)"
      by force
    with 2 have "core_inv cur L2" by (metis snd_conv)
    then show ?thesis using v r e
      by (cases s) (auto simp: register_dispatcher_def L1_def Let_def intro!: core_inv_set_source)
  qed
qed

lemma core_inv_dispatcher_new [inv_intros]:
  "core_inv cur L \<Longrightarrow> core_inv cur (snd (Dispatcher_new ops s L))"
  by (simp add: Dispatcher_new_def core_inv_new_cell)

lemma core_inv_insert_source [inv_intros]:
  "core_inv cur L \<Longrightarrow> core_inv cur (snd (insert_source ops s L))"
  using core_inv_register_dispatcher [OF core_inv_dispatcher_new, of cur L "length (lp_cells L)" ops s ops]
  by (auto simp: insert_source_snd Dispatcher_new_def)

text \<open>After a failed insertion nothing refers to the new dispatcher, so its source is given back.\<close>

lemma failed_insert_gives_back:
  assumes "core_inv cur L" and "register_dispatcher ops (length (lp_cells L)) (snd (Dispatcher_new ops s L)) = (Err e, L')"
  shows "\<exists>s'. into_source_inner 0 (length (lp_cells L)) L' = Ok s'"
proof -
  let ?did = "length (lp_cells L)" and ?L0 = "snd (Dispatcher_new ops s L)"
  obtain v sl where v: "vacant_entry (lp_sources L) = (v, sl)" by force
  have src: "lp_sources ?L0 = lp_sources L" by (simp add: Dispatcher_new_def)
  obtain i where i: "vacant_entry (lp_sources L) = (Ok i, sl)"
    using v vacant_entry_grows [OF v] assms(2) by (auto simp: register_dispatcher_def src)
  let ?sl = "set_source i (Some ?did) sl"
  obtain q c P lc where d: "disp_register ops (lp_cells ?L0 ! ?did) (lp_poll ?L0) (lp_lifecycle ?L0)
      (TokenFactory_new (se_token (?sl ! i))) = (q, c, P, lc)" by (metis prod.collapse)
  with assms(2) i src have L': "lp_sources L' = set_source i None ?sl" "lp_cells L' = (lp_cells ?L0)[?did := c]"
    by (cases q; auto simp: register_dispatcher_def loop_register_def store_disp_def Let_def)+
  have c: "\<not> cell_borrowed c" "\<exists>di. cell_val c = SourceDisp di"
    using d by (auto simp: disp_register_def Dispatcher_new_def Let_def split: prod.splits)
  have bound: "se_source (sl ! j) \<noteq> Some ?did" if "j < length sl" for j
    using core_invD(2) [OF core_inv_vacant [OF assms(1) i], of j ?did] that by auto
  have "i < length sl" by (rule vacant_entry_Ok(2) [OF core_invD(1) [OF assms(1)] i])
  with bound have "\<not> list_ex (\<lambda>entry. se_source entry = Some ?did) (lp_sources L')"
    by (auto simp: L'(1) list_ex_iff in_set_conv_nth source_set_source split: if_splits)
  with c show ?thesis by (auto simp: into_source_inner_def dispatcher_in_use_def L'(2) Dispatcher_new_def)
qed

lemma insert_source_returns:
  assumes "core_inv cur L"
  shows "returns (fst (insert_source ops s L)) =
    returns (fst (register_dispatcher ops (length (lp_cells L)) (snd (Dispatcher_new ops s L))))"
  using failed_insert_gives_back [OF assms, of ops s]
  by (auto simp: insert_source_def Dispatcher_new_def split: prod.splits outcome.splits)

lemma core_inv_enable [inv_intros]: "core_inv cur L \<Longrightarrow> core_inv cur (snd (handle_enable ops t L))"
  by (auto simp: handle_enable_def intro: core_inv_register split: outcome.splits option.splits)

lemma core_inv_update [inv_intros]: "core_inv cur L \<Longrightarrow> core_inv cur (snd (handle_update ops t L))"
  by (auto simp: handle_update_def intro!: core_inv_reregister core_inv_and_then split: outcome.splits option.splits)
    (metis core_inv_reregister snd_conv)+

lemma core_inv_disable [inv_intros]: "core_inv cur L \<Longrightarrow> core_inv cur (snd (handle_disable K ops t L))"
  by (auto simp: handle_disable_def intro!: core_inv_unregister core_inv_and_then split: outcome.splits option.splits)
    (metis core_inv_unregister snd_conv)+

lemma core_inv_remove [inv_intros]: "core_inv cur L \<Longrightarrow> core_inv cur (snd (handle_remove K ops t L))"
  by (auto simp: handle_remove_def intro!: core_inv_log core_inv_unregister core_inv_set_source
      split: outcome.splits option.splits)

lemma core_inv_source_mut [inv_intros]: "core_inv cur L \<Longrightarrow> core_inv cur (snd (as_source_mut did f L))"
  by (auto simp: as_source_mut_def Let_def intro!: core_inv_cell split: dispatcher.splits dest: core_invD)

lemma core_inv_io_put [inv_intros]: "core_inv cur L \<Longrightarrow> core_inv cur (io_put did io L)"
  by (auto simp: io_put_def intro!: core_inv_cell dest: core_invD)

lemma io_put_frame [simp]: "lp_sources (io_put did io L) = lp_sources L"
  "length (lp_cells (io_put did io L)) = length (lp_cells L)"
  by (simp_all add: io_put_def)

lemma core_inv_io_register [inv_intros]:
  "core_inv cur L \<Longrightarrow> core_inv cur (snd (io_register K did disp L))"
  "core_inv cur L \<Longrightarrow> core_inv cur (snd (io_reregister K did disp L))"
  by (auto simp: io_register_def io_reregister_def Let_def intro!: core_inv_io_put split: option.splits prod.splits)

lemma core_inv_release_at:
  "core_inv cur L \<Longrightarrow> lp_sources L = sl \<Longrightarrow> core_inv cur (L\<lparr>lp_sources := sl_release t sl\<rparr>)"
  using core_inv_release by blast

lemma core_inv_io_kill [inv_intros]:
  assumes "core_inv cur L"
  shows "core_inv cur (snd (io_kill K did disp L))"
proof -
  obtain r P where u: "Poll_unregister K (io_fd disp) (lp_poll L) = (r, P)" by force
  have "core_inv cur (L\<lparr>lp_poll := P\<rparr>)" using assms by simp
  with assms u show ?thesis
    unfolding io_kill_def Let_def
    by (simp split: option.split) (intro allI conjI impI; rule core_inv_release_at; simp add: core_inv_io_put)
qed

lemma core_inv_register_waker [inv_intros]:
  "core_inv cur L \<Longrightarrow> core_inv cur (snd (async_register_waker K a i wk L))"
  by (auto simp: async_register_waker_def Let_def intro!: core_inv_io_register core_inv_io_put split: option.splits)

lemma core_inv_async_poll [inv_intros]: "core_inv cur L \<Longrightarrow> core_inv cur (snd (async_poll K wanted i a wk L))"
  by (auto simp: async_poll_def Let_def intro!: core_inv_io_put split: option.splits prod.splits outcome.splits)
    (metis core_inv_register_waker core_inv_io_put snd_conv)+

lemma core_inv_async_new [inv_intros]:
  assumes "core_inv cur L"
  shows "core_inv cur (snd (Async_new K r fd L))"
proof -
  obtain v sl where v: "vacant_entry (lp_sources L) = (v, sl)" by force
  show ?thesis
  proof (cases "(\<exists>b. r = Inr b) \<and> (\<exists>i. v = Ok i)")
    case False
    with assms v core_inv_vacant [OF assms v] show ?thesis
      by (auto simp: Async_new_def Let_def split: sum.splits outcome.splits)
  next
    case True
    then obtain b i where bi: "r = Inr b" "v = Ok i" by blast
    define L1 where "L1 c = L\<lparr>lp_cells := lp_cells L @ [\<lparr>cell_val = IoDisp c, cell_borrowed = False\<rparr>],
      lp_sources := set_source i (Some (length (lp_cells L))) sl\<rparr>" for c
    have "core_inv cur (L1 c)" for c
      using core_inv_set_source [OF core_inv_new_cell [OF core_inv_vacant [OF assms v]], where i = i and src = "Some (length (lp_cells L))"]
      by (simp add: L1_def)
    then have "core_inv cur (snd (io_register K did disp (L1 c)))" for did disp c by (intro core_inv_io_register)
    then show ?thesis using v bi
      by (auto simp: Async_new_def L1_def Let_def intro!: core_inv_and_then) (metis snd_conv)
  qed
qed

lemma core_inv_async_drop [inv_intros]: "core_inv cur L \<Longrightarrow> core_inv cur (snd (async_drop K a L))"
  by (auto simp: async_drop_def intro: core_inv_io_kill split: option.splits)

lemma forget_result_snd [simp]: "snd (forget_result r) = snd r"
  by (simp add: forget_result_def)

lemma core_inv_call:
  assumes "core_inv cur L" and "valid_call c L"
  shows "core_inv cur (snd (exec_call K ops c L))"
  using assms
  by (cases c)
    (auto simp: valid_call_def insert_idle_def idle_cancel_def signal_stop_def signal_wakeup_def loop_waker_wake_def
      readable_poll_def writable_poll_def Let_def core_inv_insert_source inv_intros split: prod.splits,
     metis core_inv_insert_source snd_conv)

lemma core_inv_step: "api_step K ops D L L' \<Longrightarrow> core_inv cur L \<Longrightarrow> core_inv cur L'"
  by (erule api_stepE) (metis core_inv_call snd_conv)

lemma core_inv_steps: "(api_step K ops D)\<^sup>*\<^sup>* L L' \<Longrightarrow> core_inv cur L \<Longrightarrow> core_inv cur L'"
  by (induction rule: rtranclp_induct) (auto intro: core_inv_step)

lemma set_cell_frame [simp]:
  "lp_sources (set_cell did c L) = lp_sources L" "lp_lifecycle (set_cell did c L) = lp_lifecycle L"
  "lp_synthetic (set_cell did c L) = lp_synthetic L" "lp_pending (set_cell did c L) = lp_pending L"
  "length (lp_cells (set_cell did c L)) = length (lp_cells L)"
  by (simp_all add: set_cell_def)

section \<open>Quiet calls\<close>

lemma quiet_call_frame:
  assumes "quiet c L"
  shows "lp_sources (snd (exec_call K ops c L)) = lp_sources L"
    and "lp_lifecycle (snd (exec_call K ops c L)) = lp_lifecycle L"
    and "lp_synthetic (snd (exec_call K ops c L)) = lp_synthetic L"
  using assms
  by (cases c; simp add: quiet_def insert_idle_def idle_cancel_def signal_stop_def signal_wakeup_def
      loop_waker_wake_def as_source_mut_def Let_def split: dispatcher.split)+

lemma quiet_steps_frame:
  "(api_step K ops quiet)\<^sup>*\<^sup>* L L' \<Longrightarrow>
     lp_sources L' = lp_sources L \<and> lp_lifecycle L' = lp_lifecycle L \<and> lp_synthetic L' = lp_synthetic L"
proof (induction rule: rtranclp_induct)
  case base
  show ?case by simp
next
  case (step M N)
  from step(2) obtain c r where "quiet c M" "exec_call K ops c M = (r, N)" by (auto elim: api_stepE)
  with quiet_call_frame [of c M K ops] step(3) show ?case by simp
qed

section \<open>Sources whose callbacks make API calls\<close>

text \<open>
  The contract between the loop and the code it calls: an event source's processing and an
  idle callback act on the loop by API calls only, and the two lifecycle calls by quiet ones,
  since the loop holds its table borrowed around them.
\<close>

locale callback_contract =
  fixes K :: "'p poller_ops"
    and ops :: "('s, 'i, 'p, 'd) loop_ops"
    and run_idle :: "'i \<Rightarrow> ('s, 'i, 'p, 'd) loop_state \<Rightarrow> ('s, 'i, 'p, 'd) loop_state"
  assumes process_calls:
      "so_process ops s rd t L = (r, s', L') \<Longrightarrow> returns r \<Longrightarrow> (api_step K ops any_call)\<^sup>*\<^sup>* L L'"
    and sleep_calls:
      "so_before_sleep ops s L = (q, s', L') \<Longrightarrow> returns q \<Longrightarrow> (api_step K ops quiet)\<^sup>*\<^sup>* L L'"
    and handle_calls:
      "so_before_handle ops s evs L = (s', L') \<Longrightarrow> (api_step K ops quiet)\<^sup>*\<^sup>* L L'"
    and idle_calls: "(api_step K ops any_call)\<^sup>*\<^sup>* L (run_idle f L)"
begin

lemma process_inv:
  assumes "core_inv None L" and "did < length (lp_cells L)"
    and "disp_process ops did rd t L = (r, L')" and "returns r"
  shows "core_inv None L'"
proof (cases "cell_val (lp_cells L ! did)")
  case (IoDisp io)
  with assms show ?thesis
    by (auto simp: disp_process_def Let_def intro!: core_inv_io_put split: prod.splits if_splits)
next
  case (SourceDisp di)
  let ?L = "set_cell did ((lp_cells L ! did)\<lparr>cell_borrowed := True\<rparr>) L"
  obtain q s M where p: "so_process ops (di_source di) rd t ?L = (q, s, M)" by (metis prod.collapse)
  with SourceDisp assms(3,4) have q: "returns q"
    and L': "L' = set_cell did \<lparr>cell_val = SourceDisp (di\<lparr>di_source := s\<rparr>), cell_borrowed = False\<rparr> M"
    by (auto simp: disp_process_def Let_def split: if_splits)
  have "core_inv (Some did) ?L" using assms(1,2) by (intro core_inv_borrow) auto
  with process_calls [OF p q] have "core_inv (Some did) M" by (rule core_inv_steps)
  then show ?thesis unfolding L' by (rule core_inv_unborrow) simp
qed

lemma sleep_inv:
  assumes "core_inv None L" and "did < length (lp_cells L)"
    and "disp_before_sleep ops did L = (r, L')" and "returns r"
  shows "core_inv None L'" and "lp_sources L' = lp_sources L" and "lp_lifecycle L' = lp_lifecycle L"
proof -
  have "core_inv None L' \<and> lp_sources L' = lp_sources L \<and> lp_lifecycle L' = lp_lifecycle L"
  proof (cases "cell_val (lp_cells L ! did)")
    case (IoDisp io)
    with assms show ?thesis by (auto simp: disp_before_sleep_def Let_def)
  next
    case (SourceDisp di)
    let ?L = "set_cell did ((lp_cells L ! did)\<lparr>cell_borrowed := True\<rparr>) L"
    obtain q s M where p: "so_before_sleep ops (di_source di) ?L = (q, s, M)" by (metis prod.collapse)
    with SourceDisp assms(3,4) have q: "returns q"
      and L': "L' = set_cell did \<lparr>cell_val = SourceDisp (di\<lparr>di_source := s\<rparr>), cell_borrowed = False\<rparr> M"
      by (auto simp: disp_before_sleep_def Let_def split: if_splits)
    have "core_inv (Some did) ?L" using assms(1,2) by (intro core_inv_borrow) auto
    with sleep_calls [OF p q] have "core_inv (Some did) M" by (rule core_inv_steps)
    then show ?thesis using quiet_steps_frame [OF sleep_calls [OF p q]]
      unfolding L' by (auto intro: core_inv_unborrow)
  qed
  then show "core_inv None L'" "lp_sources L' = lp_sources L" "lp_lifecycle L' = lp_lifecycle L" by blast+
qed

lemma handle_inv:
  assumes "core_inv None L" and "did < length (lp_cells L)"
    and "disp_before_handle ops did evs L = (r, L')" and "returns r"
  shows "core_inv None L'" and "lp_sources L' = lp_sources L" and "lp_lifecycle L' = lp_lifecycle L"
proof -
  have "core_inv None L' \<and> lp_sources L' = lp_sources L \<and> lp_lifecycle L' = lp_lifecycle L"
  proof (cases "cell_val (lp_cells L ! did)")
    case (IoDisp io)
    with assms show ?thesis by (auto simp: disp_before_handle_def Let_def)
  next
    case (SourceDisp di)
    let ?L = "set_cell did ((lp_cells L ! did)\<lparr>cell_borrowed := True\<rparr>) L"
    obtain s M where p: "so_before_handle ops (di_source di) evs ?L = (s, M)" by (metis prod.collapse)
    with SourceDisp assms(3,4)
    have L': "L' = set_cell did \<lparr>cell_val = SourceDisp (di\<lparr>di_source := s\<rparr>), cell_borrowed = False\<rparr> M"
      by (auto simp: disp_before_handle_def Let_def split: if_splits)
    have "core_inv (Some did) ?L" using assms(1,2) by (intro core_inv_borrow) auto
    with handle_calls [OF p] have "core_inv (Some did) M" by (rule core_inv_steps)
    then show ?thesis using quiet_steps_frame [OF handle_calls [OF p]]
      unfolding L' by (auto intro: core_inv_unborrow)
  qed
  then show "core_inv None L'" "lp_sources L' = lp_sources L" "lp_lifecycle L' = lp_lifecycle L" by blast+
qed

lemma run_before_sleep_inv:
  "core_inv None L \<Longrightarrow> run_before_sleep ops ts timeout L = (r, L') \<Longrightarrow> returns r \<Longrightarrow>
     core_inv None L' \<and> lp_sources L' = lp_sources L \<and> lp_lifecycle L' = lp_lifecycle L"
proof (induction ts arbitrary: timeout L)
  case Nil
  then show ?case by simp
next
  case (Cons t ts)
  show ?case
  proof (cases "sl_lookup (lp_sources L) t")
    case None
    with Cons.prems show ?thesis by simp
  next
    case (Some did)
    obtain q M where b: "disp_before_sleep ops did L = (q, M)" by force
    have "did < length (lp_cells L)" by (rule core_inv_lookup [OF Cons.prems(1) Some])
    note inv = sleep_inv [OF Cons.prems(1) this b]
    show ?thesis
    proof (cases q)
      case (Ok ev)
      let ?M = "\<lambda>e. M\<lparr>lp_synthetic := lp_synthetic M @ [\<lparr>pe_readiness = fst e, pe_token = snd e\<rparr>]\<rparr>"
      have "core_inv None M" "core_inv None (?M e)" for e using inv Ok by simp_all
      with Cons.IH [of M timeout] Cons.IH [of "?M (the ev)" "Some 0"] Cons.prems Some b inv Ok show ?thesis
        by (cases ev) auto
    qed (use Cons.prems Some b inv in auto)
  qed
qed

lemma run_before_handle_inv:
  "core_inv None L \<Longrightarrow> run_before_handle ops ts evs L = (r, L') \<Longrightarrow> returns r \<Longrightarrow>
     core_inv None L' \<and> lp_sources L' = lp_sources L \<and> lp_lifecycle L' = lp_lifecycle L"
proof (induction ts arbitrary: L)
  case Nil
  then show ?case by simp
next
  case (Cons t ts)
  show ?case
  proof (cases "sl_lookup (lp_sources L) t")
    case None
    with Cons.prems show ?thesis by simp
  next
    case (Some did)
    obtain q M where b: "disp_before_handle ops did (event_iterator t evs) L = (q, M)" by force
    have "did < length (lp_cells L)" by (rule core_inv_lookup [OF Cons.prems(1) Some])
    note inv = handle_inv [OF Cons.prems(1) this b]
    show ?thesis using Cons.IH [of M] Cons.prems Some b inv by (cases q) auto
  qed
qed

lemma dispatch_event_inv:
  assumes inv: "core_inv None L" and run: "dispatch_event K ops ev L = (r, L')" and "returns r"
  shows "core_inv None L'"
proof (cases "sl_lookup (lp_sources L) (forget_sub_id (pe_token ev))")
  case None
  with inv run show ?thesis by (simp add: dispatch_event_def)
next
  case (Some did)
  obtain q M where p: "disp_process ops did (pe_readiness ev) (pe_token ev) L = (q, M)" by force
  show ?thesis
  proof (cases "\<exists>ret. q = Ok ret")
    case False
    with p run Some \<open>returns r\<close> process_inv [OF inv core_inv_lookup [OF inv Some] p] show ?thesis
      by (cases q) (auto simp: dispatch_event_def)
  next
    case True
    then obtain ret where ret: "q = Ok ret" by blast
    have M: "core_inv None M" using process_inv [OF inv core_inv_lookup [OF inv Some] p] ret by simp
    have "core_inv None (snd (apply_post_action K ops reg did a (M\<lparr>lp_pending := Continue\<rparr>)))" for reg a
      using M by (auto simp: apply_post_action_def intro!: core_inv_and_then core_inv_reregister core_inv_unregister
          core_inv_release_at split: post_action.split) (metis core_inv_reregister core_inv_unregister core_inv_other(5) snd_conv)+
    moreover have "core_inv None N \<Longrightarrow> core_inv None (snd (unregister_if_removed K ops reg did N))" for reg N
      by (auto simp: unregister_if_removed_def intro: core_inv_log core_inv_unregister)
    ultimately have "core_inv None (snd (dispatch_event K ops ev L))"
      using Some p ret by (auto simp: dispatch_event_def take_pending_def Let_def intro!: core_inv_and_then) (metis snd_conv)+
    with run show ?thesis by simp
  qed
qed

lemma dispatch_list_inv:
  "core_inv None L \<Longrightarrow> dispatch_list K ops evs L = (r, L') \<Longrightarrow> returns r \<Longrightarrow> core_inv None L'"
proof (induction evs arbitrary: L)
  case Nil
  then show ?case by simp
next
  case (Cons ev evs)
  from Cons.prems(2) have "and_then (dispatch_event K ops ev L) (\<lambda>_ M. dispatch_list K ops evs M) = (r, L')" by simp
  then show ?case
  proof (cases rule: and_then_cases)
    case (ok a M)
    then have "core_inv None M" using dispatch_event_inv [OF Cons.prems(1)] by simp
    then show ?thesis using Cons.IH ok Cons.prems(3) by blast
  qed (use Cons.prems dispatch_event_inv [OF Cons.prems(1)] in auto)
qed

lemma dispatch_events_inv:
  assumes inv: "core_inv None L" and run: "dispatch_events K ops n timeout L = (r, L')" and r: "returns r"
  shows "core_inv None L'"
  using run unfolding dispatch_events_def Let_def
proof (cases rule: and_then_cases)
  case (ok timeout' L1)
  then have L1: "core_inv None L1" using run_before_sleep_inv [OF inv ok(1)] by simp
  from ok(2) show ?thesis
  proof (cases rule: and_then_cases)
    case (ok polled L2)
    then have L2: "core_inv None L2" using L1 by (auto simp: loop_poll_def split: prod.splits)
    show ?thesis
    proof (cases polled)
      case None
      with ok L2 show ?thesis by simp
    next
      case (Some evs)
      with ok(2) have "and_then (run_before_handle ops (lp_lifecycle L2) evs L2)
          (\<lambda>_ L3. dispatch_list K ops (lp_synthetic L3 @ evs) (L3\<lparr>lp_synthetic := []\<rparr>)) = (r, L')" by simp
      then show ?thesis
        by (cases rule: and_then_cases)
          (use r run_before_handle_inv [OF L2] dispatch_list_inv [of "_ \<lparr>lp_synthetic := []\<rparr>"] in force)+
    qed
  qed (use r L1 in \<open>auto simp: loop_poll_def split: prod.splits\<close>)
qed (use r run_before_sleep_inv [OF inv] in auto)

lemma idle_dispatch_inv: "core_inv cur L \<Longrightarrow> core_inv cur (idle_dispatch run_idle cb L)"
  using core_inv_steps [OF idle_calls]
  by (auto simp: idle_dispatch_def Let_def split: idle_cell.split)

lemma dispatch_idles_inv: "core_inv cur L \<Longrightarrow> core_inv cur (dispatch_idles run_idle L)"
proof -
  have "core_inv cur M \<Longrightarrow> core_inv cur (fold (idle_dispatch run_idle) cbs M)" for cbs M
    by (induction cbs arbitrary: M) (auto intro: idle_dispatch_inv)
  then show "core_inv cur L \<Longrightarrow> ?thesis" by (simp add: dispatch_idles_def)
qed

lemma dispatch_inv:
  assumes "core_inv None L" and "dispatch K ops run_idle n timeout L = (r, L')" and "returns r"
  shows "core_inv None L'"
  using assms(2) unfolding dispatch_def
  by (cases rule: and_then_cases) (use assms dispatch_events_inv [OF assms(1)] dispatch_idles_inv in auto)

end

section \<open>Reachable states\<close>

text \<open>
  The states of a loop between calls of its owner: created, then any sequence of API calls and
  dispatches, the failed ones included.
\<close>

inductive reach :: "'p poller_ops \<Rightarrow> ('s, 'i, 'p, 'd) loop_ops
    \<Rightarrow> ('i \<Rightarrow> ('s, 'i, 'p, 'd) loop_state \<Rightarrow> ('s, 'i, 'p, 'd) loop_state)
    \<Rightarrow> (('s, 'i, 'p, 'd) api_call \<Rightarrow> ('s, 'i, 'p, 'd) loop_state \<Rightarrow> bool)
    \<Rightarrow> ('s, 'i, 'p, 'd) loop_state \<Rightarrow> bool"
  for K ops run_idle D where
  created: "try_new K new_poller d = Ok L \<Longrightarrow> reach K ops run_idle D L"
| called: "reach K ops run_idle D L \<Longrightarrow> api_step K ops D L L' \<Longrightarrow> reach K ops run_idle D L'"
| dispatched: "reach K ops run_idle D L \<Longrightarrow> dispatch K ops run_idle n timeout L = (r, L') \<Longrightarrow> returns r \<Longrightarrow>
    reach K ops run_idle D L'"

lemma try_new_core_inv: "try_new K np d = Ok L \<Longrightarrow> core_inv None L"
  by (cases "Poll_new K np") (auto simp: try_new_def core_inv_def SourceList_new_def slots_wf_def)

context callback_contract
begin

lemma reach_inv: "reach K ops run_idle D L \<Longrightarrow> core_inv None L"
  by (induction rule: reach.induct) (auto intro: try_new_core_inv core_inv_step dispatch_inv)

end

end
