(* ===== verification/Timer_Source.thy ===== *)
theory Timer_Source
  imports Loop_Invariant
begin

text \<open>
  The timer event source of \<open>src/src/sources/timer.rs\<close>. A timer keeps the wheel it is registered
  in; there is one wheel, the loop's, so the model reads it from the \<open>Poll\<close> it is given and,
  while it processes an event, from the loop's \<open>Poll\<close>. \<open>Instant::now()\<close> is the poller's clock.
\<close>

section \<open>Timer\<close>

record registration =
  rg_token :: token
  rg_counter :: u32

record timer =
  tm_registration :: "registration option"
  tm_deadline :: "instant option"

definition Timer_from_deadline_inner :: "instant option \<Rightarrow> timer" where
  "Timer_from_deadline_inner deadline = \<lparr>tm_registration = None, tm_deadline = deadline\<rparr>"

definition Timer_immediate :: "instant \<Rightarrow> timer" where
  "Timer_immediate now = Timer_from_deadline_inner (Some now)"

definition Timer_from_duration :: "instant \<Rightarrow> duration \<Rightarrow> timer" where
  "Timer_from_duration now d = Timer_from_deadline_inner (instant_checked_add now d)"

definition Timer_from_deadline :: "instant \<Rightarrow> timer" where
  "Timer_from_deadline deadline = Timer_from_deadline_inner (Some deadline)"

definition timer_set_deadline :: "instant \<Rightarrow> timer \<Rightarrow> timer" where
  "timer_set_deadline deadline tm = tm\<lparr>tm_deadline := Some deadline\<rparr>"

definition timer_set_duration :: "instant \<Rightarrow> duration \<Rightarrow> timer \<Rightarrow> timer" where
  "timer_set_duration now d tm = tm\<lparr>tm_deadline := instant_checked_add now d\<rparr>"

definition timer_current_deadline :: "timer \<Rightarrow> instant option" where
  "timer_current_deadline tm = tm_deadline tm"

section \<open>EventSource for Timer\<close>

datatype timeout_action = TDrop | ToInstant instant | ToDuration duration

type_synonym ('s, 'i, 'p, 'd) timer_callback =
  "instant \<Rightarrow> ('s, 'i, 'p, 'd) loop_state \<Rightarrow> timeout_action \<times> ('s, 'i, 'p, 'd) loop_state"

definition loop_now :: "'p poller_ops \<Rightarrow> ('s, 'i, 'p, 'd) loop_state \<Rightarrow> instant" where
  "loop_now K L = pl_now K (poller (lp_poll L))"

definition with_timers :: "(timer_wheel \<Rightarrow> timer_wheel) \<Rightarrow> ('s, 'i, 'p, 'd) loop_state \<Rightarrow> ('s, 'i, 'p, 'd) loop_state" where
  "with_timers f L = L\<lparr>lp_poll := (lp_poll L)\<lparr>timers := f (timers (lp_poll L))\<rparr>\<rparr>"

text \<open>The end of \<open>process_events\<close>: put the timer back in the wheel under the counter it had.\<close>

definition timer_rearm :: "registration \<Rightarrow> instant \<Rightarrow> timer \<Rightarrow> ('s, 'i, 'p, 'd) loop_state
    \<Rightarrow> (boxed_error, post_action) outcome \<times> timer \<times> ('s, 'i, 'p, 'd) loop_state" where
  "timer_rearm reg new_deadline tm L =
     (Ok Continue, tm\<lparr>tm_deadline := Some new_deadline\<rparr>,
      with_timers (wheel_insert_reuse (rg_counter reg) new_deadline (rg_token reg)) L)"

definition timer_process :: "'p poller_ops \<Rightarrow> ('s, 'i, 'p, 'd) timer_callback
    \<Rightarrow> (timer, ('s, 'i, 'p, 'd) loop_state) process_op" where
  "timer_process K callback tm rd token L =
     (case (tm_registration tm, tm_deadline tm) of
        (Some reg, Some deadline) \<Rightarrow>
          if rg_token reg \<noteq> token then (Ok Continue, tm, L)
          else
            (case callback deadline L of
               (TDrop, L') \<Rightarrow> (Ok Remove, tm, L')
             | (ToInstant i, L') \<Rightarrow> timer_rearm reg i tm L'
             | (ToDuration d, L') \<Rightarrow>
                 (case instant_checked_add (loop_now K L') d of
                    Some new_deadline \<Rightarrow> timer_rearm reg new_deadline tm L'
                  | None \<Rightarrow> (Ok Remove, tm\<lparr>tm_deadline := None\<rparr>, L')))
      | _ \<Rightarrow> (Ok Continue, tm, L))"

definition timer_register :: "(timer, 'p) register_op" where
  "timer_register tm P tf =
     (case tm_deadline tm of
        None \<Rightarrow> (Ok (), tm, P, tf)
      | Some deadline \<Rightarrow>
          (case factory_token tf of
             (Ok token, tf') \<Rightarrow>
               (case wheel_insert deadline token (timers P) of
                  (counter, w) \<Rightarrow>
                    (Ok (), tm\<lparr>tm_registration := Some \<lparr>rg_token = token, rg_counter = counter\<rparr>\<rparr>,
                     P\<lparr>timers := w\<rparr>, tf'))
           | (_, tf') \<Rightarrow> (Panic, tm, P, tf')))"

definition timer_unregister :: "(timer, 'p) unregister_op" where
  "timer_unregister tm P =
     (case tm_registration tm of
        None \<Rightarrow> (Ok (), tm, P)
      | Some reg \<Rightarrow>
          (Ok (), tm\<lparr>tm_registration := None\<rparr>, P\<lparr>timers := wheel_cancel (rg_counter reg) (timers P)\<rparr>))"

definition timer_reregister :: "(timer, 'p) register_op" where
  "timer_reregister tm P tf =
     (case timer_unregister tm P of
        (Ok _, tm', P') \<Rightarrow> timer_register tm' P' tf
      | (Err e, tm', P') \<Rightarrow> (Err e, tm', P', tf)
      | (Panic, tm', P') \<Rightarrow> (Panic, tm', P', tf)
      | (Diverge, tm', P') \<Rightarrow> (Diverge, tm', P', tf))"

definition timer_ops :: "'p poller_ops \<Rightarrow> ('s, 'i, 'p, 'd) timer_callback
    \<Rightarrow> (timer, 'p, ('s, 'i, 'p, 'd) loop_state) source_ops" where
  "timer_ops K callback =
     \<lparr>so_process = timer_process K callback, so_register = timer_register, so_reregister = timer_reregister,
      so_unregister = timer_unregister, so_needs_extra = default_needs_extra,
      so_before_sleep = default_before_sleep, so_before_handle = default_before_handle\<rparr>"

section \<open>TimeoutFuture\<close>

text \<open>
  A future with a timer of its own in the loop; the \<open>Rc<RefCell<Option<Waker>>>\<close> that it
  shares with the timer's callback is the field \<open>tf_waker\<close>. \<open>mk\<close> makes the loop's source of
  the timer and its callback; \<open>unwrap\<close> panics if the insertion fails.
\<close>

record timeout_future =
  tf_deadline :: "instant option"
  tf_waker :: "nat option"

definition timeout_callback :: "nat option \<Rightarrow> ('s, 'i, 'p, 'd) timer_callback" where
  "timeout_callback waker deadline L =
     (TDrop, case waker of Some w \<Rightarrow> L\<lparr>lp_woken := lp_woken L @ [w]\<rparr> | None \<Rightarrow> L)"

definition TimeoutFuture_from_deadline_inner :: "('s, 'i, 'p, 'd) loop_ops \<Rightarrow> (timer \<Rightarrow> 's) \<Rightarrow> instant option
    \<Rightarrow> ('s, 'i, 'p, 'd) loop_state \<Rightarrow> timeout_future cresult \<times> ('s, 'i, 'p, 'd) loop_state" where
  "TimeoutFuture_from_deadline_inner ops mk deadline L =
     (case insert_source ops (mk (Timer_from_deadline_inner deadline)) L of
        (Ok _, L') \<Rightarrow> (Ok \<lparr>tf_deadline = deadline, tf_waker = None\<rparr>, L')
      | (_, L') \<Rightarrow> (Panic, L'))"

definition TimeoutFuture_from_duration :: "'p poller_ops \<Rightarrow> ('s, 'i, 'p, 'd) loop_ops \<Rightarrow> (timer \<Rightarrow> 's) \<Rightarrow> duration
    \<Rightarrow> ('s, 'i, 'p, 'd) loop_state \<Rightarrow> timeout_future cresult \<times> ('s, 'i, 'p, 'd) loop_state" where
  "TimeoutFuture_from_duration K ops mk d L =
     TimeoutFuture_from_deadline_inner ops mk (instant_checked_add (loop_now K L) d) L"

definition TimeoutFuture_from_deadline :: "('s, 'i, 'p, 'd) loop_ops \<Rightarrow> (timer \<Rightarrow> 's) \<Rightarrow> instant
    \<Rightarrow> ('s, 'i, 'p, 'd) loop_state \<Rightarrow> timeout_future cresult \<times> ('s, 'i, 'p, 'd) loop_state" where
  "TimeoutFuture_from_deadline ops mk deadline L = TimeoutFuture_from_deadline_inner ops mk (Some deadline) L"

text \<open>\<open>Future::poll\<close> at the instant \<open>now\<close>: \<open>True\<close> for \<open>Ready\<close>.\<close>

definition timeout_future_poll :: "instant \<Rightarrow> nat \<Rightarrow> timeout_future \<Rightarrow> bool \<times> timeout_future" where
  "timeout_future_poll now waker f =
     (case tf_deadline f of
        None \<Rightarrow> (False, f)
      | Some deadline \<Rightarrow>
          if deadline \<le> now then (True, f) else (False, f\<lparr>tf_waker := Some waker\<rparr>))"

lemmas timer_source_defs [source_defs] = timer_process_def timer_register_def timer_unregister_def
  timer_reregister_def timer_rearm_def with_timers_def

section \<open>A registered timer and its entry in the wheel\<close>

text \<open>The entries of a wheel with a given counter.\<close>

definition entries :: "u32 \<Rightarrow> timer_wheel \<Rightarrow> timeout_data multiset" where
  "entries c w = filter_mset (\<lambda>d. td_counter d = c) (wheel_items w)"

definition timer_entry :: "timer \<Rightarrow> timeout_data option" where
  "timer_entry tm =
     (case (tm_registration tm, tm_deadline tm) of
        (Some reg, Some deadline) \<Rightarrow> Some \<lparr>td_deadline = deadline, td_token = rg_token reg, td_counter = rg_counter reg\<rparr>
      | _ \<Rightarrow> None)"

text \<open>
  The timer is in the wheel: registered, with exactly its current deadline, token and counter.
\<close>

definition timer_armed :: "timer \<Rightarrow> timer_wheel \<Rightarrow> bool" where
  "timer_armed tm w \<longleftrightarrow> (\<exists>d. timer_entry tm = Some d \<and> entries (td_counter d) w = {#d#})"

text \<open>No entry carries the next counter: fewer than \<open>2 ^ 32\<close> insertions ago.\<close>

definition counter_free :: "timer_wheel \<Rightarrow> bool" where
  "counter_free w \<longleftrightarrow> entries (tw_counter w) w = {#}"

lemma entries_insert:
  "wheel_insert d t w = (c, w') \<Longrightarrow>
     c = tw_counter w \<and> entries k w' = (if k = c then {#\<lparr>td_deadline = d, td_token = t, td_counter = c\<rparr>#} else {#}) + entries k w"
  using wheel.items_insert [of d t w c w'] by (auto simp: entries_def wheel_insert_def Let_def)

lemma entries_reuse:
  "entries k (wheel_insert_reuse c d t w) =
     (if k = c then {#\<lparr>td_deadline = d, td_token = t, td_counter = c\<rparr>#} else {#}) + entries k w"
  by (auto simp: entries_def wheel.items_reuse)

lemma entries_cancel:
  assumes "distinct_counters (wheel_items w)"
  shows "entries k (wheel_cancel c w) = (if k = c then {#} else entries k w)"
proof (cases "k = c")
  case True
  then show ?thesis using wheel.items_cancel [OF assms, of c] by (simp add: entries_def)
next
  case False
  then have "filter_mset (\<lambda>d. td_counter d \<noteq> c \<and> td_counter d = k) M = filter_mset (\<lambda>d. td_counter d = k) M" for M
    by (intro filter_mset_cong) auto
  with False show ?thesis using wheel.items_cancel [OF assms, of c] by (simp add: entries_def filter_filter_mset)
qed

lemma wheel_cancel_absent:
  assumes "entries c w = {#}"
  shows "wheel_cancel c w = w"
proof -
  have none: "\<forall>d \<in> set (tw_heap w). td_counter d \<noteq> c"
    using assms by (auto simp: entries_def wheel_items_def filter_mset_eq_mempty_iff)
  then have "filter (\<lambda>d. td_counter d \<noteq> c) (tw_heap w) = tw_heap w" by simp
  then show ?thesis
    using none heap_peek_SomeD [of "tw_heap w"] by (auto simp: wheel_cancel_def split: option.splits)
qed

lemma counter_cancel [simp]: "tw_counter (wheel_cancel c w) = tw_counter w"
  by (auto simp: wheel_cancel_def)

lemma distinct_cancel: "distinct_counters (wheel_items w) \<Longrightarrow> distinct_counters (wheel_items (wheel_cancel c w))"
  unfolding distinct_counters_def entries_def [symmetric]
  using entries_cancel [of w _ c] by (auto simp: distinct_counters_def entries_def)

lemma timer_register_armed:
  assumes "timer_register tm P tf = (Ok (), tm', P', tf')" and "tm_deadline tm = Some d" and "counter_free (timers P)"
  shows "timer_armed tm' (timers P') \<and> tm_deadline tm' = Some d
    \<and> map_option rg_token (tm_registration tm') = Some (next_token tf)"
proof -
  obtain t where t: "factory_token tf = (Ok t, tf')" "t = next_token tf"
    using assms(1,2) by (auto simp: timer_register_def factory_token_eq split: if_splits prod.splits)
  obtain c w where c: "wheel_insert d t (timers P) = (c, w)" by force
  from assms(1,2) t c have *: "tm' = tm\<lparr>tm_registration := Some \<lparr>rg_token = t, rg_counter = c\<rparr>\<rparr>" "P' = P\<lparr>timers := w\<rparr>"
    by (auto simp: timer_register_def)
  from entries_insert [OF c, of c] assms(3) have "entries c w = {#\<lparr>td_deadline = d, td_token = t, td_counter = c\<rparr>#}"
    by (auto simp: counter_free_def)
  with * assms(2) t(2) show ?thesis by (simp add: timer_armed_def timer_entry_def)
qed

section \<open>Properties of timers\<close>

text \<open>
  Re-registering a timer, as after \<open>set_deadline\<close>, succeeds, removes the entry it had and
  leaves it in the wheel exactly once, with its current deadline and the token of the new
  registration; the entries of every other timer stay as they are.
\<close>

theorem timer_reregister_moves:
  assumes "distinct_counters (wheel_items (timers P))" and "counter_free (timers P)"
    and "tm_registration tm = Some reg" and "rg_counter reg \<noteq> tw_counter (timers P)"
    and "tm_deadline tm = Some d" and "tok_sub_id (next_token tf) = 0"
  shows "\<exists>tm' P' tf'. timer_reregister tm P tf = (Ok (), tm', P', tf') \<and> timer_armed tm' (timers P') \<and>
    tm_deadline tm' = Some d \<and> entries (rg_counter reg) (timers P') = {#} \<and>
    (\<forall>k. k \<noteq> rg_counter reg \<longrightarrow> k \<noteq> tw_counter (timers P) \<longrightarrow> entries k (timers P') = entries k (timers P))"
proof -
  let ?w = "wheel_cancel (rg_counter reg) (timers P)"
  obtain c w where c: "wheel_insert d (next_token tf) ?w = (c, w)" by force
  note e = entries_insert [OF c] and k = entries_cancel [OF assms(1), of _ "rg_counter reg"]
  obtain tf' where tf': "factory_token tf = (Ok (next_token tf), tf')" using assms(6) by (simp add: factory_token_eq)
  let ?tm = "tm\<lparr>tm_registration := Some \<lparr>rg_token = next_token tf, rg_counter = c\<rparr>\<rparr>"
  have "timer_reregister tm P tf = (Ok (), ?tm, P\<lparr>timers := w\<rparr>, tf')"
    using assms(3,5) c tf' by (simp add: source_defs)
  moreover have "timer_armed ?tm w"
    using e [of c] k assms(2,5) by (auto simp: timer_armed_def timer_entry_def counter_free_def)
  moreover have "entries (rg_counter reg) w = {#}" using e [of "rg_counter reg"] k assms(4) by simp
  ultimately show ?thesis
    using e k assms(5) by (intro exI [of _ ?tm] exI [of _ "P\<lparr>timers := w\<rparr>"] exI [of _ tf']) simp
qed

theorem timer_reregister_moves_witness:
  "\<exists>tm' P' tf'. timer_reregister
       \<lparr>tm_registration = Some \<lparr>rg_token = \<lparr>tok_id = 0, tok_version = 0, tok_sub_id = 0\<rparr>, rg_counter = 0\<rparr>,
        tm_deadline = Some 9\<rparr>
       \<lparr>poller = (), level_triggered = None,
        timers = snd (wheel_insert 4 \<lparr>tok_id = 0, tok_version = 0, tok_sub_id = 0\<rparr> TimerWheel_new)\<rparr>
       (TokenFactory_new \<lparr>tok_id = 0, tok_version = 0, tok_sub_id = 0\<rparr>) = (Ok (), tm', P', tf') \<and>
     timer_armed tm' (timers P') \<and> tm_deadline tm' = Some 9 \<and> entries 0 (timers P') = {#}"
proof -
  let ?t = "\<lparr>tok_id = 0, tok_version = 0, tok_sub_id = 0\<rparr> :: token_inner"
  let ?r = "\<lparr>rg_token = ?t, rg_counter = 0\<rparr>"
  let ?P = "\<lparr>poller = (), level_triggered = None, timers = snd (wheel_insert 4 ?t TimerWheel_new)\<rparr>"
  have "distinct_counters (wheel_items (timers ?P))" "counter_free (timers ?P)" "rg_counter ?r \<noteq> tw_counter (timers ?P)"
    by (simp_all add: wheel_insert_def TimerWheel_new_def heap_push_def wheel_items_def distinct_counters_def
        counter_free_def entries_def)
  from timer_reregister_moves [OF this(1,2) _ this(3), of "\<lparr>tm_registration = Some ?r, tm_deadline = Some 9\<rparr>" 9 "TokenFactory_new ?t"]
  show ?thesis by (simp add: TokenFactory_new_def forget_sub_id_def) blast
qed

text \<open>
  An event of a registered timer runs the callback once, with the deadline that was set.
  If the callback drops the timer, the timer asks to be removed; if it gives a new deadline that
  exists, the timer is in the wheel again exactly once, at the new deadline and under the token
  and counter it had; a duration that overflows the clock drops the timer. An event for any
  other token leaves the timer and the loop alone. The wheel has no entry of the timer when its
  event is processed, since the poll that reported it took the entry out.
\<close>

theorem timer_event_rearms:
  assumes "tm_registration tm = Some reg" and "tm_deadline tm = Some d"
    and "callback d L = (action, L1)" and "entries (rg_counter reg) (timers (lp_poll L1)) = {#}"
    and "timer_process K callback tm rd token L = (r, tm', L')"
  shows "if rg_token reg \<noteq> token then r = Ok Continue \<and> tm' = tm \<and> L' = L
    else case (case action of TDrop \<Rightarrow> None | ToInstant i \<Rightarrow> Some i
               | ToDuration t \<Rightarrow> instant_checked_add (loop_now K L1) t) of
      None \<Rightarrow> r = Ok Remove \<and> L' = L1
    | Some i \<Rightarrow> r = Ok Continue \<and> tm_deadline tm' = Some i \<and> tm_registration tm' = Some reg \<and>
        timer_armed tm' (timers (lp_poll L')) \<and> lp_sources L' = lp_sources L1 \<and> lp_data L' = lp_data L1"
  using assms
  by (auto simp: source_defs timer_armed_def timer_entry_def entries_reuse
      split: if_splits option.splits timeout_action.splits)

theorem timer_event_rearms_witness:
  "\<exists>L' :: (timer, unit, script_poller, nat list) loop_state.
     timer_process SP (\<lambda>d L. (ToInstant (d + 5), L\<lparr>lp_data := lp_data L @ [d]\<rparr>))
       \<lparr>tm_registration = Some \<lparr>rg_token = \<lparr>tok_id = 2, tok_version = 0, tok_sub_id = 0\<rparr>, rg_counter = 0\<rparr>,
        tm_deadline = Some 3\<rparr> Readiness_EMPTY \<lparr>tok_id = 2, tok_version = 0, tok_sub_id = 0\<rparr>
       \<lparr>lp_poll = \<lparr>poller = \<lparr>sp_regs = [], sp_now = 3, sp_level = True, sp_script = []\<rparr>, level_triggered = None,
          timers = \<lparr>tw_heap = [], tw_counter = 1\<rparr>\<rparr>,
        lp_sources = [], lp_cells = [], lp_lifecycle = [], lp_idles = [], lp_idle_cells = [],
        lp_pending = Continue, lp_stop = False, lp_future_ready = False, lp_synthetic = [], lp_woken = [],
        lp_data = []\<rparr> = (Ok Continue,
          \<lparr>tm_registration = Some \<lparr>rg_token = \<lparr>tok_id = 2, tok_version = 0, tok_sub_id = 0\<rparr>, rg_counter = 0\<rparr>,
           tm_deadline = Some 8\<rparr>, L')
     \<and> lp_data L' = [3] \<and> timer_armed
          \<lparr>tm_registration = Some \<lparr>rg_token = \<lparr>tok_id = 2, tok_version = 0, tok_sub_id = 0\<rparr>, rg_counter = 0\<rparr>,
           tm_deadline = Some 8\<rparr> (timers (lp_poll L'))"
proof -
  let ?t = "\<lparr>tok_id = 2, tok_version = 0, tok_sub_id = 0\<rparr> :: token_inner"
  let ?r = "\<lparr>rg_token = ?t, rg_counter = 0\<rparr>"
  let ?cb = "\<lambda>d L. (ToInstant (d + 5), L\<lparr>lp_data := lp_data L @ [d]\<rparr>)"
  let ?L = "\<lparr>lp_poll = \<lparr>poller = \<lparr>sp_regs = [], sp_now = 3, sp_level = True, sp_script = []\<rparr>, level_triggered = None,
          timers = \<lparr>tw_heap = [], tw_counter = 1\<rparr>\<rparr>,
        lp_sources = [], lp_cells = [], lp_lifecycle = [], lp_idles = [], lp_idle_cells = [],
        lp_pending = Continue, lp_stop = False, lp_future_ready = False, lp_synthetic = [], lp_woken = [],
        lp_data = []\<rparr> :: (timer, unit, script_poller, nat list) loop_state"
  obtain L' where run: "timer_process SP ?cb \<lparr>tm_registration = Some ?r, tm_deadline = Some 3\<rparr> Readiness_EMPTY ?t ?L
      = (Ok Continue, \<lparr>tm_registration = Some ?r, tm_deadline = Some 8\<rparr>, L')"
    by (simp add: source_defs)
  from timer_event_rearms [OF _ _ _ _ run, of ?r 3 "ToInstant 8" "?L\<lparr>lp_data := [3]\<rparr>"]
  have "lp_data L' = [3] \<and> timer_armed \<lparr>tm_registration = Some ?r, tm_deadline = Some 8\<rparr> (timers (lp_poll L'))"
    by (simp add: entries_def wheel_items_def)
  with run show ?thesis by blast
qed

text \<open>
  An expired timer whose deadline is moved by another callback of the same dispatch still
  gets the event that was already polled: the callback runs with the new deadline although the
  clock has not reached it, and a callback that returns a further deadline leaves two entries
  of this timer in the wheel.
\<close>

theorem moved_timer_fires_early:
  assumes "drain_expired now (timers P) = (tokens, w)" and "rg_token reg \<in> set tokens"
    and "entries (rg_counter reg) w = {#}" and "counter_free w"
    and "tm_registration tm = Some reg" and "next_token tf = rg_token reg" and "tok_sub_id (rg_token reg) = 0"
    and "now < later"
    and "timer_reregister (timer_set_deadline later tm) (P\<lparr>timers := w\<rparr>) tf = (r, tm1, P1, tf1)"
    and "timers (lp_poll L) = timers P1"
  shows "\<exists>tm2 L2 c. timer_process K (\<lambda>d M. (ToInstant i, M\<lparr>lp_data := lp_data M @ [d]\<rparr>)) tm1 rd (rg_token reg) L
      = (Ok Continue, tm2, L2) \<and> lp_data L2 = lp_data L @ [later] \<and>
    map_option rg_counter (tm_registration tm2) = Some c \<and> size (entries c (timers (lp_poll L2))) = 2"
proof -
  have "wheel_cancel (rg_counter reg) w = w" using assms(3) by (rule wheel_cancel_absent)
  moreover obtain c v where c: "wheel_insert later (rg_token reg) w = (c, v)" by force
  moreover obtain tf2 where "factory_token tf = (Ok (rg_token reg), tf2)" using assms(6,7) by (simp add: factory_token_eq)
  ultimately have tm1: "tm1 = \<lparr>tm_registration = Some \<lparr>rg_token = rg_token reg, rg_counter = c\<rparr>, tm_deadline = Some later\<rparr>"
    "P1 = P\<lparr>timers := v\<rparr>"
    using assms(5,9) by (auto simp: source_defs timer_set_deadline_def)
  from entries_insert [OF c, of c] assms(4) have "size (entries c v) = 1"
    by (auto simp: counter_free_def)
  with assms(10) tm1 show ?thesis by (simp add: source_defs entries_reuse)
qed

theorem moved_timer_fires_early_witness:
  "\<exists>tm2 L2 c. timer_process SP (\<lambda>d M. (ToInstant 60, M\<lparr>lp_data := lp_data M @ [d]\<rparr>))
      \<lparr>tm_registration = Some \<lparr>rg_token = \<lparr>tok_id = 0, tok_version = 0, tok_sub_id = 0\<rparr>, rg_counter = 1\<rparr>,
       tm_deadline = Some 50\<rparr> Readiness_EMPTY \<lparr>tok_id = 0, tok_version = 0, tok_sub_id = 0\<rparr>
      (\<lparr>lp_poll = \<lparr>poller = \<lparr>sp_regs = [], sp_now = 2, sp_level = True, sp_script = []\<rparr>, level_triggered = None,
          timers = \<lparr>tw_heap = [\<lparr>td_deadline = 50, td_token = \<lparr>tok_id = 0, tok_version = 0, tok_sub_id = 0\<rparr>, td_counter = 1\<rparr>],
                    tw_counter = 2\<rparr>\<rparr>,
        lp_sources = [], lp_cells = [], lp_lifecycle = [], lp_idles = [], lp_idle_cells = [],
        lp_pending = Continue, lp_stop = False, lp_future_ready = False, lp_synthetic = [], lp_woken = [],
        lp_data = []\<rparr> :: (timer, unit, script_poller, nat list) loop_state)
      = (Ok Continue, tm2, L2) \<and> lp_data L2 = [50] \<and>
    map_option rg_counter (tm_registration tm2) = Some c \<and> size (entries c (timers (lp_poll L2))) = 2"
proof -
  let ?t = "\<lparr>tok_id = 0, tok_version = 0, tok_sub_id = 0\<rparr> :: token_inner"
  let ?p = "\<lparr>sp_regs = [], sp_now = 2, sp_level = True, sp_script = []\<rparr>"
  let ?P = "\<lparr>poller = ?p, level_triggered = None, timers = snd (wheel_insert 1 ?t TimerWheel_new)\<rparr>"
  let ?w = "\<lparr>tw_heap = [], tw_counter = 1\<rparr>"
  let ?v = "\<lparr>tw_heap = [\<lparr>td_deadline = 50, td_token = ?t, td_counter = 1\<rparr>], tw_counter = 2\<rparr>"
  let ?tm = "\<lparr>tm_registration = Some \<lparr>rg_token = ?t, rg_counter = 0\<rparr>, tm_deadline = Some 1\<rparr>"
  let ?M = "\<lparr>tm_registration = Some \<lparr>rg_token = ?t, rg_counter = 1\<rparr>, tm_deadline = Some 50\<rparr>"
  let ?L = "\<lparr>lp_poll = \<lparr>poller = ?p, level_triggered = None, timers = ?v\<rparr>,
        lp_sources = [], lp_cells = [], lp_lifecycle = [], lp_idles = [], lp_idle_cells = [],
        lp_pending = Continue, lp_stop = False, lp_future_ready = False, lp_synthetic = [], lp_woken = [],
        lp_data = []\<rparr> :: (timer, unit, script_poller, nat list) loop_state"
  have drain: "drain_expired 2 (timers ?P) = ([?t], ?w)"
    by (simp add: wheel_insert_def TimerWheel_new_def heap_push_def drain_expired.simps wheel_next_expired_def
        heap_pop_def Let_def)
  have rereg: "timer_reregister (timer_set_deadline 50 ?tm) (?P\<lparr>timers := ?w\<rparr>) (TokenFactory_new ?t)
      = (Ok (), ?M, ?P\<lparr>timers := ?v\<rparr>, snd (factory_token (TokenFactory_new ?t)))"
    by (simp add: source_defs timer_set_deadline_def wheel_cancel_def wheel_insert_def heap_push_def forget_sub_id_def Let_def)
  have free: "entries 0 ?w = {#}" "counter_free ?w" by (simp_all add: counter_free_def entries_def wheel_items_def)
  show ?thesis
    using moved_timer_fires_early [OF drain _ _ free(2) _ _ _ _ rereg, of "\<lparr>rg_token = ?t, rg_counter = 0\<rparr>" ?L SP 60 Readiness_EMPTY] free(1)
    by (simp add: TokenFactory_new_def forget_sub_id_def)
qed

end
