(* ===== verification/Generic_Source.thy ===== *)
theory Generic_Source
  imports Loop_Invariant
begin

text \<open>
  \<open>src/src/sources/generic.rs\<close>: the event source around a file descriptor. \<open>'f\<close> is the wrapped
  object and \<open>as_fd\<close> gives its descriptor (\<open>AsFd::as_fd\<close>). \<open>NoIoDrop\<close> and \<open>FdWrapper\<close> only forward
  to the object they wrap and are the object here. The back-reference to the poller is the flag
  \<open>gn_poller\<close>: there is one poller.
\<close>

record 'f generic =
  gn_file :: "'f option"
  gn_interest :: interest
  gn_mode :: mode
  gn_poller :: bool
  gn_token :: "token option"

definition Generic_new :: "'f \<Rightarrow> interest \<Rightarrow> mode \<Rightarrow> 'f generic" where
  "Generic_new file i m = \<lparr>gn_file = Some file, gn_interest = i, gn_mode = m, gn_poller = False, gn_token = None\<rparr>"

definition Generic_new_with_error :: "'f \<Rightarrow> interest \<Rightarrow> mode \<Rightarrow> 'f generic" where
  "Generic_new_with_error file i m =
     \<lparr>gn_file = Some file, gn_interest = i, gn_mode = m, gn_poller = False, gn_token = None\<rparr>"

text \<open>
  \<open>unwrap\<close> consumes the source: the file, or a panic if it was taken, and the poller after the
  descriptor was deleted from it directly, whatever the result (\<open>.ok()\<close>).
\<close>

definition generic_unwrap :: "'p poller_ops \<Rightarrow> ('f \<Rightarrow> raw_fd) \<Rightarrow> 'f generic \<Rightarrow> 'p \<Rightarrow> (unit, 'f) outcome \<times> 'p" where
  "generic_unwrap K as_fd g p =
     (case gn_file g of
        None \<Rightarrow> (Panic, p)
      | Some file \<Rightarrow> (Ok file, if gn_poller g then snd (pl_delete K p (as_fd file)) else p))"

definition generic_get_ref :: "'f generic \<Rightarrow> (unit, 'f) outcome" where
  "generic_get_ref g = (case gn_file g of None \<Rightarrow> Panic | Some file \<Rightarrow> Ok file)"

definition generic_get_mut :: "('f \<Rightarrow> 'f) \<Rightarrow> 'f generic \<Rightarrow> (unit, unit) outcome \<times> 'f generic" where
  "generic_get_mut f g =
     (case gn_file g of None \<Rightarrow> (Panic, g) | Some file \<Rightarrow> (Ok (), g\<lparr>gn_file := Some (f file)\<rparr>))"

text \<open>\<open>Drop\<close>: take the file and the back-reference, and delete the descriptor if both were there.\<close>

definition generic_drop :: "'p poller_ops \<Rightarrow> ('f \<Rightarrow> raw_fd) \<Rightarrow> 'f generic \<Rightarrow> 'p \<Rightarrow> 'p" where
  "generic_drop K as_fd g p =
     (case gn_file g of
        Some file \<Rightarrow> if gn_poller g then snd (pl_delete K p (as_fd file)) else p
      | None \<Rightarrow> p)"

section \<open>EventSource for Generic\<close>

type_synonym ('f, 'e, 'w) generic_callback =
  "readiness \<Rightarrow> 'f \<Rightarrow> 'w \<Rightarrow> ('e, post_action) outcome \<times> 'f \<times> 'w"

definition generic_process :: "('f, 'e, 'w) generic_callback \<Rightarrow> 'f generic \<Rightarrow> readiness \<Rightarrow> token \<Rightarrow> 'w
    \<Rightarrow> ('e, post_action) outcome \<times> 'f generic \<times> 'w" where
  "generic_process callback g rd token w =
     (if gn_token g \<noteq> Some token then (Ok Continue, g, w)
      else case gn_file g of
             None \<Rightarrow> (Panic, g, w)
           | Some file \<Rightarrow>
               (case callback rd file w of (r, file', w') \<Rightarrow> (r, g\<lparr>gn_file := Some file'\<rparr>, w')))"

definition generic_register :: "'p poller_ops \<Rightarrow> ('f \<Rightarrow> raw_fd) \<Rightarrow> ('f generic, 'p) register_op" where
  "generic_register K as_fd g P tf =
     (case factory_token tf of
        (Ok token, tf') \<Rightarrow>
          (case gn_file g of
             None \<Rightarrow> (Panic, g, P, tf')
           | Some file \<Rightarrow>
               (case Poll_register K (as_fd file) (gn_interest g) (gn_mode g) token P of
                  (Ok _, P') \<Rightarrow> (Ok (), g\<lparr>gn_poller := True, gn_token := Some token\<rparr>, P', tf')
                | (r, P') \<Rightarrow> (r, g, P', tf')))
      | (_, tf') \<Rightarrow> (Panic, g, P, tf'))"

definition generic_reregister :: "'p poller_ops \<Rightarrow> ('f \<Rightarrow> raw_fd) \<Rightarrow> ('f generic, 'p) register_op" where
  "generic_reregister K as_fd g P tf =
     (case factory_token tf of
        (Ok token, tf') \<Rightarrow>
          (case gn_file g of
             None \<Rightarrow> (Panic, g, P, tf')
           | Some file \<Rightarrow>
               (case Poll_reregister K (as_fd file) (gn_interest g) (gn_mode g) token P of
                  (Ok _, P') \<Rightarrow> (Ok (), g\<lparr>gn_token := Some token\<rparr>, P', tf')
                | (r, P') \<Rightarrow> (r, g, P', tf')))
      | (_, tf') \<Rightarrow> (Panic, g, P, tf'))"

definition generic_unregister :: "'p poller_ops \<Rightarrow> ('f \<Rightarrow> raw_fd) \<Rightarrow> ('f generic, 'p) unregister_op" where
  "generic_unregister K as_fd g P =
     (case gn_file g of
        None \<Rightarrow> (Panic, g, P)
      | Some file \<Rightarrow>
          (case Poll_unregister K (as_fd file) P of
             (Ok _, P') \<Rightarrow> (Ok (), g\<lparr>gn_poller := False, gn_token := None\<rparr>, P')
           | (r, P') \<Rightarrow> (r, g, P')))"

text \<open>A \<open>Generic\<close> as a source of the loop, with its callback; \<open>box\<close> is \<open>Into<Box<dyn Error>>\<close>.\<close>

definition box_process :: "('e \<Rightarrow> boxed_error) \<Rightarrow> ('e, 'a) outcome \<times> 's \<times> 'w \<Rightarrow> (boxed_error, 'a) outcome \<times> 's \<times> 'w" where
  "box_process box res = (map_err box (fst res), snd res)"

definition generic_ops :: "'p poller_ops \<Rightarrow> ('f \<Rightarrow> raw_fd) \<Rightarrow> ('e \<Rightarrow> boxed_error) \<Rightarrow> ('f, 'e, 'w) generic_callback
    \<Rightarrow> ('f generic, 'p, 'w) source_ops" where
  "generic_ops K as_fd box callback =
     \<lparr>so_process = (\<lambda>g rd token w. box_process box (generic_process callback g rd token w)),
      so_register = generic_register K as_fd, so_reregister = generic_reregister K as_fd,
      so_unregister = generic_unregister K as_fd, so_needs_extra = default_needs_extra,
      so_before_sleep = default_before_sleep, so_before_handle = default_before_handle\<rparr>"

lemmas generic_source_defs [source_defs] = generic_register_def generic_reregister_def generic_unregister_def

section \<open>The registration of a Generic source\<close>

text \<open>
  The calls on one \<open>Generic\<close> and its poll: the registration operations and events with any result, the
  user's changes of the public fields and of the wrapped object, which keep its descriptor, and anything else
  that leaves the descriptor's registration alone (\<open>other_use\<close>), callbacks included: nothing but the source registers or
  deletes its descriptor.
\<close>

definition other_use :: "('p \<Rightarrow> raw_fd \<rightharpoonup> pevent \<times> poll_mode) \<Rightarrow> raw_fd \<Rightarrow> 'p poll \<Rightarrow> 'p poll \<Rightarrow> bool" where
  "other_use regs fd P P' \<longleftrightarrow>
     map_option (ev_key \<circ> fst) (regs (poller P') fd) = map_option (ev_key \<circ> fst) (regs (poller P) fd)"

inductive generic_step :: "'p poller_ops \<Rightarrow> ('p \<Rightarrow> raw_fd \<rightharpoonup> pevent \<times> poll_mode) \<Rightarrow> ('f \<Rightarrow> raw_fd)
    \<Rightarrow> 'f generic \<times> 'p poll \<Rightarrow> 'f generic \<times> 'p poll \<Rightarrow> bool"
  for K regs as_fd where
  gs_register: "generic_register K as_fd g P tf = (r, g', P', tf') \<Longrightarrow> generic_step K regs as_fd (g, P) (g', P')"
| gs_reregister: "generic_reregister K as_fd g P tf = (r, g', P', tf') \<Longrightarrow> generic_step K regs as_fd (g, P) (g', P')"
| gs_unregister: "generic_unregister K as_fd g P = (r, g', P') \<Longrightarrow> generic_step K regs as_fd (g, P) (g', P')"
| gs_process: "generic_process (callback :: ('f, unit, 'p poll) generic_callback) g rd token P = (r, g', P') \<Longrightarrow>
    (\<And>file e file' Q. callback rd file P = (e, file', Q) \<Longrightarrow> as_fd file' = as_fd file \<and> other_use regs (as_fd file) P Q) \<Longrightarrow>
    generic_step K regs as_fd (g, P) (g', P')"
| gs_get_mut: "generic_get_mut f g = (r, g') \<Longrightarrow> (\<And>file. as_fd (f file) = as_fd file) \<Longrightarrow> generic_step K regs as_fd (g, P) (g', P)"
| gs_fields: "generic_step K regs as_fd (g, P) (g\<lparr>gn_interest := i, gn_mode := m\<rparr>, P)"
| gs_other: "(\<And>file. gn_file g = Some file \<Longrightarrow> other_use regs (as_fd file) P P') \<Longrightarrow> generic_step K regs as_fd (g, P) (g, P')"

text \<open>
  The source holds the back-reference exactly while its descriptor is registered, and then under
  the key of the token it compares events with.
\<close>

definition generic_inv :: "('p \<Rightarrow> raw_fd \<rightharpoonup> pevent \<times> poll_mode) \<Rightarrow> ('f \<Rightarrow> raw_fd) \<Rightarrow> raw_fd \<Rightarrow> 'f generic \<times> 'p poll \<Rightarrow> bool" where
  "generic_inv regs as_fd fd = (\<lambda>(g, P).
     map_option as_fd (gn_file g) = Some fd \<and>
     (gn_poller g \<longleftrightarrow> gn_token g \<noteq> None) \<and>
     map_option (ev_key \<circ> fst) (regs (poller P) fd) = map_option usize_of_token (gn_token g))"

lemma track_level_poller [simp]: "poller (track_level m raw ev P) = poller P"
  by (auto simp: track_level_def split: mode.splits option.splits)

lemma Poll_register_table:
  assumes "poller_contract K regs" and "Poll_register K fd i m t P = (r, P')"
  shows "r = Ok () \<and> regs (poller P) fd = None \<and>
      map_option (ev_key \<circ> fst) (regs (poller P') fd) = Some (usize_of_token t)
    \<or> (\<exists>e. r = Err e) \<and> regs (poller P') = regs (poller P)"
  using assms contract_add [OF assms(1), of "poller P" fd]
  by (fastforce simp: Poll_register_def cvt_interest_def Let_def split: prod.splits sum.splits)

lemma Poll_reregister_table:
  assumes "poller_contract K regs" and "Poll_reregister K fd i m t P = (r, P')"
  shows "r = Ok () \<and> regs (poller P) fd \<noteq> None \<and>
      map_option (ev_key \<circ> fst) (regs (poller P') fd) = Some (usize_of_token t)
    \<or> (\<exists>e. r = Err e) \<and> regs (poller P') = regs (poller P)"
  using assms contract_modify [OF assms(1), of "poller P" fd]
  by (fastforce simp: Poll_reregister_def cvt_interest_def Let_def split: prod.splits sum.splits)

lemma Poll_unregister_table:
  assumes "poller_contract K regs" and "Poll_unregister K fd P = (r, P')"
  shows "r = Ok () \<and> regs (poller P) fd \<noteq> None \<and> regs (poller P') = (regs (poller P))(fd := None)
    \<or> (\<exists>e. r = Err e) \<and> regs (poller P') = regs (poller P)"
  using assms contract_delete [OF assms(1), of "poller P" fd]
  by (fastforce simp: Poll_unregister_def split: prod.splits sum.splits)

lemma generic_step_inv:
  assumes K: "poller_contract K regs" and "generic_step K regs as_fd c c'" and inv: "generic_inv regs as_fd fd c"
  shows "generic_inv regs as_fd fd c'"
  using assms(2)
proof cases
  case (gs_register g P tf r g' P' tf')
  obtain u P1 where u: "Poll_register K fd (gn_interest g) (gn_mode g) (next_token tf) P = (u, P1)" by force
  show ?thesis
    using gs_register inv u Poll_register_table [OF K u]
    by (auto simp: generic_register_def generic_inv_def factory_token_eq split: if_splits)
next
  case (gs_reregister g P tf r g' P' tf')
  obtain u P1 where u: "Poll_reregister K fd (gn_interest g) (gn_mode g) (next_token tf) P = (u, P1)" by force
  show ?thesis
    using gs_reregister inv u Poll_reregister_table [OF K u]
    by (auto simp: generic_reregister_def generic_inv_def factory_token_eq split: if_splits)
next
  case (gs_unregister g P r g' P')
  obtain u P1 where u: "Poll_unregister K fd P = (u, P1)" by force
  show ?thesis
    using gs_unregister inv u Poll_unregister_table [OF K u]
    by (auto simp: generic_unregister_def generic_inv_def)
next
  case (gs_process callback g rd token P r g' P')
  with inv show ?thesis
    by (fastforce simp: generic_process_def generic_inv_def other_use_def split: if_splits prod.splits)
qed (use inv in \<open>auto simp: generic_inv_def other_use_def generic_get_mut_def\<close>)

text \<open>
  C29: for a new \<open>Generic\<close> whose descriptor is not registered, and as long as nobody else registers or
  deletes that descriptor: after whatever sequence of registrations, re-registrations, unregistrations and events, with whatever
  results, and of changes of its fields, it keeps the back-reference to the poller exactly while its
  descriptor is registered there, and the token it accepts events for is the one whose key the poller holds: it
  runs its callback for no event whose key is another. When it is dropped or unwrapped then, it deletes the descriptor if it is registered and leaves the
  poller alone otherwise, so that afterwards nothing is registered if that deletion works.
\<close>

theorem generic_backref_iff_registered:
  assumes "poller_contract K regs" and "regs (poller P0) fd = None" and "as_fd file = fd"
    and "(generic_step K regs as_fd)\<^sup>*\<^sup>* (Generic_new file i m, P0) (g, P)"
    and p': "p' = (if regs (poller P) fd = None then poller P else snd (pl_delete K (poller P) fd))"
  shows "(gn_poller g \<longleftrightarrow> regs (poller P) fd \<noteq> None) \<and>
    map_option (ev_key \<circ> fst) (regs (poller P) fd) = map_option usize_of_token (gn_token g) \<and>
    (\<forall>callback rd token w. map_option (ev_key \<circ> fst) (regs (poller P) fd) \<noteq> Some (usize_of_token token) \<longrightarrow>
      generic_process callback g rd token w = (Ok Continue, g, w)) \<and>
    generic_drop K as_fd g (poller P) = p' \<and> (\<exists>file'. generic_unwrap K as_fd g (poller P) = (Ok file', p') \<and> as_fd file' = fd) \<and>
    (fst (pl_delete K (poller P) fd) = Inr () \<longrightarrow> regs p' fd = None)"
proof -
  have "generic_inv regs as_fd fd (Generic_new file i m, P0)"
    using assms(2,3) by (simp add: generic_inv_def Generic_new_def)
  from assms(4) this have "generic_inv regs as_fd fd (g, P)"
    by (induction rule: rtranclp_induct) (auto intro: generic_step_inv [OF assms(1)])
  then obtain file' where inv: "gn_file g = Some file'" "as_fd file' = fd" "gn_poller g \<longleftrightarrow> gn_token g \<noteq> None"
    "map_option (ev_key \<circ> fst) (regs (poller P) fd) = map_option usize_of_token (gn_token g)"
    by (auto simp: generic_inv_def)
  have "regs p' fd = None" if "fst (pl_delete K (poller P) fd) = Inr ()"
    using that contract_delete(1) [OF assms(1), of "poller P" fd "()" "snd (pl_delete K (poller P) fd)"]
    by (cases "pl_delete K (poller P) fd") (simp add: p')
  with inv show ?thesis
    by (auto simp: p' generic_process_def generic_drop_def generic_unwrap_def)
qed

theorem generic_backref_iff_registered_witness:
  "\<exists>g :: nat generic. \<exists>P :: script_poller poll. gn_poller g \<and> gn_token g = Some \<lparr>tok_id = 4, tok_version = 0, tok_sub_id = 0\<rparr> \<and>
     map_option (ev_key \<circ> fst) (sp_table (poller P) 7) = Some (usize_of_token \<lparr>tok_id = 4, tok_version = 0, tok_sub_id = 0\<rparr>)"
proof -
  let ?t = "\<lparr>tok_id = 4, tok_version = 0, tok_sub_id = 0\<rparr> :: token_inner"
  let ?P = "\<lparr>poller = \<lparr>sp_regs = [], sp_now = 0, sp_level = True, sp_script = []\<rparr>, level_triggered = None,
    timers = TimerWheel_new\<rparr>"
  let ?g = "Generic_new 7 Interest_READ Level :: nat generic"
  obtain g P tf where run: "generic_register SP (\<lambda>f. f) ?g ?P (TokenFactory_new ?t) = (Ok (), g, P, tf)"
    and g: "gn_token g = Some ?t" "gn_poller g"
    by (simp add: source_defs poll_defs SP_def Generic_new_def forget_sub_id_def Let_def)
  then have "(generic_step SP sp_table (\<lambda>f. f))\<^sup>*\<^sup>* (?g, ?P) (g, P)" using generic_step.gs_register by blast
  note inv = generic_backref_iff_registered [where fd = 7, OF SP_contract _ refl this refl]
  have "sp_table (poller ?P) 7 = None" by (simp add: sp_table_def)
  from inv [OF this] g show ?thesis by (intro exI [of _ g] exI [of _ P]) auto
qed

text \<open>
  A \<open>Generic\<close> dropped while registered in level mode deletes its descriptor from the poller
  but not from the map that emulates level-triggering, which keeps an entry for a descriptor
  that is no longer registered.
\<close>

theorem generic_drop_leaves_level_entry:
  assumes "poller_contract K regs" and "gn_file g = Some file" and "gn_mode g = Level"
    and "level_triggered P = Some lt"
    and "generic_register K as_fd g P tf = (Ok (), g', P', tf')"
    and "pl_delete K (poller P') (as_fd file) = (Inr (), p)"
  shows "generic_drop K as_fd g' (poller P') = p \<and> \<not> level_inv regs (P'\<lparr>poller := p\<rparr>)"
proof -
  obtain u P1 where u: "Poll_register K (as_fd file) (gn_interest g) Level (next_token tf) P = (u, P1)" by force
  with assms(2,3,5) have g': "u = Ok ()" "P' = P1" "gn_file g' = Some file" "gn_poller g'"
    by (auto simp: generic_register_def factory_token_eq split: if_splits outcome.splits)
  from u g' assms(4) have "\<exists>lt'. level_triggered P' = Some lt' \<and>
      lt' (usize_of_token (next_token tf)) = Some (as_fd file, cvt_interest (gn_interest g) (next_token tf))"
    by (auto simp: Poll_register_def track_level_def cvt_interest_def Let_def split: prod.splits sum.splits)
  moreover have "regs p (as_fd file) = None" using contract_delete(1) [OF assms(1,6)] by simp
  ultimately show ?thesis
    using g'(3,4) assms(6) by (auto simp: generic_drop_def level_inv_def)
qed

theorem generic_drop_leaves_level_entry_witness:
  "\<exists>g :: nat generic. \<exists>P :: script_poller poll. \<not> level_inv sp_table (P\<lparr>poller := generic_drop SP (\<lambda>f. f) g (poller P)\<rparr>)"
proof -
  let ?t = "\<lparr>tok_id = 4, tok_version = 0, tok_sub_id = 0\<rparr> :: token_inner"
  let ?P = "\<lparr>poller = \<lparr>sp_regs = [], sp_now = 0, sp_level = False, sp_script = []\<rparr>, level_triggered = Some Map.empty,
    timers = TimerWheel_new\<rparr>"
  let ?g = "Generic_new 7 Interest_READ Level :: nat generic"
  obtain g P tf where run: "generic_register SP (\<lambda>f. f) ?g ?P (TokenFactory_new ?t) = (Ok (), g, P, tf)"
    and p: "pl_delete SP (poller P) 7 = (Inr (), snd (pl_delete SP (poller P) 7))"
    by (simp add: source_defs poll_defs SP_def Generic_new_def forget_sub_id_def Let_def)
  from generic_drop_leaves_level_entry [OF SP_contract _ _ _ run p] show ?thesis
    by (intro exI [of _ g] exI [of _ P]) (simp add: Generic_new_def)
qed

end
