(* ===== verification/Loop_Instance.thy ===== *)
theory Loop_Instance
  imports Timer_Source Generic_Source
begin

text \<open>
  A loop that holds sources of different types, and the interpretation of the loop's contract on
  the timer and the generic source of the code.

  The table of the loop holds \<open>dyn EventDispatcher\<close> objects; \<open>sum_ops\<close> is the virtual call on one
  of two types, and nested sums give any number of them. The user's callbacks are scripts of API
  calls, chosen by the event.
\<close>

definition sum_result :: "('a \<Rightarrow> 's) \<Rightarrow> 'r \<times> 'a \<times> 'x \<Rightarrow> 'r \<times> 's \<times> 'x" where
  "sum_result wrap r = (case r of (a, s, x) \<Rightarrow> (a, wrap s, x))"

definition sum_ops :: "('a, 'p, 'w) source_ops \<Rightarrow> ('b, 'p, 'w) source_ops \<Rightarrow> ('a + 'b, 'p, 'w) source_ops" where
  "sum_ops A B =
     \<lparr>so_process = (\<lambda>s rd t w. case s of Inl a \<Rightarrow> sum_result Inl (so_process A a rd t w)
        | Inr b \<Rightarrow> sum_result Inr (so_process B b rd t w)),
      so_register = (\<lambda>s P tf. case s of Inl a \<Rightarrow> sum_result Inl (so_register A a P tf)
        | Inr b \<Rightarrow> sum_result Inr (so_register B b P tf)),
      so_reregister = (\<lambda>s P tf. case s of Inl a \<Rightarrow> sum_result Inl (so_reregister A a P tf)
        | Inr b \<Rightarrow> sum_result Inr (so_reregister B b P tf)),
      so_unregister = (\<lambda>s P. case s of Inl a \<Rightarrow> sum_result Inl (so_unregister A a P)
        | Inr b \<Rightarrow> sum_result Inr (so_unregister B b P)),
      so_needs_extra = (\<lambda>s. case s of Inl a \<Rightarrow> so_needs_extra A a | Inr b \<Rightarrow> so_needs_extra B b),
      so_before_sleep = (\<lambda>s w. case s of Inl a \<Rightarrow> sum_result Inl (so_before_sleep A a w)
        | Inr b \<Rightarrow> sum_result Inr (so_before_sleep B b w)),
      so_before_handle = (\<lambda>s evs w. case s of Inl a \<Rightarrow> map_prod Inl id (so_before_handle A a evs w)
        | Inr b \<Rightarrow> map_prod Inr id (so_before_handle B b evs w))\<rparr>"

section \<open>Calls depend on the registration operations only\<close>

definition same_registration :: "('s, 'p, 'w) source_ops \<Rightarrow> ('s, 'p, 'w) source_ops \<Rightarrow> bool" where
  "same_registration ops ops' \<longleftrightarrow>
     so_register ops = so_register ops' \<and> so_reregister ops = so_reregister ops' \<and>
     so_unregister ops = so_unregister ops' \<and> so_needs_extra ops = so_needs_extra ops'"

lemma same_registration_intros:
  "same_registration A A' \<Longrightarrow> same_registration B B' \<Longrightarrow> same_registration (sum_ops A B) (sum_ops A' B')"
  "same_registration (timer_ops K cb) (timer_ops K cb')"
  "same_registration (generic_ops K as_fd box gcb) (generic_ops K as_fd box' gcb')"
  by (auto simp: same_registration_def sum_ops_def timer_ops_def generic_ops_def intro!: ext split: sum.split)

lemma disp_ops_cong:
  assumes "same_registration ops ops'"
  shows "disp_register ops = disp_register ops'" "disp_reregister ops = disp_reregister ops'"
    "disp_unregister K ops = disp_unregister K ops'"
proof -
  have eqs: "so_register ops = so_register ops'" "so_reregister ops = so_reregister ops'"
    "so_unregister ops = so_unregister ops'"
    using assms by (simp_all add: same_registration_def)
  show "disp_register ops = disp_register ops'" "disp_reregister ops = disp_reregister ops'"
    "disp_unregister K ops = disp_unregister K ops'"
    by (intro ext; simp only: disp_register_def disp_reregister_def disp_unregister_def eqs)+
qed

lemma loop_ops_cong:
  fixes ops ops' :: "('s, 'i, 'p, 'd) loop_ops"
  assumes "same_registration ops ops'"
  shows "register_dispatcher ops = register_dispatcher ops'" "insert_source ops = insert_source ops'"
    "handle_enable ops = handle_enable ops'" "handle_update ops = handle_update ops'"
    "handle_disable K ops = handle_disable K ops'" "handle_remove K ops = handle_remove K ops'"
    "Dispatcher_new ops = Dispatcher_new ops'"
proof -
  have l: "loop_register ops = loop_register ops'" "loop_reregister ops = loop_reregister ops'"
    "loop_unregister K ops = loop_unregister K ops'"
    by (intro ext; simp only: loop_register_def loop_reregister_def loop_unregister_def disp_ops_cong [OF assms])+
  have e: "so_needs_extra ops = so_needs_extra ops'" using assms by (simp add: same_registration_def)
  show n: "Dispatcher_new ops = Dispatcher_new ops'"
    by (intro ext; simp only: Dispatcher_new_def e)
  show r: "register_dispatcher ops = register_dispatcher ops'"
    by (intro ext; simp only: register_dispatcher_def l)
  show "insert_source ops = insert_source ops'" "handle_enable ops = handle_enable ops'"
    "handle_update ops = handle_update ops'" "handle_disable K ops = handle_disable K ops'"
    "handle_remove K ops = handle_remove K ops'"
    by (intro ext; simp only: insert_source_def handle_enable_def handle_update_def handle_disable_def
        handle_remove_def n r l)+
qed

lemma exec_call_cong: "same_registration ops ops' \<Longrightarrow> exec_call K ops c L = exec_call K ops' c L"
  by (cases c) (simp_all add: loop_ops_cong [of ops ops'])

lemma api_step_cong:
  assumes "same_registration ops ops'"
  shows "api_step K ops D = api_step K ops' D"
  using exec_call_cong [OF assms] by (auto simp: fun_eq_iff elim!: api_stepE intro: api_step.call)

section \<open>Scripts\<close>

text \<open>A script runs the calls that are allowed, valid and return; the others it leaves out.\<close>

definition run_call :: "'p poller_ops \<Rightarrow> ('s, 'i, 'p, 'd) loop_ops
    \<Rightarrow> (('s, 'i, 'p, 'd) api_call \<Rightarrow> ('s, 'i, 'p, 'd) loop_state \<Rightarrow> bool)
    \<Rightarrow> ('s, 'i, 'p, 'd) api_call \<Rightarrow> ('s, 'i, 'p, 'd) loop_state \<Rightarrow> ('s, 'i, 'p, 'd) loop_state" where
  "run_call K ops D c L =
     (if D c L \<and> valid_call c L \<and> returns (fst (exec_call K ops c L)) then snd (exec_call K ops c L) else L)"

definition run_script :: "'p poller_ops \<Rightarrow> ('s, 'i, 'p, 'd) loop_ops
    \<Rightarrow> (('s, 'i, 'p, 'd) api_call \<Rightarrow> ('s, 'i, 'p, 'd) loop_state \<Rightarrow> bool)
    \<Rightarrow> ('s, 'i, 'p, 'd) api_call list \<Rightarrow> ('s, 'i, 'p, 'd) loop_state \<Rightarrow> ('s, 'i, 'p, 'd) loop_state" where
  "run_script K ops D cs L = fold (run_call K ops D) cs L"

lemma run_call_steps: "(api_step K ops D)\<^sup>*\<^sup>* L (run_call K ops D c L)"
  by (auto simp: run_call_def intro!: r_into_rtranclp api_step.call [of D c L K ops "fst (exec_call K ops c L)"])

lemma run_script_steps: "(api_step K ops D)\<^sup>*\<^sup>* L (run_script K ops D cs L)"
proof (induction cs arbitrary: L)
  case Nil
  then show ?case by (simp add: run_script_def)
next
  case (Cons c cs)
  from Cons [of "run_call K ops D c L"] run_call_steps [of K ops D L c] show ?case
    by (simp add: run_script_def)
qed

section \<open>A loop of timers and generic sources\<close>

type_synonym app_source = "timer + raw_fd generic"

type_synonym ('p, 'd) app_state = "(app_source, nat, 'p, 'd) loop_state"
type_synonym ('p, 'd) app_call = "(app_source, nat, 'p, 'd) api_call"

text \<open>The registration operations, with callbacks that do nothing.\<close>

definition app_base :: "'p poller_ops \<Rightarrow> (app_source, nat, 'p, 'd) loop_ops" where
  "app_base K = sum_ops (timer_ops K (\<lambda>_ L. (TDrop, L))) (generic_ops K (\<lambda>fd. fd) BIo (\<lambda>_ fd L. (Ok Continue, fd, L)))"

text \<open>
  The user's program: for the deadline of a timer, what to do with it and a script; for the
  readiness of a descriptor, the post action, or an error, and a script; for an idle callback, a
  script.
\<close>

definition app_ops :: "'p poller_ops \<Rightarrow> (instant \<Rightarrow> timeout_action \<times> ('p, 'd) app_call list)
    \<Rightarrow> (readiness \<Rightarrow> raw_fd \<Rightarrow> (io_error + post_action) \<times> ('p, 'd) app_call list) \<Rightarrow> (app_source, nat, 'p, 'd) loop_ops" where
  "app_ops K on_timer on_ready =
     sum_ops
       (timer_ops K (\<lambda>d L. (fst (on_timer d), run_script K (app_base K) any_call (snd (on_timer d)) L)))
       (generic_ops K (\<lambda>fd. fd) BIo (\<lambda>rd fd L.
          (case fst (on_ready rd fd) of Inl e \<Rightarrow> Err e | Inr a \<Rightarrow> Ok a, fd,
           run_script K (app_base K) any_call (snd (on_ready rd fd)) L)))"

definition app_idle :: "'p poller_ops \<Rightarrow> (nat \<Rightarrow> ('p, 'd) app_call list) \<Rightarrow> nat \<Rightarrow> ('p, 'd) app_state \<Rightarrow> ('p, 'd) app_state" where
  "app_idle K on_idle i L = run_script K (app_base K) any_call (on_idle i) L"

lemma app_same_registration: "same_registration (app_ops K on_timer on_ready) (app_base K)"
  unfolding app_ops_def app_base_def by (intro same_registration_intros)

lemma with_timers_step: "(\<And>w L. D (CallTimers w) L) \<Longrightarrow> (api_step K ops D)\<^sup>*\<^sup>* L (with_timers f L)"
  by (intro r_into_rtranclp api_step.call [of D "CallTimers (f (timers (lp_poll L)))" L K ops "Ok ()"])
    (simp_all add: valid_call_def with_timers_def)

lemma timer_process_steps:
  assumes "\<And>d L. (api_step K ops D)\<^sup>*\<^sup>* L (snd (cb d L))" and "\<And>w L. D (CallTimers w) L"
    and "timer_process K cb tm rd t L = (r, tm', L')"
  shows "(api_step K ops D)\<^sup>*\<^sup>* L L'"
proof (cases "\<exists>reg d. tm_registration tm = Some reg \<and> tm_deadline tm = Some d \<and> rg_token reg = t")
  case False
  with assms(3) show ?thesis by (auto simp: timer_process_def split: option.splits if_splits)
next
  case True
  then obtain reg d where reg: "tm_registration tm = Some reg" "tm_deadline tm = Some d" "rg_token reg = t" by blast
  obtain a L1 where cb: "cb d L = (a, L1)" by force
  with assms(1) [of L d] have "(api_step K ops D)\<^sup>*\<^sup>* L L1" by simp
  moreover have "L' = L1 \<or> (\<exists>f. L' = with_timers f L1)"
    using assms(3) reg cb by (auto simp: timer_process_def timer_rearm_def split: timeout_action.splits option.splits)
  ultimately show ?thesis using with_timers_step [of D, OF assms(2)] rtranclp_trans by metis
qed

interpretation app: callback_contract K "app_ops K on_timer on_ready" "app_idle K on_idle"
  for K :: "'p poller_ops" and on_timer on_ready and on_idle :: "nat \<Rightarrow> ('p, 'd) app_call list"
proof (unfold_locales, goal_cases)
  case (1 s rd t L r s' L')
  show ?case
  proof (cases s)
    case (Inl tm)
    then obtain tm' where "timer_process K (\<lambda>d L. (fst (on_timer d), run_script K (app_base K) any_call (snd (on_timer d)) L))
        tm rd t L = (r, tm', L')"
      using 1 by (auto simp: app_ops_def sum_ops_def sum_result_def timer_ops_def split: prod.splits)
    then show ?thesis
      unfolding api_step_cong [OF app_same_registration]
      by (rule timer_process_steps [rotated 2]) (simp_all add: run_script_steps any_call_def)
  next
    case (Inr g)
    have "L' = L \<or> (\<exists>cs. L' = run_script K (app_base K) any_call cs L)"
      using 1(1) by (auto simp: Inr app_ops_def sum_ops_def sum_result_def generic_ops_def box_process_def
          generic_process_def split: prod.splits if_splits option.splits)
    then show ?thesis
      unfolding api_step_cong [OF app_same_registration] using run_script_steps by blast
  qed
next
  case (2 s L q s' L')
  then show ?case
    by (cases s) (auto simp: app_ops_def sum_ops_def sum_result_def timer_ops_def generic_ops_def default_before_sleep_def)
next
  case (3 s evs L s' L')
  then show ?case
    by (cases s) (auto simp: app_ops_def sum_ops_def timer_ops_def generic_ops_def default_before_handle_def)
next
  case (4 L f)
  show ?case
    unfolding api_step_cong [OF app_same_registration] app_idle_def by (rule run_script_steps)
qed

end
