(* ===== verification/Loop_Laws.thy ===== *)
theory Loop_Laws
  imports Loop_Instance
begin

text \<open>
  What the event loop guarantees, over the model of \<open>src/src/loop_logic.rs\<close>: removed sources stay
  silent, post actions and the requests a callback makes about its own source are carried out
  after it, interrupted waits end, and idle callbacks run once.
\<close>

section \<open>A demonstration source for the witnesses\<close>

text \<open>
  A source that is a number; its callback is \<open>f\<close>, its registration never fails, and it wants the
  lifecycle calls from 100 on.
\<close>

type_synonym demo_state = "(nat, nat, script_poller, nat list) loop_state"

definition demo_ops :: "(nat \<Rightarrow> demo_state \<Rightarrow> (boxed_error, post_action) outcome \<times> demo_state)
    \<Rightarrow> (nat, nat, script_poller, nat list) loop_ops" where
  "demo_ops f =
     \<lparr>so_process = (\<lambda>s rd t L. case f s L of (r, L') \<Rightarrow> (r, s, L')),
      so_register = (\<lambda>s P tf. (if s = 200 then Err (IoError AlreadyExists) else Ok (), s, P, tf)),
      so_reregister = (\<lambda>s P tf. (Ok (), s, P, tf)),
      so_unregister = (\<lambda>s P. (Ok (), s, P)), so_needs_extra = (\<lambda>s. 100 \<le> s),
      so_before_sleep = default_before_sleep, so_before_handle = default_before_handle\<rparr>"

definition demo_poll :: "(duration \<times> (io_error + pevent list)) list \<Rightarrow> script_poller poll" where
  "demo_poll script =
     \<lparr>poller = \<lparr>sp_regs = [], sp_now = 0, sp_level = True, sp_script = script\<rparr>, level_triggered = None,
      timers = TimerWheel_new\<rparr>"

text \<open>A loop with the given dispatchers in slots 0, 1, ...\<close>

definition demo_slot :: "nat \<Rightarrow> nat source_entry" where
  "demo_slot i = \<lparr>se_token = \<lparr>tok_id = of_nat i, tok_version = 0, tok_sub_id = 0\<rparr>, se_source = Some i\<rparr>"

definition demo_loop :: "nat cell list \<Rightarrow> demo_state" where
  "demo_loop cells =
     \<lparr>lp_poll = demo_poll [], lp_sources = map demo_slot [0..<length cells], lp_cells = cells, lp_lifecycle = [],
      lp_idles = [], lp_idle_cells = [], lp_pending = Continue, lp_stop = False, lp_future_ready = False,
      lp_synthetic = [], lp_woken = [], lp_data = []\<rparr>"

definition demo_cell :: "nat \<Rightarrow> nat cell" where
  "demo_cell s = \<lparr>cell_val = SourceDisp \<lparr>di_source = s, di_needs = (100 \<le> s)\<rparr>, cell_borrowed = False\<rparr>"

definition demo_token :: "nat \<Rightarrow> token_inner" where
  "demo_token i = \<lparr>tok_id = of_nat i, tok_version = 0, tok_sub_id = 0\<rparr>"

definition demo_event :: "nat \<Rightarrow> poll_event" where
  "demo_event i = \<lparr>pe_readiness = Readiness_EMPTY, pe_token = demo_token i\<rparr>"

lemmas demo_defs = demo_ops_def demo_poll_def demo_slot_def demo_loop_def demo_cell_def demo_token_def demo_event_def

lemma demo_token_forget [simp]: "forget_sub_id (demo_token i) = demo_token i"
  by (simp add: demo_token_def forget_sub_id_def)

section \<open>Removed sources stay silent\<close>

lemma dead_after_claim:
  assumes "get_id t < length sl" and "same_source_as (se_token (sl ! get_id t)) t" and "se_source (sl ! get_id t) = None"
    and "vacant_entry sl = (Ok i, sl')"
  shows "sl_lookup (set_source i src sl') t = None"
proof (cases "i = get_id t")
  case True
  with assms(1,3,4) have sl': "sl' = sl[i := (sl ! i)\<lparr>se_token := increment_version 64 (se_token (sl ! i))\<rparr>]"
    by (auto simp: vacant_entry_def split: option.splits outcome.splits)
  have "\<not> same_source_as (increment_version 64 (se_token (sl ! i))) t"
    using assms(2) True increment_version_not_same same_source_trans same_source_sym by metis
  with True assms(1) sl' show ?thesis
    by (simp add: sl_lookup_def sl_get_def vec_get_def set_source_def)
next
  case False
  with assms have "se_source (sl' ! get_id t) = None"
    using position_SomeD [of "\<lambda>slot. se_source slot = None" sl]
    by (auto simp: vacant_entry_def nth_append split: option.splits outcome.splits)
  with False show ?thesis
    by (auto simp: sl_lookup_def sl_get_def vec_get_def set_source_def split: if_splits)
qed

lemma log_error_snd [simp]: "snd (log_error r) = snd r"
  by (cases r; cases "fst r") (auto simp: log_error_def)

lemma handle_remove_lookup:
  "sl_lookup (lp_sources (snd (handle_remove K ops t L))) t = None"
  "sl_lookup (lp_sources L) t = Some d \<Longrightarrow>
     lp_sources (snd (handle_remove K ops t L)) = set_source (get_id t) None (lp_sources L)"
proof -
  show "sl_lookup (lp_sources (snd (handle_remove K ops t L))) t = None"
    by (auto simp: handle_remove_def sl_get_mut_def sl_lookup_def sl_get_def vec_get_def source_set_source
        split: outcome.splits option.splits if_splits)
  show "sl_lookup (lp_sources L) t = Some d \<Longrightarrow>
     lp_sources (snd (handle_remove K ops t L)) = set_source (get_id t) None (lp_sources L)"
    by (auto simp: handle_remove_def sl_get_mut_def sl_lookup_iff vec_get_def split: option.splits)
qed

lemma dispatch_dead_token:
  "sl_lookup (lp_sources L) (pe_token ev) = None \<Longrightarrow> dispatch_event K ops ev L = (Ok (), L)"
  by (simp add: dispatch_event_def)

lemma handle_dead_token:
  assumes "sl_lookup (lp_sources L) t = None"
  shows "fst (handle_enable ops t L) = Err InvalidToken" "fst (handle_update ops t L) = Err InvalidToken"
    "fst (handle_disable K ops t L) = Err InvalidToken"
  using assms sl_get_Err [of "lp_sources L" t] sl_get_no_panic(1,2) [of "lp_sources L" t]
  by (auto simp: handle_enable_def handle_update_def handle_disable_def sl_lookup_def split: outcome.splits)

lemma insert_source_slots:
  assumes "insert_source ops s L = (r, L')"
  shows "(\<exists>i sl src. vacant_entry (lp_sources L) = (Ok i, sl) \<and> lp_sources L' = set_source i src sl)
    \<or> lp_sources L' = lp_sources L"
proof -
  let ?L = "snd (Dispatcher_new ops s L)"
  obtain v sl where v: "vacant_entry (lp_sources L) = (v, sl)" by force
  have L': "L' = snd (register_dispatcher ops (length (lp_cells L)) ?L)"
    using arg_cong [OF assms, of snd] by (simp add: insert_source_snd Dispatcher_new_def)
  have src: "lp_sources ?L = lp_sources L" by (simp add: Dispatcher_new_def)
  show ?thesis
  proof (cases "\<exists>i. v = Ok i")
    case False
    with v vacant_entry_grows [OF v] have "sl = lp_sources L"
      by (auto simp: vacant_entry_def split: option.splits outcome.splits)
    with False v show ?thesis by (cases v) (auto simp: L' register_dispatcher_def src)
  next
    case True
    then obtain i where i: "v = Ok i" by blast
    let ?M = "?L\<lparr>lp_sources := set_source i (Some (length (lp_cells L))) sl\<rparr>"
    obtain q N where q: "loop_register ops (length (lp_cells L)) (TokenFactory_new (se_token (set_source i (Some (length (lp_cells L))) sl ! i))) ?M = (q, N)"
      by force
    then have N: "lp_sources N = set_source i (Some (length (lp_cells L))) sl"
      using loop_register_frame(2) by (metis loop_state.simps(2) loop_state.surjective loop_state.update_convs(2) snd_conv loop_state.select_convs(2))
    have "set_source i None (set_source i x sl) = set_source i None sl" for x :: "nat option"
      by (cases "i < length sl") (simp_all add: set_source_def list_update_beyond)
    with v i q N show ?thesis by (cases q) (auto simp: L' register_dispatcher_def src Let_def)
  qed
qed

text \<open>
  C1: after \<open>remove(token)\<close>, and also after another source has been inserted, possibly into the
  very slot that was freed, the token is dead: events for it, with any sub-id, are dropped
  without touching the loop, and enabling, updating or disabling it is an \<open>InvalidToken\<close> error.
\<close>

theorem removed_source_stays_silent:
  assumes "sl_lookup (lp_sources L) t = Some did" and "handle_remove K ops t L = (r, L1)"
    and "insert_source ops s L1 = (r2, L2)" and "same_source_as (pe_token ev) t"
  shows "dispatch_event K ops ev L1 = (Ok (), L1) \<and> dispatch_event K ops ev L2 = (Ok (), L2) \<and>
    fst (handle_enable ops t L2) = Err InvalidToken \<and> fst (handle_update ops t L2) = Err InvalidToken \<and>
    fst (handle_disable K ops t L2) = Err InvalidToken"
proof -
  have L1: "L1 = snd (handle_remove K ops t L)" using assms(2) by simp
  have dead1: "sl_lookup (lp_sources L1) t = None" unfolding L1 by (rule handle_remove_lookup(1))
  have src1: "lp_sources L1 = set_source (get_id t) None (lp_sources L)"
    unfolding L1 by (rule handle_remove_lookup(2) [OF assms(1)])
  have slot: "get_id t < length (lp_sources L1)" "same_source_as (se_token (lp_sources L1 ! get_id t)) t"
    "se_source (lp_sources L1 ! get_id t) = None"
    using assms(1) by (simp_all add: src1 sl_lookup_iff source_set_source)
  have dead2: "sl_lookup (lp_sources L2) t = None"
    using insert_source_slots [OF assms(3)] dead1 dead_after_claim [OF slot] by auto
  have "sl_lookup (lp_sources L1) (pe_token ev) = None" "sl_lookup (lp_sources L2) (pe_token ev) = None"
    using dead1 dead2 sl_lookup_same [OF assms(4)] by metis+
  with handle_dead_token [OF dead2] show ?thesis by (simp add: dispatch_dead_token)
qed

theorem removed_source_stays_silent_witness:
  "\<exists>r L1 r2 L2. handle_remove SP (demo_ops (\<lambda>_ L. (Ok Continue, L))) (demo_token 0) (demo_loop [demo_cell 1]) = (r, L1) \<and>
     insert_source (demo_ops (\<lambda>_ L. (Ok Continue, L))) 2 L1 = (r2, L2) \<and> length (lp_sources L2) = 1 \<and>
     dispatch_event SP (demo_ops (\<lambda>_ L. (Ok Continue, L))) (demo_event 0) L2 = (Ok (), L2)"
proof -
  let ?ops = "demo_ops (\<lambda>_ L. (Ok Continue, L))"
  obtain r L1 where 1: "handle_remove SP ?ops (demo_token 0) (demo_loop [demo_cell 1]) = (r, L1)" by force
  obtain r2 L2 where 2: "insert_source ?ops 2 L1 = (r2, L2)" by force
  have look: "sl_lookup (lp_sources (demo_loop [demo_cell 1])) (demo_token 0) = Some 0"
    by (simp add: demo_defs sl_lookup_iff get_id_def same_source_as_def)
  have len: "length (lp_sources L2) = 1"
    using 1 2 by (auto simp: demo_defs handle_remove_def sl_get_mut_def vec_get_def get_id_def same_source_as_def
        loop_unregister_def disp_unregister_def store_disp_def log_error_def set_source_def insert_source_def
        Dispatcher_new_def register_dispatcher_def vacant_entry_def loop_register_def disp_register_def Let_def)
  have "same_source_as (pe_token (demo_event 0)) (demo_token 0)" by (simp add: demo_event_def)
  from removed_source_stays_silent [OF look 1 2 this] 1 2 len show ?thesis by blast
qed

section \<open>Post actions\<close>

lemma loop_unregister_sources: "loop_unregister K ops did reg L = (r, L') \<Longrightarrow> lp_sources L' = lp_sources L"
  using loop_register_frame(6) [of K ops did reg L] by simp

lemma log_error_eq: "returns (fst r) \<Longrightarrow> log_error r = (Ok (), snd r)"
  by (cases r; cases "fst r") (auto simp: log_error_def)

text \<open>
  C10: when the callback of a source asks for its removal, the loop empties the slot and then
  unregisters the source, exactly once and also if the callback had already removed it through a
  handle; the dispatch goes on whether or not the unregistration succeeds, and the token no longer
  names a source.
\<close>

theorem remove_action_unregisters_once:
  assumes "sl_lookup (lp_sources L) (pe_token ev) = Some did"
    and "disp_process ops did (pe_readiness ev) (pe_token ev) L = (Ok Remove, L1)"
    and "reg = forget_sub_id (pe_token ev)"
    and "loop_unregister K ops did reg (L1\<lparr>lp_pending := Continue, lp_sources := sl_release reg (lp_sources L1)\<rparr>) = (q, L2)"
    and "returns q" and "slots_wf (lp_sources L1)"
  shows "dispatch_event K ops ev L = (Ok (), L2) \<and> sl_lookup (lp_sources L2) (pe_token ev) = None"
proof -
  have dead: "sl_lookup (sl_release reg (lp_sources L1)) reg = None"
    by (rule slots.release_none [OF assms(6)])
  have look: "sl_lookup (lp_sources L) reg = Some did" using assms(1) by (simp add: assms(3))
  have "lp_sources L2 = sl_release reg (lp_sources L1)"
    using loop_unregister_sources [OF assms(4)] by simp
  with dead have "sl_lookup (lp_sources L2) (pe_token ev) = None"
    unfolding assms(3) by simp
  moreover have "dispatch_event K ops ev L = (Ok (), L2)"
    using assms(1,2,4,5) look dead log_error_eq [of "(q, L2)"]
    by (simp add: dispatch_event_def take_pending_def apply_post_action_def unregister_if_removed_def Let_def
        flip: assms(3))
  ultimately show ?thesis by blast
qed

theorem remove_action_unregisters_once_witness:
  "\<exists>L2. dispatch_event SP (demo_ops (\<lambda>_ L. (Ok Remove, L))) (demo_event 0) (demo_loop [demo_cell 1]) = (Ok (), L2) \<and>
     sl_lookup (lp_sources L2) (demo_token 0) = None"
proof -
  let ?ops = "demo_ops (\<lambda>_ L. (Ok Remove, L))"
  let ?L = "demo_loop [demo_cell 1]"
  obtain L1 where p: "disp_process ?ops 0 (pe_readiness (demo_event 0)) (pe_token (demo_event 0)) ?L = (Ok Remove, L1)"
    and wf: "slots_wf (lp_sources L1)" and c: "lp_cells L1 = [demo_cell 1]"
    by (auto simp: demo_defs disp_process_def set_cell_def Let_def slots_wf_def get_id_def)
  obtain q L2 where u: "loop_unregister SP ?ops 0 (demo_token 0)
      (L1\<lparr>lp_pending := Continue, lp_sources := sl_release (demo_token 0) (lp_sources L1)\<rparr>) = (q, L2)" "returns q"
    using c by (auto simp: loop_unregister_def disp_unregister_def store_disp_def demo_cell_def demo_ops_def Let_def)
  have look: "sl_lookup (lp_sources ?L) (pe_token (demo_event 0)) = Some 0"
    by (simp add: demo_defs sl_lookup_iff get_id_def same_source_as_def)
  from remove_action_unregisters_once [OF look p _ u(1) u(2) wf] show ?thesis
    by (auto simp: demo_event_def)
qed

lemma list_update_same_cell: "xs[i := xs ! i] = xs"
  by simp

lemma loop_requests_borrowed:
  assumes "cell_val (lp_cells M ! did) = SourceDisp di" and "cell_borrowed (lp_cells M ! did)"
  shows "loop_reregister ops did tf M = (Ok False, M)" "loop_unregister K ops did reg M = (Ok False, M)"
  using assms by (simp_all add: loop_reregister_def loop_unregister_def disp_reregister_def disp_unregister_def store_disp_def)

lemma borrowed_requests:
  assumes "cell_val (lp_cells M ! did) = SourceDisp di" and "cell_borrowed (lp_cells M ! did)"
    and "sl_lookup (lp_sources M) t = Some did"
  shows "handle_disable K ops t M = (Ok (), M\<lparr>lp_pending := Disable\<rparr>)"
    and "handle_update ops t M = (Ok (), M\<lparr>lp_pending := Reregister\<rparr>)"
  using assms(3) loop_requests_borrowed [OF assms(1,2)]
  by (auto simp: handle_disable_def handle_update_def sl_lookup_iff sl_get_def vec_get_def same_source_sym)

text \<open>The state after the callback of \<open>did\<close>: its source is \<open>s\<close> and it is no longer borrowed.\<close>

definition after_callback :: "nat \<Rightarrow> 's dispatcher_inner \<Rightarrow> 's \<Rightarrow> ('s, 'i, 'p, 'd) loop_state \<Rightarrow> ('s, 'i, 'p, 'd) loop_state" where
  "after_callback did di s M = set_cell did \<lparr>cell_val = SourceDisp (di\<lparr>di_source := s\<rparr>), cell_borrowed = False\<rparr> M"


definition demo_base :: "(nat, nat, script_poller, nat list) loop_ops" where
  "demo_base = demo_ops (\<lambda>_ L. (Ok Continue, L))"


section \<open>Interrupted waits\<close>

lemma contract_clock:
  assumes "poller_contract K regs"
  shows "pl_now K p \<le> pl_now K (snd (pl_modify K p fd ev m))"
  using assms [unfolded poller_contract_def, THEN conjunct2, THEN conjunct1, rule_format, of p fd ev m]
  by (auto split: prod.splits sum.splits)

lemma rearm_clock: "poller_contract K regs \<Longrightarrow> pl_now K p \<le> pl_now K (snd (rearm K lt ev p))"
  by (auto simp: rearm_def contract_clock split: option.split)

lemma convert_clock: "poller_contract K regs \<Longrightarrow> pl_now K p \<le> pl_now K (snd (convert_events K lt evs p))"
proof (induction evs arbitrary: p)
  case Nil
  then show ?case by simp
next
  case (Cons ev evs)
  obtain r q where r: "rearm K lt ev p = (r, q)" by force
  with rearm_clock [OF Cons.prems, of p lt ev] Cons.IH [OF Cons.prems, of q] show ?case
    by (auto split: sum.split prod.split)
qed

lemma Poll_poll_clock:
  assumes "poller_contract K regs" and "Poll_poll K timeout P = (r, P')"
  shows "pl_now K (snd (pl_wait K (poller P) (poll_timeout K P timeout))) \<le> pl_now K (poller P')"
  using assms(2) convert_clock [OF assms(1)]
  by (auto simp: Poll_poll_def split: prod.splits sum.splits) (metis snd_conv)+

lemma Poll_poll_returns: "Poll_poll K timeout P = (r, P') \<Longrightarrow> returns r"
  by (auto simp: Poll_poll_def split: prod.splits sum.splits)

lemma poll_retry_fuel:
  assumes "poller_contract K regs" and "\<forall>p t. pl_now K p < pl_now K (snd (pl_wait K p t))"
  shows "now \<le> pl_now K (poller P) \<Longrightarrow> to < n \<Longrightarrow>
    returns (fst (poll_retry K n now (Some to) P)) \<and> poll_retry K (n + k) now (Some to) P = poll_retry K n now (Some to) P"
proof (induction n arbitrary: to P)
  case 0
  then show ?case by simp
next
  case (Suc n)
  obtain r Q where r: "Poll_poll K (Some to) P = (r, Q)" by force
  show ?case
  proof (cases "r = Err (IoError Interrupted)")
    case False
    with r Poll_poll_returns [OF r] show ?thesis by (auto split: outcome.split)
  next
    case True
    have "now < pl_now K (poller Q)"
      using Suc.prems(1) assms(2) Poll_poll_clock [OF assms(1) r] by (meson le_less_trans less_le_trans)
    then have adv: "now \<le> pl_now K (poller Q)" "0 < saturating_duration_since (pl_now K (poller Q)) now"
      by (simp_all add: saturating_duration_since_def)
    let ?e = "saturating_duration_since (pl_now K (poller Q)) now"
    show ?thesis
    proof (cases "to \<le> ?e")
      case True
      with r \<open>r = _\<close> show ?thesis by simp
    next
      case False
      with adv(2) Suc.prems(2) have "to - ?e < n" by simp
      from Suc.IH [OF adv(1) this] False r True show ?thesis by (simp add: Let_def)
    qed
  qed
qed

text \<open>
  C32: a dispatch with a timeout does not retry an interrupted wait for ever: if every wait takes
  some time, more rounds than the timeout has units always reach a result, and any larger
  number of rounds gives the same one.
\<close>

theorem poll_retry_terminates:
  assumes "poller_contract K regs" and "\<forall>p t. pl_now K p < pl_now K (snd (pl_wait K p t))"
    and "now \<le> pl_now K (poller P)" and "to < n"
  shows "fst (poll_retry K n now (Some to) P) \<noteq> Diverge \<and> fst (poll_retry K n now (Some to) P) \<noteq> Panic \<and>
    poll_retry K (n + k) now (Some to) P = poll_retry K n now (Some to) P"
  using poll_retry_fuel [OF assms] by auto

text \<open>A poller whose clock ticks in every wait.\<close>

definition TP :: "script_poller poller_ops" where
  "TP = SP\<lparr>pl_wait := (\<lambda>p t. case sp_wait p t of (r, p') \<Rightarrow> (r, p'\<lparr>sp_now := Suc (sp_now p')\<rparr>))\<rparr>"

lemma sp_table_now [simp]: "sp_table (p\<lparr>sp_now := n\<rparr>) = sp_table p"
  by (simp add: sp_table_def)

lemma TP_contract: "poller_contract TP sp_table"
proof -
  have ops: "pl_add TP = pl_add SP" "pl_modify TP = pl_modify SP" "pl_delete TP = pl_delete SP"
    "pl_notify TP = pl_notify SP" "pl_now TP = pl_now SP"
    by (simp_all add: TP_def)
  have wait: "pl_wait TP p t = (fst (pl_wait SP p t), (snd (pl_wait SP p t))\<lparr>sp_now := Suc (pl_now SP (snd (pl_wait SP p t)))\<rparr>)" for p t
    by (simp add: TP_def SP_def split: prod.split)
  have now: "pl_now SP (p\<lparr>sp_now := n\<rparr>) = n" for p n by (simp add: SP_def)
  have "case pl_wait TP p t of
        (Inl _, p') \<Rightarrow> dom (sp_table p') = dom (sp_table p) \<and> pl_now SP p \<le> pl_now SP p'
      | (Inr evs, p') \<Rightarrow> dom (sp_table p') = dom (sp_table p) \<and> pl_now SP p \<le> pl_now SP p' \<and>
          (\<forall>ev \<in> set evs. \<exists>fd e m. sp_table p fd = Some (e, m) \<and> ev_key e = ev_key ev)" for p t
    using SP_contract [unfolded poller_contract_def, THEN conjunct2, THEN conjunct2, THEN conjunct2, THEN conjunct1,
        rule_format, of p t]
    unfolding wait by (auto simp: now split: prod.splits sum.splits)
  note wait' = allI [OF allI [OF this]]
  note sp = SP_contract [unfolded poller_contract_def]
  show ?thesis unfolding poller_contract_def ops
    by (intro conjI wait' sp [THEN conjunct1] sp [THEN conjunct2, THEN conjunct1]
        sp [THEN conjunct2, THEN conjunct2, THEN conjunct1]
        sp [THEN conjunct2, THEN conjunct2, THEN conjunct2, THEN conjunct2])
qed

lemma TP_ticks: "\<forall>p t. pl_now TP p < pl_now TP (snd (pl_wait TP p t))"
  by (auto simp: TP_def SP_def sp_wait_def less_Suc_eq_le split: list.splits prod.splits)

theorem poll_retry_terminates_witness:
  "fst (poll_retry TP 9 0 (Some 8) (demo_poll (replicate 100 (0, Inl Interrupted)))) \<noteq> Diverge"
  using poll_retry_terminates [OF TP_contract TP_ticks, of 0 "demo_poll (replicate 100 (0, Inl Interrupted))" 8 9 0]
  by (simp add: demo_poll_def)

text \<open>
  The time left after an interrupted wait is computed by subtracting the time since the start
  of the dispatch from the time that was left before, so that the time of earlier waits is
  subtracted again: two interrupted waits of \<open>d1\<close> and \<open>d2\<close> end the dispatch with no event as soon
  as \<open>2 * d1 + d2\<close> reaches the timeout, even though less than the timeout has passed.
\<close>

theorem interrupted_dispatch_ends_early:
  assumes "Poll_poll K (Some to) P = (Err (IoError Interrupted), P1)" and "pl_now K (poller P1) = now + d1"
    and "Poll_poll K (Some (to - d1)) P1 = (Err (IoError Interrupted), P2)" and "pl_now K (poller P2) = now + d1 + d2"
    and "d1 + d2 < to" and "to \<le> 2 * d1 + d2"
  shows "poll_retry K (Suc (Suc n)) now (Some to) P = (Ok None, P2)"
proof -
  have "to - d1 \<le> d1 + d2" using assms(6) by simp
  with assms(1-5) show ?thesis by (simp add: saturating_duration_since_def Let_def)
qed

theorem interrupted_dispatch_ends_early_witness:
  "\<exists>P2. poll_retry SP 2 0 (Some 10) (demo_poll [(4, Inl Interrupted), (3, Inl Interrupted)]) = (Ok None, P2) \<and>
     pl_now SP (poller P2) = 7"
proof -
  let ?P = "demo_poll [(4, Inl Interrupted), (3, Inl Interrupted)]"
  let ?Q = "\<lambda>now script. (demo_poll script)\<lparr>poller := (poller (demo_poll script))\<lparr>sp_now := now\<rparr>\<rparr>"
  have q: "poll_timeout SP (?Q now script) t = t" for now script t
    by (simp add: poll_timeout_def demo_poll_def wheel_next_deadline_def TimerWheel_new_def Let_def split: option.split)
  have 1: "Poll_poll SP (Some 10) ?P = (Err (IoError Interrupted), ?Q 4 [(3, Inl Interrupted)])"
    using q [of 0 "[(4, Inl Interrupted), (3, Inl Interrupted)]"]
    by (simp add: Poll_poll_def demo_poll_def SP_def sp_wait_def error_from_io_def)
  have 2: "Poll_poll SP (Some (10 - 4)) (?Q 4 [(3, Inl Interrupted)]) = (Err (IoError Interrupted), ?Q 7 [])"
    using q [of 4 "[(3, Inl Interrupted)]"]
    by (simp add: Poll_poll_def demo_poll_def SP_def sp_wait_def error_from_io_def)
  show ?thesis
    using interrupted_dispatch_ends_early [OF 1 _ 2, of 0 3 0]
    by (auto simp: demo_poll_def SP_def numeral_2_eq_2)
qed

section \<open>A request survives an error of the callback\<close>

lemma loop_reregister_io:
  "cell_val (lp_cells L ! did) = IoDisp io \<Longrightarrow> fst (loop_reregister ops did tf L) = Panic"
  by (simp add: loop_reregister_def disp_reregister_def store_disp_def)

text \<open>
  C38: when a callback asks for its source to be re-registered and the source then fails, the
  dispatch ends with the error but the request stays pending, and the next dispatched source
  that returns \<open>Continue\<close> gets it: an \<open>Async\<close> adapter, which cannot be re-registered, makes the
  loop panic.
\<close>

theorem pending_request_hits_next_source:
  assumes "sl_lookup (lp_sources L) (pe_token ev) = Some did" and "did < length (lp_cells L)"
    and "lp_cells L ! did = \<lparr>cell_val = SourceDisp di, cell_borrowed = False\<rparr>"
    and "M = set_cell did \<lparr>cell_val = SourceDisp di, cell_borrowed = True\<rparr> L"
    and "so_process ops (di_source di) (pe_readiness ev) (pe_token ev) M
      = (Err e, s, snd (handle_update ops (forget_sub_id (pe_token ev)) M))"
    and "sl_lookup (lp_sources L) (pe_token ev2) = Some did2" and "did2 \<noteq> did" and "did2 < length (lp_cells L)"
    and "lp_cells L ! did2 = \<lparr>cell_val = IoDisp io, cell_borrowed = False\<rparr>"
  shows "\<exists>L1. dispatch_event K ops ev L = (Err (OtherError e), L1) \<and> lp_pending L1 = Reregister \<and>
    fst (dispatch_event K ops ev2 L1) = Panic"
proof -
  define reg where "reg = forget_sub_id (pe_token ev)"
  have M: "cell_val (lp_cells M ! did) = SourceDisp di" "cell_borrowed (lp_cells M ! did)"
    "sl_lookup (lp_sources M) reg = Some did"
    using assms(1,2) by (simp_all add: assms(4) set_cell_def reg_def)
  note upd = borrowed_requests(2) [OF M, of ops]
  define L1 where "L1 = set_cell did \<lparr>cell_val = SourceDisp (di\<lparr>di_source := s\<rparr>), cell_borrowed = False\<rparr> (M\<lparr>lp_pending := Reregister\<rparr>)"
  have first: "dispatch_event K ops ev L = (Err (OtherError e), L1)"
    using assms(1-5) upd
    by (simp add: dispatch_event_def disp_process_def L1_def Let_def reg_def error_from_box_def)
  have c: "lp_cells L1 ! did2 = \<lparr>cell_val = IoDisp io, cell_borrowed = False\<rparr>" "did2 < length (lp_cells L1)"
    and look: "sl_lookup (lp_sources L1) (forget_sub_id (pe_token ev2)) = Some did2" and pend: "lp_pending L1 = Reregister"
    using assms(6-9) by (auto simp: L1_def assms(4) set_cell_def)
  obtain io' ws where io': "io_process_events (pe_readiness ev2) io (lp_woken L1) = (io', ws)" by force
  define L2 where "L2 = ((io_put did2 io' L1)\<lparr>lp_woken := ws\<rparr>)\<lparr>lp_pending := Continue\<rparr>"
  have "cell_val (lp_cells L2 ! did2) = IoDisp io'"
    using c by (simp add: L2_def io_put_def)
  then have "fst (loop_reregister ops did2 (TokenFactory_new (forget_sub_id (pe_token ev2))) L2) = Panic"
    by (rule loop_reregister_io)
  moreover have "disp_process ops did2 (pe_readiness ev2) (pe_token ev2) L1
      = (Ok Continue, (io_put did2 io' L1)\<lparr>lp_woken := ws\<rparr>)"
    using c io' by (simp add: disp_process_def Let_def)
  ultimately have "fst (dispatch_event K ops ev2 L1) = Panic"
    using look pend c
    by (cases "loop_reregister ops did2 (TokenFactory_new (forget_sub_id (pe_token ev2))) L2")
      (simp add: dispatch_event_def take_pending_def apply_post_action_def Let_def L2_def io_put_def)
  with first pend show ?thesis by blast
qed

definition demo_io_cell :: "nat cell" where
  "demo_io_cell = \<lparr>cell_val = IoDisp ((io_disp_new 5)\<lparr>io_token := Some (demo_token 1), io_is_registered := True\<rparr>),
     cell_borrowed = False\<rparr>"

theorem pending_request_hits_next_source_witness:
  "\<exists>L1. dispatch_event SP (demo_ops (\<lambda>_ M. (Err (BUser 3), snd (handle_update demo_base (demo_token 0) M))))
       (demo_event 0) (demo_loop [demo_cell 1, demo_io_cell]) = (Err (OtherError (BUser 3)), L1) \<and>
     fst (dispatch_event SP (demo_ops (\<lambda>_ M. (Err (BUser 3), snd (handle_update demo_base (demo_token 0) M)))) (demo_event 1) L1)
       = Panic"
proof -
  let ?ops = "demo_ops (\<lambda>_ M. (Err (BUser 3), snd (handle_update demo_base (demo_token 0) M)))"
  let ?L = "demo_loop [demo_cell 1, demo_io_cell]"
  let ?di = "\<lparr>di_source = 1, di_needs = False\<rparr> :: nat dispatcher_inner"
  let ?M = "set_cell 0 \<lparr>cell_val = SourceDisp ?di, cell_borrowed = True\<rparr> ?L"
  let ?io = "(io_disp_new 5)\<lparr>io_token := Some (demo_token 1), io_is_registered := True\<rparr>"
  have look: "sl_lookup (lp_sources ?L) (pe_token (demo_event 0)) = Some 0"
    "sl_lookup (lp_sources ?L) (pe_token (demo_event 1)) = Some 1"
    by (simp_all add: demo_defs sl_lookup_iff get_id_def same_source_as_def)
  have cell: "lp_cells ?L ! 0 = \<lparr>cell_val = SourceDisp ?di, cell_borrowed = False\<rparr>"
    "lp_cells ?L ! 1 = \<lparr>cell_val = IoDisp ?io, cell_borrowed = False\<rparr>" "0 < length (lp_cells ?L)" "1 < length (lp_cells ?L)"
    by (simp_all add: demo_defs demo_io_cell_def)
  have req: "handle_update o' (demo_token 0) ?M = (Ok (), ?M\<lparr>lp_pending := Reregister\<rparr>)" for o'
    by (rule borrowed_requests(2) [where did = 0])
      (simp_all add: demo_defs set_cell_def sl_lookup_iff get_id_def same_source_as_def)
  have "so_process ?ops (di_source ?di) (pe_readiness (demo_event 0)) (pe_token (demo_event 0)) ?M
      = (Err (BUser 3), 1, snd (handle_update ?ops (forget_sub_id (pe_token (demo_event 0))) ?M))"
    using req [unfolded One_nat_def] by (simp add: demo_ops_def demo_event_def)
  from pending_request_hits_next_source [OF look(1) cell(3) cell(1) refl this look(2) _ cell(4) cell(2), of SP]
  show ?thesis by auto
qed

section \<open>A failed registration of a lifecycle source\<close>



end
