(* ===== verification/Run_Laws.thy ===== *)
theory Run_Laws
  imports Loop_Laws
begin

text \<open>
  The driving half of \<open>src/src/loop_logic.rs\<close>: every idle callback runs once, \<open>run\<close> stops after the
  iteration that asks for it, \<open>block_on\<close> polls its future only when it was woken, and the loop
  between two calls is always in a consistent state.
\<close>

section \<open>What calls do to idle callbacks\<close>

lemma loop_op_idle [simp]:
  "lp_idle_cells (snd (loop_register ops did tf L)) = lp_idle_cells L"
  "lp_idle_cells (snd (loop_reregister ops did tf L)) = lp_idle_cells L"
  "lp_idle_cells (snd (loop_unregister K ops did reg L)) = lp_idle_cells L"
  by (simp_all add: loop_register_def loop_reregister_def loop_unregister_def store_disp_def split: prod.split)

lemma loop_op_idle':
  "loop_register ops did tf L = (r, L') \<Longrightarrow> lp_idle_cells L' = lp_idle_cells L"
  "loop_reregister ops did tf L = (q, L') \<Longrightarrow> lp_idle_cells L' = lp_idle_cells L"
  "loop_unregister K ops did reg L = (q, L') \<Longrightarrow> lp_idle_cells L' = lp_idle_cells L"
  using loop_op_idle by (metis snd_conv)+

lemma register_dispatcher_idle [simp]: "lp_idle_cells (snd (register_dispatcher ops did L)) = lp_idle_cells L"
  by (auto simp: register_dispatcher_def Let_def dest!: loop_op_idle' split: outcome.splits prod.splits)

lemma insert_source_idle [simp]: "lp_idle_cells (snd (insert_source ops s L)) = lp_idle_cells L"
  by (simp add: insert_source_snd Dispatcher_new_def)

lemma and_then_idle:
  assumes "lp_idle_cells (snd r) = c" and "\<And>a M. lp_idle_cells M = c \<Longrightarrow> lp_idle_cells (snd (f a M)) = c"
  shows "lp_idle_cells (snd (and_then r f)) = c"
  using assms by (cases r; cases "fst r") auto

lemma handle_idle [simp]:
  "lp_idle_cells (snd (handle_enable ops t L)) = lp_idle_cells L"
  "lp_idle_cells (snd (handle_update ops t L)) = lp_idle_cells L"
  "lp_idle_cells (snd (handle_disable K ops t L)) = lp_idle_cells L"
  "lp_idle_cells (snd (handle_remove K ops t L)) = lp_idle_cells L"
  by (auto simp: handle_enable_def handle_update_def handle_disable_def handle_remove_def
      intro!: and_then_idle split: outcome.split option.split)

lemma io_put_idle [simp]: "lp_idle_cells (io_put did io L) = lp_idle_cells L"
  by (simp add: io_put_def)

lemma io_op_idle [simp]:
  "lp_idle_cells (snd (io_register K did disp L)) = lp_idle_cells L"
  "lp_idle_cells (snd (io_reregister K did disp L)) = lp_idle_cells L"
  "lp_idle_cells (snd (io_kill K did disp L)) = lp_idle_cells L"
  by (auto simp: io_register_def io_reregister_def io_kill_def Let_def split: option.split prod.split)

lemma async_waker_idle [simp]: "lp_idle_cells (snd (async_register_waker K a i wk L)) = lp_idle_cells L"
  by (auto simp: async_register_waker_def Let_def split: option.split)

lemma async_waker_idle':
  "async_register_waker K a i wk L = (r, L') \<Longrightarrow> lp_idle_cells L' = lp_idle_cells L"
  using async_waker_idle by (metis snd_conv)

lemma async_poll_idle [simp]: "lp_idle_cells (snd (async_poll K w i a wk L)) = lp_idle_cells L"
  by (auto simp: async_poll_def Let_def dest!: async_waker_idle' split: option.split prod.split outcome.split)

lemma async_new_idle [simp]: "lp_idle_cells (snd (Async_new K r fd L)) = lp_idle_cells L"
proof (cases r)
  case (Inl e)
  then show ?thesis by (simp add: Async_new_def)
next
  case (Inr b)
  obtain v sl where "vacant_entry (lp_sources L) = (v, sl)" by force
  with Inr show ?thesis
    by (cases v) (simp_all add: Async_new_def Let_def and_then_idle)
qed

lemma async_drop_idle [simp]: "lp_idle_cells (snd (async_drop K a L)) = lp_idle_cells L"
  by (simp add: async_drop_def split: option.split)

text \<open>An idle callback that is neither armed nor running never runs again.\<close>

definition spent :: "'i idle_cell \<Rightarrow> bool" where
  "spent c \<longleftrightarrow> c = IdleDone \<or> c = IdleCancelled"

text \<open>A call leaves an idle callback alone or cancels it, and never one that runs.\<close>

definition idle_frame :: "('s, 'i, 'p, 'd) loop_state \<Rightarrow> ('s, 'i, 'p, 'd) loop_state \<Rightarrow> bool" where
  "idle_frame L L' \<longleftrightarrow> length (lp_idle_cells L) \<le> length (lp_idle_cells L') \<and>
     (\<forall>cb < length (lp_idle_cells L). lp_idle_cells L' ! cb = lp_idle_cells L ! cb \<or>
        lp_idle_cells L ! cb \<noteq> IdleRunning \<and> lp_idle_cells L' ! cb = IdleCancelled)"

lemma idle_frame_refl: "lp_idle_cells L' = lp_idle_cells L \<Longrightarrow> idle_frame L L'"
  by (simp add: idle_frame_def)

lemma idle_frame_trans:
  assumes "idle_frame L M" and "idle_frame M N"
  shows "idle_frame L N"
  unfolding idle_frame_def
proof (intro conjI allI impI)
  show "length (lp_idle_cells L) \<le> length (lp_idle_cells N)" using assms by (simp add: idle_frame_def)
next
  fix cb assume "cb < length (lp_idle_cells L)"
  moreover from this assms(1) have "cb < length (lp_idle_cells M)" by (simp add: idle_frame_def)
  ultimately have
    "lp_idle_cells M ! cb = lp_idle_cells L ! cb \<or> lp_idle_cells L ! cb \<noteq> IdleRunning \<and> lp_idle_cells M ! cb = IdleCancelled"
    "lp_idle_cells N ! cb = lp_idle_cells M ! cb \<or> lp_idle_cells M ! cb \<noteq> IdleRunning \<and> lp_idle_cells N ! cb = IdleCancelled"
    using assms by (simp_all add: idle_frame_def)
  then show "lp_idle_cells N ! cb = lp_idle_cells L ! cb \<or> lp_idle_cells L ! cb \<noteq> IdleRunning \<and> lp_idle_cells N ! cb = IdleCancelled"
    by auto
qed

lemma insert_idle_frame: "idle_frame L (snd (insert_idle f L))"
  by (simp add: idle_frame_def insert_idle_def nth_append Let_def)

lemma idle_cancel_frame: "idle_frame L (snd (idle_cancel cb L))"
proof (cases "cb < length (lp_idle_cells L)")
  case True
  then show ?thesis by (auto simp: idle_frame_def idle_cancel_def nth_list_update)
next
  case False
  then show ?thesis by (auto simp: idle_frame_def idle_cancel_def list_update_beyond)
qed

lemma exec_call_idle:
  "idle_frame L (snd (exec_call K ops c L))"
proof (cases c)
  case (CallInsertIdle f)
  then show ?thesis by (simp add: insert_idle_frame)
next
  case (CallCancelIdle cb)
  then show ?thesis by (simp add: idle_cancel_frame)
next
  case (CallInsertSource s)
  have "snd (exec_call K ops c L) = snd (insert_source ops s L)"
    by (simp add: CallInsertSource split: prod.split)
  then show ?thesis by (simp add: idle_frame_refl)
qed (rule idle_frame_refl, simp add: readable_poll_def writable_poll_def signal_stop_def signal_wakeup_def loop_waker_wake_def
    as_source_mut_def Dispatcher_new_def Let_def split: dispatcher.split)+

lemma api_step_idle: "api_step K ops D L L' \<Longrightarrow> idle_frame L L'"
  by (elim api_stepE) (metis exec_call_idle snd_conv)

lemma api_steps_idle: "(api_step K ops D)\<^sup>*\<^sup>* L L' \<Longrightarrow> idle_frame L L'"
  by (induction rule: rtranclp_induct) (auto intro: idle_frame_refl idle_frame_trans api_step_idle)

lemma spent_frame: "idle_frame L L' \<Longrightarrow> cb < length (lp_idle_cells L) \<Longrightarrow> spent (lp_idle_cells L ! cb) \<Longrightarrow> spent (lp_idle_cells L' ! cb)"
  by (auto simp: idle_frame_def spent_def)

lemma idle_dispatch_spent: "spent (lp_idle_cells L ! cb) \<Longrightarrow> idle_dispatch run_idle cb L = L"
  by (auto simp: idle_dispatch_def spent_def)

section \<open>Idle callbacks run once\<close>

context callback_contract
begin

text \<open>After its dispatch a callback is spent; the others are at most cancelled.\<close>

lemma idle_dispatch_effect:
  assumes "cb < length (lp_idle_cells L)" and "lp_idle_cells L ! cb \<noteq> IdleRunning"
  shows "spent (lp_idle_cells (idle_dispatch run_idle cb L) ! cb)"
    and "length (lp_idle_cells L) \<le> length (lp_idle_cells (idle_dispatch run_idle cb L))"
    and "i < length (lp_idle_cells L) \<Longrightarrow> lp_idle_cells L ! i \<noteq> IdleRunning \<Longrightarrow>
      lp_idle_cells (idle_dispatch run_idle cb L) ! i \<noteq> IdleRunning"
    and "i < length (lp_idle_cells L) \<Longrightarrow> spent (lp_idle_cells L ! i) \<Longrightarrow>
      spent (lp_idle_cells (idle_dispatch run_idle cb L) ! i)"
proof -
  have "spent (lp_idle_cells (idle_dispatch run_idle cb L) ! cb) \<and>
    length (lp_idle_cells L) \<le> length (lp_idle_cells (idle_dispatch run_idle cb L)) \<and>
    (i < length (lp_idle_cells L) \<longrightarrow> lp_idle_cells L ! i \<noteq> IdleRunning \<longrightarrow>
      lp_idle_cells (idle_dispatch run_idle cb L) ! i \<noteq> IdleRunning) \<and>
    (i < length (lp_idle_cells L) \<longrightarrow> spent (lp_idle_cells L ! i) \<longrightarrow>
      spent (lp_idle_cells (idle_dispatch run_idle cb L) ! i))"
  proof (cases "lp_idle_cells L ! cb")
    case (IdleArmed f)
    define M where "M = L\<lparr>lp_idle_cells := (lp_idle_cells L)[cb := IdleRunning]\<rparr>"
    define N where "N = run_idle f M"
    have fr: "idle_frame M N" unfolding N_def by (rule api_steps_idle [OF idle_calls])
    have len: "length (lp_idle_cells M) = length (lp_idle_cells L)" by (simp add: M_def)
    have e: "idle_dispatch run_idle cb L = N\<lparr>lp_idle_cells := (lp_idle_cells N)[cb := IdleDone]\<rparr>"
      using IdleArmed by (simp add: idle_dispatch_def M_def N_def Let_def)
    have other: "lp_idle_cells M ! i = lp_idle_cells L ! i" if "i \<noteq> cb" using that by (simp add: M_def)
    have ln: "length (lp_idle_cells L) \<le> length (lp_idle_cells N)" using fr len by (simp add: idle_frame_def)
    have at: "(lp_idle_cells N)[cb := IdleDone] ! i = (if i = cb then IdleDone else lp_idle_cells N ! i)"
      if "i < length (lp_idle_cells L)" for i
      using that ln by (simp add: nth_list_update)
    have cell: "lp_idle_cells N ! i = lp_idle_cells M ! i \<or> lp_idle_cells N ! i = IdleCancelled" if "i < length (lp_idle_cells L)"
      using fr that len by (auto simp: idle_frame_def)
    show ?thesis
      using assms(1) ln at cell other by (cases "i = cb") (auto simp: e spent_def)
  qed (use assms in \<open>auto simp: idle_dispatch_def spent_def\<close>)
  then show "spent (lp_idle_cells (idle_dispatch run_idle cb L) ! cb)"
    "length (lp_idle_cells L) \<le> length (lp_idle_cells (idle_dispatch run_idle cb L))"
    "i < length (lp_idle_cells L) \<Longrightarrow> lp_idle_cells L ! i \<noteq> IdleRunning \<Longrightarrow>
      lp_idle_cells (idle_dispatch run_idle cb L) ! i \<noteq> IdleRunning"
    "i < length (lp_idle_cells L) \<Longrightarrow> spent (lp_idle_cells L ! i) \<Longrightarrow>
      spent (lp_idle_cells (idle_dispatch run_idle cb L) ! i)" by blast+
qed

lemma fold_idle_effect:
  "\<forall>cb \<in> set cbs. cb < length (lp_idle_cells L) \<and> lp_idle_cells L ! cb \<noteq> IdleRunning \<Longrightarrow>
     (\<forall>cb \<in> set cbs. spent (lp_idle_cells (fold (idle_dispatch run_idle) cbs L) ! cb)) \<and>
     length (lp_idle_cells L) \<le> length (lp_idle_cells (fold (idle_dispatch run_idle) cbs L)) \<and>
     (\<forall>i < length (lp_idle_cells L). spent (lp_idle_cells L ! i) \<longrightarrow> spent (lp_idle_cells (fold (idle_dispatch run_idle) cbs L) ! i))"
proof (induction cbs arbitrary: L)
  case Nil
  then show ?case by simp
next
  case (Cons c cbs)
  let ?M = "idle_dispatch run_idle c L"
  have c: "c < length (lp_idle_cells L)" "lp_idle_cells L ! c \<noteq> IdleRunning" using Cons.prems by simp_all
  note eff = idle_dispatch_effect [OF c]
  have "\<forall>cb \<in> set cbs. cb < length (lp_idle_cells ?M) \<and> lp_idle_cells ?M ! cb \<noteq> IdleRunning"
    using Cons.prems eff(2,3) by (auto intro: less_le_trans)
  from Cons.IH [OF this] show ?case
    using c eff(1,2,4) by (auto intro: less_le_trans order_trans)
qed

lemma dispatch_idles_spent:
  assumes "\<forall>cb \<in> set (lp_idles L). cb < length (lp_idle_cells L) \<and> lp_idle_cells L ! cb \<noteq> IdleRunning"
    and "cb \<in> set (lp_idles L)"
  shows "spent (lp_idle_cells (dispatch_idles run_idle L) ! cb)"
    and "cb < length (lp_idle_cells (dispatch_idles run_idle L))"
  using fold_idle_effect [of "lp_idles L" "L\<lparr>lp_idles := []\<rparr>"] assms
  by (auto simp: dispatch_idles_def intro: less_le_trans)

end


text \<open>The loop of timers and descriptors, with one idle callback.\<close>

definition app_demo :: "(script_poller, nat list) app_state" where
  "app_demo =
     \<lparr>lp_poll = demo_poll [], lp_sources = [], lp_cells = [], lp_lifecycle = [], lp_idles = [], lp_idle_cells = [],
      lp_pending = Continue, lp_stop = False, lp_future_ready = False, lp_synthetic = [], lp_woken = [], lp_data = []\<rparr>"

definition app_demo_ops :: "(app_source, nat, script_poller, nat list) loop_ops" where
  "app_demo_ops = app_ops SP (\<lambda>_. (TDrop, [])) (\<lambda>_ _. (Inr Continue, []))"

definition app_demo_idle :: "nat \<Rightarrow> (script_poller, nat list) app_state \<Rightarrow> (script_poller, nat list) app_state" where
  "app_demo_idle = app_idle SP (\<lambda>i. [CallData [i], CallStop])"

lemma app_demo_contract: "callback_contract SP app_demo_ops app_demo_idle"
  unfolding app_demo_ops_def app_demo_idle_def by (rule app.callback_contract_axioms)


section \<open>run\<close>

lemma run_loop_iterates:
  "(\<forall>j < k. \<exists>u. dispatch K ops run_idle n timeout (s (i + j)) = (Ok (), u) \<and> s (Suc (i + j)) = cb u) \<Longrightarrow>
   \<forall>j < k. \<not> lp_stop (s (i + j)) \<Longrightarrow> lp_stop (s (i + k)) \<Longrightarrow> k \<le> m \<Longrightarrow>
   run_loop K ops run_idle n timeout cb m (s i) = (Ok (), s (i + k))"
proof (induction k arbitrary: i m)
  case 0
  then show ?case by (cases m) simp_all
next
  case (Suc k)
  obtain m' where m: "m = Suc m'" "k \<le> m'" using Suc.prems(4) by (cases m) auto
  obtain u where u: "dispatch K ops run_idle n timeout (s i) = (Ok (), u)" "s (Suc i) = cb u"
    using Suc.prems(1) by (metis add.right_neutral zero_less_Suc)
  have "\<forall>j < k. \<exists>u. dispatch K ops run_idle n timeout (s (Suc i + j)) = (Ok (), u) \<and> s (Suc (Suc i + j)) = cb u"
    using Suc.prems(1) by (metis Suc_mono add_Suc_shift)
  moreover have "\<forall>j < k. \<not> lp_stop (s (Suc i + j))" using Suc.prems(2) by (metis Suc_mono add_Suc_shift)
  ultimately have "run_loop K ops run_idle n timeout cb m' (s (Suc i)) = (Ok (), s (Suc i + k))"
    using Suc.prems(3) m(2) by (intro Suc.IH) simp_all
  moreover have "\<not> lp_stop (s i)" using Suc.prems(2) by (metis add.right_neutral zero_less_Suc)
  ultimately show ?case using m(1) u by simp
qed

text \<open>
  C33: \<open>run\<close> dispatches and calls its callback again and again, and returns right after the first
  iteration at whose end a stop was requested; a stop requested before \<open>run\<close> is called has no
  effect.
\<close>

theorem run_stops_when_asked:
  assumes "s 0 = L\<lparr>lp_stop := False\<rparr>"
    and "\<forall>j < k. \<exists>u. dispatch K ops run_idle n timeout (s j) = (Ok (), u) \<and> s (Suc j) = cb u"
    and "\<forall>j < k. \<not> lp_stop (s j)" and "lp_stop (s k)" and "k \<le> m"
  shows "run K ops run_idle n m timeout cb L = (Ok (), s k) \<and>
    run K ops run_idle n m timeout cb (signal_stop L) = run K ops run_idle n m timeout cb L"
  using run_loop_iterates [of k K ops run_idle n timeout s 0 cb m] assms
  by (simp add: run_def signal_stop_def)

theorem run_stops_when_asked_witness:
  "\<exists>L'. run SP app_demo_ops app_demo_idle 1 5 (Some 3) (\<lambda>L. snd (insert_idle 7 L)) app_demo = (Ok (), L') \<and> lp_data L' = [7]"
proof -
  let ?cb = "\<lambda>L. snd (insert_idle 7 L) :: (script_poller, nat list) app_state"
  define s where "s = rec_nat app_demo (\<lambda>_ L. ?cb (snd (dispatch SP app_demo_ops app_demo_idle 1 (Some 3) L)))"
  have s: "s 0 = app_demo" "s (Suc 0) = ?cb (snd (dispatch SP app_demo_ops app_demo_idle 1 (Some 3) (s 0)))"
    "s (Suc (Suc 0)) = ?cb (snd (dispatch SP app_demo_ops app_demo_idle 1 (Some 3) (s (Suc 0))))"
    by (simp_all add: s_def)
  have idle: "poll_retry SP 1 now (Some 3) (lp_poll L) = (Ok (Some []), (lp_poll L)\<lparr>poller := (poller (lp_poll L))\<lparr>sp_now := sp_now (poller (lp_poll L)) + 3\<rparr>\<rparr>)"
    if "sp_script (poller (lp_poll L)) = []" "timers (lp_poll L) = TimerWheel_new" for now and L :: "(script_poller, nat list) app_state"
    using that
    by (simp add: Poll_poll_def SP_def sp_wait_def poll_timeout_def drain_expired.simps wheel_next_expired_def
        wheel_next_deadline_def TimerWheel_new_def Let_def)
  have d1: "dispatch SP app_demo_ops app_demo_idle 1 (Some 3) (s 0) = (Ok (), app_demo\<lparr>lp_poll := (lp_poll app_demo)\<lparr>poller := (poller (lp_poll app_demo))\<lparr>sp_now := 3\<rparr>\<rparr>\<rparr>)"
    using idle [of app_demo]
    by (simp add: s(1) dispatch_def dispatch_events_def loop_poll_def dispatch_idles_def app_demo_def demo_poll_def Let_def)
  have s1: "s (Suc 0) = ?cb (app_demo\<lparr>lp_poll := (lp_poll app_demo)\<lparr>poller := (poller (lp_poll app_demo))\<lparr>sp_now := 3\<rparr>\<rparr>\<rparr>)"
    using s(2) d1 by simp
  obtain u where d2: "dispatch SP app_demo_ops app_demo_idle 1 (Some 3) (s (Suc 0)) = (Ok (), u)" "lp_stop u" "lp_data u = [7]"
    using idle [of "s (Suc 0)"]
    by (simp add: s1 dispatch_def dispatch_events_def loop_poll_def dispatch_idles_def app_demo_def demo_poll_def insert_idle_def
        idle_dispatch_def app_demo_idle_def app_idle_def run_script_def run_call_def any_call_def valid_call_def signal_stop_def Let_def)
  have s2: "s 2 = ?cb u" using s(3) d2(1) by (simp add: numeral_2_eq_2)
  have "\<forall>j < 2. \<exists>u. dispatch SP app_demo_ops app_demo_idle 1 (Some 3) (s j) = (Ok (), u) \<and> s (Suc j) = ?cb u"
    using d1 d2(1) s by (auto simp: less_2_cases_iff)
  moreover have "\<forall>j < 2. \<not> lp_stop (s j)"
    using s(1) s1 by (auto simp: less_2_cases_iff app_demo_def insert_idle_def Let_def)
  moreover have "lp_stop (s 2)" "lp_data (s 2) = [7]" using d2(2,3) by (simp_all add: s2 insert_idle_def Let_def)
  moreover have "s 0 = app_demo\<lparr>lp_stop := False\<rparr>" by (simp add: s(1) app_demo_def)
  ultimately show ?thesis
    using run_stops_when_asked [of s app_demo 2 SP app_demo_ops app_demo_idle 1 "Some 3" ?cb 5] by auto
qed

section \<open>block_on\<close>

lemma block_on_loop_iterates:
  "\<forall>j < k. \<exists>u. dispatch_events K ops n None (s (i + j)) = (Ok (), u) \<and> s (Suc (i + j)) = cb (dispatch_idles run_idle u) \<Longrightarrow>
   \<forall>j < k. \<not> lp_stop (s (i + j)) \<and> \<not> lp_future_ready (s (i + j)) \<Longrightarrow>
   block_on_loop K ops run_idle n poll_future cb (m + k) fut (s i) = block_on_loop K ops run_idle n poll_future cb m fut (s (i + k))"
proof (induction k arbitrary: i)
  case 0
  then show ?case by simp
next
  case (Suc k)
  obtain u where u: "dispatch_events K ops n None (s i) = (Ok (), u)" "s (Suc i) = cb (dispatch_idles run_idle u)"
    using Suc.prems(1) by (metis add.right_neutral zero_less_Suc)
  have "\<forall>j < k. \<exists>u. dispatch_events K ops n None (s (Suc i + j)) = (Ok (), u) \<and> s (Suc (Suc i + j)) = cb (dispatch_idles run_idle u)"
    using Suc.prems(1) by (metis Suc_mono add_Suc_shift)
  moreover have "\<forall>j < k. \<not> lp_stop (s (Suc i + j)) \<and> \<not> lp_future_ready (s (Suc i + j))"
    using Suc.prems(2) by (metis Suc_mono add_Suc_shift)
  ultimately have "block_on_loop K ops run_idle n poll_future cb (m + k) fut (s (Suc i))
      = block_on_loop K ops run_idle n poll_future cb m fut (s (Suc i + k))"
    by (rule Suc.IH)
  moreover have "\<not> lp_stop (s i)" "\<not> lp_future_ready (s i)" using Suc.prems(2) by (metis add.right_neutral zero_less_Suc)+
  ultimately show ?case using u by simp
qed

text \<open>
  C34: \<open>block_on\<close> polls its future at once; while it is pending it dispatches without a timeout and
  polls the future again only when an iteration ends with the waker called, then returning its
  result. The future is not polled in between, however many iterations that takes.
\<close>

theorem block_on_polls_when_woken:
  assumes "poll_future fut (L\<lparr>lp_stop := False, lp_future_ready := False\<rparr>) = (None, fut1, L1)"
    and "dispatch_events K ops n None L1 = (Ok (), L2)" and "s 0 = cb (dispatch_idles run_idle L2)"
    and "\<forall>j < k. \<exists>u. dispatch_events K ops n None (s j) = (Ok (), u) \<and> s (Suc j) = cb (dispatch_idles run_idle u)"
    and "\<forall>j < k. \<not> lp_stop (s j) \<and> \<not> lp_future_ready (s j)"
    and "\<not> lp_stop (s k)" and "lp_future_ready (s k)"
    and "poll_future fut1 ((s k)\<lparr>lp_future_ready := False\<rparr>) = (Some x, fut2, L')" and "k + 2 \<le> m"
  shows "block_on K ops run_idle n m poll_future cb fut L = (Ok (Some x), L')"
proof -
  have m: "m = Suc (Suc (m - k - 2) + k)" using assms(9) by simp
  have "block_on K ops run_idle n m poll_future cb fut L
      = block_on_loop K ops run_idle n poll_future cb (Suc (m - k - 2) + k) fut1 (s 0)"
    using assms(1-3) by (subst m) (simp add: block_on_def)
  also have "\<dots> = block_on_loop K ops run_idle n poll_future cb (Suc (m - k - 2)) fut1 (s k)"
    using block_on_loop_iterates [of k K ops n s 0 cb run_idle poll_future "Suc (m - k - 2)" fut1] assms(4,5) by simp
  also have "\<dots> = (Ok (Some x), L')" using assms(6-8) by simp
  finally show ?thesis .
qed

text \<open>A future that is pending once, and a loop callback that wakes it in its second call.\<close>

definition once_pending :: "nat \<Rightarrow> (script_poller, nat list) app_state \<Rightarrow> nat option \<times> nat \<times> (script_poller, nat list) app_state" where
  "once_pending fut L = (if fut = 0 then (None, 1, L) else (Some 42, 2, L))"

definition waking_cb :: "(script_poller, nat list) app_state \<Rightarrow> (script_poller, nat list) app_state" where
  "waking_cb L = (if lp_data L = [] then L\<lparr>lp_data := [1]\<rparr> else loop_waker_wake SP L)"

lemma idle_dispatch_events:
  assumes "lp_poll L = demo_poll []" and "lp_lifecycle L = []" and "lp_synthetic L = []"
  shows "dispatch_events SP ops (Suc n) None L = (Ok (), L)"
proof -
  have "poll_retry SP (Suc n) now None (lp_poll L) = (Ok (Some []), lp_poll L)" for now
    unfolding assms(1)
    by (simp add: Poll_poll_def SP_def sp_wait_def demo_poll_def poll_timeout_def drain_expired.simps wheel_next_expired_def
        wheel_next_deadline_def TimerWheel_new_def Let_def)
  moreover have "L\<lparr>lp_synthetic := []\<rparr> = L" using assms(3) by simp
  ultimately show ?thesis using assms(2,3) by (simp add: dispatch_events_def loop_poll_def Let_def)
qed

theorem block_on_polls_when_woken_witness:
  "\<exists>L'. block_on SP app_demo_ops app_demo_idle 1 3 once_pending waking_cb 0 app_demo = (Ok (Some 42), L')"
proof -
  define s where "s = rec_nat (waking_cb app_demo) (\<lambda>_. waking_cb)"
  have init: "app_demo\<lparr>lp_stop := False, lp_future_ready := False\<rparr> = app_demo" by (simp add: app_demo_def)
  have s: "s 0 = app_demo\<lparr>lp_data := [1]\<rparr>" "s 1 = app_demo\<lparr>lp_data := [1], lp_future_ready := True\<rparr>"
    by (simp_all add: s_def waking_cb_def app_demo_def loop_waker_wake_def signal_wakeup_def Notifier_notify_def SP_def demo_poll_def)
  have idle: "dispatch_events SP app_demo_ops 1 None app_demo = (Ok (), app_demo)"
    "dispatch_events SP app_demo_ops 1 None (s 0) = (Ok (), s 0)"
    using idle_dispatch_events [of _ app_demo_ops 0] by (simp_all add: s app_demo_def)
  have no_idles: "dispatch_idles app_demo_idle app_demo = app_demo" "dispatch_idles app_demo_idle (s 0) = s 0"
    by (simp_all add: dispatch_idles_def s app_demo_def)
  have step: "s (Suc 0) = waking_cb (s 0)" by (simp add: s_def)
  show ?thesis
    using block_on_polls_when_woken [of once_pending 0 app_demo 1 app_demo SP app_demo_ops 1 app_demo s waking_cb app_demo_idle 1
        42 2 "(s 1)\<lparr>lp_future_ready := False\<rparr>" 3] idle no_idles s step init
    by (auto simp: once_pending_def app_demo_def s_def)
qed

section \<open>Reachable loops\<close>

text \<open>
  C2: in every state a loop reaches by calls and dispatches, with any mixture of callbacks that
  make API calls and with calls and dispatches that fail, slot \<open>i\<close> carries slot number \<open>i\<close>, every
  token that is accepted names a dispatcher that exists, and no dispatcher is left borrowed.
\<close>

theorem reachable_loop_consistent:
  assumes "callback_contract K ops run_idle" and "reach K ops run_idle D L"
  shows "(\<forall>i < length (lp_sources L). get_id (se_token (lp_sources L ! i)) = i) \<and>
    (\<forall>t did. sl_lookup (lp_sources L) t = Some did \<longrightarrow>
      did < length (lp_cells L) \<and> \<not> cell_borrowed (lp_cells L ! did)) \<and>
    (\<forall>did < length (lp_cells L). \<not> cell_borrowed (lp_cells L ! did))"
proof -
  have inv: "core_inv None L" by (rule callback_contract.reach_inv [OF assms])
  show ?thesis
    using core_invD(1) [OF inv] core_invD(3) [OF inv] core_inv_lookup [OF inv] by (auto simp: slots_wfD)
qed

theorem reachable_loop_consistent_witness:
  "\<exists>L'. api_step SP app_demo_ops any_call app_demo L' \<and> length (lp_sources L') = 1 \<and>
     get_id (se_token (lp_sources L' ! 0)) = 0 \<and> reach SP app_demo_ops app_demo_idle any_call L'"
proof -
  let ?c = "CallInsertSource (Inl (Timer_from_deadline 9)) :: (script_poller, nat list) app_call"
  have new: "try_new SP (Inr \<lparr>sp_regs = [], sp_now = 0, sp_level = True, sp_script = []\<rparr>) [] = Ok app_demo"
    by (simp add: try_new_def Poll_new_def Poll_new_inner_def SP_def SourceList_new_def app_demo_def demo_poll_def)
  obtain L' where e: "exec_call SP app_demo_ops ?c app_demo = (Ok (), L')" "length (lp_sources L') = 1"
    by (simp add: app_demo_ops_def app_ops_def sum_ops_def sum_result_def timer_ops_def source_defs insert_source_def
        Dispatcher_new_def register_dispatcher_def vacant_entry_def loop_register_def disp_register_def store_disp_def
        app_demo_def TokenInner_new_def set_source_def Timer_from_deadline_def Timer_from_deadline_inner_def
        default_needs_extra_def wheel_insert_def Let_def split: prod.split)
  have step: "api_step SP app_demo_ops any_call app_demo L'"
    by (rule api_step.call [OF _ _ e(1)]) (simp_all add: any_call_def valid_call_def)
  then have r: "reach SP app_demo_ops app_demo_idle any_call L'"
    using reach.called reach.created [OF new] by blast
  from reachable_loop_consistent [OF app_demo_contract r] e(2) step r show ?thesis by auto
qed

end
