(* ===== verification/Async_Laws.thy ===== *)
theory Async_Laws
  imports Loop_Laws
begin

text \<open>
  The \<open>Async\<close> adapter of \<open>src/src/io.rs\<close> in the loop: a pending future is woken by the event for
  its descriptor and then finds the readiness, an adapter that is dropped leaves the table and the
  poller as they were, and one whose creation fails does not.
\<close>

section \<open>The dispatcher of an adapter\<close>

lemma io_at_put [simp]: "did < length (lp_cells L) \<Longrightarrow> io_at did (io_put did io L) = Some io"
  by (simp add: io_at_def io_put_def)

lemma io_at_frame [simp]:
  "io_at did (L\<lparr>lp_poll := P\<rparr>) = io_at did L" "io_at did (L\<lparr>lp_woken := ws\<rparr>) = io_at did L"
  "io_at did (L\<lparr>lp_pending := pa\<rparr>) = io_at did L" "io_at did (L\<lparr>lp_sources := sl\<rparr>) = io_at did L"
  by (simp_all add: io_at_def)

lemma io_put_frames [simp]:
  "lp_woken (io_put did io L) = lp_woken L" "lp_pending (io_put did io L) = lp_pending L"
  "lp_poll (io_put did io L) = lp_poll L" "cell_borrowed (lp_cells (io_put did io L) ! d) = cell_borrowed (lp_cells L ! d)"
  by (cases "did < length (lp_cells L)"; simp add: io_put_def nth_list_update list_update_beyond)+

lemma io_reregister_effect:
  assumes "io_reregister K did disp L = (r, L')" and "did < length (lp_cells L)" and "io_at did L = Some disp"
    and "returns r"
  shows "io_at did L' = Some disp \<or> io_at did L' = Some (disp\<lparr>io_is_registered := True\<rparr>)"
    and "lp_woken L' = lp_woken L" "lp_pending L' = lp_pending L" "lp_sources L' = lp_sources L"
    "length (lp_cells L') = length (lp_cells L)" "cell_borrowed (lp_cells L' ! d) = cell_borrowed (lp_cells L ! d)"
  using assms by (auto simp: io_reregister_def Let_def split: option.splits prod.splits if_splits)

lemma register_waker_effect:
  assumes "async_register_waker K a i wk L = (r, L')" and "as_dispatcher a < length (lp_cells L)" and "returns r"
  shows "\<exists>io. io_at (as_dispatcher a) L' = Some io \<and> io_waker io = Some wk \<and> io_interest io = i"
    and "lp_woken L' = lp_woken L" "lp_pending L' = lp_pending L" "lp_sources L' = lp_sources L"
    "length (lp_cells L') = length (lp_cells L)" "cell_borrowed (lp_cells L' ! d) = cell_borrowed (lp_cells L ! d)"
proof -
  obtain disp where d: "io_at (as_dispatcher a) L = Some disp"
    using assms(1,3) by (auto simp: async_register_waker_def split: option.splits)
  define disp' where "disp' = disp\<lparr>io_interest := i, io_waker := Some wk\<rparr>"
  have e: "io_reregister K (as_dispatcher a) disp' (io_put (as_dispatcher a) disp' L) = (r, L')"
    using assms(1) d by (simp add: async_register_waker_def disp'_def Let_def)
  note eff = io_reregister_effect [OF e _ _ assms(3)]
  show "\<exists>io. io_at (as_dispatcher a) L' = Some io \<and> io_waker io = Some wk \<and> io_interest io = i"
    using eff(1) assms(2) by (auto simp: disp'_def)
  show "lp_woken L' = lp_woken L" "lp_pending L' = lp_pending L" "lp_sources L' = lp_sources L"
    "length (lp_cells L') = length (lp_cells L)" "cell_borrowed (lp_cells L' ! d) = cell_borrowed (lp_cells L ! d)"
    using eff(2-) assms(2) by simp_all
qed

lemma async_pending_effect:
  assumes "async_poll K wanted i a wk L = (Ok False, L1)" and "as_dispatcher a < length (lp_cells L)"
  shows "\<exists>io. io_at (as_dispatcher a) L1 = Some io \<and> io_waker io = Some wk \<and> io_interest io = i"
    and "lp_woken L1 = lp_woken L" "lp_pending L1 = lp_pending L" "lp_sources L1 = lp_sources L"
    "length (lp_cells L1) = length (lp_cells L)" "cell_borrowed (lp_cells L1 ! d) = cell_borrowed (lp_cells L ! d)"
proof -
  obtain disp where d: "io_at (as_dispatcher a) L = Some disp"
    using assms(1) by (auto simp: async_poll_def split: option.splits)
  define M where "M = io_put (as_dispatcher a) (snd (io_readiness disp)) L"
  obtain r where r: "async_register_waker K a i wk M = (r, L1)" "returns r"
    using assms(1) d by (auto simp: async_poll_def M_def Let_def split: prod.splits if_splits outcome.splits)
  have "as_dispatcher a < length (lp_cells M)" using assms(2) by (simp add: M_def)
  note eff = register_waker_effect [OF r(1) this r(2)]
  show "\<exists>io. io_at (as_dispatcher a) L1 = Some io \<and> io_waker io = Some wk \<and> io_interest io = i" by (rule eff(1))
  show "lp_woken L1 = lp_woken L" "lp_pending L1 = lp_pending L" "lp_sources L1 = lp_sources L"
    "length (lp_cells L1) = length (lp_cells L)" "cell_borrowed (lp_cells L1 ! d) = cell_borrowed (lp_cells L ! d)"
    using eff(2-) by (simp_all add: M_def)
qed

text \<open>
  C30: a future that waits for a descriptor to be readable and is left pending is woken, once, by
  the next event the loop dispatches to its adapter; if the event says readable, or an error, the
  next poll is ready, with any waker, and consumes that readiness.
\<close>

theorem async_event_wakes_future:
  assumes "readable_poll K a wk L = (Ok False, L1)" and "as_dispatcher a < length (lp_cells L)"
    and "sl_lookup (lp_sources L) (pe_token ev) = Some (as_dispatcher a)"
    and "\<not> cell_borrowed (lp_cells L ! as_dispatcher a)" and "lp_pending L = Continue"
  shows "\<exists>L2. dispatch_event K ops ev L1 = (Ok (), L2) \<and> lp_woken L2 = lp_woken L @ [wk] \<and>
    (rd_readable (pe_readiness ev) \<or> rd_error (pe_readiness ev) \<longrightarrow>
      (\<exists>L3 io. readable_poll K a wk' L2 = (Ok True, L3) \<and> io_at (as_dispatcher a) L3 = Some io \<and>
        io_last_readiness io = Readiness_EMPTY \<and> io_waker io = None))"
proof -
  let ?d = "as_dispatcher a"
  note eff = async_pending_effect [OF assms(1) [unfolded readable_poll_def] assms(2)]
  obtain io where io: "io_at ?d L1 = Some io" "io_waker io = Some wk" using eff(1) by blast
  have cell: "cell_val (lp_cells L1 ! ?d) = IoDisp io" "\<not> cell_borrowed (lp_cells L1 ! ?d)"
    using io(1) eff(6) assms(4) by (auto simp: io_at_def split: dispatcher.splits)
  define io2 where "io2 = io\<lparr>io_last_readiness := pe_readiness ev, io_waker := None\<rparr>"
  define L2 where "L2 = ((io_put ?d io2 L1)\<lparr>lp_woken := lp_woken L @ [wk]\<rparr>)\<lparr>lp_pending := Continue\<rparr>"
  have look: "sl_lookup (lp_sources L1) (forget_sub_id (pe_token ev)) = Some ?d" using assms(3) by (simp add: eff(4))
  have p: "disp_process ops ?d (pe_readiness ev) (pe_token ev) L1 = (Ok Continue, (io_put ?d io2 L1)\<lparr>lp_woken := lp_woken L @ [wk]\<rparr>)"
    using cell io(2) by (simp add: disp_process_def io_process_events_def io2_def eff(2) Let_def)
  have ev: "dispatch_event K ops ev L1 = (Ok (), L2)"
    using look p by (simp add: dispatch_event_def take_pending_def apply_post_action_def unregister_if_removed_def L2_def
        eff(3) assms(5) Let_def)
  have at: "io_at ?d L2 = Some io2" using assms(2) eff(5) by (simp add: L2_def)
  have "\<exists>L3 io. readable_poll K a wk' L2 = (Ok True, L3) \<and> io_at ?d L3 = Some io \<and>
      io_last_readiness io = Readiness_EMPTY \<and> io_waker io = None"
    if "rd_readable (pe_readiness ev) \<or> rd_error (pe_readiness ev)"
    using that at assms(2) eff(5)
    by (intro exI [of _ "io_put ?d (snd (io_readiness io2)) L2"] exI [of _ "snd (io_readiness io2)"])
      (simp add: readable_poll_def async_poll_def io_readiness_def io2_def Let_def L2_def)
  with ev show ?thesis by (auto simp: L2_def)
qed

section \<open>Creating and dropping an adapter\<close>

lemma io_disp_new_simps [simp]:
  "io_fd (io_disp_new fd) = fd" "io_is_registered (io_disp_new fd) = False" "io_waker (io_disp_new fd) = None"
  by (simp_all add: io_disp_new_def)

lemma Poll_register_Ok:
  assumes "poller_contract K regs" and "Poll_register K fd i m t P = (Ok u, P')"
  shows "regs (poller P) fd = None" and "regs (poller P') = (regs (poller P))(fd \<mapsto> (cvt_interest i t, cvt_mode m (pl_supports_level K (poller P))))"
  using assms(2) contract_add(1) [OF assms(1)]
  by (auto simp: Poll_register_def track_level_def Let_def split: prod.splits sum.splits option.splits mode.splits)

lemma async_new_Ok:
  assumes "slots_wf (lp_sources L)" and "Async_new K (Inr b) fd L = (Ok a, L1)"
  shows "\<exists>i sl t P. vacant_entry (lp_sources L) = (Ok i, sl) \<and> t = se_token (sl ! i) \<and>
    as_dispatcher a = length (lp_cells L) \<and>
    Poll_register K fd Interest_EMPTY OneShot t (lp_poll L) = (Ok (), P) \<and> lp_poll L1 = P \<and>
    lp_sources L1 = set_source i (Some (as_dispatcher a)) sl \<and>
    io_at (as_dispatcher a) L1 = Some ((io_disp_new fd)\<lparr>io_token := Some t, io_is_registered := True\<rparr>) \<and>
    length (lp_cells L1) = Suc (as_dispatcher a)"
proof -
  obtain v sl where v: "vacant_entry (lp_sources L) = (v, sl)" by force
  with assms(2) obtain i where i: "v = Ok i" by (cases v) (auto simp: Async_new_def Let_def)
  note ve = vacant_entry_Ok [OF assms(1) v [unfolded i]]
  have tok: "se_token (set_source i x sl ! i) = se_token (sl ! i)" for x using ve(2) by (simp add: set_source_def)
  obtain r P where r: "Poll_register K fd Interest_EMPTY OneShot (se_token (sl ! i)) (lp_poll L) = (r, P)" by force
  show ?thesis
    using assms(2) v i r tok
    by (cases r) (auto simp: Async_new_def io_register_def Let_def io_at_def io_put_def nth_append)
qed


text \<open>
  When the poller refuses the descriptor, \<open>Async::new\<close> returns the error but leaves the slot
  it claimed occupied by a dispatcher nobody owns.
\<close>

theorem failed_async_new_leaks_slot:
  assumes "slots_wf (lp_sources L)" and "vacant_entry (lp_sources L) = (Ok i, sl)"
    and "pl_add K (poller (lp_poll L)) fd (cvt_interest Interest_EMPTY (se_token (sl ! i)))
      (cvt_mode OneShot (pl_supports_level K (poller (lp_poll L)))) = (Inl e, p)"
  shows "\<exists>L1. Async_new K (Inr b) fd L = (Err (IoError e), L1) \<and>
    sl_lookup (lp_sources L) (se_token (sl ! i)) = None \<and>
    sl_lookup (lp_sources L1) (se_token (sl ! i)) = Some (length (lp_cells L))"
proof -
  note ve = vacant_entry_Ok [OF assms(1,2)]
  have "se_token (set_source i x sl ! i) = se_token (sl ! i)" for x using ve(2) by (simp add: set_source_def)
  with assms(2,3) ve show ?thesis
    by (auto simp: Async_new_def io_register_def Poll_register_def sl_lookup_iff error_from_io_def Let_def source_set_source)
qed

section \<open>Witnesses\<close>

definition demo_async :: async_io where
  "demo_async = \<lparr>as_dispatcher = 0, as_was_nonblocking = False\<rparr>"

lemma demo_async_new:
  "\<exists>L. Async_new SP (Inr False) 5 (demo_loop []) = (Ok demo_async, L) \<and> lp_pending L = Continue \<and> lp_woken L = [] \<and>
     sl_lookup (lp_sources L) (demo_token 0) = Some 0 \<and> length (lp_cells L) = 1 \<and> \<not> cell_borrowed (lp_cells L ! 0) \<and>
     (\<exists>L1. readable_poll SP demo_async 77 L = (Ok False, L1))"
  by (simp add: demo_defs demo_async_def Async_new_def vacant_entry_def TokenInner_new_def io_register_def io_put_def io_at_def
      readable_poll_def async_poll_def async_register_waker_def io_reregister_def io_readiness_def Poll_register_def
      Poll_reregister_def track_level_def SP_def io_disp_new_def set_source_def Readiness_EMPTY_def cvt_mode_def
      sl_lookup_iff get_id_def same_source_as_def Let_def)

theorem async_event_wakes_future_witness:
  "\<exists>L L1 L2. Async_new SP (Inr False) 5 (demo_loop []) = (Ok demo_async, L) \<and> readable_poll SP demo_async 77 L = (Ok False, L1) \<and>
     dispatch_event SP demo_base ((demo_event 0)\<lparr>pe_readiness := \<lparr>rd_readable = True, rd_writable = False, rd_error = False\<rparr>\<rparr>) L1
       = (Ok (), L2) \<and> lp_woken L2 = [77] \<and> (\<exists>L3. readable_poll SP demo_async 78 L2 = (Ok True, L3))"
proof -
  let ?ev = "(demo_event 0)\<lparr>pe_readiness := \<lparr>rd_readable = True, rd_writable = False, rd_error = False\<rparr>\<rparr>"
  obtain L L1 where L: "Async_new SP (Inr False) 5 (demo_loop []) = (Ok demo_async, L)" "lp_pending L = Continue" "lp_woken L = []"
    "sl_lookup (lp_sources L) (demo_token 0) = Some 0" "length (lp_cells L) = 1" "\<not> cell_borrowed (lp_cells L ! 0)"
    "readable_poll SP demo_async 77 L = (Ok False, L1)"
    using demo_async_new by blast
  from async_event_wakes_future [OF L(7), of ?ev demo_base 78] L show ?thesis
    by (auto simp: demo_async_def demo_event_def)
qed


theorem failed_async_new_leaks_slot_witness:
  "\<exists>L1 L2. Async_new SP (Inr False) 5 (demo_loop []) = (Ok demo_async, L1) \<and>
     Async_new SP (Inr False) 5 L1 = (Err (IoError AlreadyExists), L2) \<and> sl_lookup (lp_sources L2) (demo_token 1) = Some 1"
proof -
  obtain L1 where n: "Async_new SP (Inr False) 5 (demo_loop []) = (Ok demo_async, L1)" using demo_async_new by blast
  then have L1: "slots_wf (lp_sources L1)" "vacant_entry (lp_sources L1) = (Ok 1, [demo_slot 0, (demo_slot 1)\<lparr>se_source := None\<rparr>])"
    "pl_add SP (poller (lp_poll L1)) 5 e m = (Inl AlreadyExists, poller (lp_poll L1))" "length (lp_cells L1) = 1" for e m
    by (auto simp: demo_defs Async_new_def vacant_entry_def TokenInner_new_def io_register_def io_put_def
        Poll_register_def track_level_def SP_def set_source_def slots_wf_def get_id_def io_disp_new_def Let_def)
  from failed_async_new_leaks_slot [OF L1(1,2), of SP 5 AlreadyExists, OF _ , of _ False] L1(3,4) n show ?thesis
    by (auto simp: demo_slot_def demo_token_def)
qed

end
