(* ===== verification/Async_Flags.thy ===== *)
theory Async_Flags
  imports Async_Laws
begin

text \<open>
  The file status flags of \<open>src/src/io.rs\<close>: an \<open>Async\<close> adapter makes its descriptor non-blocking and gives
  it back as it was. The system's \<open>fcntl\<close> calls and the flag \<open>O_NONBLOCK\<close> are a record of parameters;
  the state \<open>'p\<close> of the poller stands for the rest of the system as well.
\<close>

record 'p fcntl_ops =
  fc_getfl :: "'p \<Rightarrow> raw_fd \<Rightarrow> (io_error + 32 word) \<times> 'p"
  fc_setfl :: "'p \<Rightarrow> raw_fd \<Rightarrow> 32 word \<Rightarrow> (io_error + unit) \<times> 'p"
  fc_nonblock :: "32 word"

section \<open>The operations\<close>

text \<open>\<open>set_nonblocking\<close>; the second definition is what it is on Windows, where \<open>ioctl\<close> sets the flag.\<close>

definition set_nonblocking :: "'p fcntl_ops \<Rightarrow> raw_fd \<Rightarrow> bool \<Rightarrow> 'p \<Rightarrow> (io_error + bool) \<times> 'p" where
  "set_nonblocking F fd is_nonblocking p =
     (case fc_getfl F p fd of
        (Inl e, p1) \<Rightarrow> (Inl e, p1)
      | (Inr previous, p1) \<Rightarrow>
          (let new = (if is_nonblocking then or previous (fc_nonblock F) else and previous (not (fc_nonblock F)));
               was = (and previous (fc_nonblock F) = fc_nonblock F)
           in if new \<noteq> previous then
                (case fc_setfl F p1 fd new of
                   (Inl e, p2) \<Rightarrow> (Inl e, p2)
                 | (Inr _, p2) \<Rightarrow> (Inr was, p2))
              else (Inr was, p1)))"

definition set_nonblocking_windows :: "('p \<Rightarrow> raw_fd \<Rightarrow> bool \<Rightarrow> (io_error + unit) \<times> 'p) \<Rightarrow> raw_fd \<Rightarrow> bool \<Rightarrow> 'p
    \<Rightarrow> (io_error + bool) \<times> 'p" where
  "set_nonblocking_windows ioctl_fionbio fd is_nonblocking p =
     (case ioctl_fionbio p fd is_nonblocking of
        (Inl e, p1) \<Rightarrow> (Inl e, p1)
      | (Inr _, p1) \<Rightarrow> (Inr False, p1))"

definition with_system :: "('p \<Rightarrow> 'a \<times> 'p) \<Rightarrow> ('s, 'i, 'p, 'd) loop_state \<Rightarrow> 'a \<times> ('s, 'i, 'p, 'd) loop_state" where
  "with_system f L = (case f (poller (lp_poll L)) of (r, p) \<Rightarrow> (r, L\<lparr>lp_poll := (lp_poll L)\<lparr>poller := p\<rparr>\<rparr>))"

text \<open>\<open>LoopHandle::adapt_io\<close>, the whole of \<open>Async::new\<close>.\<close>

definition adapt_io :: "'p poller_ops \<Rightarrow> (raw_fd \<Rightarrow> bool \<Rightarrow> 'p \<Rightarrow> (io_error + bool) \<times> 'p) \<Rightarrow> raw_fd \<Rightarrow> ('s, 'i, 'p, 'd) loop_state
    \<Rightarrow> async_io cresult \<times> ('s, 'i, 'p, 'd) loop_state" where
  "adapt_io K nonblocking fd L =
     (case with_system (nonblocking fd True) L of (was_nonblocking, L1) \<Rightarrow> Async_new K was_nonblocking fd L1)"

text \<open>\<open>Drop for Async\<close>: \<open>kill\<close>, then the flag as it was; a failure of the latter is ignored.\<close>

definition async_close :: "'p poller_ops \<Rightarrow> (raw_fd \<Rightarrow> bool \<Rightarrow> 'p \<Rightarrow> (io_error + bool) \<times> 'p) \<Rightarrow> async_io \<Rightarrow> ('s, 'i, 'p, 'd) loop_state
    \<Rightarrow> unit cresult \<times> ('s, 'i, 'p, 'd) loop_state" where
  "async_close K nonblocking a L =
     and_then (async_drop K a L)
       (\<lambda>_ L1. case io_at (as_dispatcher a) L1 of
          None \<Rightarrow> (Panic, L1)
        | Some disp \<Rightarrow>
            (case with_system (nonblocking (io_fd disp) (as_was_nonblocking a)) L1 of (_, L2) \<Rightarrow> (Ok (), L2)))"

text \<open>\<open>into_inner\<close>: the descriptor is moved out and the adapter dropped.\<close>

definition async_into_inner :: "'p poller_ops \<Rightarrow> (raw_fd \<Rightarrow> bool \<Rightarrow> 'p \<Rightarrow> (io_error + bool) \<times> 'p) \<Rightarrow> async_io
    \<Rightarrow> raw_fd option \<Rightarrow> ('s, 'i, 'p, 'd) loop_state \<Rightarrow> raw_fd cresult \<times> ('s, 'i, 'p, 'd) loop_state" where
  "async_into_inner K nonblocking a file L =
     (case file of
        None \<Rightarrow> (Panic, L)
      | Some fd \<Rightarrow> and_then (async_close K nonblocking a L) (\<lambda>_ L1. (Ok fd, L1)))"

section \<open>The system's contract\<close>

text \<open>
  On an open descriptor \<open>F_GETFL\<close> gives its flags and \<open>F_SETFL\<close> sets or clears the flag \<open>O_NONBLOCK\<close>, one
  bit; adding a descriptor to the poller or deleting one changes no flags and closes nothing.
\<close>

definition fcntl_contract :: "'p fcntl_ops \<Rightarrow> ('p \<Rightarrow> raw_fd \<Rightarrow> 32 word) \<Rightarrow> ('p \<Rightarrow> raw_fd set) \<Rightarrow> bool" where
  "fcntl_contract F flags opened \<longleftrightarrow>
     (\<exists>k < 32. fc_nonblock F = push_bit k 1) \<and>
     (\<forall>p fd. fd \<in> opened p \<longrightarrow>
        (\<exists>p'. fc_getfl F p fd = (Inr (flags p fd), p') \<and> flags p' = flags p \<and> opened p' = opened p) \<and>
        (\<forall>n \<in> {or (flags p fd) (fc_nonblock F), and (flags p fd) (not (fc_nonblock F))}.
           \<exists>p'. fc_setfl F p fd n = (Inr (), p') \<and> flags p' = (flags p)(fd := n) \<and> opened p' = opened p))"

definition keeps_flags :: "'p poller_ops \<Rightarrow> ('p \<Rightarrow> raw_fd \<Rightarrow> 32 word) \<Rightarrow> ('p \<Rightarrow> raw_fd set) \<Rightarrow> bool" where
  "keeps_flags K flags opened \<longleftrightarrow>
     (\<forall>p fd ev m. flags (snd (pl_add K p fd ev m)) = flags p \<and> opened (snd (pl_add K p fd ev m)) = opened p) \<and>
     (\<forall>p fd. flags (snd (pl_delete K p fd)) = flags p \<and> opened (snd (pl_delete K p fd)) = opened p)"

lemma single_bit_cases:
  fixes b :: "32 word"
  assumes "k < 32" and "b = push_bit k 1"
  shows "and x b = (if bit x k then b else 0)"
  by (rule bit_eqI) (auto simp: assms bit_simps)

lemma nonblock_word_laws:
  fixes b x :: "'a::len word"
  shows "and (or x b) b = b" and "and (or x b) (not b) = and x (not b)"
    and "and (and x (not b)) b = 0" and "and (and x (not b)) (not b) = and x (not b)"
  by (rule bit_eqI; auto simp: bit_simps)+

lemma word_split_eqI:
  fixes x :: "'a::len word"
  assumes "and x b = and y b" and "and x (not b) = and y (not b)"
  shows "x = y"
proof -
  have "x = or (and x b) (and x (not b))" by (rule bit_eqI) (auto simp: bit_simps)
  also have "\<dots> = y" unfolding assms by (rule bit_eqI) (auto simp: bit_simps)
  finally show ?thesis .
qed

section \<open>The flags of an adapted descriptor\<close>

abbreviation sys_of :: "('s, 'i, 'p, 'd) loop_state \<Rightarrow> 'p" where
  "sys_of L \<equiv> poller (lp_poll L)"

lemma set_nonblocking_effect:
  assumes "fcntl_contract F flags opened" and "fd \<in> opened p" and "nb = fc_nonblock F"
  shows "\<exists>p'. set_nonblocking F fd b p = (Inr (and (flags p fd) nb = nb), p') \<and> opened p' = opened p \<and>
    flags p' = (flags p)(fd := if b then or (flags p fd) nb else and (flags p fd) (not nb))"
proof -
  let ?new = "if b then or (flags p fd) nb else and (flags p fd) (not nb)"
  obtain p1 where get: "fc_getfl F p fd = (Inr (flags p fd), p1)" "flags p1 = flags p" "opened p1 = opened p"
    using assms(1,2) unfolding fcntl_contract_def by blast
  have "fd \<in> opened p1" "?new \<in> {or (flags p1 fd) (fc_nonblock F), and (flags p1 fd) (not (fc_nonblock F))}"
    using get assms(2,3) by simp_all
  then obtain p2 where set: "fc_setfl F p1 fd ?new = (Inr (), p2)" "flags p2 = (flags p1)(fd := ?new)" "opened p2 = opened p1"
    using assms(1) unfolding fcntl_contract_def by blast
  show ?thesis
  proof (cases "?new = flags p fd")
    case True
    then have "set_nonblocking F fd b p = (Inr (and (flags p fd) nb = nb), p1)"
      using get(1) by (auto simp: set_nonblocking_def assms(3) Let_def)
    with True get show ?thesis by (intro exI [of _ p1]) (auto simp: fun_eq_iff)
  next
    case False
    then have "set_nonblocking F fd b p = (Inr (and (flags p fd) nb = nb), p2)"
      using get(1) set(1) by (auto simp: set_nonblocking_def assms(3) Let_def)
    with set get show ?thesis by (intro exI [of _ p2]) simp
  qed
qed

lemma nonblock_all_or_nothing:
  assumes "fcntl_contract F flags opened"
  shows "and x (fc_nonblock F) = fc_nonblock F \<or> and x (fc_nonblock F) = 0"
  using assms single_bit_cases unfolding fcntl_contract_def by metis

lemma poll_keeps_flags:
  assumes "keeps_flags K flags opened"
  shows "flags (poller (snd (Poll_register K fd i m t P))) = flags (poller P)"
    and "opened (poller (snd (Poll_register K fd i m t P))) = opened (poller P)"
    and "flags (poller (snd (Poll_unregister K fd P))) = flags (poller P)"
    and "opened (poller (snd (Poll_unregister K fd P))) = opened (poller P)"
  using assms unfolding keeps_flags_def
  by (auto simp: Poll_register_def Poll_unregister_def track_level_def Let_def
      split: prod.splits sum.splits option.splits mode.splits) (metis snd_conv)+

lemma io_put_poll [simp]: "lp_poll (io_put did io L) = lp_poll L"
  by (simp add: io_put_def)

lemma io_register_keeps_flags:
  assumes "keeps_flags K flags opened"
  shows "flags (sys_of (snd (io_register K did io L))) = flags (sys_of L)"
    and "opened (sys_of (snd (io_register K did io L))) = opened (sys_of L)"
proof -
  have "flags (sys_of (snd (io_register K did io L))) = flags (sys_of L) \<and>
    opened (sys_of (snd (io_register K did io L))) = opened (sys_of L)"
  proof (cases "io_token io")
    case (Some t)
    obtain r P where P: "Poll_register K (io_fd io) Interest_EMPTY OneShot t (lp_poll L) = (r, P)" by force
    with poll_keeps_flags(1,2) [OF assms, of "io_fd io" Interest_EMPTY OneShot t "lp_poll L"] Some show ?thesis
      by (simp add: io_register_def Let_def)
  qed (simp add: io_register_def)
  then show "flags (sys_of (snd (io_register K did io L))) = flags (sys_of L)"
    and "opened (sys_of (snd (io_register K did io L))) = opened (sys_of L)" by simp_all
qed

lemma snd_and_then_const: "snd (and_then q (\<lambda>_ M. (Ok a, M))) = snd q"
  by (cases q; cases "fst q") auto

lemma async_new_keeps_flags:
  assumes "keeps_flags K flags opened"
  shows "flags (sys_of (snd (Async_new K r fd L))) = flags (sys_of L)"
    and "opened (sys_of (snd (Async_new K r fd L))) = opened (sys_of L)"
  by (auto simp: Async_new_def Let_def snd_and_then_const io_register_keeps_flags [OF assms]
      split: sum.splits prod.splits outcome.splits)

lemma async_new_remembers:
  "Async_new K (Inr b) fd L = (Ok a, L1) \<Longrightarrow> as_was_nonblocking a = b"
  by (auto simp: Async_new_def Let_def and_then_Ok_iff split: prod.splits outcome.splits)

lemma async_drop_effect:
  assumes "keeps_flags K flags opened" and "io_at (as_dispatcher a) L = Some disp" and "io_token disp = Some t"
  shows "\<exists>L' disp'. async_drop K a L = (Ok (), L') \<and> flags (sys_of L') = flags (sys_of L) \<and> opened (sys_of L') = opened (sys_of L) \<and>
    io_at (as_dispatcher a) L' = Some disp' \<and> io_fd disp' = io_fd disp"
proof -
  let ?d = "as_dispatcher a"
  obtain r P where u: "Poll_unregister K (io_fd disp) (lp_poll L) = (r, P)" by force
  let ?M = "if io_is_registered disp
      then (if is_ok r then io_put ?d (disp\<lparr>io_is_registered := False\<rparr>) (L\<lparr>lp_poll := P\<rparr>) else L\<lparr>lp_poll := P\<rparr>) else L"
  have drop: "async_drop K a L = (Ok (), ?M\<lparr>lp_sources := sl_release t (lp_sources ?M)\<rparr>)"
    using assms(2,3) u by (simp add: async_drop_def io_kill_def Let_def)
  have at: "\<exists>disp'. io_at ?d (?M\<lparr>lp_sources := sl\<rparr>) = Some disp' \<and> io_fd disp' = io_fd disp" for sl
    using assms(2) by (cases "?d < length (lp_cells L)") (auto simp: io_at_def io_put_def list_update_beyond)
  show ?thesis
    using poll_keeps_flags(3,4) [OF assms(1), of "io_fd disp" "lp_poll L"] u drop at by (auto split: if_splits)
qed

text \<open>When the poller refuses the descriptor, or the flags cannot be set, \<open>adapt_io\<close> fails; in the first case
  the descriptor stays non-blocking.\<close>

lemma adapt_io_flags:
  assumes "fcntl_contract F flags opened" and "keeps_flags K flags opened" and "fd \<in> opened (sys_of L)"
    and "adapt_io K (set_nonblocking F) fd L = (r, L1)" and "nb = fc_nonblock F"
  shows "flags (sys_of L1) = (flags (sys_of L))(fd := or (flags (sys_of L) fd) nb) \<and> opened (sys_of L1) = opened (sys_of L) \<and>
    (\<forall>a. r = Ok a \<longrightarrow> as_was_nonblocking a = (and (flags (sys_of L) fd) nb = nb))"
proof -
  obtain p where p: "set_nonblocking F fd True (sys_of L) = (Inr (and (flags (sys_of L) fd) nb = nb), p)"
    "opened p = opened (sys_of L)" "flags p = (flags (sys_of L))(fd := or (flags (sys_of L) fd) nb)"
    using set_nonblocking_effect [OF assms(1,3,5), of True] by auto
  let ?M = "L\<lparr>lp_poll := (lp_poll L)\<lparr>poller := p\<rparr>\<rparr>"
  have new: "Async_new K (Inr (and (flags (sys_of L) fd) nb = nb)) fd ?M = (r, L1)"
    using assms(4) p(1) by (simp add: adapt_io_def with_system_def)
  have "flags (sys_of L1) = flags p" "opened (sys_of L1) = opened p"
    using async_new_keeps_flags [OF assms(2), of "Inr (and (flags (sys_of L) fd) nb = nb)" fd ?M] new by simp_all
  moreover have "as_was_nonblocking a = (and (flags (sys_of L) fd) nb = nb)" if "r = Ok a" for a
    using async_new_remembers new that by blast
  ultimately show ?thesis using p by simp
qed

lemma async_close_flags:
  assumes "fcntl_contract F flags opened" and "keeps_flags K flags opened" and "fd \<in> opened (sys_of L)"
    and "io_at (as_dispatcher a) L = Some disp" and "io_fd disp = fd" and "io_token disp = Some t" and "nb = fc_nonblock F"
  shows "\<exists>L'. async_close K (set_nonblocking F) a L = (Ok (), L') \<and> opened (sys_of L') = opened (sys_of L) \<and>
    flags (sys_of L') = (flags (sys_of L))(fd := if as_was_nonblocking a then or (flags (sys_of L) fd) nb else and (flags (sys_of L) fd) (not nb))"
proof -
  obtain L1 disp' where d: "async_drop K a L = (Ok (), L1)" "flags (sys_of L1) = flags (sys_of L)" "opened (sys_of L1) = opened (sys_of L)"
    "io_at (as_dispatcher a) L1 = Some disp'" "io_fd disp' = fd"
    using async_drop_effect [OF assms(2,4,6)] assms(5) by auto
  then have "fd \<in> opened (sys_of L1)" using assms(3) by simp
  from set_nonblocking_effect [OF assms(1) this assms(7), of "as_was_nonblocking a"]
  obtain p where p: "set_nonblocking F fd (as_was_nonblocking a) (sys_of L1) = (Inr (and (flags (sys_of L) fd) nb = nb), p)"
    "opened p = opened (sys_of L)"
    "flags p = (flags (sys_of L))(fd := if as_was_nonblocking a then or (flags (sys_of L) fd) nb else and (flags (sys_of L) fd) (not nb))"
    unfolding d(2,3) by blast
  with d show ?thesis by (simp add: async_close_def with_system_def)
qed

text \<open>
  C31: an adapter gives its descriptor back as it found it. While the adapter exists the descriptor
  is non-blocking and its other flags are as before; when it is dropped, whatever happened in
  between, the non-blocking flag is what it was before the adapter was made, and the other flags
  of this descriptor and those of all others are left as they are then.
\<close>

theorem adapter_restores_flags:
  assumes "fcntl_contract F flags opened" and "keeps_flags K flags opened" and "nb = fc_nonblock F"
    and "adapt_io K (set_nonblocking F) fd L = (Ok a, L1)" and "fd \<in> opened (sys_of L)"
    and "io_at (as_dispatcher a) L2 = Some disp" and "io_fd disp = fd" and "io_token disp = Some t" and "fd \<in> opened (sys_of L2)"
    and "async_close K (set_nonblocking F) a L2 = (r, L3)"
  shows "and (flags (sys_of L1) fd) nb = nb \<and> and (flags (sys_of L1) fd) (not nb) = and (flags (sys_of L) fd) (not nb) \<and>
    r = Ok () \<and> and (flags (sys_of L3) fd) nb = and (flags (sys_of L) fd) nb \<and>
    and (flags (sys_of L3) fd) (not nb) = and (flags (sys_of L2) fd) (not nb) \<and>
    (\<forall>fd'. fd' \<noteq> fd \<longrightarrow> flags (sys_of L3) fd' = flags (sys_of L2) fd') \<and>
    (flags (sys_of L2) = flags (sys_of L1) \<longrightarrow> flags (sys_of L3) = flags (sys_of L))"
proof -
  note opened = adapt_io_flags [OF assms(1,2,5,4,3)]
  note closed = async_close_flags [OF assms(1,2,9,6,7,8,3), unfolded assms(10) prod.inject]
  have was: "as_was_nonblocking a = (and (flags (sys_of L) fd) nb = nb)" using opened by simp
  have all: "and (flags (sys_of L) fd) nb = nb \<or> and (flags (sys_of L) fd) nb = 0"
    using nonblock_all_or_nothing [OF assms(1)] unfolding assms(3) by blast
  have F1: "flags (sys_of L1) = (flags (sys_of L))(fd := or (flags (sys_of L) fd) nb)" using opened by simp
  have F3: "r = Ok ()" "flags (sys_of L3) = (flags (sys_of L2))(fd := if as_was_nonblocking a then or (flags (sys_of L2) fd) nb
      else and (flags (sys_of L2) fd) (not nb))" using closed by auto
  have bit: "and (flags (sys_of L3) fd) nb = and (flags (sys_of L) fd) nb"
    using F3(2) was all nonblock_word_laws(1,3) by auto
  have rest: "and (flags (sys_of L3) fd) (not nb) = and (flags (sys_of L2) fd) (not nb)"
    using F3(2) nonblock_word_laws(2,4) by auto
  have restored: "flags (sys_of L3) = flags (sys_of L)" if "flags (sys_of L2) = flags (sys_of L1)"
  proof
    fix f
    show "flags (sys_of L3) f = flags (sys_of L) f"
    proof (cases "f = fd")
      case True
      have "and (flags (sys_of L2) fd) (not nb) = and (flags (sys_of L) fd) (not nb)"
        using that F1 nonblock_word_laws(2) by simp
      with bit rest True show ?thesis using word_split_eqI [of _ nb] by simp
    next
      case False
      with F3(2) F1 that show ?thesis by simp
    qed
  qed
  have "and (flags (sys_of L1) fd) nb = nb \<and> and (flags (sys_of L1) fd) (not nb) = and (flags (sys_of L) fd) (not nb)"
    using F1 nonblock_word_laws(1,2) by simp
  with F3 bit rest restored show ?thesis by simp
qed

section \<open>A poller with descriptor flags\<close>

definition on_first :: "('p \<Rightarrow> 'a \<times> 'p) \<Rightarrow> 'p \<times> 'f \<Rightarrow> 'a \<times> 'p \<times> 'f" where
  "on_first f s = (case f (fst s) of (r, p) \<Rightarrow> (r, p, snd s))"

definition flagged :: "'p poller_ops \<Rightarrow> ('p \<times> (raw_fd \<Rightarrow> 32 word)) poller_ops" where
  "flagged K =
     \<lparr>pl_now = (\<lambda>s. pl_now K (fst s)), pl_supports_level = (\<lambda>s. pl_supports_level K (fst s)),
      pl_add = (\<lambda>s fd ev m. on_first (\<lambda>p. pl_add K p fd ev m) s),
      pl_modify = (\<lambda>s fd ev m. on_first (\<lambda>p. pl_modify K p fd ev m) s),
      pl_delete = (\<lambda>s fd. on_first (\<lambda>p. pl_delete K p fd) s),
      pl_wait = (\<lambda>s t. on_first (\<lambda>p. pl_wait K p t) s),
      pl_notify = on_first (pl_notify K)\<rparr>"

definition FLK :: "('p \<times> (raw_fd \<Rightarrow> 32 word)) fcntl_ops" where
  "FLK = \<lparr>fc_getfl = (\<lambda>s fd. (Inr (snd s fd), s)), fc_setfl = (\<lambda>s fd n. (Inr (), (fst s, (snd s)(fd := n)))), fc_nonblock = 2048\<rparr>"

lemma flagged_laws: "keeps_flags (flagged K) snd (\<lambda>_. UNIV)" "fcntl_contract FLK snd (\<lambda>_. UNIV)"
proof -
  show "keeps_flags (flagged K) snd (\<lambda>_. UNIV)" by (simp add: keeps_flags_def flagged_def on_first_def split: prod.split)
  have "(2048 :: 32 word) = push_bit 11 1" by simp
  then show "fcntl_contract FLK snd (\<lambda>_. UNIV)" unfolding fcntl_contract_def FLK_def
    by (auto intro!: exI [of _ "11 :: nat"])
qed

definition flagged_loop :: "(nat, nat, script_poller \<times> (raw_fd \<Rightarrow> 32 word), nat list) loop_state" where
  "flagged_loop =
     \<lparr>lp_poll = \<lparr>poller = (\<lparr>sp_regs = [], sp_now = 0, sp_level = True, sp_script = []\<rparr>, \<lambda>_. 2),
                level_triggered = None, timers = TimerWheel_new\<rparr>,
      lp_sources = [], lp_cells = [], lp_lifecycle = [],
      lp_idles = [], lp_idle_cells = [], lp_pending = Continue, lp_stop = False, lp_future_ready = False,
      lp_synthetic = [], lp_woken = [], lp_data = []\<rparr>"

lemma flagged_adapt:
  "\<exists>L1 disp t. adapt_io (flagged SP) (set_nonblocking FLK) 5 flagged_loop = (Ok demo_async, L1) \<and>
     io_at 0 L1 = Some disp \<and> io_fd disp = 5 \<and> io_token disp = Some t"
  by (simp add: flagged_loop_def demo_async_def adapt_io_def with_system_def set_nonblocking_def FLK_def Async_new_def vacant_entry_def
      TokenInner_new_def io_register_def io_put_def io_at_def Poll_register_def track_level_def flagged_def on_first_def SP_def
      io_disp_new_def set_source_def cvt_mode_def Let_def)

theorem adapter_restores_flags_witness:
  "\<exists>L1 L3. adapt_io (flagged SP) (set_nonblocking FLK) 5 flagged_loop = (Ok demo_async, L1) \<and>
     async_close (flagged SP) (set_nonblocking FLK) demo_async L1 = (Ok (), L3) \<and>
     and (snd (sys_of L1) 5) 2048 = 2048 \<and> snd (sys_of L3) = (\<lambda>_. 2)"
proof -
  obtain L1 disp t where a: "adapt_io (flagged SP) (set_nonblocking FLK) 5 flagged_loop = (Ok demo_async, L1)"
    "io_at 0 L1 = Some disp" "io_fd disp = 5" "io_token disp = Some t" using flagged_adapt by blast
  obtain r L3 where c: "async_close (flagged SP) (set_nonblocking FLK) demo_async L1 = (r, L3)" by force
  have nb: "2048 = fc_nonblock FLK" by (simp add: FLK_def)
  have at: "io_at (as_dispatcher demo_async) L1 = Some disp" using a(2) by (simp add: demo_async_def)
  have zero: "snd (sys_of flagged_loop) = (\<lambda>_. 2)" by (simp add: flagged_loop_def)
  from adapter_restores_flags [OF flagged_laws(2) flagged_laws(1) nb a(1) UNIV_I at a(3,4) UNIV_I c] a(1) c zero show ?thesis
    by auto
qed

end
