(* ===== verification/Lifecycle_Calls.thy ===== *)
theory Lifecycle_Calls
  imports Loop_Instance
begin

text \<open>
  The additional lifecycle events of \<open>src/src/loop_logic.rs\<close> and \<open>src/src/sources/mod.rs\<close>: the
  invariant that every token of the lifecycle set names a source that wants the events, and that
  each call of tidy user code keeps it.
\<close>

section \<open>What the lifecycle set holds\<close>

text \<open>Whether a dispatcher wants the lifecycle events; \<open>None\<close> for an \<open>Async\<close> adapter.\<close>

definition cell_kind :: "'s cell \<Rightarrow> bool option" where
  "cell_kind c = (case cell_val c of SourceDisp di \<Rightarrow> Some (di_needs di) | IoDisp _ \<Rightarrow> None)"

text \<open>The flag stored in the dispatcher is the constant of the type of its source.\<close>

definition cell_typed :: "('s, 'p, 'w) source_ops \<Rightarrow> 's cell \<Rightarrow> bool" where
  "cell_typed ops c = (case cell_val c of SourceDisp di \<Rightarrow> di_needs di = so_needs_extra ops (di_source di) | IoDisp _ \<Rightarrow> True)"

definition live_token :: "('s, 'i, 'p, 'd) loop_state \<Rightarrow> registration_token \<Rightarrow> bool" where
  "live_token L t \<longleftrightarrow>
     (\<exists>d. sl_lookup (lp_sources L) t = Some d \<and> d < length (lp_cells L) \<and> cell_kind (lp_cells L ! d) = Some True)"

definition life_inv :: "('s, 'i, 'p, 'd) loop_ops \<Rightarrow> ('s, 'i, 'p, 'd) loop_state \<Rightarrow> bool" where
  "life_inv ops L \<longleftrightarrow>
     (\<forall>d < length (lp_cells L). cell_typed ops (lp_cells L ! d)) \<and>
     (\<forall>t \<in> set (lp_lifecycle L). tok_sub_id t = 0 \<and> live_token L t)"

lemma life_invD:
  assumes "life_inv ops L"
  shows "d < length (lp_cells L) \<Longrightarrow> cell_typed ops (lp_cells L ! d)"
    and "t \<in> set (lp_lifecycle L) \<Longrightarrow> tok_sub_id t = 0"
    and "t \<in> set (lp_lifecycle L) \<Longrightarrow> live_token L t"
  using assms by (auto simp: life_inv_def)

lemma same_source_no_sub_id:
  "same_source_as t u \<Longrightarrow> tok_sub_id t = 0 \<Longrightarrow> tok_sub_id u = 0 \<Longrightarrow> t = u"
  by (simp add: same_source_as_def)

text \<open>Cells are only added, and keep their kind.\<close>

definition kinds_kept :: "('s, 'i, 'p, 'd) loop_state \<Rightarrow> ('s, 'i, 'p, 'd) loop_state \<Rightarrow> bool" where
  "kinds_kept L L' \<longleftrightarrow> (\<forall>d < length (lp_cells L). d < length (lp_cells L') \<and> cell_kind (lp_cells L' ! d) = cell_kind (lp_cells L ! d))"

lemma kinds_kept_refl [simp]: "kinds_kept L L"
  by (simp add: kinds_kept_def)

lemma kinds_kept_trans: "kinds_kept L M \<Longrightarrow> kinds_kept M N \<Longrightarrow> kinds_kept L N"
  by (auto simp: kinds_kept_def)

lemma kinds_kept_cell:
  "(did < length (lp_cells L) \<Longrightarrow> cell_kind c = cell_kind (lp_cells L ! did)) \<Longrightarrow>
     kinds_kept L (L\<lparr>lp_cells := (lp_cells L)[did := c]\<rparr>)"
  by (cases "did < length (lp_cells L)") (auto simp: kinds_kept_def nth_list_update)

lemma kinds_kept_append: "kinds_kept L (L\<lparr>lp_cells := lp_cells L @ cs\<rparr>)"
  by (auto simp: kinds_kept_def nth_append)

text \<open>
  A change after which the cells are still typed, and the lifecycle set holds tokens that are
  live, keeps the invariant.
\<close>

lemma live_token_kept:
  assumes "live_token L t" and "kinds_kept L L'" and "sl_lookup (lp_sources L') t = sl_lookup (lp_sources L) t"
  shows "live_token L' t"
  using assms by (auto simp: live_token_def kinds_kept_def)

lemma life_inv_store:
  assumes "life_inv ops L" and "store_disp did (r, c, P, lc) L = (q, L')" and "did < length (lp_cells L)"
    and "cell_typed ops c" and "cell_kind c = cell_kind (lp_cells L ! did)"
    and "\<And>t. t \<in> set lc \<Longrightarrow> t \<in> set (lp_lifecycle L) \<or> tok_sub_id t = 0 \<and> live_token L t"
  shows "life_inv ops L' \<and> kinds_kept L L'"
proof -
  have L': "L' = L\<lparr>lp_cells := (lp_cells L)[did := c], lp_poll := P, lp_lifecycle := lc\<rparr>"
    using assms(2) by (simp add: store_disp_def)
  have kept: "kinds_kept L L'" using assms(3,5) by (auto simp: L' kinds_kept_def nth_list_update)
  have "tok_sub_id t = 0 \<and> live_token L' t" if "t \<in> set lc" for t
    using assms(6) [OF that] life_invD(2,3) [OF assms(1)] live_token_kept [OF _ kept] by (auto simp: L')
  moreover have "cell_typed ops (lp_cells L' ! d)" if "d < length (lp_cells L')" for d
    using that assms(4) life_invD(1) [OF assms(1)] by (cases "d = did") (auto simp: L')
  ultimately show ?thesis using kept by (simp add: life_inv_def L')
qed

text \<open>The dispatcher of a source that is running keeps its slot.\<close>

definition running_kept :: "('s, 'i, 'p, 'd) loop_state \<Rightarrow> ('s, 'i, 'p, 'd) loop_state \<Rightarrow> bool" where
  "running_kept L L' \<longleftrightarrow>
     (\<forall>t d. sl_lookup (lp_sources L) t = Some d \<longrightarrow> cell_borrowed (lp_cells L ! d) \<longrightarrow> cell_kind (lp_cells L ! d) \<noteq> None \<longrightarrow>
        sl_lookup (lp_sources L') t = Some d)"

lemma running_kept_lookup: "(\<And>t d. sl_lookup (lp_sources L) t = Some d \<Longrightarrow> sl_lookup (lp_sources L') t = Some d) \<Longrightarrow> running_kept L L'"
  by (simp add: running_kept_def)

lemma claim_slot:
  assumes "slots_wf sl" and "vacant_entry sl = (Ok i, sl1)"
  shows "sl_lookup (set_source i (Some x) sl1) u = (if same_source_as u (se_token (sl1 ! i)) then Some x else sl_lookup sl u)"
    and "sl_lookup (set_source i None (set_source i (Some x) sl1)) u = sl_lookup sl u"
    and "sl_lookup sl u = Some y \<Longrightarrow> \<not> same_source_as u (se_token (sl1 ! i))"
    and "forget_sub_id (se_token (sl1 ! i)) = se_token (sl1 ! i)"
proof -
  note ve = vacant_entry_Ok [OF assms]
  have c: "sl_claim x sl = (Ok (se_token (sl1 ! i)), set_source i (Some x) sl1)"
    using assms(2) by (simp add: sl_claim_def)
  show "sl_lookup (set_source i (Some x) sl1) u = (if same_source_as u (se_token (sl1 ! i)) then Some x else sl_lookup sl u)"
    by (rule slots.claim_lookup [OF assms(1) c])
  have "sl_release (se_token (sl1 ! i)) (set_source i (Some x) sl1) = set_source i None (set_source i (Some x) sl1)"
    using ve(2,4) by (simp add: sl_release_eq)
  then show "sl_lookup (set_source i None (set_source i (Some x) sl1)) u = sl_lookup sl u"
    using slots.claim_release [OF assms(1) c, of u] by simp
  show "sl_lookup sl u = Some y \<Longrightarrow> \<not> same_source_as u (se_token (sl1 ! i))"
    using ve(5) sl_lookup_same [of u "se_token (sl1 ! i)" sl] by auto
  show "forget_sub_id (se_token (sl1 ! i)) = se_token (sl1 ! i)"
    by (rule forget_wf_token [OF ve(1,2)])
qed

lemma life_inv_sources:
  assumes "life_inv ops L" and "lp_cells L' = lp_cells L" and "lp_lifecycle L' = lp_lifecycle L"
    and "\<And>t. t \<in> set (lp_lifecycle L) \<Longrightarrow> sl_lookup (lp_sources L') t = sl_lookup (lp_sources L) t"
  shows "life_inv ops L'"
  using assms live_token_kept [of L _ L'] by (auto simp: life_inv_def kinds_kept_def)

lemma live_entry:
  assumes "core_inv cur L" and "sl_get (lp_sources L) t = Ok e" and "se_source e = Some d"
    and "cell_kind (lp_cells L ! d) = Some True"
  shows "live_token L (forget_sub_id (se_token e))"
proof -
  from assms(2,3) have "sl_lookup (lp_sources L) (forget_sub_id (se_token e)) = Some d"
    by (auto simp: sl_lookup_iff sl_get_iff same_source_as_def forget_sub_id_def get_id_def)
  with core_inv_get [OF assms(1-3)] assms(4) show ?thesis by (simp add: live_token_def)
qed

lemma core_inv_sources_wf: "core_inv cur L \<Longrightarrow> slots_wf (lp_sources L)"
  by (rule core_invD)

lemma life_inv_cell:
  assumes "life_inv ops L" and "did < length (lp_cells L) \<Longrightarrow> cell_typed ops c"
    and "did < length (lp_cells L) \<Longrightarrow> cell_kind c = cell_kind (lp_cells L ! did)"
  shows "life_inv ops (L\<lparr>lp_cells := (lp_cells L)[did := c]\<rparr>)"
proof -
  have "kinds_kept L (L\<lparr>lp_cells := (lp_cells L)[did := c]\<rparr>)" using assms(3) by (rule kinds_kept_cell)
  from live_token_kept [OF _ this] assms(1,2) show ?thesis
    by (cases "did < length (lp_cells L)") (auto simp: life_inv_def nth_list_update)
qed

lemma life_inv_other [simp]:
  "life_inv ops (L\<lparr>lp_poll := P\<rparr>) = life_inv ops L" "life_inv ops (L\<lparr>lp_idles := is\<rparr>) = life_inv ops L"
  "life_inv ops (L\<lparr>lp_idle_cells := cs\<rparr>) = life_inv ops L" "life_inv ops (L\<lparr>lp_pending := pa\<rparr>) = life_inv ops L"
  "life_inv ops (L\<lparr>lp_stop := b\<rparr>) = life_inv ops L" "life_inv ops (L\<lparr>lp_future_ready := b\<rparr>) = life_inv ops L"
  "life_inv ops (L\<lparr>lp_synthetic := es\<rparr>) = life_inv ops L" "life_inv ops (L\<lparr>lp_woken := ws\<rparr>) = life_inv ops L"
  "life_inv ops (L\<lparr>lp_data := d\<rparr>) = life_inv ops L"
  by (simp_all add: life_inv_def live_token_def)

text \<open>Dropping an adapter: the loop after its descriptor was deleted from the poller.\<close>

definition io_deleted :: "'p poller_ops \<Rightarrow> nat \<Rightarrow> io_dispatcher \<Rightarrow> ('s, 'i, 'p, 'd) loop_state \<Rightarrow> ('s, 'i, 'p, 'd) loop_state" where
  "io_deleted K did io L =
     (let un = Poll_unregister K (io_fd io) (lp_poll L) in
      if \<not> io_is_registered io then L
      else if is_ok (fst un) then io_put did (io\<lparr>io_is_registered := False\<rparr>) (L\<lparr>lp_poll := snd un\<rparr>)
      else L\<lparr>lp_poll := snd un\<rparr>)"

lemma async_drop_eq:
  assumes "io_at (as_dispatcher a) L = Some io" and "io_token io = Some tok"
  shows "async_drop K a L =
    (Ok (), (io_deleted K (as_dispatcher a) io L)\<lparr>lp_sources := sl_release tok (lp_sources (io_deleted K (as_dispatcher a) io L))\<rparr>)"
  using assms by (simp add: async_drop_def io_kill_def io_deleted_def Let_def split: prod.split)

text \<open>Writing the dispatcher of an adapter.\<close>

definition io_cell :: "nat \<Rightarrow> ('s, 'i, 'p, 'd) loop_state \<Rightarrow> bool" where
  "io_cell did L \<longleftrightarrow> (did < length (lp_cells L) \<longrightarrow> cell_kind (lp_cells L ! did) = None)"

lemma io_at_cell: "io_at did L = Some io \<Longrightarrow> io_cell did L"
  by (auto simp: io_at_def io_cell_def cell_kind_def split: dispatcher.splits)

lemma io_cell_other [simp]: "io_cell did (L\<lparr>lp_poll := P\<rparr>) = io_cell did L"
  by (simp add: io_cell_def)

lemma life_io_put:
  assumes "io_cell did L"
  shows "life_inv ops L \<Longrightarrow> life_inv ops (io_put did io L)"
    and "kinds_kept L (io_put did io L)" "lp_sources (io_put did io L) = lp_sources L" "io_cell did (io_put did io L)"
  using assms
  by (auto simp: io_put_def io_cell_def cell_typed_def cell_kind_def intro!: life_inv_cell kinds_kept_cell)

section \<open>Tidy user code\<close>

text \<open>
  What user code must observe: a source is not removed through the handle while its callback runs
  (it returns \<open>PostAction::Remove\<close> for that), the token of an adapter is the loop's, and a source
  changed in place keeps its type. The last two hold of every Rust program.
\<close>

definition tidy :: "('s, 'i, 'p, 'd) loop_ops \<Rightarrow> ('s, 'i, 'p, 'd) api_call \<Rightarrow> ('s, 'i, 'p, 'd) loop_state \<Rightarrow> bool" where
  "tidy ops c L =
     (case c of
        CallRemove t \<Rightarrow> (case sl_lookup (lp_sources L) t of None \<Rightarrow> True | Some d \<Rightarrow> \<not> cell_borrowed (lp_cells L ! d))
      | CallAsyncDrop a \<Rightarrow>
          (case io_at (as_dispatcher a) L of
             None \<Rightarrow> True
           | Some io \<Rightarrow> (case io_token io of None \<Rightarrow> True | Some tok \<Rightarrow> sl_lookup (lp_sources L) tok = Some (as_dispatcher a)))
      | CallSourceMut did f \<Rightarrow>
          (case cell_val (lp_cells L ! did) of
             SourceDisp di \<Rightarrow> so_needs_extra ops (f (di_source di)) = so_needs_extra ops (di_source di)
           | IoDisp _ \<Rightarrow> True)
      | _ \<Rightarrow> True)"

section \<open>Sources with lifecycle events\<close>

text \<open>
  The contract of the sources: \<open>NEEDS_EXTRA_LIFECYCLE_EVENTS\<close> is a constant of the type, a source
  that has it registers and unregisters without an error, and a re-registration hands back a
  token factory of the same registration.
\<close>

locale lifecycle_sources =
  fixes ops :: "('s, 'i, 'p, 'd) loop_ops"
  assumes register_kind: "so_register ops s P (TokenFactory_new t) = (r, s', P', tf') \<Longrightarrow>
      so_needs_extra ops s' = so_needs_extra ops s \<and> (so_needs_extra ops s \<longrightarrow> returns r \<longrightarrow> is_ok r)"
    and reregister_kind: "so_reregister ops s P (TokenFactory_new t) = (r, s', P', tf') \<Longrightarrow>
      so_needs_extra ops s' = so_needs_extra ops s \<and> (is_ok r \<longrightarrow> factory_registration_token tf' = forget_sub_id t)"
    and unregister_kind: "so_unregister ops s P = (r, s', P') \<Longrightarrow>
      so_needs_extra ops s' = so_needs_extra ops s \<and> (so_needs_extra ops s \<longrightarrow> returns r \<longrightarrow> is_ok r)"
begin

lemma disp_register_kind:
  assumes "disp_register ops c P lc (TokenFactory_new t) = (r, c', P', lc')" and "cell_typed ops c" and "returns r"
  shows "cell_typed ops c' \<and> cell_kind c' = cell_kind c \<and>
    (lc' = lc \<or> is_ok r \<and> cell_kind c = Some True \<and> lc' = lc @ [forget_sub_id t])"
  using assms register_kind
  by (auto simp: disp_register_def cell_typed_def cell_kind_def lc_register_def Let_def
      split: dispatcher.splits if_splits prod.splits)

lemma disp_reregister_kind:
  assumes "disp_reregister ops c P lc (TokenFactory_new t) = (r, c', P', lc')" and "cell_typed ops c"
  shows "cell_typed ops c' \<and> cell_kind c' = cell_kind c \<and>
    (lc' = lc \<or> cell_kind c = Some True \<and> lc' = lc @ [forget_sub_id t])"
  using assms
  by (auto simp: disp_reregister_def cell_typed_def cell_kind_def lc_register_def Let_def
      split: dispatcher.splits if_splits prod.splits outcome.splits dest!: reregister_kind)

lemma disp_unregister_kind:
  assumes "disp_unregister K ops c P lc reg = (r, c', P', lc')" and "cell_typed ops c" and "returns r"
  shows "cell_typed ops c' \<and> cell_kind c' = cell_kind c \<and> (lc' = lc \<or> lc' = lc_unregister reg lc) \<and>
    (cell_kind c = Some True \<and> \<not> cell_borrowed c \<longrightarrow> lc' = lc_unregister reg lc)"
  using assms
  by (auto simp: disp_unregister_def cell_typed_def cell_kind_def Let_def
      split: dispatcher.splits if_splits prod.splits outcome.splits dest!: unregister_kind)

lemma life_register:
  assumes "life_inv ops L" and "did < length (lp_cells L)"
    and "cell_kind (lp_cells L ! did) = Some True \<Longrightarrow> live_token L (forget_sub_id t)"
    and "loop_register ops did (TokenFactory_new t) L = (r, L')" and "returns r"
  shows "life_inv ops L' \<and> kinds_kept L L' \<and> (is_ok r \<or> lp_lifecycle L' = lp_lifecycle L)"
proof -
  obtain q c P lc where d: "disp_register ops (lp_cells L ! did) (lp_poll L) (lp_lifecycle L) (TokenFactory_new t) = (q, c, P, lc)"
    by (metis prod.collapse)
  with assms(4,5) have st: "store_disp did (q, c, P, lc) L = (r, L')" and q: "q = r" "returns q"
    by (auto simp: loop_register_def store_disp_def)
  note k = disp_register_kind [OF d life_invD(1) [OF assms(1,2)] q(2)]
  have "life_inv ops L' \<and> kinds_kept L L'"
    by (rule life_inv_store [OF assms(1) st assms(2)]) (use k assms(3) in auto)
  moreover have "lp_lifecycle L' = lc" using st by (auto simp: store_disp_def)
  ultimately show ?thesis using k q by auto
qed

lemma life_reregister:
  assumes "life_inv ops L" and "did < length (lp_cells L)"
    and "cell_kind (lp_cells L ! did) = Some True \<Longrightarrow> live_token L (forget_sub_id t)"
    and "loop_reregister ops did (TokenFactory_new t) L = (r, L')"
  shows "life_inv ops L' \<and> kinds_kept L L'"
proof -
  obtain q c P lc where d: "disp_reregister ops (lp_cells L ! did) (lp_poll L) (lp_lifecycle L) (TokenFactory_new t) = (q, c, P, lc)"
    by (metis prod.collapse)
  with assms(4) have st: "store_disp did (q, c, P, lc) L = (r, L')"
    by (auto simp: loop_reregister_def store_disp_def)
  note k = disp_reregister_kind [OF d life_invD(1) [OF assms(1,2)]]
  show ?thesis by (rule life_inv_store [OF assms(1) st assms(2)]) (use k assms(3) in auto)
qed

lemma life_unregister_gen:
  assumes "\<And>d. d < length (lp_cells L) \<Longrightarrow> cell_typed ops (lp_cells L ! d)"
    and "\<And>t. t \<in> set (lp_lifecycle L) \<Longrightarrow> tok_sub_id t = 0 \<and>
      (live_token L t \<or> t = reg \<and> cell_kind (lp_cells L ! did) = Some True \<and> \<not> cell_borrowed (lp_cells L ! did))"
    and "did < length (lp_cells L)" and "loop_unregister K ops did reg L = (r, L')" and "returns r"
  shows "life_inv ops L' \<and> kinds_kept L L'"
proof -
  obtain q c P lc where d: "disp_unregister K ops (lp_cells L ! did) (lp_poll L) (lp_lifecycle L) reg = (q, c, P, lc)"
    by (metis prod.collapse)
  with assms(4,5) have L': "L' = L\<lparr>lp_cells := (lp_cells L)[did := c], lp_poll := P, lp_lifecycle := lc\<rparr>" and q: "returns q"
    by (auto simp: loop_unregister_def store_disp_def)
  note k = disp_unregister_kind [OF d assms(1) [OF assms(3)] q]
  have kept: "kinds_kept L L'" using k assms(3) by (auto simp: L' kinds_kept_def nth_list_update)
  have "tok_sub_id t = 0 \<and> live_token L' t" if "t \<in> set lc" for t
  proof -
    have "t \<in> set (lp_lifecycle L)" and "lc = lc_unregister reg (lp_lifecycle L) \<Longrightarrow> t \<noteq> reg"
      using that k by (auto simp: lc_unregister_def)
    with k have "t \<in> set (lp_lifecycle L)"
      and "t = reg \<Longrightarrow> \<not> (cell_kind (lp_cells L ! did) = Some True \<and> \<not> cell_borrowed (lp_cells L ! did))" by blast+
    with assms(2) [of t] live_token_kept [OF _ kept] show ?thesis by (auto simp: L')
  qed
  moreover have "cell_typed ops (lp_cells L' ! d)" if "d < length (lp_cells L')" for d
    using that k assms(1) by (cases "d = did") (auto simp: L')
  ultimately show ?thesis using kept by (simp add: life_inv_def L')
qed

lemma life_unregister:
  assumes "life_inv ops L" and "did < length (lp_cells L)"
    and "loop_unregister K ops did reg L = (r, L')" and "returns r"
  shows "life_inv ops L' \<and> kinds_kept L L'"
  by (rule life_unregister_gen [OF _ _ assms(2-4)]) (use life_invD [OF assms(1)] in auto)

section \<open>Calls\<close>

lemma life_register_dispatcher:
  assumes "slots_wf (lp_sources L)" and "life_inv ops L" and "did < length (lp_cells L)"
    and "register_dispatcher ops did L = (r, L')" and "returns r"
  shows "life_inv ops L' \<and> kinds_kept L L' \<and> running_kept L L'"
proof -
  obtain v sl where v: "vacant_entry (lp_sources L) = (v, sl)" by force
  with assms(4,5) obtain i where i: "vacant_entry (lp_sources L) = (Ok i, sl)"
    by (cases v) (auto simp: register_dispatcher_def)
  note claim = claim_slot [OF assms(1) i]
  define sl' tok where "sl' = set_source i (Some did) sl" and "tok = se_token (sl ! i)"
  have tok: "se_token (sl' ! i) = tok" using vacant_entry_Ok(2) [OF assms(1) i] by (simp add: sl'_def tok_def)
  let ?L1 = "L\<lparr>lp_sources := sl'\<rparr>"
  have occupied: "sl_lookup (lp_sources L) t = Some d \<Longrightarrow> sl_lookup sl' t = Some d" for t d
    using claim(1,3) by (simp add: sl'_def)
  have L1: "life_inv ops ?L1"
  proof (rule life_inv_sources [OF assms(2)])
    fix t assume "t \<in> set (lp_lifecycle L)"
    with life_invD(3) [OF assms(2)] obtain d where "sl_lookup (lp_sources L) t = Some d" by (auto simp: live_token_def)
    with occupied show "sl_lookup (lp_sources ?L1) t = sl_lookup (lp_sources L) t" by simp
  qed simp_all
  obtain q L2 where reg: "loop_register ops did (TokenFactory_new tok) ?L1 = (q, L2)" by force
  have src: "lp_sources L2 = sl'" using loop_register_frame(2) [of ops did "TokenFactory_new tok" ?L1] reg by simp
  have q: "returns q" using assms(4,5) i reg tok by (cases q) (auto simp: register_dispatcher_def sl'_def [symmetric] Let_def)
  have "live_token ?L1 (forget_sub_id tok)" if "cell_kind (lp_cells L ! did) = Some True"
    using that assms(3) claim(1) by (auto simp: live_token_def sl'_def tok_def)
  with life_register [OF L1 _ _ reg q] assms(3)
  have L2: "life_inv ops L2" "kinds_kept ?L1 L2" "is_ok q \<or> lp_lifecycle L2 = lp_lifecycle L" by auto
  show ?thesis
  proof (cases "is_ok q")
    case True
    with assms(4) i reg tok have "L' = L2" by (auto simp: register_dispatcher_def sl'_def [symmetric] Let_def is_ok_iff)
    with L2 src occupied show ?thesis by (auto simp: kinds_kept_def running_kept_def)
  next
    case False
    with assms(4) i reg tok q src have L': "L' = L2\<lparr>lp_sources := set_source i None sl'\<rparr>"
      by (cases q) (auto simp: register_dispatcher_def sl'_def [symmetric] Let_def)
    have same: "sl_lookup (lp_sources L') u = sl_lookup (lp_sources L) u" for u
      using claim(2) by (simp add: L' sl'_def)
    have "sl_lookup (lp_sources L') t = sl_lookup (lp_sources L2) t" if "t \<in> set (lp_lifecycle L2)" for t
    proof -
      have "t \<in> set (lp_lifecycle L)" using that L2(3) False by simp
      then obtain d where "sl_lookup (lp_sources L) t = Some d"
        using life_invD(3) [OF assms(2)] by (auto simp: live_token_def)
      with same occupied src show ?thesis by simp
    qed
    then have "life_inv ops L'" by (intro life_inv_sources [OF L2(1)]) (simp_all add: L')
    with L2(2) same show ?thesis by (simp add: kinds_kept_def running_kept_def L')
  qed
qed

lemma life_new_cell:
  assumes "life_inv ops L" and "cell_typed ops c"
  shows "life_inv ops (L\<lparr>lp_cells := lp_cells L @ [c]\<rparr>)"
  using assms live_token_kept [OF _ kinds_kept_append, of L _ "[c]"]
  by (auto simp: life_inv_def nth_append less_Suc_eq)

lemma life_dispatcher_new: "life_inv ops L \<Longrightarrow> life_inv ops (snd (Dispatcher_new ops s L))"
  by (simp add: Dispatcher_new_def life_new_cell cell_typed_def)

lemma life_insert_source:
  assumes "slots_wf (lp_sources L)" and "life_inv ops L" and "insert_source ops s L = (r, L')" and "returns r"
    and bound: "\<And>t d. sl_lookup (lp_sources L) t = Some d \<Longrightarrow> d < length (lp_cells L)"
  shows "life_inv ops L' \<and> kinds_kept L L' \<and> running_kept L L'"
proof -
  define L1 where "L1 = snd (Dispatcher_new ops s L)"
  have L1: "fst (Dispatcher_new ops s L) = length (lp_cells L)" "length (lp_cells L) < length (lp_cells L1)"
    "lp_sources L1 = lp_sources L" "kinds_kept L L1" "\<And>d. d < length (lp_cells L) \<Longrightarrow> lp_cells L1 ! d = lp_cells L ! d"
    using kinds_kept_append [of L] by (simp_all add: L1_def Dispatcher_new_def nth_append)
  obtain q where "register_dispatcher ops (length (lp_cells L)) L1 = (q, L')" "returns q"
    using assms(3,4) L1(1) by (auto simp: insert_source_def L1_def split: prod.splits outcome.splits)
  then have "life_inv ops L' \<and> kinds_kept L1 L' \<and> running_kept L1 L'"
    using life_register_dispatcher [of L1] life_dispatcher_new [OF assms(2)] assms(1) L1 by (simp add: L1_def)
  with L1 kinds_kept_trans bound show ?thesis by (auto simp: running_kept_def)
qed

lemma life_enable:
  assumes "core_inv cur L" and "life_inv ops L" and "tok_sub_id t = 0" and "handle_enable ops t L = (r, L')" and "returns r"
  shows "life_inv ops L' \<and> kinds_kept L L'"
proof (cases "\<exists>e d. sl_get (lp_sources L) t = Ok e \<and> se_source e = Some d")
  case False
  with assms show ?thesis by (auto simp: handle_enable_def split: outcome.splits option.splits)
next
  case True
  then obtain e d where e: "sl_get (lp_sources L) t = Ok e" "se_source e = Some d" by blast
  have d: "d < length (lp_cells L)" by (rule core_inv_get [OF assms(1) e])
  from life_register [OF assms(2) d live_entry [OF assms(1) e]] assms(4,5) e show ?thesis
    by (simp add: handle_enable_def)
qed

lemma life_update:
  assumes "core_inv cur L" and "life_inv ops L" and "tok_sub_id t = 0" and "handle_update ops t L = (r, L')"
  shows "life_inv ops L' \<and> kinds_kept L L'"
proof (cases "\<exists>e d. sl_get (lp_sources L) t = Ok e \<and> se_source e = Some d")
  case False
  with assms show ?thesis by (auto simp: handle_update_def split: outcome.splits option.splits)
next
  case True
  then obtain e d where e: "sl_get (lp_sources L) t = Ok e" "se_source e = Some d" by blast
  have d: "d < length (lp_cells L)" by (rule core_inv_get [OF assms(1) e])
  obtain q M where m: "loop_reregister ops d (TokenFactory_new (se_token e)) L = (q, M)" by force
  have "life_inv ops M \<and> kinds_kept L M" by (rule life_reregister [OF assms(2) d live_entry [OF assms(1) e] m])
  with m assms(4) e show ?thesis by (cases q) (auto simp: handle_update_def kinds_kept_def split: if_splits)
qed

lemma life_disable:
  assumes "core_inv cur L" and "life_inv ops L" and "handle_disable K ops t L = (r, L')" and "returns r"
  shows "life_inv ops L' \<and> kinds_kept L L'"
proof (cases "\<exists>e d. sl_get (lp_sources L) t = Ok e \<and> se_source e = Some d \<and> same_source_as t (se_token e)")
  case False
  with assms show ?thesis by (auto simp: handle_disable_def split: outcome.splits option.splits)
next
  case True
  then obtain e d where e: "sl_get (lp_sources L) t = Ok e" "se_source e = Some d" "same_source_as t (se_token e)" by blast
  have d: "d < length (lp_cells L)" by (rule core_inv_get [OF assms(1) e(1,2)])
  obtain q M where m: "loop_unregister K ops d t L = (q, M)" by force
  with assms(3,4) e have "returns q" by (cases q) (auto simp: handle_disable_def)
  with life_unregister [OF assms(2) d m] have "life_inv ops M \<and> kinds_kept L M" by blast
  with m assms(3) e show ?thesis by (cases q) (auto simp: handle_disable_def kinds_kept_def split: if_splits)
qed

lemma life_remove:
  assumes "core_inv cur L" and "life_inv ops L" and "tok_sub_id t = 0" and "handle_remove K ops t L = (r, L')" and "returns r"
    and tidy: "\<And>d. sl_lookup (lp_sources L) t = Some d \<Longrightarrow> \<not> cell_borrowed (lp_cells L ! d)"
  shows "life_inv ops L' \<and> kinds_kept L L' \<and> running_kept L L'"
proof (cases "sl_lookup (lp_sources L) t")
  case None
  with assms show ?thesis
    by (auto simp: handle_remove_def sl_lookup_def sl_get_def sl_get_mut_def vec_get_def running_kept_def split: option.splits if_splits)
next
  case (Some d)
  then have g: "sl_get_mut (lp_sources L) t = Ok (get_id t)" "se_source (lp_sources L ! get_id t) = Some d"
    by (auto simp: sl_lookup_iff sl_get_mut_iff)
  have d: "d < length (lp_cells L)" by (rule core_inv_lookup [OF assms(1) Some])
  define L1 where "L1 = L\<lparr>lp_sources := sl_release t (lp_sources L)\<rparr>"
  have rel: "sl_release t (lp_sources L) = set_source (get_id t) None (lp_sources L)"
    using g(1) by (simp add: sl_release_def)
  have look: "sl_lookup (lp_sources L1) u = (if same_source_as u t then None else sl_lookup (lp_sources L) u)" for u
    using slots.release_lookup [OF core_inv_sources_wf [OF assms(1)]] by (simp add: L1_def)
  obtain q M where m: "loop_unregister K ops d t L1 = (q, M)" by force
  have L': "L' = M" "returns q"
    using assms(4,5) g m rel by (cases q; auto simp: handle_remove_def log_error_def L1_def)+
  have "life_inv ops M \<and> kinds_kept L1 M"
  proof (rule life_unregister_gen [OF _ _ _ m L'(2)])
    fix u assume "u \<in> set (lp_lifecycle L1)"
    then have u: "tok_sub_id u = 0" "live_token L u" using life_invD(2,3) [OF assms(2)] by (simp_all add: L1_def)
    show "tok_sub_id u = 0 \<and> (live_token L1 u \<or>
        u = t \<and> cell_kind (lp_cells L1 ! d) = Some True \<and> \<not> cell_borrowed (lp_cells L1 ! d))"
    proof (cases "same_source_as u t")
      case True
      with u Some tidy assms(3) same_source_no_sub_id sl_lookup_same [OF True, of "lp_sources L"] show ?thesis
        by (auto simp: live_token_def L1_def)
    next
      case False
      with u look show ?thesis by (simp add: live_token_def) (simp add: L1_def)
    qed
  qed (use life_invD(1) [OF assms(2)] d in \<open>simp_all add: L1_def\<close>)
  moreover have "lp_sources M = lp_sources L1" using loop_register_frame(6) [of K ops d t L1] m by simp
  moreover have "sl_lookup (lp_sources L) u = Some d' \<Longrightarrow> cell_borrowed (lp_cells L ! d') \<Longrightarrow> \<not> same_source_as u t" for u d'
    using tidy sl_lookup_same [of u t "lp_sources L"] by auto
  ultimately show ?thesis using look by (auto simp: kinds_kept_def running_kept_def L1_def L'(1))
qed

lemma life_io_register:
  assumes "life_inv ops L" and "io_cell did L"
  shows "life_inv ops (snd (io_reregister K did disp L)) \<and> kinds_kept L (snd (io_reregister K did disp L)) \<and>
      lp_sources (snd (io_reregister K did disp L)) = lp_sources L"
    and "life_inv ops (snd (io_register K did disp L)) \<and> kinds_kept L (snd (io_register K did disp L)) \<and>
      lp_sources (snd (io_register K did disp L)) = lp_sources L"
proof -
  have "life_inv ops (io_put did io (L\<lparr>lp_poll := P\<rparr>)) \<and> kinds_kept L (io_put did io (L\<lparr>lp_poll := P\<rparr>)) \<and>
      lp_sources (io_put did io (L\<lparr>lp_poll := P\<rparr>)) = lp_sources L" for io P
    using life_io_put [where L = "L\<lparr>lp_poll := P\<rparr>" and did = did and io = io] assms by (simp add: kinds_kept_def)
  with assms show "life_inv ops (snd (io_reregister K did disp L)) \<and> kinds_kept L (snd (io_reregister K did disp L)) \<and>
      lp_sources (snd (io_reregister K did disp L)) = lp_sources L"
    and "life_inv ops (snd (io_register K did disp L)) \<and> kinds_kept L (snd (io_register K did disp L)) \<and>
      lp_sources (snd (io_register K did disp L)) = lp_sources L"
    by (auto simp: io_reregister_def io_register_def Let_def kinds_kept_def split: option.split prod.split)
qed

lemma life_async_register_waker:
  assumes "life_inv ops L"
  shows "life_inv ops (snd (async_register_waker K a i wk L)) \<and> kinds_kept L (snd (async_register_waker K a i wk L)) \<and>
    lp_sources (snd (async_register_waker K a i wk L)) = lp_sources L"
proof (cases "io_at (as_dispatcher a) L")
  case (Some io)
  let ?io = "io\<lparr>io_interest := i, io_waker := Some wk\<rparr>" and ?d = "as_dispatcher a"
  note put = life_io_put [OF io_at_cell [OF Some], where io = ?io]
  from life_io_register(1) [OF put(1) [OF assms] put(4)] put kinds_kept_trans [OF put(2)] Some show ?thesis
    by (simp add: async_register_waker_def Let_def)
qed (simp add: async_register_waker_def assms)

lemma life_async_poll:
  "life_inv ops L \<Longrightarrow> life_inv ops (snd (async_poll K wanted i a wk L)) \<and>
     kinds_kept L (snd (async_poll K wanted i a wk L)) \<and> lp_sources (snd (async_poll K wanted i a wk L)) = lp_sources L"
proof (cases "io_at (as_dispatcher a) L")
  case (Some io)
  define L1 where "L1 = io_put (as_dispatcher a) (snd (io_readiness io)) L"
  assume "life_inv ops L"
  with life_io_put [OF io_at_cell [OF Some]] have L1: "life_inv ops L1" "kinds_kept L L1" "lp_sources L1 = lp_sources L" by (simp_all add: L1_def)
  have "\<exists>q. async_poll K wanted i a wk L = (q, L1) \<or> async_poll K wanted i a wk L = (q, snd (async_register_waker K a i wk L1))"
    using Some by (auto simp: async_poll_def L1_def Let_def io_readiness_def split: outcome.split prod.split)
  with L1 life_async_register_waker [OF L1(1), of K a i wk] kinds_kept_trans show ?thesis by (elim exE disjE) force+
qed (simp add: async_poll_def)

lemma life_async_new:
  assumes "slots_wf (lp_sources L)" and "life_inv ops L" and "Async_new K nb fd L = (r, L')" and "returns r"
  shows "life_inv ops L' \<and> kinds_kept L L' \<and> running_kept L L'"
proof (cases nb)
  case (Inl e)
  with assms show ?thesis by (simp add: Async_new_def running_kept_def)
next
  case (Inr b)
  obtain v sl where v: "vacant_entry (lp_sources L) = (v, sl)" by force
  with assms(3,4) Inr obtain i where i: "vacant_entry (lp_sources L) = (Ok i, sl)"
    by (cases v) (auto simp: Async_new_def Let_def)
  let ?did = "length (lp_cells L)"
  define sl' c where "sl' = set_source i (Some ?did) sl"
    and "c = ((io_disp_new fd)\<lparr>io_token := Some (se_token (sl' ! i))\<rparr>)"
  let ?L1 = "L\<lparr>lp_cells := lp_cells L @ [\<lparr>cell_val = IoDisp c, cell_borrowed = False\<rparr>], lp_sources := sl'\<rparr>"
  have occupied: "sl_lookup (lp_sources L) t = Some d \<Longrightarrow> sl_lookup sl' t = Some d" for t d
    using claim_slot(1,3) [OF assms(1) i] by (simp add: sl'_def)
  have kept: "kinds_kept L ?L1" by (auto simp: kinds_kept_def nth_append)
  have "live_token ?L1 t" if "live_token L t" for t
    using that occupied by (auto simp: live_token_def nth_append)
  then have "life_inv ops ?L1"
    using assms(2) by (auto simp: life_inv_def nth_append less_Suc_eq cell_typed_def)
  moreover have "io_cell ?did ?L1" by (simp add: io_cell_def cell_kind_def)
  ultimately have 2: "life_inv ops (snd (io_register K ?did c ?L1)) \<and> kinds_kept ?L1 (snd (io_register K ?did c ?L1)) \<and>
      lp_sources (snd (io_register K ?did c ?L1)) = sl'"
    using life_io_register(2) by fastforce
  obtain q M where q: "io_register K ?did c ?L1 = (q, M)" by force
  with assms(3) Inr i have "L' = M" by (cases q) (auto simp: Async_new_def sl'_def c_def Let_def)
  with 2 q kinds_kept_trans [OF kept] occupied show ?thesis by (auto simp: running_kept_def)
qed

lemma life_async_drop:
  assumes "core_inv cur L" and "life_inv ops L" and "async_drop K a L = (r, L')" and "returns r"
    and tidy: "\<And>io tok. io_at (as_dispatcher a) L = Some io \<Longrightarrow> io_token io = Some tok \<Longrightarrow>
      sl_lookup (lp_sources L) tok = Some (as_dispatcher a)"
  shows "life_inv ops L' \<and> kinds_kept L L' \<and> running_kept L L'"
proof -
  from assms(3,4) obtain io tok where io: "io_at (as_dispatcher a) L = Some io" "io_token io = Some tok"
    by (auto simp: async_drop_def io_kill_def split: option.splits)
  note own = tidy [OF io]
  note cell = io_at_cell [OF io(1)]
  have k: "cell_kind (lp_cells L ! as_dispatcher a) = None"
    using cell core_inv_lookup [OF assms(1) own] by (simp add: io_cell_def)
  have 1: "life_inv ops (io_put (as_dispatcher a) io2 (L\<lparr>lp_poll := P\<rparr>)) \<and>
      kinds_kept L (io_put (as_dispatcher a) io2 (L\<lparr>lp_poll := P\<rparr>))" for io2 P
    using life_io_put [where L = "L\<lparr>lp_poll := P\<rparr>" and did = "as_dispatcher a" and io = io2] assms(2) cell
    by (simp add: kinds_kept_def)
  define M where "M = io_deleted K (as_dispatcher a) io L"
  have M: "life_inv ops M" "kinds_kept L M" "lp_sources M = lp_sources L"
    using 1 assms(2) by (simp_all add: M_def io_deleted_def Let_def) (simp add: kinds_kept_def)
  have L': "L' = M\<lparr>lp_sources := sl_release tok (lp_sources L)\<rparr>"
    using assms(3) async_drop_eq [OF io, of K] M(3) by (simp add: M_def)
  have look: "sl_lookup (lp_sources L') u = sl_lookup (lp_sources L) u"
    if "sl_lookup (lp_sources L) u = Some d" "cell_kind (lp_cells L ! d) \<noteq> None" for u d
    using that own k slots.release_lookup [OF core_inv_sources_wf [OF assms(1)], of tok u] sl_lookup_same [of u tok "lp_sources L"]
    by (auto simp: L')
  have "sl_lookup (lp_sources L') t = sl_lookup (lp_sources M) t" if t: "t \<in> set (lp_lifecycle M)" for t
  proof -
    obtain d where d: "sl_lookup (lp_sources L) t = Some d" "cell_kind (lp_cells M ! d) = Some True"
      using life_invD(3) [OF M(1) t] M(3) by (auto simp: live_token_def)
    have "cell_kind (lp_cells L ! d) = Some True"
      using d core_inv_lookup [OF assms(1) d(1)] M(2) by (simp add: kinds_kept_def)
    with look [OF d(1)] M(3) show ?thesis by simp
  qed
  then have "life_inv ops L'" by (intro life_inv_sources [OF M(1)]) (simp_all add: L')
  with M(2) look show ?thesis by (auto simp: kinds_kept_def running_kept_def L')
qed

lemma life_source_mut:
  assumes "life_inv ops L" and "tidy ops (CallSourceMut did f) L"
  shows "life_inv ops (snd (as_source_mut did f L)) \<and> kinds_kept L (snd (as_source_mut did f L)) \<and>
    lp_sources (snd (as_source_mut did f L)) = lp_sources L"
proof (cases "cell_val (lp_cells L ! did)")
  case (SourceDisp di)
  let ?c = "(lp_cells L ! did)\<lparr>cell_val := SourceDisp (di\<lparr>di_source := f (di_source di)\<rparr>)\<rparr>"
  have "cell_kind ?c = cell_kind (lp_cells L ! did)" by (simp add: cell_kind_def SourceDisp)
  moreover have "did < length (lp_cells L) \<Longrightarrow> cell_typed ops ?c"
    using assms life_invD(1) [OF assms(1), of did] by (simp add: cell_typed_def SourceDisp tidy_def)
  ultimately show ?thesis
    using life_inv_cell [OF assms(1), of did ?c] kinds_kept_cell [of did L ?c] assms(1) SourceDisp
    by (simp add: as_source_mut_def Let_def)
qed (simp add: as_source_mut_def Let_def assms)

lemma life_sources_same:
  "life_inv ops L' \<and> kinds_kept L L' \<Longrightarrow> lp_sources L' = lp_sources L \<Longrightarrow> life_inv ops L' \<and> kinds_kept L L' \<and> running_kept L L'"
  by (simp add: running_kept_def)

lemma handle_frame:
  "lp_sources (snd (handle_enable ops t L)) = lp_sources L"
  "lp_sources (snd (handle_update ops t L)) = lp_sources L"
  "lp_sources (snd (handle_disable K ops t L)) = lp_sources L"
proof -
  have t: "lp_sources (snd (and_then q (\<lambda>a M. (Ok (), if P a then M\<lparr>lp_pending := x\<rparr> else M)))) = lp_sources (snd q)"
    for q P x by (cases q; cases "fst q") auto
  show "lp_sources (snd (handle_enable ops t L)) = lp_sources L"
    "lp_sources (snd (handle_update ops t L)) = lp_sources L"
    "lp_sources (snd (handle_disable K ops t L)) = lp_sources L"
    by (simp_all add: handle_enable_def handle_update_def handle_disable_def t split: outcome.split option.split)
qed

lemma tidy_call:
  assumes core: "core_inv cur L" and life: "life_inv ops L" and "tidy ops c L" and "valid_call c L"
    and e: "exec_call K ops c L = (r, L')" and r: "returns r"
  shows "life_inv ops L' \<and> kinds_kept L L' \<and> running_kept L L'"
proof -
  have simple: ?thesis
    if "L' = snd (exec_call K ops c L)" "lp_sources L' = lp_sources L" "lp_cells L' = lp_cells L" "lp_lifecycle L' = lp_lifecycle L"
    using that life_inv_sources [OF life, of L'] by (simp add: kinds_kept_def running_kept_def)
  note wf = core_inv_sources_wf [OF core]
  show ?thesis
  proof (cases c)
    case (CallDispatcherNew s)
    with e life_dispatcher_new [OF life, of s] kinds_kept_append [of L] show ?thesis
      by (auto simp: Dispatcher_new_def running_kept_def kinds_kept_def)
  next
    case (CallRegister d)
    with e obtain q where "register_dispatcher ops d L = (q, L')" "returns q"
      using r by (cases "register_dispatcher ops d L") (auto simp: forget_result_def)
    with life_register_dispatcher [OF wf life] assms(4) CallRegister show ?thesis by (simp add: valid_call_def)
  next
    case (CallInsertSource s)
    with e obtain q where "insert_source ops s L = (q, L')" "returns q"
      using r by (cases "insert_source ops s L") auto
    with life_insert_source [OF wf life, of s q L'] core_inv_lookup [OF core] show ?thesis by blast
  next
    case (CallEnable t)
    with life_enable [OF core life, of t r L'] e r assms(4) handle_frame(1) [of t L] show ?thesis
      by (intro life_sources_same) (simp_all add: valid_call_def)
  next
    case (CallUpdate t)
    with life_update [OF core life, of t r L'] e r assms(4) handle_frame(2) [of t L] show ?thesis
      by (intro life_sources_same) (simp_all add: valid_call_def)
  next
    case (CallDisable t)
    with life_disable [OF core life, of K t r L'] e r handle_frame(3) [of K t L] show ?thesis
      by (intro life_sources_same) simp_all
  next
    case (CallRemove t)
    with assms(3) have "\<And>d. sl_lookup (lp_sources L) t = Some d \<Longrightarrow> \<not> cell_borrowed (lp_cells L ! d)"
      by (simp add: tidy_def)
    with life_remove [OF core life _ _ r] CallRemove e assms(4) show ?thesis by (simp add: valid_call_def)
  next
    case (CallSourceMut d f)
    with life_source_mut [OF life, of d f] assms(3) e show ?thesis by (intro life_sources_same) auto
  next
    case (CallAdaptIo nb fd)
    with e obtain q where "Async_new K nb fd L = (q, L')" "returns q"
      using r by (cases "Async_new K nb fd L") (auto simp: forget_result_def)
    with life_async_new [OF wf life] show ?thesis by blast
  next
    case (CallAsyncWait a i wk)
    with life_async_register_waker [OF life, of K a i wk] e show ?thesis by (intro life_sources_same) auto
  next
    case (CallReadable a wk)
    with life_async_poll [OF life, of K rd_readable Interest_READ a wk] e show ?thesis
      by (intro life_sources_same) (auto simp: readable_poll_def forget_result_def)
  next
    case (CallWritable a wk)
    with life_async_poll [OF life, of K rd_writable Interest_WRITE a wk] e show ?thesis
      by (intro life_sources_same) (auto simp: writable_poll_def forget_result_def)
  next
    case (CallAsyncDrop a)
    with assms(3) have "\<And>io tok. io_at (as_dispatcher a) L = Some io \<Longrightarrow> io_token io = Some tok \<Longrightarrow>
        sl_lookup (lp_sources L) tok = Some (as_dispatcher a)" by (simp add: tidy_def)
    with life_async_drop [OF core life _ r] CallAsyncDrop e show ?thesis by simp
  qed (rule simple; use e in \<open>auto simp: insert_idle_def idle_cancel_def signal_stop_def signal_wakeup_def
      loop_waker_wake_def Let_def split: if_splits\<close>)+
qed

lemma tidy_steps:
  assumes "(api_step K ops (tidy ops))\<^sup>*\<^sup>* L L'" and "core_inv cur L" and "life_inv ops L"
  shows "life_inv ops L' \<and> kinds_kept L L' \<and> running_kept L L'"
  using assms(1)
proof (induction rule: rtranclp_induct)
  case base
  with assms(3) show ?case by (simp add: running_kept_def)
next
  case (step M N)
  have core: "core_inv cur M" by (rule core_inv_steps [OF step(1) assms(2)])
  from step(2) obtain c r where c: "tidy ops c M" "valid_call c M" "exec_call K ops c M = (r, N)" "returns r"
    by (rule api_stepE)
  note N = tidy_call [OF core _ c, THEN conjunct2]
  have "sl_lookup (lp_sources N) t = Some d"
    if "sl_lookup (lp_sources L) t = Some d" "cell_borrowed (lp_cells L ! d)" "cell_kind (lp_cells L ! d) \<noteq> None" for t d
  proof -
    have "d < length (lp_cells L)" by (rule core_inv_lookup [OF assms(2) that(1)])
    with that step.IH core_invD(3) [OF assms(2)] core_invD(3) [OF core]
    have "sl_lookup (lp_sources M) t = Some d" "cell_borrowed (lp_cells M ! d)" "cell_kind (lp_cells M ! d) \<noteq> None"
      by (simp_all add: running_kept_def kinds_kept_def)
    with N step.IH show ?thesis by (simp add: running_kept_def)
  qed
  moreover have "life_inv ops N \<and> kinds_kept M N" using tidy_call [OF core _ c] step.IH by blast
  ultimately show ?case using step.IH kinds_kept_trans by (auto simp: running_kept_def)
qed

end

end
