(* ===== verification/Lifecycle_Safety.thy ===== *)
theory Lifecycle_Safety
  imports Lifecycle_Calls
begin

text \<open>
  \<open>dispatch_events\<close> of \<open>src/src/loop_logic.rs\<close> calls \<open>before_sleep\<close> and \<open>before_handle_events\<close> of every
  source in the lifecycle set and is \<open>unreachable!()\<close> where a token of the set names no source.
  This theory states under which contract of sources and callbacks that line is never reached,
  and shows it for every state of the loop. The two conditions that matter are that a source
  with lifecycle events registers and unregisters without an error, and that no source is
  removed through the handle while its own callback runs.
\<close>

section \<open>Dispatching\<close>

text \<open>The contract of the loop with the code it calls, for tidy code.\<close>

locale lifecycle_contract = callback_contract K ops run_idle + lifecycle_sources ops
  for K :: "'p poller_ops" and ops :: "('s, 'i, 'p, 'd) loop_ops"
    and run_idle :: "'i \<Rightarrow> ('s, 'i, 'p, 'd) loop_state \<Rightarrow> ('s, 'i, 'p, 'd) loop_state" +
  assumes process_tidy: "so_process ops s rd t L = (r, s', L') \<Longrightarrow> returns r \<Longrightarrow>
      (api_step K ops (tidy ops))\<^sup>*\<^sup>* L L' \<and> so_needs_extra ops s' = so_needs_extra ops s"
    and sleep_tidy: "so_before_sleep ops s L = (q, s', L') \<Longrightarrow> returns q \<Longrightarrow>
      (api_step K ops (tidy ops))\<^sup>*\<^sup>* L L' \<and> so_needs_extra ops s' = so_needs_extra ops s"
    and handle_tidy: "so_before_handle ops s evs L = (s', L') \<Longrightarrow>
      (api_step K ops (tidy ops))\<^sup>*\<^sup>* L L' \<and> so_needs_extra ops s' = so_needs_extra ops s"
    and idle_tidy: "(api_step K ops (tidy ops))\<^sup>*\<^sup>* L (run_idle f L)"
begin

text \<open>A call of a source: it is borrowed, runs, and is written back.\<close>

lemma life_source_call:
  assumes "core_inv None L" and "life_inv ops L" and "did < length (lp_cells L)" and "cell_val (lp_cells L ! did) = SourceDisp di"
    and run: "(api_step K ops (tidy ops))\<^sup>*\<^sup>* (set_cell did ((lp_cells L ! did)\<lparr>cell_borrowed := True\<rparr>) L) M"
    and "so_needs_extra ops s = so_needs_extra ops (di_source di)"
    and L': "L' = set_cell did \<lparr>cell_val = SourceDisp (di\<lparr>di_source := s\<rparr>), cell_borrowed = False\<rparr> M"
  shows "life_inv ops L' \<and> kinds_kept L L' \<and>
    (\<forall>t. sl_lookup (lp_sources L) t = Some did \<longrightarrow> sl_lookup (lp_sources L') t = Some did)"
proof -
  let ?L = "set_cell did ((lp_cells L ! did)\<lparr>cell_borrowed := True\<rparr>) L"
  have typed: "cell_typed ops (lp_cells L ! did)" by (rule life_invD(1) [OF assms(2,3)])
  have "life_inv ops ?L" unfolding set_cell_def
    using typed by (intro life_inv_cell [OF assms(2)]) (simp_all add: cell_typed_def cell_kind_def)
  moreover have kL: "kinds_kept L ?L" unfolding set_cell_def by (rule kinds_kept_cell) (simp add: cell_kind_def)
  moreover have "core_inv (Some did) ?L" using assms(1,3) by (intro core_inv_borrow) auto
  ultimately have M: "life_inv ops M" "kinds_kept ?L M" "running_kept ?L M" using tidy_steps [OF run] by blast+
  have kM: "did < length (lp_cells M)" "cell_kind (lp_cells M ! did) = Some (di_needs di)"
    using kinds_kept_trans [OF kL M(2)] assms(3,4) by (auto simp: kinds_kept_def cell_kind_def)
  have "life_inv ops L'" unfolding L' set_cell_def
    using typed kM assms(4,6) by (intro life_inv_cell [OF M(1)]) (simp_all add: cell_typed_def cell_kind_def)
  moreover have "kinds_kept M L'" unfolding L' set_cell_def
    using kM by (intro kinds_kept_cell) (simp add: cell_kind_def)
  moreover have "\<forall>t. sl_lookup (lp_sources L) t = Some did \<longrightarrow> sl_lookup (lp_sources L') t = Some did"
    using M(3) assms(3,4) by (simp add: running_kept_def L' cell_kind_def) (simp add: set_cell_def)
  ultimately show ?thesis using kinds_kept_trans [OF kinds_kept_trans [OF kL M(2)]] by blast
qed

lemma life_process:
  assumes "core_inv None L" and "life_inv ops L" and "did < length (lp_cells L)"
    and "disp_process ops did rd t L = (r, L')" and "returns r"
  shows "life_inv ops L' \<and> kinds_kept L L' \<and>
    (\<forall>t. sl_lookup (lp_sources L) t = Some did \<longrightarrow> sl_lookup (lp_sources L') t = Some did)"
proof (cases "cell_val (lp_cells L ! did)")
  case (IoDisp io)
  then have c: "io_cell did L" by (simp add: io_cell_def cell_kind_def)
  from assms(4,5) IoDisp have "\<exists>io' ws. L' = (io_put did io' L)\<lparr>lp_woken := ws\<rparr>"
    by (auto simp: disp_process_def Let_def split: prod.splits if_splits)
  then obtain io' ws where "L' = (io_put did io' L)\<lparr>lp_woken := ws\<rparr>" by blast
  with life_io_put [OF c] assms(2) show ?thesis by (simp add: kinds_kept_def)
next
  case (SourceDisp di)
  let ?L = "set_cell did ((lp_cells L ! did)\<lparr>cell_borrowed := True\<rparr>) L"
  obtain q s M where p: "so_process ops (di_source di) rd t ?L = (q, s, M)" by (metis prod.collapse)
  with SourceDisp assms(4,5) have q: "returns q"
    and L': "L' = set_cell did \<lparr>cell_val = SourceDisp (di\<lparr>di_source := s\<rparr>), cell_borrowed = False\<rparr> M"
    by (auto simp: disp_process_def Let_def split: if_splits)
  from process_tidy [OF p q] life_source_call [OF assms(1-3) SourceDisp _ _ L'] show ?thesis by blast
qed

lemma life_before:
  assumes "core_inv None L" and "life_inv ops L" and "did < length (lp_cells L)"
  shows "disp_before_sleep ops did L = (r, L') \<Longrightarrow> returns r \<Longrightarrow> life_inv ops L'"
    and "disp_before_handle ops did evs L = (r', L') \<Longrightarrow> returns r' \<Longrightarrow> life_inv ops L'"
proof -
  let ?L = "set_cell did ((lp_cells L ! did)\<lparr>cell_borrowed := True\<rparr>) L"
  show "life_inv ops L'" if "disp_before_sleep ops did L = (r, L')" "returns r"
  proof (cases "cell_val (lp_cells L ! did)")
    case (SourceDisp di)
    obtain q s M where p: "so_before_sleep ops (di_source di) ?L = (q, s, M)" by (metis prod.collapse)
    with SourceDisp that have q: "returns q"
      and L': "L' = set_cell did \<lparr>cell_val = SourceDisp (di\<lparr>di_source := s\<rparr>), cell_borrowed = False\<rparr> M"
      by (auto simp: disp_before_sleep_def Let_def split: if_splits)
    from sleep_tidy [OF p q] life_source_call [OF assms SourceDisp _ _ L'] show ?thesis by blast
  qed (use assms that in \<open>simp add: disp_before_sleep_def\<close>)
  show "life_inv ops L'" if "disp_before_handle ops did evs L = (r', L')" "returns r'"
  proof (cases "cell_val (lp_cells L ! did)")
    case (SourceDisp di)
    obtain s M where p: "so_before_handle ops (di_source di) evs ?L = (s, M)" by (metis prod.collapse)
    with SourceDisp that
    have L': "L' = set_cell did \<lparr>cell_val = SourceDisp (di\<lparr>di_source := s\<rparr>), cell_borrowed = False\<rparr> M"
      by (auto simp: disp_before_handle_def Let_def split: if_splits)
    from handle_tidy [OF p] life_source_call [OF assms SourceDisp _ _ L'] show ?thesis by blast
  qed (use assms that in \<open>simp add: disp_before_handle_def\<close>)
qed

text \<open>The two loops over the lifecycle set: the invariant, and that the line \<open>unreachable!()\<close> is not reached.\<close>

lemma life_run_before_sleep:
  "core_inv None L \<Longrightarrow> life_inv ops L \<Longrightarrow> run_before_sleep ops ts timeout L = (r, L') \<Longrightarrow> returns r \<Longrightarrow> life_inv ops L'"
proof (induction ts arbitrary: timeout L)
  case (Cons t ts)
  show ?case
  proof (cases "sl_lookup (lp_sources L) t")
    case (Some did)
    obtain q M where b: "disp_before_sleep ops did L = (q, M)" by force
    have did: "did < length (lp_cells L)" by (rule core_inv_lookup [OF Cons.prems(1) Some])
    from Cons.prems(3,4) Some b have q: "returns q" by (cases q) auto
    note inv = sleep_inv(1) [OF Cons.prems(1) did b q] life_before(1) [OF Cons.prems(1,2) did b q]
    let ?M = "\<lambda>e. M\<lparr>lp_synthetic := lp_synthetic M @ [\<lparr>pe_readiness = fst e, pe_token = snd e\<rparr>]\<rparr>"
    from Cons.IH [of M timeout] Cons.IH [of "?M e" "Some 0" for e] Cons.prems(3,4) Some b inv show ?thesis
      by (cases q) (auto split: option.splits)
  qed (use Cons.prems in simp)
qed simp

lemma life_run_before_handle:
  "core_inv None L \<Longrightarrow> life_inv ops L \<Longrightarrow> run_before_handle ops ts evs L = (r, L') \<Longrightarrow> returns r \<Longrightarrow> life_inv ops L'"
proof (induction ts arbitrary: L)
  case (Cons t ts)
  show ?case
  proof (cases "sl_lookup (lp_sources L) t")
    case (Some did)
    obtain q M where b: "disp_before_handle ops did (event_iterator t evs) L = (q, M)" by force
    have did: "did < length (lp_cells L)" by (rule core_inv_lookup [OF Cons.prems(1) Some])
    from Cons.prems(3,4) Some b have q: "returns q" by (cases q) auto
    with Cons.IH [of M] Cons.prems(3,4) Some b handle_inv(1) [OF Cons.prems(1) did b q] life_before(2) [OF Cons.prems(1,2) did b q]
    show ?thesis by (cases q) auto
  qed (use Cons.prems in simp)
qed simp

lemma run_before_sleep_no_panic:
  assumes "\<And>s w. fst (so_before_sleep ops s w) \<noteq> Panic"
  shows "core_inv None L \<Longrightarrow> \<forall>t \<in> set ts. sl_lookup (lp_sources L) t \<noteq> None \<Longrightarrow> fst (run_before_sleep ops ts timeout L) \<noteq> Panic"
proof (induction ts arbitrary: timeout L)
  case (Cons t ts)
  then obtain did where Some: "sl_lookup (lp_sources L) t = Some did" by auto
  obtain q M where b: "disp_before_sleep ops did L = (q, M)" by force
  have did: "did < length (lp_cells L)" by (rule core_inv_lookup [OF Cons.prems(1) Some])
  have "\<not> cell_borrowed (lp_cells L ! did)" using core_invD(3) [OF Cons.prems(1) did] by simp
  with b assms have "q \<noteq> Panic"
    by (auto simp: disp_before_sleep_def Let_def split: dispatcher.splits prod.splits) (metis fst_conv)
  then show ?case
  proof (cases q)
    case (Ok ev)
    with sleep_inv [OF Cons.prems(1) did b] have M: "core_inv None M" "lp_sources M = lp_sources L" by simp_all
    let ?M = "\<lambda>e. M\<lparr>lp_synthetic := lp_synthetic M @ [\<lparr>pe_readiness = fst e, pe_token = snd e\<rparr>]\<rparr>"
    from Cons.IH [of M timeout] Cons.IH [of "?M (the ev)" "Some 0"] Cons.prems(2) Some b M Ok show ?thesis
      by (cases ev) auto
  qed (use Some b in auto)
qed simp

lemma run_before_handle_no_panic:
  "core_inv None L \<Longrightarrow> \<forall>t \<in> set ts. sl_lookup (lp_sources L) t \<noteq> None \<Longrightarrow> fst (run_before_handle ops ts evs L) \<noteq> Panic"
proof (induction ts arbitrary: L)
  case (Cons t ts)
  then obtain did where Some: "sl_lookup (lp_sources L) t = Some did" by auto
  obtain q M where b: "disp_before_handle ops did (event_iterator t evs) L = (q, M)" by force
  have did: "did < length (lp_cells L)" by (rule core_inv_lookup [OF Cons.prems(1) Some])
  have "\<not> cell_borrowed (lp_cells L ! did)" using core_invD(3) [OF Cons.prems(1) did] by simp
  with b have q: "q = Ok ()"
    by (auto simp: disp_before_handle_def Let_def split: dispatcher.splits prod.splits)
  with handle_inv [OF Cons.prems(1) did b] Cons.IH [of M] Cons.prems(2) Some b show ?case by simp
qed simp

text \<open>The post action of a source that still has its slot.\<close>

lemma life_post_action:
  assumes core: "core_inv None L" and life: "life_inv ops L" and own: "sl_lookup (lp_sources L) reg = Some did"
    and reg: "forget_sub_id reg = reg"
    and run: "and_then (apply_post_action K ops reg did ret L) (\<lambda>_ M. unregister_if_removed K ops reg did M) = (r, L')"
    and "returns r"
  shows "life_inv ops L'"
proof -
  have did: "did < length (lp_cells L)" by (rule core_inv_lookup [OF core own])
  have stay: "sl_lookup (lp_sources M) reg = Some did \<Longrightarrow> unregister_if_removed K ops reg did M = (Ok (), M)" for M
    by (simp add: unregister_if_removed_def)
  show ?thesis
  proof (cases ret)
    case Continue
    with run own life stay show ?thesis by (simp add: apply_post_action_def)
  next
    case Reregister
    obtain q M where m: "loop_reregister ops did (TokenFactory_new reg) L = (q, M)" by force
    have "cell_kind (lp_cells L ! did) = Some True \<Longrightarrow> live_token L (forget_sub_id reg)"
      using own did reg by (simp add: live_token_def)
    with life_reregister [OF life did _ m] have "life_inv ops M" by blast
    moreover have "lp_sources M = lp_sources L" using loop_register_frame(4) [of ops did "TokenFactory_new reg" L] m by simp
    ultimately show ?thesis using run m own stay [of M] Reregister by (cases q) (auto simp: apply_post_action_def)
  next
    case Disable
    obtain q M where m: "loop_unregister K ops did reg L = (q, M)" by force
    have src: "lp_sources M = lp_sources L" using loop_register_frame(6) [of K ops did reg L] m by simp
    with run m own stay [of M] Disable have "L' = M" "returns q"
      using \<open>returns r\<close> by (cases q; auto simp: apply_post_action_def)+
    with life_unregister [OF life did m] show ?thesis by simp
  next
    case Remove
    let ?L1 = "L\<lparr>lp_sources := sl_release reg (lp_sources L)\<rparr>"
    have look: "sl_lookup (lp_sources ?L1) u = (if same_source_as u reg then None else sl_lookup (lp_sources L) u)" for u
      using slots.release_lookup [OF core_inv_sources_wf [OF core]] by simp
    obtain q M where m: "loop_unregister K ops did reg ?L1 = (q, M)" by force
    with run Remove look [of reg] have "L' = M" and q: "returns q"
      using \<open>returns r\<close> by (cases q; auto simp: apply_post_action_def unregister_if_removed_def log_error_def)+
    moreover have "life_inv ops M \<and> kinds_kept ?L1 M"
    proof (rule life_unregister_gen [OF _ _ _ m q])
      fix u assume "u \<in> set (lp_lifecycle ?L1)"
      then have u: "tok_sub_id u = 0" "live_token L u" using life_invD(2,3) [OF life] by simp_all
      show "tok_sub_id u = 0 \<and> (live_token ?L1 u \<or>
          u = reg \<and> cell_kind (lp_cells ?L1 ! did) = Some True \<and> \<not> cell_borrowed (lp_cells ?L1 ! did))"
      proof (cases "same_source_as u reg")
        case True
        have "tok_sub_id reg = 0" using reg by (metis forget_sub_id_def token_inner.select_convs(3) token_inner.surjective token_inner.update_convs(3))
        with True u(1) have "u = reg" by (intro same_source_no_sub_id)
        with u own core_invD(3) [OF core did] show ?thesis by (auto simp: live_token_def)
      next
        case False
        with u look show ?thesis by (simp add: live_token_def)
      qed
    qed (use life_invD(1) [OF life] did in simp_all)
    ultimately show ?thesis by simp
  qed
qed

lemma life_dispatch_event:
  assumes "core_inv None L" and "life_inv ops L" and "dispatch_event K ops ev L = (r, L')" and "returns r"
  shows "life_inv ops L'"
proof (cases "sl_lookup (lp_sources L) (forget_sub_id (pe_token ev))")
  case None
  with assms show ?thesis by (simp add: dispatch_event_def)
next
  case (Some did)
  let ?reg = "forget_sub_id (pe_token ev)"
  have did: "did < length (lp_cells L)" by (rule core_inv_lookup [OF assms(1) Some])
  obtain q M where p: "disp_process ops did (pe_readiness ev) (pe_token ev) L = (q, M)" by force
  with assms(3,4) Some have q: "returns q" by (cases q) (auto simp: dispatch_event_def)
  note M = process_inv [OF assms(1) did p q] life_process [OF assms(1,2) did p q]
  show ?thesis
  proof (cases q)
    case (Ok ret)
    let ?ret = "fst (take_pending ret M)" and ?M = "M\<lparr>lp_pending := Continue\<rparr>"
    have "and_then (apply_post_action K ops ?reg did ?ret ?M) (\<lambda>_ M. unregister_if_removed K ops ?reg did M) = (r, L')"
      using assms(3) Some p Ok by (simp add: dispatch_event_def take_pending_def Let_def)
    from life_post_action [OF _ _ _ _ this assms(4)] M Some show ?thesis by simp
  qed (use assms(3) Some p M q in \<open>auto simp: dispatch_event_def\<close>)
qed

lemma life_dispatch_list:
  "core_inv None L \<Longrightarrow> life_inv ops L \<Longrightarrow> dispatch_list K ops evs L = (r, L') \<Longrightarrow> returns r \<Longrightarrow> life_inv ops L'"
proof (induction evs arbitrary: L)
  case (Cons ev evs)
  obtain q M where e: "dispatch_event K ops ev L = (q, M)" by force
  with Cons.prems(3,4) have q: "returns q" by (cases q) auto
  from Cons.IH [of M] Cons.prems(3,4) e dispatch_event_inv [OF Cons.prems(1) e q] life_dispatch_event [OF Cons.prems(1,2) e q]
  show ?case by (cases q) auto
qed simp

lemma life_dispatch_events:
  assumes core: "core_inv None L" and life: "life_inv ops L" and run: "dispatch_events K ops n timeout L = (r, L')" and r: "returns r"
  shows "life_inv ops L'"
  using run unfolding dispatch_events_def Let_def
proof (cases rule: and_then_cases)
  case (ok timeout' L1)
  then have L1: "core_inv None L1" "life_inv ops L1"
    using run_before_sleep_inv [OF core ok(1)] life_run_before_sleep [OF core life ok(1)] by simp_all
  from ok(2) show ?thesis
  proof (cases rule: and_then_cases)
    case (ok polled L2)
    then have L2: "core_inv None L2" "life_inv ops L2" using L1 by (auto simp: loop_poll_def split: prod.splits)
    show ?thesis
    proof (cases polled)
      case None
      with ok L2 show ?thesis by simp
    next
      case (Some evs)
      with ok(2) have "and_then (run_before_handle ops (lp_lifecycle L2) evs L2)
          (\<lambda>_ L3. dispatch_list K ops (lp_synthetic L3 @ evs) (L3\<lparr>lp_synthetic := []\<rparr>)) = (r, L')" by simp
      then show ?thesis
      proof (cases rule: and_then_cases)
        case (ok u L3)
        with run_before_handle_inv [OF L2(1) ok(1)] life_run_before_handle [OF L2 ok(1)]
        have "core_inv None (L3\<lparr>lp_synthetic := []\<rparr>)" "life_inv ops (L3\<lparr>lp_synthetic := []\<rparr>)" by simp_all
        from life_dispatch_list [OF this ok(2) r] show ?thesis .
      qed (use r life_run_before_handle [OF L2] in auto)
    qed
  qed (use r L1 in \<open>auto simp: loop_poll_def split: prod.splits\<close>)
qed (use r life_run_before_sleep [OF core life] in auto)

lemma life_idles: "core_inv None L \<Longrightarrow> life_inv ops L \<Longrightarrow> life_inv ops (dispatch_idles run_idle L)"
proof -
  have one: "life_inv ops (idle_dispatch run_idle cb M)" if "core_inv None M" "life_inv ops M" for cb M
  proof -
    have "life_inv ops (run_idle f (M\<lparr>lp_idle_cells := cs\<rparr>))" for f cs
      using tidy_steps [OF idle_tidy, of None "M\<lparr>lp_idle_cells := cs\<rparr>"] that by simp
    with that show ?thesis by (auto simp: idle_dispatch_def Let_def split: idle_cell.split)
  qed
  have "core_inv None M \<Longrightarrow> life_inv ops M \<Longrightarrow> life_inv ops (fold (idle_dispatch run_idle) cbs M)" for cbs M
    by (induction cbs arbitrary: M) (auto intro: one idle_dispatch_inv)
  then show "core_inv None L \<Longrightarrow> life_inv ops L \<Longrightarrow> ?thesis" by (simp add: dispatch_idles_def)
qed

lemma reach_life: "reach K ops run_idle (tidy ops) L \<Longrightarrow> core_inv None L \<and> life_inv ops L"
proof (induction rule: reach.induct)
  case (created np d L)
  then have "life_inv ops L" by (cases "Poll_new K np") (auto simp: try_new_def life_inv_def)
  with try_new_core_inv [OF created] show ?case by simp
next
  case (called L L')
  have "(api_step K ops (tidy ops))\<^sup>*\<^sup>* L L'" using called(2) by blast
  with tidy_steps [of K L L'] core_inv_step [OF called(2)] called(3) show ?case by blast
next
  case (dispatched L n timeout r L')
  then have core: "core_inv None L" and life: "life_inv ops L" by auto
  have "life_inv ops L'"
    using dispatched(2) unfolding dispatch_def
    by (cases rule: and_then_cases)
      (use life_dispatch_events [OF core life] dispatch_events_inv [OF core] life_idles dispatched(3) in auto)
  with dispatch_inv [OF core dispatched(2,3)] show ?case by simp
qed

end

context lifecycle_contract
begin

lemma tokens_found: "reach K ops run_idle (tidy ops) L \<Longrightarrow> t \<in> set (lp_lifecycle L) \<Longrightarrow> sl_lookup (lp_sources L) t \<noteq> None"
  using reach_life [of L] by (auto simp: life_inv_def live_token_def)

lemma sleep_safe:
  "reach K ops run_idle (tidy ops) L \<Longrightarrow> (\<And>s w. fst (so_before_sleep ops s w) \<noteq> Panic) \<Longrightarrow>
     fst (run_before_sleep ops (lp_lifecycle L) timeout L) \<noteq> Panic"
  using reach_life [of L] tokens_found [of L] by (intro run_before_sleep_no_panic) auto

lemma handle_safe:
  assumes "reach K ops run_idle (tidy ops) L" and "run_before_sleep ops (lp_lifecycle L) timeout L = (Ok timeout', L1)"
    and "loop_poll K n now timeout' L1 = (Ok (Some events), L2)"
  shows "fst (run_before_handle ops (lp_lifecycle L2) events L2) \<noteq> Panic"
proof -
  have core: "core_inv None L" using reach_life [OF assms(1)] by simp
  have "core_inv None L2" "lp_sources L2 = lp_sources L" "lp_lifecycle L2 = lp_lifecycle L"
    using run_before_sleep_inv [OF core assms(2)] assms(3) by (auto simp: loop_poll_def split: prod.splits)
  with tokens_found [OF assms(1)] show ?thesis by (intro run_before_handle_no_panic) auto
qed

end

section \<open>A loop of sources with lifecycle events\<close>

text \<open>
  A source of the user that wraps another and wants the lifecycle events, as the test sources of
  \<open>loop_logic.rs\<close> do (\<open>LockingSource\<close>, \<open>NoopWithDefaultHandlers\<close>); \<open>sleep\<close> and \<open>handle\<close> are the bodies
  of its two methods.
\<close>

definition lifecycle_ops :: "('s, 'p, 'w) source_ops \<Rightarrow> ('w \<Rightarrow> (readiness \<times> token) option cresult \<times> 'w)
    \<Rightarrow> ((readiness \<times> token) list \<Rightarrow> 'w \<Rightarrow> 'w) \<Rightarrow> ('s, 'p, 'w) source_ops" where
  "lifecycle_ops T sleep handle =
     T\<lparr>so_needs_extra := (\<lambda>_. True),
       so_before_sleep := (\<lambda>s w. case sleep w of (r, w') \<Rightarrow> (r, s, w')),
       so_before_handle := (\<lambda>s evs w. (s, handle evs w))\<rparr>"

type_synonym life_source = "app_source + timer"
type_synonym ('p, 'd) life_call = "(life_source, nat, 'p, 'd) api_call"

definition life_base :: "'p poller_ops \<Rightarrow> (life_source, nat, 'p, 'd) loop_ops" where
  "life_base K =
     sum_ops (sum_ops (timer_ops K (\<lambda>_ L. (TDrop, L))) (generic_ops K (\<lambda>fd. fd) BIo (\<lambda>_ fd L. (Ok Continue, fd, L))))
       (lifecycle_ops (timer_ops K (\<lambda>_ L. (TDrop, L))) (\<lambda>L. (Ok None, L)) (\<lambda>_ L. L))"

text \<open>The user's program, with scripts of tidy calls as callbacks.\<close>

definition life_quiet :: "'p poller_ops \<Rightarrow> ('p, 'd) life_call \<Rightarrow> (life_source, nat, 'p, 'd) loop_state \<Rightarrow> bool" where
  "life_quiet K c L \<longleftrightarrow> quiet c L \<and> tidy (life_base K) c L"

definition life_timer :: "'p poller_ops \<Rightarrow> (instant \<Rightarrow> timeout_action \<times> ('p, 'd) life_call list)
    \<Rightarrow> (life_source, nat, 'p, 'd) timer_callback" where
  "life_timer K on_timer d L = (fst (on_timer d), run_script K (life_base K) (tidy (life_base K)) (snd (on_timer d)) L)"

definition life_ops :: "'p poller_ops \<Rightarrow> (instant \<Rightarrow> timeout_action \<times> ('p, 'd) life_call list)
    \<Rightarrow> (readiness \<Rightarrow> raw_fd \<Rightarrow> (io_error + post_action) \<times> ('p, 'd) life_call list)
    \<Rightarrow> (readiness \<times> token) option \<times> ('p, 'd) life_call list
    \<Rightarrow> ((readiness \<times> token) list \<Rightarrow> ('p, 'd) life_call list) \<Rightarrow> (life_source, nat, 'p, 'd) loop_ops" where
  "life_ops K on_timer on_ready on_sleep on_handle =
     sum_ops
       (sum_ops (timer_ops K (life_timer K on_timer))
         (generic_ops K (\<lambda>fd. fd) BIo (\<lambda>rd fd L.
            (case fst (on_ready rd fd) of Inl e \<Rightarrow> Err e | Inr a \<Rightarrow> Ok a, fd,
             run_script K (life_base K) (tidy (life_base K)) (snd (on_ready rd fd)) L))))
       (lifecycle_ops (timer_ops K (life_timer K on_timer))
         (\<lambda>L. (Ok (fst on_sleep), run_script K (life_base K) (life_quiet K) (snd on_sleep) L))
         (\<lambda>evs L. run_script K (life_base K) (life_quiet K) (on_handle evs) L))"

definition life_idle :: "'p poller_ops \<Rightarrow> (nat \<Rightarrow> ('p, 'd) life_call list) \<Rightarrow> nat
    \<Rightarrow> (life_source, nat, 'p, 'd) loop_state \<Rightarrow> (life_source, nat, 'p, 'd) loop_state" where
  "life_idle K on_idle i L = run_script K (life_base K) (tidy (life_base K)) (on_idle i) L"

lemma lifecycle_same_registration:
  "same_registration T T' \<Longrightarrow> same_registration (lifecycle_ops T sl h) (lifecycle_ops T' sl' h')"
  by (simp add: same_registration_def lifecycle_ops_def)

lemma life_same_registration: "same_registration (life_ops K on_timer on_ready on_sleep on_handle) (life_base K)"
  unfolding life_ops_def life_base_def by (intro same_registration_intros lifecycle_same_registration)

lemma tidy_cong: "same_registration ops ops' \<Longrightarrow> tidy ops = tidy ops'"
proof -
  assume "same_registration ops ops'"
  then have eq: "so_needs_extra ops = so_needs_extra ops'" by (simp add: same_registration_def)
  show "tidy ops = tidy ops'" by (intro ext) (simp only: tidy_def eq)
qed

lemma life_needs [simp]:
  "so_needs_extra (life_ops K on_timer on_ready on_sleep on_handle) s = (case s of Inl _ \<Rightarrow> False | Inr _ \<Rightarrow> True)"
  by (auto simp: life_ops_def sum_ops_def lifecycle_ops_def timer_ops_def generic_ops_def default_needs_extra_def split: sum.split)

lemma tidy_timers: "tidy ops (CallTimers w) L"
  by (simp add: tidy_def)

lemma life_process_steps:
  assumes "so_process (life_ops K on_timer on_ready on_sleep on_handle) s rd t L = (r, s', L')"
  shows "(api_step K (life_base K) (tidy (life_base K)))\<^sup>*\<^sup>* L L' \<and> isl s' = isl s"
proof -
  have timer: "(api_step K (life_base K) (tidy (life_base K)))\<^sup>*\<^sup>* L L'"
    if "timer_process K (life_timer K on_timer) tm rd t L = (r, tm', L')" for tm tm'
    using that by (rule timer_process_steps [rotated 2]) (simp_all add: life_timer_def run_script_steps tidy_timers)
  show ?thesis
  proof (cases s)
    case (Inr tm)
    with assms timer show ?thesis
      by (auto simp: life_ops_def sum_ops_def sum_result_def lifecycle_ops_def timer_ops_def split: prod.splits)
  next
    case (Inl a)
    show ?thesis
    proof (cases a)
      case l: (Inl tm)
      with Inl assms timer show ?thesis
        by (auto simp: life_ops_def sum_ops_def sum_result_def timer_ops_def split: prod.splits)
    next
      case (Inr g)
      have "isl s' \<and> (L' = L \<or> (\<exists>cs. L' = run_script K (life_base K) (tidy (life_base K)) cs L))"
        using assms by (auto simp: Inl Inr life_ops_def sum_ops_def sum_result_def generic_ops_def box_process_def
            generic_process_def split: prod.splits if_splits option.splits)
      with Inl run_script_steps show ?thesis by auto
    qed
  qed
qed

lemma life_step_cong:
  "api_step K (life_ops K on_timer on_ready on_sleep on_handle) D = api_step K (life_base K) D"
  "tidy (life_ops K on_timer on_ready on_sleep on_handle) = tidy (life_base K)"
  by (rule api_step_cong [OF life_same_registration] tidy_cong [OF life_same_registration])+

lemma life_sleep_steps:
  assumes "so_before_sleep (life_ops K on_timer on_ready on_sleep on_handle) s L = (q, s', L')"
  shows "(api_step K (life_base K) (life_quiet K))\<^sup>*\<^sup>* L L' \<and> isl s' = isl s"
  using assms run_script_steps [of K "life_base K" "life_quiet K" L "snd on_sleep"]
  by (cases s; (cases "projl s")?) (auto simp: life_ops_def sum_ops_def sum_result_def lifecycle_ops_def timer_ops_def generic_ops_def
      default_before_sleep_def split: sum.splits)

lemma life_handle_steps:
  assumes "so_before_handle (life_ops K on_timer on_ready on_sleep on_handle) s evs L = (s', L')"
  shows "(api_step K (life_base K) (life_quiet K))\<^sup>*\<^sup>* L L' \<and> isl s' = isl s"
  using assms run_script_steps [of K "life_base K" "life_quiet K" L "on_handle evs"]
  by (cases s; (cases "projl s")?) (auto simp: life_ops_def sum_ops_def sum_result_def lifecycle_ops_def timer_ops_def generic_ops_def
      default_before_handle_def split: sum.splits)

lemma timer_factory:
  "timer_register tm P tf = (r, tm', P', tf') \<Longrightarrow> factory_registration_token tf' = factory_registration_token tf"
  "timer_reregister tm P tf = (r, tm', P', tf') \<Longrightarrow> factory_registration_token tf' = factory_registration_token tf"
  by (auto simp: timer_register_def timer_reregister_def timer_unregister_def factory_token_registration
      split: option.splits prod.splits outcome.splits)

lemma generic_factory:
  "generic_reregister K as_fd g P tf = (r, g', P', tf') \<Longrightarrow> factory_registration_token tf' = factory_registration_token tf"
  by (auto simp: generic_reregister_def factory_token_registration split: option.splits prod.splits outcome.splits)

lemma timer_total:
  "timer_register tm P tf = (r, tm', P', tf') \<Longrightarrow> returns r \<Longrightarrow> is_ok r"
  "timer_unregister tm P = (r, tm', P') \<Longrightarrow> is_ok r"
  by (auto simp: timer_register_def timer_unregister_def split: option.splits prod.splits outcome.splits)

interpretation life: lifecycle_sources "life_ops K on_timer on_ready on_sleep on_handle"
  for K :: "'p poller_ops" and on_timer on_ready on_sleep and on_handle :: "(readiness \<times> token) list \<Rightarrow> ('p, 'd) life_call list"
proof (unfold_locales, goal_cases)
  case (1 s P t r s' P' tf')
  then show ?case
    using timer_total(1) by (cases s; (cases "projl s")?)
      (auto simp: life_ops_def sum_ops_def sum_result_def lifecycle_ops_def timer_ops_def generic_ops_def default_needs_extra_def split: prod.splits)
next
  case (2 s P t r s' P' tf')
  then show ?case
    by (cases s; (cases "projl s")?)
      (auto simp: life_ops_def sum_ops_def sum_result_def lifecycle_ops_def timer_ops_def generic_ops_def default_needs_extra_def
        split: prod.splits dest!: timer_factory(2) generic_factory)
next
  case (3 s P r s' P')
  then show ?case
    using timer_total(2) by (cases s; (cases "projl s")?)
      (auto simp: life_ops_def sum_ops_def sum_result_def lifecycle_ops_def timer_ops_def generic_ops_def default_needs_extra_def split: prod.splits)
qed

lemma life_any:
  "(api_step K ops (tidy ops))\<^sup>*\<^sup>* L L' \<Longrightarrow> (api_step K ops any_call)\<^sup>*\<^sup>* L L'"
  "(api_step K (life_base K) (life_quiet K))\<^sup>*\<^sup>* L L' \<Longrightarrow> (api_step K (life_base K) quiet)\<^sup>*\<^sup>* L L'"
  "(api_step K (life_base K) (life_quiet K))\<^sup>*\<^sup>* L L' \<Longrightarrow> (api_step K (life_base K) (tidy (life_base K)))\<^sup>*\<^sup>* L L'"
  by (erule api_steps_mono; simp add: any_call_def life_quiet_def)+

interpretation life: lifecycle_contract K "life_ops K on_timer on_ready on_sleep on_handle" "life_idle K on_idle"
  for K :: "'p poller_ops" and on_timer on_ready on_sleep on_handle and on_idle :: "nat \<Rightarrow> ('p, 'd) life_call list"
proof (unfold_locales, goal_cases)
  case (1 s rd t L r s' L')
  with life_process_steps [OF 1(1)] life_any(1) show ?case by (auto simp: life_step_cong)
next
  case (2 s L q s' L')
  with life_sleep_steps [OF 2(1)] life_any(2) show ?case by (auto simp: life_step_cong)
next
  case (3 s evs L s' L')
  with life_handle_steps [OF 3(1)] life_any(2) show ?case by (auto simp: life_step_cong)
next
  case (4 L f)
  then show ?case using life_any(1) [OF run_script_steps] by (simp add: life_step_cong life_idle_def)
next
  case (5 s rd t L r s' L')
  with life_process_steps [OF 5(1)] show ?case by (simp add: life_step_cong sum.case_eq_if)
next
  case (6 s L q s' L')
  with life_sleep_steps [OF 6(1)] life_any(3) [OF conjunct1 [OF life_sleep_steps [OF 6(1)]]] show ?case by (simp add: life_step_cong sum.case_eq_if)
next
  case (7 s evs L s' L')
  with life_handle_steps [OF 7(1)] life_any(3) [OF conjunct1 [OF life_handle_steps [OF 7(1)]]] show ?case by (simp add: life_step_cong sum.case_eq_if)
next
  case (8 L f)
  then show ?case using run_script_steps by (simp add: life_step_cong life_idle_def)
qed

section \<open>Properties\<close>

definition life_demo :: "(life_source, nat, script_poller, nat list) loop_state" where
  "life_demo =
     \<lparr>lp_poll = \<lparr>poller = \<lparr>sp_regs = [], sp_now = 0, sp_level = True, sp_script = []\<rparr>, level_triggered = None,
        timers = TimerWheel_new\<rparr>,
      lp_sources = [], lp_cells = [], lp_lifecycle = [], lp_idles = [], lp_idle_cells = [],
      lp_pending = Continue, lp_stop = False, lp_future_ready = False, lp_synthetic = [], lp_woken = [], lp_data = []\<rparr>"

definition life_demo_ops :: "(life_source, nat, script_poller, nat list) loop_ops" where
  "life_demo_ops = life_ops SP (\<lambda>_. (TDrop, [])) (\<lambda>_ _. (Inr Continue, [])) (None, [CallData [1]]) (\<lambda>_. [CallStop])"

text \<open>
  C7: while sources with lifecycle events register and unregister without errors and user code is
  tidy, the line \<open>unreachable!()\<close> of \<open>dispatch_events\<close> is never reached: after any sequence of calls
  and dispatches, with callbacks that insert, remove, enable, update and disable any source, each
  token of the lifecycle set names a source that wants the events, and neither of the two loops
  over the set panics, unless a \<open>before_sleep\<close> itself does.
\<close>

theorem lifecycle_tokens_stay_valid:
  assumes "lifecycle_contract K ops run_idle" and "reach K ops run_idle (tidy ops) L"
    and "\<And>s w. fst (so_before_sleep ops s w) \<noteq> Panic"
  shows "(\<forall>t \<in> set (lp_lifecycle L). \<exists>d di. sl_lookup (lp_sources L) t = Some d \<and>
      cell_val (lp_cells L ! d) = SourceDisp di \<and> di_needs di) \<and>
    fst (run_before_sleep ops (lp_lifecycle L) timeout L) \<noteq> Panic \<and>
    (run_before_sleep ops (lp_lifecycle L) timeout L = (Ok timeout', L1) \<longrightarrow>
     loop_poll K n now timeout' L1 = (Ok (Some events), L2) \<longrightarrow>
     fst (run_before_handle ops (lp_lifecycle L2) events L2) \<noteq> Panic)"
proof (intro conjI impI ballI)
  fix t assume "t \<in> set (lp_lifecycle L)"
  with lifecycle_contract.reach_life [OF assms(1,2)] have "live_token L t" by (simp add: life_inv_def)
  then obtain d where "sl_lookup (lp_sources L) t = Some d" "cell_kind (lp_cells L ! d) = Some True"
    by (auto simp: live_token_def)
  then show "\<exists>d di. sl_lookup (lp_sources L) t = Some d \<and> cell_val (lp_cells L ! d) = SourceDisp di \<and> di_needs di"
    by (cases "cell_val (lp_cells L ! d)") (auto simp: cell_kind_def)
next
  show "fst (run_before_sleep ops (lp_lifecycle L) timeout L) \<noteq> Panic"
    by (rule lifecycle_contract.sleep_safe [OF assms])
qed (rule lifecycle_contract.handle_safe [OF assms(1,2)])

theorem lifecycle_tokens_stay_valid_witness:
  "\<exists>L'. reach SP life_demo_ops (life_idle SP (\<lambda>_. [])) (tidy life_demo_ops) L' \<and> length (lp_lifecycle L') = 1 \<and>
     (\<forall>t \<in> set (lp_lifecycle L'). sl_lookup (lp_sources L') t = Some 0) \<and>
     fst (run_before_sleep life_demo_ops (lp_lifecycle L') None L') \<noteq> Panic"
proof -
  let ?c = "CallInsertSource (Inr (Timer_from_deadline 9)) :: (script_poller, nat list) life_call"
  have new: "try_new SP (Inr \<lparr>sp_regs = [], sp_now = 0, sp_level = True, sp_script = []\<rparr>) [] = Ok life_demo"
    by (simp add: try_new_def Poll_new_def Poll_new_inner_def SP_def SourceList_new_def life_demo_def)
  obtain L' where e: "exec_call SP life_demo_ops ?c life_demo = (Ok (), L')" "length (lp_lifecycle L') = 1"
      "length (lp_cells L') = 1"
    by (simp add: life_demo_ops_def life_ops_def sum_ops_def sum_result_def lifecycle_ops_def timer_ops_def source_defs insert_source_def
        Dispatcher_new_def register_dispatcher_def vacant_entry_def loop_register_def disp_register_def store_disp_def
        life_demo_def TokenInner_new_def set_source_def Timer_from_deadline_def Timer_from_deadline_inner_def
        lc_register_def wheel_insert_def Let_def split: prod.split)
  have "api_step SP life_demo_ops (tidy life_demo_ops) life_demo L'"
    by (rule api_step.call [OF _ _ e(1)]) (simp_all add: tidy_def valid_call_def)
  then have r: "reach SP life_demo_ops (life_idle SP (\<lambda>_. [])) (tidy life_demo_ops) L'"
    using reach.called reach.created [OF new] by blast
  have c: "lifecycle_contract SP life_demo_ops (life_idle SP (\<lambda>_. []))"
    unfolding life_demo_ops_def by (rule life.lifecycle_contract_axioms)
  have np: "fst (so_before_sleep life_demo_ops s w) \<noteq> Panic" for s w
    by (cases s; (cases "projl s")?) (auto simp: life_demo_ops_def life_ops_def sum_ops_def sum_result_def lifecycle_ops_def
        timer_ops_def generic_ops_def default_before_sleep_def split: sum.split)
  have "core_inv None L'" using lifecycle_contract.reach_life [OF c r] by simp
  then have "sl_lookup (lp_sources L') t = Some d \<Longrightarrow> d = 0" for t d
    using core_inv_lookup [of None L' t d] e(3) by simp
  with lifecycle_tokens_stay_valid [OF c r np, of None] e(2) r show ?thesis by blast
qed

end
