(* ===== verification/Call_Safety.thy ===== *)
theory Call_Safety
  imports Lifecycle_Calls
begin

text \<open>
  Type soundness of the handles of \<open>src/src/loop_logic.rs\<close> and \<open>src/src/io.rs\<close>: the calls that
  Rust's types and ownership allow, made outside of callbacks, never panic, and keep the state
  well typed. The panics of the code (\<open>unreachable!()\<close>, \<open>unwrap\<close>, \<open>borrow_mut\<close>) are thereby shown to
  be unreachable from there.
\<close>

section \<open>Well-typed states and calls\<close>

text \<open>
  \<open>good\<close> is the invariant of the sources' own type. An adapter's dispatcher has its token.
\<close>

definition cell_ok :: "('s \<Rightarrow> bool) \<Rightarrow> 's cell \<Rightarrow> bool" where
  "cell_ok good c = (case cell_val c of SourceDisp di \<Rightarrow> good (di_source di) | IoDisp io \<Rightarrow> io_token io \<noteq> None)"

definition cells_ok :: "('s \<Rightarrow> bool) \<Rightarrow> ('s, 'i, 'p, 'd) loop_state \<Rightarrow> bool" where
  "cells_ok good L \<longleftrightarrow> (\<forall>c \<in> set (lp_cells L). cell_ok good c)"

definition well_typed :: "('s \<Rightarrow> bool) \<Rightarrow> ('s, 'i, 'p, 'd) loop_state \<Rightarrow> bool" where
  "well_typed good L \<longleftrightarrow> core_inv None L \<and> cells_ok good L"

text \<open>The kind of object a handle refers to; a \<open>RegistrationToken\<close> that is accepted names a source.\<close>

definition names_source :: "nat \<Rightarrow> ('s, 'i, 'p, 'd) loop_state \<Rightarrow> bool" where
  "names_source did L \<longleftrightarrow> did < length (lp_cells L) \<and> cell_kind (lp_cells L ! did) \<noteq> None"

definition names_adapter :: "async_io \<Rightarrow> ('s, 'i, 'p, 'd) loop_state \<Rightarrow> bool" where
  "names_adapter a L \<longleftrightarrow> as_dispatcher a < length (lp_cells L) \<and> cell_kind (lp_cells L ! as_dispatcher a) = None"

definition token_typed :: "registration_token \<Rightarrow> ('s, 'i, 'p, 'd) loop_state \<Rightarrow> bool" where
  "token_typed t L \<longleftrightarrow> tok_sub_id t = 0 \<and> (case sl_lookup (lp_sources L) t of None \<Rightarrow> True | Some d \<Rightarrow> names_source d L)"

text \<open>There is room in the table; \<open>vacant_entry\<close> panics after 2^32 sources.\<close>

definition has_room :: "('s, 'i, 'p, 'd) loop_state \<Rightarrow> bool" where
  "has_room L \<longleftrightarrow> length (lp_sources L) < 2 ^ 32"

definition typed_call :: "('s \<Rightarrow> bool) \<Rightarrow> ('s, 'i, 'p, 'd) api_call \<Rightarrow> ('s, 'i, 'p, 'd) loop_state \<Rightarrow> bool" where
  "typed_call good c L =
     (case c of
        CallDispatcherNew s \<Rightarrow> good s
      | CallRegister did \<Rightarrow> names_source did L \<and> has_room L
      | CallInsertSource s \<Rightarrow> good s \<and> has_room L
      | CallEnable t \<Rightarrow> token_typed t L
      | CallUpdate t \<Rightarrow> token_typed t L
      | CallDisable t \<Rightarrow> token_typed t L
      | CallRemove t \<Rightarrow> token_typed t L
      | CallCancelIdle cb \<Rightarrow> cb < length (lp_idle_cells L) \<and> lp_idle_cells L ! cb \<noteq> IdleRunning
      | CallSourceMut did f \<Rightarrow>
          did < length (lp_cells L) \<and>
          (case cell_val (lp_cells L ! did) of SourceDisp di \<Rightarrow> good (f (di_source di)) | IoDisp _ \<Rightarrow> False)
      | CallAdaptIo _ _ \<Rightarrow> has_room L
      | CallAsyncWait a _ _ \<Rightarrow> names_adapter a L
      | CallReadable a _ \<Rightarrow> names_adapter a L
      | CallWritable a _ \<Rightarrow> names_adapter a L
      | CallAsyncDrop a \<Rightarrow> names_adapter a L
      | _ \<Rightarrow> True)"

lemma well_typed_sources:
  "well_typed good L \<Longrightarrow> core_inv None (L\<lparr>lp_sources := sl\<rparr>) \<Longrightarrow> well_typed good (L\<lparr>lp_sources := sl\<rparr>)"
  by (simp add: well_typed_def cells_ok_def)

lemma cells_okD: "cells_ok good L \<Longrightarrow> d < length (lp_cells L) \<Longrightarrow> cell_ok good (lp_cells L ! d)"
  by (simp add: cells_ok_def)

lemma cells_ok_cell: "cells_ok good L \<Longrightarrow> cell_ok good c \<Longrightarrow> cells_ok good (L\<lparr>lp_cells := (lp_cells L)[did := c]\<rparr>)"
  using set_update_subset_insert [of "lp_cells L" did c] by (auto simp: cells_ok_def)

lemma cells_ok_cong: "lp_cells L' = lp_cells L \<Longrightarrow> cells_ok good L' = cells_ok good L"
  by (simp add: cells_ok_def)

lemma has_room_vacant:
  assumes "has_room L"
  obtains i sl where "vacant_entry (lp_sources L) = (Ok i, sl)"
proof (cases "position (\<lambda>slot. se_source slot = None) (lp_sources L)")
  case None
  with assms that show ?thesis by (auto simp: vacant_entry_def has_room_def TokenInner_new_def)
next
  case (Some i)
  with that show ?thesis by (auto simp: vacant_entry_def)
qed

section \<open>Sources that do not panic\<close>

text \<open>
  What a source promises its loop: its three registration operations, called with a fresh token
  factory, return, and keep the source's own invariant.
\<close>

locale typed_sources =
  fixes ops :: "('s, 'i, 'p, 'd) loop_ops" and good :: "'s \<Rightarrow> bool"
  assumes register_good: "good s \<Longrightarrow> so_register ops s P (TokenFactory_new t) = (r, s', P', tf') \<Longrightarrow> returns r \<and> good s'"
    and reregister_good: "good s \<Longrightarrow> so_reregister ops s P (TokenFactory_new t) = (r, s', P', tf') \<Longrightarrow> returns r \<and> good s'"
    and unregister_good: "good s \<Longrightarrow> so_unregister ops s P = (r, s', P') \<Longrightarrow> returns r \<and> good s'"
begin

lemma store_typed:
  assumes "well_typed good L" and "did < length (lp_cells L)" and "store_disp did (r, c, P, lc) L = (q, L')"
    and "cell_ok good c" and "cell_kind c = cell_kind (lp_cells L ! did)" and "\<not> cell_borrowed c"
  shows "q = r \<and> well_typed good L' \<and> kinds_kept L L'"
proof -
  have L': "q = r" "L' = L\<lparr>lp_cells := (lp_cells L)[did := c], lp_poll := P, lp_lifecycle := lc\<rparr>"
    using assms(3) by (simp_all add: store_disp_def)
  have "core_inv None (L\<lparr>lp_cells := (lp_cells L)[did := c]\<rparr>)"
    using assms(1,6) by (intro core_inv_cell) (simp_all add: well_typed_def)
  moreover have "cells_ok good (L\<lparr>lp_cells := (lp_cells L)[did := c]\<rparr>)"
    using assms(1,4) by (intro cells_ok_cell) (simp_all add: well_typed_def)
  moreover have "kinds_kept L (L\<lparr>lp_cells := (lp_cells L)[did := c]\<rparr>)"
    using assms(5) by (intro kinds_kept_cell) simp
  ultimately show ?thesis by (simp add: L' well_typed_def cells_ok_def kinds_kept_def)
qed

lemma cell_source:
  assumes "well_typed good L" and "names_source did L"
  obtains di where "cell_val (lp_cells L ! did) = SourceDisp di" "\<not> cell_borrowed (lp_cells L ! did)" "good (di_source di)"
proof (cases "cell_val (lp_cells L ! did)")
  case (SourceDisp di)
  with assms cells_okD [of good L did] core_invD(3) [of None L did] that show ?thesis
    by (simp add: well_typed_def names_source_def cell_ok_def)
qed (use assms in \<open>simp add: names_source_def cell_kind_def\<close>)

lemma store_source:
  assumes "well_typed good L" and "names_source did L" and "cell_val (lp_cells L ! did) = SourceDisp di"
    and "\<not> cell_borrowed (lp_cells L ! did)" and "good s" and "returns rr"
    and "store_disp did (rr, (lp_cells L ! did)\<lparr>cell_val := SourceDisp (di\<lparr>di_source := s\<rparr>)\<rparr>, P, lc) L = (r, L')"
  shows "returns r \<and> well_typed good L' \<and> kinds_kept L L'"
  using store_typed [OF assms(1) _ assms(7)] assms(2-6) by (simp add: names_source_def cell_ok_def cell_kind_def)

lemma typed_register:
  assumes "well_typed good L" and "names_source did L" and "loop_register ops did (TokenFactory_new t) L = (r, L')"
  shows "returns r \<and> well_typed good L' \<and> kinds_kept L L'"
proof -
  obtain di where di: "cell_val (lp_cells L ! did) = SourceDisp di" "\<not> cell_borrowed (lp_cells L ! did)" "good (di_source di)"
    by (rule cell_source [OF assms(1,2)])
  obtain q s P tf where q: "so_register ops (di_source di) (lp_poll L) (TokenFactory_new t) = (q, s, P, tf)" by (metis prod.collapse)
  note g = register_good [OF di(3) q]
  have "\<exists>rr lc. store_disp did (rr, (lp_cells L ! did)\<lparr>cell_val := SourceDisp (di\<lparr>di_source := s\<rparr>)\<rparr>, P, lc) L = (r, L') \<and> returns rr"
    using assms(3) di q g by (cases q; fastforce simp: loop_register_def disp_register_def Let_def)
  with store_source [OF assms(1,2) di(1,2)] g show ?thesis by blast
qed

lemma typed_reregister:
  assumes "well_typed good L" and "names_source did L" and "loop_reregister ops did (TokenFactory_new t) L = (r, L')"
  shows "returns r \<and> well_typed good L' \<and> kinds_kept L L'"
proof -
  obtain di where di: "cell_val (lp_cells L ! did) = SourceDisp di" "\<not> cell_borrowed (lp_cells L ! did)" "good (di_source di)"
    by (rule cell_source [OF assms(1,2)])
  obtain q s P tf where q: "so_reregister ops (di_source di) (lp_poll L) (TokenFactory_new t) = (q, s, P, tf)" by (metis prod.collapse)
  note g = reregister_good [OF di(3) q]
  have "\<exists>rr lc. store_disp did (rr, (lp_cells L ! did)\<lparr>cell_val := SourceDisp (di\<lparr>di_source := s\<rparr>)\<rparr>, P, lc) L = (r, L') \<and> returns rr"
    using assms(3) di q g by (cases q; fastforce simp: loop_reregister_def disp_reregister_def Let_def)
  with store_source [OF assms(1,2) di(1,2)] g show ?thesis by blast
qed

lemma typed_unregister:
  assumes "well_typed good L" and "names_source did L" and "loop_unregister K ops did reg L = (r, L')"
  shows "returns r \<and> well_typed good L' \<and> kinds_kept L L'"
proof -
  obtain di where di: "cell_val (lp_cells L ! did) = SourceDisp di" "\<not> cell_borrowed (lp_cells L ! did)" "good (di_source di)"
    by (rule cell_source [OF assms(1,2)])
  obtain q s P where q: "so_unregister ops (di_source di) (lp_poll L) = (q, s, P)" by (metis prod.collapse)
  note g = unregister_good [OF di(3) q]
  have "\<exists>rr lc. store_disp did (rr, (lp_cells L ! did)\<lparr>cell_val := SourceDisp (di\<lparr>di_source := s\<rparr>)\<rparr>, P, lc) L = (r, L') \<and> returns rr"
    using assms(3) di q g by (cases q; fastforce simp: loop_unregister_def disp_unregister_def Let_def)
  with store_source [OF assms(1,2) di(1,2)] g show ?thesis by blast
qed

lemma typed_register_dispatcher:
  assumes "well_typed good L" and "names_source did L" and "has_room L" and "register_dispatcher ops did L = (r, L')"
  shows "returns r \<and> well_typed good L' \<and> kinds_kept L L'"
proof -
  obtain i sl where v: "vacant_entry (lp_sources L) = (Ok i, sl)" by (rule has_room_vacant [OF assms(3)])
  let ?L1 = "L\<lparr>lp_sources := set_source i (Some did) sl\<rparr>"
  have "core_inv None (L\<lparr>lp_sources := sl\<rparr>)" using assms(1) v by (intro core_inv_vacant) (simp_all add: well_typed_def)
  then have "core_inv None ?L1"
    using core_inv_set_source [of None "L\<lparr>lp_sources := sl\<rparr>" "Some did" i] assms(2) by (simp add: names_source_def)
  then have 1: "well_typed good ?L1" by (rule well_typed_sources [OF assms(1)])
  obtain q M where reg: "loop_register ops did (TokenFactory_new (se_token (set_source i (Some did) sl ! i))) ?L1 = (q, M)" by force
  have "names_source did ?L1" using assms(2) by (simp add: names_source_def)
  from typed_register [OF 1 this reg] have M: "returns q" "well_typed good M" "kinds_kept L M" by (auto simp: kinds_kept_def)
  have "well_typed good (M\<lparr>lp_sources := set_source i None (lp_sources M)\<rparr>)"
    using M(2) by (intro well_typed_sources core_inv_set_source) (simp_all add: well_typed_def)
  with M v reg assms(4) show ?thesis by (cases q) (auto simp: register_dispatcher_def kinds_kept_def Let_def)
qed

lemma typed_dispatcher_new:
  assumes "well_typed good L" and "good s"
  shows "well_typed good (snd (Dispatcher_new ops s L)) \<and> kinds_kept L (snd (Dispatcher_new ops s L)) \<and>
    names_source (length (lp_cells L)) (snd (Dispatcher_new ops s L)) \<and> (has_room L \<longrightarrow> has_room (snd (Dispatcher_new ops s L)))"
proof -
  have "core_inv None (snd (Dispatcher_new ops s L))"
    using assms(1) by (intro core_inv_dispatcher_new) (simp add: well_typed_def)
  moreover have "kinds_kept L (snd (Dispatcher_new ops s L))"
    by (auto simp: Dispatcher_new_def kinds_kept_def nth_append)
  ultimately show ?thesis
    using assms by (simp add: well_typed_def cells_ok_def Dispatcher_new_def cell_ok_def names_source_def cell_kind_def has_room_def)
qed

lemma typed_insert_source:
  assumes "well_typed good L" and "good s" and "has_room L" and "insert_source ops s L = (r, L')"
  shows "returns r \<and> well_typed good L' \<and> kinds_kept L L'"
proof -
  note new = typed_dispatcher_new [OF assms(1,2)]
  obtain q M where q: "register_dispatcher ops (length (lp_cells L)) (snd (Dispatcher_new ops s L)) = (q, M)" by force
  from new assms(3) typed_register_dispatcher [OF _ _ _ q] have M: "returns q" "well_typed good M" "kinds_kept L M"
    using kinds_kept_trans by blast+
  have "L' = M" using insert_source_snd [of ops s L] assms(4) q by (simp add: Dispatcher_new_def)
  moreover have "returns r"
    using insert_source_returns [of None L ops s] M(1) q assms(1,4) by (simp add: well_typed_def)
  ultimately show ?thesis using M by simp
qed

lemma token_entry:
  assumes "token_typed t L"
  shows "sl_get (lp_sources L) t = Ok e \<Longrightarrow> se_source e = Some d \<Longrightarrow> names_source d L"
  using assms by (auto simp: token_typed_def sl_lookup_def)

lemma typed_enable:
  assumes "well_typed good L" and "token_typed t L" and "handle_enable ops t L = (r, L')"
  shows "returns r \<and> well_typed good L' \<and> kinds_kept L L'"
proof (cases "\<exists>e d. sl_get (lp_sources L) t = Ok e \<and> se_source e = Some d")
  case False
  with assms show ?thesis by (auto simp: handle_enable_def split: outcome.splits option.splits)
next
  case True
  then obtain e d where e: "sl_get (lp_sources L) t = Ok e" "se_source e = Some d" by blast
  with assms(3) typed_register [OF assms(1) token_entry [OF assms(2) e]] show ?thesis by (simp add: handle_enable_def)
qed

lemma typed_pending:
  assumes "returns q \<and> well_typed good M \<and> kinds_kept L M"
    and "and_then (q, M) (\<lambda>a M. (Ok (), if P a then M\<lparr>lp_pending := x\<rparr> else M)) = (r, L')"
  shows "returns r \<and> well_typed good L' \<and> kinds_kept L L'"
  using assms by (cases q) (auto simp: well_typed_def cells_ok_def kinds_kept_def split: if_splits)

lemma typed_update:
  assumes "well_typed good L" and "token_typed t L" and "handle_update ops t L = (r, L')"
  shows "returns r \<and> well_typed good L' \<and> kinds_kept L L'"
proof (cases "\<exists>e d. sl_get (lp_sources L) t = Ok e \<and> se_source e = Some d")
  case False
  with assms show ?thesis by (auto simp: handle_update_def split: outcome.splits option.splits)
next
  case True
  then obtain e d where e: "sl_get (lp_sources L) t = Ok e" "se_source e = Some d" by blast
  obtain q M where m: "loop_reregister ops d (TokenFactory_new (se_token e)) L = (q, M)" by force
  from typed_pending [OF typed_reregister [OF assms(1) token_entry [OF assms(2) e] m]] assms(3) e m show ?thesis
    by (simp add: handle_update_def)
qed

lemma typed_disable:
  assumes "well_typed good L" and "token_typed t L" and "handle_disable K ops t L = (r, L')"
  shows "returns r \<and> well_typed good L' \<and> kinds_kept L L'"
proof (cases "\<exists>e d. sl_get (lp_sources L) t = Ok e \<and> se_source e = Some d \<and> same_source_as t (se_token e)")
  case False
  with assms show ?thesis by (auto simp: handle_disable_def split: outcome.splits option.splits)
next
  case True
  then obtain e d where e: "sl_get (lp_sources L) t = Ok e" "se_source e = Some d" "same_source_as t (se_token e)" by blast
  obtain q M where m: "loop_unregister K ops d t L = (q, M)" by force
  from typed_pending [OF typed_unregister [OF assms(1) token_entry [OF assms(2) e(1,2)] m]] assms(3) e m show ?thesis
    by (simp add: handle_disable_def)
qed

lemma typed_remove:
  assumes "well_typed good L" and "token_typed t L" and "handle_remove K ops t L = (r, L')"
  shows "returns r \<and> well_typed good L' \<and> kinds_kept L L'"
proof (cases "sl_lookup (lp_sources L) t")
  case None
  with assms show ?thesis
    by (auto simp: handle_remove_def sl_lookup_def sl_get_def sl_get_mut_def vec_get_def split: option.splits if_splits)
next
  case (Some d)
  let ?L1 = "L\<lparr>lp_sources := set_source (get_id t) None (lp_sources L)\<rparr>"
  have g: "sl_get_mut (lp_sources L) t = Ok (get_id t)" "se_source (lp_sources L ! get_id t) = Some d"
    using Some by (auto simp: sl_lookup_iff sl_get_mut_iff)
  have 1: "well_typed good ?L1"
    using assms(1) by (intro well_typed_sources [OF assms(1)] core_inv_set_source) (simp_all add: well_typed_def)
  have "names_source d ?L1" using assms(2) Some by (simp add: token_typed_def names_source_def)
  obtain q M where m: "loop_unregister K ops d t ?L1 = (q, M)" by force
  from typed_unregister [OF 1 \<open>names_source d ?L1\<close> m] assms(3) g m show ?thesis
    by (cases q) (auto simp: handle_remove_def log_error_def kinds_kept_def)
qed

end

section \<open>Adapters\<close>

lemma adapter_io:
  assumes "well_typed good L" and "names_adapter a L"
  obtains io tok where "io_at (as_dispatcher a) L = Some io" "io_token io = Some tok"
proof (cases "cell_val (lp_cells L ! as_dispatcher a)")
  case (IoDisp io)
  with assms cells_okD [of good L "as_dispatcher a"] that show ?thesis
    by (auto simp: well_typed_def names_adapter_def cell_ok_def io_at_def)
qed (use assms in \<open>simp add: names_adapter_def cell_kind_def\<close>)

lemma typed_io_put:
  assumes "well_typed good L" and "names_adapter a L" and "io_token io \<noteq> None"
  shows "well_typed good (io_put (as_dispatcher a) io L)" and "kinds_kept L (io_put (as_dispatcher a) io L)"
    and "names_adapter a (io_put (as_dispatcher a) io L)"
proof -
  show "well_typed good (io_put (as_dispatcher a) io L)"
    using assms core_inv_io_put [of None L "as_dispatcher a" io] unfolding well_typed_def
    by (auto simp: io_put_def cell_ok_def intro!: cells_ok_cell)
  show k: "kinds_kept L (io_put (as_dispatcher a) io L)"
    using assms(2) unfolding io_put_def by (intro kinds_kept_cell) (simp add: names_adapter_def cell_kind_def)
  then show "names_adapter a (io_put (as_dispatcher a) io L)"
    using assms(2) by (auto simp: names_adapter_def kinds_kept_def)
qed

lemma typed_poll [simp]:
  "well_typed good (L\<lparr>lp_poll := P\<rparr>) = well_typed good L" "names_adapter a (L\<lparr>lp_poll := P\<rparr>) = names_adapter a L"
  by (simp_all add: well_typed_def cells_ok_def names_adapter_def)

lemma Poll_returns [simp]:
  "returns (fst (Poll_register K fd i m t P))" "returns (fst (Poll_reregister K fd i m t P))" "returns (fst (Poll_unregister K fd P))"
  by (auto simp: Poll_register_def Poll_reregister_def Poll_unregister_def Let_def split: prod.split sum.split)

lemma Poll_no_panic [simp]:
  "Poll_register K fd i m t P \<noteq> (Panic, P')" "Poll_register K fd i m t P \<noteq> (Diverge, P')"
  "Poll_reregister K fd i m t P \<noteq> (Panic, P')" "Poll_reregister K fd i m t P \<noteq> (Diverge, P')"
  "Poll_unregister K fd P \<noteq> (Panic, P')" "Poll_unregister K fd P \<noteq> (Diverge, P')"
  using Poll_returns [where 'a = 'p] by (metis fst_conv returns_simps(3,4))+

lemma io_registered:
  assumes "well_typed good L" and "names_adapter a L" and "io_token io \<noteq> None"
  shows "well_typed good (if b then io_put (as_dispatcher a) io (L\<lparr>lp_poll := P\<rparr>) else L\<lparr>lp_poll := P\<rparr>) \<and>
    kinds_kept L (if b then io_put (as_dispatcher a) io (L\<lparr>lp_poll := P\<rparr>) else L\<lparr>lp_poll := P\<rparr>)"
  using typed_io_put [of good "L\<lparr>lp_poll := P\<rparr>" a io] assms by (simp add: kinds_kept_def)

lemma typed_io_register:
  assumes "well_typed good L" and "names_adapter a L" and "io_token io \<noteq> None"
  shows "io_register K (as_dispatcher a) io L = (r, L') \<Longrightarrow> returns r \<and> well_typed good L' \<and> kinds_kept L L'"
    and "io_reregister K (as_dispatcher a) io L = (r, L') \<Longrightarrow> returns r \<and> well_typed good L' \<and> kinds_kept L L'"
proof -
  obtain t where t: "io_token io = Some t" using assms(3) by blast
  note put = io_registered [OF assms(1,2), of "io\<lparr>io_is_registered := True\<rparr>"]
  show "io_register K (as_dispatcher a) io L = (r, L') \<Longrightarrow> returns r \<and> well_typed good L' \<and> kinds_kept L L'"
    using t put Poll_returns(1) [of K "io_fd io" Interest_EMPTY OneShot t "lp_poll L"]
    by (cases "Poll_register K (io_fd io) Interest_EMPTY OneShot t (lp_poll L)") (auto simp: io_register_def Let_def)
  show "io_reregister K (as_dispatcher a) io L = (r, L') \<Longrightarrow> returns r \<and> well_typed good L' \<and> kinds_kept L L'"
    using t put Poll_returns(2) [of K "io_fd io" "io_interest io" OneShot t "lp_poll L"]
    by (cases "Poll_reregister K (io_fd io) (io_interest io) OneShot t (lp_poll L)") (auto simp: io_reregister_def Let_def)
qed

lemma typed_async_register_waker:
  assumes "well_typed good L" and "names_adapter a L" and "async_register_waker K a i wk L = (r, L')"
  shows "returns r \<and> well_typed good L' \<and> kinds_kept L L'"
proof -
  obtain io tok where io: "io_at (as_dispatcher a) L = Some io" "io_token io = Some tok" by (rule adapter_io [OF assms(1,2)])
  let ?io = "io\<lparr>io_interest := i, io_waker := Some wk\<rparr>"
  have t: "io_token ?io \<noteq> None" using io by simp
  note put = typed_io_put [OF assms(1,2) t]
  from typed_io_register(2) [OF put(1,3) t] assms(3) io kinds_kept_trans [OF put(2)] show ?thesis
    by (auto simp: async_register_waker_def Let_def)
qed

lemma typed_async_poll:
  assumes "well_typed good L" and "names_adapter a L" and "async_poll K wanted i a wk L = (r, L')"
  shows "returns r \<and> well_typed good L' \<and> kinds_kept L L'"
proof -
  obtain io tok where io: "io_at (as_dispatcher a) L = Some io" "io_token io = Some tok" by (rule adapter_io [OF assms(1,2)])
  let ?L1 = "io_put (as_dispatcher a) (snd (io_readiness io)) L"
  have "io_token (snd (io_readiness io)) \<noteq> None" using io by (simp add: io_readiness_def)
  note put = typed_io_put [OF assms(1,2) this]
  obtain q M where q: "async_register_waker K a i wk ?L1 = (q, M)" by force
  from typed_async_register_waker [OF put(1,3) q] have M: "returns q" "well_typed good M" "kinds_kept L M"
    using kinds_kept_trans [OF put(2)] by blast+
  with q put assms(3) io show ?thesis
    by (cases q) (auto simp: async_poll_def Let_def split: prod.splits if_splits)
qed

lemma typed_async_drop:
  assumes "well_typed good L" and "names_adapter a L" and "async_drop K a L = (r, L')"
  shows "returns r \<and> well_typed good L' \<and> kinds_kept L L'"
proof -
  obtain io tok where io: "io_at (as_dispatcher a) L = Some io" "io_token io = Some tok" by (rule adapter_io [OF assms(1,2)])
  let ?M = "io_deleted K (as_dispatcher a) io L"
  have M: "well_typed good ?M" "kinds_kept L ?M"
    using io_registered [OF assms(1,2), of "io\<lparr>io_is_registered := False\<rparr>"] io(2) assms(1)
    by (simp_all add: io_deleted_def Let_def)
  have "well_typed good (?M\<lparr>lp_sources := sl_release tok (lp_sources ?M)\<rparr>)"
    using M(1) by (intro well_typed_sources core_inv_release) (simp_all add: well_typed_def)
  with M(2) assms(3) async_drop_eq [OF io, of K] show ?thesis by (auto simp: kinds_kept_def)
qed

lemma typed_async_new:
  assumes "well_typed good L" and "has_room L" and "Async_new K nb fd L = (r, L')"
  shows "returns r \<and> well_typed good L' \<and> kinds_kept L L'"
proof (cases nb)
  case (Inl e)
  with assms show ?thesis by (auto simp: Async_new_def)
next
  case (Inr b)
  obtain i sl where v: "vacant_entry (lp_sources L) = (Ok i, sl)" by (rule has_room_vacant [OF assms(2)])
  let ?did = "length (lp_cells L)" and ?a = "\<lparr>as_dispatcher = length (lp_cells L), as_was_nonblocking = b\<rparr>"
  define sl' c where "sl' = set_source i (Some ?did) sl"
    and "c = ((io_disp_new fd)\<lparr>io_token := Some (se_token (sl' ! i))\<rparr>)"
  let ?L0 = "L\<lparr>lp_cells := lp_cells L @ [\<lparr>cell_val = IoDisp c, cell_borrowed = False\<rparr>]\<rparr>"
  let ?L1 = "?L0\<lparr>lp_sources := sl'\<rparr>"
  have "core_inv None (L\<lparr>lp_sources := sl\<rparr>)" using assms(1) v by (intro core_inv_vacant) (simp_all add: well_typed_def)
  then have "core_inv None ?L1"
    using core_inv_set_source [OF core_inv_new_cell, of None "L\<lparr>lp_sources := sl\<rparr>" "\<lparr>cell_val = IoDisp c, cell_borrowed = False\<rparr>"
      "Some ?did" i] by (simp add: sl'_def)
  moreover have "cells_ok good ?L1" using assms(1) by (simp add: well_typed_def cells_ok_def cell_ok_def c_def)
  ultimately have 1: "well_typed good ?L1" by (simp add: well_typed_def)
  have k: "kinds_kept L ?L1" by (auto simp: kinds_kept_def nth_append)
  have "names_adapter ?a ?L1" by (simp add: names_adapter_def cell_kind_def)
  moreover obtain q M where q: "io_register K ?did c ?L1 = (q, M)" by force
  ultimately have M: "returns q" "well_typed good M" "kinds_kept ?L1 M"
    using typed_io_register(1) [OF 1, of ?a c K q M] by (simp_all add: c_def)
  have "(r, L') = and_then (q, M) (\<lambda>_ N. (Ok ?a, N))"
    using assms(3) Inr v q by (simp add: Async_new_def sl'_def c_def Let_def)
  then show ?thesis using M kinds_kept_trans [OF k] by (cases q) auto
qed

section \<open>Type soundness\<close>

context typed_sources
begin

lemma typed_source_mut:
  assumes "well_typed good L" and "typed_call good (CallSourceMut did f) L" and "as_source_mut did f L = (r, L')"
  shows "returns r \<and> well_typed good L' \<and> kinds_kept L L'"
proof -
  obtain di where di: "did < length (lp_cells L)" "cell_val (lp_cells L ! did) = SourceDisp di" "good (f (di_source di))"
    using assms(2) by (auto simp: typed_call_def split: dispatcher.splits)
  let ?c = "(lp_cells L ! did)\<lparr>cell_val := SourceDisp (di\<lparr>di_source := f (di_source di)\<rparr>)\<rparr>"
  have free: "\<not> cell_borrowed (lp_cells L ! did)" using assms(1) core_invD(3) di(1) by (auto simp: well_typed_def)
  have "core_inv None (L\<lparr>lp_cells := (lp_cells L)[did := ?c]\<rparr>)"
    using assms(1) free by (intro core_inv_cell) (simp_all add: well_typed_def)
  moreover have "cells_ok good (L\<lparr>lp_cells := (lp_cells L)[did := ?c]\<rparr>)"
    using assms(1) di by (intro cells_ok_cell) (simp_all add: well_typed_def cell_ok_def)
  moreover have "kinds_kept L (L\<lparr>lp_cells := (lp_cells L)[did := ?c]\<rparr>)"
    using di by (intro kinds_kept_cell) (simp add: cell_kind_def)
  ultimately show ?thesis using assms(3) di free by (auto simp: as_source_mut_def well_typed_def Let_def)
qed

lemma typed_call_sound:
  assumes typed: "well_typed good L" and "typed_call good c L" and e: "exec_call K ops c L = (r, L')"
  shows "returns r \<and> well_typed good L' \<and> kinds_kept L L'"
proof -
  have simple: ?thesis if "returns r" "lp_sources L' = lp_sources L" "lp_cells L' = lp_cells L"
    using that typed core_inv_cong [of L' L None] cells_ok_cong [of L' L good] by (simp add: well_typed_def kinds_kept_def)
  show ?thesis
  proof (cases c)
    case (CallDispatcherNew s)
    with e typed_dispatcher_new [OF typed, of s] assms(2) show ?thesis by (auto simp: typed_call_def)
  next
    case (CallRegister d)
    with e obtain q where "register_dispatcher ops d L = (q, L')" "returns q = returns r"
      by (cases "register_dispatcher ops d L") (auto simp: forget_result_def)
    with typed_register_dispatcher [OF typed, of d q L'] assms(2) CallRegister show ?thesis by (simp add: typed_call_def)
  next
    case (CallInsertSource s)
    with e obtain q where "insert_source ops s L = (q, L')" "returns q = returns r"
      by (cases "insert_source ops s L") auto
    with typed_insert_source [OF typed, of s q L'] assms(2) CallInsertSource show ?thesis by (simp add: typed_call_def)
  next
    case (CallSourceMut d f)
    with typed_source_mut [OF typed] e assms(2) show ?thesis by simp
  next
    case (CallAdaptIo nb fd)
    with e obtain q where "Async_new K nb fd L = (q, L')" "returns q = returns r"
      by (cases "Async_new K nb fd L") (auto simp: forget_result_def)
    with typed_async_new [OF typed, of K nb fd q L'] assms(2) CallAdaptIo show ?thesis by (simp add: typed_call_def)
  next
    case (CallReadable a wk)
    with e obtain q where "async_poll K rd_readable Interest_READ a wk L = (q, L')" "returns q = returns r"
      by (cases "readable_poll K a wk L") (auto simp: forget_result_def readable_poll_def)
    with typed_async_poll [OF typed _ this(1)] assms(2) CallReadable show ?thesis by (simp add: typed_call_def)
  next
    case (CallWritable a wk)
    with e obtain q where "async_poll K rd_writable Interest_WRITE a wk L = (q, L')" "returns q = returns r"
      by (cases "writable_poll K a wk L") (auto simp: forget_result_def writable_poll_def)
    with typed_async_poll [OF typed _ this(1)] assms(2) CallWritable show ?thesis by (simp add: typed_call_def)
  next
    case (CallEnable t)
    with typed_enable [OF typed] e assms(2) show ?thesis by (simp add: typed_call_def)
  next
    case (CallUpdate t)
    with typed_update [OF typed] e assms(2) show ?thesis by (simp add: typed_call_def)
  next
    case (CallDisable t)
    with typed_disable [OF typed] e assms(2) show ?thesis by (simp add: typed_call_def)
  next
    case (CallRemove t)
    with typed_remove [OF typed] e assms(2) show ?thesis by (simp add: typed_call_def)
  next
    case (CallAsyncWait a i wk)
    with typed_async_register_waker [OF typed] e assms(2) show ?thesis by (simp add: typed_call_def)
  next
    case (CallAsyncDrop a)
    with typed_async_drop [OF typed] e assms(2) show ?thesis by (simp add: typed_call_def)
  qed (rule simple; use e assms(2) in \<open>auto simp: typed_call_def insert_idle_def idle_cancel_def signal_stop_def
      signal_wakeup_def loop_waker_wake_def Let_def split: if_splits\<close>)+
qed

end

text \<open>Timers and descriptors keep the contract; a \<open>Generic\<close> in a loop still has its file.\<close>

definition app_good :: "app_source \<Rightarrow> bool" where
  "app_good s = (case s of Inl _ \<Rightarrow> True | Inr g \<Rightarrow> gn_file g \<noteq> None)"

lemma timer_returns:
  "timer_register tm P (TokenFactory_new t) = (r, tm', P', tf') \<Longrightarrow> returns r"
  "timer_reregister tm P (TokenFactory_new t) = (r, tm', P', tf') \<Longrightarrow> returns r"
  "timer_unregister tm P = (r, tm', P') \<Longrightarrow> returns r"
  by (auto simp: timer_register_def timer_reregister_def timer_unregister_def split: option.splits prod.splits outcome.splits)

lemma generic_returns:
  assumes "gn_file g = Some file"
  shows "generic_register K as_fd g P (TokenFactory_new t) = (r, g', P', tf') \<Longrightarrow> returns r \<and> gn_file g' = Some file"
    and "generic_reregister K as_fd g P (TokenFactory_new t) = (r, g', P', tf') \<Longrightarrow> returns r \<and> gn_file g' = Some file"
    and "generic_unregister K as_fd g P = (r, g', P') \<Longrightarrow> returns r \<and> gn_file g' = Some file"
  using assms by (auto simp: generic_register_def generic_reregister_def generic_unregister_def split: prod.splits outcome.splits)

lemmas app_ops_defs = app_ops_def sum_ops_def sum_result_def timer_ops_def generic_ops_def

interpretation app_types: typed_sources "app_ops K on_timer on_ready" app_good
  for K :: "'p poller_ops" and on_timer and on_ready :: "readiness \<Rightarrow> raw_fd \<Rightarrow> (io_error + post_action) \<times> ('p, 'd) app_call list"
  by unfold_locales
    (auto simp: app_ops_defs app_good_def split: sum.splits prod.splits dest: timer_returns generic_returns)

text \<open>
  C8: well-typed calls never panic. In a well-typed state, between dispatches, a call through a
  handle that names an object of the right kind returns a value or an error and leaves a
  well-typed state in which every handle still names an object of its kind: none of the
  \<open>unreachable!()\<close>, \<open>unwrap\<close> and \<open>borrow_mut\<close> of these operations can be reached.
\<close>

theorem typed_calls_never_panic:
  assumes "typed_sources ops good" and "well_typed good L" and "typed_call good c L" and "exec_call K ops c L = (r, L')"
  shows "(r = Ok () \<or> (\<exists>e. r = Err e)) \<and> well_typed good L' \<and>
    (\<forall>did. names_source did L \<longrightarrow> names_source did L') \<and> (\<forall>a. names_adapter a L \<longrightarrow> names_adapter a L')"
proof -
  have "returns r" "well_typed good L'" "kinds_kept L L'"
    using typed_sources.typed_call_sound [OF assms] by simp_all
  then show ?thesis
    by (cases r) (auto simp: names_source_def names_adapter_def kinds_kept_def)
qed

theorem typed_calls_never_panic_witness:
  "\<exists>L r L' :: (script_poller, nat list) app_state.
     try_new SP (Inr \<lparr>sp_regs = [], sp_now = 0, sp_level = True, sp_script = []\<rparr>) [] = Ok L \<and>
     exec_call SP (app_ops SP (\<lambda>_. (TDrop, [])) (\<lambda>_ _. (Inr Continue, []))) (CallInsertSource (Inr (Generic_new 3 Interest_READ Level))) L
       = (r, L') \<and> (r = Ok () \<or> (\<exists>e. r = Err e)) \<and> well_typed app_good L'"
proof -
  obtain L :: "(script_poller, nat list) app_state"
    where new: "try_new SP (Inr \<lparr>sp_regs = [], sp_now = 0, sp_level = True, sp_script = []\<rparr>) [] = Ok L"
    by (simp add: try_new_def Poll_new_def Poll_new_inner_def)
  then have L: "well_typed app_good L" "has_room L"
    using try_new_core_inv [OF new]
    by (auto simp: try_new_def Poll_new_def Poll_new_inner_def well_typed_def cells_ok_def has_room_def SourceList_new_def)
  let ?ops = "app_ops SP (\<lambda>_. (TDrop, [])) (\<lambda>_ _. (Inr Continue, [])) :: (app_source, nat, script_poller, nat list) loop_ops"
    and ?c = "CallInsertSource (Inr (Generic_new 3 Interest_READ Level))"
  obtain r L' where e: "exec_call SP ?ops ?c L = (r, L')" by force
  have "typed_call app_good ?c L" using L(2) by (simp add: typed_call_def app_good_def Generic_new_def)
  from typed_calls_never_panic [OF app_types.typed_sources_axioms L(1) this e] new e show ?thesis by blast
qed

end
