(* ===== verification/Wheel_Refinement.thy ===== *)
theory Wheel_Refinement
  imports Timer_Wheel
begin

text \<open>
  The timer wheel of \<open>src/src/sources/timer.rs\<close> against an abstract agenda: a multiset of timeouts
  and the next counter. Every run of wheel operations with at most 2 ^ 32 insertions, in which a counter is
  reused only after its entry has expired, gives answers the agenda allows, although \<open>cancel\<close> takes a short cut when the entry
  happens to be the next to expire.
\<close>

section \<open>Operations and answers\<close>

datatype wheel_op =
    WInsert instant token
  | WReuse u32 instant token
  | WCancel u32
  | WExpire instant
  | WDeadline

datatype wheel_answer = ACounter u32 | ADone | AExpired "(u32 \<times> token) option" | ADeadline "instant option"

fun wheel_do :: "wheel_op \<Rightarrow> timer_wheel \<Rightarrow> wheel_answer \<times> timer_wheel" where
  "wheel_do (WInsert d t) w = map_prod ACounter id (wheel_insert d t w)"
| "wheel_do (WReuse c d t) w = (ADone, wheel_insert_reuse c d t w)"
| "wheel_do (WCancel c) w = (ADone, wheel_cancel c w)"
| "wheel_do (WExpire now) w = map_prod AExpired id (wheel_next_expired now w)"
| "wheel_do WDeadline w = (ADeadline (wheel_next_deadline w), w)"

fun wheel_run :: "wheel_op list \<Rightarrow> timer_wheel \<Rightarrow> wheel_answer list \<times> timer_wheel" where
  "wheel_run [] w = ([], w)"
| "wheel_run (x # xs) w =
     (case wheel_do x w of (a, w') \<Rightarrow> case wheel_run xs w' of (as, w'') \<Rightarrow> (a # as, w''))"

section \<open>The agenda\<close>

record agenda =
  ag_items :: "timeout_data multiset"
  ag_next :: u32

definition ag_counters :: "agenda \<Rightarrow> u32 set" where
  "ag_counters A = td_counter ` set_mset (ag_items A)"

text \<open>What the operations need: a fresh counter is not in use, nor is one that is reused.\<close>

fun ag_guard :: "wheel_op \<Rightarrow> agenda \<Rightarrow> bool" where
  "ag_guard (WInsert d t) A \<longleftrightarrow> ag_next A \<notin> ag_counters A"
| "ag_guard (WReuse c d t) A \<longleftrightarrow> c \<notin> ag_counters A"
| "ag_guard _ A \<longleftrightarrow> True"

inductive ag_step :: "agenda \<Rightarrow> wheel_op \<Rightarrow> wheel_answer \<Rightarrow> agenda \<Rightarrow> bool" where
  ag_insert: "ag_step A (WInsert d t) (ACounter (ag_next A))
     \<lparr>ag_items = add_mset \<lparr>td_deadline = d, td_token = t, td_counter = ag_next A\<rparr> (ag_items A), ag_next = ag_next A + 1\<rparr>"
| ag_reuse: "ag_step A (WReuse c d t) ADone
     (A\<lparr>ag_items := add_mset \<lparr>td_deadline = d, td_token = t, td_counter = c\<rparr> (ag_items A)\<rparr>)"
| ag_cancel: "ag_step A (WCancel c) ADone (A\<lparr>ag_items := filter_mset (\<lambda>d. td_counter d \<noteq> c) (ag_items A)\<rparr>)"
| ag_expire: "d \<in># ag_items A \<Longrightarrow> td_deadline d \<le> now \<Longrightarrow> \<forall>e \<in># ag_items A. td_deadline d \<le> td_deadline e \<Longrightarrow>
     ag_step A (WExpire now) (AExpired (Some (td_counter d, td_token d))) (A\<lparr>ag_items := ag_items A - {#d#}\<rparr>)"
| ag_quiet: "\<forall>d \<in># ag_items A. now < td_deadline d \<Longrightarrow> ag_step A (WExpire now) (AExpired None) A"
| ag_empty: "ag_items A = {#} \<Longrightarrow> ag_step A WDeadline (ADeadline None) A"
| ag_deadline: "d \<in># ag_items A \<Longrightarrow> \<forall>e \<in># ag_items A. td_deadline d \<le> td_deadline e \<Longrightarrow>
     ag_step A WDeadline (ADeadline (Some (td_deadline d))) A"

inductive ag_run :: "agenda \<Rightarrow> wheel_op list \<Rightarrow> wheel_answer list \<Rightarrow> agenda \<Rightarrow> bool" where
  ag_nil: "ag_run A [] [] A"
| ag_cons: "ag_step A x a B \<Longrightarrow> ag_run B xs as C \<Longrightarrow> ag_run A (x # xs) (a # as) C"

inductive_simps ag_run_simps: "ag_run A [] as C" "ag_run A (x # xs) as C"

text \<open>The abstraction of a wheel, and these conditions along a run.\<close>

definition wheel_agenda :: "timer_wheel \<Rightarrow> agenda" where
  "wheel_agenda w = \<lparr>ag_items = wheel_items w, ag_next = tw_counter w\<rparr>"

fun follows_protocol :: "wheel_op list \<Rightarrow> timer_wheel \<Rightarrow> bool" where
  "follows_protocol [] w \<longleftrightarrow> True"
| "follows_protocol (x # xs) w \<longleftrightarrow> ag_guard x (wheel_agenda w) \<and> follows_protocol xs (snd (wheel_do x w))"

section \<open>Simulation\<close>

lemma tw_counter_simps:
  "tw_counter (snd (wheel_insert d t w)) = tw_counter w + 1" "fst (wheel_insert d t w) = tw_counter w"
  "tw_counter (wheel_insert_reuse c d t w) = tw_counter w" "tw_counter (wheel_cancel c w) = tw_counter w"
  "tw_counter (snd (wheel_next_expired now w)) = tw_counter w"
  by (auto simp: wheel_insert_def wheel_insert_reuse_def wheel_cancel_def wheel_next_expired_def Let_def split: option.split)

lemma wheel_step:
  assumes "distinct_counters (wheel_items w)" and "wheel_do x w = (a, w')"
  shows "ag_step (wheel_agenda w) x a (wheel_agenda w')"
proof (cases x)
  case (WInsert d t)
  have "wheel_items (snd (wheel_insert d t w)) =
      add_mset \<lparr>td_deadline = d, td_token = t, td_counter = tw_counter w\<rparr> (wheel_items w)"
    by (metis prod.collapse tw_counter_simps(2) wheel.items_insert)
  with ag_step.ag_insert [of "wheel_agenda w" d t] show ?thesis
    using assms(2) by (auto simp: WInsert wheel_agenda_def map_prod_def tw_counter_simps split: prod.splits)
      (metis fst_conv snd_conv tw_counter_simps(1,2))
next
  case (WReuse c d t)
  with ag_step.ag_reuse [of "wheel_agenda w" c d t] assms(2) wheel.items_reuse [of c d t w] show ?thesis
    by (auto simp: wheel_agenda_def tw_counter_simps)
next
  case (WCancel c)
  with ag_step.ag_cancel [of "wheel_agenda w" c] assms wheel.items_cancel [of w c] show ?thesis
    by (auto simp: wheel_agenda_def tw_counter_simps)
next
  case (WExpire now)
  obtain e w2 where e: "wheel_next_expired now w = (e, w2)" by force
  with tw_counter_simps(5) have cnt: "tw_counter w2 = tw_counter w" by (metis snd_conv)
  show ?thesis
  proof (cases e)
    case None
    with e wheel.expire_None ag_step.ag_quiet [of "wheel_agenda w" now] assms(2) show ?thesis
      by (auto simp: WExpire wheel_agenda_def)
  next
    case (Some p)
    then obtain d where d: "d \<in># wheel_items w" "p = (td_counter d, td_token d)" "td_deadline d \<le> now"
      "\<forall>e \<in># wheel_items w. td_deadline d \<le> td_deadline e" "wheel_items w2 = wheel_items w - {#d#}"
      using wheel.expire_Some [of now w "fst p" "snd p" w2] e by (metis prod.collapse)
    then show ?thesis
      using assms(2) e Some cnt ag_step.ag_expire [of d "wheel_agenda w" now] by (auto simp: WExpire wheel_agenda_def)
  qed
next
  case WDeadline
  show ?thesis
  proof (cases "wheel_next_deadline w")
    case None
    with wheel.earliest_None ag_step.ag_empty [of "wheel_agenda w"] assms(2) show ?thesis
      by (auto simp: WDeadline wheel_agenda_def)
  next
    case (Some i)
    then obtain d where "d \<in># wheel_items w" "td_deadline d = i" "\<forall>e \<in># wheel_items w. i \<le> td_deadline e"
      using wheel.earliest_Some by blast
    then show ?thesis
      using assms(2) Some ag_step.ag_deadline [of d "wheel_agenda w"] by (auto simp: WDeadline wheel_agenda_def)
  qed
qed

lemma distinct_counters_add:
  "distinct_counters M \<Longrightarrow> td_counter d \<notin> td_counter ` set_mset M \<Longrightarrow> distinct_counters (add_mset d M)"
proof -
  assume M: "distinct_counters M" and new: "td_counter d \<notin> td_counter ` set_mset M"
  have "\<forall>x \<in># M. td_counter x \<noteq> td_counter d" using new by (metis imageI)
  then have "filter_mset (\<lambda>e. td_counter e = td_counter d) M = {#}" by (simp add: filter_mset_eq_mempty_iff)
  with M show ?thesis unfolding distinct_counters_def by simp
qed

lemma distinct_counters_sub: "distinct_counters M \<Longrightarrow> N \<subseteq># M \<Longrightarrow> distinct_counters N"
  unfolding distinct_counters_def by (meson multiset_filter_mono size_mset_mono le_trans)

lemma ag_step_distinct:
  "ag_step A x a B \<Longrightarrow> ag_guard x A \<Longrightarrow> distinct_counters (ag_items A) \<Longrightarrow> distinct_counters (ag_items B)"
  by (induction rule: ag_step.induct)
    (auto simp: ag_counters_def intro!: distinct_counters_add elim: distinct_counters_sub)

lemma wheel_simulation:
  "wheel_run xs w = (as, w') \<Longrightarrow> follows_protocol xs w \<Longrightarrow> distinct_counters (wheel_items w) \<Longrightarrow>
     ag_run (wheel_agenda w) xs as (wheel_agenda w') \<and> distinct_counters (wheel_items w')"
proof (induction xs arbitrary: w as)
  case Nil
  then show ?case by (simp add: ag_run_simps)
next
  case (Cons x xs)
  obtain a w1 bs where a: "wheel_do x w = (a, w1)" "wheel_run xs w1 = (bs, w')" "as = a # bs"
    using Cons.prems(1) by (auto split: prod.splits)
  have s: "ag_step (wheel_agenda w) x a (wheel_agenda w1)" by (rule wheel_step [OF Cons.prems(3) a(1)])
  have "distinct_counters (wheel_items w1)"
    using ag_step_distinct [OF s] Cons.prems(2,3) by (simp add: wheel_agenda_def)
  with Cons.IH [OF a(2)] Cons.prems(2) a(1) s show ?case by (auto simp: a(3) ag_run_simps)
qed

section \<open>The protocol of the timer source\<close>

text \<open>
  A counter may be reused once after each expiry that returned it. \<open>idle\<close> holds the counters that have
  expired and were not reused since.
\<close>

fun reuses_expired :: "u32 set \<Rightarrow> wheel_op list \<Rightarrow> wheel_answer list \<Rightarrow> bool" where
  "reuses_expired idle (WReuse c d t # xs) (a # as) \<longleftrightarrow> c \<in> idle \<and> reuses_expired (idle - {c}) xs as"
| "reuses_expired idle (x # xs) (AExpired (Some (c, t)) # as) \<longleftrightarrow> reuses_expired (insert c idle) xs as"
| "reuses_expired idle (x # xs) (a # as) \<longleftrightarrow> reuses_expired idle xs as"
| "reuses_expired idle _ _ \<longleftrightarrow> True"

fun insertions :: "wheel_op list \<Rightarrow> nat" where
  "insertions [] = 0"
| "insertions (WInsert d t # xs) = Suc (insertions xs)"
| "insertions (x # xs) = insertions xs"

text \<open>After \<open>n\<close> insertions the counters in use and the idle ones are apart, and are among the first \<open>n\<close>.\<close>

definition protocol_inv :: "nat \<Rightarrow> u32 set \<Rightarrow> agenda \<Rightarrow> bool" where
  "protocol_inv n idle A \<longleftrightarrow> ag_next A = of_nat n \<and> (\<forall>c \<in> ag_counters A \<union> idle. unat c < n) \<and>
     ag_counters A \<inter> idle = {} \<and> distinct_counters (ag_items A)"

lemma distinct_counters_drop:
  assumes "distinct_counters M" and "d \<in># M"
  shows "td_counter d \<notin> td_counter ` set_mset (M - {#d#})"
proof
  assume "td_counter d \<in> td_counter ` set_mset (M - {#d#})"
  then obtain e where e: "e \<in># M - {#d#}" "td_counter e = td_counter d" by auto
  then obtain N where "M - {#d#} = add_mset e N" by (meson mset_add)
  with assms(2) have M: "M = add_mset d (add_mset e N)" by (metis insert_DiffM)
  have "size (filter_mset (\<lambda>x. td_counter x = td_counter d) M) \<le> 1" using assms(1) unfolding distinct_counters_def by blast
  with e(2) show False by (simp add: M)
qed

lemma unat_counter: "n < 2 ^ 32 \<Longrightarrow> unat (of_nat n :: u32) = n"
  by (simp add: unat_of_nat)

lemma fresh_counter: "protocol_inv n idle A \<Longrightarrow> n < 2 ^ 32 \<Longrightarrow> ag_next A \<notin> ag_counters A \<union> idle"
  unfolding protocol_inv_def by (metis less_irrefl unat_counter)

lemma protocol_step:
  assumes "ag_step A x a B" and "protocol_inv n idle A" and "reuses_expired idle (x # xs) (a # as)"
    and "n + insertions (x # xs) \<le> 2 ^ 32"
  shows "ag_guard x A \<and> (\<exists>n' idle'. protocol_inv n' idle' B \<and> reuses_expired idle' xs as \<and> n' + insertions xs \<le> 2 ^ 32)"
  using assms(1)
proof cases
  case (ag_insert d t)
  have n: "n < 2 ^ 32" using assms(4) ag_insert by simp
  note fresh = fresh_counter [OF assms(2) n]
  have "protocol_inv (Suc n) idle B"
    using assms(2) fresh n distinct_counters_add [of "ag_items A" "\<lparr>td_deadline = d, td_token = t, td_counter = ag_next A\<rparr>"]
      unat_counter [of n] by (auto simp: ag_insert protocol_inv_def ag_counters_def less_SucI)
  then show ?thesis using assms(3,4) fresh ag_insert by (intro conjI exI [of _ "Suc n"] exI [of _ idle]) auto
next
  case (ag_reuse c d t)
  have c: "c \<in> idle" using assms(3) ag_reuse by simp
  then have "c \<notin> ag_counters A" using assms(2) by (auto simp: protocol_inv_def)
  then have "protocol_inv n (idle - {c}) B"
    using assms(2) c distinct_counters_add [of "ag_items A" "\<lparr>td_deadline = d, td_token = t, td_counter = c\<rparr>"]
    by (auto simp: ag_reuse protocol_inv_def ag_counters_def)
  then show ?thesis using assms(3,4) \<open>c \<notin> ag_counters A\<close> ag_reuse by (intro conjI exI [of _ n] exI [of _ "idle - {c}"]) auto
next
  case (ag_cancel c)
  have "protocol_inv n idle B"
    using assms(2) distinct_counters_sub [of "ag_items A" "ag_items B"] by (auto simp: ag_cancel protocol_inv_def ag_counters_def)
  then show ?thesis using assms(3,4) ag_cancel by (intro conjI exI [of _ n] exI [of _ idle]) auto
next
  case (ag_expire d now)
  have "td_counter d \<notin> ag_counters B"
    using distinct_counters_drop [of "ag_items A" d] assms(2) ag_expire by (simp add: protocol_inv_def ag_counters_def)
  moreover have "ag_counters B \<subseteq> ag_counters A" by (auto simp: ag_expire ag_counters_def dest: in_diffD)
  moreover have "unat (td_counter d) < n" using assms(2) ag_expire(4) by (auto simp: protocol_inv_def ag_counters_def)
  moreover have "distinct_counters (ag_items B)" using assms(2) distinct_counters_sub [of "ag_items A" "ag_items B"]
    by (simp add: ag_expire protocol_inv_def)
  ultimately have "protocol_inv n (insert (td_counter d) idle) B"
    using assms(2) by (auto simp: protocol_inv_def ag_expire(3))
  then show ?thesis using assms(3,4) ag_expire by (intro conjI exI [of _ n] exI [of _ "insert (td_counter d) idle"]) auto
qed (use assms in \<open>auto intro!: exI [of _ n] exI [of _ idle]\<close>)

lemma protocol_followed:
  "wheel_run xs w = (as, w') \<Longrightarrow> protocol_inv n idle (wheel_agenda w) \<Longrightarrow> reuses_expired idle xs as \<Longrightarrow>
     n + insertions xs \<le> 2 ^ 32 \<Longrightarrow> follows_protocol xs w"
proof (induction xs arbitrary: w as n idle)
  case (Cons x xs)
  obtain a w1 bs where a: "wheel_do x w = (a, w1)" "wheel_run xs w1 = (bs, w')" "as = a # bs"
    using Cons.prems(1) by (auto split: prod.splits)
  have "ag_step (wheel_agenda w) x a (wheel_agenda w1)"
    using wheel_step [OF _ a(1)] Cons.prems(2) by (simp add: protocol_inv_def wheel_agenda_def)
  from protocol_step [OF this Cons.prems(2) Cons.prems(3) [unfolded a(3)] Cons.prems(4)] Cons.IH [OF a(2)] a(1)
  show ?case by auto
qed simp

text \<open>
  C13: the wheel implements the agenda. Whatever operations are made on a new wheel, each answer
  (the counter of an insertion, the timer an expiry takes out or that there is none, the next
  deadline) is one the agenda gives, provided that there are at most 2 ^ 32 insertions, after which the counter
  has come round, and that a counter is given to \<open>insert_reuse\<close> only after an expiry has returned it, once for each
  expiry.
\<close>

theorem wheel_refines_agenda:
  assumes "wheel_run xs TimerWheel_new = (as, w')" and "insertions xs \<le> 2 ^ 32" and "reuses_expired {} xs as"
  shows "ag_run \<lparr>ag_items = {#}, ag_next = 0\<rparr> xs as (wheel_agenda w')"
proof -
  have new: "wheel_agenda TimerWheel_new = \<lparr>ag_items = {#}, ag_next = 0\<rparr>" "distinct_counters (wheel_items TimerWheel_new)"
    by (simp_all add: wheel_agenda_def TimerWheel_new_def wheel_items_def distinct_counters_def)
  then have "protocol_inv 0 {} (wheel_agenda TimerWheel_new)" by (simp add: protocol_inv_def ag_counters_def distinct_counters_def)
  from wheel_simulation [OF assms(1) protocol_followed [OF assms(1) this assms(3)] new(2)] assms(2) new(1) show ?thesis by simp
qed

definition wheel_script :: "wheel_op list" where
  "wheel_script =
     [WInsert 9 \<lparr>tok_id = 1, tok_version = 0, tok_sub_id = 0\<rparr>, WInsert 5 \<lparr>tok_id = 2, tok_version = 0, tok_sub_id = 0\<rparr>,
      WCancel 1, WDeadline, WExpire 9, WReuse 0 12 \<lparr>tok_id = 1, tok_version = 0, tok_sub_id = 0\<rparr>, WDeadline]"

theorem wheel_refines_agenda_witness:
  "\<exists>w'. ag_run \<lparr>ag_items = {#}, ag_next = 0\<rparr> wheel_script
     [ACounter 0, ACounter 1, ADone, ADeadline (Some 9), AExpired (Some (0, \<lparr>tok_id = 1, tok_version = 0, tok_sub_id = 0\<rparr>)),
      ADone, ADeadline (Some 12)] (wheel_agenda w') \<and> size (wheel_items w') = 1"
proof -
  note defs = wheel_script_def TimerWheel_new_def wheel_insert_def wheel_insert_reuse_def wheel_cancel_def
    wheel_next_expired_def wheel_next_deadline_def heap_push_def heap_pop_def Let_def
  obtain w' where run: "wheel_run wheel_script TimerWheel_new
      = ([ACounter 0, ACounter 1, ADone, ADeadline (Some 9), AExpired (Some (0, \<lparr>tok_id = 1, tok_version = 0, tok_sub_id = 0\<rparr>)),
          ADone, ADeadline (Some 12)], w')" "size (wheel_items w') = 1"
    by (simp add: defs wheel_items_def)
  have "insertions wheel_script \<le> 2 ^ 32"
    "reuses_expired {} wheel_script [ACounter 0, ACounter 1, ADone, ADeadline (Some 9),
       AExpired (Some (0, \<lparr>tok_id = 1, tok_version = 0, tok_sub_id = 0\<rparr>)), ADone, ADeadline (Some 12)]"
    by (simp_all add: wheel_script_def)
  from wheel_refines_agenda [OF run(1) this] run(2) show ?thesis by blast
qed

section \<open>The counter wraps\<close>

text \<open>A timer that is inserted and cancelled again.\<close>

definition churn :: "instant \<Rightarrow> token \<Rightarrow> timer_wheel \<Rightarrow> timer_wheel" where
  "churn d t w = (case wheel_insert d t w of (c, w') \<Rightarrow> wheel_cancel c w')"

lemma churn_fresh:
  assumes "tw_counter w \<notin> td_counter ` set (tw_heap w)"
  shows "churn d t w = w\<lparr>tw_counter := tw_counter w + 1\<rparr>"
proof -
  let ?e = "\<lparr>td_deadline = d, td_token = t, td_counter = tw_counter w\<rparr>"
  have old: "?e \<notin> set (tw_heap w)" "filter (\<lambda>e. td_counter e \<noteq> tw_counter w) (tw_heap w) = tw_heap w"
    using assms by (force, force simp: filter_id_conv)
  have "heap_pop (tw_heap w @ [?e]) = tw_heap w" if "heap_peek (tw_heap w @ [?e]) = Some e" "td_counter e = tw_counter w" for e
  proof -
    have "e = ?e" using heap_peek_SomeD [OF that(1)] that(2) assms by force
    with that(1) old(1) show ?thesis by (simp add: heap_pop_def remove1_append)
  qed
  with old(2) show ?thesis
    by (auto simp: churn_def wheel_insert_def wheel_cancel_def heap_push_def Let_def split: option.splits)
qed

lemma churn_many:
  "(\<And>i. i < n \<Longrightarrow> tw_counter w + of_nat i \<notin> td_counter ` set (tw_heap w)) \<Longrightarrow>
    ((churn d t) ^^ n) w = w\<lparr>tw_counter := tw_counter w + of_nat n\<rparr>"
proof (induction n)
  case (Suc n)
  then have "((churn d t) ^^ n) w = w\<lparr>tw_counter := tw_counter w + of_nat n\<rparr>" by simp
  with churn_fresh [of "w\<lparr>tw_counter := tw_counter w + of_nat n\<rparr>" d t] Suc.prems [of n] show ?case
    by (simp add: add.assoc add.commute [of _ 1])
qed simp

text \<open>
  C40: the counter of the wheel wraps where overflow is not checked, and the wheel then mixes two
  timers up. While a timer waits, 2 ^ 32 - 1 others are inserted and cancelled; the next timer, with a
  later deadline, gets the counter of the first one, and cancelling it removes the first one and
  leaves the cancelled timer in the wheel.
\<close>

theorem wheel_counter_wraps:
  assumes "tw_heap w = []" and "wheel_insert d1 t1 w = (c1, w1)"
    and "((churn d t) ^^ (2 ^ 32 - 1)) w1 = w2" and "wheel_insert d2 t2 w2 = (c2, w3)" and "d1 < d2"
  shows "c2 = c1 \<and> tw_heap (wheel_cancel c2 w3) = [\<lparr>td_deadline = d2, td_token = t2, td_counter = c2\<rparr>]"
proof -
  have w1: "w1 = \<lparr>tw_heap = [\<lparr>td_deadline = d1, td_token = t1, td_counter = c1\<rparr>], tw_counter = c1 + 1\<rparr>"
    using assms(1,2) by (cases w) (auto simp: wheel_insert_def heap_push_def Let_def)
  have fresh: "tw_counter w1 + of_nat i \<notin> td_counter ` set (tw_heap w1)" if "i < 2 ^ 32 - 1" for i
  proof -
    have "unat (of_nat (Suc i) :: u32) = Suc i" using that by (simp add: unsigned_of_nat take_bit_nat_eq_self del: of_nat_Suc)
    then have "(of_nat (Suc i) :: u32) \<noteq> 0" by (metis nat.distinct(1) unsigned_0)
    then show ?thesis by (auto simp: w1 add.assoc)
  qed
  have "w1\<lparr>tw_counter := tw_counter w1 + of_nat (2 ^ 32 - 1)\<rparr> = w2"
    using churn_many [of "2 ^ 32 - 1" w1 d t, OF fresh] assms(3) by metis
  moreover have "(1 :: u32) + of_nat (2 ^ 32 - 1) = 0" by simp
  ultimately have "w2 = \<lparr>tw_heap = [\<lparr>td_deadline = d1, td_token = t1, td_counter = c1\<rparr>], tw_counter = c1\<rparr>"
    unfolding w1 by (metis (no_types, lifting) add.assoc add.right_neutral timer_wheel.select_convs(2) timer_wheel.update_convs(2))
  with assms(4,5) show ?thesis by (auto simp: wheel_insert_def wheel_cancel_def heap_push_def heap_pop_def Let_def)
qed

theorem wheel_counter_wraps_witness:
  "\<exists>w3 c. wheel_insert 12 \<lparr>tok_id = 2, tok_version = 0, tok_sub_id = 0\<rparr>
       (((churn 7 \<lparr>tok_id = 1, tok_version = 0, tok_sub_id = 0\<rparr>) ^^ (2 ^ 32 - 1))
          (snd (wheel_insert 9 \<lparr>tok_id = 0, tok_version = 0, tok_sub_id = 0\<rparr> TimerWheel_new))) = (c, w3) \<and>
     tw_heap (wheel_cancel c w3) = [\<lparr>td_deadline = 12, td_token = \<lparr>tok_id = 2, tok_version = 0, tok_sub_id = 0\<rparr>, td_counter = c\<rparr>]"
proof -
  have w: "tw_heap TimerWheel_new = []" "(9 :: instant) < 12" by (simp_all add: TimerWheel_new_def)
  from wheel_counter_wraps [OF w(1) prod.collapse [symmetric] refl prod.collapse [symmetric] w(2)]
  show ?thesis by (metis prod.collapse)
qed

end
