(* ===== verification/Ping_Backend.thy ===== *)
theory Ping_Backend
  imports Generic_Source
begin

text \<open>
  What the channel, the executor and the stream source use of \<open>src/src/sources/ping.rs\<close>: a handle
  that can be pinged and dropped, and a source whose callback runs once after any number of
  pings. The three implementations are in \<open>Ping_Eventfd\<close>, \<open>Ping_Pipe\<close> and \<open>Ping_Iocp\<close>.

  A source that runs inside the loop reaches the operating system, and other shared state,
  through the world it is given; an \<open>access\<close> says where in the world such a component is.
  A Rust closure is a function with its captured variables \<open>'c\<close> passed along.
\<close>

record ('w, 'p) access =
  acc_get :: "'w \<Rightarrow> 'p"
  acc_put :: "'p \<Rightarrow> 'w \<Rightarrow> 'w"

definition access_ok :: "('w, 'p) access \<Rightarrow> bool" where
  "access_ok a \<longleftrightarrow> (\<forall>w p. acc_get a (acc_put a p w) = p) \<and> (\<forall>w. acc_put a (acc_get a w) w = w) \<and>
     (\<forall>w p q. acc_put a p (acc_put a q w) = acc_put a p w)"

text \<open>Two components that are apart.\<close>

definition access_apart :: "('w, 'p) access \<Rightarrow> ('w, 'q) access \<Rightarrow> bool" where
  "access_apart a b \<longleftrightarrow> (\<forall>w p. acc_get b (acc_put a p w) = acc_get b w) \<and> (\<forall>w q. acc_get a (acc_put b q w) = acc_get a w)"

lemma access_ok_simps:
  "access_ok a \<Longrightarrow> acc_get a (acc_put a p w) = p"
  "access_ok a \<Longrightarrow> acc_put a (acc_get a w) w = w"
  "access_ok a \<Longrightarrow> acc_put a p (acc_put a q w) = acc_put a p w"
  by (auto simp: access_ok_def)

lemma access_apart_simps:
  "access_apart a b \<Longrightarrow> acc_get b (acc_put a p w) = acc_get b w"
  "access_apart a b \<Longrightarrow> acc_get a (acc_put b q w) = acc_get a w"
  by (auto simp: access_apart_def)

definition on_component :: "('w, 'p) access \<Rightarrow> ('p \<Rightarrow> 'r \<times> 'p) \<Rightarrow> 'w \<Rightarrow> 'r \<times> 'w" where
  "on_component a f w = (case f (acc_get a w) of (r, p) \<Rightarrow> (r, acc_put a p w))"

text \<open>The operating system of the loop's world.\<close>

definition loop_system :: "(('s, 'i, 'p, 'd) loop_state, 'p) access" where
  "loop_system = \<lparr>acc_get = (\<lambda>L. poller (lp_poll L)), acc_put = (\<lambda>p L. L\<lparr>lp_poll := (lp_poll L)\<lparr>poller := p\<rparr>\<rparr>)\<rparr>"

lemma loop_system_ok [simp]: "access_ok loop_system"
  by (simp add: access_ok_def loop_system_def)

text \<open>The operating system and anything else, side by side.\<close>

definition first_component :: "('p \<times> 'o, 'p) access" where
  "first_component = \<lparr>acc_get = fst, acc_put = (\<lambda>p w. (p, snd w))\<rparr>"

lemma first_component_ok [simp]: "access_ok first_component"
  by (simp add: access_ok_def first_component_def)

type_synonym ('src, 'c, 'w) ping_process =
  "'src \<Rightarrow> readiness \<Rightarrow> token \<Rightarrow> ('c \<Rightarrow> 'w \<Rightarrow> 'c \<times> 'w) \<Rightarrow> 'c \<Rightarrow> 'w \<Rightarrow> (boxed_error, post_action) outcome \<times> 'src \<times> 'c \<times> 'w"

text \<open>
  The contract of a ping for its users. \<open>pending\<close>: a ping was sent that no event has consumed.
  \<open>owns src\<close>: the source
  reads the descriptor of this ping; \<open>listens src t\<close>: it is registered under token \<open>t\<close>. \<open>rest\<close> is the part of the world
  that pings do not touch.
\<close>

locale ping_backend =
  fixes ping :: "'w \<Rightarrow> 'w"
    and process :: "('src, 'c, 'w) ping_process"
    and pending :: "'w \<Rightarrow> bool"
    and owns :: "'src \<Rightarrow> bool"
    and listens :: "'src \<Rightarrow> token \<Rightarrow> bool"
    and rest :: "'w \<Rightarrow> 'o"
  assumes ping_pends: "pending (ping w)"
    and ping_rest: "rest (ping w) = rest w"
    and process_own: "owns src \<Longrightarrow> listens src t \<Longrightarrow> pending w \<Longrightarrow> process src rd t cb c w = (r, src', c', w') \<Longrightarrow>
      src' = src \<and> r \<in> {Ok Continue, Ok Remove} \<and> (\<exists>w1. rest w1 = rest w \<and> \<not> pending w1 \<and> (c', w') = cb c w1)"
    and process_foreign: "owns src \<Longrightarrow> \<not> (listens src t \<and> pending w) \<Longrightarrow> process src rd t cb c w = (r, src', c', w') \<Longrightarrow>
      src' = src \<and> c' = c \<and> rest w' = rest w \<and> (pending w \<longrightarrow> pending w')"
begin

text \<open>Pings coalesce: after any positive number of them one event runs the callback once.\<close>

lemma pings_pend: "n > 0 \<Longrightarrow> pending ((ping ^^ n) w)"
  by (cases n) (auto simp: ping_pends)

lemma pings_rest: "rest ((ping ^^ n) w) = rest w"
  by (induction n) (auto simp: ping_rest)

lemma pings_run_once:
  assumes "n > 0" and "owns src" and "listens src t" and "process src rd t cb c ((ping ^^ n) w) = (r, src', c', w')"
  shows "\<exists>w1. rest w1 = rest w \<and> \<not> pending w1 \<and> (c', w') = cb c w1"
  using process_own [OF assms(2,3) pings_pend [OF assms(1)] assms(4)] pings_rest by metis

end

end
