(* ===== verification/Ping_Eventfd.thy ===== *)
theory Ping_Eventfd
  imports Ping_Backend
begin

unbundle bit_operations_syntax

text \<open>
  \<open>src/src/sources/ping/eventfd.rs\<close>, the ping of Linux: an eventfd whose counter collects 2 for each
  ping and 1 for the drop of the last handle. The system calls on an eventfd are a record of
  operations on the operating system \<open>'p\<close>, and \<open>eventfd_kernel\<close> states what the kernel documents
  of them.
\<close>

type_synonym u64 = "64 word"

record 'p eventfd_ops =
  ef_create :: "'p \<Rightarrow> (io_error + raw_fd) \<times> 'p"
  ef_write :: "'p \<Rightarrow> raw_fd \<Rightarrow> u64 \<Rightarrow> (io_error + unit) \<times> 'p"
  ef_read :: "'p \<Rightarrow> raw_fd \<Rightarrow> (io_error + nat \<times> u64) \<times> 'p"

definition INCREMENT_PING :: u64 where
  "INCREMENT_PING = 2"

definition INCREMENT_CLOSE :: u64 where
  "INCREMENT_CLOSE = 1"

type_synonym eventfd_source = "raw_fd generic"

text \<open>\<open>make_ping\<close>: the descriptor stands for the handle.\<close>

definition eventfd_make_ping :: "'p eventfd_ops \<Rightarrow> ('w, 'p) access \<Rightarrow> 'w \<Rightarrow> (io_error + raw_fd \<times> eventfd_source) \<times> 'w" where
  "eventfd_make_ping E sys w =
     (case on_component sys (ef_create E) w of
        (Inl e, w') \<Rightarrow> (Inl e, w')
      | (Inr fd, w') \<Rightarrow> (Inr (fd, Generic_new fd Interest_READ Level), w'))"

text \<open>\<open>assert!(count > 0)\<close> is a panic; a full counter (\<open>EAGAIN\<close>) is a success.\<close>

definition eventfd_send_ping :: "'p eventfd_ops \<Rightarrow> ('w, 'p) access \<Rightarrow> raw_fd \<Rightarrow> u64 \<Rightarrow> 'w \<Rightarrow> (io_error, unit) outcome \<times> 'w" where
  "eventfd_send_ping E sys fd cnt w =
     (if cnt = 0 then (Panic, w)
      else case on_component sys (\<lambda>p. ef_write E p fd cnt) w of
             (Inr _, w') \<Rightarrow> (Ok (), w')
           | (Inl e, w') \<Rightarrow> (if e = WouldBlock then Ok () else Err e, w'))"

definition eventfd_drain_ping :: "'p eventfd_ops \<Rightarrow> ('w, 'p) access \<Rightarrow> raw_fd \<Rightarrow> 'w \<Rightarrow> (io_error, u64) outcome \<times> 'w" where
  "eventfd_drain_ping E sys fd w =
     (case on_component sys (\<lambda>p. ef_read E p fd) w of
        (Inr (n, counter), w') \<Rightarrow> (if n = 8 then Ok counter else Panic, w')
      | (Inl e, w') \<Rightarrow> (Err e, w'))"

text \<open>\<open>PingSource::process_events\<close>, through the \<open>Generic\<close> it wraps.\<close>

definition eventfd_on_ready :: "'p eventfd_ops \<Rightarrow> ('w, 'p) access \<Rightarrow> ('c \<Rightarrow> 'w \<Rightarrow> 'c \<times> 'w)
    \<Rightarrow> (raw_fd, io_error, 'c \<times> 'w) generic_callback" where
  "eventfd_on_ready E sys callback rd fd = (\<lambda>(c, w).
     (case eventfd_drain_ping E sys fd w of
        (Ok counter, w1) \<Rightarrow>
          (let close = (counter AND INCREMENT_CLOSE) \<noteq> 0;
               ping = (counter AND ((- 1) - 1)) \<noteq> 0;
               cw = (if ping then callback c w1 else (c, w1))
           in (if close then Ok Remove else Ok Continue, fd, cw))
      | (Err e, w1) \<Rightarrow> (Err e, fd, (c, w1))
      | (Panic, w1) \<Rightarrow> (Panic, fd, (c, w1))
      | (Diverge, w1) \<Rightarrow> (Diverge, fd, (c, w1))))"

definition eventfd_process :: "'p eventfd_ops \<Rightarrow> ('w, 'p) access \<Rightarrow> (eventfd_source, 'c, 'w) ping_process" where
  "eventfd_process E sys src rd token callback c w =
     (case generic_process (eventfd_on_ready E sys callback) src rd token (c, w) of
        (r, src', (c', w')) \<Rightarrow> (map_err (\<lambda>e. PingError (BIo e)) r, src', c', w'))"

definition eventfd_register :: "'p poller_ops \<Rightarrow> (eventfd_source, 'p) register_op" where
  "eventfd_register K src P tf = generic_register K (\<lambda>fd. fd) src P tf"

definition eventfd_reregister :: "'p poller_ops \<Rightarrow> (eventfd_source, 'p) register_op" where
  "eventfd_reregister K src P tf = generic_reregister K (\<lambda>fd. fd) src P tf"

definition eventfd_unregister :: "'p poller_ops \<Rightarrow> (eventfd_source, 'p) unregister_op" where
  "eventfd_unregister K src P = generic_unregister K (\<lambda>fd. fd) src P"

text \<open>\<open>Ping::ping\<close> and the drop of the last handle; errors are only logged.\<close>

definition eventfd_ping :: "'p eventfd_ops \<Rightarrow> ('w, 'p) access \<Rightarrow> raw_fd \<Rightarrow> 'w \<Rightarrow> 'w" where
  "eventfd_ping E sys fd w = snd (eventfd_send_ping E sys fd INCREMENT_PING w)"

definition eventfd_flag_on_drop :: "'p eventfd_ops \<Rightarrow> ('w, 'p) access \<Rightarrow> raw_fd \<Rightarrow> 'w \<Rightarrow> 'w" where
  "eventfd_flag_on_drop E sys fd w = snd (eventfd_send_ping E sys fd INCREMENT_CLOSE w)"

text \<open>The clones of a \<open>Ping\<close> share the \<open>Arc\<close> of its \<open>FlagOnDrop\<close>, which is dropped with the last of them.\<close>

record ping_handles =
  ph_fd :: raw_fd
  ph_strong :: nat

definition ping_handle :: "raw_fd \<Rightarrow> ping_handles" where
  "ping_handle fd = \<lparr>ph_fd = fd, ph_strong = 1\<rparr>"

definition ping_clone :: "ping_handles \<Rightarrow> ping_handles" where
  "ping_clone h = h\<lparr>ph_strong := ph_strong h + 1\<rparr>"

definition ping_handle_drop :: "'p eventfd_ops \<Rightarrow> ('w, 'p) access \<Rightarrow> ping_handles \<Rightarrow> 'w \<Rightarrow> ping_handles \<times> 'w" where
  "ping_handle_drop E sys h w =
     (let h' = h\<lparr>ph_strong := ph_strong h - 1\<rparr> in
      (h', if ph_strong h' = 0 then eventfd_flag_on_drop E sys (ph_fd h) w else w))"

section \<open>The kernel's contract\<close>

text \<open>
  eventfd(2), non-blocking, on one descriptor: a write adds to the counter unless it would pass
  \<open>2 ^ 64 - 2\<close>; a read of eight bytes gives the counter and resets it, and would block at zero.
\<close>

definition eventfd_contract :: "'p eventfd_ops \<Rightarrow> raw_fd \<Rightarrow> ('p \<Rightarrow> u64) \<Rightarrow> bool" where
  "eventfd_contract E fd counter \<longleftrightarrow>
     (\<forall>p v. case ef_write E p fd v of (r, p') \<Rightarrow>
        if unat (counter p) + unat v < 2 ^ 64 - 1 then r = Inr () \<and> counter p' = counter p + v
        else r = Inl WouldBlock \<and> counter p' = counter p) \<and>
     (\<forall>p. case ef_read E p fd of (r, p') \<Rightarrow>
        if counter p = 0 then r = Inl WouldBlock \<and> counter p' = 0 else r = Inr (8, counter p) \<and> counter p' = 0)"

lemma eventfd_contract_write:
  assumes "eventfd_contract E fd counter"
  obtains r p' where "ef_write E p fd v = (r, p')"
    and "unat (counter p) + unat v < 2 ^ 64 - 1 \<Longrightarrow> r = Inr () \<and> counter p' = counter p + v"
    and "\<not> unat (counter p) + unat v < 2 ^ 64 - 1 \<Longrightarrow> r = Inl WouldBlock \<and> counter p' = counter p"
  using assms [unfolded eventfd_contract_def, THEN conjunct1, rule_format, of p v] by (force split: if_splits)

lemma eventfd_contract_read:
  assumes "eventfd_contract E fd counter"
  obtains r p' where "ef_read E p fd = (r, p')"
    and "counter p = 0 \<Longrightarrow> r = Inl WouldBlock \<and> counter p' = 0"
    and "counter p \<noteq> 0 \<Longrightarrow> r = Inr (8, counter p) \<and> counter p' = 0"
  using assms [unfolded eventfd_contract_def, THEN conjunct2, rule_format, of p] by (force split: if_splits)

text \<open>The two flags of the counter.\<close>

lemma close_flag_iff: "(c AND INCREMENT_CLOSE) \<noteq> 0 \<longleftrightarrow> odd c" for c :: u64
  by (simp add: INCREMENT_CLOSE_def and_one_eq odd_iff_mod_2_eq_one)

lemma ping_flag_iff: "(c AND ((- 1) - 1)) \<noteq> 0 \<longleftrightarrow> 2 \<le> unat c" for c :: u64
proof -
  have n: "(- 1) - 1 = (NOT (mask 1) :: u64)" by simp
  have "c AND NOT (mask 1) = 0 \<longleftrightarrow> take_bit 1 c = c"
  proof
    assume "c AND NOT (mask 1) = 0"
    then have "c = c AND mask 1"
      by (metis (no_types) and.right_neutral bit.conj_disj_distrib bit.disj_cancel_right or.right_neutral)
    then show "take_bit 1 c = c" by (simp add: take_bit_eq_mask)
  next
    assume "take_bit 1 c = c"
    then have "c = c AND mask 1" by (simp add: take_bit_eq_mask)
    then show "c AND NOT (mask 1) = 0" by (metis and.assoc bit.conj_cancel_right bit.conj_zero_right)
  qed
  also have "\<dots> \<longleftrightarrow> take_bit 1 (unat c) = unat c"
    by (simp only: word_unat_eq_iff unsigned_take_bit_eq)
  also have "\<dots> \<longleftrightarrow> unat c < 2"
    by (simp add: take_bit_nat_eq_self_iff) presburger
  finally show ?thesis unfolding n by (simp add: not_less [symmetric])
qed

lemma ping_flag_zero: "(c AND (- 2)) = 0 \<longleftrightarrow> \<not> 2 \<le> unat c" for c :: u64
  using ping_flag_iff [of c] by force

lemma odd_unat_iff: "odd c \<longleftrightarrow> odd (unat c)" for c :: u64
  unfolding bit_0 [symmetric] by (simp add: bit_unsigned_iff del: bit_0)

section \<open>The eventfd ping satisfies the contract of a ping\<close>

locale eventfd_kernel =
  fixes E :: "'p eventfd_ops"
    and sys :: "('w, 'p) access"
    and fd :: raw_fd
    and counter :: "'p \<Rightarrow> u64"
    and other :: "'w \<Rightarrow> 'o"
  assumes contract: "eventfd_contract E fd counter"
    and sys_ok: "access_ok sys"
    and other_write: "other (acc_put sys (snd (ef_write E (acc_get sys w) fd v)) w) = other w"
    and other_read: "other (acc_put sys (snd (ef_read E (acc_get sys w) fd)) w) = other w"
begin

lemma other_kept:
  "ef_write E (acc_get sys w) fd v = (r, p) \<Longrightarrow> other (acc_put sys p w) = other w"
  "ef_read E (acc_get sys w) fd = (r', p) \<Longrightarrow> other (acc_put sys p w) = other w"
  using other_write [of w v] other_read [of w] by simp_all

lemma ping_effect:
  "other (eventfd_ping E sys fd w) = other w"
  "counter (acc_get sys (eventfd_ping E sys fd w)) =
     (if unat (counter (acc_get sys w)) < 2 ^ 64 - 3 then counter (acc_get sys w) + 2 else counter (acc_get sys w))"
  by (rule eventfd_contract_write [OF contract, of "acc_get sys w" INCREMENT_PING],
      auto simp: eventfd_ping_def eventfd_send_ping_def on_component_def INCREMENT_PING_def
        access_ok_simps [OF sys_ok] other_kept split: sum.splits)+

lemma drop_effect:
  "other (eventfd_flag_on_drop E sys fd w) = other w"
  "counter (acc_get sys (eventfd_flag_on_drop E sys fd w)) =
     (if unat (counter (acc_get sys w)) < 2 ^ 64 - 2 then counter (acc_get sys w) + 1 else counter (acc_get sys w))"
  by (rule eventfd_contract_write [OF contract, of "acc_get sys w" INCREMENT_CLOSE],
      auto simp: eventfd_flag_on_drop_def eventfd_send_ping_def on_component_def INCREMENT_CLOSE_def
        access_ok_simps [OF sys_ok] other_kept split: sum.splits)+

lemma process_effect:
  assumes "gn_file src = Some fd" and "gn_token src = Some t"
  shows "\<exists>w1. other w1 = other w \<and> counter (acc_get sys w1) = 0 \<and>
    eventfd_process E sys src rd t cb c w =
      (if counter (acc_get sys w) = 0 then (Err (PingError (BIo WouldBlock)), src, c, w1)
       else (Ok (if odd (counter (acc_get sys w)) then Remove else Continue), src,
             if 2 \<le> unat (counter (acc_get sys w)) then cb c w1 else (c, w1)))"
proof (rule eventfd_contract_read [OF contract, of "acc_get sys w"])
  fix r p'
  assume r: "ef_read E (acc_get sys w) fd = (r, p')"
    "counter (acc_get sys w) = 0 \<Longrightarrow> r = Inl WouldBlock \<and> counter p' = 0"
    "counter (acc_get sys w) \<noteq> 0 \<Longrightarrow> r = Inr (8, counter (acc_get sys w)) \<and> counter p' = 0"
  have src: "src\<lparr>gn_file := Some fd\<rparr> = src" using assms(1) by (cases src) simp
  have d: "eventfd_drain_ping E sys fd w =
      ((if counter (acc_get sys w) = 0 then Err WouldBlock else Ok (counter (acc_get sys w))), acc_put sys p' w)"
    using r by (auto simp: eventfd_drain_ping_def on_component_def)
  show ?thesis
    using assms r d src
    by (intro exI [of _ "acc_put sys p' w"])
      (auto simp: eventfd_process_def generic_process_def eventfd_on_ready_def Let_def close_flag_iff ping_flag_zero
        access_ok_simps [OF sys_ok] other_kept split: prod.splits)
qed

lemma counter_after_pings:
  "n < 2 ^ 63 - 1 \<Longrightarrow> counter (acc_get sys w) = 0 \<Longrightarrow>
     unat (counter (acc_get sys ((eventfd_ping E sys fd ^^ n) w))) = 2 * n"
proof (induction n)
  case 0
  then show ?case by simp
next
  case (Suc n)
  let ?c = "counter (acc_get sys ((eventfd_ping E sys fd ^^ n) w))"
  have c: "unat ?c = 2 * n" using Suc by simp
  then have "unat (?c + 2) = 2 * n + 2" using Suc.prems by (simp add: unat_word_ariths)
  with c Suc.prems show ?case by (simp add: ping_effect(2))
qed

end

sublocale eventfd_kernel \<subseteq> ping: ping_backend "eventfd_ping E sys fd" "eventfd_process E sys"
  "\<lambda>w. 2 \<le> unat (counter (acc_get sys w))" "\<lambda>src. gn_file src = Some fd" "\<lambda>src t. gn_token src = Some t" other
proof (unfold_locales, goal_cases)
  case (1 w)
  have "unat (counter (acc_get sys w)) < 2 ^ 64 - 3 \<Longrightarrow> unat (counter (acc_get sys w) + 2) = unat (counter (acc_get sys w)) + 2"
    by (simp add: unat_word_ariths)
  then show ?case by (simp add: ping_effect(2))
next
  case (2 w)
  then show ?case by (rule ping_effect(1))
next
  case (3 src t w rd cb c r src' c' w')
  then have "counter (acc_get sys w) \<noteq> 0" by auto
  with 3 process_effect [OF 3(1,2), of w rd cb c] show ?case by fastforce
next
  case (4 src t w rd cb c r src' c' w')
  show ?case
  proof (cases "gn_token src = Some t")
    case True
    with 4 process_effect [OF 4(1) True, of w rd cb c] show ?thesis by (auto split: if_splits)
  next
    case False
    with 4 show ?thesis by (simp add: eventfd_process_def generic_process_def)
  qed
qed

context eventfd_kernel
begin

lemma is_ping_backend:
  "ping_backend (eventfd_ping E sys fd) (eventfd_process E sys) (\<lambda>w. 2 \<le> unat (counter (acc_get sys w)))
     (\<lambda>src. gn_file src = Some fd) (\<lambda>src t. gn_token src = Some t) other"
  by (rule ping.ping_backend_axioms)

end

section \<open>A reference kernel\<close>

text \<open>One counter for each descriptor; the world is the kernel and anything else.\<close>

definition EFK :: "(raw_fd \<Rightarrow> u64) eventfd_ops" where
  "EFK = \<lparr>ef_create = (\<lambda>k. (Inr 3, k(3 := 0))),
     ef_write = (\<lambda>k fd v. if unat (k fd) + unat v < 2 ^ 64 - 1 then (Inr (), k(fd := k fd + v)) else (Inl WouldBlock, k)),
     ef_read = (\<lambda>k fd. if k fd = 0 then (Inl WouldBlock, k) else (Inr (8, k fd), k(fd := 0)))\<rparr>"

lemma EFK_contract: "eventfd_contract EFK fd (\<lambda>k. k fd)"
  by (simp add: eventfd_contract_def EFK_def)

interpretation linux: eventfd_kernel EFK first_component fd "\<lambda>k. k fd" snd for fd
  by unfold_locales (simp_all add: EFK_contract first_component_def access_ok_def)

section \<open>Properties\<close>

text \<open>
  On an eventfd that starts empty, any number of pings, then possibly the drop of the last
  handle, make one event of the source run its callback exactly once if there was a ping and
  not at all otherwise, and ask for the removal of the source exactly if the last handle was
  dropped; the counter is empty again before the callback runs, so a ping sent by the callback
  is not lost.
\<close>

theorem eventfd_ping_protocol:
  assumes "eventfd_contract E fd counter" and "access_ok sys"
    and "gn_file src = Some fd" and "gn_token src = Some t"
    and "counter (acc_get sys w) = 0" and "n < 2 ^ 63 - 1" and "closed \<or> 0 < n"
    and "w1 = (if closed then eventfd_flag_on_drop E sys fd else id) ((eventfd_ping E sys fd ^^ n) w)"
  shows "\<exists>w2. counter (acc_get sys w2) = 0 \<and>
    eventfd_process E sys src rd t cb c w1 =
      (Ok (if closed then Remove else Continue), src, if 0 < n then cb c w2 else (c, w2))"
proof -
  have K: "eventfd_kernel E sys fd counter (\<lambda>_. ())" using assms(1,2) by unfold_locales auto
  let ?w = "(eventfd_ping E sys fd ^^ n) w"
  have n: "unat (counter (acc_get sys ?w)) = 2 * n"
    using eventfd_kernel.counter_after_pings [OF K assms(6,5)] .
  have c1: "unat (counter (acc_get sys w1)) = 2 * n + (if closed then 1 else 0)"
    using n assms(6) eventfd_kernel.drop_effect(2) [OF K, of ?w]
    by (auto simp: assms(8) unat_word_ariths)
  then have "counter (acc_get sys w1) \<noteq> 0" "odd (counter (acc_get sys w1)) = closed"
      "2 \<le> unat (counter (acc_get sys w1)) \<longleftrightarrow> 0 < n"
    using assms(7) c1 odd_unat_iff [of "counter (acc_get sys w1)"] by auto
  with eventfd_kernel.process_effect [OF K assms(3,4), where w = w1 and rd = rd and cb = cb and c = c] show ?thesis by auto
qed

theorem eventfd_ping_protocol_witness:
  "\<exists>w2. eventfd_process EFK first_component ((Generic_new 3 Interest_READ Level)\<lparr>gn_token := Some \<lparr>tok_id = 1, tok_version = 0, tok_sub_id = 0\<rparr>\<rparr>)
      Readiness_EMPTY \<lparr>tok_id = 1, tok_version = 0, tok_sub_id = 0\<rparr> (\<lambda>c w. (c + 1, w)) (0 :: nat)
      (eventfd_flag_on_drop EFK first_component 3 ((eventfd_ping EFK first_component 3 ^^ 2) (\<lambda>_. 0, ())))
    = (Ok Remove, (Generic_new 3 Interest_READ Level)\<lparr>gn_token := Some \<lparr>tok_id = 1, tok_version = 0, tok_sub_id = 0\<rparr>\<rparr>, 1, w2)"
proof -
  let ?t = "\<lparr>tok_id = 1, tok_version = 0, tok_sub_id = 0\<rparr> :: token_inner"
  let ?src = "(Generic_new 3 Interest_READ Level)\<lparr>gn_token := Some ?t\<rparr> :: eventfd_source"
  show ?thesis
    using eventfd_ping_protocol [OF EFK_contract [of 3] first_component_ok, of ?src ?t "(\<lambda>_. 0, ())" 2 True _
        Readiness_EMPTY "\<lambda>c w. (c + 1, w)" "0 :: nat"]
    by (simp add: Generic_new_def first_component_def) blast
qed

end
