(* ===== verification/Ping_Pipe.thy ===== *)
theory Ping_Pipe
  imports Ping_Backend
begin

text \<open>
  \<open>src/src/sources/ping/pipe.rs\<close>, the ping of the other Unix systems: a non-blocking pipe with one
  byte for each ping; the last handle's drop closes the write end. The read loop of
  \<open>process_events\<close> has no bound in the code and carries fuel; \<open>pipe_kernel\<close> shows how much is
  enough.
\<close>

record 'p pipe_ops =
  pp_create :: "'p \<Rightarrow> (io_error + raw_fd \<times> raw_fd) \<times> 'p"
  pp_write :: "'p \<Rightarrow> raw_fd \<Rightarrow> nat \<Rightarrow> (io_error + nat) \<times> 'p"
  pp_read :: "'p \<Rightarrow> raw_fd \<Rightarrow> nat \<Rightarrow> (io_error + nat) \<times> 'p"
  pp_close :: "'p \<Rightarrow> raw_fd \<Rightarrow> 'p"

type_synonym pipe_source = "raw_fd generic"

text \<open>\<open>make_ping\<close>: the handle is the write end.\<close>

definition pipe_make_ping :: "'p pipe_ops \<Rightarrow> ('w, 'p) access \<Rightarrow> 'w \<Rightarrow> (io_error + raw_fd \<times> pipe_source) \<times> 'w" where
  "pipe_make_ping Pi sys w =
     (case on_component sys (pp_create Pi) w of
        (Inl e, w') \<Rightarrow> (Inl e, w')
      | (Inr (read, write), w') \<Rightarrow> (Inr (write, Generic_new read Interest_READ Level), w'))"

definition pipe_send_ping :: "'p pipe_ops \<Rightarrow> ('w, 'p) access \<Rightarrow> raw_fd \<Rightarrow> 'w \<Rightarrow> (io_error, unit) outcome \<times> 'w" where
  "pipe_send_ping Pi sys fd w =
     (case on_component sys (\<lambda>p. pp_write Pi p fd 1) w of
        (Inr _, w') \<Rightarrow> (Ok (), w')
      | (Inl e, w') \<Rightarrow> (Err e, w'))"

text \<open>The loop that empties the pipe: the post action and whether anything was read.\<close>

fun pipe_read_loop :: "'p pipe_ops \<Rightarrow> ('w, 'p) access \<Rightarrow> nat \<Rightarrow> raw_fd \<Rightarrow> bool \<Rightarrow> 'w
    \<Rightarrow> (io_error, post_action \<times> bool) outcome \<times> 'w" where
  "pipe_read_loop Pi sys 0 fd read_something w = (Diverge, w)"
| "pipe_read_loop Pi sys (Suc n) fd read_something w =
     (case on_component sys (\<lambda>p. pp_read Pi p fd 32) w of
        (Inr k, w') \<Rightarrow>
          if k = 0 then (Ok (Remove, read_something), w') else pipe_read_loop Pi sys n fd True w'
      | (Inl e, w') \<Rightarrow>
          if e = WouldBlock then (Ok (Continue, read_something), w') else (Err e, w'))"

definition pipe_on_ready :: "'p pipe_ops \<Rightarrow> ('w, 'p) access \<Rightarrow> nat \<Rightarrow> ('c \<Rightarrow> 'w \<Rightarrow> 'c \<times> 'w)
    \<Rightarrow> (raw_fd, io_error, 'c \<times> 'w) generic_callback" where
  "pipe_on_ready Pi sys n callback rd fd = (\<lambda>(c, w).
     (case pipe_read_loop Pi sys n fd False w of
        (Ok (action, read_something), w1) \<Rightarrow>
          (Ok action, fd, if read_something then callback c w1 else (c, w1))
      | (Err e, w1) \<Rightarrow> (Err e, fd, (c, w1))
      | (Panic, w1) \<Rightarrow> (Panic, fd, (c, w1))
      | (Diverge, w1) \<Rightarrow> (Diverge, fd, (c, w1))))"

definition pipe_process :: "'p pipe_ops \<Rightarrow> ('w, 'p) access \<Rightarrow> nat \<Rightarrow> (pipe_source, 'c, 'w) ping_process" where
  "pipe_process Pi sys n src rd token callback c w =
     (case generic_process (pipe_on_ready Pi sys n callback) src rd token (c, w) of
        (r, src', (c', w')) \<Rightarrow> (map_err (\<lambda>e. PingError (BIo e)) r, src', c', w'))"

definition pipe_register :: "'p poller_ops \<Rightarrow> (pipe_source, 'p) register_op" where
  "pipe_register K src P tf = generic_register K (\<lambda>fd. fd) src P tf"

definition pipe_reregister :: "'p poller_ops \<Rightarrow> (pipe_source, 'p) register_op" where
  "pipe_reregister K src P tf = generic_reregister K (\<lambda>fd. fd) src P tf"

definition pipe_unregister :: "'p poller_ops \<Rightarrow> (pipe_source, 'p) unregister_op" where
  "pipe_unregister K src P = generic_unregister K (\<lambda>fd. fd) src P"

text \<open>\<open>Ping::ping\<close>, and the drop of the last handle, which closes the descriptor.\<close>

definition pipe_ping :: "'p pipe_ops \<Rightarrow> ('w, 'p) access \<Rightarrow> raw_fd \<Rightarrow> 'w \<Rightarrow> 'w" where
  "pipe_ping Pi sys fd w = snd (pipe_send_ping Pi sys fd w)"

definition pipe_handle_drop :: "'p pipe_ops \<Rightarrow> ('w, 'p) access \<Rightarrow> raw_fd \<Rightarrow> 'w \<Rightarrow> 'w" where
  "pipe_handle_drop Pi sys fd w = acc_put sys (pp_close Pi (acc_get sys w) fd) w"

section \<open>The kernel's contract\<close>

text \<open>
  pipe(7), non-blocking, for one pipe of capacity \<open>cap\<close>: a read takes at most the bytes there
  are; on an empty pipe it would block while a write end is open and gives 0 after that; a
  one-byte write fails only on a full pipe.
\<close>

definition pipe_contract :: "'p pipe_ops \<Rightarrow> raw_fd \<Rightarrow> raw_fd \<Rightarrow> nat \<Rightarrow> ('p \<Rightarrow> nat) \<Rightarrow> ('p \<Rightarrow> bool) \<Rightarrow> bool" where
  "pipe_contract Pi rfd wfd cap bytes closed \<longleftrightarrow> 0 < cap \<and>
     (\<forall>p. bytes p \<le> cap) \<and>
     (\<forall>p. case pp_write Pi p wfd 1 of (r, p') \<Rightarrow> closed p' = closed p \<and>
        (if bytes p < cap then r = Inr 1 \<and> bytes p' = bytes p + 1 else r = Inl WouldBlock \<and> bytes p' = bytes p)) \<and>
     (\<forall>p k. case pp_read Pi p rfd k of (r, p') \<Rightarrow> closed p' = closed p \<and> bytes p' = bytes p - min k (bytes p) \<and>
        r = (if bytes p = 0 then (if closed p then Inr 0 else Inl WouldBlock) else Inr (min k (bytes p)))) \<and>
     (\<forall>p. closed (pp_close Pi p wfd) \<and> bytes (pp_close Pi p wfd) = bytes p)"

lemma pipe_contractD:
  assumes "pipe_contract Pi rfd wfd cap bytes closed"
  shows "bytes p \<le> cap" and "0 < cap"
    and "pp_write Pi p wfd 1 = (r, p') \<Longrightarrow> closed p' = closed p \<and> bytes p' = (if bytes p < cap then bytes p + 1 else bytes p)"
    and "pp_read Pi p rfd k = (r, p') \<Longrightarrow> closed p' = closed p \<and> bytes p' = bytes p - min k (bytes p) \<and>
        r = (if bytes p = 0 then (if closed p then Inr 0 else Inl WouldBlock) else Inr (min k (bytes p)))"
    and "closed (pp_close Pi p wfd)" "bytes (pp_close Pi p wfd) = bytes p"
proof -
  have c1: "0 < cap" and c2: "\<forall>p. bytes p \<le> cap"
    and c3: "\<forall>p. case pp_write Pi p wfd 1 of (r, p') \<Rightarrow> closed p' = closed p \<and>
        (if bytes p < cap then r = Inr 1 \<and> bytes p' = bytes p + 1 else r = Inl WouldBlock \<and> bytes p' = bytes p)"
    and c4: "\<forall>p k. case pp_read Pi p rfd k of (r, p') \<Rightarrow> closed p' = closed p \<and> bytes p' = bytes p - min k (bytes p) \<and>
        r = (if bytes p = 0 then (if closed p then Inr 0 else Inl WouldBlock) else Inr (min k (bytes p)))"
    and c5: "\<forall>p. closed (pp_close Pi p wfd) \<and> bytes (pp_close Pi p wfd) = bytes p"
    using assms unfolding pipe_contract_def by simp_all
  show "bytes p \<le> cap" "0 < cap" "closed (pp_close Pi p wfd)" "bytes (pp_close Pi p wfd) = bytes p"
    using c1 c2 c5 by blast+
  show "closed p' = closed p \<and> bytes p' = (if bytes p < cap then bytes p + 1 else bytes p)"
    if "pp_write Pi p wfd 1 = (r, p')"
    using spec [OF c3, of p] that by (auto split: if_splits)
  show "closed p' = closed p \<and> bytes p' = bytes p - min k (bytes p) \<and>
        r = (if bytes p = 0 then (if closed p then Inr 0 else Inl WouldBlock) else Inr (min k (bytes p)))"
    if "pp_read Pi p rfd k = (r, p')"
    using spec [OF spec [OF c4, of p], of k] that by simp
qed

locale pipe_kernel =
  fixes Pi :: "'p pipe_ops"
    and sys :: "('w, 'p) access"
    and rfd wfd :: raw_fd
    and cap fuel :: nat
    and bytes :: "'p \<Rightarrow> nat"
    and closed :: "'p \<Rightarrow> bool"
    and other :: "'w \<Rightarrow> 'o"
  assumes contract: "pipe_contract Pi rfd wfd cap bytes closed"
    and sys_ok: "access_ok sys"
    and other_apart: "other (acc_put sys p w) = other w"
    and enough_fuel: "cap + 32 \<le> 32 * fuel"
begin

lemma ping_effect:
  "other (pipe_ping Pi sys wfd w) = other w"
  "closed (acc_get sys (pipe_ping Pi sys wfd w)) = closed (acc_get sys w)"
  "bytes (acc_get sys (pipe_ping Pi sys wfd w)) = min cap (bytes (acc_get sys w) + 1)"
proof -
  obtain r p' where w: "pp_write Pi (acc_get sys w) wfd 1 = (r, p')" by force
  have "pipe_ping Pi sys wfd w = acc_put sys p' w"
    using w by (auto simp: pipe_ping_def pipe_send_ping_def on_component_def split: sum.splits)
  with pipe_contractD(3) [OF contract w] pipe_contractD(1) [OF contract, of "acc_get sys w"]
  show "other (pipe_ping Pi sys wfd w) = other w"
    "closed (acc_get sys (pipe_ping Pi sys wfd w)) = closed (acc_get sys w)"
    "bytes (acc_get sys (pipe_ping Pi sys wfd w)) = min cap (bytes (acc_get sys w) + 1)"
    by (auto simp: access_ok_simps [OF sys_ok] other_apart)
qed

lemma drop_effect:
  "other (pipe_handle_drop Pi sys wfd w) = other w"
  "closed (acc_get sys (pipe_handle_drop Pi sys wfd w))"
  "bytes (acc_get sys (pipe_handle_drop Pi sys wfd w)) = bytes (acc_get sys w)"
  by (simp_all add: pipe_handle_drop_def access_ok_simps [OF sys_ok] other_apart pipe_contractD(5,6) [OF contract])

text \<open>The loop reads the pipe empty; one round for each 32 bytes and one to see the end.\<close>

lemma read_loop_total:
  "bytes (acc_get sys w) + 32 \<le> 32 * n \<Longrightarrow> \<exists>w1. pipe_read_loop Pi sys n rfd rs w =
     (Ok (if closed (acc_get sys w) then Remove else Continue, rs \<or> 0 < bytes (acc_get sys w)), w1)
   \<and> other w1 = other w \<and> bytes (acc_get sys w1) = 0 \<and> closed (acc_get sys w1) = closed (acc_get sys w)"
proof (induction n arbitrary: rs w)
  case 0
  then show ?case by simp
next
  case (Suc n)
  obtain r p' where r: "pp_read Pi (acc_get sys w) rfd 32 = (r, p')" by force
  note e = pipe_contractD(4) [OF contract r]
  show ?case
  proof (cases "bytes (acc_get sys w) = 0")
    case True
    with r e show ?thesis
      by (auto simp: on_component_def access_ok_simps [OF sys_ok] other_apart)
  next
    case False
    let ?w = "acc_put sys p' w"
    have "bytes p' + 32 \<le> 32 * n"
      using Suc.prems e False by (auto simp: min_def split: if_splits)
    then have "bytes (acc_get sys ?w) + 32 \<le> 32 * n" by (simp add: access_ok_simps [OF sys_ok])
    from Suc.IH [OF this, of True] r e False show ?thesis
      by (auto simp: on_component_def access_ok_simps [OF sys_ok] other_apart)
  qed
qed

lemma process_effect:
  assumes "gn_file src = Some rfd" and "gn_token src = Some t"
  shows "\<exists>w1. other w1 = other w \<and> bytes (acc_get sys w1) = 0 \<and> closed (acc_get sys w1) = closed (acc_get sys w) \<and>
    pipe_process Pi sys fuel src rd t cb c w =
      (Ok (if closed (acc_get sys w) then Remove else Continue), src,
       if 0 < bytes (acc_get sys w) then cb c w1 else (c, w1))"
proof -
  have "bytes (acc_get sys w) + 32 \<le> 32 * fuel"
    using pipe_contractD(1) [OF contract, of "acc_get sys w"] enough_fuel by simp
  from read_loop_total [OF this, of False] obtain w1 where w1: "pipe_read_loop Pi sys fuel rfd False w =
     (Ok (if closed (acc_get sys w) then Remove else Continue, 0 < bytes (acc_get sys w)), w1)"
    "other w1 = other w" "bytes (acc_get sys w1) = 0" "closed (acc_get sys w1) = closed (acc_get sys w)" by auto
  have src: "src\<lparr>gn_file := Some rfd\<rparr> = src" using assms(1) by (cases src) simp
  show ?thesis
    using assms w1 src
    by (intro exI [of _ w1]) (auto simp: pipe_process_def generic_process_def pipe_on_ready_def split: prod.splits)
qed

end

sublocale pipe_kernel \<subseteq> ping: ping_backend "pipe_ping Pi sys wfd" "pipe_process Pi sys fuel"
  "\<lambda>w. 0 < bytes (acc_get sys w)" "\<lambda>src. gn_file src = Some rfd" "\<lambda>src t. gn_token src = Some t" other
proof (unfold_locales, goal_cases)
  case (1 w)
  show ?case using pipe_contractD(2) [OF contract] by (simp add: ping_effect(3))
next
  case (2 w)
  then show ?case by (rule ping_effect(1))
next
  case (3 src t w rd cb c r src' c' w')
  with process_effect [OF 3(1,2), of w rd cb c] show ?case by auto
next
  case (4 src t w rd cb c r src' c' w')
  show ?case
  proof (cases "gn_token src = Some t")
    case True
    with 4 process_effect [OF 4(1) True, of w rd cb c] show ?thesis by auto
  next
    case False
    with 4 show ?thesis by (simp add: pipe_process_def generic_process_def)
  qed
qed

section \<open>A reference kernel\<close>

text \<open>A pipe of 64 bytes: the bytes in it and whether the write end is closed.\<close>

definition PPK :: "(nat \<times> bool) pipe_ops" where
  "PPK = \<lparr>pp_create = (\<lambda>k. (Inr (3, 4), (0, False))),
     pp_write = (\<lambda>k fd n. if fst k < 64 then (Inr 1, (Suc (fst k), snd k)) else (Inl WouldBlock, k)),
     pp_read = (\<lambda>k fd n.
       (if min 64 (fst k) = 0 then (if snd k then Inr 0 else Inl WouldBlock) else Inr (min n (min 64 (fst k))),
        (min 64 (fst k) - min n (min 64 (fst k)), snd k))),
     pp_close = (\<lambda>k fd. (fst k, True))\<rparr>"

lemma PPK_contract: "pipe_contract PPK rfd wfd 64 (\<lambda>k. min 64 (fst k)) snd"
  by (auto simp: pipe_contract_def PPK_def)

interpretation unix: pipe_kernel PPK first_component rfd wfd 64 3 "\<lambda>k. min 64 (fst k)" snd snd for rfd wfd
  by unfold_locales (simp_all add: PPK_contract first_component_def access_ok_def)

section \<open>Properties\<close>

text \<open>
  The pipe implements the same protocol: for a pipe that starts empty and open, any number
  of pings, more than it can hold included, then possibly the drop of the last handle, make one
  event of the source run its callback exactly once if there was a ping and not at all
  otherwise, and ask for removal exactly if the last handle was dropped. The read loop ends
  within \<open>fuel\<close> rounds, of 32 bytes each, as soon as these exceed the capacity by one round, and
  leaves the pipe empty before the callback runs.
\<close>

theorem pipe_ping_protocol:
  assumes "pipe_contract Pi rfd wfd cap bytes closed" and "access_ok sys" and "cap + 32 \<le> 32 * fuel"
    and "gn_file src = Some rfd" and "gn_token src = Some t"
    and "bytes (acc_get sys w) = 0" and "\<not> closed (acc_get sys w)"
    and "w1 = (if dropped then pipe_handle_drop Pi sys wfd else id) ((pipe_ping Pi sys wfd ^^ n) w)"
  shows "\<exists>w2. bytes (acc_get sys w2) = 0 \<and>
    pipe_process Pi sys fuel src rd t cb c w1 =
      (Ok (if dropped then Remove else Continue), src, if 0 < n then cb c w2 else (c, w2))"
proof -
  have K: "pipe_kernel Pi sys rfd wfd cap fuel bytes closed (\<lambda>_. ())"
    using assms(1,2,3) by unfold_locales auto
  have "bytes (acc_get sys ((pipe_ping Pi sys wfd ^^ n) w)) = min cap n \<and> \<not> closed (acc_get sys ((pipe_ping Pi sys wfd ^^ n) w))"
    by (induction n) (auto simp: assms(6,7) pipe_kernel.ping_effect [OF K])
  then have "bytes (acc_get sys w1) = min cap n" "closed (acc_get sys w1) = dropped"
    by (auto simp: assms(8) pipe_kernel.drop_effect [OF K])
  with pipe_kernel.process_effect [OF K assms(4,5), where w = w1 and rd = rd and cb = cb and c = c]
    pipe_contractD(2) [OF assms(1)]
  show ?thesis by auto
qed

theorem pipe_ping_protocol_witness:
  "\<exists>w2. pipe_process PPK first_component 3 ((Generic_new 3 Interest_READ Level)\<lparr>gn_token := Some \<lparr>tok_id = 1, tok_version = 0, tok_sub_id = 0\<rparr>\<rparr>)
      Readiness_EMPTY \<lparr>tok_id = 1, tok_version = 0, tok_sub_id = 0\<rparr> (\<lambda>c w. (c + 1, w)) (0 :: nat)
      ((pipe_ping PPK first_component 4 ^^ 100) ((0, False), ()))
    = (Ok Continue, (Generic_new 3 Interest_READ Level)\<lparr>gn_token := Some \<lparr>tok_id = 1, tok_version = 0, tok_sub_id = 0\<rparr>\<rparr>, 1, w2)"
proof -
  let ?t = "\<lparr>tok_id = 1, tok_version = 0, tok_sub_id = 0\<rparr> :: token_inner"
  let ?src = "(Generic_new 3 Interest_READ Level)\<lparr>gn_token := Some ?t\<rparr> :: pipe_source"
  show ?thesis
    using pipe_ping_protocol [OF PPK_contract [of 3 4] first_component_ok, of 3 ?src ?t "((0, False), ())"
        "(pipe_ping PPK first_component 4 ^^ 100) ((0, False), ())" False 100
        Readiness_EMPTY "\<lambda>c w. (c + 1, w)" "0 :: nat"]
    by (simp add: Generic_new_def first_component_def del: funpow.simps) blast
qed

end
