(* ===== verification/Channel_Source.thy ===== *)
theory Channel_Source
  imports Ping_Eventfd Ping_Pipe
begin

text \<open>
  \<open>src/src/sources/channel.rs\<close>: an mpsc queue whose senders ping the event source. The queue of
  \<open>std::sync::mpsc\<close> is a list of messages, a count of live senders, whether the receiver is
  alive, and its bound; \<open>q\<close> says where in the world it is. The ping is the \<open>ping_backend\<close>
  interface, so one development serves the eventfd and the pipe.
\<close>

section \<open>std::sync::mpsc\<close>

record 'm mpsc =
  mq_msgs :: "'m list"
  mq_senders :: nat
  mq_receiver :: bool
  mq_bound :: "nat option"

datatype 'm try_recv = TryOk 'm | TryEmpty | TryDisconnected

definition mpsc_try_recv :: "'m mpsc \<Rightarrow> 'm try_recv \<times> 'm mpsc" where
  "mpsc_try_recv q =
     (case mq_msgs q of
        m # ms \<Rightarrow> (TryOk m, q\<lparr>mq_msgs := ms\<rparr>)
      | [] \<Rightarrow> (if mq_senders q = 0 then TryDisconnected else TryEmpty, q))"

definition mpsc_push :: "'m \<Rightarrow> 'm mpsc \<Rightarrow> 'm mpsc" where
  "mpsc_push m q = q\<lparr>mq_msgs := mq_msgs q @ [m]\<rparr>"

definition mpsc_full :: "'m mpsc \<Rightarrow> bool" where
  "mpsc_full q = (case mq_bound q of None \<Rightarrow> False | Some n \<Rightarrow> n \<le> length (mq_msgs q))"

text \<open>\<open>Sender::send\<close> fails only without a receiver; \<open>try_send\<close> also where the queue is full.\<close>

definition mpsc_send :: "'m \<Rightarrow> 'm mpsc \<Rightarrow> ('m, unit) outcome \<times> 'm mpsc" where
  "mpsc_send m q = (if mq_receiver q then (Ok (), mpsc_push m q) else (Err m, q))"

datatype 'm try_send_error = SendFull 'm | SendDisconnected 'm

definition mpsc_try_send :: "'m \<Rightarrow> 'm mpsc \<Rightarrow> ('m try_send_error, unit) outcome \<times> 'm mpsc" where
  "mpsc_try_send m q =
     (if \<not> mq_receiver q then (Err (SendDisconnected m), q)
      else if mpsc_full q then (Err (SendFull m), q)
      else (Ok (), mpsc_push m q))"

section \<open>Senders\<close>

text \<open>A handle's \<open>PingOnDrop\<close> pings when it goes; \<open>ping\<close> is the backend's \<open>Ping::ping\<close>.\<close>

definition MAX_EVENTS_CHECK :: nat where
  "MAX_EVENTS_CHECK = 1024"

datatype 'm event = Msg 'm | Closed

definition sender_send :: "('w, 'm mpsc) access \<Rightarrow> ('w \<Rightarrow> 'w) \<Rightarrow> 'm \<Rightarrow> 'w \<Rightarrow> ('m, unit) outcome \<times> 'w" where
  "sender_send q ping t w =
     (case on_component q (mpsc_send t) w of
        (Ok _, w') \<Rightarrow> (Ok (), ping w')
      | (r, w') \<Rightarrow> (r, w'))"

definition sender_clone :: "('w, 'm mpsc) access \<Rightarrow> 'w \<Rightarrow> 'w" where
  "sender_clone q w = acc_put q ((acc_get q w)\<lparr>mq_senders := mq_senders (acc_get q w) + 1\<rparr>) w"

text \<open>The fields of \<open>Sender\<close> are dropped in order: the mpsc sender, then the ping.\<close>

definition ping_on_drop :: "('w \<Rightarrow> 'w) \<Rightarrow> 'w \<Rightarrow> 'w" where
  "ping_on_drop ping w = ping w"

definition sender_drop :: "('w, 'm mpsc) access \<Rightarrow> ('w \<Rightarrow> 'w) \<Rightarrow> 'w \<Rightarrow> 'w" where
  "sender_drop q ping w =
     ping_on_drop ping (acc_put q ((acc_get q w)\<lparr>mq_senders := mq_senders (acc_get q w) - 1\<rparr>) w)"

text \<open>
  \<open>SyncSender\<close>: the \<open>PingOnDrop\<close> is shared by the clones, so only the drop of the last one pings.
\<close>

definition sync_try_send :: "('w, 'm mpsc) access \<Rightarrow> ('w \<Rightarrow> 'w) \<Rightarrow> 'm \<Rightarrow> 'w \<Rightarrow> ('m try_send_error, unit) outcome \<times> 'w" where
  "sync_try_send q ping t w =
     (case on_component q (mpsc_try_send t) w of
        (Ok _, w') \<Rightarrow> (Ok (), ping w')
      | (Err (SendFull m), w') \<Rightarrow> (Err (SendFull m), ping w')
      | (r, w') \<Rightarrow> (r, w'))"

text \<open>
  \<open>SyncSender::send\<close>: where the queue is full, the thread blocks; \<open>meanwhile\<close> is what the rest of
  the program does until it can go on. If it still cannot, the call does not return. With a bound of
  0 there is never room: the blocked sender offers its message, and returns when a receiver has
  taken it.
\<close>

definition sync_rendezvous :: "('w, 'm mpsc) access \<Rightarrow> ('w \<Rightarrow> 'w) \<Rightarrow> ('w \<Rightarrow> 'w) \<Rightarrow> 'm \<Rightarrow> 'w \<Rightarrow> ('m, unit) outcome \<times> 'w" where
  "sync_rendezvous q ping meanwhile m w =
     (let w' = meanwhile (acc_put q (mpsc_push m (acc_get q w)) w) in
      if mq_msgs (acc_get q w') = [] then (Ok (), ping w')
      else if \<not> mq_receiver (acc_get q w') then (Err m, w')
      else (Diverge, w'))"

definition sync_send :: "('w, 'm mpsc) access \<Rightarrow> ('w \<Rightarrow> 'w) \<Rightarrow> ('w \<Rightarrow> 'w) \<Rightarrow> 'm \<Rightarrow> 'w \<Rightarrow> ('m, unit) outcome \<times> 'w" where
  "sync_send q ping meanwhile t w =
     (case sync_try_send q ping t w of
        (Ok _, w') \<Rightarrow> (Ok (), w')
      | (Err (SendDisconnected m), w') \<Rightarrow> (Err m, w')
      | (Err (SendFull m), w') \<Rightarrow>
          if mq_bound (acc_get q w') = Some 0 then sync_rendezvous q ping meanwhile m w'
          else
            (case on_component q (mpsc_try_send m) (meanwhile w') of
               (Ok _, w2) \<Rightarrow> (Ok (), ping w2)
             | (Err (SendDisconnected m'), w2) \<Rightarrow> (Err m', w2)
             | (_, w2) \<Rightarrow> (Diverge, w2))
      | (Panic, w') \<Rightarrow> (Panic, w')
      | (Diverge, w') \<Rightarrow> (Diverge, w'))"

definition sync_sender_clone :: "('w, 'm mpsc) access \<Rightarrow> 'w \<Rightarrow> 'w" where
  "sync_sender_clone q w = sender_clone q w"

definition sync_sender_drop :: "('w, 'm mpsc) access \<Rightarrow> ('w \<Rightarrow> 'w) \<Rightarrow> 'w \<Rightarrow> 'w" where
  "sync_sender_drop q ping w =
     (let w' = acc_put q ((acc_get q w)\<lparr>mq_senders := mq_senders (acc_get q w) - 1\<rparr>) w in
      if mq_senders (acc_get q w') = 0 then ping_on_drop ping w' else w')"

section \<open>Channel\<close>

text \<open>The receiving end; \<open>'src\<close> is the ping source. The receiver itself is the queue at \<open>q\<close>.\<close>

record 'src channel =
  ch_source :: 'src
  ch_capacity :: nat

definition USIZE_MAX :: nat where
  "USIZE_MAX = 2 ^ 64 - 1"

text \<open>
  \<open>channel()\<close> and \<open>sync_channel(bound)\<close>: \<open>expect\<close> panics where no ping can be made. The result is
  the sender's ping handle and the channel; the new queue has one sender.
\<close>

definition channel_new :: "nat option \<Rightarrow> ('w, 'm mpsc) access \<Rightarrow> ('w \<Rightarrow> (io_error + 'h \<times> 'src) \<times> 'w)
    \<Rightarrow> 'w \<Rightarrow> (unit, 'h \<times> 'src channel) outcome \<times> 'w" where
  "channel_new bound q make_ping w =
     (let w1 = acc_put q \<lparr>mq_msgs = [], mq_senders = 1, mq_receiver = True, mq_bound = bound\<rparr> w in
      case make_ping w1 of
        (Inr (ping, source), w2) \<Rightarrow>
          (Ok (ping, \<lparr>ch_source = source, ch_capacity = (case bound of None \<Rightarrow> USIZE_MAX | Some n \<Rightarrow> n)\<rparr>), w2)
      | (Inl e, w2) \<Rightarrow> (Panic, w2))"

definition channel_try_recv :: "('w, 'm mpsc) access \<Rightarrow> 'w \<Rightarrow> 'm try_recv \<times> 'w" where
  "channel_try_recv q w = on_component q mpsc_try_recv w"

text \<open>
  \<open>Channel::recv\<close> blocks where the queue is empty; \<open>meanwhile\<close> is as for \<open>sync_send\<close>. While a receiver
  waits, a queue with a bound of 0 takes one message.
\<close>

definition receiver_waits :: "'m mpsc \<Rightarrow> 'm mpsc" where
  "receiver_waits q = (if mq_bound q = Some 0 then q\<lparr>mq_bound := Some 1\<rparr> else q)"

definition wait_for_sender :: "('w, 'm mpsc) access \<Rightarrow> ('w \<Rightarrow> 'w) \<Rightarrow> 'w \<Rightarrow> 'w" where
  "wait_for_sender q meanwhile w =
     (let w' = meanwhile (acc_put q (receiver_waits (acc_get q w)) w) in
      acc_put q ((acc_get q w')\<lparr>mq_bound := mq_bound (acc_get q w)\<rparr>) w')"

definition channel_recv :: "('w, 'm mpsc) access \<Rightarrow> ('w \<Rightarrow> 'w) \<Rightarrow> 'w \<Rightarrow> (unit, 'm) outcome \<times> 'w" where
  "channel_recv q meanwhile w =
     (case channel_try_recv q w of
        (TryOk val, w') \<Rightarrow> (Ok val, w')
      | (TryDisconnected, w') \<Rightarrow> (Err (), w')
      | (TryEmpty, w') \<Rightarrow>
          (case channel_try_recv q (wait_for_sender q meanwhile w') of
             (TryOk val, w2) \<Rightarrow> (Ok val, w2)
           | (TryDisconnected, w2) \<Rightarrow> (Err (), w2)
           | (TryEmpty, w2) \<Rightarrow> (Diverge, w2)))"

text \<open>
  The closure of \<open>process_events\<close>: its captured \<open>clear_readiness\<close> and \<open>disconnected\<close>, and at most
  \<open>n\<close> messages.
\<close>

fun recv_loop :: "('w, 'm mpsc) access \<Rightarrow> ('m event \<Rightarrow> 'w \<Rightarrow> 'w) \<Rightarrow> nat \<Rightarrow> bool \<times> bool \<Rightarrow> 'w \<Rightarrow> (bool \<times> bool) \<times> 'w" where
  "recv_loop q callback 0 c w = (c, w)"
| "recv_loop q callback (Suc n) c w =
     (case channel_try_recv q w of
        (TryOk val, w') \<Rightarrow> recv_loop q callback n c (callback (Msg val) w')
      | (TryEmpty, w') \<Rightarrow> ((True, snd c), w')
      | (TryDisconnected, w') \<Rightarrow> ((fst c, True), callback Closed w'))"

definition channel_max :: "nat \<Rightarrow> nat" where
  "channel_max capacity = min (min (capacity + 1) USIZE_MAX) MAX_EVENTS_CHECK"

definition channel_process :: "('src, bool \<times> bool, 'w) ping_process \<Rightarrow> ('w \<Rightarrow> 'w) \<Rightarrow> ('w, 'm mpsc) access
    \<Rightarrow> ('m event \<Rightarrow> 'w \<Rightarrow> 'w) \<Rightarrow> ('src channel, 'w) process_op" where
  "channel_process pp ping q callback ch rd token w =
     (case pp (ch_source ch) rd token (recv_loop q callback (channel_max (ch_capacity ch))) (False, False) w of
        (Ok action, src, (clear_readiness, disconnected), w') \<Rightarrow>
          (let ch' = ch\<lparr>ch_source := src\<rparr> in
           if disconnected then (Ok Remove, ch', w')
           else if clear_readiness then (Ok action, ch', w')
           else (Ok Continue, ch', ping w'))
      | (Err e, src, _, w') \<Rightarrow> (Err (ChannelError e), ch\<lparr>ch_source := src\<rparr>, w')
      | (Panic, src, _, w') \<Rightarrow> (Panic, ch\<lparr>ch_source := src\<rparr>, w')
      | (Diverge, src, _, w') \<Rightarrow> (Diverge, ch\<lparr>ch_source := src\<rparr>, w'))"

text \<open>The registration operations delegate to the ping source.\<close>

definition channel_register :: "('src, 'p) register_op \<Rightarrow> ('src channel, 'p) register_op" where
  "channel_register reg ch P tf =
     (case reg (ch_source ch) P tf of (r, src, P', tf') \<Rightarrow> (r, ch\<lparr>ch_source := src\<rparr>, P', tf'))"

definition channel_reregister :: "('src, 'p) register_op \<Rightarrow> ('src channel, 'p) register_op" where
  "channel_reregister rereg ch P tf =
     (case rereg (ch_source ch) P tf of (r, src, P', tf') \<Rightarrow> (r, ch\<lparr>ch_source := src\<rparr>, P', tf'))"

definition channel_unregister :: "('src, 'p) unregister_op \<Rightarrow> ('src channel, 'p) unregister_op" where
  "channel_unregister unreg ch P =
     (case unreg (ch_source ch) P of (r, src, P') \<Rightarrow> (r, ch\<lparr>ch_source := src\<rparr>, P'))"

section \<open>What reaches the callback\<close>

text \<open>A call of \<open>recv\<close> that has to wait returns as soon as another thread has sent or the senders are gone.\<close>

lemma channel_recv_returns:
  assumes "access_ok q" and "mq_msgs (acc_get q w) = [] \<Longrightarrow> mq_senders (acc_get q w) \<noteq> 0 \<Longrightarrow>
    mq_msgs (acc_get q (wait_for_sender q meanwhile w)) \<noteq> [] \<or> mq_senders (acc_get q (wait_for_sender q meanwhile w)) = 0"
  shows "\<exists>r w'. channel_recv q meanwhile w = (r, w') \<and> ((\<exists>m. r = Ok m) \<or> r = Err ())"
  using assms
  by (cases "mq_msgs (acc_get q w)"; cases "mq_senders (acc_get q w) = 0"; cases "mq_msgs (acc_get q (wait_for_sender q meanwhile w))")
    (auto simp: channel_recv_def channel_try_recv_def on_component_def mpsc_try_recv_def access_ok_simps)

text \<open>
  A rendezvous: a sender that meets nobody hands its message over as soon as the other side takes what
  is offered, and a message is taken from a sender that comes while a receiver waits.
\<close>

lemma sync_send_meets_receiver:
  assumes q: "access_ok q" and "acc_get q w = \<lparr>mq_msgs = [], mq_senders = n, mq_receiver = True, mq_bound = Some 0\<rparr>"
    and ping: "\<And>w. acc_get q (ping w) = acc_get q w"
    and taken: "meanwhile = (\<lambda>w. snd (channel_try_recv q w))"
  shows "\<exists>w'. sync_send q ping meanwhile m w = (Ok (), w') \<and> mq_msgs (acc_get q w') = []"
  using assms(2)
  by (simp add: taken sync_send_def sync_try_send_def sync_rendezvous_def on_component_def mpsc_try_send_def mpsc_full_def
      mpsc_push_def channel_try_recv_def mpsc_try_recv_def access_ok_simps [OF q] ping Let_def)

lemma recv_meets_sender:
  assumes q: "access_ok q" and "acc_get q w = \<lparr>mq_msgs = [], mq_senders = Suc n, mq_receiver = True, mq_bound = Some 0\<rparr>"
    and ping: "\<And>w. acc_get q (ping w) = acc_get q w"
    and sent: "meanwhile = (\<lambda>w. snd (sync_try_send q ping m w))"
  shows "\<exists>w'. channel_recv q meanwhile w = (Ok m, w') \<and>
    acc_get q w' = \<lparr>mq_msgs = [], mq_senders = Suc n, mq_receiver = True, mq_bound = Some 0\<rparr>"
  using assms(2)
  by (simp add: sent sync_try_send_def on_component_def mpsc_try_send_def mpsc_full_def wait_for_sender_def receiver_waits_def
      mpsc_push_def channel_recv_def channel_try_recv_def mpsc_try_recv_def access_ok_simps [OF q] ping Let_def)

lemma channel_max_pos: "0 < channel_max n"
  by (simp add: channel_max_def USIZE_MAX_def MAX_EVENTS_CHECK_def)

lemma try_recv_world:
  "channel_try_recv q w = (case mq_msgs (acc_get q w) of
     m # ms \<Rightarrow> (TryOk m, acc_put q ((acc_get q w)\<lparr>mq_msgs := ms\<rparr>) w)
   | [] \<Rightarrow> (if mq_senders (acc_get q w) = 0 then TryDisconnected else TryEmpty, acc_put q (acc_get q w) w))"
  by (simp add: channel_try_recv_def on_component_def mpsc_try_recv_def split: list.split)

text \<open>A callback that leaves the queue alone.\<close>

definition leaves_queue :: "('w, 'm mpsc) access \<Rightarrow> ('m event \<Rightarrow> 'w \<Rightarrow> 'w) \<Rightarrow> bool" where
  "leaves_queue q callback \<longleftrightarrow> (\<forall>ev w. acc_get q (callback ev w) = acc_get q w)"

text \<open>
  What a callback may do to the queue meanwhile, by itself or through other threads: whatever it
  adds is behind the messages that are there, and a change that the source has to report pings.
\<close>

definition channel_env :: "('w \<Rightarrow> bool) \<Rightarrow> ('w, 'm mpsc) access \<Rightarrow> 'w \<Rightarrow> 'w \<Rightarrow> bool" where
  "channel_env pending q w w' \<longleftrightarrow>
     (pending w \<longrightarrow> pending w') \<and>
     (\<exists>ms. mq_msgs (acc_get q w') = mq_msgs (acc_get q w) @ ms \<and> (ms \<noteq> [] \<longrightarrow> pending w')) \<and>
     (mq_senders (acc_get q w') = 0 \<longrightarrow> mq_senders (acc_get q w) = 0 \<or> pending w')"

text \<open>Nothing is waiting unseen: a message, or the end of the senders, has a ping pending.\<close>

definition channel_sound :: "('w \<Rightarrow> bool) \<Rightarrow> ('w, 'm mpsc) access \<Rightarrow> 'w \<Rightarrow> bool" where
  "channel_sound pending q w \<longleftrightarrow>
     (mq_msgs (acc_get q w) \<noteq> [] \<or> mq_senders (acc_get q w) = 0 \<longrightarrow> pending w)"

lemma channel_env_refl: "channel_env pending q w w"
  by (simp add: channel_env_def)

lemma channel_env_sound: "channel_sound pending q w \<Longrightarrow> channel_env pending q w w' \<Longrightarrow> channel_sound pending q w'"
  by (auto simp: channel_sound_def channel_env_def)

lemma recv_loop_end:
  assumes q: "access_ok q" and "recv_loop q callback n (False, False) w = ((clear, disc), w')"
  shows "disc \<or> \<not> clear \<or> mq_msgs (acc_get q w') = [] \<and> mq_senders (acc_get q w') \<noteq> 0"
  using assms(2)
proof (induction n arbitrary: w)
  case 0
  then show ?case by simp
next
  case (Suc n)
  then show ?case
    by (cases "mq_msgs (acc_get q w)") (auto simp: try_recv_world access_ok_simps [OF q] split: if_splits)
qed

section \<open>The channel's senders and events, interleaved\<close>

text \<open>
  One action on a channel: a sender's operations, whatever else leaves a message or a last drop
  with a ping, or an event of the source with any token that does not end in its removal.
\<close>

inductive channel_step :: "('src, bool \<times> bool, 'w) ping_process \<Rightarrow> ('w \<Rightarrow> 'w) \<Rightarrow> ('w \<Rightarrow> bool) \<Rightarrow> ('w, 'm mpsc) access
    \<Rightarrow> ('m event \<Rightarrow> 'w \<Rightarrow> 'w) \<Rightarrow> 'src channel \<times> 'w \<Rightarrow> 'src channel \<times> 'w \<Rightarrow> bool"
  for pp ping pending q callback where
  cs_send: "sender_send q ping m w = (r, w') \<Longrightarrow> channel_step pp ping pending q callback (ch, w) (ch, w')"
| cs_try_send: "sync_try_send q ping m w = (r, w') \<Longrightarrow> channel_step pp ping pending q callback (ch, w) (ch, w')"
| cs_clone: "mq_senders (acc_get q w) \<noteq> 0 \<Longrightarrow> channel_step pp ping pending q callback (ch, w) (ch, sender_clone q w)"
| cs_drop: "channel_step pp ping pending q callback (ch, w) (ch, sender_drop q ping w)"
| cs_sync_drop: "channel_step pp ping pending q callback (ch, w) (ch, sync_sender_drop q ping w)"
| cs_env: "channel_env pending q w w' \<Longrightarrow> channel_step pp ping pending q callback (ch, w) (ch, w')"
| cs_event: "channel_process pp ping q callback ch rd t w = (r, ch', w') \<Longrightarrow> r \<noteq> Ok Remove \<Longrightarrow>
    channel_step pp ping pending q callback (ch, w) (ch', w')"

locale channel_backend = ping_backend ping pp pending owns listens "acc_get q"
  for ping :: "'w \<Rightarrow> 'w"
    and pp :: "('src, bool \<times> bool, 'w) ping_process"
    and pending :: "'w \<Rightarrow> bool"
    and owns :: "'src \<Rightarrow> bool"
    and listens :: "'src \<Rightarrow> token \<Rightarrow> bool"
    and q :: "('w, 'm mpsc) access" +
  assumes q_ok: "access_ok q"
    and pending_queue: "pending (acc_put q m w) = pending w"
begin

lemma send_sound: "channel_sound pending q w \<Longrightarrow> sender_send q ping m w = (r, w') \<Longrightarrow> channel_sound pending q w'"
  by (auto simp: sender_send_def on_component_def mpsc_send_def channel_sound_def ping_pends ping_rest
      access_ok_simps [OF q_ok] pending_queue split: if_splits)

lemma try_send_sound: "channel_sound pending q w \<Longrightarrow> sync_try_send q ping m w = (r, w') \<Longrightarrow> channel_sound pending q w'"
  by (auto simp: sync_try_send_def on_component_def mpsc_try_send_def channel_sound_def ping_pends ping_rest
      access_ok_simps [OF q_ok] pending_queue split: if_splits)

lemma drop_sound: "channel_sound pending q (sender_drop q ping w)"
  by (simp add: sender_drop_def ping_on_drop_def channel_sound_def ping_pends)

lemma sync_drop_sound: "channel_sound pending q w \<Longrightarrow> channel_sound pending q (sync_sender_drop q ping w)"
  by (auto simp: sync_sender_drop_def ping_on_drop_def channel_sound_def ping_pends Let_def
      access_ok_simps [OF q_ok] pending_queue)

lemma clone_sound:
  "mq_senders (acc_get q w) \<noteq> 0 \<Longrightarrow> channel_sound pending q w \<Longrightarrow> channel_sound pending q (sender_clone q w)"
  by (auto simp: sender_clone_def channel_sound_def access_ok_simps [OF q_ok] pending_queue)

lemma event_sound:
  assumes "channel_sound pending q w" and "owns (ch_source ch)"
    and "channel_process pp ping q callback ch rd t w = (r, ch', w')"
  shows "owns (ch_source ch') \<and> (r = Ok Remove \<or> channel_sound pending q w')"
proof -
  let ?cb = "recv_loop q callback (channel_max (ch_capacity ch))"
  obtain r0 src clear disc w0 where p: "pp (ch_source ch) rd t ?cb (False, False) w = (r0, src, (clear, disc), w0)"
    by (metis prod.collapse)
  show ?thesis
  proof (cases "listens (ch_source ch) t \<and> pending w")
    case True
    with process_own [OF assms(2) _ _ p] obtain w1 where src: "src = ch_source ch"
      and r0: "r0 \<in> {Ok Continue, Ok Remove}" and cb: "?cb (False, False) w1 = ((clear, disc), w0)" by auto
    from recv_loop_end [OF q_ok cb] show ?thesis
      using assms(2,3) p src r0
      by (auto simp: channel_process_def Let_def channel_sound_def ping_pends split: if_splits)
  next
    case False
    from process_foreign [OF assms(2) False p] have "src = ch_source ch" "\<not> clear" "\<not> disc"
      "acc_get q w0 = acc_get q w" "pending w \<longrightarrow> pending w0" by auto
    with assms p show ?thesis
      by (cases r0) (auto simp: channel_process_def Let_def channel_sound_def ping_pends)
  qed
qed

lemma step_sound:
  assumes "channel_step pp ping pending q callback c c'" and "channel_sound pending q (snd c)" and "owns (ch_source (fst c))"
  shows "channel_sound pending q (snd c') \<and> owns (ch_source (fst c'))"
  using assms(1)
proof cases
  case (cs_send m w r w' ch)
  with assms(2,3) send_sound [of w m r w'] show ?thesis by simp
next
  case (cs_try_send m w r w' ch)
  with assms(2,3) try_send_sound [of w m r w'] show ?thesis by simp
next
  case (cs_clone w ch)
  with assms(2,3) clone_sound [of w] show ?thesis by simp
next
  case (cs_drop ch w)
  with assms(3) drop_sound [of w] show ?thesis by simp
next
  case (cs_sync_drop ch w)
  with assms(2,3) sync_drop_sound [of w] show ?thesis by simp
next
  case (cs_env w w' ch)
  with assms(2,3) channel_env_sound [of pending q w w'] show ?thesis by simp
next
  case (cs_event ch rd t w r ch' w')
  with event_sound [of w ch callback rd t r ch' w'] assms(2,3) show ?thesis by simp
qed

lemma steps_sound:
  "(channel_step pp ping pending q callback)\<^sup>*\<^sup>* c c' \<Longrightarrow> channel_sound pending q (snd c) \<Longrightarrow> owns (ch_source (fst c)) \<Longrightarrow>
     channel_sound pending q (snd c') \<and> owns (ch_source (fst c'))"
  by (induction rule: rtranclp_induct) (auto dest: step_sound)

end

section \<open>Channels on the two Unix pings\<close>

text \<open>The queue next to the operating system.\<close>

definition queue_component :: "('p \<times> 'm mpsc, 'm mpsc) access" where
  "queue_component = \<lparr>acc_get = snd, acc_put = (\<lambda>m w. (fst w, m))\<rparr>"

lemma queue_component_ok [simp]: "access_ok queue_component"
  by (simp add: access_ok_def queue_component_def)

interpretation linux_channel: channel_backend "eventfd_ping EFK first_component fd" "eventfd_process EFK first_component"
    "\<lambda>w. 2 \<le> unat (fst w fd)" "\<lambda>src. gn_file src = Some fd" "\<lambda>src t. gn_token src = Some t" queue_component for fd
  using linux.ping.ping_backend_axioms [of fd]
  by (auto intro!: channel_backend.intro channel_backend_axioms.intro simp: first_component_def queue_component_def access_ok_def)

interpretation unix_channel: channel_backend "pipe_ping PPK first_component wfd" "pipe_process PPK first_component 3"
    "\<lambda>w. 0 < min 64 (fst (fst w))" "\<lambda>src. gn_file src = Some rfd" "\<lambda>src t. gn_token src = Some t" queue_component for rfd wfd
  using unix.ping.ping_backend_axioms [of wfd rfd]
  by (auto intro!: channel_backend.intro channel_backend_axioms.intro simp: first_component_def queue_component_def access_ok_def)

section \<open>Properties\<close>

lemma eventfd_channel_backend:
  assumes "eventfd_contract E fd counter" and "access_ok sys" and "access_ok q" and "access_apart sys q"
  shows "channel_backend (eventfd_ping E sys fd) (eventfd_process E sys) (\<lambda>w. 2 \<le> unat (counter (acc_get sys w)))
    (\<lambda>src. gn_file src = Some fd) (\<lambda>src t. gn_token src = Some t) q"
proof -
  have "eventfd_kernel E sys fd counter (acc_get q)"
    using assms by unfold_locales (simp_all add: access_apart_simps)
  then have "ping_backend (eventfd_ping E sys fd) (eventfd_process E sys) (\<lambda>w. 2 \<le> unat (counter (acc_get sys w)))
      (\<lambda>src. gn_file src = Some fd) (\<lambda>src t. gn_token src = Some t) (acc_get q)"
    by (rule eventfd_kernel.is_ping_backend)
  then show ?thesis
    using assms(3,4) by (auto intro!: channel_backend.intro channel_backend_axioms.intro simp: access_apart_simps)
qed

text \<open>
  No wakeup is lost. Whatever sends, drops and clones of senders happen between the events
  of the channel, and whatever its callback does to the queue through senders, a message that
  waits in the queue, or the end of the last sender, always has a ping pending on the eventfd,
  so the loop will run the channel's callback again: also after an event that stopped at the
  limit of messages for one round.
\<close>

theorem channel_no_lost_wakeup:
  assumes "eventfd_contract E fd counter" and "access_ok sys" and "access_ok q" and "access_apart sys q"
    and "gn_file (ch_source ch0) = Some fd" and "mq_msgs (acc_get q w0) = []" and "mq_senders (acc_get q w0) \<noteq> 0"
    and "(channel_step (eventfd_process E sys) (eventfd_ping E sys fd)
        (\<lambda>w. 2 \<le> unat (counter (acc_get sys w))) q callback)\<^sup>*\<^sup>* (ch0, w0) (ch, w)"
    and "mq_msgs (acc_get q w) \<noteq> [] \<or> mq_senders (acc_get q w) = 0"
  shows "2 \<le> unat (counter (acc_get sys w))"
proof -
  have "channel_sound (\<lambda>w. 2 \<le> unat (counter (acc_get sys w))) q w0"
    using assms(6,7) by (simp add: channel_sound_def)
  with channel_backend.steps_sound [OF eventfd_channel_backend [OF assms(1-4)] assms(8)] assms(5,9)
  show ?thesis by (simp add: channel_sound_def)
qed

theorem channel_no_lost_wakeup_witness:
  "\<exists>w :: (raw_fd \<Rightarrow> u64) \<times> nat mpsc. mq_msgs (snd w) = [5] \<and> 2 \<le> unat (fst w 3)"
proof -
  let ?ch = "\<lparr>ch_source = Generic_new 3 Interest_READ Level, ch_capacity = USIZE_MAX\<rparr>"
  let ?w = "(\<lambda>_. 0, \<lparr>mq_msgs = [], mq_senders = 1, mq_receiver = True, mq_bound = None\<rparr>) :: (raw_fd \<Rightarrow> u64) \<times> nat mpsc"
  obtain r w where send: "sender_send queue_component (eventfd_ping EFK first_component 3) 5 ?w = (r, w)"
    and m: "mq_msgs (snd w) = [5]"
    by (simp add: sender_send_def on_component_def mpsc_send_def mpsc_push_def queue_component_def eventfd_ping_def
        eventfd_send_ping_def first_component_def EFK_def INCREMENT_PING_def)
  have steps: "(channel_step (eventfd_process EFK first_component) (eventfd_ping EFK first_component 3)
        (\<lambda>w. 2 \<le> unat ((\<lambda>k. k 3) (acc_get first_component w))) queue_component (\<lambda>_ w. w))\<^sup>*\<^sup>* (?ch, ?w) (?ch, w)"
    using channel_step.cs_send [OF send] by blast
  have "2 \<le> unat ((\<lambda>k. k 3) (acc_get first_component w))"
    by (rule channel_no_lost_wakeup [OF EFK_contract first_component_ok queue_component_ok _ _ _ _ steps])
      (simp_all add: m queue_component_def first_component_def access_apart_def Generic_new_def)
  with m show ?thesis by (intro exI [of _ w]) (simp add: first_component_def)
qed

text \<open>A callback that folds the events into a component \<open>lg\<close> of the world with \<open>f\<close>.\<close>

lemma recv_loop_fold:
  assumes q: "access_ok q" and lg: "access_ok lg" and apart: "access_apart q lg"
    and ind: "\<And>x w m. pend (acc_put lg x w) = pend w" "\<And>w m. pend (acc_put q m w) = (pend w :: 'x)"
  shows "recv_loop q (\<lambda>ev w. acc_put lg (f ev (acc_get lg w)) w) n c w = (c', w') \<Longrightarrow>
    msgs = mq_msgs (acc_get q w) \<Longrightarrow>
    acc_get lg w' = fold f (map Msg (take n msgs) @
      (if length msgs < n \<and> mq_senders (acc_get q w) = 0 then [Closed] else [])) (acc_get lg w) \<and>
    acc_get q w' = (acc_get q w)\<lparr>mq_msgs := drop n msgs\<rparr> \<and> pend w' = pend w \<and>
    c' = (if length msgs < n then (if mq_senders (acc_get q w) = 0 then (fst c, True) else (True, snd c)) else c)"
proof (induction n arbitrary: w msgs)
  case 0
  then show ?case by simp
next
  case (Suc n)
  note ok = access_ok_simps [OF q] access_ok_simps [OF lg] access_apart_simps [OF apart]
  show ?case
  proof (cases msgs)
    case Nil
    with Suc.prems show ?thesis by (auto simp: try_recv_world ok ind split: if_splits)
  next
    case (Cons m ms)
    let ?w1 = "acc_put q ((acc_get q w)\<lparr>mq_msgs := ms\<rparr>) w"
    let ?w2 = "acc_put lg (f (Msg m) (acc_get lg ?w1)) ?w1"
    have "recv_loop q (\<lambda>ev w. acc_put lg (f ev (acc_get lg w)) w) n c ?w2 = (c', w')" "ms = mq_msgs (acc_get q ?w2)"
      using Suc.prems(1) Suc.prems(2) [symmetric] unfolding Cons by (simp_all add: try_recv_world ok)
    from Suc.IH [OF this] Cons Suc.prems(2) show ?thesis by (simp add: ok ind)
  qed
qed

lemma eventfd_channel_fold:
  assumes "eventfd_contract E fd counter" and "access_ok sys" and "access_ok q" and "access_apart sys q"
    and "access_ok lg" and "access_apart q lg" and "access_apart sys lg"
    and "gn_file (ch_source ch) = Some fd" and "gn_token (ch_source ch) = Some t"
    and "2 \<le> unat (counter (acc_get sys w))"
    and "channel_process (eventfd_process E sys) (eventfd_ping E sys fd) q
        (\<lambda>ev w. acc_put lg (f ev (acc_get lg w)) w) ch rd t w = (r, ch', w')"
    and "msgs = mq_msgs (acc_get q w)" and "limit = channel_max (ch_capacity ch)"
    and fr: "\<And>x w. fr (acc_put lg x w) = fr w" "\<And>m w. fr (acc_put q m w) = fr w"
      "\<And>v w. fr (acc_put sys (snd (ef_write E (acc_get sys w) fd v)) w) = fr w"
      "\<And>w. fr (acc_put sys (snd (ef_read E (acc_get sys w) fd)) w) = fr w"
  shows "acc_get lg w' = fold f (map Msg (take limit msgs) @
      (if length msgs < limit \<and> mq_senders (acc_get q w) = 0 then [Closed] else [])) (acc_get lg w) \<and>
    acc_get q w' = (acc_get q w)\<lparr>mq_msgs := drop limit msgs\<rparr> \<and> ch' = ch \<and> fr w' = fr w \<and>
    r = Ok (if length msgs < limit \<and> (mq_senders (acc_get q w) = 0 \<or> odd (counter (acc_get sys w))) then Remove else Continue) \<and>
    counter (acc_get sys w') = (if length msgs < limit then 0 else 2) \<and>
    (if length msgs < limit then mq_senders (acc_get q w) = 0 \<longrightarrow> r = Ok Remove
     else r = Ok Continue \<and> 2 \<le> unat (counter (acc_get sys w')))"
proof -
  let ?cb = "\<lambda>ev w. acc_put lg (f ev (acc_get lg w)) w"
  let ?other = "\<lambda>w. (acc_get q w, acc_get lg w, fr w)"
  have K: "eventfd_kernel E sys fd counter ?other"
    using assms by unfold_locales (simp_all add: access_apart_simps)
  have "counter (acc_get sys w) \<noteq> 0" using assms(10) by auto
  with assms(10) obtain w1 where w1: "?other w1 = ?other w" "counter (acc_get sys w1) = 0" and
    p: "eventfd_process E sys (ch_source ch) rd t (recv_loop q ?cb limit) (False, False) w =
      (Ok (if odd (counter (acc_get sys w)) then Remove else Continue), ch_source ch, recv_loop q ?cb limit (False, False) w1)"
    using eventfd_kernel.process_effect [OF K assms(8,9), where w = w and rd = rd and cb = "recv_loop q ?cb limit" and c = "(False, False)"]
    by auto
  define c' w2 where "c' = fst (recv_loop q ?cb limit (False, False) w1)"
    and "w2 = snd (recv_loop q ?cb limit (False, False) w1)"
  then have l: "recv_loop q ?cb limit (False, False) w1 = (c', w2)" by simp
  note e = recv_loop_fold [OF assms(3,5,6), where pend = "\<lambda>w. (acc_get sys w, fr w)", OF _ _ l, of msgs]
  have e': "acc_get lg w2 = fold f (map Msg (take limit msgs) @
      (if length msgs < limit \<and> mq_senders (acc_get q w) = 0 then [Closed] else [])) (acc_get lg w)"
    "acc_get q w2 = (acc_get q w)\<lparr>mq_msgs := drop limit msgs\<rparr>" "fr w2 = fr w"
    "c' = (if length msgs < limit then (if mq_senders (acc_get q w) = 0 then (False, True) else (True, False)) else (False, False))"
    "acc_get sys w2 = acc_get sys w1"
    using e w1(1) assms(4,7,12) by (auto simp: access_apart_simps fr)
  from e'(5) w1(2) have ping: "?other (eventfd_ping E sys fd w2) = ?other w2" "counter (acc_get sys w2) = 0"
      "counter (acc_get sys (eventfd_ping E sys fd w2)) = 2"
    using eventfd_kernel.ping_effect [OF K, of w2] by simp_all
  show ?thesis
    using assms(11) p l e' ping by (auto simp: channel_process_def assms(13) [symmetric] Let_def split: if_splits)
qed

text \<open>A callback that logs the events.\<close>

lemma fold_log: "fold (\<lambda>ev l. l @ [ev]) evs l = l @ evs"
  by (induction evs arbitrary: l) simp_all

lemma eventfd_channel_event:
  assumes "eventfd_contract E fd counter" and "access_ok sys" and "access_ok q" and "access_apart sys q"
    and "access_ok lg" and "access_apart q lg" and "access_apart sys lg"
    and "gn_file (ch_source ch) = Some fd" and "gn_token (ch_source ch) = Some t"
    and "2 \<le> unat (counter (acc_get sys w))"
    and "channel_process (eventfd_process E sys) (eventfd_ping E sys fd) q
        (\<lambda>ev w. acc_put lg (acc_get lg w @ [ev]) w) ch rd t w = (r, ch', w')"
    and "msgs = mq_msgs (acc_get q w)" and "limit = channel_max (ch_capacity ch)"
  shows "acc_get lg w' = acc_get lg w @ map Msg (take limit msgs) @
      (if length msgs < limit \<and> mq_senders (acc_get q w) = 0 then [Closed] else []) \<and>
    acc_get q w' = (acc_get q w)\<lparr>mq_msgs := drop limit msgs\<rparr> \<and> ch_source ch' = ch_source ch \<and>
    (if length msgs < limit then mq_senders (acc_get q w) = 0 \<longrightarrow> r = Ok Remove
     else r = Ok Continue \<and> 2 \<le> unat (counter (acc_get sys w')))"
  using eventfd_channel_fold [OF assms, of "\<lambda>_. ()"] by (simp add: fold_log split: if_splits)

text \<open>
  One event of the channel hands the callback the waiting messages in the order they were
  sent, each once, up to the smaller of the capacity plus one and 1024, and then, if the queue
  was emptied and no sender is left, the \<open>Closed\<close> event, upon which the channel asks to be
  removed. If the limit was reached the channel pings itself, so that the rest is not stranded.
\<close>

theorem channel_delivers_in_order:
  assumes "eventfd_contract E fd counter" and "access_ok sys" and "access_ok q" and "access_apart sys q"
    and "access_ok lg" and "access_apart q lg" and "access_apart sys lg"
    and "gn_file (ch_source ch) = Some fd" and "gn_token (ch_source ch) = Some t"
    and "2 \<le> unat (counter (acc_get sys w))"
    and "channel_process (eventfd_process E sys) (eventfd_ping E sys fd) q
        (\<lambda>ev w. acc_put lg (acc_get lg w @ [ev]) w) ch rd t w = (r, ch', w')"
    and "msgs = mq_msgs (acc_get q w)" and "limit = channel_max (ch_capacity ch)"
  shows "acc_get lg w' = acc_get lg w @ map Msg (take limit msgs) @
      (if length msgs < limit \<and> mq_senders (acc_get q w) = 0 then [Closed] else []) \<and>
    mq_msgs (acc_get q w') = drop limit msgs \<and>
    (if length msgs < limit then mq_senders (acc_get q w) = 0 \<longrightarrow> r = Ok Remove
     else r = Ok Continue \<and> 2 \<le> unat (counter (acc_get sys w')))"
  using eventfd_channel_event [OF assms] by simp

text \<open>A world of an eventfd kernel, a queue and a log.\<close>

definition log_queue :: "('p \<times> 'm mpsc \<times> 'l, 'm mpsc) access" where
  "log_queue = \<lparr>acc_get = (\<lambda>w. fst (snd w)), acc_put = (\<lambda>m w. (fst w, m, snd (snd w)))\<rparr>"

definition log_component :: "('p \<times> 'm mpsc \<times> 'l, 'l) access" where
  "log_component = \<lparr>acc_get = (\<lambda>w. snd (snd w)), acc_put = (\<lambda>l w. (fst w, fst (snd w), l))\<rparr>"

lemma log_world:
  "access_ok log_queue" "access_ok log_component" "access_apart log_queue log_component"
  "access_apart first_component log_queue" "access_apart first_component log_component"
  by (simp_all add: access_ok_def access_apart_def log_queue_def log_component_def first_component_def)

theorem channel_delivers_in_order_witness:
  "\<exists>ch' w'. channel_process (eventfd_process EFK first_component) (eventfd_ping EFK first_component 3) log_queue
      (\<lambda>ev w. acc_put log_component (acc_get log_component w @ [ev]) w)
      \<lparr>ch_source = (Generic_new 3 Interest_READ Level)\<lparr>gn_token := Some \<lparr>tok_id = 1, tok_version = 0, tok_sub_id = 0\<rparr>\<rparr>, ch_capacity = 1\<rparr>
      Readiness_EMPTY \<lparr>tok_id = 1, tok_version = 0, tok_sub_id = 0\<rparr>
      (\<lambda>_. 2, \<lparr>mq_msgs = [7], mq_senders = 0, mq_receiver = True, mq_bound = Some 1\<rparr>, []) = (Ok Remove, ch', w') \<and>
    snd (snd w') = [Msg (7 :: nat), Closed]"
proof -
  let ?t = "\<lparr>tok_id = 1, tok_version = 0, tok_sub_id = 0\<rparr> :: token_inner"
  let ?ch = "\<lparr>ch_source = (Generic_new 3 Interest_READ Level)\<lparr>gn_token := Some ?t\<rparr>, ch_capacity = 1\<rparr> :: eventfd_source channel"
  let ?w = "(\<lambda>_. 2, \<lparr>mq_msgs = [7], mq_senders = 0, mq_receiver = True, mq_bound = Some 1\<rparr>, [])
    :: (raw_fd \<Rightarrow> u64) \<times> nat mpsc \<times> nat event list"
  obtain r ch' w' where run: "channel_process (eventfd_process EFK first_component) (eventfd_ping EFK first_component 3) log_queue
      (\<lambda>ev w. acc_put log_component (acc_get log_component w @ [ev]) w) ?ch Readiness_EMPTY ?t ?w = (r, ch', w')"
    by (rule prod_cases3)
  have max: "channel_max (ch_capacity ?ch) = 2" by (simp add: channel_max_def USIZE_MAX_def MAX_EVENTS_CHECK_def)
  have "acc_get log_component w' = [Msg 7, Closed] \<and> r = Ok Remove"
    using channel_delivers_in_order [OF EFK_contract [of 3] first_component_ok log_world(1,4,2,3,5) _ _ _ run refl max [symmetric]]
    by (simp add: log_queue_def log_component_def first_component_def Generic_new_def)
  with run show ?thesis by (simp add: log_component_def)
qed

end
