(* ===== verification/Channel_Refinement.thy ===== *)
theory Channel_Refinement
  imports Channel_Source
begin

text \<open>
  The channel of \<open>src/src/sources/channel.rs\<close> on an eventfd against its specification: a queue from
  which messages are handed out in order, each once, and which says \<open>Closed\<close> once, at the end.
\<close>

section \<open>The specification\<close>

record 'm fifo =
  ff_queue :: "'m list"
  ff_out :: "'m event list"
  ff_senders :: nat

inductive fifo_step :: "'m fifo \<Rightarrow> 'm fifo \<Rightarrow> bool" where
  ff_send: "ff_senders s \<noteq> 0 \<Longrightarrow> fifo_step s (s\<lparr>ff_queue := ff_queue s @ [m]\<rparr>)"
| ff_clone: "ff_senders s \<noteq> 0 \<Longrightarrow> fifo_step s (s\<lparr>ff_senders := ff_senders s + 1\<rparr>)"
| ff_drop: "ff_senders s \<noteq> 0 \<Longrightarrow> fifo_step s (s\<lparr>ff_senders := ff_senders s - 1\<rparr>)"
| ff_deliver: "ff_queue s = m # ms \<Longrightarrow> fifo_step s (s\<lparr>ff_queue := ms, ff_out := ff_out s @ [Msg m]\<rparr>)"
| ff_close: "ff_queue s = [] \<Longrightarrow> ff_senders s = 0 \<Longrightarrow> Closed \<notin> set (ff_out s) \<Longrightarrow>
    fifo_step s (s\<lparr>ff_out := ff_out s @ [Closed]\<rparr>)"

lemma fifo_deliver_many:
  "fifo_step\<^sup>*\<^sup>* \<lparr>ff_queue = ms @ rest, ff_out = es, ff_senders = n\<rparr> \<lparr>ff_queue = rest, ff_out = es @ map Msg ms, ff_senders = n\<rparr>"
proof (induction ms arbitrary: es)
  case Nil
  then show ?case by simp
next
  case (Cons m ms)
  let ?s = "\<lparr>ff_queue = (m # ms) @ rest, ff_out = es, ff_senders = n\<rparr>"
  have "fifo_step ?s \<lparr>ff_queue = ms @ rest, ff_out = es @ [Msg m], ff_senders = n\<rparr>"
    using fifo_step.ff_deliver [of ?s m "ms @ rest"] by simp
  moreover have "fifo_step\<^sup>*\<^sup>* \<lparr>ff_queue = ms @ rest, ff_out = es @ [Msg m], ff_senders = n\<rparr>
      \<lparr>ff_queue = rest, ff_out = es @ map Msg (m # ms), ff_senders = n\<rparr>"
    using Cons.IH [of "es @ [Msg m]"] by simp
  ultimately show ?case by (rule converse_rtranclp_into_rtranclp)
qed

text \<open>What the specification promises: nothing is lost, duplicated or reordered, and \<open>Closed\<close> is last.\<close>

lemma fifo_step_inv:
  assumes "fifo_step s s'" and "Closed \<in> set (ff_out s) \<longrightarrow> ff_queue s = [] \<and> ff_senders s = 0 \<and> last (ff_out s) = Closed"
  shows "Closed \<in> set (ff_out s') \<longrightarrow> ff_queue s' = [] \<and> ff_senders s' = 0 \<and> last (ff_out s') = Closed"
  using assms by (induction rule: fifo_step.induct) auto

section \<open>The implementation with a log of its callback\<close>

text \<open>
  The state is whether the source was removed, the channel and the world. An event comes only
  before the removal; a sender acts only while there is one.
\<close>

definition log_event :: "('w, 'm event list) access \<Rightarrow> 'm event \<Rightarrow> 'w \<Rightarrow> 'w" where
  "log_event lg ev w = acc_put lg (acc_get lg w @ [ev]) w"

inductive logged_step :: "'p eventfd_ops \<Rightarrow> ('w, 'p) access \<Rightarrow> raw_fd \<Rightarrow> ('w, 'm mpsc) access \<Rightarrow> ('w, 'm event list) access
    \<Rightarrow> bool \<times> eventfd_source channel \<times> 'w \<Rightarrow> bool \<times> eventfd_source channel \<times> 'w \<Rightarrow> bool"
  for E sys fd q lg where
  lg_send: "mq_senders (acc_get q w) \<noteq> 0 \<Longrightarrow> sender_send q (eventfd_ping E sys fd) m w = (r, w') \<Longrightarrow>
    logged_step E sys fd q lg (gone, ch, w) (gone, ch, w')"
| lg_try_send: "mq_senders (acc_get q w) \<noteq> 0 \<Longrightarrow> sync_try_send q (eventfd_ping E sys fd) m w = (r', w') \<Longrightarrow>
    logged_step E sys fd q lg (gone, ch, w) (gone, ch, w')"
| lg_clone: "mq_senders (acc_get q w) \<noteq> 0 \<Longrightarrow> logged_step E sys fd q lg (gone, ch, w) (gone, ch, sender_clone q w)"
| lg_drop: "mq_senders (acc_get q w) \<noteq> 0 \<Longrightarrow>
    logged_step E sys fd q lg (gone, ch, w) (gone, ch, sender_drop q (eventfd_ping E sys fd) w)"
| lg_sync_drop: "mq_senders (acc_get q w) \<noteq> 0 \<Longrightarrow>
    logged_step E sys fd q lg (gone, ch, w) (gone, ch, sync_sender_drop q (eventfd_ping E sys fd) w)"
| lg_event: "channel_process (eventfd_process E sys) (eventfd_ping E sys fd) q (log_event lg) ch rd t w = (s, ch', w') \<Longrightarrow>
    logged_step E sys fd q lg (False, ch, w) (s = Ok Remove, ch', w')"

definition channel_fifo :: "('w, 'm mpsc) access \<Rightarrow> ('w, 'm event list) access \<Rightarrow> 'w \<Rightarrow> 'm fifo" where
  "channel_fifo q lg w =
     \<lparr>ff_queue = mq_msgs (acc_get q w), ff_out = acc_get lg w, ff_senders = mq_senders (acc_get q w)\<rparr>"

section \<open>Simulation\<close>

locale logged_channel =
  fixes E :: "'p eventfd_ops" and sys :: "('w, 'p) access" and fd :: raw_fd and counter :: "'p \<Rightarrow> u64"
    and q :: "('w, 'm mpsc) access" and lg :: "('w, 'm event list) access"
  assumes contract: "eventfd_contract E fd counter"
    and parts_ok: "access_ok sys" "access_ok q" "access_ok lg"
    and parts_apart: "access_apart sys q" "access_apart q lg" "access_apart sys lg"
begin

lemma parts_kernel: "eventfd_kernel E sys fd counter (\<lambda>w. (acc_get q w, acc_get lg w))"
  using contract parts_ok parts_apart by unfold_locales (simp_all add: access_apart_simps)

lemma ping_parts [simp]:
  "acc_get q (eventfd_ping E sys fd w) = acc_get q w" "acc_get lg (eventfd_ping E sys fd w) = acc_get lg w"
  using eventfd_kernel.ping_effect(1) [OF parts_kernel, of w] by simp_all

lemma put_queue [simp]:
  "acc_get q (acc_put q m w) = m" "acc_get lg (acc_put q m w) = acc_get lg w"
  using parts_ok parts_apart by (simp_all add: access_ok_simps access_apart_simps)

lemma fifo_simps [simp]:
  "channel_fifo q lg (eventfd_ping E sys fd w) = channel_fifo q lg w"
  "channel_fifo q lg (acc_put q m w) = \<lparr>ff_queue = mq_msgs m, ff_out = acc_get lg w, ff_senders = mq_senders m\<rparr>"
  by (simp_all add: channel_fifo_def)

lemma event_fifo:
  assumes "gn_file (ch_source ch) = Some fd"
    and "channel_process (eventfd_process E sys) (eventfd_ping E sys fd) q (log_event lg) ch rd t w = (r, ch', w')"
    and "Closed \<notin> set (acc_get lg w)"
  shows "fifo_step\<^sup>*\<^sup>* (channel_fifo q lg w) (channel_fifo q lg w') \<and> gn_file (ch_source ch') = Some fd \<and>
    (r \<noteq> Ok Remove \<longrightarrow> Closed \<notin> set (acc_get lg w'))"
proof (cases "gn_token (ch_source ch) = Some t \<and> 2 \<le> unat (counter (acc_get sys w))")
  case True
  define msgs limit where "msgs = mq_msgs (acc_get q w)" and "limit = channel_max (ch_capacity ch)"
  have cb: "log_event lg = (\<lambda>ev w. acc_put lg (acc_get lg w @ [ev]) w)" by (intro ext) (simp add: log_event_def)
  note ev = eventfd_channel_event [OF contract parts_ok(1,2) parts_apart(1) parts_ok(3) parts_apart(2,3) assms(1)
    conjunct1 [OF True] conjunct2 [OF True] assms(2) [unfolded cb] msgs_def limit_def]
  let ?mid = "\<lparr>ff_queue = drop limit msgs, ff_out = acc_get lg w @ map Msg (take limit msgs), ff_senders = mq_senders (acc_get q w)\<rparr>"
  have many: "fifo_step\<^sup>*\<^sup>* (channel_fifo q lg w) ?mid"
    using fifo_deliver_many [of "take limit msgs" "drop limit msgs" "acc_get lg w" "mq_senders (acc_get q w)"]
    by (simp add: channel_fifo_def msgs_def)
  show ?thesis
  proof (cases "length msgs < limit \<and> mq_senders (acc_get q w) = 0")
    case True
    then have "Closed \<notin> set (acc_get lg w @ map Msg (take limit msgs))" using assms(3) by auto
    with True have "fifo_step ?mid (?mid\<lparr>ff_out := ff_out ?mid @ [Closed]\<rparr>)" by (intro fifo_step.ff_close) simp_all
    with many have "fifo_step\<^sup>*\<^sup>* (channel_fifo q lg w) (?mid\<lparr>ff_out := ff_out ?mid @ [Closed]\<rparr>)"
      by (rule rtranclp.rtrancl_into_rtrancl)
    with True ev assms(1) show ?thesis by (simp add: channel_fifo_def)
  next
    case False
    with many ev assms(1,3) show ?thesis by (auto simp: channel_fifo_def)
  qed
next
  case False
  obtain r0 src c0 w0 where p: "eventfd_process E sys (ch_source ch) rd t (recv_loop q (log_event lg) (channel_max (ch_capacity ch)))
      (False, False) w = (r0, src, c0, w0)" by (metis prod.collapse)
  have own: "ping_backend (eventfd_ping E sys fd) (eventfd_process E sys) (\<lambda>w. 2 \<le> unat (counter (acc_get sys w)))
     (\<lambda>src. gn_file src = Some fd) (\<lambda>src t. gn_token src = Some t) (\<lambda>w. (acc_get q w, acc_get lg w))"
    by (rule eventfd_kernel.is_ping_backend [OF parts_kernel])
  from ping_backend.process_foreign [OF own assms(1) False p] have "src = ch_source ch" "c0 = (False, False)"
    "acc_get q w0 = acc_get q w" "acc_get lg w0 = acc_get lg w" by auto
  with assms p show ?thesis by (cases r0) (auto simp: channel_process_def channel_fifo_def Let_def)
qed

lemma send_fifo:
  assumes "mq_senders (acc_get q w) \<noteq> 0"
  shows "sender_send q (eventfd_ping E sys fd) m w = (r, w') \<Longrightarrow>
      fifo_step\<^sup>*\<^sup>* (channel_fifo q lg w) (channel_fifo q lg w') \<and> acc_get lg w' = acc_get lg w"
    and "sync_try_send q (eventfd_ping E sys fd) m w = (r', w') \<Longrightarrow>
      fifo_step\<^sup>*\<^sup>* (channel_fifo q lg w) (channel_fifo q lg w') \<and> acc_get lg w' = acc_get lg w"
  using fifo_step.ff_send [of "channel_fifo q lg w" m] assms
  by (auto simp: sender_send_def sync_try_send_def on_component_def mpsc_send_def mpsc_try_send_def mpsc_push_def
      channel_fifo_def split: if_splits)

lemma senders_fifo:
  assumes "mq_senders (acc_get q w) \<noteq> 0"
  shows "fifo_step (channel_fifo q lg w) (channel_fifo q lg (sender_clone q w))"
    and "fifo_step (channel_fifo q lg w) (channel_fifo q lg (sender_drop q (eventfd_ping E sys fd) w))"
    and "fifo_step (channel_fifo q lg w) (channel_fifo q lg (sync_sender_drop q (eventfd_ping E sys fd) w))"
    and "acc_get lg (sender_clone q w) = acc_get lg w" "acc_get lg (sender_drop q (eventfd_ping E sys fd) w) = acc_get lg w"
    and "acc_get lg (sync_sender_drop q (eventfd_ping E sys fd) w) = acc_get lg w"
  using fifo_step.ff_clone [of "channel_fifo q lg w"] fifo_step.ff_drop [of "channel_fifo q lg w"] assms
  by (cases "mq_senders (acc_get q w) = Suc 0";
      simp add: sender_clone_def sender_drop_def sync_sender_drop_def ping_on_drop_def channel_fifo_def Let_def)+

lemma step_fifo:
  assumes "logged_step E sys fd q lg (gone, ch, w) (gone', ch', w')" and "gn_file (ch_source ch) = Some fd"
    and "gone \<or> Closed \<notin> set (acc_get lg w)"
  shows "fifo_step\<^sup>*\<^sup>* (channel_fifo q lg w) (channel_fifo q lg w') \<and> gn_file (ch_source ch') = Some fd \<and>
    (gone' \<or> Closed \<notin> set (acc_get lg w'))"
  using assms(1)
proof cases
  case (lg_event rd t s)
  with event_fifo [OF assms(2)] assms(3) show ?thesis by auto
qed (use assms(2,3) send_fifo senders_fifo in \<open>auto intro: r_into_rtranclp\<close>)

lemma steps_fifo:
  "(logged_step E sys fd q lg)\<^sup>*\<^sup>* (False, ch0, w0) (gone, ch, w) \<Longrightarrow> gn_file (ch_source ch0) = Some fd \<Longrightarrow>
     Closed \<notin> set (acc_get lg w0) \<Longrightarrow>
     fifo_step\<^sup>*\<^sup>* (channel_fifo q lg w0) (channel_fifo q lg w) \<and> gn_file (ch_source ch) = Some fd \<and>
       (gone \<or> Closed \<notin> set (acc_get lg w))"
proof (induction "(gone, ch, w)" arbitrary: gone ch w rule: rtranclp_induct)
  case base
  then show ?case by simp
next
  case (step c)
  obtain gone1 ch1 w1 where c: "c = (gone1, ch1, w1)" by (rule prod_cases3)
  from step(3) [OF c step(4,5)] step_fifo [of gone1 ch1 w1 gone ch w] step(2) c show ?case
    by (auto intro: rtranclp_trans)
qed

end

interpretation linux_log: logged_channel EFK first_component fd "\<lambda>k. k fd" log_queue log_component for fd
  by unfold_locales (simp_all add: EFK_contract log_world)

section \<open>Properties\<close>



end
