(* ===== verification/Channel_Threads.thy ===== *)
theory Channel_Threads
  imports Channel_Source
begin

text \<open>
  A channel with its senders on other threads. The steps of the calls are interleaved in any way: a
  sender puts its message into the queue and pings later, a dropped sender leaves the count and pings
  later, and the receiver drains the eventfd, then takes messages one by one. \<open>k\<close> counts the threads
  between the two halves of such a call. The callback \<open>cb\<close> works on data of its own.
\<close>

datatype receiver = Waiting | Looping nat | Finished

inductive thread_step :: "'p eventfd_ops \<Rightarrow> ('w, 'p) access \<Rightarrow> raw_fd \<Rightarrow> ('w, 'm mpsc) access \<Rightarrow> ('m event \<Rightarrow> 'w \<Rightarrow> 'w) \<Rightarrow> nat
    \<Rightarrow> nat \<times> receiver \<times> 'w \<Rightarrow> nat \<times> receiver \<times> 'w \<Rightarrow> bool"
  for E sys fd q cb limit where
  ts_push: "on_component q (mpsc_send m) w = (Ok (), w') \<Longrightarrow> thread_step E sys fd q cb limit (k, pc, w) (Suc k, pc, w')"
| ts_release: "thread_step E sys fd q cb limit (k, pc, w)
    (Suc k, pc, acc_put q ((acc_get q w)\<lparr>mq_senders := mq_senders (acc_get q w) - 1\<rparr>) w)"
| ts_clone: "0 < mq_senders (acc_get q w) \<Longrightarrow> thread_step E sys fd q cb limit (k, pc, w) (k, pc, sender_clone q w)"
| ts_ping: "thread_step E sys fd q cb limit (Suc k, pc, w) (k, pc, eventfd_ping E sys fd w)"
| ts_drain: "eventfd_drain_ping E sys fd w = (Ok c, w') \<Longrightarrow>
    thread_step E sys fd q cb limit (k, Waiting, w) (k, if 2 \<le> unat c then Looping limit else Waiting, w')"
| ts_recv: "channel_try_recv q w = (TryOk m, w') \<Longrightarrow>
    thread_step E sys fd q cb limit (k, Looping (Suc n), w) (k, Looping n, cb (Msg m) w')"
| ts_empty: "channel_try_recv q w = (TryEmpty, w') \<Longrightarrow> thread_step E sys fd q cb limit (k, Looping (Suc n), w) (k, Waiting, w')"
| ts_closed: "channel_try_recv q w = (TryDisconnected, w') \<Longrightarrow>
    thread_step E sys fd q cb limit (k, Looping (Suc n), w) (k, Finished, cb Closed w')"
| ts_limit: "thread_step E sys fd q cb limit (k, Looping 0, w) (k, Waiting, eventfd_ping E sys fd w)"

inductive_cases thread_stepE: "thread_step E sys fd q cb limit (k, pc, w) s'"

text \<open>Something waits for the receiver only if it, or a thread in a call, or a ping will see to it.\<close>

definition threads_sound :: "('p \<Rightarrow> u64) \<Rightarrow> ('w, 'p) access \<Rightarrow> ('w, 'm mpsc) access \<Rightarrow> nat \<times> receiver \<times> 'w \<Rightarrow> bool" where
  "threads_sound counter sys q = (\<lambda>(k, pc, w).
     0 < k \<or> pc \<noteq> Waiting \<or> 2 \<le> unat (counter (acc_get sys w)) \<or>
     mq_msgs (acc_get q w) = [] \<and> mq_senders (acc_get q w) \<noteq> 0)"

locale channel_threads =
  fixes E :: "'p eventfd_ops" and sys :: "('w, 'p) access" and fd :: raw_fd and counter :: "'p \<Rightarrow> u64"
    and q :: "('w, 'm mpsc) access" and cb :: "'m event \<Rightarrow> 'w \<Rightarrow> 'w"
  assumes eventfd: "eventfd_contract E fd counter"
    and parts: "access_ok sys" "access_ok q" "access_apart sys q"
    and callback: "acc_get q (cb ev w) = acc_get q w" "acc_get sys (cb ev w) = acc_get sys w"
begin

abbreviation steps :: "nat \<Rightarrow> nat \<times> receiver \<times> 'w \<Rightarrow> nat \<times> receiver \<times> 'w \<Rightarrow> bool" where
  "steps limit \<equiv> (thread_step E sys fd q cb limit)\<^sup>*\<^sup>*"

lemma queue_kernel: "eventfd_kernel E sys fd counter (acc_get q)"
  by unfold_locales (simp_all add: eventfd parts access_apart_simps [OF parts(3)])

lemma ping_pends: "2 \<le> unat (counter (acc_get sys (eventfd_ping E sys fd w)))"
  by (rule ping_backend.ping_pends [OF eventfd_kernel.is_ping_backend [OF queue_kernel]])

lemma drained:
  assumes "eventfd_drain_ping E sys fd w = (Ok c, w')"
  shows "c = counter (acc_get sys w)" and "acc_get q w' = acc_get q w"
proof -
  obtain r p' where read: "ef_read E (acc_get sys w) fd = (r, p')"
      "counter (acc_get sys w) = 0 \<Longrightarrow> r = Inl WouldBlock" "counter (acc_get sys w) \<noteq> 0 \<Longrightarrow> r = Inr (8, counter (acc_get sys w))"
    by (rule eventfd_contract_read [OF eventfd, of "acc_get sys w"]) blast
  then have "r = Inr (8, counter (acc_get sys w))"
    using assms by (cases "counter (acc_get sys w) = 0") (auto simp: eventfd_drain_ping_def on_component_def)
  with read(1) assms show "c = counter (acc_get sys w)" "acc_get q w' = acc_get q w"
    by (auto simp: eventfd_drain_ping_def on_component_def access_apart_simps [OF parts(3)])
qed

lemma step_sound: "thread_step E sys fd q cb limit s s' \<Longrightarrow> threads_sound counter sys q s \<Longrightarrow> threads_sound counter sys q s'"
proof (induction rule: thread_step.induct)
  case (ts_clone w k pc)
  then show ?case using parts by (auto simp: threads_sound_def sender_clone_def access_ok_simps access_apart_simps)
next
  case (ts_ping k pc w)
  then show ?case using ping_pends [of w] by (simp add: threads_sound_def)
next
  case (ts_drain w c w' k)
  then show ?case using drained [OF ts_drain(1)] by (auto simp: threads_sound_def)
next
  case (ts_empty w w' k n)
  then show ?case using parts
    by (auto simp: threads_sound_def channel_try_recv_def on_component_def mpsc_try_recv_def access_ok_simps
        split: list.splits if_splits)
next
  case (ts_limit k w)
  then show ?case using ping_pends [of w] by (simp add: threads_sound_def)
qed (simp_all add: threads_sound_def)

lemma steps_sound: "steps limit s s' \<Longrightarrow> threads_sound counter sys q s \<Longrightarrow> threads_sound counter sys q s'"
  by (induction rule: rtranclp_induct) (auto intro: step_sound)

text \<open>The sequential code takes these steps.\<close>

lemma two_steps:
  "thread_step E sys fd q cb limit s s1 \<Longrightarrow> thread_step E sys fd q cb limit s1 s2 \<Longrightarrow> steps limit s s2"
  by (meson r_into_rtranclp rtranclp.rtrancl_into_rtrancl)

lemma send_steps:
  assumes "sender_send q (eventfd_ping E sys fd) m w = (Ok (), w')" shows "steps limit (k, pc, w) (k, pc, w')"
proof -
  from assms obtain w1 where w1: "on_component q (mpsc_send m) w = (Ok (), w1)" "w' = eventfd_ping E sys fd w1"
    by (auto simp: sender_send_def split: prod.splits outcome.splits)
  show ?thesis unfolding w1(2) by (rule two_steps, rule ts_push, rule w1(1), rule ts_ping)
qed

lemma drop_steps: "steps limit (k, pc, w) (k, pc, sender_drop q (eventfd_ping E sys fd) w)"
  unfolding sender_drop_def ping_on_drop_def by (rule two_steps, rule ts_release, rule ts_ping)

text \<open>The loop of \<open>process_events\<close>, with the ping that the source sends itself at the limit.\<close>

lemma recv_loop_steps:
  "recv_loop q cb n (False, False) w = ((clear_readiness, disconnected), w') \<Longrightarrow>
   steps limit (k, Looping n, w)
     (k, if disconnected then Finished else Waiting, if clear_readiness \<or> disconnected then w' else eventfd_ping E sys fd w')"
proof (induction n arbitrary: w)
  case 0
  then show ?case using r_into_rtranclp [of "thread_step E sys fd q cb limit", OF ts_limit] by auto
next
  case (Suc n)
  obtain r w1 where r: "channel_try_recv q w = (r, w1)" by force
  show ?case
  proof (cases r)
    case (TryOk m)
    with Suc.prems r have "recv_loop q cb n (False, False) (cb (Msg m) w1) = ((clear_readiness, disconnected), w')" by simp
    note ih = Suc.IH [OF this]
    have "thread_step E sys fd q cb limit (k, Looping (Suc n), w) (k, Looping n, cb (Msg m) w1)"
      using r TryOk by (intro ts_recv) simp
    then show ?thesis using ih by (rule converse_rtranclp_into_rtranclp)
  next
    case TryEmpty
    with r have "steps limit (k, Looping (Suc n), w) (k, Waiting, w1)" by (intro r_into_rtranclp ts_empty) simp
    with Suc.prems r TryEmpty show ?thesis by auto
  next
    case TryDisconnected
    with r have "steps limit (k, Looping (Suc n), w) (k, Finished, cb Closed w1)" by (intro r_into_rtranclp ts_closed) simp
    with Suc.prems r TryDisconnected show ?thesis by auto
  qed
qed

lemma drain_reads:
  assumes "2 \<le> unat (counter (acc_get sys w))"
  obtains w1 where "eventfd_drain_ping E sys fd w = (Ok (counter (acc_get sys w)), w1)"
proof (rule eventfd_contract_read [OF eventfd, of "acc_get sys w"])
  fix r p'
  assume "ef_read E (acc_get sys w) fd = (r, p')"
    and "counter (acc_get sys w) \<noteq> 0 \<Longrightarrow> r = Inr (8, counter (acc_get sys w)) \<and> counter p' = 0"
  moreover have "counter (acc_get sys w) \<noteq> 0" using assms by auto
  ultimately show thesis by (intro that [of "acc_put sys p' w"]) (simp add: eventfd_drain_ping_def on_component_def)
qed

lemma process_steps:
  assumes "gn_file (ch_source ch) = Some fd" and "gn_token (ch_source ch) = Some t" and "2 \<le> unat (counter (acc_get sys w))"
    and "limit = channel_max (ch_capacity ch)"
    and "channel_process (eventfd_process E sys) (eventfd_ping E sys fd) q cb ch rd t w = (r, ch', w')"
  shows "\<exists>pc. pc \<in> {Waiting, Finished} \<and> steps limit (k, Waiting, w) (k, pc, w')"
proof -
  obtain w1 where w1: "eventfd_drain_ping E sys fd w = (Ok (counter (acc_get sys w)), w1)" using drain_reads [OF assms(3)] by blast
  obtain clear_readiness disconnected w2 where l: "recv_loop q cb limit (False, False) w1 = ((clear_readiness, disconnected), w2)"
    by (metis prod.collapse)
  have src: "(ch_source ch)\<lparr>gn_file := Some fd\<rparr> = ch_source ch" using assms(1) by (cases "ch_source ch") simp
  have flag: "(counter (acc_get sys w) AND (- 2)) \<noteq> 0" using assms(3) ping_flag_zero by blast
  have "w' = (if clear_readiness \<or> disconnected then w2 else eventfd_ping E sys fd w2)"
    using assms w1 l src flag
    by (auto simp: channel_process_def eventfd_process_def generic_process_def eventfd_on_ready_def Let_def split: if_splits)
  then have run: "steps limit (k, Looping limit, w1) (k, if disconnected then Finished else Waiting, w')"
    using recv_loop_steps [OF l, of limit k] by (simp only:)
  have "thread_step E sys fd q cb limit (k, Waiting, w) (k, Looping limit, w1)"
    using ts_drain [OF w1, of q cb limit k] assms(3) by simp
  then have "steps limit (k, Waiting, w) (k, if disconnected then Finished else Waiting, w')"
    using run by (rule converse_rtranclp_into_rtranclp)
  then show ?thesis by (intro exI [of _ "if disconnected then Finished else Waiting"]) simp
qed

end

interpretation linux_threads: channel_threads EFK first_component fd "\<lambda>k. k fd" queue_component "\<lambda>_ w. w" for fd
  by unfold_locales (simp_all add: EFK_contract access_ok_def access_apart_def first_component_def queue_component_def)

section \<open>No interleaving strands a message\<close>

text \<open>
  C16: however the steps of senders on other threads and of the receiver are interleaved, a message
  in the queue or the end of the last sender is never stranded: when the receiver waits and no
  sender is in the middle of a call, the eventfd is readable. The calls of the code are runs of these
  steps: a send, the drop of a sender, and an event of the channel.
\<close>

theorem channel_threads_never_strand:
  assumes "channel_threads E sys fd counter q cb" and "mq_msgs (acc_get q w0) = []" and "mq_senders (acc_get q w0) \<noteq> 0"
    and "(thread_step E sys fd q cb limit)\<^sup>*\<^sup>* (0, Waiting, w0) (k, pc, w)"
  shows "(k = 0 \<and> pc = Waiting \<and> (mq_msgs (acc_get q w) \<noteq> [] \<or> mq_senders (acc_get q w) = 0) \<longrightarrow>
      2 \<le> unat (counter (acc_get sys w))) \<and>
    (sender_send q (eventfd_ping E sys fd) m w = (Ok (), w1) \<longrightarrow>
      (thread_step E sys fd q cb limit)\<^sup>*\<^sup>* (k, pc, w) (k, pc, w1)) \<and>
    (thread_step E sys fd q cb limit)\<^sup>*\<^sup>* (k, pc, w) (k, pc, sender_drop q (eventfd_ping E sys fd) w) \<and>
    (pc = Waiting \<and> 2 \<le> unat (counter (acc_get sys w)) \<and> gn_file (ch_source ch) = Some fd \<and> gn_token (ch_source ch) = Some t \<and>
      limit = channel_max (ch_capacity ch) \<and>
      channel_process (eventfd_process E sys) (eventfd_ping E sys fd) q cb ch rd t w = (r, ch', w2) \<longrightarrow>
      (\<exists>pc'. pc' \<in> {Waiting, Finished} \<and> (thread_step E sys fd q cb limit)\<^sup>*\<^sup>* (k, pc, w) (k, pc', w2)))"
proof -
  have "threads_sound counter sys q (0, Waiting, w0)" using assms(2,3) by (simp add: threads_sound_def)
  then have "threads_sound counter sys q (k, pc, w)" using channel_threads.steps_sound [OF assms(1,4)] by blast
  then show ?thesis
    using channel_threads.send_steps [OF assms(1)] channel_threads.drop_steps [OF assms(1)]
      channel_threads.process_steps [OF assms(1)]
    by (auto simp: threads_sound_def)
qed

theorem channel_threads_never_strand_witness:
  "\<exists>w :: (raw_fd \<Rightarrow> u64) \<times> nat mpsc.
     (thread_step EFK first_component 3 queue_component (\<lambda>_ w. w) 1024)\<^sup>*\<^sup>*
       (0, Waiting, (\<lambda>_. 0, \<lparr>mq_msgs = [], mq_senders = 1, mq_receiver = True, mq_bound = None\<rparr>)) (0, Waiting, w) \<and>
     mq_msgs (snd w) = [5] \<and> 2 \<le> unat (fst w 3)"
proof -
  let ?empty = "(\<lambda>_. 0, \<lparr>mq_msgs = [], mq_senders = 1, mq_receiver = True, mq_bound = None\<rparr>) :: (raw_fd \<Rightarrow> u64) \<times> nat mpsc"
  let ?full = "(\<lambda>_. 0, \<lparr>mq_msgs = [5], mq_senders = 1, mq_receiver = True, mq_bound = None\<rparr>) :: (raw_fd \<Rightarrow> u64) \<times> nat mpsc"
  let ?pinged = "eventfd_ping EFK first_component 3 ?full"
  have push: "on_component queue_component (mpsc_send 5) ?empty = (Ok (), ?full)"
    by (simp add: on_component_def queue_component_def mpsc_send_def mpsc_push_def)
  have run: "(thread_step EFK first_component 3 queue_component (\<lambda>_ w. w) 1024)\<^sup>*\<^sup>* (0, Waiting, ?empty) (0, Waiting, ?pinged)"
  proof (rule linux_threads.two_steps)
    show "thread_step EFK first_component 3 queue_component (\<lambda>_ w. w) 1024 (0, Waiting, ?empty) (Suc 0, Waiting, ?full)"
      by (rule ts_push [OF push])
    show "thread_step EFK first_component 3 queue_component (\<lambda>_ w. w) 1024 (Suc 0, Waiting, ?full) (0, Waiting, ?pinged)"
      by (rule ts_ping)
  qed
  have start: "mq_msgs (acc_get queue_component ?empty) = []" "mq_senders (acc_get queue_component ?empty) \<noteq> 0"
    by (simp_all add: queue_component_def)
  have msgs: "mq_msgs (snd ?pinged) = [5]"
    using linux.ping_effect(1) [of 3 ?full] by simp
  then have "mq_msgs (acc_get queue_component ?pinged) \<noteq> []" by (simp add: queue_component_def)
  then have "2 \<le> unat (fst ?pinged 3)"
    using channel_threads_never_strand [OF linux_threads.channel_threads_axioms start run, THEN conjunct1]
    by (simp add: first_component_def)
  with run msgs show ?thesis by blast
qed

end
