(* ===== verification/Single_Source.thy ===== *)
theory Single_Source
  imports Dispatch
begin

text \<open>
  Dispatches in which at most one event is reported, for the end-to-end properties of single
  sources, and dispatches in a row.
\<close>

fun dispatches :: "'p poller_ops \<Rightarrow> ('s, 'i, 'p, 'd) loop_ops
    \<Rightarrow> ('i \<Rightarrow> ('s, 'i, 'p, 'd) loop_state \<Rightarrow> ('s, 'i, 'p, 'd) loop_state) \<Rightarrow> nat \<Rightarrow> duration option \<Rightarrow> nat
    \<Rightarrow> ('s, 'i, 'p, 'd) loop_state \<Rightarrow> unit cresult \<times> ('s, 'i, 'p, 'd) loop_state" where
  "dispatches K ops run_idle n timeout 0 L = (Ok (), L)"
| "dispatches K ops run_idle n timeout (Suc k) L =
     and_then (dispatch K ops run_idle n timeout L) (\<lambda>_ L'. dispatches K ops run_idle n timeout k L')"

text \<open>The key of a 64-bit poller gives the token back.\<close>

lemma key_token: "token_of_usize (usize_of_token t :: usize) = t"
  by (rule token_roundtrip_width [of 64]) simp_all

lemma drain_no_timers: "tw_heap w = [] \<Longrightarrow> drain_expired now w = ([], w)"
  by (simp add: drain_expired.simps [of now w] wheel_next_expired_def)

lemma dispatch_no_idles: "lp_idles L = [] \<Longrightarrow> dispatch_idles run_idle L = L"
  by (simp add: dispatch_idles_def)

lemma and_then_unit: "and_then q (\<lambda>_ L. (Ok (), L)) = q"
  by (cases q; cases "fst q") auto

lemma dispatch_list_Nil: "dispatch_list K ops [] = Pair (Ok ())"
  by (rule ext) simp

lemma dispatch_events_none:
  assumes "lp_lifecycle L = []" and "loop_poll K n (pl_now K (poller (lp_poll L))) timeout L = (Ok (Some []), L1)"
    and "lp_lifecycle L1 = []" and "lp_synthetic L1 = []"
  shows "dispatch_events K ops n timeout L = (Ok (), L1)"
  using assms by (simp add: dispatch_events_def Let_def)

lemma dispatch_events_single:
  assumes "lp_lifecycle L = []" and "loop_poll K n (pl_now K (poller (lp_poll L))) timeout L = (Ok (Some [ev]), L1)"
    and "lp_lifecycle L1 = []" and "lp_synthetic L1 = []"
    and "forget_sub_id (pe_token ev) = t" and "sl_lookup (lp_sources L1) t = Some d"
    and "disp_process ops d (pe_readiness ev) (pe_token ev) L1 = (Ok act, L2)" and "lp_pending L2 = Continue"
  shows "dispatch_events K ops n timeout L =
    and_then (apply_post_action K ops t d act L2) (\<lambda>_ L3. unregister_if_removed K ops t d L3)"
proof -
  have same: "L1\<lparr>lp_synthetic := []\<rparr> = L1" "L2\<lparr>lp_pending := Continue\<rparr> = L2" using assms(4,8) by simp_all
  have taken: "take_pending act L2 = (act, L2)" unfolding take_pending_def same(2) using assms(8) by simp
  have "dispatch_event K ops ev L1 = and_then (apply_post_action K ops t d act L2) (\<lambda>_ L3. unregister_if_removed K ops t d L3)"
    unfolding dispatch_event_def assms(5) Let_def assms(6) option.case assms(7) and_then.simps taken prod.case ..
  moreover have "dispatch_events K ops n timeout L = and_then (dispatch_event K ops ev L1) (\<lambda>_ L4. (Ok (), L4))"
    using assms(1-4) by (simp add: dispatch_events_def same(1) dispatch_list_Nil Let_def)
  ultimately show ?thesis by (simp add: and_then_unit)
qed

text \<open>With \<open>Continue\<close> the state stays; with \<open>Remove\<close> the slot is emptied and the source unregistered.\<close>

lemma dispatch_continues:
  assumes "lp_lifecycle L = []" and "loop_poll K n (pl_now K (poller (lp_poll L))) timeout L = (Ok (Some [ev]), L1)"
    and "lp_lifecycle L1 = []" and "lp_synthetic L1 = []"
    and "forget_sub_id (pe_token ev) = t" and "sl_lookup (lp_sources L1) t = Some d"
    and "disp_process ops d (pe_readiness ev) (pe_token ev) L1 = (Ok Continue, L2)" and "lp_pending L2 = Continue"
    and "sl_lookup (lp_sources L2) t \<noteq> None" and "lp_idles L2 = []"
  shows "dispatch K ops run_idle n timeout L = (Ok (), L2)"
  using dispatch_events_single [OF assms(1-8)] assms(9,10)
  by (simp add: dispatch_def dispatch_no_idles apply_post_action_def unregister_if_removed_def)

lemma dispatch_removes:
  assumes "lp_lifecycle L = []" and "loop_poll K n (pl_now K (poller (lp_poll L))) timeout L = (Ok (Some [ev]), L1)"
    and "lp_lifecycle L1 = []" and "lp_synthetic L1 = []"
    and "forget_sub_id (pe_token ev) = t" and "sl_lookup (lp_sources L1) t = Some d"
    and "disp_process ops d (pe_readiness ev) (pe_token ev) L1 = (Ok Remove, L2)" and "lp_pending L2 = Continue"
    and "loop_unregister K ops d t (L2\<lparr>lp_sources := sl_release t (lp_sources L2)\<rparr>) = (Ok b, L3)" and "lp_idles L3 = []"
  shows "sl_lookup (sl_release t (lp_sources L2)) t = None \<and> dispatch K ops run_idle n timeout L = (Ok (), L3)"
proof -
  have none: "sl_lookup (sl_release t (lp_sources L2)) t = None"
    by (auto simp: sl_release_eq sl_lookup_def sl_get_def vec_get_def source_set_source split: option.splits)
  with dispatch_events_single [OF assms(1-8)] assms(9,10) show ?thesis
    by (simp add: dispatch_def dispatch_no_idles apply_post_action_def unregister_if_removed_def log_error_def)
qed

text \<open>A cell that was lent to its source and given back.\<close>

lemma cell_given_back:
  assumes "lp_cells L' = (lp_cells L)[d := c]" and "lp_cells L ! d = c'"
  shows "lp_cells (set_cell d c' L') = lp_cells L"
  using assms by (simp add: set_cell_def) (metis list_update_id)

end
