(* ===== verification/Reference_System.thy ===== *)
theory Reference_System
  imports Ping_Eventfd Single_Source
begin

text \<open>A concrete system, on which the contracts of the end-to-end theories are shown to hold together.\<close>

text \<open>
  A poller that reports the registered readable eventfds, one counter for each descriptor, a
  clock that a wait without events moves on by its timeout, and the number of the next descriptor.
\<close>

record linux =
  lx_regs :: "(raw_fd \<times> pevent \<times> poll_mode) list"
  lx_counters :: "raw_fd \<Rightarrow> u64"
  lx_now :: instant
  lx_next :: raw_fd

definition lx_table :: "linux \<Rightarrow> raw_fd \<rightharpoonup> pevent \<times> poll_mode" where
  "lx_table p = map_of (lx_regs p)"

definition lx_ready :: "linux \<Rightarrow> pevent list" where
  "lx_ready p = map (\<lambda>fd. fst (the (lx_table p fd)))
     (filter (\<lambda>fd. lx_counters p fd \<noteq> 0 \<and> ev_readable (fst (the (lx_table p fd)))) (remdups (map fst (lx_regs p))))"

definition lx_wait :: "linux \<Rightarrow> duration option \<Rightarrow> (io_error + pevent list) \<times> linux" where
  "lx_wait p timeout =
     (let evs = lx_ready p in
      (Inr evs, if evs = [] then p\<lparr>lx_now := lx_now p + (case timeout of Some t \<Rightarrow> t | None \<Rightarrow> 0)\<rparr> else p))"

definition LXP :: "linux poller_ops" where
  "LXP = \<lparr>pl_now = lx_now, pl_supports_level = (\<lambda>_. True),
     pl_add = (\<lambda>p fd ev m. if lx_table p fd = None then (Inr (), p\<lparr>lx_regs := (fd, ev, m) # lx_regs p\<rparr>) else (Inl AlreadyExists, p)),
     pl_modify = (\<lambda>p fd ev m. if lx_table p fd = None then (Inl NotFound, p) else (Inr (), p\<lparr>lx_regs := (fd, ev, m) # lx_regs p\<rparr>)),
     pl_delete = (\<lambda>p fd. if lx_table p fd = None then (Inl NotFound, p)
        else (Inr (), p\<lparr>lx_regs := filter (\<lambda>(fd', _). fd' \<noteq> fd) (lx_regs p)\<rparr>)),
     pl_wait = lx_wait,
     pl_notify = (\<lambda>p. (Inr (), p))\<rparr>"

definition on_counters :: "((raw_fd \<Rightarrow> u64) \<Rightarrow> 'a \<times> (raw_fd \<Rightarrow> u64)) \<Rightarrow> linux \<Rightarrow> 'a \<times> linux" where
  "on_counters f p = (case f (lx_counters p) of (r, c) \<Rightarrow> (r, p\<lparr>lx_counters := c\<rparr>))"

definition LXE :: "linux eventfd_ops" where
  "LXE = \<lparr>ef_create = (\<lambda>p. (Inr (lx_next p), p\<lparr>lx_counters := (lx_counters p)(lx_next p := 0), lx_next := lx_next p + 1\<rparr>)), ef_write = (\<lambda>p fd v. on_counters (\<lambda>k. ef_write EFK k fd v) p),
     ef_read = (\<lambda>p fd. on_counters (\<lambda>k. ef_read EFK k fd) p)\<rparr>"

lemma map_of_filter_fst: "map_of (filter (\<lambda>(k, _). k \<noteq> x) xs) = (map_of xs)(x := None)"
  by (induction xs) auto

lemma lx_ready_registered:
  assumes "ev \<in> set (lx_ready p)" shows "\<exists>fd m. lx_table p fd = Some (ev, m)"
proof -
  from assms obtain fd where "fd \<in> fst ` set (lx_regs p)" "ev = fst (the (lx_table p fd))" by (auto simp: lx_ready_def)
  then show ?thesis by (metis lx_table_def map_of_eq_None_iff not_None_eq option.sel prod.collapse)
qed

lemma LXP_contract: "poller_contract LXP lx_table"
proof -
  have wait: "\<forall>ev \<in> set (lx_ready p). \<exists>fd e. (\<exists>m. lx_table p fd = Some (e, m)) \<and> ev_key e = ev_key ev" for p
    using lx_ready_registered by blast
  show ?thesis
    unfolding poller_contract_def by (simp add: LXP_def lx_wait_def wait Let_def) (simp add: lx_table_def map_of_filter_fst)
qed

lemma LXE_contract: "eventfd_contract LXE fd (\<lambda>p. lx_counters p fd)"
  by (simp add: eventfd_contract_def LXE_def EFK_def on_counters_def)

lemma distinct_singleton: "distinct xs \<Longrightarrow> set xs = {x} \<Longrightarrow> xs = [x]"
  by (cases xs; cases "tl xs") auto

lemma lx_ready_single:
  assumes "lx_table p = [fd \<mapsto> (ev, m)]" and "ev_readable ev" and "lx_counters p fd \<noteq> 0"
  shows "lx_ready p = [ev]"
proof -
  have "set (remdups (map fst (lx_regs p))) = {fd}"
    using dom_map_of_conv_image_fst [of "lx_regs p"] assms(1) by (simp add: lx_table_def)
  then have "remdups (map fst (lx_regs p)) = [fd]"
    using distinct_singleton [of "remdups (map fst (lx_regs p))" fd] by simp
  with assms show ?thesis by (simp add: lx_ready_def)
qed

end
