(* ===== verification/Ping_Loop.thy ===== *)
theory Ping_Loop
  imports Reference_System
begin

text \<open>
  Sources of a loop that are woken by an eventfd, end to end: the system with its poller and its
  eventfd, the loop that serves one such source, and one dispatch of it. Clients are the channel and
  the executor.
\<close>

section \<open>Components of the loop's state\<close>

definition in_data :: "('d, 'x) access \<Rightarrow> (('s, 'i, 'p, 'd) loop_state, 'x) access" where
  "in_data a = \<lparr>acc_get = (\<lambda>L. acc_get a (lp_data L)), acc_put = (\<lambda>x L. L\<lparr>lp_data := acc_put a x (lp_data L)\<rparr>)\<rparr>"

lemma in_data_simps [simp]:
  "acc_get (in_data a) L = acc_get a (lp_data L)"
  "acc_put (in_data a) x L = L\<lparr>lp_data := acc_put a x (lp_data L)\<rparr>"
  by (simp_all add: in_data_def)

lemma loop_system_simps [simp]:
  "acc_get loop_system L = poller (lp_poll L)"
  "acc_put loop_system p L = L\<lparr>lp_poll := (lp_poll L)\<lparr>poller := p\<rparr>\<rparr>"
  by (simp_all add: loop_system_def)

lemma in_data_ok:
  "access_ok a \<Longrightarrow> access_ok (in_data a)"
  "access_apart a b \<Longrightarrow> access_apart (in_data a) (in_data b)"
  "access_apart loop_system (in_data a)"
  by (simp_all add: access_ok_def access_apart_def)

definition pair_first :: "('a \<times> 'b, 'a) access" where
  "pair_first = \<lparr>acc_get = fst, acc_put = (\<lambda>a w. (a, snd w))\<rparr>"

definition pair_second :: "('a \<times> 'b, 'b) access" where
  "pair_second = \<lparr>acc_get = snd, acc_put = (\<lambda>b w. (fst w, b))\<rparr>"

lemma pair_ok: "access_ok pair_first" "access_ok pair_second" "access_apart pair_first pair_second"
  by (simp_all add: pair_first_def pair_second_def access_ok_def access_apart_def)

section \<open>A system with a poller and an eventfd\<close>

text \<open>
  epoll(7) and eventfd(2) together: registering a descriptor that is not registered and deleting
  one that is succeed; the poller's calls leave the counter alone, those on the eventfd the
  registrations; and a wait reports at once the only registered descriptor when it is registered
  for reading, level-triggered, and its counter is not zero.
\<close>

locale eventfd_system =
  fixes K :: "'p poller_ops" and E :: "'p eventfd_ops" and regs :: "'p \<Rightarrow> raw_fd \<rightharpoonup> pevent \<times> poll_mode"
    and fd :: raw_fd and counter :: "'p \<Rightarrow> u64"
  assumes poller: "poller_contract K regs"
    and eventfd: "eventfd_contract E fd counter"
    and supports_level: "pl_supports_level K p"
    and add_succeeds: "regs p fd = None \<Longrightarrow> fst (pl_add K p fd ev m) = Inr ()"
    and delete_succeeds: "regs p fd \<noteq> None \<Longrightarrow> fst (pl_delete K p fd) = Inr ()"
    and counter_kept: "counter (snd (pl_add K p fd ev m)) = counter p" "counter (snd (pl_delete K p fd)) = counter p"
      "counter (snd (pl_wait K p timeout)) = counter p"
    and regs_kept: "regs (snd (ef_write E p fd v)) = regs p" "regs (snd (ef_read E p fd)) = regs p"
    and reports: "regs p = [fd \<mapsto> (ev, PollLevel)] \<Longrightarrow> ev_readable ev \<Longrightarrow> \<not> ev_writable ev \<Longrightarrow> counter p \<noteq> 0 \<Longrightarrow>
      \<exists>p'. pl_wait K p timeout = (Inr [ev], p') \<and> regs p' = regs p"

text \<open>What the calls of such a source leave alone.\<close>

definition loop_frame :: "('p \<Rightarrow> 'r) \<Rightarrow> ('s, 'i, 'p, 'd) loop_state \<Rightarrow> nat source_list \<times> 's cell list \<times> registration_token list \<times>
    nat list \<times> post_action \<times> poll_event list \<times> level_map option \<times> timer_wheel \<times> 'r" where
  "loop_frame regs L = (lp_sources L, lp_cells L, lp_lifecycle L, lp_idles L, lp_pending L, lp_synthetic L,
     level_triggered (lp_poll L), timers (lp_poll L), regs (poller (lp_poll L)))"

text \<open>
  A loop whose only registered source is \<open>s\<close>, with the eventfd source \<open>g\<close> inside it, dispatcher \<open>d\<close>
  under the token \<open>t\<close>.
\<close>

definition serving :: "('p \<Rightarrow> raw_fd \<rightharpoonup> pevent \<times> poll_mode) \<Rightarrow> raw_fd \<Rightarrow> eventfd_source \<Rightarrow> 's \<Rightarrow> nat \<Rightarrow> token
    \<Rightarrow> ('s, 'i, 'p, 'd) loop_state \<Rightarrow> bool" where
  "serving regs fd g s d t L \<longleftrightarrow>
     lp_lifecycle L = [] \<and> lp_synthetic L = [] \<and> lp_idles L = [] \<and> lp_pending L = Continue \<and>
     sl_lookup (lp_sources L) t = Some d \<and> tok_sub_id t = 0 \<and> d < length (lp_cells L) \<and>
     lp_cells L ! d = \<lparr>cell_val = SourceDisp \<lparr>di_source = s, di_needs = False\<rparr>, cell_borrowed = False\<rparr> \<and>
     gn_file g = Some fd \<and> gn_token g = Some t \<and>
     regs (poller (lp_poll L)) = [fd \<mapsto> (cvt_interest Interest_READ t, PollLevel)] \<and>
     tw_heap (timers (lp_poll L)) = [] \<and> level_triggered (lp_poll L) = None"

lemma serving_frame: "loop_frame regs L' = loop_frame regs L \<Longrightarrow> serving regs fd g s d t L' = serving regs fd g s d t L"
  by (simp add: loop_frame_def serving_def)

abbreviation efd_count :: "('p \<Rightarrow> u64) \<Rightarrow> ('s, 'i, 'p, 'd) loop_state \<Rightarrow> u64" where
  "efd_count counter L \<equiv> counter (poller (lp_poll L))"

context eventfd_system
begin

text \<open>The wait reports the source's event, with the token it was registered under.\<close>

lemma poll_reports:
  assumes "serving regs fd g s d t L" and "efd_count counter L \<noteq> 0" and "0 < n"
  shows "\<exists>L'. loop_poll K n now timeout L = (Ok (Some [timer_event t]), L') \<and>
    loop_frame regs L' = loop_frame regs L \<and> efd_count counter L' = efd_count counter L \<and> lp_data L' = lp_data L"
proof -
  let ?P = "lp_poll L" and ?ev = "cvt_interest Interest_READ t"
  have sv: "regs (poller ?P) = [fd \<mapsto> (?ev, PollLevel)]" "tw_heap (timers ?P) = []" "level_triggered ?P = None"
    using assms(1) by (simp_all add: serving_def)
  have ev: "ev_readable ?ev" "\<not> ev_writable ?ev" "token_of_usize (ev_key ?ev) = t"
    by (simp_all add: cvt_interest_def Interest_READ_def key_token)
  obtain p' where p': "pl_wait K (poller ?P) (poll_timeout K ?P timeout) = (Inr [?ev], p')" "regs p' = regs (poller ?P)"
    using reports [OF sv(1) ev(1,2) assms(2)] by blast
  have "event_of_pevent ?ev = timer_event t" using ev by (simp add: event_of_pevent_def timer_event_def)
  then have "Poll_poll K timeout ?P = (Ok [timer_event t], ?P\<lparr>poller := p'\<rparr>)"
    using p'(1) sv by (simp add: Poll_poll_def rearm_def drain_no_timers)
  moreover obtain k where "n = Suc k" using assms(3) by (cases n) auto
  ultimately have "loop_poll K n now timeout L = (Ok (Some [timer_event t]), L\<lparr>lp_poll := ?P\<lparr>poller := p'\<rparr>\<rparr>)"
    by (simp add: loop_poll_def)
  with p' counter_kept(3) [of "poller ?P" "poll_timeout K ?P timeout"] show ?thesis by (simp add: loop_frame_def)
qed

text \<open>A ping, from outside or from within an event.\<close>

lemma ping_kernel: "eventfd_kernel E loop_system fd counter (\<lambda>L. (loop_frame regs L, lp_data L))"
  by unfold_locales (simp_all add: eventfd loop_frame_def regs_kept)

lemma ping_in_loop:
  "loop_frame regs (eventfd_ping E loop_system fd L) = loop_frame regs L"
  "lp_data (eventfd_ping E loop_system fd L) = lp_data L"
  "even (efd_count counter L) \<Longrightarrow> even (efd_count counter (eventfd_ping E loop_system fd L)) \<and>
     2 \<le> unat (efd_count counter (eventfd_ping E loop_system fd L))"
proof -
  show "loop_frame regs (eventfd_ping E loop_system fd L) = loop_frame regs L"
    "lp_data (eventfd_ping E loop_system fd L) = lp_data L"
    using eventfd_kernel.ping_effect(1) [OF ping_kernel, of L] by simp_all
  show "even (efd_count counter (eventfd_ping E loop_system fd L)) \<and>
      2 \<le> unat (efd_count counter (eventfd_ping E loop_system fd L))" if "even (efd_count counter L)"
    using that eventfd_kernel.ping_effect(2) [OF ping_kernel, of L] eventfd_kernel.is_ping_backend [OF ping_kernel]
      ping_backend.ping_pends [OF eventfd_kernel.is_ping_backend [OF ping_kernel], of L]
    by (simp split: if_splits)
qed

end

section \<open>Sources around an eventfd\<close>

text \<open>The source \<open>s\<close> delegates its registration to the eventfd source \<open>ping_of s\<close>.\<close>

locale pinged_source = eventfd_system K E regs fd counter
  for K :: "'p poller_ops" and E :: "'p eventfd_ops" and regs :: "'p \<Rightarrow> raw_fd \<rightharpoonup> pevent \<times> poll_mode"
    and fd :: raw_fd and counter :: "'p \<Rightarrow> u64" +
  fixes ops :: "('s, 'i, 'p, 'd) loop_ops"
    and ping_of :: "'s \<Rightarrow> eventfd_source"
    and with_ping :: "eventfd_source \<Rightarrow> 's \<Rightarrow> 's"
  assumes registers: "so_register ops s P tf =
      (case eventfd_register K (ping_of s) P tf of (r, g, P', tf') \<Rightarrow> (r, with_ping g s, P', tf'))"
    and unregisters: "so_unregister ops s P =
      (case eventfd_unregister K (ping_of s) P of (r, g, P') \<Rightarrow> (r, with_ping g s, P'))"
    and plain: "so_needs_extra ops s = False"
    and ping_of_with: "ping_of (with_ping g s) = g"
begin

text \<open>The first source of a new loop.\<close>

lemma insert_serves:
  fixes p :: 'p
  assumes "try_new K (Inr p) dat = Ok L" and "regs p = Map.empty" and "ping_of s = Generic_new fd Interest_READ Level"
  shows "\<exists>L' t g. insert_source ops s L = (Ok t, L') \<and> serving regs fd g (with_ping g s) 0 t L' \<and>
    lp_data L' = dat \<and> efd_count counter L' = counter p"
proof -
  let ?t = "\<lparr>tok_id = 0, tok_version = 0, tok_sub_id = 0\<rparr> :: token_inner"
  let ?g = "(Generic_new fd Interest_READ Level)\<lparr>gn_poller := True, gn_token := Some ?t\<rparr>"
  have L: "L = \<lparr>lp_poll = \<lparr>poller = p, level_triggered = None, timers = TimerWheel_new\<rparr>, lp_sources = [], lp_cells = [],
      lp_lifecycle = [], lp_idles = [], lp_idle_cells = [], lp_pending = Continue, lp_stop = False, lp_future_ready = False,
      lp_synthetic = [], lp_woken = [], lp_data = dat\<rparr>"
    using assms(1) by (simp add: try_new_def Poll_new_def Poll_new_inner_def supports_level SourceList_new_def)
  obtain p' where p': "pl_add K p fd (cvt_interest Interest_READ ?t) PollLevel = (Inr (), p')"
    using add_succeeds [of p "cvt_interest Interest_READ ?t" PollLevel] assms(2)
    by (cases "pl_add K p fd (cvt_interest Interest_READ ?t) PollLevel") auto
  have R: "regs p' = [fd \<mapsto> (cvt_interest Interest_READ ?t, PollLevel)]" "counter p' = counter p"
    using contract_add(1) [OF poller p'] assms(2) counter_kept(1) [of p "cvt_interest Interest_READ ?t" PollLevel] p' by simp_all
  let ?L' = "L\<lparr>lp_poll := (lp_poll L)\<lparr>poller := p'\<rparr>, lp_sources := [\<lparr>se_token = ?t, se_source = Some 0\<rparr>],
        lp_cells := [\<lparr>cell_val = SourceDisp \<lparr>di_source = with_ping ?g s, di_needs = False\<rparr>, cell_borrowed = False\<rparr>]\<rparr>"
  have "insert_source ops s L = (Ok ?t, ?L')"
    using p' assms(3)
    by (simp add: L insert_source_def Dispatcher_new_def register_dispatcher_def vacant_entry_def TokenInner_new_def
        set_source_def loop_register_def store_disp_def disp_register_def plain registers
        eventfd_register_def generic_register_def Generic_new_def Poll_register_def track_level_def
        supports_level cvt_mode_def forget_sub_id_def Let_def)
  moreover have "serving regs fd ?g (with_ping ?g s) 0 ?t ?L'"
    by (simp add: L R serving_def sl_lookup_iff get_id_def Generic_new_def TimerWheel_new_def)
  ultimately show ?thesis using R(2) by (intro exI [of _ ?L'] exI [of _ ?t] exI [of _ ?g]) (simp add: L)
qed

text \<open>A source that asks for its removal loses its slot and its registration.\<close>

lemma unregisters_served:
  assumes "serving regs fd (ping_of s) s d t L"
  shows "\<exists>L'. loop_unregister K ops d t (L\<lparr>lp_sources := sl\<rparr>) = (Ok True, L') \<and>
    lp_sources L' = sl \<and> regs (poller (lp_poll L')) = Map.empty \<and> lp_data L' = lp_data L \<and> lp_idles L' = [] \<and>
    efd_count counter L' = efd_count counter L"
proof -
  let ?P = "lp_poll L"
  have sv: "lp_cells L ! d = \<lparr>cell_val = SourceDisp \<lparr>di_source = s, di_needs = False\<rparr>, cell_borrowed = False\<rparr>"
    "gn_file (ping_of s) = Some fd" "regs (poller ?P) = [fd \<mapsto> (cvt_interest Interest_READ t, PollLevel)]" "lp_idles L = []"
    using assms(1) by (simp_all add: serving_def)
  obtain p' where p': "pl_delete K (poller ?P) fd = (Inr (), p')"
    using delete_succeeds [of "poller ?P"] sv(3) by (cases "pl_delete K (poller ?P) fd") auto
  then have "regs p' = Map.empty" "counter p' = counter (poller ?P)"
    using contract_delete(1) [OF poller p'] sv(3) counter_kept(2) [of "poller ?P"] by simp_all
  with p' sv show ?thesis
    by (simp add: loop_unregister_def store_disp_def disp_unregister_def unregisters
        eventfd_unregister_def generic_unregister_def Poll_unregister_def Let_def)
qed

text \<open>The event goes to the source in its cell; the cell is left as it was.\<close>

lemma served_process:
  assumes serving: "serving regs fd g s d t L"
    and event: "\<And>L1. lp_data L1 = lp_data L \<Longrightarrow> lp_poll L1 = lp_poll L \<Longrightarrow>
      \<exists>L2. so_process ops s rd t L1 = (Ok act, s, L2) \<and> loop_frame regs L2 = loop_frame regs L1 \<and>
        Q (lp_data L2) (efd_count counter L2)"
  shows "\<exists>L'. disp_process ops d rd t L = (Ok act, L') \<and> loop_frame regs L' = loop_frame regs L \<and>
    Q (lp_data L') (efd_count counter L')"
proof -
  let ?c = "\<lparr>cell_val = SourceDisp \<lparr>di_source = s, di_needs = False\<rparr>, cell_borrowed = False\<rparr>"
  let ?L1 = "set_cell d (?c\<lparr>cell_borrowed := True\<rparr>) L"
  have sv: "lp_cells L ! d = ?c" "d < length (lp_cells L)" using serving by (simp_all add: serving_def)
  have "lp_data ?L1 = lp_data L" "lp_poll ?L1 = lp_poll L" by (simp_all add: set_cell_def)
  from event [OF this] obtain L2 where L2: "so_process ops s rd t ?L1 = (Ok act, s, L2)"
      "loop_frame regs L2 = loop_frame regs ?L1" "Q (lp_data L2) (efd_count counter L2)"
    by blast
  have "lp_cells L2 = (lp_cells L)[d := ?c\<lparr>cell_borrowed := True\<rparr>]"
    using L2(2) by (simp add: loop_frame_def set_cell_def)
  then have "(lp_cells L2)[d := ?c] = lp_cells L" using sv by (metis list_update_id list_update_overwrite)
  then have frame: "loop_frame regs (set_cell d ?c L2) = loop_frame regs L"
    using L2(2) by (simp add: loop_frame_def set_cell_def)
  have "disp_process ops d rd t L = (Ok act, set_cell d ?c L2)"
    using L2(1) sv(1) by (simp add: disp_process_def Let_def)
  moreover have "lp_data (set_cell d ?c L2) = lp_data L2" "lp_poll (set_cell d ?c L2) = lp_poll L2"
    by (simp_all add: set_cell_def)
  ultimately show ?thesis using frame L2(3) by (intro exI [of _ "set_cell d ?c L2"]) simp
qed

text \<open>One dispatch.\<close>

lemma served_dispatch:
  assumes serving: "serving regs fd (ping_of s) s d t L" and "0 < n" and count: "efd_count counter L \<noteq> 0"
    and event: "\<And>L1. lp_data L1 = lp_data L \<Longrightarrow> efd_count counter L1 = efd_count counter L \<Longrightarrow>
      \<exists>L2. so_process ops s (pe_readiness (timer_event t)) t L1 = (Ok (if removed then Remove else Continue), s, L2) \<and>
        loop_frame regs L2 = loop_frame regs L1 \<and> Q (lp_data L2) (efd_count counter L2)"
  shows "\<exists>L'. dispatch K ops run_idle n timeout L = (Ok (), L') \<and> Q (lp_data L') (efd_count counter L') \<and>
    (if removed then sl_lookup (lp_sources L') t = None \<and> regs (poller (lp_poll L')) = Map.empty
     else serving regs fd (ping_of s) s d t L')"
proof -
  obtain L1 where L1: "loop_poll K n (pl_now K (poller (lp_poll L))) timeout L = (Ok (Some [timer_event t]), L1)"
      "loop_frame regs L1 = loop_frame regs L" "efd_count counter L1 = efd_count counter L" "lp_data L1 = lp_data L"
    using poll_reports [OF serving count assms(2)] by blast
  have serving1: "serving regs fd (ping_of s) s d t L1" using serving serving_frame [OF L1(2)] by simp
  have "\<exists>L'. disp_process ops d (pe_readiness (timer_event t)) t L1 = (Ok (if removed then Remove else Continue), L') \<and>
      loop_frame regs L' = loop_frame regs L1 \<and> Q (lp_data L') (efd_count counter L')"
    by (rule served_process [OF serving1]) (rule event, simp_all add: L1(3,4))
  then obtain L2 where L2: "disp_process ops d (pe_readiness (timer_event t)) t L1 = (Ok (if removed then Remove else Continue), L2)"
      "loop_frame regs L2 = loop_frame regs L1" "Q (lp_data L2) (efd_count counter L2)"
    by blast
  have serving2: "serving regs fd (ping_of s) s d t L2" using serving1 serving_frame [OF L2(2)] by simp
  have sv: "lp_lifecycle L = []" "lp_lifecycle L1 = []" "lp_synthetic L1 = []" "sl_lookup (lp_sources L1) t = Some d"
      "lp_pending L2 = Continue" "lp_idles L2 = []" "sl_lookup (lp_sources L2) t \<noteq> None"
    using serving serving1 serving2 by (simp_all add: serving_def)
  have tok: "pe_token (timer_event t) = t" "forget_sub_id (pe_token (timer_event t)) = t"
    using serving by (simp_all add: timer_event_def serving_def forget_sub_id_def)
  have processed: "disp_process ops d (pe_readiness (timer_event t)) (pe_token (timer_event t)) L1
      = (Ok (if removed then Remove else Continue), L2)"
    unfolding tok(1) by (rule L2(1))
  note step = sv(1) L1(1) sv(2,3) tok(2) sv(4)
  show ?thesis
  proof (cases removed)
    case False
    then have "dispatch K ops run_idle n timeout L = (Ok (), L2)"
      using dispatch_continues [OF step _ sv(5,7,6)] processed by simp
    with False serving2 L2 show ?thesis by simp
  next
    case True
    obtain L3 where L3: "loop_unregister K ops d t (L2\<lparr>lp_sources := sl_release t (lp_sources L2)\<rparr>) = (Ok True, L3)"
      "lp_sources L3 = sl_release t (lp_sources L2)" "regs (poller (lp_poll L3)) = Map.empty" "lp_data L3 = lp_data L2"
      "lp_idles L3 = []" "efd_count counter L3 = efd_count counter L2"
      using unregisters_served [OF serving2] by blast
    have "sl_lookup (sl_release t (lp_sources L2)) t = None \<and> dispatch K ops run_idle n timeout L = (Ok (), L3)"
      using dispatch_removes [OF step _ sv(5) L3(1,5), of run_idle] processed True by simp
    with True L3 L2 show ?thesis by simp
  qed
qed

end

section \<open>Dispatches with nothing to do\<close>

text \<open>A system whose poller, with a timeout, ends a wait with nothing when the eventfd is empty.\<close>

locale level_system = eventfd_system K E regs fd counter
  for K :: "'p poller_ops" and E :: "'p eventfd_ops" and regs :: "'p \<Rightarrow> raw_fd \<rightharpoonup> pevent \<times> poll_mode"
    and fd :: raw_fd and counter :: "'p \<Rightarrow> u64" +
  assumes nothing_ready: "regs p = [fd \<mapsto> (ev, PollLevel)] \<Longrightarrow> counter p = 0 \<Longrightarrow>
    \<exists>p'. pl_wait K p (Some timeout) = (Inr [], p') \<and> regs p' = regs p"
begin

lemma idle_dispatch:
  assumes "serving regs fd g s d t L" and "efd_count counter L = 0" and "0 < k"
  shows "\<exists>L'. dispatch K ops run_idle k (Some timeout) L = (Ok (), L') \<and> loop_frame regs L' = loop_frame regs L \<and>
    efd_count counter L' = 0 \<and> lp_data L' = lp_data L"
proof -
  let ?P = "lp_poll L"
  have sv: "regs (poller ?P) = [fd \<mapsto> (cvt_interest Interest_READ t, PollLevel)]" "tw_heap (timers ?P) = []"
    "level_triggered ?P = None" "lp_lifecycle L = []" "lp_synthetic L = []" "lp_idles L = []"
    using assms(1) by (simp_all add: serving_def)
  obtain p' where p': "pl_wait K (poller ?P) (Some timeout) = (Inr [], p')" "regs p' = regs (poller ?P)"
    using nothing_ready [OF sv(1) assms(2)] by blast
  have "poll_timeout K ?P (Some timeout) = Some timeout"
    using sv(2) by (simp add: poll_timeout_def wheel_next_deadline_def heap_peek_None_iff split: option.split)
  then have "Poll_poll K (Some timeout) ?P = (Ok [], ?P\<lparr>poller := p'\<rparr>)"
    using p'(1) sv by (simp add: Poll_poll_def rearm_def drain_no_timers)
  moreover obtain m where "k = Suc m" using assms(3) by (cases k) auto
  ultimately have poll: "loop_poll K k (pl_now K (poller ?P)) (Some timeout) L = (Ok (Some []), L\<lparr>lp_poll := ?P\<lparr>poller := p'\<rparr>\<rparr>)"
    by (simp add: loop_poll_def)
  let ?L' = "L\<lparr>lp_poll := ?P\<lparr>poller := p'\<rparr>\<rparr>"
  have same: "?L'\<lparr>lp_synthetic := []\<rparr> = ?L'" using sv(5) by simp
  have "dispatch_events K ops k (Some timeout) L = (Ok (), ?L')"
    using poll sv(4,5) by (simp add: dispatch_events_def Let_def same)
  then have "dispatch K ops run_idle k (Some timeout) L = (Ok (), ?L')"
    using sv(6) by (simp add: dispatch_def dispatch_no_idles)
  moreover have "efd_count counter ?L' = 0" using counter_kept(3) [of "poller ?P" "Some timeout"] p'(1) assms(2) by simp
  ultimately show ?thesis using p'(2) by (intro exI [of _ ?L']) (simp add: loop_frame_def)
qed

end

section \<open>The reference system\<close>

interpretation linux_loop: eventfd_system LXP LXE lx_table fd "\<lambda>p. lx_counters p fd" for fd
proof (unfold_locales, goal_cases)
  case 1
  then show ?case by (rule LXP_contract)
next
  case 2
  then show ?case by (rule LXE_contract)
next
  case (11 p ev timeout)
  then show ?case using lx_ready_single [of p fd ev PollLevel] by (simp add: LXP_def lx_wait_def)
qed (auto simp: LXP_def LXE_def EFK_def on_counters_def lx_table_def lx_wait_def Let_def)

interpretation linux_level: level_system LXP LXE lx_table fd "\<lambda>p. lx_counters p fd" for fd
proof (unfold_locales, goal_cases)
  case (1 p ev timeout)
  have "set (remdups (map fst (lx_regs p))) = {fd}"
    using dom_map_of_conv_image_fst [of "lx_regs p"] 1(1) by (simp add: lx_table_def)
  then have "remdups (map fst (lx_regs p)) = [fd]" using distinct_singleton [of "remdups (map fst (lx_regs p))" fd] by simp
  with 1 have "lx_ready p = []" by (simp add: lx_ready_def)
  then show ?case by (auto simp: LXP_def lx_wait_def lx_table_def)
qed

end
