(* ===== verification/Channel_Loop.thy ===== *)
theory Channel_Loop
  imports Channel_Source Ping_Loop
begin

text \<open>
  The program end to end: a channel over an eventfd, inserted into a loop. A message goes from the
  sender's queue and the eventfd through the poller, the key of the registration, the table of
  sources and the channel's \<open>process_events\<close> to the user's callback. Queue and log are parts of the
  data that the loop passes to callbacks; the eventfd belongs to the system of the poller.
\<close>

section \<open>A channel as a source of the loop\<close>

text \<open>The callback folds each event into the component \<open>lg\<close> with \<open>f\<close>.\<close>

definition channel_callback :: "('d, 'l) access \<Rightarrow> ('m event \<Rightarrow> 'l \<Rightarrow> 'l) \<Rightarrow> 'm event
    \<Rightarrow> ('s, 'i, 'p, 'd) loop_state \<Rightarrow> ('s, 'i, 'p, 'd) loop_state" where
  "channel_callback lg f ev w = acc_put (in_data lg) (f ev (acc_get (in_data lg) w)) w"

definition channel_ops :: "'p poller_ops \<Rightarrow> 'p eventfd_ops \<Rightarrow> raw_fd \<Rightarrow> ('d, 'm mpsc) access \<Rightarrow> ('d, 'l) access
    \<Rightarrow> ('m event \<Rightarrow> 'l \<Rightarrow> 'l) \<Rightarrow> (eventfd_source channel, 'p, ('s, 'i, 'p, 'd) loop_state) source_ops" where
  "channel_ops K E fd q lg f =
     \<lparr>so_process = channel_process (eventfd_process E loop_system) (eventfd_ping E loop_system fd) (in_data q) (channel_callback lg f),
      so_register = channel_register (eventfd_register K), so_reregister = channel_reregister (eventfd_reregister K),
      so_unregister = channel_unregister (eventfd_unregister K), so_needs_extra = default_needs_extra,
      so_before_sleep = default_before_sleep, so_before_handle = default_before_handle\<rparr>"

text \<open>Messages sent between dispatches.\<close>

definition send_all :: "'p eventfd_ops \<Rightarrow> raw_fd \<Rightarrow> ('d, 'm mpsc) access \<Rightarrow> 'm list
    \<Rightarrow> ('s, 'i, 'p, 'd) loop_state \<Rightarrow> ('s, 'i, 'p, 'd) loop_state" where
  "send_all E fd q = fold (\<lambda>m L. snd (sender_send (in_data q) (eventfd_ping E loop_system fd) m L))"

text \<open>
  A session: each batch is sent, then the loop dispatches once for every \<open>limit\<close> messages and once
  more.
\<close>

fun channel_session :: "'p poller_ops \<Rightarrow> 'p eventfd_ops \<Rightarrow> raw_fd \<Rightarrow> ('d, 'm mpsc) access \<Rightarrow> ('s, 'i, 'p, 'd) loop_ops
    \<Rightarrow> ('i \<Rightarrow> ('s, 'i, 'p, 'd) loop_state \<Rightarrow> ('s, 'i, 'p, 'd) loop_state) \<Rightarrow> nat \<Rightarrow> duration option \<Rightarrow> nat \<Rightarrow> 'm list list
    \<Rightarrow> ('s, 'i, 'p, 'd) loop_state \<Rightarrow> unit cresult \<times> ('s, 'i, 'p, 'd) loop_state" where
  "channel_session K E fd q ops run_idle n timeout limit [] L = (Ok (), L)"
| "channel_session K E fd q ops run_idle n timeout limit (ms # mss) L =
     and_then (dispatches K ops run_idle n timeout (length ms div limit + 1) (send_all E fd q ms L))
       (\<lambda>_ L'. channel_session K E fd q ops run_idle n timeout limit mss L')"

context eventfd_system
begin

text \<open>One event of the channel.\<close>

lemma channel_event:
  fixes f :: "'m event \<Rightarrow> 'l \<Rightarrow> 'l" and q :: "('d, 'm mpsc) access" and lg :: "('d, 'l) access"
    and L :: "(eventfd_source channel, 'i, 'p, 'd) loop_state"
  assumes parts: "access_ok q" "access_ok lg" "access_apart q lg"
    and "gn_file (ch_source ch) = Some fd" and "gn_token (ch_source ch) = Some t"
    and "2 \<le> unat (efd_count counter L)" and "even (efd_count counter L)"
    and "msgs = mq_msgs (acc_get q (lp_data L))" and "limit = channel_max (ch_capacity ch)"
    and "closed \<longleftrightarrow> length msgs < limit \<and> mq_senders (acc_get q (lp_data L)) = 0"
  shows "\<exists>L'. so_process (channel_ops K E fd q lg f) ch rd t L = (Ok (if closed then Remove else Continue), ch, L') \<and>
    loop_frame regs L' = loop_frame regs L \<and>
    acc_get lg (lp_data L') = fold f (map Msg (take limit msgs) @ (if closed then [Closed] else [])) (acc_get lg (lp_data L)) \<and>
    acc_get q (lp_data L') = (acc_get q (lp_data L))\<lparr>mq_msgs := drop limit msgs\<rparr> \<and>
    efd_count counter L' = (if length msgs < limit then 0 else 2)"
proof -
  let ?sys = "loop_system :: ((eventfd_source channel, 'i, 'p, 'd) loop_state, 'p) access"
  let ?q = "in_data q :: ((eventfd_source channel, 'i, 'p, 'd) loop_state, 'm mpsc) access"
  let ?lg = "in_data lg :: ((eventfd_source channel, 'i, 'p, 'd) loop_state, 'l) access"
  obtain r ch' L' where run: "channel_process (eventfd_process E ?sys) (eventfd_ping E ?sys fd) ?q
      (\<lambda>ev w. acc_put ?lg (f ev (acc_get ?lg w)) w) ch rd t L = (r, ch', L')"
    by (rule prod_cases3)
  have ok: "access_ok ?q" "access_ok ?lg" "access_apart ?sys ?q" "access_apart ?q ?lg" "access_apart ?sys ?lg"
    using parts by (simp_all add: access_ok_def access_apart_def)
  have c: "2 \<le> unat (counter (acc_get ?sys L))" using assms(6) by simp
  have m: "msgs = mq_msgs (acc_get ?q L)" using assms(8) by simp
  note ev = eventfd_channel_fold [OF eventfd loop_system_ok ok(1,3,2,4,5) assms(4,5) c run m assms(9), of "loop_frame regs"]
  have "channel_callback lg f = (\<lambda>ev w. acc_put ?lg (f ev (acc_get ?lg w)) w)" by (simp add: fun_eq_iff channel_callback_def)
  with run have "so_process (channel_ops K E fd q lg f) ch rd t L = (r, ch', L')" by (simp add: channel_ops_def)
  with ev assms(7,10) regs_kept show ?thesis by (simp add: loop_frame_def)
qed

lemma channel_pinged:
  "pinged_source K E regs fd counter (channel_ops K E fd q lg f) ch_source (\<lambda>g ch. ch\<lparr>ch_source := g\<rparr>)"
  by unfold_locales (simp_all add: channel_ops_def channel_register_def channel_unregister_def default_needs_extra_def)

text \<open>One dispatch.\<close>

lemma channel_dispatch:
  fixes f :: "'m event \<Rightarrow> 'l \<Rightarrow> 'l" and L :: "(eventfd_source channel, 'i, 'p, 'd) loop_state"
  assumes parts: "access_ok q" "access_ok lg" "access_apart q lg" and "0 < n"
    and serving: "serving regs fd (ch_source ch) ch d t L"
    and count: "2 \<le> unat (efd_count counter L)" "even (efd_count counter L)"
    and msgs: "msgs = mq_msgs (acc_get q (lp_data L))" and limit: "limit = channel_max (ch_capacity ch)"
    and closed: "closed \<longleftrightarrow> length msgs < limit \<and> mq_senders (acc_get q (lp_data L)) = 0"
  shows "\<exists>L'. dispatch K (channel_ops K E fd q lg f) run_idle n timeout L = (Ok (), L') \<and>
    (acc_get lg (lp_data L') = fold f (map Msg (take limit msgs) @ (if closed then [Closed] else [])) (acc_get lg (lp_data L)) \<and>
     acc_get q (lp_data L') = (acc_get q (lp_data L))\<lparr>mq_msgs := drop limit msgs\<rparr> \<and>
     efd_count counter L' = (if length msgs < limit then 0 else 2)) \<and>
    (if closed then sl_lookup (lp_sources L') t = None \<and> regs (poller (lp_poll L')) = Map.empty
     else serving regs fd (ch_source ch) ch d t L')"
proof (rule pinged_source.served_dispatch [OF channel_pinged serving assms(4)])
  show "efd_count counter L \<noteq> 0" using count(1) by auto
  have sv: "gn_file (ch_source ch) = Some fd" "gn_token (ch_source ch) = Some t" using serving by (simp_all add: serving_def)
  fix L1 :: "(eventfd_source channel, 'i, 'p, 'd) loop_state"
  assume same: "lp_data L1 = lp_data L" "efd_count counter L1 = efd_count counter L"
  show "\<exists>L2. so_process (channel_ops K E fd q lg f) ch (pe_readiness (timer_event t)) t L1
        = (Ok (if closed then Remove else Continue), ch, L2) \<and> loop_frame regs L2 = loop_frame regs L1 \<and>
      acc_get lg (lp_data L2) = fold f (map Msg (take limit msgs) @ (if closed then [Closed] else [])) (acc_get lg (lp_data L)) \<and>
      acc_get q (lp_data L2) = (acc_get q (lp_data L))\<lparr>mq_msgs := drop limit msgs\<rparr> \<and>
      efd_count counter L2 = (if length msgs < limit then 0 else 2)"
    using channel_event [OF parts sv, of L1, unfolded same, OF count msgs limit closed] by blast
qed

text \<open>Sending puts the messages into the queue and a ping into the eventfd.\<close>

lemma send_all_effect:
  assumes parts: "access_ok q" "access_ok lg" "access_apart q lg"
  shows "mq_receiver (acc_get q (lp_data L)) \<Longrightarrow> even (efd_count counter L) \<Longrightarrow>
    loop_frame regs (send_all E fd q ms L) = loop_frame regs L \<and>
    acc_get q (lp_data (send_all E fd q ms L)) = (acc_get q (lp_data L))\<lparr>mq_msgs := mq_msgs (acc_get q (lp_data L)) @ ms\<rparr> \<and>
    acc_get lg (lp_data (send_all E fd q ms L)) = acc_get lg (lp_data L) \<and>
    even (counter (poller (lp_poll (send_all E fd q ms L)))) \<and>
    (ms \<noteq> [] \<or> 2 \<le> unat (efd_count counter L) \<longrightarrow> 2 \<le> unat (counter (poller (lp_poll (send_all E fd q ms L)))))"
proof (induction ms arbitrary: L)
  case Nil
  then show ?case by (simp add: send_all_def)
next
  case (Cons m ms)
  let ?L1 = "L\<lparr>lp_data := acc_put q (mpsc_push m (acc_get q (lp_data L))) (lp_data L)\<rparr>"
  let ?L2 = "eventfd_ping E loop_system fd ?L1"
  have send: "snd (sender_send (in_data q) (eventfd_ping E loop_system fd) m L) = ?L2"
    using Cons.prems(1) by (simp add: sender_send_def on_component_def mpsc_send_def)
  have data: "acc_get q (lp_data ?L2) = (acc_get q (lp_data L))\<lparr>mq_msgs := mq_msgs (acc_get q (lp_data L)) @ [m]\<rparr>"
    "acc_get lg (lp_data ?L2) = acc_get lg (lp_data L)"
    by (simp_all add: ping_in_loop(2) mpsc_push_def access_ok_simps(1) [OF parts(1)] access_apart_simps(1) [OF parts(3)])
  have frame: "loop_frame regs ?L2 = loop_frame regs L" using ping_in_loop(1) [of ?L1] by (simp add: loop_frame_def)
  have count: "even (efd_count counter ?L2)" "2 \<le> unat (efd_count counter ?L2)"
    using ping_in_loop(3) [of ?L1] Cons.prems(2) by simp_all
  have "mq_receiver (acc_get q (lp_data ?L2))" unfolding data using Cons.prems(1) by simp
  note ih = Cons.IH [OF this count(1)]
  have "send_all E fd q (m # ms) L = send_all E fd q ms ?L2" by (simp add: send_all_def send)
  with ih data frame count show ?case by simp
qed

text \<open>Enough dispatches empty the queue, in order.\<close>

lemma channel_dispatches:
  fixes f :: "'m event \<Rightarrow> 'l \<Rightarrow> 'l" and L :: "(eventfd_source channel, 'i, 'p, 'd) loop_state"
  assumes parts: "access_ok q" "access_ok lg" "access_apart q lg" and "0 < n" and limit: "limit = channel_max (ch_capacity ch)"
  shows "serving regs fd (ch_source ch) ch d t L \<Longrightarrow> 2 \<le> unat (efd_count counter L) \<Longrightarrow> even (efd_count counter L) \<Longrightarrow>
    msgs = mq_msgs (acc_get q (lp_data L)) \<Longrightarrow> mq_senders (acc_get q (lp_data L)) \<noteq> 0 \<Longrightarrow>
    \<exists>L'. dispatches K (channel_ops K E fd q lg f) run_idle n timeout (length msgs div limit + 1) L = (Ok (), L') \<and>
      serving regs fd (ch_source ch) ch d t L' \<and> efd_count counter L' = 0 \<and>
      acc_get lg (lp_data L') = fold f (map Msg msgs) (acc_get lg (lp_data L)) \<and>
      acc_get q (lp_data L') = (acc_get q (lp_data L))\<lparr>mq_msgs := []\<rparr>"
proof (induction "length msgs" arbitrary: msgs L rule: less_induct)
  case less
  have pos: "0 < limit" using channel_max_pos by (simp add: limit)
  have unclosed: "False \<longleftrightarrow> length msgs < limit \<and> mq_senders (acc_get q (lp_data L)) = 0" using less.prems(5) by simp
  obtain L1 where L1: "dispatch K (channel_ops K E fd q lg f) run_idle n timeout L = (Ok (), L1)"
      "acc_get lg (lp_data L1) = fold f (map Msg (take limit msgs)) (acc_get lg (lp_data L))"
      "acc_get q (lp_data L1) = (acc_get q (lp_data L))\<lparr>mq_msgs := drop limit msgs\<rparr>"
      "serving regs fd (ch_source ch) ch d t L1" "efd_count counter L1 = (if length msgs < limit then 0 else 2)"
    using channel_dispatch [OF parts assms(4) less.prems(1,2,3,4) limit unclosed, of f run_idle timeout] by auto
  show ?case
  proof (cases "length msgs < limit")
    case True
    with L1 show ?thesis by (intro exI [of _ L1]) simp
  next
    case False
    then have len: "length msgs div limit + 1 = Suc (length (drop limit msgs) div limit + 1)"
      using pos by (simp add: le_div_geq not_less)
    have "length (drop limit msgs) < length msgs" using False pos by simp
    from less.hyps [OF this L1(4)] False L1 less.prems(5)
    obtain L' where L': "dispatches K (channel_ops K E fd q lg f) run_idle n timeout (length (drop limit msgs) div limit + 1) L1 = (Ok (), L')"
      "serving regs fd (ch_source ch) ch d t L'" "efd_count counter L' = 0"
      "acc_get lg (lp_data L') = fold f (map Msg (drop limit msgs)) (acc_get lg (lp_data L1))"
      "acc_get q (lp_data L') = (acc_get q (lp_data L1))\<lparr>mq_msgs := []\<rparr>"
      by auto
    have "fold f (map Msg (drop limit msgs)) (fold f (map Msg (take limit msgs)) l) = fold f (map Msg msgs) l" for l
      by (metis append_take_drop_id comp_apply fold_append map_append)
    with L' L1(1-3) show ?thesis unfolding len by simp
  qed
qed

lemma channel_session_serves:
  fixes f :: "'m event \<Rightarrow> 'l \<Rightarrow> 'l" and L :: "(eventfd_source channel, 'i, 'p, 'd) loop_state"
  assumes parts: "access_ok q" "access_ok lg" "access_apart q lg" and "0 < n" and limit: "limit = channel_max (ch_capacity ch)"
  shows "[] \<notin> set mss \<Longrightarrow> serving regs fd (ch_source ch) ch d t L \<Longrightarrow> efd_count counter L = 0 \<Longrightarrow>
    acc_get q (lp_data L) = Q \<Longrightarrow> mq_msgs Q = [] \<Longrightarrow> mq_senders Q \<noteq> 0 \<Longrightarrow> mq_receiver Q \<Longrightarrow>
    \<exists>L'. channel_session K E fd q (channel_ops K E fd q lg f) run_idle n timeout limit mss L = (Ok (), L') \<and>
      serving regs fd (ch_source ch) ch d t L' \<and> efd_count counter L' = 0 \<and> acc_get q (lp_data L') = Q \<and>
      acc_get lg (lp_data L') = fold f (map Msg (concat mss)) (acc_get lg (lp_data L))"
proof (induction mss arbitrary: L)
  case Nil
  then show ?case by simp
next
  case (Cons ms mss)
  let ?L1 = "send_all E fd q ms L"
  have "mq_receiver (acc_get q (lp_data L))" "even (efd_count counter L)" using Cons.prems by simp_all
  note s = send_all_effect [OF parts this, of ms]
  have data: "acc_get q (lp_data ?L1) = Q\<lparr>mq_msgs := ms\<rparr>" "acc_get lg (lp_data ?L1) = acc_get lg (lp_data L)"
    using s Cons.prems(4,5) by simp_all
  have ready: "serving regs fd (ch_source ch) ch d t ?L1" "2 \<le> unat (efd_count counter ?L1)" "even (efd_count counter ?L1)"
    using s serving_frame [of regs ?L1 L fd "ch_source ch" ch d t] Cons.prems(1,2) by auto
  have "ms = mq_msgs (acc_get q (lp_data ?L1))" "mq_senders (acc_get q (lp_data ?L1)) \<noteq> 0" using data Cons.prems(6) by simp_all
  from channel_dispatches [OF parts assms(4) limit ready this, of f run_idle timeout]
  obtain L2 where L2: "dispatches K (channel_ops K E fd q lg f) run_idle n timeout (length ms div limit + 1) ?L1 = (Ok (), L2)"
      "serving regs fd (ch_source ch) ch d t L2" "efd_count counter L2 = 0"
      "acc_get lg (lp_data L2) = fold f (map Msg ms) (acc_get lg (lp_data L))" "acc_get q (lp_data L2) = Q\<lparr>mq_msgs := []\<rparr>"
    unfolding data by auto
  moreover have "Q\<lparr>mq_msgs := []\<rparr> = Q" using Cons.prems(5) by simp
  ultimately have q2: "acc_get q (lp_data L2) = Q" by simp
  have "[] \<notin> set mss" using Cons.prems(1) by simp
  from Cons.IH [OF this L2(2,3) q2 Cons.prems(5,6,7)] L2(1,4) show ?case by auto
qed

end

section \<open>From the sender to the callback\<close>

context eventfd_system
begin

lemma last_sender_closes:
  fixes f :: "'m event \<Rightarrow> 'l \<Rightarrow> 'l" and L :: "(eventfd_source channel, 'i, 'p, 'd) loop_state"
  assumes parts: "access_ok q" "access_ok lg" "access_apart q lg" and "0 < n"
    and "serving regs fd (ch_source ch) ch d t L" and "efd_count counter L = 0"
    and "mq_msgs (acc_get q (lp_data L)) = []" and "mq_senders (acc_get q (lp_data L)) = 1"
  shows "\<exists>L'. dispatch K (channel_ops K E fd q lg f) run_idle n timeout (sender_drop (in_data q) (eventfd_ping E loop_system fd) L)
      = (Ok (), L') \<and> acc_get lg (lp_data L') = f Closed (acc_get lg (lp_data L)) \<and>
    sl_lookup (lp_sources L') t = None \<and> regs (poller (lp_poll L')) = Map.empty"
proof -
  let ?Q = "(acc_get q (lp_data L))\<lparr>mq_senders := 0\<rparr>"
  let ?M = "L\<lparr>lp_data := acc_put q ?Q (lp_data L)\<rparr>"
  let ?L1 = "eventfd_ping E loop_system fd ?M"
  have L1: "sender_drop (in_data q) (eventfd_ping E loop_system fd) L = ?L1"
    using assms(8) by (simp add: sender_drop_def ping_on_drop_def)
  have data: "acc_get q (lp_data ?L1) = ?Q" "acc_get lg (lp_data ?L1) = acc_get lg (lp_data L)"
    by (simp_all add: ping_in_loop(2) access_ok_simps(1) [OF parts(1)] access_apart_simps(1) [OF parts(3)])
  have "loop_frame regs ?L1 = loop_frame regs L" using ping_in_loop(1) [of ?M] by (simp add: loop_frame_def)
  then have sv: "serving regs fd (ch_source ch) ch d t ?L1" using serving_frame [of regs ?L1 L fd "ch_source ch" ch d t] assms(5) by blast
  have count: "2 \<le> unat (efd_count counter ?L1)" "even (efd_count counter ?L1)"
    using ping_in_loop(3) [of ?M] assms(6) by simp_all
  have m: "[] = mq_msgs (acc_get q (lp_data ?L1))" using data assms(7) by simp
  have "True \<longleftrightarrow> length ([] :: 'm list) < channel_max (ch_capacity ch) \<and> mq_senders (acc_get q (lp_data ?L1)) = 0"
    using data channel_max_pos by simp
  from channel_dispatch [OF parts assms(4) sv count m refl this, of f run_idle timeout] show ?thesis
    unfolding L1 data by auto
qed

end

interpretation linux_channel: pinged_source LXP LXE lx_table fd "\<lambda>p. lx_counters p fd" "channel_ops LXP LXE fd q lg f"
    ch_source "\<lambda>g ch. ch\<lparr>ch_source := g\<rparr>" for fd q lg f
  by (rule linux_loop.channel_pinged)

text \<open>
  C3: messages get through. In a new loop whose poller and eventfd work as documented, a channel
  is inserted; then batches of messages of any size are sent, each followed by one dispatch for
  every \<open>limit\<close> messages and one more; then the last sender is dropped. All the calls succeed. After
  the batches the user's callback has been run on each message once, in the order they were sent;
  the next dispatch runs it on \<open>Closed\<close> and takes the channel out of the table and of the poller.
\<close>

theorem channel_end_to_end:
  assumes "eventfd_system K E regs fd counter" and "access_ok q" and "access_ok lg" and "access_apart q lg"
    and "try_new K (Inr p) dat = Ok L0" and "regs p = Map.empty" and "counter p = 0"
    and "ch_source ch = Generic_new fd Interest_READ Level" and "limit = channel_max (ch_capacity ch)"
    and "acc_get q dat = \<lparr>mq_msgs = [], mq_senders = 1, mq_receiver = True, mq_bound = None\<rparr>"
    and "[] \<notin> set mss" and "0 < n" and "ops = channel_ops K E fd q lg f"
  shows "\<exists>t L1 L2 L3. insert_source ops ch L0 = (Ok t, L1) \<and>
    channel_session K E fd q ops run_idle n timeout limit mss L1 = (Ok (), L2) \<and>
    acc_get lg (lp_data L2) = fold f (map Msg (concat mss)) (acc_get lg dat) \<and>
    mq_msgs (acc_get q (lp_data L2)) = [] \<and> sl_lookup (lp_sources L2) t \<noteq> None \<and>
    dispatch K ops run_idle n timeout (sender_drop (in_data q) (eventfd_ping E loop_system fd) L2) = (Ok (), L3) \<and>
    acc_get lg (lp_data L3) = f Closed (acc_get lg (lp_data L2)) \<and>
    sl_lookup (lp_sources L3) t = None \<and> regs (poller (lp_poll L3)) = Map.empty"
proof -
  note parts = assms(2-4)
  obtain L1 t g where L1: "insert_source ops ch L0 = (Ok t, L1)" "serving regs fd g (ch\<lparr>ch_source := g\<rparr>) 0 t L1"
      "lp_data L1 = dat" "efd_count counter L1 = 0"
    using pinged_source.insert_serves [OF eventfd_system.channel_pinged [OF assms(1)] assms(5,6,8), of q lg f]
    unfolding assms(7,13) by blast
  let ?ch = "ch\<lparr>ch_source := g\<rparr>"
  let ?Q = "\<lparr>mq_msgs = [], mq_senders = 1, mq_receiver = True, mq_bound = None\<rparr>"
  have sv: "limit = channel_max (ch_capacity ?ch)" "serving regs fd (ch_source ?ch) ?ch 0 t L1" using L1(2) assms(9) by simp_all
  have Q: "acc_get q (lp_data L1) = ?Q" "mq_msgs ?Q = []" "mq_senders ?Q \<noteq> 0" "mq_receiver ?Q" using assms(10) L1(3) by simp_all
  obtain L2 where L2: "channel_session K E fd q ops run_idle n timeout limit mss L1 = (Ok (), L2)" "serving regs fd (ch_source ?ch) ?ch 0 t L2"
      "efd_count counter L2 = 0" "acc_get q (lp_data L2) = ?Q"
      "acc_get lg (lp_data L2) = fold f (map Msg (concat mss)) (acc_get lg (lp_data L1))"
    using eventfd_system.channel_session_serves [OF assms(1) parts assms(12) sv(1) assms(11) sv(2) L1(4) Q] unfolding assms(13) by blast
  have last: "mq_msgs (acc_get q (lp_data L2)) = []" "mq_senders (acc_get q (lp_data L2)) = 1" using L2(4) by simp_all
  from eventfd_system.last_sender_closes [OF assms(1) parts assms(12) L2(2,3) last, of f run_idle timeout] L1(1,3) L2(1,5) last(1)
  show ?thesis unfolding assms(13) using L2(2) by (auto simp: serving_def)
qed

theorem channel_end_to_end_witness:
  "\<exists>L3 :: (eventfd_source channel, nat, linux, nat mpsc \<times> nat event list) loop_state.
     acc_get pair_second (lp_data L3) = [Msg 4, Msg 5, Msg 6, Closed] \<and> lx_table (poller (lp_poll L3)) = Map.empty"
proof -
  let ?p = "\<lparr>lx_regs = [], lx_counters = \<lambda>_. 0, lx_now = 0, lx_next = 4\<rparr>"
  let ?dat = "(\<lparr>mq_msgs = [], mq_senders = 1, mq_receiver = True, mq_bound = None\<rparr>, []) :: nat mpsc \<times> nat event list"
  let ?ch = "\<lparr>ch_source = Generic_new 3 Interest_READ Level, ch_capacity = USIZE_MAX\<rparr>"
  let ?f = "\<lambda>ev l. l @ [ev]"
  obtain L0 :: "(eventfd_source channel, nat, linux, nat mpsc \<times> nat event list) loop_state" where L0: "try_new LXP (Inr ?p) ?dat = Ok L0"
    by (simp add: try_new_def Poll_new_def Poll_new_inner_def LXP_def)
  have start: "lx_table ?p = Map.empty" "lx_counters ?p 3 = 0" "ch_source ?ch = Generic_new 3 Interest_READ Level"
    "acc_get pair_first ?dat = \<lparr>mq_msgs = [], mq_senders = 1, mq_receiver = True, mq_bound = None\<rparr>"
    "[] \<notin> set [[4], [5, 6 :: nat]]" "0 < (1 :: nat)"
    by (simp_all add: lx_table_def pair_first_def)
  from channel_end_to_end [OF linux_loop.eventfd_system_axioms pair_ok L0 start(1,2,3) refl start(4,5,6) refl, of ?f "\<lambda>_ L. L" None]
  have "\<exists>L2 L3. acc_get pair_second (lp_data (L2 :: (eventfd_source channel, nat, linux, nat mpsc \<times> nat event list) loop_state)) = fold ?f (map Msg (concat [[4], [5, 6 :: nat]])) (acc_get pair_second ?dat) \<and>
      acc_get pair_second (lp_data L3) = acc_get pair_second (lp_data L2) @ [Closed] \<and>
      lx_table (poller (lp_poll (L3 :: (eventfd_source channel, nat, linux, nat mpsc \<times> nat event list) loop_state))) = Map.empty"
    by (elim exE conjE) (rule exI, rule exI, intro conjI)
  then show ?thesis by (auto simp: fold_log pair_second_def)
qed

end
