(* ===== verification/Timer_Loop.thy ===== *)
theory Timer_Loop
  imports Timer_Source Reference_System
begin

text \<open>
  A timer in a loop, end to end: from its insertion through the wheel, the timeout of the wait, the
  timers a poll reports and the table of sources to the user's callback and its re-arming. The
  callback decides from the deadline what to do next, records the deadline it is given and the
  time in the loop's data, and may stop the loop.
\<close>

definition timed_callback :: "'p poller_ops \<Rightarrow> (instant \<Rightarrow> timeout_action) \<Rightarrow> bool
    \<Rightarrow> ('s, 'i, 'p, (instant \<times> instant) list) timer_callback" where
  "timed_callback K act stops deadline L =
     (act deadline, (if stops then signal_stop else id) (L\<lparr>lp_data := lp_data L @ [(deadline, loop_now K L)]\<rparr>))"

text \<open>The deadline that follows a call at \<open>now\<close>, if any, and the records of a run.\<close>

definition timer_next :: "(instant \<Rightarrow> timeout_action) \<Rightarrow> instant \<Rightarrow> instant \<Rightarrow> instant option" where
  "timer_next act now deadline =
     (case act deadline of
        TDrop \<Rightarrow> None
      | ToInstant i \<Rightarrow> Some i
      | ToDuration d \<Rightarrow> instant_checked_add now d)"

fun timer_log :: "(instant \<Rightarrow> timeout_action) \<Rightarrow> instant option \<Rightarrow> (instant \<times> instant) list \<Rightarrow> instant option \<Rightarrow> bool" where
  "timer_log act e [] e' = (e' = e)"
| "timer_log act e ((deadline, now) # log) e' =
     (e = Some deadline \<and> deadline \<le> now \<and> timer_log act (timer_next act now deadline) log e')"

text \<open>At most \<open>k\<close> dispatches, ended when the timer is gone.\<close>

fun dispatch_until_gone :: "'p poller_ops \<Rightarrow> ('s, 'i, 'p, 'd) loop_ops
    \<Rightarrow> ('i \<Rightarrow> ('s, 'i, 'p, 'd) loop_state \<Rightarrow> ('s, 'i, 'p, 'd) loop_state) \<Rightarrow> nat \<Rightarrow> duration option \<Rightarrow> registration_token
    \<Rightarrow> nat \<Rightarrow> ('s, 'i, 'p, 'd) loop_state \<Rightarrow> unit cresult \<times> ('s, 'i, 'p, 'd) loop_state" where
  "dispatch_until_gone K ops run_idle n timeout t 0 L = (Ok (), L)"
| "dispatch_until_gone K ops run_idle n timeout t (Suc k) L =
     (if sl_lookup (lp_sources L) t = None then (Ok (), L)
      else and_then (dispatch K ops run_idle n timeout L) (\<lambda>_ L'. dispatch_until_gone K ops run_idle n timeout t k L'))"

section \<open>A poller that keeps time\<close>

text \<open>Without registered descriptors a wait with a timeout reports nothing, and takes at least that long.\<close>

locale timed_poller =
  fixes K :: "'p poller_ops" and regs :: "'p \<Rightarrow> raw_fd \<rightharpoonup> pevent \<times> poll_mode"
  assumes poller: "poller_contract K regs"
    and waits: "regs p = Map.empty \<Longrightarrow> \<exists>p'. pl_wait K p (Some timeout) = (Inr [], p') \<and> pl_now K p + timeout \<le> pl_now K p'"

text \<open>A loop whose only timer is \<open>tm\<close>, dispatcher \<open>d\<close> under the token \<open>t\<close>, due at \<open>deadline\<close>.\<close>

definition armed :: "('p \<Rightarrow> raw_fd \<rightharpoonup> pevent \<times> poll_mode) \<Rightarrow> timer \<Rightarrow> nat \<Rightarrow> token \<Rightarrow> instant
    \<Rightarrow> (timer, 'i, 'p, 'd) loop_state \<Rightarrow> bool" where
  "armed regs tm d t deadline L \<longleftrightarrow>
     lp_lifecycle L = [] \<and> lp_synthetic L = [] \<and> lp_idles L = [] \<and> lp_pending L = Continue \<and>
     sl_lookup (lp_sources L) t = Some d \<and> tok_sub_id t = 0 \<and> d < length (lp_cells L) \<and>
     lp_cells L ! d = \<lparr>cell_val = SourceDisp \<lparr>di_source = tm, di_needs = False\<rparr>, cell_borrowed = False\<rparr> \<and>
     tm_deadline tm = Some deadline \<and>
     (\<exists>c. tm_registration tm = Some \<lparr>rg_token = t, rg_counter = c\<rparr> \<and>
       tw_heap (timers (lp_poll L)) = [\<lparr>td_deadline = deadline, td_token = t, td_counter = c\<rparr>]) \<and>
     regs (poller (lp_poll L)) = Map.empty"

lemma drain_one_timer:
  "tw_heap w = [\<lparr>td_deadline = deadline, td_token = t, td_counter = c\<rparr>] \<Longrightarrow>
   drain_expired now w = (if deadline \<le> now then ([t], w\<lparr>tw_heap := []\<rparr>) else ([], w))"
  by (simp add: drain_expired.simps [of now w] wheel_next_expired_def heap_pop_def drain_no_timers)

context timed_poller
begin

lemma timed_poll:
  assumes "armed regs tm d t deadline L" and "0 < n"
  shows "\<exists>p. loop_poll K n now0 timeout L =
      (Ok (Some (if deadline \<le> pl_now K p then [timer_event t] else [])),
       L\<lparr>lp_poll := (lp_poll L)\<lparr>poller := p, timers := (timers (lp_poll L))\<lparr>tw_heap := if deadline \<le> pl_now K p then [] else tw_heap (timers (lp_poll L))\<rparr>\<rparr>\<rparr>) \<and>
    regs p = Map.empty \<and> (timeout = None \<longrightarrow> deadline \<le> pl_now K p) \<and>
    (\<forall>to. timeout = Some to \<longrightarrow> deadline \<le> pl_now K p \<or> loop_now K L + to \<le> pl_now K p)"
proof -
  let ?P = "lp_poll L"
  obtain c where heap: "tw_heap (timers ?P) = [\<lparr>td_deadline = deadline, td_token = t, td_counter = c\<rparr>]"
    and none: "regs (poller ?P) = Map.empty" using assms(1) by (auto simp: armed_def)
  let ?now = "pl_now K (poller ?P)"
  obtain \<tau> where \<tau>: "poll_timeout K ?P timeout = Some \<tau>" "timeout = None \<longrightarrow> \<tau> = deadline - ?now"
      "\<forall>to. timeout = Some to \<longrightarrow> \<tau> = min to (deadline - ?now)"
    using heap by (cases timeout) (auto simp: poll_timeout_def wheel_next_deadline_def saturating_duration_since_def Let_def)
  obtain p where p: "pl_wait K (poller ?P) (Some \<tau>) = (Inr [], p)" "?now + \<tau> \<le> pl_now K p"
    using waits [OF none] by blast
  have "dom (regs p) = {}" using contract_wait(1) [OF poller p(1)] none by simp
  then have r: "regs p = Map.empty" by simp
  have "Poll_poll K timeout ?P = (Ok (if deadline \<le> pl_now K p then [timer_event t] else []),
      ?P\<lparr>poller := p, timers := (timers ?P)\<lparr>tw_heap := if deadline \<le> pl_now K p then [] else tw_heap (timers ?P)\<rparr>\<rparr>)"
    using p(1) \<tau>(1) by (simp add: Poll_poll_def drain_one_timer [OF heap])
  moreover obtain m where "n = Suc m" using assms(2) by (cases n) auto
  moreover have "deadline \<le> pl_now K p \<or> ?now + to \<le> pl_now K p" if "timeout = Some to" for to
    using \<tau>(3) p(2) that by (cases "to \<le> deadline - ?now") auto
  ultimately show ?thesis using r \<tau>(2) p(2) by (intro exI [of _ p]) (auto simp: loop_poll_def loop_now_def)
qed

text \<open>The event reaches the callback; the timer is put back in the wheel, or asks for its removal.\<close>

lemma timer_fires:
  fixes L :: "(timer, 'i, 'p, (instant \<times> instant) list) loop_state"
  assumes "armed regs tm d t deadline L" and "lp_poll L1 = P" and "L1 = L\<lparr>lp_poll := P\<rparr>"
    and "tw_heap (timers P) = []" and "regs (poller P) = Map.empty" and "now = pl_now K (poller P)"
  shows "\<exists>L2 tm'. disp_process (timer_ops K (timed_callback K act stops)) d rd t L1 =
      (Ok (if timer_next act now deadline = None then Remove else Continue), L2) \<and>
    lp_data L2 = lp_data L @ [(deadline, now)] \<and> lp_stop L2 = (lp_stop L \<or> stops) \<and> poller (lp_poll L2) = poller P \<and>
    lp_cells L2 ! d = \<lparr>cell_val = SourceDisp \<lparr>di_source = tm', di_needs = False\<rparr>, cell_borrowed = False\<rparr> \<and>
    lp_lifecycle L2 = [] \<and> lp_idles L2 = [] \<and> lp_pending L2 = Continue \<and> lp_sources L2 = lp_sources L \<and>
    (case timer_next act now deadline of
       None \<Rightarrow> tw_heap (timers (lp_poll L2)) = []
     | Some e \<Rightarrow> armed regs tm' d t e L2)"
proof -
  let ?c = "\<lambda>tm b. \<lparr>cell_val = SourceDisp \<lparr>di_source = tm, di_needs = False\<rparr>, cell_borrowed = b\<rparr>"
  obtain c where reg: "tm_registration tm = Some \<lparr>rg_token = t, rg_counter = c\<rparr>" using assms(1) by (auto simp: armed_def)
  have sv: "lp_lifecycle L = []" "lp_idles L = []" "lp_pending L = Continue" "lp_synthetic L = []" "d < length (lp_cells L)"
    "lp_cells L ! d = ?c tm False" "tm_deadline tm = Some deadline" "sl_lookup (lp_sources L) t = Some d" "tok_sub_id t = 0"
    using assms(1) by (simp_all add: armed_def)
  let ?M = "L1\<lparr>lp_cells := (lp_cells L)[d := ?c tm True], lp_data := lp_data L @ [(deadline, now)], lp_stop := lp_stop L \<or> stops\<rparr>"
  let ?upd = "\<lambda>e w. w\<lparr>tw_heap := [\<lparr>td_deadline = e, td_token = t, td_counter = c\<rparr>]\<rparr>"
  have process: "timer_process K (timed_callback K act stops) tm rd t (set_cell d (?c tm True) L1) =
      (case timer_next act now deadline of
         None \<Rightarrow> (Ok Remove, (case act deadline of TDrop \<Rightarrow> tm | _ \<Rightarrow> tm\<lparr>tm_deadline := None\<rparr>), ?M)
       | Some e \<Rightarrow> (Ok Continue, tm\<lparr>tm_deadline := Some e\<rparr>, with_timers (?upd e) ?M))"
    using reg sv(7) assms(2-4,6)
    by (cases "act deadline")
      (auto simp: timer_process_def timed_callback_def signal_stop_def timer_next_def timer_rearm_def wheel_insert_reuse_def heap_push_def
        with_timers_def loop_now_def set_cell_def split: option.splits)
  show ?thesis
  proof (cases "timer_next act now deadline")
    case None
    let ?tm = "case act deadline of TDrop \<Rightarrow> tm | _ \<Rightarrow> tm\<lparr>tm_deadline := None\<rparr>"
    have "disp_process (timer_ops K (timed_callback K act stops)) d rd t L1 = (Ok Remove, set_cell d (?c ?tm False) ?M)"
      using process None sv(6) assms(3) by (simp add: disp_process_def timer_ops_def Let_def)
    with None sv assms(3,4) show ?thesis by (intro exI [of _ "set_cell d (?c ?tm False) ?M"] exI [of _ ?tm]) (simp add: set_cell_def)
  next
    case (Some e)
    let ?tm = "tm\<lparr>tm_deadline := Some e\<rparr>"
    let ?L2 = "set_cell d (?c ?tm False) (with_timers (?upd e) ?M)"
    have "disp_process (timer_ops K (timed_callback K act stops)) d rd t L1 = (Ok Continue, ?L2)"
      using process Some sv(6) assms(3) by (simp add: disp_process_def timer_ops_def Let_def)
    moreover have "armed regs ?tm d t e ?L2"
      using sv reg assms(3,5) by (simp add: armed_def set_cell_def with_timers_def)
    ultimately show ?thesis using Some sv assms(3)
      by (intro exI [of _ ?L2] exI [of _ ?tm]) (simp add: set_cell_def with_timers_def)
  qed
qed

text \<open>A timer that asked for its removal is not in the wheel any more.\<close>

lemma timer_unregisters:
  assumes "lp_cells L ! d = \<lparr>cell_val = SourceDisp \<lparr>di_source = tm, di_needs = False\<rparr>, cell_borrowed = False\<rparr>"
    and "tw_heap (timers (lp_poll L)) = []"
  shows "\<exists>L'. loop_unregister K (timer_ops K cb) d t (L\<lparr>lp_sources := sl\<rparr>) = (Ok True, L') \<and> lp_sources L' = sl \<and>
    tw_heap (timers (lp_poll L')) = [] \<and> lp_data L' = lp_data L \<and> lp_idles L' = lp_idles L \<and> lp_stop L' = lp_stop L \<and>
    poller (lp_poll L') = poller (lp_poll L)"
  using assms
  by (cases "tm_registration tm")
    (simp_all add: loop_unregister_def store_disp_def disp_unregister_def timer_ops_def timer_unregister_def wheel_cancel_def Let_def)

text \<open>One dispatch.\<close>

lemma timer_dispatch:
  fixes L :: "(timer, 'i, 'p, (instant \<times> instant) list) loop_state"
  assumes "armed regs tm d t deadline L" and "0 < n"
  shows "\<exists>L' now. dispatch K (timer_ops K (timed_callback K act stops)) run_idle n timeout L = (Ok (), L') \<and>
    (timeout = None \<longrightarrow> deadline \<le> now) \<and>
    (\<forall>to. timeout = Some to \<longrightarrow> deadline \<le> now \<or> loop_now K L + to \<le> now) \<and> loop_now K L' = now \<and>
    (if deadline \<le> now
     then lp_data L' = lp_data L @ [(deadline, now)] \<and> lp_stop L' = (lp_stop L \<or> stops) \<and>
       (case timer_next act now deadline of
          None \<Rightarrow> sl_lookup (lp_sources L') t = None \<and> tw_heap (timers (lp_poll L')) = []
        | Some e \<Rightarrow> \<exists>tm'. armed regs tm' d t e L')
     else lp_data L' = lp_data L \<and> armed regs tm d t deadline L' \<and> lp_stop L' = lp_stop L)"
proof -
  let ?ops = "timer_ops K (timed_callback K act stops) :: (timer, 'i, 'p, (instant \<times> instant) list) loop_ops"
  obtain p where poll: "loop_poll K n (pl_now K (poller (lp_poll L))) timeout L =
      (Ok (Some (if deadline \<le> pl_now K p then [timer_event t] else [])),
       L\<lparr>lp_poll := (lp_poll L)\<lparr>poller := p, timers := (timers (lp_poll L))\<lparr>tw_heap := if deadline \<le> pl_now K p then [] else tw_heap (timers (lp_poll L))\<rparr>\<rparr>\<rparr>)"
    "regs p = Map.empty" "timeout = None \<longrightarrow> deadline \<le> pl_now K p"
    "\<forall>to. timeout = Some to \<longrightarrow> deadline \<le> pl_now K p \<or> loop_now K L + to \<le> pl_now K p"
    using timed_poll [OF assms, of "pl_now K (poller (lp_poll L))" timeout] by blast
  have sv: "lp_lifecycle L = []" "lp_synthetic L = []" "lp_idles L = []" "sl_lookup (lp_sources L) t = Some d" "tok_sub_id t = 0"
    using assms(1) by (simp_all add: armed_def)
  show ?thesis
  proof (cases "deadline \<le> pl_now K p")
    case False
    let ?L1 = "L\<lparr>lp_poll := (lp_poll L)\<lparr>poller := p\<rparr>\<rparr>"
    have "loop_poll K n (pl_now K (poller (lp_poll L))) timeout L = (Ok (Some []), ?L1)" using poll(1) False by simp
    then have "dispatch_events K ?ops n timeout L = (Ok (), ?L1)"
      by (rule dispatch_events_none [OF sv(1)]) (simp_all add: sv)
    moreover have "armed regs tm d t deadline ?L1" using assms(1) poll(2) by (simp add: armed_def)
    moreover have "loop_now K ?L1 = pl_now K p" by (simp add: loop_now_def)
    ultimately show ?thesis using False poll(3,4)
      by (intro exI [of _ ?L1] exI [of _ "pl_now K p"]) (simp add: dispatch_def dispatch_no_idles sv)
  next
    case True
    let ?P = "(lp_poll L)\<lparr>poller := p, timers := (timers (lp_poll L))\<lparr>tw_heap := []\<rparr>\<rparr>"
    let ?L1 = "L\<lparr>lp_poll := ?P\<rparr>" and ?next = "timer_next act (pl_now K p) deadline"
    have polled: "loop_poll K n (pl_now K (poller (lp_poll L))) timeout L = (Ok (Some [timer_event t]), ?L1)" using poll(1) True by simp
    have P: "lp_poll ?L1 = ?P" "tw_heap (timers ?P) = []" "regs (poller ?P) = Map.empty" "pl_now K p = pl_now K (poller ?P)"
      using poll(2) by simp_all
    have tok: "forget_sub_id (pe_token (timer_event t)) = t" using sv(5) by (simp add: timer_event_def forget_sub_id_def)
    obtain L2 tm' where fired: "disp_process ?ops d (pe_readiness (timer_event t)) t ?L1 =
          (Ok (if ?next = None then Remove else Continue), L2)"
        "lp_data L2 = lp_data L @ [(deadline, pl_now K p)]" "lp_stop L2 = (lp_stop L \<or> stops)"
        "lp_cells L2 ! d = \<lparr>cell_val = SourceDisp \<lparr>di_source = tm', di_needs = False\<rparr>, cell_borrowed = False\<rparr>"
        "poller (lp_poll L2) = poller ?P" "lp_idles L2 = []" "lp_pending L2 = Continue" "lp_sources L2 = lp_sources L"
        "case ?next of None \<Rightarrow> tw_heap (timers (lp_poll L2)) = [] | Some e \<Rightarrow> armed regs tm' d t e L2"
      using timer_fires [OF assms(1) P(1) refl P(2,3,4), of act stops "pe_readiness (timer_event t)"] by blast
    have ev: "disp_process ?ops d (pe_readiness (timer_event t)) (pe_token (timer_event t)) ?L1 =
        (Ok (if ?next = None then Remove else Continue), L2)"
      using fired(1) by (simp add: timer_event_def)
    have look: "lp_lifecycle ?L1 = []" "lp_synthetic ?L1 = []" "sl_lookup (lp_sources ?L1) t = Some d" "sl_lookup (lp_sources L2) t \<noteq> None"
      using sv fired(8) by simp_all
    note step = sv(1) polled look(1,2) tok look(3)
    show ?thesis
    proof (cases ?next)
      case None
      with fired(9) have "tw_heap (timers (lp_poll L2)) = []" by simp
      from timer_unregisters [OF fired(4) this, of "timed_callback K act stops" t "sl_release t (lp_sources L2)"]
      obtain L3 where L3: "loop_unregister K ?ops d t (L2\<lparr>lp_sources := sl_release t (lp_sources L2)\<rparr>) = (Ok True, L3)"
        "lp_sources L3 = sl_release t (lp_sources L2)" "tw_heap (timers (lp_poll L3)) = []" "lp_data L3 = lp_data L2" "lp_idles L3 = []"
        "lp_stop L3 = lp_stop L2" "poller (lp_poll L3) = poller (lp_poll L2)"
        unfolding fired(6) by blast
      have "sl_lookup (sl_release t (lp_sources L2)) t = None \<and> dispatch K ?ops run_idle n timeout L = (Ok (), L3)"
        using dispatch_removes [OF step _ fired(7) L3(1,5), of run_idle] ev None by simp
      with L3 None True fired(2,3,5) show ?thesis by (intro exI [of _ L3] exI [of _ "pl_now K p"]) (simp add: loop_now_def)
    next
      case (Some e)
      then have "dispatch K ?ops run_idle n timeout L = (Ok (), L2)"
        using dispatch_continues [OF step _ fired(7) look(4) fired(6)] ev by simp
      with Some True fired(2,3,5,9) show ?thesis by (intro exI [of _ L2] exI [of _ "pl_now K p"]) (auto simp: loop_now_def)
    qed
  qed
qed

text \<open>Dispatches until the timer is gone.\<close>

lemma gone_stays: "sl_lookup (lp_sources L) t = None \<Longrightarrow> dispatch_until_gone K' ops run_idle n timeout t k L = (Ok (), L)"
  by (cases k) simp_all

lemma timer_session:
  fixes L :: "(timer, 'i, 'p, (instant \<times> instant) list) loop_state"
  assumes "0 < n"
  shows "armed regs tm d t deadline L \<Longrightarrow>
    \<exists>L' log e. dispatch_until_gone K (timer_ops K (timed_callback K act stops)) run_idle n timeout t k L = (Ok (), L') \<and>
      lp_data L' = lp_data L @ log \<and> timer_log act (Some deadline) log e \<and> length log \<le> k \<and>
      (case e of
         None \<Rightarrow> sl_lookup (lp_sources L') t = None \<and> tw_heap (timers (lp_poll L')) = []
       | Some e' \<Rightarrow> (\<exists>tm'. armed regs tm' d t e' L') \<and> (timeout = None \<longrightarrow> length log = k))"
proof (induction k arbitrary: tm deadline L)
  case 0
  then show ?case by (intro exI [of _ L] exI [of _ "[]"] exI [of _ "Some deadline"]) auto
next
  case (Suc k)
  let ?ops = "timer_ops K (timed_callback K act stops) :: (timer, 'i, 'p, (instant \<times> instant) list) loop_ops"
  have look: "sl_lookup (lp_sources L) t \<noteq> None" using Suc.prems by (simp add: armed_def)
  obtain L1 now where step: "dispatch K ?ops run_idle n timeout L = (Ok (), L1)" "timeout = None \<longrightarrow> deadline \<le> now"
      "if deadline \<le> now
       then lp_data L1 = lp_data L @ [(deadline, now)] \<and>
         (case timer_next act now deadline of
            None \<Rightarrow> sl_lookup (lp_sources L1) t = None \<and> tw_heap (timers (lp_poll L1)) = []
          | Some e \<Rightarrow> \<exists>tm'. armed regs tm' d t e L1)
       else lp_data L1 = lp_data L \<and> armed regs tm d t deadline L1"
    using timer_dispatch [OF Suc.prems assms, of act stops run_idle timeout] by (elim exE conjE) (auto split: if_splits)
  have run: "dispatch_until_gone K ?ops run_idle n timeout t (Suc k) L = dispatch_until_gone K ?ops run_idle n timeout t k L1"
    using look step(1) by (cases "sl_lookup (lp_sources L) t") auto
  show ?case
  proof (cases "deadline \<le> now")
    case False
    with step(3) have "armed regs tm d t deadline L1" "lp_data L1 = lp_data L" by simp_all
    with Suc.IH [of tm deadline L1] obtain L' log e where "dispatch_until_gone K ?ops run_idle n timeout t k L1 = (Ok (), L')"
      "lp_data L' = lp_data L @ log" "timer_log act (Some deadline) log e" "length log \<le> k"
      "case e of None \<Rightarrow> sl_lookup (lp_sources L') t = None \<and> tw_heap (timers (lp_poll L')) = []
       | Some e' \<Rightarrow> (\<exists>tm'. armed regs tm' d t e' L') \<and> (timeout = None \<longrightarrow> length log = k)" by auto
    with run step(2) False show ?thesis
      by (intro exI [of _ L'] exI [of _ log] exI [of _ e]) (auto split: option.splits)
  next
    case True
    with step(3) have data: "lp_data L1 = lp_data L @ [(deadline, now)]" by simp
    show ?thesis
    proof (cases "timer_next act now deadline")
      case None
      with True step(3) have gone: "sl_lookup (lp_sources L1) t = None" "tw_heap (timers (lp_poll L1)) = []" by simp_all
      with run data True None show ?thesis
        by (intro exI [of _ L1] exI [of _ "[(deadline, now)]"] exI [of _ None]) (simp add: gone_stays)
    next
      case (Some e0)
      with True step(3) obtain tm1 where "armed regs tm1 d t e0 L1" by auto
      from Suc.IH [OF this] obtain L' log e where "dispatch_until_gone K ?ops run_idle n timeout t k L1 = (Ok (), L')"
        "lp_data L' = lp_data L1 @ log" "timer_log act (Some e0) log e" "length log \<le> k"
        "case e of None \<Rightarrow> sl_lookup (lp_sources L') t = None \<and> tw_heap (timers (lp_poll L')) = []
         | Some e' \<Rightarrow> (\<exists>tm'. armed regs tm' d t e' L') \<and> (timeout = None \<longrightarrow> length log = k)" by blast
      with run data True Some show ?thesis
        by (intro exI [of _ L'] exI [of _ "(deadline, now) # log"] exI [of _ e]) (auto split: option.splits)
    qed
  qed
qed

text \<open>The first source of a new loop.\<close>

lemma insert_timer_arms:
  fixes p :: 'p
  assumes "try_new K (Inr p) dat = Ok L" and "regs p = Map.empty"
  shows "\<exists>L' t tm. insert_source (timer_ops K cb) (Timer_from_deadline deadline) L = (Ok t, L') \<and> armed regs tm 0 t deadline L' \<and>
    lp_data L' = dat \<and> poller (lp_poll L') = p"
proof -
  let ?t = "\<lparr>tok_id = 0, tok_version = 0, tok_sub_id = 0\<rparr> :: token_inner"
  let ?tm = "\<lparr>tm_registration = Some \<lparr>rg_token = ?t, rg_counter = 0\<rparr>, tm_deadline = Some deadline\<rparr>"
  obtain lt where L: "L = \<lparr>lp_poll = \<lparr>poller = p, level_triggered = lt, timers = TimerWheel_new\<rparr>, lp_sources = [], lp_cells = [],
      lp_lifecycle = [], lp_idles = [], lp_idle_cells = [], lp_pending = Continue, lp_stop = False, lp_future_ready = False,
      lp_synthetic = [], lp_woken = [], lp_data = dat\<rparr>"
    using assms(1) by (auto simp: try_new_def Poll_new_def Poll_new_inner_def SourceList_new_def)
  let ?L' = "L\<lparr>lp_poll := (lp_poll L)\<lparr>timers := \<lparr>tw_heap = [\<lparr>td_deadline = deadline, td_token = ?t, td_counter = 0\<rparr>], tw_counter = 1\<rparr>\<rparr>,
      lp_sources := [\<lparr>se_token = ?t, se_source = Some 0\<rparr>],
      lp_cells := [\<lparr>cell_val = SourceDisp \<lparr>di_source = ?tm, di_needs = False\<rparr>, cell_borrowed = False\<rparr>]\<rparr>"
  have "insert_source (timer_ops K cb) (Timer_from_deadline deadline) L = (Ok ?t, ?L')"
    by (simp add: L insert_source_def Dispatcher_new_def register_dispatcher_def vacant_entry_def TokenInner_new_def
        set_source_def loop_register_def store_disp_def disp_register_def timer_ops_def default_needs_extra_def
        timer_register_def Timer_from_deadline_def Timer_from_deadline_inner_def wheel_insert_def heap_push_def TimerWheel_new_def
        forget_sub_id_def Let_def)
  moreover have "armed regs ?tm 0 ?t deadline ?L'"
    using assms(2) by (simp add: L armed_def sl_lookup_iff get_id_def)
  ultimately show ?thesis by (intro exI [of _ ?L'] exI [of _ ?t] exI [of _ ?tm]) (simp add: L)
qed

end

interpretation linux_clock: timed_poller LXP lx_table
proof (unfold_locales, goal_cases)
  case 1
  then show ?case by (rule LXP_contract)
next
  case (2 p timeout)
  then have "lx_regs p = []" by (simp add: lx_table_def)
  then show ?case by (simp add: LXP_def lx_wait_def lx_ready_def)
qed

section \<open>Timers fire in time\<close>

text \<open>
  Timers fire. In a new loop on a poller that keeps time a timer is inserted, and the loop
  dispatches at most \<open>k\<close> times, until the timer is gone. Every call succeeds, and the callback is run
  with the timer's deadline, never before it, and next with the deadline its answer gave: in a
  series of absolute deadlines none is skipped and none drifts. When it answers \<open>Drop\<close> the timer
  leaves the table and the wheel; otherwise the wheel holds its next deadline, and if the
  dispatches wait without a timeout of their own each of them has run the callback once.
\<close>

theorem timer_end_to_end:
  assumes "timed_poller K regs" and "try_new K (Inr p) [] = Ok L0" and "regs p = Map.empty" and "0 < n"
    and "ops = timer_ops K (timed_callback K act stops)"
  shows "\<exists>t L1 L2 e. insert_source ops (Timer_from_deadline deadline) L0 = (Ok t, L1) \<and>
    dispatch_until_gone K ops run_idle n timeout t k L1 = (Ok (), L2) \<and>
    timer_log act (Some deadline) (lp_data L2) e \<and> length (lp_data L2) \<le> k \<and>
    (sl_lookup (lp_sources L2) t = None \<longleftrightarrow> e = None) \<and> wheel_next_deadline (timers (lp_poll L2)) = e \<and>
    (timeout = None \<longrightarrow> e \<noteq> None \<longrightarrow> length (lp_data L2) = k)"
proof -
  obtain L1 t tm where L1: "insert_source ops (Timer_from_deadline deadline) L0 = (Ok t, L1)" "armed regs tm 0 t deadline L1"
      "lp_data L1 = []"
    using timed_poller.insert_timer_arms [OF assms(1-3), of "timed_callback K act stops" deadline] unfolding assms(5) by blast
  obtain L2 log e where L2: "dispatch_until_gone K ops run_idle n timeout t k L1 = (Ok (), L2)"
      "lp_data L2 = lp_data L1 @ log" "timer_log act (Some deadline) log e" "length log \<le> k"
      "case e of None \<Rightarrow> sl_lookup (lp_sources L2) t = None \<and> tw_heap (timers (lp_poll L2)) = []
       | Some e' \<Rightarrow> (\<exists>tm'. armed regs tm' 0 t e' L2) \<and> (timeout = None \<longrightarrow> length log = k)"
    using timed_poller.timer_session [OF assms(1,4) L1(2), of act stops run_idle timeout k] unfolding assms(5) by blast
  from L2(5) have "(sl_lookup (lp_sources L2) t = None \<longleftrightarrow> e = None) \<and> wheel_next_deadline (timers (lp_poll L2)) = e \<and>
      (timeout = None \<longrightarrow> e \<noteq> None \<longrightarrow> length log = k)"
    by (cases e) (auto simp: armed_def wheel_next_deadline_def)
  with L1 L2 show ?thesis by auto
qed

lemma timer_log_Cons: "timer_log act e (x # l) e' \<longleftrightarrow>
    e = Some (fst x) \<and> fst x \<le> snd x \<and> timer_log act (timer_next act (snd x) (fst x)) l e'"
  by (cases x) simp

definition every_ten :: "instant \<Rightarrow> timeout_action" where
  "every_ten deadline = (if deadline < 30 then ToInstant (deadline + 10) else TDrop)"

theorem timer_end_to_end_witness:
  "\<exists>(L2 :: (timer, nat, linux, (instant \<times> instant) list) loop_state) a b c. lp_data L2 = [(10, a), (20, b), (30, c)] \<and>
     10 \<le> a \<and> 20 \<le> b \<and> 30 \<le> c \<and> wheel_next_deadline (timers (lp_poll L2)) = None"
proof -
  let ?p = "\<lparr>lx_regs = [], lx_counters = \<lambda>_. 0, lx_now = 5, lx_next = 4\<rparr>"
  obtain L0 :: "(timer, nat, linux, (instant \<times> instant) list) loop_state" where L0: "try_new LXP (Inr ?p) [] = Ok L0"
    by (simp add: try_new_def Poll_new_def Poll_new_inner_def LXP_def)
  have "lx_table ?p = Map.empty" by (simp add: lx_table_def)
  from timer_end_to_end [OF linux_clock.timed_poller_axioms L0 this, of 1 _ every_ten False 10 "\<lambda>_ L. L" None 4]
  obtain L2 e where run: "timer_log every_ten (Some 10) (lp_data L2) e" "length (lp_data L2) \<le> 4"
    "wheel_next_deadline (timers (lp_poll (L2 :: (timer, nat, linux, (instant \<times> instant) list) loop_state))) = e"
    "e \<noteq> None \<longrightarrow> length (lp_data L2) = 4"
    by auto
  have log: "timer_log every_ten (Some 10) l e \<Longrightarrow> length l = 4 \<or> e = None \<Longrightarrow>
      \<exists>a b c. l = [(10, a), (20, b), (30, c)] \<and> 10 \<le> a \<and> 20 \<le> b \<and> 30 \<le> c \<and> e = None" for l
    by (cases l; cases "tl l"; cases "tl (tl l)"; cases "tl (tl (tl l))")
      (auto simp: timer_log_Cons every_ten_def timer_next_def prod_eq_iff)
  from log [OF run(1)] run(2-4) show ?thesis by auto
qed

end
