(* ===== verification/Timer_Agenda.thy ===== *)
theory Timer_Agenda
  imports Timer_Loop
begin

text \<open>
  Any number of timers in one loop, against an agenda of deadlines: what a dispatch reports, in which
  order their callbacks run, and what is left in the wheel and in the table of sources. The poller is
  that of \<open>Timer_Loop\<close>, and so is the callback, which all timers share.
\<close>

section \<open>The agenda\<close>

text \<open>
  The deadlines of the timers. What is due at \<open>now\<close> is answered in order of deadline, each answer may
  put a new deadline in the agenda, and those are not looked at before the next dispatch.
\<close>

definition agenda_due :: "instant \<Rightarrow> instant multiset \<Rightarrow> instant list" where
  "agenda_due now M = sorted_list_of_multiset (filter_mset (\<lambda>d. d \<le> now) M)"

definition agenda_next :: "(instant \<Rightarrow> timeout_action) \<Rightarrow> instant \<Rightarrow> instant multiset \<Rightarrow> instant multiset" where
  "agenda_next act now M =
     filter_mset (\<lambda>d. now < d) M + mset (List.map_filter (timer_next act now) (agenda_due now M))"

fun agenda_run :: "(instant \<Rightarrow> timeout_action) \<Rightarrow> instant list \<Rightarrow> instant multiset \<Rightarrow> (instant \<times> instant) list \<times> instant multiset" where
  "agenda_run act [] M = ([], M)"
| "agenda_run act (now # nows) M =
     (case agenda_run act nows (agenda_next act now M) of
        (log, M') \<Rightarrow> (map (\<lambda>d. (d, now)) (agenda_due now M) @ log, M'))"

text \<open>The times of the dispatches: each one ends with something due, or after its timeout.\<close>

fun agenda_timely :: "(instant \<Rightarrow> timeout_action) \<Rightarrow> duration option \<Rightarrow> instant \<Rightarrow> instant list \<Rightarrow> instant multiset \<Rightarrow> bool" where
  "agenda_timely act timeout start [] M = True"
| "agenda_timely act timeout start (now # nows) M =
     (start \<le> now \<and> (agenda_due now M \<noteq> [] \<or> (case timeout of Some to \<Rightarrow> start + to \<le> now | None \<Rightarrow> False)) \<and>
      agenda_timely act timeout now nows (agenda_next act now M))"

lemma agenda_due_eq: "sorted ds \<Longrightarrow> mset ds = filter_mset (\<lambda>d. d \<le> now) M \<Longrightarrow> ds = agenda_due now M"
  unfolding agenda_due_def by (metis sorted_list_of_multiset_mset sorted_sort_id)

section \<open>The timers of a loop\<close>

text \<open>
  The timer of an entry \<open>a\<close> of the wheel: its token names the dispatcher \<open>D\<close> says, which is not borrowed
  and whose timer has the entry's registration and deadline.
\<close>

definition alarm :: "(token \<Rightarrow> nat) \<Rightarrow> timeout_data \<Rightarrow> (timer, 'i, 'p, 'd) loop_state \<Rightarrow> bool" where
  "alarm D a L \<longleftrightarrow>
     tok_sub_id (td_token a) = 0 \<and> sl_lookup (lp_sources L) (td_token a) = Some (D (td_token a)) \<and>
     D (td_token a) < length (lp_cells L) \<and>
     lp_cells L ! D (td_token a) =
       \<lparr>cell_val = SourceDisp \<lparr>di_source = \<lparr>tm_registration = Some \<lparr>rg_token = td_token a, rg_counter = td_counter a\<rparr>,
          tm_deadline = Some (td_deadline a)\<rparr>, di_needs = False\<rparr>, cell_borrowed = False\<rparr>"

text \<open>The timers \<open>A\<close> are the only sources of the loop and have dispatchers and counters of their own.\<close>

definition alarms :: "('p \<Rightarrow> raw_fd \<rightharpoonup> pevent \<times> poll_mode) \<Rightarrow> (token \<Rightarrow> nat) \<Rightarrow> timeout_data set
    \<Rightarrow> (timer, 'i, 'p, 'd) loop_state \<Rightarrow> bool" where
  "alarms regs D A L \<longleftrightarrow>
     lp_lifecycle L = [] \<and> lp_synthetic L = [] \<and> lp_idles L = [] \<and> lp_pending L = Continue \<and>
     regs (poller (lp_poll L)) = Map.empty \<and> slots_wf (lp_sources L) \<and>
     finite A \<and> (\<forall>a \<in> A. alarm D a L) \<and> inj_on (\<lambda>a. D (td_token a)) A \<and> inj_on td_counter A \<and>
     (\<forall>i < length (lp_sources L). se_source (lp_sources L ! i) \<noteq> None \<longrightarrow> i \<in> (\<lambda>a. get_id (td_token a)) ` A)"

definition occupied :: "'x source_list \<Rightarrow> nat" where
  "occupied sl = length (filter (\<lambda>slot. se_source slot \<noteq> None) sl)"

lemma alarmsD:
  assumes "alarms regs D A L"
  shows "lp_lifecycle L = []" "lp_synthetic L = []" "lp_idles L = []" "lp_pending L = Continue"
    "regs (poller (lp_poll L)) = Map.empty" "slots_wf (lp_sources L)" "finite A"
    "inj_on (\<lambda>a. D (td_token a)) A" "inj_on td_counter A"
  using assms by (simp_all add: alarms_def)

lemma same_source_plain: "tok_sub_id t = 0 \<Longrightarrow> tok_sub_id u = 0 \<Longrightarrow> same_source_as t u \<longleftrightarrow> t = u"
  by (auto simp: same_source_as_def intro: token_inner.equality)

lemma alarm_tokens:
  assumes "alarms regs D A L" and "a \<in> A" and "b \<in> A"
  shows "same_source_as (td_token a) (td_token b) \<longleftrightarrow> a = b" "get_id (td_token a) = get_id (td_token b) \<longleftrightarrow> a = b"
proof -
  have ab: "alarm D a L" "alarm D b L" and inj: "inj_on (\<lambda>a. D (td_token a)) A" using assms by (auto simp: alarms_def)
  have "a = b" if "get_id (td_token a) = get_id (td_token b)"
    using ab that inj_onD [OF inj _ assms(2,3)] by (auto simp: alarm_def sl_lookup_iff)
  then show "get_id (td_token a) = get_id (td_token b) \<longleftrightarrow> a = b" by blast
  then show "same_source_as (td_token a) (td_token b) \<longleftrightarrow> a = b" using same_source_get_id by auto
qed

lemma alarms_occupied:
  assumes "alarms regs D A L" shows "occupied (lp_sources L) = card A"
proof -
  have "{i. i < length (lp_sources L) \<and> se_source (lp_sources L ! i) \<noteq> None} = (\<lambda>a. get_id (td_token a)) ` A"
    using assms by (fastforce simp: alarms_def alarm_def sl_lookup_iff)
  moreover have "inj_on (\<lambda>a. get_id (td_token a)) A" using alarm_tokens(2) [OF assms] by (auto intro: inj_onI)
  ultimately show ?thesis by (simp add: occupied_def length_filter_conv_card card_image)
qed

section \<open>One event\<close>

text \<open>A timer whose slot is emptied takes nothing of another timer with it.\<close>

lemma alarm_frame:
  assumes "alarm D b L" and "alarms regs D A L" and "a \<in> A" and "b \<in> A" and "a \<noteq> b"
    and "lp_sources L' = lp_sources L \<or> lp_sources L' = sl_release (td_token a) (lp_sources L)"
    and "lp_cells L' = (lp_cells L)[D (td_token a) := c]"
  shows "alarm D b L'"
proof -
  have "D (td_token b) \<noteq> D (td_token a)" using assms(2-5) by (auto simp: alarms_def dest: inj_onD)
  moreover have "\<not> same_source_as (td_token b) (td_token a)" using alarm_tokens(1) [OF assms(2,4,3)] assms(5) by blast
  ultimately show ?thesis using assms(1,6,7) slots.release_frame [OF alarmsD(6) [OF assms(2)]] by (auto simp: alarm_def)
qed

text \<open>\<open>a\<close> has a new deadline, or is gone.\<close>

lemma alarms_moved:
  assumes "alarms regs D A L" and "a \<in> A" and "alarm D (a\<lparr>td_deadline := e\<rparr>) L'" and "lp_sources L' = lp_sources L"
    and "lp_cells L' = (lp_cells L)[D (td_token a) := c]" and "lp_lifecycle L' = []" and "lp_synthetic L' = []"
    and "lp_idles L' = []" and "lp_pending L' = Continue" and "poller (lp_poll L') = poller (lp_poll L)"
  shows "alarms regs D (insert (a\<lparr>td_deadline := e\<rparr>) (A - {a})) L'"
proof -
  have inj: "inj_on (\<lambda>b. D (td_token b)) A" "inj_on td_counter A" by (rule alarmsD [OF assms(1)])+
  have other: "D (td_token b) \<noteq> D (td_token a)" "td_counter b \<noteq> td_counter a" if "b \<in> A" "b \<noteq> a" for b
    using that assms(2) inj by (auto dest: inj_onD)
  have "inj_on (\<lambda>b. D (td_token b)) (insert (a\<lparr>td_deadline := e\<rparr>) (A - {a}))"
    "inj_on td_counter (insert (a\<lparr>td_deadline := e\<rparr>) (A - {a}))"
    using other inj by (auto simp: inj_on_insert intro: inj_on_subset) (metis other(1), metis other(2))
  moreover have "alarm D b L'" if "b \<in> A" "b \<noteq> a" for b
    using alarm_frame [OF _ assms(1,2) that(1) that(2) [symmetric] _ assms(5)] assms(1,4) that(1) by (auto simp: alarms_def)
  ultimately show ?thesis using assms by (auto simp: alarms_def image_iff)
qed

lemma alarms_removed:
  assumes "alarms regs D A L" and "a \<in> A" and "lp_sources L' = sl_release (td_token a) (lp_sources L)"
    and "lp_cells L' = (lp_cells L)[D (td_token a) := c]" and "lp_lifecycle L' = []" and "lp_synthetic L' = []"
    and "lp_idles L' = []" and "lp_pending L' = Continue" and "poller (lp_poll L') = poller (lp_poll L)"
  shows "alarms regs D (A - {a}) L'"
proof -
  have "alarm D b L'" if "b \<in> A" "b \<noteq> a" for b
    using alarm_frame [OF _ assms(1,2) that(1) that(2) [symmetric] _ assms(4)] assms(1,3) that(1) by (auto simp: alarms_def)
  moreover have "alarm D a L" using assms(1,2) by (auto simp: alarms_def)
  then have "i \<noteq> get_id (td_token a) \<and> i \<in> (\<lambda>b. get_id (td_token b)) ` A"
    if "i < length (lp_sources L')" "se_source (lp_sources L' ! i) \<noteq> None" for i
    using that assms(1,3) by (auto simp: alarm_def alarms_def sl_lookup_iff sl_release_eq source_set_source split: if_splits)
  then have "i \<in> (\<lambda>b. get_id (td_token b)) ` (A - {a})"
    if "i < length (lp_sources L')" "se_source (lp_sources L' ! i) \<noteq> None" for i
    using that by blast
  moreover have "slots_wf (lp_sources L')" using slots_wf_release [OF alarmsD(6) [OF assms(1)]] assms(3) by simp
  ultimately show ?thesis using assms by (auto simp: alarms_def intro: inj_on_subset)
qed

lemma continuing_event:
  assumes "forget_sub_id t = t" and "sl_lookup (lp_sources L) t = Some d"
    and "\<And>rd. disp_process ops d rd t L = (Ok Continue, L2)" and "take_pending Continue L2 = (Continue, L2)"
    and "lp_sources L2 = lp_sources L"
  shows "dispatch_event K ops (timer_event t) L = (Ok (), L2)"
  using assms by (simp add: dispatch_event_def timer_event_def apply_post_action_def unregister_if_removed_def)

lemma removing_event:
  assumes "forget_sub_id t = t" and "sl_lookup (lp_sources L) t = Some d" and "sl_lookup (sl_release t (lp_sources L)) t = None"
    and "\<And>rd. disp_process ops d rd t L = (Ok Remove, L2)"
    and "loop_unregister K ops d t (L2\<lparr>lp_sources := sl_release t (lp_sources L)\<rparr>) = (Ok b, L3)"
    and "take_pending Remove L2 = (Remove, L2)" and "lp_sources L2 = lp_sources L"
  shows "dispatch_event K ops (timer_event t) L = (Ok (), L3)"
  using assms by (simp add: dispatch_event_def timer_event_def apply_post_action_def unregister_if_removed_def log_error_def)

text \<open>
  The event of the timer \<open>a\<close>, which is not in the wheel any more: its callback runs with its deadline, and
  the timer is put back in the wheel or leaves the table.
\<close>

lemma alarm_event:
  fixes L :: "(timer, 'i, 'p, (instant \<times> instant) list) loop_state"
  assumes "alarms regs D A L" and "a \<in> A" and "td_counter a \<notin> td_counter ` set (tw_heap (timers (lp_poll L)))"
    and "now = loop_now K L"
  shows "\<exists>L'. dispatch_event K (timer_ops K (timed_callback K act stops)) (timer_event (td_token a)) L = (Ok (), L') \<and>
    lp_data L' = lp_data L @ [(td_deadline a, now)] \<and> poller (lp_poll L') = poller (lp_poll L) \<and>
    (case timer_next act now (td_deadline a) of
       None \<Rightarrow> alarms regs D (A - {a}) L' \<and> tw_heap (timers (lp_poll L')) = tw_heap (timers (lp_poll L))
     | Some e \<Rightarrow> alarms regs D (insert (a\<lparr>td_deadline := e\<rparr>) (A - {a})) L' \<and>
         tw_heap (timers (lp_poll L')) = tw_heap (timers (lp_poll L)) @ [a\<lparr>td_deadline := e\<rparr>])"
proof -
  let ?t = "td_token a" and ?d = "D (td_token a)" and ?reg = "\<lparr>rg_token = td_token a, rg_counter = td_counter a\<rparr>"
  let ?c = "\<lambda>e b. \<lparr>cell_val = SourceDisp \<lparr>di_source = \<lparr>tm_registration = Some ?reg, tm_deadline = e\<rparr>, di_needs = False\<rparr>, cell_borrowed = b\<rparr>"
  let ?ops = "timer_ops K (timed_callback K act stops) :: (timer, 'i, 'p, (instant \<times> instant) list) loop_ops"
  let ?M = "L\<lparr>lp_cells := (lp_cells L)[?d := ?c (Some (td_deadline a)) True], lp_data := lp_data L @ [(td_deadline a, now)],
    lp_stop := lp_stop L \<or> stops\<rparr>"
  have al: "tok_sub_id ?t = 0" "sl_lookup (lp_sources L) ?t = Some ?d" "?d < length (lp_cells L)"
    "lp_cells L ! ?d = ?c (Some (td_deadline a)) False"
    using assms(1,2) by (auto simp: alarms_def alarm_def)
  note fr = alarmsD [OF assms(1)]
  have tok: "forget_sub_id ?t = ?t" using al(1) by (simp add: forget_sub_id_def)
  have gone: "sl_lookup (sl_release ?t (lp_sources L)) ?t = None" by (rule slots.release_none [OF fr(6)])
  have absent: "wheel_cancel (td_counter a) w = w" if "tw_heap w = tw_heap (timers (lp_poll L))" for w
  proof -
    have "\<forall>x \<in> set (tw_heap w). td_counter x \<noteq> td_counter a" using assms(3) that by (metis imageI)
    then show ?thesis by (intro wheel_cancel_absent) (simp add: entries_def wheel_items_def filter_mset_eq_mempty_iff)
  qed
  show ?thesis
  proof (cases "timer_next act now (td_deadline a)")
    case None
    let ?e = "case act (td_deadline a) of TDrop \<Rightarrow> Some (td_deadline a) | _ \<Rightarrow> None"
    let ?L2 = "?M\<lparr>lp_cells := (lp_cells L)[?d := ?c ?e False]\<rparr>"
    let ?L' = "?L2\<lparr>lp_sources := sl_release ?t (lp_sources L),
      lp_cells := (lp_cells L)[?d := \<lparr>cell_val = SourceDisp \<lparr>di_source = \<lparr>tm_registration = None, tm_deadline = ?e\<rparr>, di_needs = False\<rparr>, cell_borrowed = False\<rparr>]\<rparr>"
    have "disp_process ?ops ?d rd ?t L = (Ok Remove, ?L2)" for rd
      using al None assms(4)
      by (cases "act (td_deadline a)")
        (auto simp: disp_process_def timer_ops_def timer_process_def timed_callback_def signal_stop_def timer_next_def loop_now_def
          set_cell_def Let_def split: option.splits)
    moreover have "loop_unregister K ?ops ?d ?t (?L2\<lparr>lp_sources := sl_release ?t (lp_sources L)\<rparr>) = (Ok True, ?L')"
      using al(3) absent by (simp add: loop_unregister_def store_disp_def disp_unregister_def timer_ops_def timer_unregister_def Let_def)
    moreover have "take_pending Remove ?L2 = (Remove, ?L2)" using fr(4) by (simp add: take_pending_def)
    moreover have "lp_sources ?L2 = lp_sources L" by simp
    ultimately have "dispatch_event K ?ops (timer_event ?t) L = (Ok (), ?L')"
      by (intro removing_event [OF tok al(2) gone])
    moreover have "alarms regs D (A - {a}) ?L'"
      by (rule alarms_removed [OF assms(1,2)]) (simp_all add: fr)
    ultimately show ?thesis using None by (intro exI [of _ ?L']) simp
  next
    case (Some e)
    let ?L' = "with_timers (wheel_insert_reuse (td_counter a) e ?t) (?M\<lparr>lp_cells := (lp_cells L)[?d := ?c (Some e) False]\<rparr>)"
    have a: "a\<lparr>td_deadline := e\<rparr> = \<lparr>td_deadline = e, td_token = td_token a, td_counter = td_counter a\<rparr>" by (cases a) simp
    have "disp_process ?ops ?d rd ?t L = (Ok Continue, ?L')" for rd
      using al Some assms(4)
      by (cases "act (td_deadline a)")
        (auto simp: disp_process_def timer_ops_def timer_process_def timed_callback_def signal_stop_def timer_next_def timer_rearm_def
          loop_now_def set_cell_def with_timers_def Let_def split: option.splits)
    moreover have "take_pending Continue ?L' = (Continue, ?L')" using fr(4) by (simp add: take_pending_def with_timers_def)
    moreover have "lp_sources ?L' = lp_sources L" by (simp add: with_timers_def)
    ultimately have "dispatch_event K ?ops (timer_event ?t) L = (Ok (), ?L')"
      by (intro continuing_event [OF tok al(2)])
    moreover have "alarms regs D (insert (a\<lparr>td_deadline := e\<rparr>) (A - {a})) ?L'"
      using al by (intro alarms_moved [OF assms(1,2), where c = "?c (Some e) False"])
        (simp_all add: fr with_timers_def alarm_def)
    ultimately show ?thesis using Some
      by (intro exI [of _ ?L']) (simp add: a with_timers_def wheel_insert_reuse_def heap_push_def)
  qed
qed

section \<open>One dispatch\<close>

definition deadlines :: "timeout_data set \<Rightarrow> instant multiset" where
  "deadlines A = image_mset td_deadline (mset_set A)"

text \<open>The entries that the timers \<open>ds\<close> of a batch put back in the wheel.\<close>

definition rearmed :: "(instant \<Rightarrow> timeout_action) \<Rightarrow> instant \<Rightarrow> timeout_data list \<Rightarrow> timeout_data list" where
  "rearmed act now ds = List.map_filter (\<lambda>a. map_option (\<lambda>e. a\<lparr>td_deadline := e\<rparr>) (timer_next act now (td_deadline a))) ds"

lemma rearmed_simps [simp]:
  "rearmed act now [] = []"
  "rearmed act now (a # ds) =
     (case timer_next act now (td_deadline a) of None \<Rightarrow> rearmed act now ds | Some e \<Rightarrow> a\<lparr>td_deadline := e\<rparr> # rearmed act now ds)"
  by (simp_all add: rearmed_def map_filter_simps split: option.split)

lemma rearmed_deadlines: "map td_deadline (rearmed act now ds) = List.map_filter (timer_next act now) (map td_deadline ds)"
  by (induction ds) (simp_all add: map_filter_simps split: option.split)

lemma rearmed_counters: "td_counter ` set (rearmed act now ds) \<subseteq> td_counter ` set ds"
  by (induction ds) (auto split: option.splits)

lemma rearmed_distinct: "distinct (map td_counter ds) \<Longrightarrow> distinct (map td_counter (rearmed act now ds))"
proof (induction ds)
  case (Cons a ds)
  then have "td_counter a \<notin> td_counter ` set (rearmed act now ds)" using rearmed_counters by fastforce
  with Cons show ?case by (auto split: option.split)
qed simp

lemma alarm_events:
  fixes L :: "(timer, 'i, 'p, (instant \<times> instant) list) loop_state"
  assumes "alarms regs D A L" and "set ds \<subseteq> A" and "distinct ds"
    and "\<forall>a \<in> set ds. td_counter a \<notin> td_counter ` set (tw_heap (timers (lp_poll L)))" and "now = loop_now K L"
  shows "\<exists>L'. dispatch_list K (timer_ops K (timed_callback K act stops)) (map (\<lambda>a. timer_event (td_token a)) ds) L = (Ok (), L') \<and>
    lp_data L' = lp_data L @ map (\<lambda>a. (td_deadline a, now)) ds \<and> poller (lp_poll L') = poller (lp_poll L) \<and>
    alarms regs D (A - set ds \<union> set (rearmed act now ds)) L' \<and>
    tw_heap (timers (lp_poll L')) = tw_heap (timers (lp_poll L)) @ rearmed act now ds"
  using assms
proof (induction ds arbitrary: A L)
  case (Cons a ds)
  let ?ops = "timer_ops K (timed_callback K act stops) :: (timer, 'i, 'p, (instant \<times> instant) list) loop_ops"
  have a: "a \<in> A" "a \<notin> set ds" "set ds \<subseteq> A" "td_counter a \<notin> td_counter ` set (tw_heap (timers (lp_poll L)))" using Cons.prems(2-4) by auto
  have cnt: "td_counter b \<noteq> td_counter a" if "b \<in> set ds" for b
    using that a(1-3) inj_onD [OF alarmsD(9) [OF Cons.prems(1)]] by blast
  obtain L1 where L1: "dispatch_event K ?ops (timer_event (td_token a)) L = (Ok (), L1)"
    "lp_data L1 = lp_data L @ [(td_deadline a, now)]" "poller (lp_poll L1) = poller (lp_poll L)"
    "case timer_next act now (td_deadline a) of
       None \<Rightarrow> alarms regs D (A - {a}) L1 \<and> tw_heap (timers (lp_poll L1)) = tw_heap (timers (lp_poll L))
     | Some e \<Rightarrow> alarms regs D (insert (a\<lparr>td_deadline := e\<rparr>) (A - {a})) L1 \<and>
         tw_heap (timers (lp_poll L1)) = tw_heap (timers (lp_poll L)) @ [a\<lparr>td_deadline := e\<rparr>]"
    using alarm_event [OF Cons.prems(1) a(1,4) Cons.prems(5), of act stops] by blast
  have now: "now = loop_now K L1" using Cons.prems(5) L1(3) by (simp add: loop_now_def)
  show ?case
  proof (cases "timer_next act now (td_deadline a)")
    case None
    with L1(4) have s: "alarms regs D (A - {a}) L1" "tw_heap (timers (lp_poll L1)) = tw_heap (timers (lp_poll L))" by simp_all
    have "set ds \<subseteq> A - {a}" "distinct ds" "\<forall>b \<in> set ds. td_counter b \<notin> td_counter ` set (tw_heap (timers (lp_poll L1)))"
      using a Cons.prems(3,4) s(2) by auto
    from Cons.IH [OF s(1) this now] L1 s(2) None show ?thesis
      by (auto simp: Diff_insert2 [symmetric] insert_commute)
  next
    case (Some e)
    let ?a = "a\<lparr>td_deadline := e\<rparr>"
    from Some L1(4) have s: "alarms regs D (insert ?a (A - {a})) L1" "tw_heap (timers (lp_poll L1)) = tw_heap (timers (lp_poll L)) @ [?a]"
      by simp_all
    have new: "?a \<notin> set ds" using cnt [of ?a] by auto
    have "set ds \<subseteq> insert ?a (A - {a})" "distinct ds" "\<forall>b \<in> set ds. td_counter b \<notin> td_counter ` set (tw_heap (timers (lp_poll L1)))"
      using a Cons.prems(3,4) s(2) cnt by auto
    from Cons.IH [OF s(1) this now] obtain L' where L': "dispatch_list K ?ops (map (\<lambda>a. timer_event (td_token a)) ds) L1 = (Ok (), L')"
      "lp_data L' = lp_data L1 @ map (\<lambda>a. (td_deadline a, now)) ds" "poller (lp_poll L') = poller (lp_poll L1)"
      "alarms regs D (insert ?a (A - {a}) - set ds \<union> set (rearmed act now ds)) L'"
      "tw_heap (timers (lp_poll L')) = tw_heap (timers (lp_poll L1)) @ rearmed act now ds"
      by blast
    have "insert ?a (A - {a}) - set ds \<union> set (rearmed act now ds) = A - set (a # ds) \<union> set (rearmed act now (a # ds))"
      using new Some by auto
    with L' L1 s(2) Some show ?thesis by (intro exI [of _ L']) simp
  qed
qed simp

lemma dispatch_events_listed:
  assumes "lp_lifecycle L = []" and "loop_poll K n (pl_now K (poller (lp_poll L))) timeout L = (Ok (Some evs), L1)"
    and "lp_lifecycle L1 = []" and "lp_synthetic L1 = []" and "dispatch_list K ops evs L1 = (Ok (), L2)"
  shows "dispatch_events K ops n timeout L = (Ok (), L2)"
proof -
  have same: "L1\<lparr>lp_synthetic := []\<rparr> = L1" using assms(4) by simp
  show ?thesis using assms by (simp add: dispatch_events_def same Let_def)
qed

context timed_poller
begin

text \<open>The wait ends with the timers that are due, in the order of their deadlines.\<close>

lemma alarms_poll:
  assumes "alarms regs D A L" and "mset (tw_heap (timers (lp_poll L))) = mset_set A" and "A \<noteq> {}" and "0 < n"
  shows "\<exists>p w ds. loop_poll K n now0 timeout L =
      (Ok (Some (map (\<lambda>a. timer_event (td_token a)) ds)), L\<lparr>lp_poll := (lp_poll L)\<lparr>poller := p, timers := w\<rparr>\<rparr>) \<and>
    regs p = Map.empty \<and> mset ds = filter_mset (\<lambda>a. td_deadline a \<le> pl_now K p) (mset_set A) \<and> sorted (map td_deadline ds) \<and>
    mset (tw_heap w) = filter_mset (\<lambda>a. pl_now K p < td_deadline a) (mset_set A) \<and> loop_now K L \<le> pl_now K p \<and>
    (ds \<noteq> [] \<or> (case timeout of Some to \<Rightarrow> loop_now K L + to \<le> pl_now K p | None \<Rightarrow> False))"
proof -
  let ?P = "lp_poll L" and ?now = "loop_now K L"
  note none = alarmsD(5) [OF assms(1)]
  have "tw_heap (timers ?P) \<noteq> []" using assms(2,3) alarmsD(7) [OF assms(1)] by (auto simp: mset_set_empty_iff)
  then obtain e where e: "heap_peek (tw_heap (timers ?P)) = Some e" by (metis heap_peek_None_iff not_None_eq)
  obtain \<tau> where \<tau>: "poll_timeout K ?P timeout = Some \<tau>"
      "\<tau> = (case timeout of Some to \<Rightarrow> min to (td_deadline e - ?now) | None \<Rightarrow> td_deadline e - ?now)"
    using e by (cases timeout) (auto simp: poll_timeout_def wheel_next_deadline_def saturating_duration_since_def loop_now_def Let_def)
  obtain p where p: "pl_wait K (poller ?P) (Some \<tau>) = (Inr [], p)" "?now + \<tau> \<le> pl_now K p"
    using waits [OF none] by (auto simp: loop_now_def)
  have "dom (regs p) = {}" using contract_wait(1) [OF poller p(1)] none by simp
  then have r: "regs p = Map.empty" by simp
  obtain ts w where d: "drain_expired (pl_now K p) (timers ?P) = (ts, w)" by force
  from drain_expired_items [OF d] obtain ds where ds: "ts = map td_token ds"
    "mset ds = filter_mset (\<lambda>a. td_deadline a \<le> pl_now K p) (mset_set A)" "sorted (map td_deadline ds)"
    "mset (tw_heap w) = filter_mset (\<lambda>a. pl_now K p < td_deadline a) (mset_set A)"
    using assms(2) by (auto simp: wheel_items_def)
  have "Poll_poll K timeout ?P = (Ok (map (\<lambda>a. timer_event (td_token a)) ds), ?P\<lparr>poller := p, timers := w\<rparr>)"
    using p(1) \<tau>(1) d ds(1) by (simp add: Poll_poll_def)
  moreover obtain m where "n = Suc m" using assms(4) by (cases n) auto
  moreover have "ds \<noteq> []" if "td_deadline e \<le> pl_now K p"
  proof -
    have "e \<in># mset_set A" using heap_peek_SomeD [OF e] assms(2) by (metis set_mset_mset)
    with that ds(2) show ?thesis by (metis filter_mset_eq_mempty_iff mset.simps(1))
  qed
  moreover have "td_deadline e \<le> pl_now K p \<or> (case timeout of Some to \<Rightarrow> ?now + to \<le> pl_now K p | None \<Rightarrow> False)"
    using \<tau>(2) p(2) by (auto split: option.splits simp: min_def split: if_splits)
  ultimately show ?thesis using r ds p(2)
    by (intro exI [of _ p] exI [of _ w] exI [of _ ds]) (auto simp: loop_poll_def)
qed

text \<open>A dispatch: the agenda of the deadlines moves on.\<close>

lemma alarms_dispatch:
  fixes L :: "(timer, 'i, 'p, (instant \<times> instant) list) loop_state"
  assumes "alarms regs D A L" and "mset (tw_heap (timers (lp_poll L))) = mset_set A" and "A \<noteq> {}" and "0 < n"
  shows "\<exists>L' A' now. dispatch K (timer_ops K (timed_callback K act stops)) run_idle n timeout L = (Ok (), L') \<and>
    alarms regs D A' L' \<and> mset (tw_heap (timers (lp_poll L'))) = mset_set A' \<and> loop_now K L' = now \<and>
    lp_data L' = lp_data L @ map (\<lambda>d. (d, now)) (agenda_due now (deadlines A)) \<and>
    deadlines A' = agenda_next act now (deadlines A) \<and> loop_now K L \<le> now \<and>
    (agenda_due now (deadlines A) \<noteq> [] \<or> (case timeout of Some to \<Rightarrow> loop_now K L + to \<le> now | None \<Rightarrow> False))"
proof -
  let ?ops = "timer_ops K (timed_callback K act stops) :: (timer, 'i, 'p, (instant \<times> instant) list) loop_ops"
  obtain p w ds where poll: "loop_poll K n (pl_now K (poller (lp_poll L))) timeout L =
      (Ok (Some (map (\<lambda>a. timer_event (td_token a)) ds)), L\<lparr>lp_poll := (lp_poll L)\<lparr>poller := p, timers := w\<rparr>\<rparr>)"
    "regs p = Map.empty" "mset ds = filter_mset (\<lambda>a. td_deadline a \<le> pl_now K p) (mset_set A)" "sorted (map td_deadline ds)"
    "mset (tw_heap w) = filter_mset (\<lambda>a. pl_now K p < td_deadline a) (mset_set A)" "loop_now K L \<le> pl_now K p"
    "ds \<noteq> [] \<or> (case timeout of Some to \<Rightarrow> loop_now K L + to \<le> pl_now K p | None \<Rightarrow> False)"
    using alarms_poll [OF assms, of "pl_now K (poller (lp_poll L))" timeout] by blast
  let ?now = "pl_now K p" and ?L1 = "L\<lparr>lp_poll := (lp_poll L)\<lparr>poller := p, timers := w\<rparr>\<rparr>"
  note fr = alarmsD [OF assms(1)]
  have al: "alarms regs D A ?L1" using assms(1) poll(2) by (simp add: alarms_def alarm_def)
  have sets: "set ds = {a \<in> A. td_deadline a \<le> ?now}" "set (tw_heap w) = {a \<in> A. ?now < td_deadline a}"
    using arg_cong [OF poll(3), of set_mset] arg_cong [OF poll(5), of set_mset] fr(7) by auto
  have "mset ds = mset_set (set ds)" using poll(3) sets(1) fr(7) by (simp add: filter_mset_mset_set)
  then have ds: "distinct ds" by (metis card_distinct size_mset size_mset_set)
  have fresh: "\<forall>a \<in> set ds. td_counter a \<notin> td_counter ` set (tw_heap w)"
    using sets inj_onD [OF fr(9)] by fastforce
  have sub: "set ds \<subseteq> A" using sets by blast
  obtain L2 where L2: "dispatch_list K ?ops (map (\<lambda>a. timer_event (td_token a)) ds) ?L1 = (Ok (), L2)"
    "lp_data L2 = lp_data L @ map (\<lambda>a. (td_deadline a, ?now)) ds" "poller (lp_poll L2) = p"
    "alarms regs D (A - set ds \<union> set (rearmed act ?now ds)) L2" "tw_heap (timers (lp_poll L2)) = tw_heap w @ rearmed act ?now ds"
    using alarm_events [OF al sub ds, of ?now K act stops] fresh by (auto simp: loop_now_def)
  let ?A = "A - set ds \<union> set (rearmed act ?now ds)"
  have "dispatch_events K ?ops n timeout L = (Ok (), L2)"
    by (rule dispatch_events_listed [OF fr(1) poll(1) _ _ L2(1)]) (simp_all add: fr)
  then have run: "dispatch K ?ops run_idle n timeout L = (Ok (), L2)"
    using alarmsD(3) [OF L2(4)] by (simp add: dispatch_def dispatch_no_idles)
  have due: "map td_deadline ds = agenda_due ?now (deadlines A)"
    using poll(3,4) by (intro agenda_due_eq) (simp_all add: deadlines_def filter_mset_image_mset)
  have cnt: "distinct (map td_counter (rearmed act ?now ds))"
    using ds inj_on_subset [OF fr(9) sub] by (intro rearmed_distinct) (simp add: distinct_map)
  have "x \<notin> set (rearmed act ?now ds)" if x: "x \<in> A" "x \<notin> set ds" for x
  proof
    assume "x \<in> set (rearmed act ?now ds)"
    then have "td_counter x \<in> td_counter ` set ds" by (rule subsetD [OF rearmed_counters imageI])
    then obtain y where y: "y \<in> set ds" "td_counter x = td_counter y" by (elim imageE)
    have "x = y" using inj_onD [OF fr(9) y(2) x(1)] y(1) sub by blast
    with x(2) y(1) show False by simp
  qed
  then have disj: "(A - set ds) \<inter> set (rearmed act ?now ds) = {}" by blast
  have "x \<in> A - set ds \<longleftrightarrow> x \<in> {a \<in> A. ?now < td_deadline a}" for x
    unfolding sets(1) by (cases "x \<in> A") (simp_all add: not_le)
  then have "A - set ds = {a \<in> A. ?now < td_deadline a}" by (rule set_eqI)
  then have rest: "mset (tw_heap w) = mset_set (A - set ds)" using poll(5) fr(7) by (simp add: filter_mset_mset_set)
  then have heap: "mset (tw_heap (timers (lp_poll L2))) = mset_set ?A"
    using L2(5) disj fr(7) cnt by (simp add: mset_set_Union mset_set_set distinct_map)
  have "deadlines ?A = image_mset td_deadline (mset (tw_heap w)) + mset (map td_deadline (rearmed act ?now ds))"
    using heap L2(5) by (simp add: deadlines_def flip: heap)
  also have "image_mset td_deadline (mset (tw_heap w)) = filter_mset (\<lambda>d. ?now < d) (deadlines A)"
    using poll(5) by (simp add: deadlines_def filter_mset_image_mset)
  finally have "deadlines ?A = agenda_next act ?now (deadlines A)"
    using due rearmed_deadlines [of act ?now ds] by (simp add: agenda_next_def)
  moreover have "lp_data L2 = lp_data L @ map (\<lambda>d. (d, ?now)) (agenda_due ?now (deadlines A))"
    using L2(2) unfolding due [symmetric] by simp
  moreover have "loop_now K L2 = ?now" using L2(3) by (simp add: loop_now_def)
  moreover have "agenda_due ?now (deadlines A) \<noteq> [] \<or> (case timeout of Some to \<Rightarrow> loop_now K L + to \<le> ?now | None \<Rightarrow> False)"
    using poll(7) unfolding due [symmetric] by simp
  ultimately show ?thesis using run L2(4) heap poll(6)
    by (intro exI [of _ L2] exI [of _ ?A] exI [of _ ?now]) blast
qed

end

section \<open>Rounds\<close>

text \<open>At most \<open>k\<close> dispatches, ended when the wheel is empty.\<close>

fun dispatch_timers :: "'p poller_ops \<Rightarrow> ('s, 'i, 'p, 'd) loop_ops
    \<Rightarrow> ('i \<Rightarrow> ('s, 'i, 'p, 'd) loop_state \<Rightarrow> ('s, 'i, 'p, 'd) loop_state) \<Rightarrow> nat \<Rightarrow> duration option
    \<Rightarrow> nat \<Rightarrow> ('s, 'i, 'p, 'd) loop_state \<Rightarrow> unit cresult \<times> ('s, 'i, 'p, 'd) loop_state" where
  "dispatch_timers K ops run_idle n timeout 0 L = (Ok (), L)"
| "dispatch_timers K ops run_idle n timeout (Suc k) L =
     (if tw_heap (timers (lp_poll L)) = [] then (Ok (), L)
      else and_then (dispatch K ops run_idle n timeout L) (\<lambda>_ L'. dispatch_timers K ops run_idle n timeout k L'))"

context timed_poller
begin

lemma alarms_rounds:
  fixes L :: "(timer, 'i, 'p, (instant \<times> instant) list) loop_state"
  assumes "alarms regs D A L" and "mset (tw_heap (timers (lp_poll L))) = mset_set A" and "0 < n"
  shows "\<exists>L' A' nows log. dispatch_timers K (timer_ops K (timed_callback K act stops)) run_idle n timeout k L = (Ok (), L') \<and>
    alarms regs D A' L' \<and> mset (tw_heap (timers (lp_poll L'))) = mset_set A' \<and> lp_data L' = lp_data L @ log \<and>
    agenda_run act nows (deadlines A) = (log, deadlines A') \<and> agenda_timely act timeout (loop_now K L) nows (deadlines A) \<and>
    length nows \<le> k \<and> (A' = {} \<or> length nows = k)"
  using assms(1,2)
proof (induction k arbitrary: L A)
  case 0
  then show ?case by (intro exI [of _ L] exI [of _ A] exI [of _ "[]"] exI [of _ "[]"]) simp
next
  case (Suc k)
  let ?ops = "timer_ops K (timed_callback K act stops) :: (timer, 'i, 'p, (instant \<times> instant) list) loop_ops"
  have none: "tw_heap (timers (lp_poll L)) = [] \<longleftrightarrow> A = {}"
    using Suc.prems(2) alarmsD(7) [OF Suc.prems(1)] by (auto simp: mset_set_empty_iff)
  show ?case
  proof (cases "A = {}")
    case True
    with Suc.prems none show ?thesis by (intro exI [of _ L] exI [of _ A] exI [of _ "[]"] exI [of _ "[]"]) simp
  next
    case False
    obtain L1 A1 now where L1: "dispatch K ?ops run_idle n timeout L = (Ok (), L1)" "alarms regs D A1 L1"
      "mset (tw_heap (timers (lp_poll L1))) = mset_set A1" "loop_now K L1 = now"
      "lp_data L1 = lp_data L @ map (\<lambda>d. (d, now)) (agenda_due now (deadlines A))"
      "deadlines A1 = agenda_next act now (deadlines A)" "loop_now K L \<le> now"
      "agenda_due now (deadlines A) \<noteq> [] \<or> (case timeout of Some to \<Rightarrow> loop_now K L + to \<le> now | None \<Rightarrow> False)"
      using alarms_dispatch [OF Suc.prems False assms(3), of act stops run_idle timeout] by blast
    from Suc.IH [OF L1(2,3)] obtain L' A' nows log where
      "dispatch_timers K ?ops run_idle n timeout k L1 = (Ok (), L')"
      "alarms regs D A' L'" "mset (tw_heap (timers (lp_poll L'))) = mset_set A'" "lp_data L' = lp_data L1 @ log"
      "agenda_run act nows (deadlines A1) = (log, deadlines A')" "agenda_timely act timeout now nows (deadlines A1)"
      "length nows \<le> k" "A' = {} \<or> length nows = k"
      using L1(4) by blast
    with L1 none False show ?thesis
      by (intro exI [of _ L'] exI [of _ A'] exI [of _ "now # nows"]
          exI [of _ "map (\<lambda>d. (d, now)) (agenda_due now (deadlines A)) @ log"]) auto
  qed
qed

end

section \<open>Insertion\<close>

fun insert_timers :: "(timer, 'i, 'p, 'd) loop_ops \<Rightarrow> instant list \<Rightarrow> (timer, 'i, 'p, 'd) loop_state
    \<Rightarrow> (timer insert_error, registration_token list) outcome \<times> (timer, 'i, 'p, 'd) loop_state" where
  "insert_timers ops [] L = (Ok [], L)"
| "insert_timers ops (deadline # ds) L =
     and_then (insert_source ops (Timer_from_deadline deadline) L) (\<lambda>t L1.
     and_then (insert_timers ops ds L1) (\<lambda>ts L2. (Ok (t # ts), L2)))"

lemma vacant_entry_sources:
  "vacant_entry sl = (Ok i, sl') \<Longrightarrow> j < length sl' \<Longrightarrow> se_source (sl' ! j) \<noteq> None \<Longrightarrow>
    j < length sl \<and> se_source (sl ! j) \<noteq> None"
  using position_SomeD [of "\<lambda>slot. se_source slot = None" sl]
  by (cases "i = j") (auto simp: vacant_entry_def nth_append less_Suc_eq split: option.splits outcome.splits if_splits)

lemma vacant_entry_length:
  assumes "vacant_entry sl = (Ok i, sl')" shows "length sl' = max (length sl) (Suc (occupied sl))"
proof (cases "position (\<lambda>slot. se_source slot = None) sl")
  case None
  then have "filter (\<lambda>slot. se_source slot \<noteq> None) sl = sl" by (auto simp: position_None_iff filter_id_conv)
  with None assms show ?thesis by (auto simp: vacant_entry_def occupied_def split: outcome.splits)
next
  case (Some k)
  then have "sl ! k \<in> set sl" "se_source (sl ! k) = None" using position_SomeD [OF Some] by auto
  then have "occupied sl < length sl" unfolding occupied_def by (intro length_filter_less) simp_all
  with Some assms show ?thesis by (auto simp: vacant_entry_def split: outcome.splits)
qed

text \<open>A new timer joins the others.\<close>

lemma insert_alarm:
  fixes L :: "(timer, 'i, 'p, 'd) loop_state"
  assumes "alarms regs D A L" and "mset (tw_heap (timers (lp_poll L))) = mset_set A"
    and "tw_counter (timers (lp_poll L)) \<notin> td_counter ` A" and "length (lp_sources L) < 2 ^ 32"
  shows "\<exists>L' D' a. insert_source (timer_ops K cb) (Timer_from_deadline deadline) L = (Ok (td_token a), L') \<and>
    alarms regs D' (insert a A) L' \<and> a \<notin> A \<and> td_deadline a = deadline \<and> td_counter a = tw_counter (timers (lp_poll L)) \<and>
    mset (tw_heap (timers (lp_poll L'))) = mset_set (insert a A) \<and> tw_counter (timers (lp_poll L')) = tw_counter (timers (lp_poll L)) + 1 \<and>
    length (lp_sources L') = max (length (lp_sources L)) (Suc (card A)) \<and> lp_data L' = lp_data L \<and>
    poller (lp_poll L') = poller (lp_poll L)"
proof -
  note fr = alarmsD [OF assms(1)]
  let ?d = "length (lp_cells L)" and ?w = "timers (lp_poll L)"
  obtain i sl where v: "vacant_entry (lp_sources L) = (Ok i, sl)"
    using assms(4) by (cases "position (\<lambda>slot. se_source slot = None) (lp_sources L)") (auto simp: vacant_entry_def TokenInner_new_def)
  note ve = vacant_entry_Ok [OF fr(6) v]
  let ?t = "se_token (sl ! i)"
  have sub: "tok_sub_id ?t = 0" "forget_sub_id ?t = ?t" using slots_wfD(2) [OF ve(1,2)] by (simp_all add: forget_sub_id_def)
  have claim: "sl_claim ?d (lp_sources L) = (Ok ?t, set_source i (Some ?d) sl)" by (simp add: sl_claim_def v)
  let ?a = "\<lparr>td_deadline = deadline, td_token = ?t, td_counter = tw_counter ?w\<rparr>"
  let ?tm = "\<lparr>tm_registration = Some \<lparr>rg_token = ?t, rg_counter = tw_counter ?w\<rparr>, tm_deadline = Some deadline\<rparr>"
  let ?L' = "L\<lparr>lp_cells := lp_cells L @ [\<lparr>cell_val = SourceDisp \<lparr>di_source = ?tm, di_needs = False\<rparr>, cell_borrowed = False\<rparr>],
    lp_sources := set_source i (Some ?d) sl,
    lp_poll := (lp_poll L)\<lparr>timers := \<lparr>tw_heap = tw_heap ?w @ [?a], tw_counter = tw_counter ?w + 1\<rparr>\<rparr>\<rparr>"
  have ins: "insert_source (timer_ops K cb) (Timer_from_deadline deadline) L = (Ok ?t, ?L')"
    using v ve(2) sub
    by (simp add: insert_source_def Dispatcher_new_def register_dispatcher_def loop_register_def store_disp_def disp_register_def
        timer_ops_def default_needs_extra_def timer_register_def Timer_from_deadline_def Timer_from_deadline_inner_def
        wheel_insert_def heap_push_def factory_token_eq TokenFactory_new_def Let_def)
  let ?D = "D(?t := ?d)"
  have old: "td_token b \<noteq> ?t" "D (td_token b) \<noteq> ?d" "alarm ?D b ?L'" if "b \<in> A" for b
  proof -
    have b: "alarm D b L" using assms(1) that by (auto simp: alarms_def)
    then show t: "td_token b \<noteq> ?t" and "D (td_token b) \<noteq> ?d" using ve(5) by (auto simp: alarm_def)
    with b show "alarm ?D b ?L'"
      using slots.claim_lookup [OF fr(6) claim, of "td_token b"] same_source_plain [of "td_token b" ?t] sub(1)
      by (auto simp: alarm_def nth_append)
  qed
  have D: "?D (td_token b) = D (td_token b)" if "b \<in> A" for b using old(1) [OF that] by simp
  have "inj_on (\<lambda>b. ?D (td_token b)) A" using inj_on_cong [of A "\<lambda>b. ?D (td_token b)", OF D] fr(8) by blast
  moreover have "?D (td_token ?a) \<noteq> ?D (td_token b)" if "b \<in> A" for b using old(2) [OF that] D [OF that] by simp
  ultimately have "inj_on (\<lambda>b. ?D (td_token b)) (insert ?a A)" by (intro inj_on_insert [THEN iffD2]) blast
  moreover have "inj_on td_counter (insert ?a A)" using fr(9) assms(3) by (simp add: inj_on_insert) blast
  moreover have "alarm ?D ?a ?L'" using slots.claim_named [OF fr(6) claim] sub(1) by (simp add: alarm_def)
  moreover have "j \<in> (\<lambda>b. get_id (td_token b)) ` insert ?a A"
    if "j < length (lp_sources ?L')" "se_source (lp_sources ?L' ! j) \<noteq> None" for j
    using that vacant_entry_sources [OF v, of j] assms(1) ve(2,4) by (cases "j = i") (auto simp: alarms_def source_set_source)
  ultimately have "alarms regs ?D (insert ?a A) ?L'"
    using fr old(3) ve(1) by (simp add: alarms_def)
  moreover have "?a \<notin> A" using assms(3) by force
  ultimately show ?thesis using ins assms(2) fr(7) vacant_entry_length [OF v] alarms_occupied [OF assms(1)]
    by (intro exI [of _ ?L'] exI [of _ ?D] exI [of _ ?a]) simp
qed

text \<open>
  The timers \<open>A\<close> of a loop, all in the wheel, after \<open>i\<close> insertions; the table has grown to \<open>m\<close> slots.
\<close>

definition stocked :: "('p \<Rightarrow> raw_fd \<rightharpoonup> pevent \<times> poll_mode) \<Rightarrow> (token \<Rightarrow> nat) \<Rightarrow> timeout_data set \<Rightarrow> nat \<Rightarrow> nat
    \<Rightarrow> (timer, 'i, 'p, 'd) loop_state \<Rightarrow> bool" where
  "stocked regs D A i m L \<longleftrightarrow>
     alarms regs D A L \<and> mset (tw_heap (timers (lp_poll L))) = mset_set A \<and> tw_counter (timers (lp_poll L)) = of_nat i \<and>
     td_counter ` A \<subseteq> of_nat ` {..<i} \<and> length (lp_sources L) = m \<and> card A \<le> m \<and> m \<le> i"

lemma counter_fresh:
  assumes "i < 2 ^ 32" shows "(of_nat i :: u32) \<notin> of_nat ` {..<i}"
proof
  assume "(of_nat i :: u32) \<in> of_nat ` {..<i}"
  then obtain j where j: "j < i" "(of_nat i :: u32) = of_nat j" by auto
  have "unat (of_nat i :: u32) = i" "unat (of_nat j :: u32) = j"
    using assms j(1) by (simp_all add: unsigned_of_nat take_bit_nat_eq_self)
  with j show False by simp
qed

lemma insert_stocked:
  fixes L :: "(timer, 'i, 'p, 'd) loop_state"
  assumes "stocked regs D A i m L" and "i < 2 ^ 32"
  shows "\<exists>L' D' a. insert_source (timer_ops K cb) (Timer_from_deadline deadline) L = (Ok (td_token a), L') \<and>
    stocked regs D' (insert a A) (Suc i) (max m (Suc (card A))) L' \<and> a \<notin> A \<and> td_deadline a = deadline \<and>
    lp_data L' = lp_data L \<and> poller (lp_poll L') = poller (lp_poll L)"
proof -
  have L: "alarms regs D A L" "mset (tw_heap (timers (lp_poll L))) = mset_set A" "tw_counter (timers (lp_poll L)) = of_nat i"
    "td_counter ` A \<subseteq> of_nat ` {..<i}" "length (lp_sources L) = m" "card A \<le> m" "m \<le> i"
    using assms(1) by (simp_all add: stocked_def)
  have "tw_counter (timers (lp_poll L)) \<notin> td_counter ` A" using counter_fresh [OF assms(2)] L(3,4) by auto
  from insert_alarm [OF L(1,2) this, of K cb deadline] obtain L' D' a where
    a: "insert_source (timer_ops K cb) (Timer_from_deadline deadline) L = (Ok (td_token a), L')"
    "alarms regs D' (insert a A) L'" "a \<notin> A" "td_deadline a = deadline" "td_counter a = of_nat i"
    "mset (tw_heap (timers (lp_poll L'))) = mset_set (insert a A)" "tw_counter (timers (lp_poll L')) = of_nat i + 1"
    "length (lp_sources L') = max m (Suc (card A))" "lp_data L' = lp_data L" "poller (lp_poll L') = poller (lp_poll L)"
    using L(3,5,7) assms(2) by auto
  have "td_counter ` insert a A \<subseteq> of_nat ` {..<Suc i}" using a(5) L(4) by (auto simp: lessThan_Suc)
  moreover have "card (insert a A) = Suc (card A)" using a(3) alarmsD(7) [OF L(1)] by simp
  ultimately have "stocked regs D' (insert a A) (Suc i) (max m (Suc (card A))) L'"
    using a(2,6,7,8) L(6,7) by (simp add: stocked_def)
  with a(1,3,4,9,10) show ?thesis by blast
qed

lemma insert_alarms:
  fixes L :: "(timer, 'i, 'p, 'd) loop_state"
  assumes "stocked regs D A i m L" and "i + length ds \<le> 2 ^ 32"
  shows "\<exists>ts L' D' A' m'. insert_timers (timer_ops K cb) ds L = (Ok ts, L') \<and> stocked regs D' A' (i + length ds) m' L' \<and>
    deadlines A' = deadlines A + mset ds \<and> lp_data L' = lp_data L \<and> poller (lp_poll L') = poller (lp_poll L)"
  using assms
proof (induction ds arbitrary: L D A i m)
  case Nil
  then show ?case by (intro exI [of _ "[]"] exI [of _ L] exI [of _ D] exI [of _ A] exI [of _ m]) simp
next
  case (Cons deadline ds)
  obtain L1 D1 a where a: "insert_source (timer_ops K cb) (Timer_from_deadline deadline) L = (Ok (td_token a), L1)"
    "stocked regs D1 (insert a A) (Suc i) (max m (Suc (card A))) L1" "a \<notin> A" "td_deadline a = deadline"
    "lp_data L1 = lp_data L" "poller (lp_poll L1) = poller (lp_poll L)"
    using insert_stocked [OF Cons.prems(1), of K cb deadline] Cons.prems(2) by auto
  obtain ts L' D' A' m' where "insert_timers (timer_ops K cb) ds L1 = (Ok ts, L')" "stocked regs D' A' (Suc i + length ds) m' L'"
    "deadlines A' = deadlines (insert a A) + mset ds" "lp_data L' = lp_data L1" "poller (lp_poll L') = poller (lp_poll L1)"
    using Cons.IH [OF a(2)] Cons.prems(2) by auto
  moreover have "finite A" using Cons.prems(1) by (auto simp: stocked_def alarms_def)
  then have "deadlines (insert a A) = add_mset deadline (deadlines A)" using a(3,4) by (simp add: deadlines_def)
  ultimately show ?case using a(1,5,6)
    by (intro exI [of _ "td_token a # ts"] exI [of _ L'] exI [of _ D'] exI [of _ A'] exI [of _ m']) simp
qed

lemma new_loop_stocked:
  assumes "try_new K (Inr p) dat = Ok L" and "regs p = Map.empty"
  shows "stocked regs D {} 0 0 L" "lp_data L = dat" "poller (lp_poll L) = p"
  using assms by (auto simp: try_new_def Poll_new_def Poll_new_inner_def SourceList_new_def TimerWheel_new_def stocked_def alarms_def slots_wf_def)

section \<open>Timers fire in order\<close>

text \<open>
  C4: any number of timers in one loop behave as an agenda of deadlines. In a new loop on a poller that
  keeps time timers are inserted, as many as the counter of the wheel tells apart, and the loop dispatches at most
  \<open>k\<close> times, until no timer is left. Every call succeeds; each dispatch runs, in the order of their deadlines, the
  callbacks of all timers that are due when its wait ends and of no other, each once and with its own
  deadline; the deadlines their answers give are looked at from the next dispatch on. A dispatch ends with
  something due or after its timeout. The wheel then holds the deadlines of the agenda, and the table
  one source for each.
\<close>

theorem timers_fire_in_order:
  assumes "timed_poller K regs" and "try_new K (Inr p) [] = Ok L0" and "regs p = Map.empty" and "0 < n"
    and "length ds \<le> 2 ^ 32" and "ops = timer_ops K (timed_callback K act stops)"
  shows "\<exists>ts L1 L2 nows M. insert_timers ops ds L0 = (Ok ts, L1) \<and> dispatch_timers K ops run_idle n timeout k L1 = (Ok (), L2) \<and>
    agenda_run act nows (mset ds) = (lp_data L2, M) \<and> agenda_timely act timeout (pl_now K p) nows (mset ds) \<and>
    length nows \<le> k \<and> (M = {#} \<or> length nows = k) \<and>
    image_mset td_deadline (wheel_items (timers (lp_poll L2))) = M \<and> occupied (lp_sources L2) = size M"
proof -
  note new = new_loop_stocked [where regs = regs and p = p, OF assms(2,3)]
  obtain ts L1 D A where L1: "insert_timers ops ds L0 = (Ok ts, L1)" "alarms regs D A L1" "mset (tw_heap (timers (lp_poll L1))) = mset_set A"
    "deadlines A = mset ds" "lp_data L1 = []" "poller (lp_poll L1) = p"
    using insert_alarms [OF new(1), of ds K "timed_callback K act stops"] new(2,3) assms(5) unfolding assms(6)
    by (auto simp: deadlines_def stocked_def)
  obtain L2 A' nows log where L2: "dispatch_timers K ops run_idle n timeout k L1 = (Ok (), L2)" "alarms regs D A' L2"
    "mset (tw_heap (timers (lp_poll L2))) = mset_set A'" "lp_data L2 = lp_data L1 @ log"
    "agenda_run act nows (deadlines A) = (log, deadlines A')" "agenda_timely act timeout (loop_now K L1) nows (deadlines A)"
    "length nows \<le> k" "A' = {} \<or> length nows = k"
    using timed_poller.alarms_rounds [OF assms(1) L1(2,3) assms(4), of act stops run_idle timeout k] unfolding assms(6) by blast
  have "size (deadlines A') = card A'" "A' = {} \<longrightarrow> deadlines A' = {#}" by (simp_all add: deadlines_def)
  with L1 L2 alarms_occupied [OF L2(2)] show ?thesis
    by (intro exI [of _ ts] exI [of _ L1] exI [of _ L2] exI [of _ nows] exI [of _ "deadlines A'"])
      (auto simp: deadlines_def wheel_items_def loop_now_def)
qed

theorem timers_fire_in_order_witness:
  "\<exists>(L2 :: (timer, nat, linux, (instant \<times> instant) list) loop_state) now rest.
     lp_data L2 = (10, now) # (10, now) # rest \<and> 10 \<le> now"
proof -
  let ?p = "\<lparr>lx_regs = [], lx_counters = \<lambda>_. 0, lx_now = 5, lx_next = 4\<rparr>"
  obtain L0 :: "(timer, nat, linux, (instant \<times> instant) list) loop_state" where L0: "try_new LXP (Inr ?p) [] = Ok L0"
    by (simp add: try_new_def Poll_new_def Poll_new_inner_def LXP_def)
  have "lx_table ?p = Map.empty" by (simp add: lx_table_def)
  from timers_fire_in_order [OF linux_clock.timed_poller_axioms L0 this, of 1 "[30, 10, 20, 10]" _ "\<lambda>_. TDrop" False "\<lambda>_ L. L" None 1]
  obtain L2 nows M where run: "agenda_run (\<lambda>_. TDrop) nows {#30, 10, 20, 10#} = (lp_data (L2 :: (timer, nat, linux, (instant \<times> instant) list) loop_state), M)"
    "agenda_timely (\<lambda>_. TDrop) None (pl_now LXP ?p) nows {#30, 10, 20, 10#}" "length nows \<le> 1" "M = {#} \<or> length nows = 1"
    by auto
  then obtain now where nows: "nows = [now]" by (cases nows) auto
  with run(2) have "10 \<le> now" by (auto simp: agenda_due_def split: if_splits)
  then have "\<exists>rest. map (\<lambda>d. (d, now)) (agenda_due now {#30, 10, 20, 10#}) = (10, now) # (10, now) # rest"
    by (cases "20 \<le> now"; cases "30 \<le> now") (auto simp: agenda_due_def)
  moreover have "lp_data L2 = map (\<lambda>d. (d, now)) (agenda_due now {#30, 10, 20, 10#})" using run(1) nows by simp
  ultimately show ?thesis using \<open>10 \<le> now\<close> by metis
qed

end
