(* ===== verification/Executor.thy ===== *)
theory Executor
  imports Ping_Eventfd Ping_Pipe
begin

text \<open>
  \<open>src/src/sources/futures.rs\<close>: a single-threaded executor of futures as an event source. The tasks
  are those of the \<open>async-task\<close> crate and the table of active ones is a \<open>slab\<close>; of these the model
  uses what they document: a runnable is known by its index, running it polls its future once, and
  waking a task sends its runnable unless it is finished or queued already. The index that the slab
  gives to the next entry depends on the insertions and removals so far: \<open>vacant_key\<close>, a parameter,
  gets them as the slab's history. The shared \<open>State\<close> is found in the world by \<open>ex\<close>.
\<close>

section \<open>State\<close>

datatype 't active = Future nat | Finished 't

definition active_is_finished :: "'t active \<Rightarrow> bool" where
  "active_is_finished a = (case a of Finished _ \<Rightarrow> True | Future _ \<Rightarrow> False)"

datatype slab_op = SlabInsert nat | SlabRemove nat

record 'a slab =
  sb_entries :: "'a option list"
  sb_history :: "slab_op list"

text \<open>\<open>es_active\<close> is \<open>None\<close> once the executor is destroyed; \<open>es_receiver\<close>: \<open>incoming\<close> still exists.\<close>

record 't exec_state =
  es_incoming :: "nat list"
  es_active :: "'t active slab option"
  es_notified :: bool
  es_receiver :: bool

definition slab_new :: "'a slab" where
  "slab_new = \<lparr>sb_entries = [], sb_history = []\<rparr>"

definition slab_size :: "'a slab \<Rightarrow> nat" where
  "slab_size s = length (sb_entries s)"

definition slab_insert :: "nat \<Rightarrow> 'a \<Rightarrow> 'a slab \<Rightarrow> 'a slab" where
  "slab_insert key v s =
     \<lparr>sb_entries = (if key < slab_size s then (sb_entries s)[key := Some v] else sb_entries s @ [Some v]),
      sb_history = SlabInsert key # sb_history s\<rparr>"

definition slab_remove :: "nat \<Rightarrow> 'a slab \<Rightarrow> 'a slab" where
  "slab_remove key s = \<lparr>sb_entries = (sb_entries s)[key := None], sb_history = SlabRemove key # sb_history s\<rparr>"

definition slab_set :: "nat \<Rightarrow> 'a \<Rightarrow> 'a slab \<Rightarrow> 'a slab" where
  "slab_set key v s = s\<lparr>sb_entries := (sb_entries s)[key := Some v]\<rparr>"

definition slab_get :: "nat \<Rightarrow> 'a slab \<Rightarrow> 'a option" where
  "slab_get key s = (if key < slab_size s then sb_entries s ! key else None)"

text \<open>The task has not run to its end.\<close>

definition unfinished :: "nat \<Rightarrow> 't active slab \<Rightarrow> bool" where
  "unfinished i tasks = (case slab_get i tasks of Some (Future _) \<Rightarrow> True | _ \<Rightarrow> False)"

lemma slab_size_simps [simp]:
  "slab_size slab_new = 0" "slab_size (slab_remove key s) = slab_size s" "slab_size (slab_set key v s) = slab_size s"
  "sb_entries slab_new = []" "slab_size (slab_insert key v s) = (if key < slab_size s then slab_size s else Suc (slab_size s))"
  by (simp_all add: slab_size_def slab_new_def slab_remove_def slab_set_def slab_insert_def)

lemma slab_get_set: "i < slab_size s \<Longrightarrow> slab_get i (slab_set i v s) = Some v"
  by (simp add: slab_get_def slab_set_def slab_size_def)

lemma slab_remove_set: "slab_remove i (slab_set i v s) = slab_remove i s"
  by (simp add: slab_remove_def slab_set_def)

text \<open>\<open>executor()\<close>: the shared state; the ping is made by the backend.\<close>

definition executor_new :: "('w, 't exec_state) access \<Rightarrow> ('w \<Rightarrow> (io_error + 'h \<times> 'src) \<times> 'w) \<Rightarrow> 'w
    \<Rightarrow> ('h \<times> 'src) cresult \<times> 'w" where
  "executor_new ex make_ping w =
     (case make_ping w of
        (Inl e, w') \<Rightarrow> (Err (error_from_io e), w')
      | (Inr r, w') \<Rightarrow>
          (Ok r, acc_put ex \<lparr>es_incoming = [], es_active = Some slab_new, es_notified = False, es_receiver = True\<rparr> w'))"

section \<open>Sender and Scheduler\<close>

text \<open>\<open>Sender::send\<close>: a send after the queue is gone is \<open>unreachable!()\<close>.\<close>

definition exec_send :: "('w, 't exec_state) access \<Rightarrow> ('w \<Rightarrow> 'w) \<Rightarrow> nat \<Rightarrow> 'w \<Rightarrow> (unit, unit) outcome \<times> 'w" where
  "exec_send ex ping runnable w =
     (let s = acc_get ex w in
      if \<not> es_receiver s then (Panic, w)
      else
        (let w1 = acc_put ex (s\<lparr>es_incoming := es_incoming s @ [runnable], es_notified := True\<rparr>) w in
         (Ok (), if es_notified s then w1 else ping w1)))"

text \<open>A waker of \<open>async_task\<close>: a finished task is not scheduled again, nor is one that is queued already.\<close>

definition wake_task :: "('w, 't exec_state) access \<Rightarrow> ('w \<Rightarrow> 'w) \<Rightarrow> bool \<Rightarrow> nat \<Rightarrow> 'w \<Rightarrow> (unit, unit) outcome \<times> 'w" where
  "wake_task ex ping finished task w =
     (if finished \<or> task \<in> set (es_incoming (acc_get ex w)) then (Ok (), w) else exec_send ex ping task w)"

text \<open>Waking from outside; the tasks of a destroyed executor have been dropped.\<close>

definition exec_wake :: "('w, 't exec_state) access \<Rightarrow> ('w \<Rightarrow> 'w) \<Rightarrow> nat \<Rightarrow> 'w \<Rightarrow> (unit, unit) outcome \<times> 'w" where
  "exec_wake ex ping task w =
     wake_task ex ping (case es_active (acc_get ex w) of None \<Rightarrow> True | Some tasks \<Rightarrow> \<not> unfinished task tasks) task w"

datatype executor_destroyed = ExecutorDestroyed

text \<open>\<open>StoreOnDrop::drop\<close>, with the value if the future was polled to its end.\<close>

definition store_on_drop :: "('w, 't exec_state) access \<Rightarrow> nat \<Rightarrow> 't option \<Rightarrow> 'w \<Rightarrow> 'w" where
  "store_on_drop ex index val w =
     (let s = acc_get ex w in
      case es_active s of
        None \<Rightarrow> w
      | Some active_tasks \<Rightarrow>
          acc_put ex (s\<lparr>es_active := Some (case val of
              Some v \<Rightarrow> slab_set index (Finished v) active_tasks
            | None \<Rightarrow> slab_remove index active_tasks)\<rparr>) w)"

definition schedule :: "('w, 't exec_state) access \<Rightarrow> ('w \<Rightarrow> 'w) \<Rightarrow> ('t active slab \<Rightarrow> nat) \<Rightarrow> 'w
    \<Rightarrow> (executor_destroyed, nat) outcome \<times> 'w" where
  "schedule ex ping vacant_key w =
     (let s = acc_get ex w in
      case es_active s of
        None \<Rightarrow> (Err ExecutorDestroyed, w)
      | Some active_tasks \<Rightarrow>
          (let index = vacant_key active_tasks in
           case exec_send ex ping index
               (acc_put ex (s\<lparr>es_active := Some (slab_insert index (Future index) active_tasks)\<rparr>) w) of
             (Ok _, w') \<Rightarrow> (Ok index, w')
           | (_, w') \<Rightarrow> (Panic, w')))"

section \<open>Running\<close>

text \<open>\<open>Runnable::run\<close>: poll the future, and store its value if it is ready.\<close>

definition runnable_run :: "('w, 't exec_state) access \<Rightarrow> (nat \<Rightarrow> 'w \<Rightarrow> 't option \<times> 'w) \<Rightarrow> nat \<Rightarrow> 'w \<Rightarrow> 'w" where
  "runnable_run ex poll_future index w =
     (case poll_future index w of
        (Some v, w') \<Rightarrow> store_on_drop ex index (Some v) w'
      | (None, w') \<Rightarrow> w')"

text \<open>
  The closure of \<open>process_events\<close>: \<open>clear_readiness\<close>, and whether \<open>unwrap\<close> met a destroyed
  executor, are its captured state.
\<close>

fun exec_loop :: "('w, 't exec_state) access \<Rightarrow> (nat \<Rightarrow> 'w \<Rightarrow> 't option \<times> 'w) \<Rightarrow> ('t \<Rightarrow> 'w \<Rightarrow> 'w) \<Rightarrow> nat
    \<Rightarrow> bool \<times> bool \<Rightarrow> 'w \<Rightarrow> (bool \<times> bool) \<times> 'w" where
  "exec_loop ex poll_future callback 0 c w = (c, w)"
| "exec_loop ex poll_future callback (Suc n) c w =
     (case es_incoming (acc_get ex w) of
        [] \<Rightarrow> ((True, snd c), w)
      | index # rest \<Rightarrow>
          (let w1 = runnable_run ex poll_future index (acc_put ex ((acc_get ex w)\<lparr>es_incoming := rest\<rparr>) w);
               s = acc_get ex w1
           in case es_active s of
                None \<Rightarrow> ((fst c, True), w1)
              | Some active_tasks \<Rightarrow>
                  (case slab_get index active_tasks of
                     Some (Finished result) \<Rightarrow>
                       exec_loop ex poll_future callback n c
                         (callback result (acc_put ex (s\<lparr>es_active := Some (slab_remove index active_tasks)\<rparr>) w1))
                   | _ \<Rightarrow> exec_loop ex poll_future callback n c w1)))"

definition exec_on_ping :: "('w, 't exec_state) access \<Rightarrow> (nat \<Rightarrow> 'w \<Rightarrow> 't option \<times> 'w) \<Rightarrow> ('t \<Rightarrow> 'w \<Rightarrow> 'w)
    \<Rightarrow> bool \<times> bool \<Rightarrow> 'w \<Rightarrow> (bool \<times> bool) \<times> 'w" where
  "exec_on_ping ex poll_future callback c w =
     exec_loop ex poll_future callback 1024 c (acc_put ex ((acc_get ex w)\<lparr>es_notified := False\<rparr>) w)"

definition executor_process :: "('src, bool \<times> bool, 'w) ping_process \<Rightarrow> ('w \<Rightarrow> 'w) \<Rightarrow> ('w, 't exec_state) access
    \<Rightarrow> (nat \<Rightarrow> 'w \<Rightarrow> 't option \<times> 'w) \<Rightarrow> ('t \<Rightarrow> 'w \<Rightarrow> 'w) \<Rightarrow> ('src, 'w) process_op" where
  "executor_process pp ping ex poll_future callback src rd token w =
     (case pp src rd token (exec_on_ping ex poll_future callback) (False, False) w of
        (Ok action, src', (clear_readiness, panicked), w') \<Rightarrow>
          if panicked then (Panic, src', w')
          else if \<not> clear_readiness then (Ok Continue, src', ping w')
          else (Ok action, src', w')
      | (Err e, src', _, w') \<Rightarrow> (Err (WakeError e), src', w')
      | (Panic, src', _, w') \<Rightarrow> (Panic, src', w')
      | (Diverge, src', _, w') \<Rightarrow> (Diverge, src', w'))"

text \<open>The registration operations delegate to the ping source.\<close>

definition executor_register :: "('src, 'p) register_op \<Rightarrow> ('src, 'p) register_op" where
  "executor_register reg src P tf = reg src P tf"

definition executor_reregister :: "('src, 'p) register_op \<Rightarrow> ('src, 'p) register_op" where
  "executor_reregister rereg src P tf = rereg src P tf"

definition executor_unregister :: "('src, 'p) unregister_op \<Rightarrow> ('src, 'p) unregister_op" where
  "executor_unregister unreg src P = unreg src P"

section \<open>Dropping the executor\<close>

text \<open>
  \<open>Drop\<close>: take the active tasks, wake each unfinished one so that its runnable is queued, then
  empty the queue. Dropping a runnable drops its future, whose \<open>StoreOnDrop\<close> finds no tasks.
\<close>

fun wake_all :: "('w, 't exec_state) access \<Rightarrow> ('w \<Rightarrow> 'w) \<Rightarrow> 't active option list \<Rightarrow> 'w \<Rightarrow> 'w" where
  "wake_all ex ping [] w = w"
| "wake_all ex ping (Some (Future waker) # tasks) w = wake_all ex ping tasks (snd (wake_task ex ping False waker w))"
| "wake_all ex ping (_ # tasks) w = wake_all ex ping tasks w"

definition executor_drop :: "('w, 't exec_state) access \<Rightarrow> ('w \<Rightarrow> 'w) \<Rightarrow> 'w \<Rightarrow> (unit, unit) outcome \<times> 'w" where
  "executor_drop ex ping w =
     (let s = acc_get ex w in
      case es_active s of
        None \<Rightarrow> (Panic, w)
      | Some active_tasks \<Rightarrow>
          (let w1 = wake_all ex ping (sb_entries active_tasks) (acc_put ex (s\<lparr>es_active := None\<rparr>) w);
               w2 = acc_put ex ((acc_get ex w1)\<lparr>es_incoming := []\<rparr>) w1
           in (Ok (), w2)))"

section \<open>No runnable is stranded\<close>

text \<open>A queued runnable has a ping pending, and so has a sender that relies on \<open>notified\<close>.\<close>

definition exec_sound :: "('w \<Rightarrow> bool) \<Rightarrow> ('w, 't exec_state) access \<Rightarrow> 'w \<Rightarrow> bool" where
  "exec_sound pending ex w \<longleftrightarrow>
     (es_notified (acc_get ex w) \<longrightarrow> pending w) \<and> (es_incoming (acc_get ex w) \<noteq> [] \<longrightarrow> pending w)"

text \<open>
  What polling a future, the user's callback and the rest of the program may do to the executor, one
  call at a time: schedule a future, wake a task, send the runnable of a task that was woken while it
  ran, and anything that leaves the executor's state and its ping alone.
\<close>

inductive exec_user :: "('w \<Rightarrow> 'w) \<Rightarrow> ('w \<Rightarrow> bool) \<Rightarrow> ('w, 't exec_state) access \<Rightarrow> ('t active slab \<Rightarrow> nat)
    \<Rightarrow> 'w \<Rightarrow> 'w \<Rightarrow> bool"
  for ping pending ex vacant_key where
  eu_schedule: "schedule ex ping vacant_key w = (r, w') \<Longrightarrow> exec_user ping pending ex vacant_key w w'"
| eu_wake: "exec_wake ex ping task w = (r, w') \<Longrightarrow> exec_user ping pending ex vacant_key w w'"
| eu_rerun: "exec_send ex ping task w = (r, w') \<Longrightarrow> exec_user ping pending ex vacant_key w w'"
| eu_other: "acc_get ex w' = acc_get ex w \<Longrightarrow> (pending w \<longrightarrow> pending w') \<Longrightarrow> exec_user ping pending ex vacant_key w w'"

inductive exec_step :: "('src, bool \<times> bool, 'w) ping_process \<Rightarrow> ('w \<Rightarrow> 'w) \<Rightarrow> ('w \<Rightarrow> bool) \<Rightarrow> ('w, 't exec_state) access
    \<Rightarrow> (nat \<Rightarrow> 'w \<Rightarrow> 't option \<times> 'w) \<Rightarrow> ('t \<Rightarrow> 'w \<Rightarrow> 'w) \<Rightarrow> ('t active slab \<Rightarrow> nat) \<Rightarrow> 'src \<times> 'w \<Rightarrow> 'src \<times> 'w \<Rightarrow> bool"
  for pp ping pending ex poll_future callback vacant_key where
  es_user: "exec_user ping pending ex vacant_key w w' \<Longrightarrow>
    exec_step pp ping pending ex poll_future callback vacant_key (src, w) (src, w')"
| es_event: "executor_process pp ping ex poll_future callback src rd t w = (r, src', w') \<Longrightarrow> r \<noteq> Panic \<Longrightarrow>
    exec_step pp ping pending ex poll_future callback vacant_key (src, w) (src', w')"

text \<open>What any of these calls keeps, also within an event, when \<open>notified\<close> was cleared with runnables queued.\<close>

definition exec_keeps :: "('w \<Rightarrow> bool) \<Rightarrow> ('w, 't exec_state) access \<Rightarrow> 'w \<Rightarrow> 'w \<Rightarrow> bool" where
  "exec_keeps pending ex w w' \<longleftrightarrow>
     (pending w \<longrightarrow> pending w') \<and>
     ((es_notified (acc_get ex w) \<longrightarrow> pending w) \<longrightarrow>
        (es_notified (acc_get ex w') \<longrightarrow> pending w') \<and>
        (es_incoming (acc_get ex w') = es_incoming (acc_get ex w) \<or> pending w'))"

lemma exec_keeps_refl: "exec_keeps pending ex w w"
  by (simp add: exec_keeps_def)

lemma exec_keeps_trans: "exec_keeps pending ex u v \<Longrightarrow> exec_keeps pending ex v w \<Longrightarrow> exec_keeps pending ex u w"
  by (auto simp: exec_keeps_def)

lemma exec_keeps_sound: "exec_sound pending ex w \<Longrightarrow> exec_keeps pending ex w w' \<Longrightarrow> exec_sound pending ex w'"
  by (auto simp: exec_sound_def exec_keeps_def)

locale exec_backend = ping_backend ping pp pending owns listens "acc_get ex"
  for ping :: "'w \<Rightarrow> 'w"
    and pp :: "('src, bool \<times> bool, 'w) ping_process"
    and pending :: "'w \<Rightarrow> bool"
    and owns :: "'src \<Rightarrow> bool"
    and listens :: "'src \<Rightarrow> token \<Rightarrow> bool"
    and ex :: "('w, 't exec_state) access" +
  assumes ex_ok: "access_ok ex"
    and pending_state: "pending (acc_put ex s w) = pending w"
begin

lemma send_keeps: "exec_keeps pending ex w (snd (exec_send ex ping i w))"
  by (auto simp: exec_send_def exec_keeps_def Let_def ping_pends ping_rest access_ok_simps [OF ex_ok] pending_state)

lemma wake_keeps: "exec_keeps pending ex w (snd (exec_wake ex ping i w))"
  by (simp add: exec_wake_def wake_task_def send_keeps exec_keeps_refl)

lemma schedule_keeps: "exec_keeps pending ex w (snd (schedule ex ping vk w))"
proof (cases "es_active (acc_get ex w)")
  case None
  then show ?thesis by (simp add: schedule_def exec_keeps_refl)
next
  case (Some tasks)
  let ?w = "acc_put ex ((acc_get ex w)\<lparr>es_active := Some (slab_insert (vk tasks) (Future (vk tasks)) tasks)\<rparr>) w"
  have "exec_keeps pending ex w ?w" by (simp add: exec_keeps_def access_ok_simps [OF ex_ok] pending_state)
  moreover have "snd (schedule ex ping vk w) = snd (exec_send ex ping (vk tasks) ?w)"
    using Some by (auto simp: schedule_def Let_def split: prod.splits outcome.splits)
  ultimately show ?thesis using exec_keeps_trans send_keeps by metis
qed

lemma user_keeps: "exec_user ping pending ex vk w w' \<Longrightarrow> exec_keeps pending ex w w'"
  by (induction rule: exec_user.induct)
    (metis schedule_keeps snd_conv, metis wake_keeps snd_conv, metis send_keeps snd_conv, simp add: exec_keeps_def)

lemma users_keep: "(exec_user ping pending ex vk)\<^sup>*\<^sup>* w w' \<Longrightarrow> exec_keeps pending ex w w'"
  by (induction rule: rtranclp_induct) (auto intro: exec_keeps_refl exec_keeps_trans user_keeps)

text \<open>While the closure runs, only the first half of soundness is kept; it ends with an empty queue or not cleared.\<close>

lemma loop_sound:
  assumes poll_env: "\<And>i w. exec_keeps pending ex w (snd (poll_future i w))"
    and callback_env: "\<And>v w. exec_keeps pending ex w (callback v w)"
  shows "(es_notified (acc_get ex w) \<longrightarrow> pending w) \<Longrightarrow>
     exec_loop ex poll_future callback n (False, False) w = ((clear, panicked), w') \<Longrightarrow>
     (es_notified (acc_get ex w') \<longrightarrow> pending w') \<and>
     (panicked \<or> \<not> clear \<or> es_incoming (acc_get ex w') = [])"
proof (induction n arbitrary: w)
  case 0
  then show ?case by auto
next
  case (Suc n)
  show ?case
  proof (cases "es_incoming (acc_get ex w)")
    case Nil
    with Suc.prems show ?thesis by auto
  next
    case (Cons i rest)
    define w0 where "w0 = acc_put ex ((acc_get ex w)\<lparr>es_incoming := rest\<rparr>) w"
    define w1 where "w1 = runnable_run ex poll_future i w0"
    have w0: "es_notified (acc_get ex w0) \<longrightarrow> pending w0"
      using Suc.prems(1) by (simp add: w0_def access_ok_simps [OF ex_ok] pending_state)
    have w1: "es_notified (acc_get ex w1) \<longrightarrow> pending w1"
      using w0 poll_env [of w0 i]
      by (auto simp: w1_def runnable_run_def store_on_drop_def Let_def exec_keeps_def access_ok_simps [OF ex_ok]
          pending_state split: option.splits prod.splits)
    show ?thesis
    proof (cases "es_active (acc_get ex w1)")
      case None
      with Suc.prems(2) Cons w1 show ?thesis by (auto simp: w0_def w1_def)
    next
      case (Some tasks)
      let ?w2 = "\<lambda>v. callback v (acc_put ex ((acc_get ex w1)\<lparr>es_active := Some (slab_remove i tasks)\<rparr>) w1)"
      have w2: "es_notified (acc_get ex (?w2 v)) \<longrightarrow> pending (?w2 v)" for v
        using w1 callback_env [of "acc_put ex ((acc_get ex w1)\<lparr>es_active := Some (slab_remove i tasks)\<rparr>) w1" v]
        by (auto simp: exec_keeps_def access_ok_simps [OF ex_ok] pending_state)
      from Suc.prems(2) Cons Some consider
        "exec_loop ex poll_future callback n (False, False) w1 = ((clear, panicked), w')"
        | v where "exec_loop ex poll_future callback n (False, False) (?w2 v) = ((clear, panicked), w')"
        by (auto simp: w0_def [symmetric] w1_def [symmetric] Let_def split: option.splits active.splits)
      then show ?thesis using Suc.IH w1 w2 by cases blast+
    qed
  qed
qed

lemma event_sound:
  assumes "exec_sound pending ex w" and "owns src"
    and "executor_process pp ping ex poll_future callback src rd t w = (r, src', w')" and "r \<noteq> Panic"
    and env: "\<And>i w. exec_keeps pending ex w (snd (poll_future i w))" "\<And>v w. exec_keeps pending ex w (callback v w)"
  shows "owns src' \<and> exec_sound pending ex w'"
proof -
  let ?cb = "exec_on_ping ex poll_future callback"
  obtain r0 src0 clear panicked w0 where p: "pp src rd t ?cb (False, False) w = (r0, src0, (clear, panicked), w0)"
    by (metis prod.collapse)
  show ?thesis
  proof (cases "listens src t \<and> pending w")
    case True
    with process_own [OF assms(2) _ _ p] obtain w1 where src: "src0 = src"
      and r0: "r0 \<in> {Ok Continue, Ok Remove}" and cb: "?cb (False, False) w1 = ((clear, panicked), w0)" by auto
    from loop_sound [OF env _ cb [unfolded exec_on_ping_def]]
    have "(es_notified (acc_get ex w0) \<longrightarrow> pending w0) \<and> (panicked \<or> \<not> clear \<or> es_incoming (acc_get ex w0) = [])"
      by (simp add: access_ok_simps [OF ex_ok])
    with assms(2,3,4) p src r0 show ?thesis
      by (auto simp: executor_process_def exec_sound_def ping_pends ping_rest split: if_splits)
  next
    case False
    from process_foreign [OF assms(2) False p] have "src0 = src" "\<not> clear" "\<not> panicked"
      "acc_get ex w0 = acc_get ex w" "pending w \<longrightarrow> pending w0" by auto
    with assms p show ?thesis
      by (cases r0) (auto simp: executor_process_def exec_sound_def ping_pends ping_rest)
  qed
qed

lemma steps_sound:
  assumes "(exec_step pp ping pending ex poll_future callback vk)\<^sup>*\<^sup>* c c'"
    and env: "\<And>i w. (exec_user ping pending ex vk)\<^sup>*\<^sup>* w (snd (poll_future i w))"
      "\<And>v w. (exec_user ping pending ex vk)\<^sup>*\<^sup>* w (callback v w)"
    and "exec_sound pending ex (snd c)" and "owns (fst c)"
  shows "exec_sound pending ex (snd c') \<and> owns (fst c')"
  using assms(1)
proof (induction rule: rtranclp_induct)
  case base
  show ?case using assms(4,5) by simp
next
  case (step c1 c2)
  from step(2) show ?case
  proof cases
    case (es_user w w' src)
    with step exec_keeps_sound [OF _ user_keeps] show ?thesis by auto
  next
    case (es_event src rd t w r src' w')
    with step event_sound [OF _ _ es_event(3,4) users_keep [OF env(1)] users_keep [OF env(2)]] show ?thesis by simp
  qed
qed

end

section \<open>Executors on the two Unix pings\<close>

definition exec_component :: "('p \<times> 'x, 'x) access" where
  "exec_component = \<lparr>acc_get = snd, acc_put = (\<lambda>x w. (fst w, x))\<rparr>"

lemma exec_component_ok [simp]: "access_ok exec_component"
  by (simp add: access_ok_def exec_component_def)

interpretation linux_exec: exec_backend "eventfd_ping EFK first_component fd" "eventfd_process EFK first_component"
    "\<lambda>w. 2 \<le> unat (fst w fd)" "\<lambda>src. gn_file src = Some fd" "\<lambda>src t. gn_token src = Some t" exec_component for fd
  using linux.ping.ping_backend_axioms [of fd]
  by (auto intro!: exec_backend.intro exec_backend_axioms.intro simp: first_component_def exec_component_def access_ok_def)

interpretation unix_exec: exec_backend "pipe_ping PPK first_component wfd" "pipe_process PPK first_component 3"
    "\<lambda>w. 0 < min 64 (fst (fst w))" "\<lambda>src. gn_file src = Some rfd" "\<lambda>src t. gn_token src = Some t" exec_component for rfd wfd
  using unix.ping.ping_backend_axioms [of wfd rfd]
  by (auto intro!: exec_backend.intro exec_backend_axioms.intro simp: first_component_def exec_component_def access_ok_def)

lemma eventfd_exec_backend:
  assumes "eventfd_contract E fd counter" and "access_ok sys" and "access_ok ex" and "access_apart sys ex"
  shows "exec_backend (eventfd_ping E sys fd) (eventfd_process E sys) (\<lambda>w. 2 \<le> unat (counter (acc_get sys w)))
    (\<lambda>src. gn_file src = Some fd) (\<lambda>src t. gn_token src = Some t) ex"
proof -
  have "eventfd_kernel E sys fd counter (acc_get ex)"
    using assms by unfold_locales (simp_all add: access_apart_simps)
  then have "ping_backend (eventfd_ping E sys fd) (eventfd_process E sys) (\<lambda>w. 2 \<le> unat (counter (acc_get sys w)))
      (\<lambda>src. gn_file src = Some fd) (\<lambda>src t. gn_token src = Some t) (acc_get ex)"
    by (rule eventfd_kernel.is_ping_backend)
  then show ?thesis
    using assms(3,4) by (auto intro!: exec_backend.intro exec_backend_axioms.intro simp: access_apart_simps)
qed

section \<open>Properties\<close>

text \<open>
  C14: no runnable is stranded. Whatever futures are scheduled and tasks woken, in any state and any
  number of times, between the events of the executor and during them, by the futures that are
  polled and by the user's callback, a runnable that waits in the queue after an event or between two
  calls has a ping pending on the eventfd, although senders skip the ping while \<open>notified\<close> is set, an
  event clears it before it takes the runnables, and it runs at most 1024 of them.
\<close>

theorem executor_no_stranded_runnable:
  assumes "eventfd_contract E fd counter" and "access_ok sys" and "access_ok ex" and "access_apart sys ex"
    and "pending = (\<lambda>w. 2 \<le> unat (counter (acc_get sys w)))" and "user = exec_user (eventfd_ping E sys fd) pending ex vacant_key"
    and "\<And>i w. user\<^sup>*\<^sup>* w (snd (poll_future i w))" and "\<And>v w. user\<^sup>*\<^sup>* w (callback v w)"
    and "gn_file src0 = Some fd" and "es_incoming (acc_get ex w0) = []" and "\<not> es_notified (acc_get ex w0)"
    and "(exec_step (eventfd_process E sys) (eventfd_ping E sys fd) pending ex poll_future callback vacant_key)\<^sup>*\<^sup>* (src0, w0) (src, w)"
    and "es_incoming (acc_get ex w) \<noteq> []"
  shows "2 \<le> unat (counter (acc_get sys w))"
  using exec_backend.steps_sound [OF eventfd_exec_backend [OF assms(1-4)], OF assms(12) [unfolded assms(5)] assms(7,8) [unfolded assms(6,5)]]
    assms(9-11,13)
  by (simp add: exec_sound_def)

text \<open>A task that wakes itself whenever it is polled: its runnable is still queued after an event of any length.\<close>

definition waking_poll :: "('w, 't exec_state) access \<Rightarrow> ('w \<Rightarrow> 'w) \<Rightarrow> nat \<Rightarrow> 'w \<Rightarrow> 't option \<times> 'w" where
  "waking_poll ex ping i w = (None, snd (exec_send ex ping i w))"

lemma waking_loop:
  assumes ex: "access_ok ex" and rest: "\<And>w. acc_get ex (ping w) = acc_get ex w"
  shows "es_incoming (acc_get ex w) = [0] \<Longrightarrow> es_receiver (acc_get ex w) \<Longrightarrow>
    es_active (acc_get ex w) = Some (slab_insert 0 (Future 0) slab_new) \<Longrightarrow>
    \<exists>w'. exec_loop ex (waking_poll ex ping) callback n c w = (c, w') \<and> es_incoming (acc_get ex w') = [0]"
proof (induction n arbitrary: w)
  case 0
  then show ?case by simp
next
  case (Suc n)
  let ?w0 = "acc_put ex ((acc_get ex w)\<lparr>es_incoming := []\<rparr>) w"
  let ?w1 = "snd (exec_send ex ping 0 ?w0)"
  have w1: "es_incoming (acc_get ex ?w1) = [0]" "es_receiver (acc_get ex ?w1)"
      "es_active (acc_get ex ?w1) = Some (slab_insert 0 (Future 0) slab_new)"
    using Suc.prems by (simp_all add: exec_send_def Let_def access_ok_simps [OF ex] rest)
  have "exec_loop ex (waking_poll ex ping) callback (Suc n) c w = exec_loop ex (waking_poll ex ping) callback n c ?w1"
    using Suc.prems(1) w1(3) by (simp add: runnable_run_def waking_poll_def slab_get_def slab_insert_def slab_size_def slab_new_def Let_def)
  with Suc.IH [OF w1] show ?case by simp
qed

theorem executor_no_stranded_runnable_witness:
  "\<exists>r src' w'. executor_process (eventfd_process EFK first_component) (eventfd_ping EFK first_component 3) exec_component
      (waking_poll exec_component (eventfd_ping EFK first_component 3)) (\<lambda>v w. w)
      ((Generic_new 3 Interest_READ Level)\<lparr>gn_token := Some \<lparr>tok_id = 1, tok_version = 0, tok_sub_id = 0\<rparr>\<rparr>)
      Readiness_EMPTY \<lparr>tok_id = 1, tok_version = 0, tok_sub_id = 0\<rparr>
      (snd (schedule exec_component (eventfd_ping EFK first_component 3) slab_size
        (\<lambda>_. 0, \<lparr>es_incoming = [], es_active = Some slab_new, es_notified = False, es_receiver = True\<rparr>)))
     = (r, src', w') \<and> es_incoming (snd w' :: nat exec_state) = [0] \<and> 2 \<le> unat (fst w' 3)"
proof -
  let ?w = "(\<lambda>_. 0, \<lparr>es_incoming = [], es_active = Some slab_new, es_notified = False, es_receiver = True\<rparr>)
    :: (raw_fd \<Rightarrow> u64) \<times> nat exec_state"
  let ?t = "\<lparr>tok_id = 1, tok_version = 0, tok_sub_id = 0\<rparr> :: token_inner"
  let ?src = "(Generic_new 3 Interest_READ Level)\<lparr>gn_token := Some ?t\<rparr> :: eventfd_source"
  let ?ping = "eventfd_ping EFK first_component 3 :: (raw_fd \<Rightarrow> u64) \<times> nat exec_state \<Rightarrow> (raw_fd \<Rightarrow> u64) \<times> nat exec_state"
  let ?poll = "waking_poll exec_component ?ping"
  let ?cb = "exec_on_ping exec_component ?poll (\<lambda>v w. w)"
  let ?pending = "\<lambda>w. 2 \<le> unat ((\<lambda>k. k 3) (acc_get first_component w))"
  let ?user = "exec_user ?ping ?pending exec_component slab_size"
  obtain r w where sch: "schedule exec_component ?ping slab_size ?w = (r, w)" by (rule prod.exhaust)
  have w: "es_incoming (snd w) = [0]" "es_receiver (snd w)" "es_active (snd w) = Some (slab_insert 0 (Future 0) slab_new)"
      "fst w 3 = 2"
    using sch by (auto simp: schedule_def exec_send_def exec_component_def eventfd_ping_def eventfd_send_ping_def
        on_component_def first_component_def EFK_def INCREMENT_PING_def Let_def)
  obtain w1 where w1: "snd w1 = snd w" and
    p: "eventfd_process EFK first_component ?src Readiness_EMPTY ?t ?cb (False, False) w = (Ok Continue, ?src, ?cb (False, False) w1)"
    using eventfd_kernel.process_effect [of EFK first_component 3 "\<lambda>k. k 3" "acc_get exec_component" ?src ?t w Readiness_EMPTY ?cb "(False, False)"] w(4)
    by (auto simp: exec_component_def eventfd_kernel_def EFK_contract first_component_def access_ok_def Generic_new_def)
  have rest: "acc_get exec_component (?ping w) = acc_get exec_component w" for w
    by (simp add: exec_component_def eventfd_ping_def eventfd_send_ping_def on_component_def first_component_def split: prod.splits sum.splits)
  have "\<exists>w'. ?cb (False, False) w1 = ((False, False), w') \<and> es_incoming (acc_get exec_component w') = [0]"
    unfolding exec_on_ping_def by (rule waking_loop [OF exec_component_ok rest]) (use w w1 in \<open>simp_all add: exec_component_def\<close>)
  then obtain w2 where w2: "?cb (False, False) w1 = ((False, False), w2)" "es_incoming (snd w2) = [0]"
    by (auto simp: exec_component_def)
  have ev: "executor_process (eventfd_process EFK first_component) ?ping exec_component ?poll (\<lambda>v w. w) ?src Readiness_EMPTY ?t w
      = (Ok Continue, ?src, ?ping w2)"
    using p w2(1) by (simp add: executor_process_def)
  have queue: "es_incoming (acc_get exec_component (?ping w2)) = [0]" using rest [of w2] w2(2) by (simp add: exec_component_def)
  let ?step = "exec_step (eventfd_process EFK first_component) ?ping ?pending exec_component ?poll (\<lambda>v w. w) slab_size"
  have "?step (?src, ?w) (?src, w)" by (rule exec_step.es_user [OF exec_user.eu_schedule [OF sch]])
  moreover have "?step (?src, w) (?src, ?ping w2)" by (rule exec_step.es_event [OF ev]) simp
  ultimately have steps: "?step\<^sup>*\<^sup>* (?src, ?w) (?src, ?ping w2)" by (meson rtranclp.rtrancl_refl rtranclp.rtrancl_into_rtrancl)
  have user: "?user\<^sup>*\<^sup>* w (snd (?poll i w))" for i w
    unfolding waking_poll_def snd_conv by (rule r_into_rtranclp, rule exec_user.eu_rerun [OF prod.collapse [symmetric]])
  have "?pending (?ping w2)"
    by (rule executor_no_stranded_runnable [OF EFK_contract first_component_ok exec_component_ok _ refl refl user _ _ _ _ steps])
      (simp_all add: queue, simp_all add: exec_component_def first_component_def access_apart_def Generic_new_def)
  with ev queue sch show ?thesis by (simp add: first_component_def exec_component_def)
qed

text \<open>
  Results: with futures that are ready, the values come out in the order of the queue and the
  slab entries are freed. \<open>lg\<close> is where the callback logs.
\<close>

lemma exec_loop_ready:
  assumes ex: "access_ok ex" and lg: "access_ok lg" and apart: "access_apart ex lg"
  shows "es_incoming (acc_get ex w) = is \<Longrightarrow> es_active (acc_get ex w) = Some tasks \<Longrightarrow> length is < n \<Longrightarrow>
    \<forall>i \<in> set is. i < slab_size tasks \<Longrightarrow>
    \<exists>w'. exec_loop ex (\<lambda>i w. (Some (value i), w)) (\<lambda>v w. acc_put lg (acc_get lg w @ [v]) w) n c w = ((True, snd c), w') \<and>
      acc_get lg w' = acc_get lg w @ map value is \<and>
      acc_get ex w' = (acc_get ex w)\<lparr>es_incoming := [], es_active := Some (fold slab_remove is tasks)\<rparr>"
proof (induction n arbitrary: w "is" tasks)
  case 0
  then show ?case by simp
next
  case (Suc n)
  note ok = access_ok_simps [OF ex] access_ok_simps [OF lg] access_apart_simps [OF apart]
  show ?case
  proof (cases "is")
    case Nil
    with Suc.prems show ?thesis by (intro exI [of _ w]) simp
  next
    case (Cons i js)
    let ?w1 = "acc_put ex ((acc_get ex w)\<lparr>es_incoming := js, es_active := Some (slab_set i (Finished (value i)) tasks)\<rparr>) w"
    let ?w2 = "acc_put ex ((acc_get ex w)\<lparr>es_incoming := js, es_active := Some (slab_remove i tasks)\<rparr>) w"
    let ?w3 = "acc_put lg (acc_get lg ?w2 @ [value i]) ?w2"
    from Suc.prems Cons have i: "i < slab_size tasks" by simp
    have "exec_loop ex (\<lambda>i w. (Some (value i), w)) (\<lambda>v w. acc_put lg (acc_get lg w @ [v]) w) (Suc n) c w
        = exec_loop ex (\<lambda>i w. (Some (value i), w)) (\<lambda>v w. acc_put lg (acc_get lg w @ [v]) w) n c ?w3"
      using Suc.prems(1,2) Cons i
      by (simp add: runnable_run_def store_on_drop_def slab_get_set slab_remove_set Let_def ok)
    moreover have "es_incoming (acc_get ex ?w3) = js" "es_active (acc_get ex ?w3) = Some (slab_remove i tasks)"
        "length js < n" "\<forall>j \<in> set js. j < slab_size (slab_remove i tasks)"
      using Suc.prems Cons by (simp_all add: ok)
    ultimately show ?thesis using Suc.IH [of ?w3 js "slab_remove i tasks"] Cons by (auto simp: ok)
  qed
qed

text \<open>
  When fewer than 1024 tasks are queued and all their futures are ready, one event of the
  executor runs each of them once, hands their values to the callback in the order they were
  queued, frees their entries of the slab and leaves the queue empty.
\<close>

theorem executor_delivers_results:
  assumes "eventfd_contract E fd counter" and "access_ok sys" and "access_ok ex" and "access_apart sys ex"
    and "access_ok lg" and "access_apart ex lg" and "access_apart sys lg"
    and "gn_file src = Some fd" and "gn_token src = Some t" and "2 \<le> unat (counter (acc_get sys w))"
    and "es_incoming (acc_get ex w) = is" and "es_active (acc_get ex w) = Some tasks"
    and "length is < 1024" and "\<forall>i \<in> set is. i < slab_size tasks"
    and "executor_process (eventfd_process E sys) (eventfd_ping E sys fd) ex
        (\<lambda>i w. (Some (value i), w)) (\<lambda>v w. acc_put lg (acc_get lg w @ [v]) w) src rd t w = (r, src', w')"
  shows "r = Ok (if odd (counter (acc_get sys w)) then Remove else Continue) \<and>
    acc_get lg w' = acc_get lg w @ map value is \<and>
    es_incoming (acc_get ex w') = [] \<and> es_active (acc_get ex w') = Some (fold slab_remove is tasks)"
proof -
  let ?cb = "exec_on_ping ex (\<lambda>i w. (Some (value i), w)) (\<lambda>v w. acc_put lg (acc_get lg w @ [v]) w)"
  let ?other = "\<lambda>w. (acc_get ex w, acc_get lg w)"
  have K: "eventfd_kernel E sys fd counter ?other"
    using assms by unfold_locales (simp_all add: access_apart_simps)
  have "counter (acc_get sys w) \<noteq> 0" using assms(10) by auto
  with assms(10) obtain w1 where w1: "?other w1 = ?other w" and
    p: "eventfd_process E sys src rd t ?cb (False, False) w =
      (Ok (if odd (counter (acc_get sys w)) then Remove else Continue), src, ?cb (False, False) w1)"
    using eventfd_kernel.process_effect [OF K assms(8,9), where w = w and rd = rd and cb = ?cb and c = "(False, False)"]
    by auto
  let ?w2 = "acc_put ex ((acc_get ex w1)\<lparr>es_notified := False\<rparr>) w1"
  have "es_incoming (acc_get ex ?w2) = is" "es_active (acc_get ex ?w2) = Some tasks"
    using w1 assms(11,12) by (simp_all add: access_ok_simps [OF assms(3)])
  from exec_loop_ready [OF assms(3,5,6) this assms(13,14), of "value" "(False, False)"] obtain w3 where
    "?cb (False, False) w1 = ((True, False), w3)" "acc_get lg w3 = acc_get lg ?w2 @ map value is"
    "acc_get ex w3 = (acc_get ex ?w2)\<lparr>es_incoming := [], es_active := Some (fold slab_remove is tasks)\<rparr>"
    by (auto simp: exec_on_ping_def)
  with p assms(15) w1 show ?thesis
    by (auto simp: executor_process_def access_apart_simps [OF assms(6)])
qed

text \<open>An executor next to an eventfd kernel and a log, with two tasks queued.\<close>

definition log_exec :: "('p \<times> 'x \<times> 'l, 'x) access" where
  "log_exec = \<lparr>acc_get = (\<lambda>w. fst (snd w)), acc_put = (\<lambda>m w. (fst w, m, snd (snd w)))\<rparr>"

definition log_results :: "('p \<times> 'x \<times> 'l, 'l) access" where
  "log_results = \<lparr>acc_get = (\<lambda>w. snd (snd w)), acc_put = (\<lambda>l w. (fst w, fst (snd w), l))\<rparr>"

lemma log_exec_world:
  "access_ok log_exec" "access_ok log_results" "access_apart log_exec log_results"
  "access_apart first_component log_exec" "access_apart first_component log_results"
  by (simp_all add: access_ok_def access_apart_def log_exec_def log_results_def first_component_def)

theorem executor_delivers_results_witness:
  "\<exists>src' w'. executor_process (eventfd_process EFK first_component) (eventfd_ping EFK first_component 3) log_exec
      (\<lambda>i w. (Some (10 * i), w)) (\<lambda>v w. acc_put log_results (acc_get log_results w @ [v]) w)
      ((Generic_new 3 Interest_READ Level)\<lparr>gn_token := Some \<lparr>tok_id = 1, tok_version = 0, tok_sub_id = 0\<rparr>\<rparr>)
      Readiness_EMPTY \<lparr>tok_id = 1, tok_version = 0, tok_sub_id = 0\<rparr>
      (\<lambda>_. 2, \<lparr>es_incoming = [1, 0], es_active = Some (slab_insert 1 (Future 1) (slab_insert 0 (Future 0) slab_new)), es_notified = True, es_receiver = True\<rparr>, [])
     = (Ok Continue, src', w') \<and> snd (snd w') = [10, 0 :: nat]"
proof -
  let ?t = "\<lparr>tok_id = 1, tok_version = 0, tok_sub_id = 0\<rparr> :: token_inner"
  let ?src = "(Generic_new 3 Interest_READ Level)\<lparr>gn_token := Some ?t\<rparr> :: eventfd_source"
  let ?w = "(\<lambda>_. 2, \<lparr>es_incoming = [1, 0], es_active = Some (slab_insert 1 (Future 1) (slab_insert 0 (Future 0) slab_new)), es_notified = True, es_receiver = True\<rparr>, [])
    :: (raw_fd \<Rightarrow> u64) \<times> nat exec_state \<times> nat list"
  obtain r src' w' where run: "executor_process (eventfd_process EFK first_component) (eventfd_ping EFK first_component 3) log_exec
      (\<lambda>i w. (Some (10 * i), w)) (\<lambda>v w. acc_put log_results (acc_get log_results w @ [v]) w) ?src Readiness_EMPTY ?t ?w = (r, src', w')"
    by (rule prod_cases3)
  have "acc_get log_results w' = [10, 0] \<and> r = Ok Continue"
    using executor_delivers_results [OF EFK_contract [of 3] first_component_ok log_exec_world(1,4,2,3,5) _ _ _ refl _ _ _ run]
    by (simp add: log_exec_def log_results_def first_component_def Generic_new_def)
  with run show ?thesis by (simp add: log_results_def)
qed

section \<open>The wake protocol between threads\<close>

text \<open>
  A waker may run on another thread. \<open>Sender::send\<close> is then three steps, the push, the swap of
  \<open>notified\<close> and, if it was clear, the ping; the event of the executor drains the ping, clears
  \<open>notified\<close>, and receives until the queue is empty. The state counts the queued runnables and
  the senders between their steps.
\<close>

datatype exec_pc = Asleep | Drained | Receiving

record wake_state =
  wk_queue :: nat
  wk_notified :: bool
  wk_pending :: bool
  wk_pushed :: nat
  wk_pinging :: nat
  wk_pc :: exec_pc

inductive wake_step :: "wake_state \<Rightarrow> wake_state \<Rightarrow> bool" where
  wk_push: "wake_step s (s\<lparr>wk_queue := wk_queue s + 1, wk_pushed := wk_pushed s + 1\<rparr>)"
| wk_swap_set: "wk_pushed s > 0 \<Longrightarrow> wk_notified s \<Longrightarrow> wake_step s (s\<lparr>wk_pushed := wk_pushed s - 1\<rparr>)"
| wk_swap_clear: "wk_pushed s > 0 \<Longrightarrow> \<not> wk_notified s \<Longrightarrow>
    wake_step s (s\<lparr>wk_pushed := wk_pushed s - 1, wk_notified := True, wk_pinging := wk_pinging s + 1\<rparr>)"
| wk_ping: "wk_pinging s > 0 \<Longrightarrow> wake_step s (s\<lparr>wk_pinging := wk_pinging s - 1, wk_pending := True\<rparr>)"
| wk_drain: "wk_pc s = Asleep \<Longrightarrow> wk_pending s \<Longrightarrow> wake_step s (s\<lparr>wk_pending := False, wk_pc := Drained\<rparr>)"
| wk_clear: "wk_pc s = Drained \<Longrightarrow> wake_step s (s\<lparr>wk_notified := False, wk_pc := Receiving\<rparr>)"
| wk_recv: "wk_pc s = Receiving \<Longrightarrow> wk_queue s > 0 \<Longrightarrow> wake_step s (s\<lparr>wk_queue := wk_queue s - 1\<rparr>)"
| wk_empty: "wk_pc s = Receiving \<Longrightarrow> wk_queue s = 0 \<Longrightarrow> wake_step s (s\<lparr>wk_pc := Asleep\<rparr>)"
| wk_limit: "wk_pc s = Receiving \<Longrightarrow> wake_step s (s\<lparr>wk_pc := Asleep, wk_pending := True\<rparr>)"

definition wake_initial :: wake_state where
  "wake_initial = \<lparr>wk_queue = 0, wk_notified = False, wk_pending = False, wk_pushed = 0, wk_pinging = 0, wk_pc = Asleep\<rparr>"

definition wake_inv :: "wake_state \<Rightarrow> bool" where
  "wake_inv s \<longleftrightarrow>
     (wk_notified s \<longrightarrow> 0 < wk_pinging s \<or> wk_pending s \<or> wk_pc s = Drained) \<and>
     (0 < wk_queue s \<longrightarrow> wk_pc s \<noteq> Asleep \<or> wk_pending s \<or> 0 < wk_pushed s \<or> 0 < wk_pinging s)"

lemma wake_step_inv: "wake_step s s' \<Longrightarrow> wake_inv s \<Longrightarrow> wake_inv s'"
  by (induction rule: wake_step.induct) (auto simp: wake_inv_def)

text \<open>
  In every interleaving of any number of senders with the executor, whenever the executor
  is not in the middle of an event and a runnable is queued, either its eventfd is readable or
  some sender has yet to finish its call, which will make it so: the \<open>notified\<close> flag that spares
  pings loses none that is needed.
\<close>

theorem executor_wake_protocol:
  assumes "wake_step\<^sup>*\<^sup>* wake_initial s" and "wk_pc s = Asleep" and "0 < wk_queue s"
    and "wk_pushed s = 0" and "wk_pinging s = 0"
  shows "wk_pending s"
proof -
  from assms(1) have "wake_inv s"
    by (induction rule: rtranclp_induct) (auto simp: wake_inv_def wake_initial_def dest: wake_step_inv [unfolded wake_inv_def])
  with assms(2-5) show ?thesis by (simp add: wake_inv_def)
qed

theorem executor_wake_protocol_witness:
  "\<exists>s. wake_step\<^sup>*\<^sup>* wake_initial s \<and> wk_pc s = Asleep \<and> wk_queue s = 1 \<and> wk_pending s"
proof -
  let ?s1 = "wake_initial\<lparr>wk_queue := 1, wk_pushed := 1\<rparr>"
  let ?s2 = "wake_initial\<lparr>wk_queue := 1, wk_notified := True, wk_pinging := 1\<rparr>"
  let ?s3 = "wake_initial\<lparr>wk_queue := 1, wk_notified := True, wk_pending := True\<rparr>"
  have "wake_step wake_initial ?s1" using wk_push [of wake_initial] by (simp add: wake_initial_def)
  moreover have "wake_step ?s1 ?s2" using wk_swap_clear [of ?s1] by (simp add: wake_initial_def)
  moreover have "wake_step ?s2 ?s3" using wk_ping [of ?s2] by (simp add: wake_initial_def)
  ultimately have run: "wake_step\<^sup>*\<^sup>* wake_initial ?s3"
    by (meson rtranclp.rtrancl_refl rtranclp.rtrancl_into_rtrancl)
  have "wk_pending ?s3" by (rule executor_wake_protocol [OF run]) (simp_all add: wake_initial_def)
  with run show ?thesis by (intro exI [of _ ?s3]) (simp add: wake_initial_def)
qed

end
