(* ===== verification/Executor_Loop.thy ===== *)
theory Executor_Loop
  imports Executor Ping_Loop
begin

text \<open>
  The executor in a loop, end to end. What the user sees of an executor is a queue of tasks: the
  first is polled, what it wakes and schedules goes to the end, and a result goes to the callback.
  Pings, the \<open>notified\<close> flag, the eventfd's counter, the poller, the dispatches and their 1024
  tasks each are not seen. The queue is the specification; the loop is shown to implement it.
\<close>

section \<open>Programs on an executor\<close>

text \<open>
  What a future does while it is polled and the callback does with a result: wake a task, or
  schedule a future, which is put where its index says. \<open>'st\<close> is the program's own state; the
  futures' states and the log of the callback are parts of it.
\<close>

datatype 'st act = Wake nat | Spawn "nat \<Rightarrow> 'st \<Rightarrow> 'st"

record ('t, 'st) task_program =
  pr_poll :: "nat \<Rightarrow> 'st \<Rightarrow> 't option \<times> 'st act list \<times> 'st"
  pr_callback :: "'t \<Rightarrow> 'st \<Rightarrow> 'st act list \<times> 'st"

definition woken :: "nat \<Rightarrow> 'st act list \<Rightarrow> bool" where
  "woken i acts = list_ex (\<lambda>a. case a of Wake j \<Rightarrow> j = i | Spawn _ \<Rightarrow> False) acts"

text \<open>
  The actions on the executor. \<open>cur\<close> is the task being polled: a task that wakes itself is scheduled
  again when its poll has returned (\<open>Runnable::run\<close>). A wake by a waker whose task is gone has no
  effect, and is no action.
\<close>

fun task_act :: "('w, 't exec_state) access \<Rightarrow> ('w, 'st) access \<Rightarrow> ('w \<Rightarrow> 'w) \<Rightarrow> ('t active slab \<Rightarrow> nat)
    \<Rightarrow> nat option \<Rightarrow> 'st act \<Rightarrow> 'w \<Rightarrow> 'w" where
  "task_act ex sx ping vacant_key cur (Wake i) w =
     (if Some i = cur then w else snd (exec_wake ex ping i w))"
| "task_act ex sx ping vacant_key cur (Spawn g) w =
     (case schedule ex ping vacant_key w of
        (Ok i, w') \<Rightarrow> acc_put sx (g i (acc_get sx w')) w'
      | (_, w') \<Rightarrow> w')"

definition task_poll :: "('t, 'st) task_program \<Rightarrow> ('w, 't exec_state) access \<Rightarrow> ('w, 'st) access \<Rightarrow> ('w \<Rightarrow> 'w)
    \<Rightarrow> ('t active slab \<Rightarrow> nat) \<Rightarrow> nat \<Rightarrow> 'w \<Rightarrow> 't option \<times> 'w" where
  "task_poll prog ex sx ping vacant_key i w =
     (case pr_poll prog i (acc_get sx w) of
        (Some v, acts, st) \<Rightarrow> (Some v, fold (task_act ex sx ping vacant_key (Some i)) acts (acc_put sx st w))
      | (None, acts, st) \<Rightarrow>
          (let w' = fold (task_act ex sx ping vacant_key (Some i)) acts (acc_put sx st w)
           in (None, if woken i acts then snd (exec_send ex ping i w') else w')))"

definition task_callback :: "('t, 'st) task_program \<Rightarrow> ('w, 't exec_state) access \<Rightarrow> ('w, 'st) access \<Rightarrow> ('w \<Rightarrow> 'w)
    \<Rightarrow> ('t active slab \<Rightarrow> nat) \<Rightarrow> 't \<Rightarrow> 'w \<Rightarrow> 'w" where
  "task_callback prog ex sx ping vacant_key v w =
     (case pr_callback prog v (acc_get sx w) of
        (acts, st) \<Rightarrow> fold (task_act ex sx ping vacant_key None) acts (acc_put sx st w))"

section \<open>The specification: a queue of tasks\<close>

record ('t, 'st) run_queue =
  rq_queue :: "nat list"
  rq_active :: "'t active slab"
  rq_st :: 'st

fun rq_act :: "('t active slab \<Rightarrow> nat) \<Rightarrow> nat option \<Rightarrow> 'st act \<Rightarrow> ('t, 'st) run_queue \<Rightarrow> ('t, 'st) run_queue" where
  "rq_act vacant_key cur (Wake i) q =
     (if Some i = cur \<or> \<not> unfinished i (rq_active q) \<or> i \<in> set (rq_queue q) then q
      else q\<lparr>rq_queue := rq_queue q @ [i]\<rparr>)"
| "rq_act vacant_key cur (Spawn g) q =
     (let i = vacant_key (rq_active q) in
      q\<lparr>rq_queue := rq_queue q @ [i], rq_active := slab_insert i (Future i) (rq_active q), rq_st := g i (rq_st q)\<rparr>)"

definition rq_step :: "('t active slab \<Rightarrow> nat) \<Rightarrow> ('t, 'st) task_program \<Rightarrow> ('t, 'st) run_queue \<Rightarrow> ('t, 'st) run_queue" where
  "rq_step vacant_key prog q =
     (case rq_queue q of
        [] \<Rightarrow> q
      | i # rest \<Rightarrow>
          (case pr_poll prog i (rq_st q) of
             (None, acts, st) \<Rightarrow>
               (let q1 = fold (rq_act vacant_key (Some i)) acts (q\<lparr>rq_queue := rest, rq_st := st\<rparr>)
                in if woken i acts then q1\<lparr>rq_queue := rq_queue q1 @ [i]\<rparr> else q1)
           | (Some v, acts, st) \<Rightarrow>
               (let q1 = fold (rq_act vacant_key (Some i)) acts (q\<lparr>rq_queue := rest, rq_st := st\<rparr>) in
                case pr_callback prog v (rq_st q1) of
                  (acts', st') \<Rightarrow>
                    fold (rq_act vacant_key None) acts'
                      (q1\<lparr>rq_active := slab_remove i (rq_active q1), rq_st := st'\<rparr>))))"

fun rq_steps :: "('t active slab \<Rightarrow> nat) \<Rightarrow> ('t, 'st) task_program \<Rightarrow> nat \<Rightarrow> ('t, 'st) run_queue \<Rightarrow> ('t, 'st) run_queue" where
  "rq_steps vacant_key prog 0 q = q"
| "rq_steps vacant_key prog (Suc n) q = rq_steps vacant_key prog n (rq_step vacant_key prog q)"

text \<open>Rounds of actions from outside, each followed by at most \<open>N\<close> polls, which have to empty the queue.\<close>

fun rq_session :: "('t active slab \<Rightarrow> nat) \<Rightarrow> ('t, 'st) task_program \<Rightarrow> ('st act list \<times> nat) list
    \<Rightarrow> ('t, 'st) run_queue \<Rightarrow> ('t, 'st) run_queue option" where
  "rq_session vacant_key prog [] q = Some q"
| "rq_session vacant_key prog ((acts, N) # rounds) q =
     (let q' = rq_steps vacant_key prog N (fold (rq_act vacant_key None) acts q) in
      if rq_queue q' = [] then rq_session vacant_key prog rounds q' else None)"

lemma rq_session_rests: "rq_session vk prog rounds q = Some q' \<Longrightarrow> rq_queue q = [] \<Longrightarrow> rq_queue q' = []"
  by (induction rounds arbitrary: q) (auto simp: Let_def split: if_splits)

lemma rq_step_idle: "rq_queue q = [] \<Longrightarrow> rq_step vk prog q = q"
  by (simp add: rq_step_def)

lemma rq_steps_idle: "rq_queue q = [] \<Longrightarrow> rq_steps vk prog n q = q"
  by (induction n) (simp_all add: rq_step_idle)

lemma rq_steps_add: "rq_steps vk prog (m + n) q = rq_steps vk prog n (rq_steps vk prog m q)"
  by (induction m arbitrary: q) simp_all

lemma rq_steps_stay: "rq_queue (rq_steps vk prog m q) = [] \<Longrightarrow> m \<le> n \<Longrightarrow> rq_steps vk prog n q = rq_steps vk prog m q"
  using rq_steps_add [of vk prog m "n - m" q] by (simp add: rq_steps_idle)

text \<open>Queued tasks have an entry in the slab, and between polls no entry holds a result.\<close>

definition rq_inv :: "('t, 'st) run_queue \<Rightarrow> bool" where
  "rq_inv q \<longleftrightarrow> (\<forall>i \<in> set (rq_queue q). i < slab_size (rq_active q)) \<and> (\<forall>v. Some (Finished v) \<notin> set (sb_entries (rq_active q)))"

lemma unfinished_less: "unfinished i tasks \<Longrightarrow> i < slab_size tasks"
  by (auto simp: unfinished_def slab_get_def split: if_splits)

lemma set_slab_insert: "set (sb_entries (slab_insert i v xs)) \<subseteq> insert (Some v) (set (sb_entries xs))"
  by (auto simp: slab_insert_def dest: set_update_subset_insert [THEN subsetD])

lemma length_slab_insert:
  "i \<le> slab_size xs \<Longrightarrow> slab_size xs \<le> slab_size (slab_insert i v xs) \<and> i < slab_size (slab_insert i v xs)"
  by auto

lemma set_slab_remove: "set (sb_entries (slab_remove i xs)) \<subseteq> insert None (set (sb_entries xs))"
  by (auto simp: slab_remove_def dest: set_update_subset_insert [THEN subsetD])

lemma rq_act_inv:
  assumes "\<And>xs. vk xs \<le> slab_size xs" and "rq_inv q"
  shows "rq_inv (rq_act vk cur a q) \<and> slab_size (rq_active q) \<le> slab_size (rq_active (rq_act vk cur a q))"
proof (cases a)
  case (Wake i)
  then show ?thesis using assms(2) by (auto simp: rq_inv_def unfinished_less)
next
  case (Spawn g)
  let ?i = "vk (rq_active q)"
  have "Some (Finished v) \<notin> set (sb_entries (slab_insert ?i (Future ?i) (rq_active q)))" for v
    using assms(2) set_slab_insert [of ?i "Future ?i" "rq_active q"] by (auto simp: rq_inv_def)
  with Spawn assms(2) length_slab_insert [OF assms(1) [of "rq_active q"], of "Future ?i"] show ?thesis
    by (fastforce simp: rq_inv_def Let_def)
qed

lemma rq_acts_inv:
  assumes "\<And>xs. vk xs \<le> slab_size xs"
  shows "rq_inv q \<Longrightarrow> rq_inv (fold (rq_act vk cur) acts q) \<and> slab_size (rq_active q) \<le> slab_size (rq_active (fold (rq_act vk cur) acts q))"
proof (induction acts arbitrary: q)
  case Nil
  then show ?case by simp
next
  case (Cons a acts)
  with rq_act_inv [OF assms Cons.prems, of cur a] show ?case by fastforce
qed

lemma rq_step_inv:
  assumes vk: "\<And>xs. vk xs \<le> slab_size xs" and inv: "rq_inv q"
  shows "rq_inv (rq_step vk prog q)"
proof (cases "rq_queue q")
  case Nil
  with inv show ?thesis by (simp add: rq_step_idle)
next
  case (Cons i rest)
  obtain r acts st where p: "pr_poll prog i (rq_st q) = (r, acts, st)" by (rule prod_cases3)
  let ?q0 = "q\<lparr>rq_queue := rest, rq_st := st\<rparr>"
  let ?q1 = "fold (rq_act vk (Some i)) acts ?q0"
  have "rq_inv ?q0" using inv Cons by (simp add: rq_inv_def)
  from rq_acts_inv [OF vk this, of "Some i" acts]
  have q1: "rq_inv ?q1" "slab_size (rq_active q) \<le> slab_size (rq_active ?q1)" by simp_all
  have i: "i < slab_size (rq_active ?q1)" using inv Cons q1(2) by (simp add: rq_inv_def)
  show ?thesis
  proof (cases r)
    case None
    with p Cons q1(1) i show ?thesis by (simp add: rq_step_def rq_inv_def Let_def)
  next
    case (Some v)
    obtain acts' st' where cb: "pr_callback prog v (rq_st ?q1) = (acts', st')" by (rule prod.exhaust)
    let ?q2 = "?q1\<lparr>rq_active := slab_remove i (rq_active ?q1), rq_st := st'\<rparr>"
    have "rq_inv ?q2" using q1(1) set_slab_remove [of i "rq_active ?q1"] by (auto simp: rq_inv_def)
    from rq_acts_inv [OF vk this, of None acts'] p Cons Some cb show ?thesis by (simp add: rq_step_def Let_def)
  qed
qed

section \<open>The executor as a source of the loop\<close>

text \<open>Executor and program state are parts of the data that the loop passes to callbacks.\<close>

definition executor_ops :: "'p poller_ops \<Rightarrow> 'p eventfd_ops \<Rightarrow> raw_fd \<Rightarrow> ('d, 't exec_state) access \<Rightarrow> ('d, 'st) access
    \<Rightarrow> ('t active slab \<Rightarrow> nat) \<Rightarrow> ('t, 'st) task_program
    \<Rightarrow> (eventfd_source, 'p, ('s, 'i, 'p, 'd) loop_state) source_ops" where
  "executor_ops K E fd ex sx vacant_key prog =
     (let ping = eventfd_ping E loop_system fd in
      \<lparr>so_process = executor_process (eventfd_process E loop_system) ping (in_data ex)
         (task_poll prog (in_data ex) (in_data sx) ping vacant_key) (task_callback prog (in_data ex) (in_data sx) ping vacant_key),
       so_register = executor_register (eventfd_register K), so_reregister = executor_reregister (eventfd_reregister K),
       so_unregister = executor_unregister (eventfd_unregister K), so_needs_extra = default_needs_extra,
       so_before_sleep = default_before_sleep, so_before_handle = default_before_handle\<rparr>)"

text \<open>A session: in each round actions from outside, then \<open>k\<close> dispatches.\<close>

fun executor_session :: "'p poller_ops \<Rightarrow> 'p eventfd_ops \<Rightarrow> raw_fd \<Rightarrow> ('d, 't exec_state) access \<Rightarrow> ('d, 'st) access
    \<Rightarrow> ('t active slab \<Rightarrow> nat) \<Rightarrow> ('s, 'i, 'p, 'd) loop_ops
    \<Rightarrow> ('i \<Rightarrow> ('s, 'i, 'p, 'd) loop_state \<Rightarrow> ('s, 'i, 'p, 'd) loop_state) \<Rightarrow> nat \<Rightarrow> duration option
    \<Rightarrow> ('st act list \<times> nat) list \<Rightarrow> ('s, 'i, 'p, 'd) loop_state \<Rightarrow> unit cresult \<times> ('s, 'i, 'p, 'd) loop_state" where
  "executor_session K E fd ex sx vacant_key ops run_idle n timeout [] L = (Ok (), L)"
| "executor_session K E fd ex sx vacant_key ops run_idle n timeout ((acts, k) # rounds) L =
     and_then (dispatches K ops run_idle n timeout k
         (fold (task_act (in_data ex) (in_data sx) (eventfd_ping E loop_system fd) vacant_key None) acts L))
       (\<lambda>_ L'. executor_session K E fd ex sx vacant_key ops run_idle n timeout rounds L')"

text \<open>The queue that data of the loop stand for, and what their eventfd owes it.\<close>

definition rq_of :: "('d, 't exec_state) access \<Rightarrow> ('d, 'st) access \<Rightarrow> 'd \<Rightarrow> ('t, 'st) run_queue" where
  "rq_of ex sx dat =
     \<lparr>rq_queue = es_incoming (acc_get ex dat), rq_active = the (es_active (acc_get ex dat)), rq_st = acc_get sx dat\<rparr>"

definition exec_alive :: "('d, 't exec_state) access \<Rightarrow> 'd \<Rightarrow> bool" where
  "exec_alive ex dat \<longleftrightarrow> es_active (acc_get ex dat) \<noteq> None \<and> es_receiver (acc_get ex dat)"

definition notified_pings :: "('d, 't exec_state) access \<Rightarrow> 'd \<Rightarrow> u64 \<Rightarrow> bool" where
  "notified_pings ex dat c \<longleftrightarrow> even c \<and> (es_notified (acc_get ex dat) \<longrightarrow> 2 \<le> unat c)"

definition queue_pings :: "('d, 't exec_state) access \<Rightarrow> 'd \<Rightarrow> u64 \<Rightarrow> bool" where
  "queue_pings ex dat c \<longleftrightarrow> es_incoming (acc_get ex dat) \<noteq> [] \<longrightarrow> 2 \<le> unat c"

text \<open>One call on the executor: the loop is left alone and queue and eventfd stay in step.\<close>

definition exec_call :: "('p \<Rightarrow> 'r) \<Rightarrow> ('p \<Rightarrow> u64) \<Rightarrow> ('d, 't exec_state) access \<Rightarrow> ('d, 'st) access
    \<Rightarrow> ('s, 'i, 'p, 'd) loop_state \<Rightarrow> ('t, 'st) run_queue \<Rightarrow> ('s, 'i, 'p, 'd) loop_state \<Rightarrow> bool" where
  "exec_call regs counter ex sx L q L' \<longleftrightarrow>
     loop_frame regs L' = loop_frame regs L \<and> rq_of ex sx (lp_data L') = q \<and> exec_alive ex (lp_data L') \<and>
     notified_pings ex (lp_data L') (efd_count counter L') \<and>
     (queue_pings ex (lp_data L) (efd_count counter L) \<longrightarrow> queue_pings ex (lp_data L') (efd_count counter L'))"

lemma exec_call_trans:
  "exec_call regs counter ex sx L q L' \<Longrightarrow> exec_call regs counter ex sx L' q' L'' \<Longrightarrow> exec_call regs counter ex sx L q' L''"
  by (simp add: exec_call_def)

lemma exec_call_active: "exec_call regs counter ex sx L q L' \<Longrightarrow> es_active (acc_get ex (lp_data L')) = Some (rq_active q)"
  by (metis exec_alive_def exec_call_def option.collapse rq_of_def run_queue.select_convs(2))

context eventfd_system
begin

text \<open>\<open>Sender::send\<close>, wakes and schedules.\<close>

lemma send_call:
  fixes L :: "('s, 'i, 'p, 'd) loop_state"
  assumes parts: "access_ok ex" "access_ok sx" "access_apart ex sx"
    and alive: "exec_alive ex (lp_data L)" and pings: "notified_pings ex (lp_data L) (efd_count counter L)"
  shows "\<exists>L'. exec_send (in_data ex) (eventfd_ping E loop_system fd) i L = (Ok (), L') \<and>
    exec_call regs counter ex sx L ((rq_of ex sx (lp_data L))\<lparr>rq_queue := es_incoming (acc_get ex (lp_data L)) @ [i]\<rparr>) L'"
proof -
  let ?s = "acc_get ex (lp_data L)"
  let ?M = "L\<lparr>lp_data := acc_put ex (?s\<lparr>es_incoming := es_incoming ?s @ [i], es_notified := True\<rparr>) (lp_data L)\<rparr>"
  let ?L' = "if es_notified ?s then ?M else eventfd_ping E loop_system fd ?M"
  have ok: "acc_get ex (lp_data ?M) = ?s\<lparr>es_incoming := es_incoming ?s @ [i], es_notified := True\<rparr>"
      "acc_get sx (lp_data ?M) = acc_get sx (lp_data L)" "efd_count counter ?M = efd_count counter L"
      "loop_frame regs ?M = loop_frame regs L"
    by (simp_all add: access_ok_simps(1) [OF parts(1)] access_apart_simps(1) [OF parts(3)] loop_frame_def)
  have even: "even (efd_count counter ?M)" using pings by (simp add: notified_pings_def)
  have "exec_send (in_data ex) (eventfd_ping E loop_system fd) i L = (Ok (), ?L')"
    using alive by (simp add: exec_send_def exec_alive_def Let_def)
  moreover have "exec_call regs counter ex sx L ((rq_of ex sx (lp_data L))\<lparr>rq_queue := es_incoming ?s @ [i]\<rparr>) ?L'"
    using ok even alive pings ping_in_loop [of ?M]
    by (auto simp: exec_call_def rq_of_def exec_alive_def notified_pings_def queue_pings_def)
  ultimately show ?thesis by blast
qed

lemma act_call:
  fixes L :: "('s, 'i, 'p, 'd) loop_state"
  assumes parts: "access_ok ex" "access_ok sx" "access_apart ex sx"
    and alive: "exec_alive ex (lp_data L)" and pings: "notified_pings ex (lp_data L) (efd_count counter L)"
  shows "exec_call regs counter ex sx L (rq_act vk cur a (rq_of ex sx (lp_data L)))
    (task_act (in_data ex) (in_data sx) (eventfd_ping E loop_system fd) vk cur a L)"
proof (cases a)
  case (Wake i)
  show ?thesis
  proof (cases "Some i = cur \<or> \<not> unfinished i (the (es_active (acc_get ex (lp_data L)))) \<or> i \<in> set (es_incoming (acc_get ex (lp_data L)))")
    case True
    then show ?thesis using Wake alive pings
      by (auto simp: exec_call_def rq_of_def exec_wake_def wake_task_def exec_alive_def)
  next
    case False
    with Wake alive send_call [OF parts alive pings, of i] show ?thesis
      by (auto simp: exec_wake_def wake_task_def rq_of_def exec_alive_def)
  qed
next
  case (Spawn g)
  let ?s = "acc_get ex (lp_data L)"
  obtain tasks where tasks: "es_active ?s = Some tasks" using alive by (auto simp: exec_alive_def)
  let ?i = "vk tasks"
  let ?M = "L\<lparr>lp_data := acc_put ex (?s\<lparr>es_active := Some (slab_insert ?i (Future ?i) tasks)\<rparr>) (lp_data L)\<rparr>"
  have M: "acc_get ex (lp_data ?M) = ?s\<lparr>es_active := Some (slab_insert ?i (Future ?i) tasks)\<rparr>"
      "acc_get sx (lp_data ?M) = acc_get sx (lp_data L)"
    by (simp_all add: access_ok_simps(1) [OF parts(1)] access_apart_simps(1) [OF parts(3)])
  have call: "exec_alive ex (lp_data ?M)" "notified_pings ex (lp_data ?M) (efd_count counter ?M)"
    using alive pings M by (simp_all add: exec_alive_def notified_pings_def)
  obtain L' where L': "exec_send (in_data ex) (eventfd_ping E loop_system fd) ?i ?M = (Ok (), L')"
      "exec_call regs counter ex sx ?M ((rq_of ex sx (lp_data ?M))\<lparr>rq_queue := es_incoming ?s @ [?i]\<rparr>) L'"
    using send_call [OF parts call, of ?i] M by auto
  let ?L2 = "L'\<lparr>lp_data := acc_put sx (g ?i (acc_get sx (lp_data L'))) (lp_data L')\<rparr>"
  have sched: "schedule (in_data ex) (eventfd_ping E loop_system fd) vk L = (Ok ?i, L')"
    using tasks L'(1) by (simp add: schedule_def Let_def)
  have st: "acc_get sx (lp_data L') = acc_get sx (lp_data L)" "es_incoming (acc_get ex (lp_data L')) = es_incoming ?s @ [?i]"
      "the (es_active (acc_get ex (lp_data L'))) = slab_insert ?i (Future ?i) tasks" "loop_frame regs ?M = loop_frame regs L"
    using L'(2) M by (simp_all add: exec_call_def rq_of_def loop_frame_def)
  have data: "acc_get ex (lp_data ?L2) = acc_get ex (lp_data L')" "acc_get sx (lp_data ?L2) = g ?i (acc_get sx (lp_data L))"
    using st(1) by (simp_all add: access_ok_simps(1) [OF parts(2)] access_apart_simps(2) [OF parts(3)])
  have "exec_call regs counter ex sx L (rq_act vk cur a (rq_of ex sx (lp_data L))) ?L2"
    using L'(2) st data tasks M Spawn
    by (simp add: exec_call_def rq_of_def exec_alive_def notified_pings_def queue_pings_def loop_frame_def Let_def)
  then show ?thesis using Spawn sched by simp
qed

lemma acts_call:
  fixes L :: "('s, 'i, 'p, 'd) loop_state"
  assumes parts: "access_ok ex" "access_ok sx" "access_apart ex sx"
  shows "exec_alive ex (lp_data L) \<Longrightarrow> notified_pings ex (lp_data L) (efd_count counter L) \<Longrightarrow>
    exec_call regs counter ex sx L (fold (rq_act vk cur) acts (rq_of ex sx (lp_data L)))
      (fold (task_act (in_data ex) (in_data sx) (eventfd_ping E loop_system fd) vk cur) acts L)"
proof (induction acts arbitrary: L)
  case Nil
  then show ?case by (simp add: exec_call_def)
next
  case (Cons a acts)
  let ?L1 = "task_act (in_data ex) (in_data sx) (eventfd_ping E loop_system fd) vk cur a L"
  note step = act_call [OF parts Cons.prems, of vk cur a]
  then have q: "rq_of ex sx (lp_data ?L1) = rq_act vk cur a (rq_of ex sx (lp_data L))" "exec_alive ex (lp_data ?L1)"
      "notified_pings ex (lp_data ?L1) (efd_count counter ?L1)"
    by (simp_all add: exec_call_def)
  from exec_call_trans [OF step Cons.IH [OF q(2,3)]] q(1) show ?case by simp
qed

text \<open>One poll of a task in the event's closure is one step of the queue.\<close>

lemma poll_call:
  fixes L :: "('s, 'i, 'p, 'd) loop_state" and i :: nat
  assumes parts: "access_ok ex" "access_ok sx" "access_apart ex sx"
    and alive: "exec_alive ex (lp_data L)" and pings: "notified_pings ex (lp_data L) (efd_count counter L)"
    and p: "pr_poll prog i (acc_get sx (lp_data L)) = (r, acts, st)"
    and q: "q = fold (rq_act vk (Some i)) acts ((rq_of ex sx (lp_data L))\<lparr>rq_st := st\<rparr>)"
  shows "\<exists>L'. task_poll prog (in_data ex) (in_data sx) (eventfd_ping E loop_system fd) vk i L = (r, L') \<and>
    exec_call regs counter ex sx L (if r = None \<and> woken i acts then q\<lparr>rq_queue := rq_queue q @ [i]\<rparr> else q) L'"
proof -
  let ?M = "L\<lparr>lp_data := acc_put sx st (lp_data L)\<rparr>"
  let ?L1 = "fold (task_act (in_data ex) (in_data sx) (eventfd_ping E loop_system fd) vk (Some i)) acts ?M"
  have M: "acc_get sx (lp_data ?M) = st" "acc_get ex (lp_data ?M) = acc_get ex (lp_data L)"
    by (simp_all add: access_ok_simps(1) [OF parts(2)] access_apart_simps(2) [OF parts(3)])
  have start: "exec_alive ex (lp_data ?M)" "notified_pings ex (lp_data ?M) (efd_count counter ?M)"
    "rq_of ex sx (lp_data ?M) = (rq_of ex sx (lp_data L))\<lparr>rq_st := st\<rparr>"
    using alive pings M by (simp_all add: exec_alive_def notified_pings_def rq_of_def)
  have "exec_call regs counter ex sx ?M q ?L1" using acts_call [OF parts start(1,2), of vk "Some i" acts] start(3) q by simp
  then have call: "exec_call regs counter ex sx L q ?L1" using M(2) by (simp add: exec_call_def queue_pings_def loop_frame_def)
  then have L1: "exec_alive ex (lp_data ?L1)" "notified_pings ex (lp_data ?L1) (efd_count counter ?L1)" "rq_of ex sx (lp_data ?L1) = q"
    by (simp_all add: exec_call_def)
  show ?thesis
  proof (cases r)
    case (Some v)
    with p call show ?thesis by (simp add: task_poll_def)
  next
    case None
    obtain L2 where L2: "exec_send (in_data ex) (eventfd_ping E loop_system fd) i ?L1 = (Ok (), L2)"
        "exec_call regs counter ex sx ?L1 (q\<lparr>rq_queue := rq_queue q @ [i]\<rparr>) L2"
      using send_call [OF parts L1(1,2), of i] L1(3) by (auto simp: rq_of_def)
    show ?thesis using None p call L2(1) exec_call_trans [OF call L2(2)] by (simp add: task_poll_def Let_def)
  qed
qed

lemma closure_step:
  fixes L :: "('s, 'i, 'p, 'd) loop_state"
  assumes parts: "access_ok ex" "access_ok sx" "access_apart ex sx" and vk: "\<And>xs. vk xs \<le> slab_size xs"
    and alive: "exec_alive ex (lp_data L)" and pings: "notified_pings ex (lp_data L) (efd_count counter L)"
    and inv: "rq_inv (rq_of ex sx (lp_data L))" and queue: "es_incoming (acc_get ex (lp_data L)) = i # rest"
    and ping: "ping = eventfd_ping E loop_system fd"
  shows "\<exists>L'. exec_loop (in_data ex) (task_poll prog (in_data ex) (in_data sx) ping vk)
        (task_callback prog (in_data ex) (in_data sx) ping vk) (Suc n) c L =
      exec_loop (in_data ex) (task_poll prog (in_data ex) (in_data sx) ping vk)
        (task_callback prog (in_data ex) (in_data sx) ping vk) n c L' \<and>
    loop_frame regs L' = loop_frame regs L \<and> rq_of ex sx (lp_data L') = rq_step vk prog (rq_of ex sx (lp_data L)) \<and>
    exec_alive ex (lp_data L') \<and> notified_pings ex (lp_data L') (efd_count counter L')"
proof -
  let ?Q = "rq_of ex sx (lp_data L)"
  let ?M = "L\<lparr>lp_data := acc_put ex ((acc_get ex (lp_data L))\<lparr>es_incoming := rest\<rparr>) (lp_data L)\<rparr>"
  have M: "acc_get ex (lp_data ?M) = (acc_get ex (lp_data L))\<lparr>es_incoming := rest\<rparr>" "acc_get sx (lp_data ?M) = acc_get sx (lp_data L)"
    by (simp_all add: access_ok_simps(1) [OF parts(1)] access_apart_simps(1) [OF parts(3)])
  have start: "exec_alive ex (lp_data ?M)" "notified_pings ex (lp_data ?M) (efd_count counter ?M)"
      "rq_of ex sx (lp_data ?M) = ?Q\<lparr>rq_queue := rest\<rparr>" "loop_frame regs ?M = loop_frame regs L"
    using alive pings M by (simp_all add: exec_alive_def notified_pings_def rq_of_def loop_frame_def)
  obtain r acts st where p: "pr_poll prog i (acc_get sx (lp_data ?M)) = (r, acts, st)" by (rule prod_cases3)
  define q1 where "q1 = fold (rq_act vk (Some i)) acts ((rq_of ex sx (lp_data ?M))\<lparr>rq_st := st\<rparr>)"
  obtain L1 where L1: "task_poll prog (in_data ex) (in_data sx) ping vk i ?M = (r, L1)"
      "exec_call regs counter ex sx ?M (if r = None \<and> woken i acts then q1\<lparr>rq_queue := rq_queue q1 @ [i]\<rparr> else q1) L1"
    using poll_call [OF parts start(1,2) p q1_def] unfolding ping by blast
  have Q: "rq_queue ?Q = i # rest" "rq_st ?Q = acc_get sx (lp_data ?M)" using queue M(2) by (simp_all add: rq_of_def)
  have q1_eq: "q1 = fold (rq_act vk (Some i)) acts (?Q\<lparr>rq_queue := rest, rq_st := st\<rparr>)" unfolding q1_def start(3) by simp
  have "rq_inv (?Q\<lparr>rq_queue := rest, rq_st := st\<rparr>)" using inv Q(1) by (simp add: rq_inv_def)
  from rq_acts_inv [OF vk this, of "Some i" acts] have q1: "rq_inv q1" "slab_size (rq_active ?Q) \<le> slab_size (rq_active q1)"
    unfolding q1_eq by simp_all
  then have i: "i < slab_size (rq_active q1)" using inv Q(1) by (simp add: rq_inv_def)
  have tasks: "es_active (acc_get ex (lp_data L1)) = Some (rq_active q1)" and frame: "loop_frame regs L1 = loop_frame regs L"
    using exec_call_active [OF L1(2)] L1(2) start(4) by (simp_all add: exec_call_def)
  show ?thesis
  proof (cases r)
    case None
    have "slab_get i (rq_active q1) \<noteq> Some (Finished v)" for v
      using q1(1) i by (auto simp: rq_inv_def slab_get_def) (metis nth_mem slab_size_def)
    then have "exec_loop (in_data ex) (task_poll prog (in_data ex) (in_data sx) ping vk)
        (task_callback prog (in_data ex) (in_data sx) ping vk) (Suc n) c L =
      exec_loop (in_data ex) (task_poll prog (in_data ex) (in_data sx) ping vk)
        (task_callback prog (in_data ex) (in_data sx) ping vk) n c L1"
      using queue L1(1) None tasks by (auto simp: runnable_run_def Let_def split: option.splits active.splits)
    moreover have "rq_step vk prog ?Q = (if woken i acts then q1\<lparr>rq_queue := rq_queue q1 @ [i]\<rparr> else q1)"
      using Q p None by (simp add: rq_step_def q1_eq Let_def)
    ultimately show ?thesis using L1(2) None frame by (intro exI [of _ L1]) (simp add: exec_call_def)
  next
    case (Some v)
    let ?s1 = "acc_get ex (lp_data L1)"
    let ?L2 = "L1\<lparr>lp_data := acc_put ex (?s1\<lparr>es_active := Some (slab_remove i (rq_active q1))\<rparr>) (lp_data L1)\<rparr>"
    have L2: "acc_get ex (lp_data ?L2) = ?s1\<lparr>es_active := Some (slab_remove i (rq_active q1))\<rparr>"
        "acc_get sx (lp_data ?L2) = acc_get sx (lp_data L1)" "loop_frame regs ?L2 = loop_frame regs L1"
      by (simp_all add: access_ok_simps(1) [OF parts(1)] access_apart_simps(1) [OF parts(3)] loop_frame_def)
    have rq1: "rq_of ex sx (lp_data L1) = q1" using L1(2) Some by (simp add: exec_call_def)
    have st2: "acc_get sx (lp_data ?L2) = rq_st q1" using L2(2) rq1 by (auto simp: rq_of_def)
    obtain acts' st' where cb: "pr_callback prog v (rq_st q1) = (acts', st')" by (rule prod.exhaust)
    let ?L3 = "?L2\<lparr>lp_data := acc_put sx st' (lp_data ?L2)\<rparr>"
    have L3: "acc_get ex (lp_data ?L3) = acc_get ex (lp_data ?L2)" "acc_get sx (lp_data ?L3) = st'" "loop_frame regs ?L3 = loop_frame regs ?L2"
      by (simp_all add: access_ok_simps(1) [OF parts(2)] access_apart_simps(2) [OF parts(3)] loop_frame_def)
    have ready: "exec_alive ex (lp_data ?L3)" "notified_pings ex (lp_data ?L3) (efd_count counter ?L3)"
        "rq_of ex sx (lp_data ?L3) = q1\<lparr>rq_active := slab_remove i (rq_active q1), rq_st := st'\<rparr>"
      using L1(2) Some rq1 L2(1) L3(1,2) by (auto simp: exec_call_def exec_alive_def notified_pings_def rq_of_def)
    let ?L4 = "fold (task_act (in_data ex) (in_data sx) ping vk None) acts' ?L3"
    have call: "exec_call regs counter ex sx ?L3 (fold (rq_act vk None) acts' (q1\<lparr>rq_active := slab_remove i (rq_active q1), rq_st := st'\<rparr>)) ?L4"
      using acts_call [OF parts ready(1,2), of vk None acts'] unfolding ready(3) ping .
    have "exec_loop (in_data ex) (task_poll prog (in_data ex) (in_data sx) ping vk)
        (task_callback prog (in_data ex) (in_data sx) ping vk) (Suc n) c L =
      exec_loop (in_data ex) (task_poll prog (in_data ex) (in_data sx) ping vk)
        (task_callback prog (in_data ex) (in_data sx) ping vk) n c ?L4"
      using queue L1(1) Some tasks i cb st2
      by (simp add: runnable_run_def store_on_drop_def task_callback_def slab_get_set slab_remove_set access_ok_simps [OF parts(1)] Let_def)
    moreover have "rq_step vk prog ?Q = fold (rq_act vk None) acts' (q1\<lparr>rq_active := slab_remove i (rq_active q1), rq_st := st'\<rparr>)"
      using Q p Some cb by (simp add: rq_step_def q1_eq [symmetric] Let_def)
    ultimately show ?thesis using call frame L2(3) L3(3) by (intro exI [of _ ?L4]) (simp add: exec_call_def)
  qed
qed

lemma closure_steps:
  fixes L :: "('s, 'i, 'p, 'd) loop_state"
  assumes parts: "access_ok ex" "access_ok sx" "access_apart ex sx" and vk: "\<And>xs. vk xs \<le> slab_size xs"
    and ping: "ping = eventfd_ping E loop_system fd"
  shows "exec_alive ex (lp_data L) \<Longrightarrow> notified_pings ex (lp_data L) (efd_count counter L) \<Longrightarrow>
    rq_inv (rq_of ex sx (lp_data L)) \<Longrightarrow>
    \<exists>L' clear. exec_loop (in_data ex) (task_poll prog (in_data ex) (in_data sx) ping vk)
        (task_callback prog (in_data ex) (in_data sx) ping vk) k (False, False) L = ((clear, False), L') \<and>
      loop_frame regs L' = loop_frame regs L \<and> rq_of ex sx (lp_data L') = rq_steps vk prog k (rq_of ex sx (lp_data L)) \<and>
      exec_alive ex (lp_data L') \<and> notified_pings ex (lp_data L') (efd_count counter L') \<and>
      (clear \<longrightarrow> rq_queue (rq_of ex sx (lp_data L')) = [])"
proof (induction k arbitrary: L)
  case 0
  then show ?case by auto
next
  case (Suc k)
  show ?case
  proof (cases "es_incoming (acc_get ex (lp_data L))")
    case Nil
    then have "rq_queue (rq_of ex sx (lp_data L)) = []" by (simp add: rq_of_def)
    with Nil Suc.prems show ?thesis
      by (intro exI [of _ L] exI [of _ True]) (simp add: rq_step_idle rq_steps_idle)
  next
    case (Cons i rest)
    obtain L1 where L1: "exec_loop (in_data ex) (task_poll prog (in_data ex) (in_data sx) ping vk)
        (task_callback prog (in_data ex) (in_data sx) ping vk) (Suc k) (False, False) L =
      exec_loop (in_data ex) (task_poll prog (in_data ex) (in_data sx) ping vk)
        (task_callback prog (in_data ex) (in_data sx) ping vk) k (False, False) L1"
      "loop_frame regs L1 = loop_frame regs L" "rq_of ex sx (lp_data L1) = rq_step vk prog (rq_of ex sx (lp_data L))"
      "exec_alive ex (lp_data L1)" "notified_pings ex (lp_data L1) (efd_count counter L1)"
      using closure_step [OF parts vk Suc.prems Cons ping] by blast
    have "rq_inv (rq_of ex sx (lp_data L1))" using rq_step_inv [OF vk Suc.prems(3)] L1(3) by simp
    from Suc.IH [OF L1(4,5) this] show ?thesis unfolding L1(1) L1(2,3) by simp
  qed
qed

text \<open>An event of the executor, and a dispatch, are up to 1024 steps.\<close>

lemma executor_event:
  fixes L :: "(eventfd_source, 'i, 'p, 'd) loop_state"
  assumes parts: "access_ok ex" "access_ok sx" "access_apart ex sx" and vk: "\<And>xs. vk xs \<le> slab_size xs"
    and src: "gn_file g = Some fd" "gn_token g = Some t"
    and count: "2 \<le> unat (efd_count counter L)" "even (efd_count counter L)"
    and alive: "exec_alive ex (lp_data L)" and inv: "rq_inv (rq_of ex sx (lp_data L))"
  shows "\<exists>L'. so_process (executor_ops K E fd ex sx vk prog) g rd t L = (Ok Continue, g, L') \<and>
    loop_frame regs L' = loop_frame regs L \<and> rq_of ex sx (lp_data L') = rq_steps vk prog 1024 (rq_of ex sx (lp_data L)) \<and>
    exec_alive ex (lp_data L') \<and> notified_pings ex (lp_data L') (efd_count counter L') \<and>
    queue_pings ex (lp_data L') (efd_count counter L')"
proof -
  let ?sys = "loop_system :: ((eventfd_source, 'i, 'p, 'd) loop_state, 'p) access"
  let ?ping = "eventfd_ping E ?sys fd"
  let ?poll = "task_poll prog (in_data ex) (in_data sx) ?ping vk"
  let ?cb = "task_callback prog (in_data ex) (in_data sx) ?ping vk"
  have "efd_count counter L \<noteq> 0" using count(1) by auto
  with count obtain W where W: "loop_frame regs W = loop_frame regs L" "lp_data W = lp_data L" "efd_count counter W = 0" and
    ev: "eventfd_process E ?sys g rd t (exec_on_ping (in_data ex) ?poll ?cb) (False, False) L
      = (Ok Continue, g, exec_on_ping (in_data ex) ?poll ?cb (False, False) W)"
    using eventfd_kernel.process_effect [OF ping_kernel src, of L rd "exec_on_ping (in_data ex) ?poll ?cb" "(False, False)"]
    by auto
  let ?M = "W\<lparr>lp_data := acc_put ex ((acc_get ex (lp_data W))\<lparr>es_notified := False\<rparr>) (lp_data W)\<rparr>"
  have M: "acc_get ex (lp_data ?M) = (acc_get ex (lp_data L))\<lparr>es_notified := False\<rparr>" "acc_get sx (lp_data ?M) = acc_get sx (lp_data L)"
    using W(2) by (simp_all add: access_ok_simps(1) [OF parts(1)] access_apart_simps(1) [OF parts(3)])
  have rq: "rq_of ex sx (lp_data ?M) = rq_of ex sx (lp_data L)" "loop_frame regs ?M = loop_frame regs L"
    using M W(1) by (simp_all add: rq_of_def loop_frame_def)
  have "exec_alive ex (lp_data ?M)" "notified_pings ex (lp_data ?M) (efd_count counter ?M)" "rq_inv (rq_of ex sx (lp_data ?M))"
    using alive inv M W(3) rq by (simp_all add: exec_alive_def notified_pings_def)
  from closure_steps [OF parts vk refl this, of prog 1024, unfolded rq] obtain L1 clear where
    L1: "exec_loop (in_data ex) ?poll ?cb 1024 (False, False) ?M = ((clear, False), L1)" "loop_frame regs L1 = loop_frame regs L"
      "rq_of ex sx (lp_data L1) = rq_steps vk prog 1024 (rq_of ex sx (lp_data L))" "exec_alive ex (lp_data L1)"
      "notified_pings ex (lp_data L1) (efd_count counter L1)" "clear \<longrightarrow> rq_queue (rq_of ex sx (lp_data L1)) = []"
    by blast
  let ?L' = "if clear then L1 else ?ping L1"
  have "even (efd_count counter L1)" using L1(5) by (simp add: notified_pings_def)
  note again = ping_in_loop [of L1] ping_in_loop(3) [OF this]
  have "so_process (executor_ops K E fd ex sx vk prog) g rd t L = (Ok Continue, g, ?L')"
    using ev L1(1) by (simp add: executor_ops_def executor_process_def exec_on_ping_def Let_def)
  moreover have "loop_frame regs ?L' = loop_frame regs L" "lp_data ?L' = lp_data L1" using L1(2) again by simp_all
  moreover have "notified_pings ex (lp_data L1) (efd_count counter ?L')" "queue_pings ex (lp_data L1) (efd_count counter ?L')"
    using L1(5,6) again by (auto simp: notified_pings_def queue_pings_def rq_of_def)
  ultimately show ?thesis using L1(3,4) by (intro exI [of _ ?L']) simp
qed

lemma executor_pinged:
  "pinged_source K E regs fd counter (executor_ops K E fd ex sx vk prog) (\<lambda>g. g) (\<lambda>g _. g)"
  by unfold_locales (simp_all add: executor_ops_def executor_register_def executor_unregister_def default_needs_extra_def Let_def
      split: prod.splits)

lemma executor_dispatch:
  fixes L :: "(eventfd_source, 'i, 'p, 'd) loop_state"
  assumes parts: "access_ok ex" "access_ok sx" "access_apart ex sx" and vk: "\<And>xs. vk xs \<le> slab_size xs" and "0 < n"
    and serving: "serving regs fd g g d t L"
    and sync: "exec_alive ex (lp_data L)" "notified_pings ex (lp_data L) (efd_count counter L)"
      "queue_pings ex (lp_data L) (efd_count counter L)"
    and inv: "rq_inv (rq_of ex sx (lp_data L))" and queue: "rq_queue (rq_of ex sx (lp_data L)) \<noteq> []"
  shows "\<exists>L'. dispatch K (executor_ops K E fd ex sx vk prog) run_idle n timeout L = (Ok (), L') \<and>
    (rq_of ex sx (lp_data L') = rq_steps vk prog 1024 (rq_of ex sx (lp_data L)) \<and>
     exec_alive ex (lp_data L') \<and> notified_pings ex (lp_data L') (efd_count counter L') \<and>
     queue_pings ex (lp_data L') (efd_count counter L')) \<and>
    serving regs fd g g d t L'"
proof -
  have count: "2 \<le> unat (efd_count counter L)" "even (efd_count counter L)"
    using sync queue by (simp_all add: queue_pings_def notified_pings_def rq_of_def)
  then have nonzero: "efd_count counter L \<noteq> 0" by auto
  have src: "gn_file g = Some fd" "gn_token g = Some t" using serving by (simp_all add: serving_def)
  have "\<exists>L2. so_process (executor_ops K E fd ex sx vk prog) g (pe_readiness (timer_event t)) t L1
        = (Ok (if False then Remove else Continue), g, L2) \<and> loop_frame regs L2 = loop_frame regs L1 \<and>
      rq_of ex sx (lp_data L2) = rq_steps vk prog 1024 (rq_of ex sx (lp_data L)) \<and> exec_alive ex (lp_data L2) \<and>
      notified_pings ex (lp_data L2) (efd_count counter L2) \<and> queue_pings ex (lp_data L2) (efd_count counter L2)"
    if same: "lp_data L1 = lp_data L" "efd_count counter L1 = efd_count counter L"
    for L1 :: "(eventfd_source, 'i, 'p, 'd) loop_state"
    using executor_event [OF parts vk src, of L1, unfolded same, OF count sync(1) inv] by simp
  from pinged_source.served_dispatch [OF executor_pinged serving assms(5) nonzero this] show ?thesis by simp
qed

text \<open>Enough dispatches finish what takes at most \<open>N\<close> polls.\<close>

lemma executor_dispatches:
  fixes L :: "(eventfd_source, 'i, 'p, 'd) loop_state"
  assumes parts: "access_ok ex" "access_ok sx" "access_apart ex sx" and vk: "\<And>xs. vk xs \<le> slab_size xs" and "0 < n"
  shows "serving regs fd g g d t L \<Longrightarrow> exec_alive ex (lp_data L) \<Longrightarrow> notified_pings ex (lp_data L) (efd_count counter L) \<Longrightarrow>
    queue_pings ex (lp_data L) (efd_count counter L) \<Longrightarrow> rq_inv (rq_of ex sx (lp_data L)) \<Longrightarrow>
    q = rq_steps vk prog N (rq_of ex sx (lp_data L)) \<Longrightarrow> rq_queue q = [] \<Longrightarrow>
    \<exists>k L'. k \<le> N div 1024 + 1 \<and> dispatches K (executor_ops K E fd ex sx vk prog) run_idle n timeout k L = (Ok (), L') \<and>
      serving regs fd g g d t L' \<and> rq_of ex sx (lp_data L') = q \<and> exec_alive ex (lp_data L') \<and>
      notified_pings ex (lp_data L') (efd_count counter L') \<and> queue_pings ex (lp_data L') (efd_count counter L')"
proof (induction N arbitrary: L rule: less_induct)
  case (less N)
  show ?case
  proof (cases "rq_queue (rq_of ex sx (lp_data L)) = []")
    case True
    then have "q = rq_of ex sx (lp_data L)" using less.prems(6) by (simp add: rq_steps_idle)
    with less.prems show ?thesis by (intro exI [of _ 0] exI [of _ L]) simp
  next
    case False
    let ?Q = "rq_of ex sx (lp_data L)"
    obtain L1 where L1: "dispatch K (executor_ops K E fd ex sx vk prog) run_idle n timeout L = (Ok (), L1)"
      "rq_of ex sx (lp_data L1) = rq_steps vk prog 1024 ?Q" "exec_alive ex (lp_data L1)"
      "notified_pings ex (lp_data L1) (efd_count counter L1)" "queue_pings ex (lp_data L1) (efd_count counter L1)"
      "serving regs fd g g d t L1"
      using executor_dispatch [OF parts vk assms(5) less.prems(1-5) False] by blast
    have inv: "rq_inv (rq_steps vk prog m r)" if "rq_inv r" for m and r :: "('a, 'b) run_queue"
      using that by (induction m arbitrary: r) (simp_all add: rq_step_inv [OF vk])
    show ?thesis
    proof (cases "N \<le> 1024")
      case True
      then have "rq_steps vk prog 1024 ?Q = q" using rq_steps_stay [of vk prog N ?Q 1024] less.prems(6,7) by simp
      with L1 show ?thesis by (intro exI [of _ "Suc 0"] exI [of _ L1]) simp
    next
      case N: False
      then have "q = rq_steps vk prog (N - 1024) (rq_of ex sx (lp_data L1))"
        using rq_steps_add [of vk prog 1024 "N - 1024" ?Q] less.prems(6) L1(2) by simp
      moreover have "N - 1024 < N" "rq_inv (rq_of ex sx (lp_data L1))" using N inv [OF less.prems(5)] L1(2) by simp_all
      ultimately obtain k L' where k: "k \<le> (N - 1024) div 1024 + 1"
        "dispatches K (executor_ops K E fd ex sx vk prog) run_idle n timeout k L1 = (Ok (), L')"
        "serving regs fd g g d t L'" "rq_of ex sx (lp_data L') = q" "exec_alive ex (lp_data L')"
        "notified_pings ex (lp_data L') (efd_count counter L')" "queue_pings ex (lp_data L') (efd_count counter L')"
        using less.IH [of "N - 1024" L1, OF _ L1(6,3,4,5)] less.prems(7) by blast
      have "N div 1024 = Suc ((N - 1024) div 1024)" using N by (simp add: le_div_geq)
      with k L1(1) show ?thesis by (intro exI [of _ "Suc k"] exI [of _ L']) simp
    qed
  qed
qed

lemma executor_session_serves:
  fixes L :: "(eventfd_source, 'i, 'p, 'd) loop_state"
  assumes parts: "access_ok ex" "access_ok sx" "access_apart ex sx" and vk: "\<And>xs. vk xs \<le> slab_size xs" and "0 < n"
  shows "serving regs fd g g d t L \<Longrightarrow> exec_alive ex (lp_data L) \<Longrightarrow> notified_pings ex (lp_data L) (efd_count counter L) \<Longrightarrow>
    queue_pings ex (lp_data L) (efd_count counter L) \<Longrightarrow> rq_inv (rq_of ex sx (lp_data L)) \<Longrightarrow>
    rq_session vk prog rounds (rq_of ex sx (lp_data L)) = Some q \<Longrightarrow>
    \<exists>ks L'. list_all2 (\<lambda>k (_, N). k \<le> N div 1024 + 1) ks rounds \<and>
      executor_session K E fd ex sx vk (executor_ops K E fd ex sx vk prog) run_idle n timeout (zip (map fst rounds) ks) L = (Ok (), L') \<and>
      serving regs fd g g d t L' \<and> rq_of ex sx (lp_data L') = q \<and> exec_alive ex (lp_data L')"
proof (induction rounds arbitrary: L)
  case Nil
  then show ?case by simp
next
  case (Cons round rounds)
  obtain acts N where round: "round = (acts, N)" by (rule prod.exhaust)
  let ?L1 = "fold (task_act (in_data ex) (in_data sx) (eventfd_ping E loop_system fd) vk None) acts L"
  have call: "exec_call regs counter ex sx L (fold (rq_act vk None) acts (rq_of ex sx (lp_data L))) ?L1"
    by (rule acts_call [OF parts Cons.prems(2,3)])
  then have L1: "serving regs fd g g d t ?L1" "exec_alive ex (lp_data ?L1)" "notified_pings ex (lp_data ?L1) (efd_count counter ?L1)"
      "queue_pings ex (lp_data ?L1) (efd_count counter ?L1)"
    using Cons.prems(1,4) serving_frame [of regs ?L1 L fd g g d t] by (simp_all add: exec_call_def)
  have rq1: "rq_of ex sx (lp_data ?L1) = fold (rq_act vk None) acts (rq_of ex sx (lp_data L))" using call by (simp add: exec_call_def)
  then have inv1: "rq_inv (rq_of ex sx (lp_data ?L1))" using rq_acts_inv [OF vk Cons.prems(5)] by simp
  define q1 where "q1 = rq_steps vk prog N (rq_of ex sx (lp_data ?L1))"
  have q1: "rq_queue q1 = []" "rq_session vk prog rounds q1 = Some q"
    using Cons.prems(6) by (simp_all add: round q1_def rq1 Let_def split: if_splits)
  obtain k L2 where L2: "k \<le> N div 1024 + 1"
    "dispatches K (executor_ops K E fd ex sx vk prog) run_idle n timeout k ?L1 = (Ok (), L2)"
    "serving regs fd g g d t L2" "rq_of ex sx (lp_data L2) = q1" "exec_alive ex (lp_data L2)"
    "notified_pings ex (lp_data L2) (efd_count counter L2)" "queue_pings ex (lp_data L2) (efd_count counter L2)"
    using executor_dispatches [OF parts vk assms(5) L1 inv1 q1_def q1(1)] by blast
  have "rq_inv (rq_steps vk prog m r)" if "rq_inv r" for m and r :: "('a, 'b) run_queue"
    using that by (induction m arbitrary: r) (simp_all add: rq_step_inv [OF vk])
  then have "rq_inv (rq_of ex sx (lp_data L2))" using inv1 unfolding L2(4) q1_def by blast
  from Cons.IH [OF L2(3,5,6,7) this] q1(2) obtain ks L' where "list_all2 (\<lambda>k (_, N). k \<le> N div 1024 + 1) ks rounds"
    "executor_session K E fd ex sx vk (executor_ops K E fd ex sx vk prog) run_idle n timeout (zip (map fst rounds) ks) L2 = (Ok (), L')"
    "serving regs fd g g d t L'" "rq_of ex sx (lp_data L') = q" "exec_alive ex (lp_data L')"
    unfolding L2(4) by blast
  with L2(1,2) round show ?case by (intro exI [of _ "k # ks"] exI [of _ L']) simp
qed

end

interpretation linux_executor: pinged_source LXP LXE lx_table fd "\<lambda>p. lx_counters p fd" "executor_ops LXP LXE fd ex sx vk prog"
    "\<lambda>g. g" "\<lambda>g _. g" for fd ex sx vk prog
  by (rule linux_loop.executor_pinged)

section \<open>From the scheduler to the callback\<close>

text \<open>
  C5: an executor in a loop is a queue of tasks. In a new loop whose poller and eventfd work as
  documented, an executor is inserted; then, in rounds, futures are scheduled and tasks woken from
  outside, and the loop dispatches. The futures and the callback may in turn wake and schedule, and
  may act on the program's state as they like. Wherever the queue of tasks comes to rest within \<open>N\<close>
  polls, at most \<open>N div 1024 + 1\<close> dispatches succeed and leave the program's state (the results its
  callback was given, in order, among it) and the tasks still waiting exactly as the queue does.
\<close>

theorem executor_end_to_end:
  assumes "eventfd_system K E regs fd counter" and "access_ok ex" and "access_ok sx" and "access_apart ex sx"
    and "\<And>xs. vacant_key xs \<le> slab_size xs"
    and "try_new K (Inr p) dat = Ok L0" and "regs p = Map.empty" and "counter p = 0" and "0 < n"
    and "acc_get ex dat = \<lparr>es_incoming = [], es_active = Some slab_new, es_notified = False, es_receiver = True\<rparr>"
    and "rq_session vacant_key prog rounds \<lparr>rq_queue = [], rq_active = slab_new, rq_st = acc_get sx dat\<rparr> = Some q"
    and "ops = executor_ops K E fd ex sx vacant_key prog"
  shows "\<exists>t L1 ks L2. insert_source ops (Generic_new fd Interest_READ Level) L0 = (Ok t, L1) \<and>
    list_all2 (\<lambda>k (_, N). k \<le> N div 1024 + 1) ks rounds \<and>
    executor_session K E fd ex sx vacant_key ops run_idle n timeout (zip (map fst rounds) ks) L1 = (Ok (), L2) \<and>
    acc_get sx (lp_data L2) = rq_st q \<and> es_active (acc_get ex (lp_data L2)) = Some (rq_active q) \<and>
    es_incoming (acc_get ex (lp_data L2)) = [] \<and> sl_lookup (lp_sources L2) t \<noteq> None"
proof -
  note parts = assms(2-4)
  obtain L1 t g where L1: "insert_source ops (Generic_new fd Interest_READ Level) L0 = (Ok t, L1)" "serving regs fd g g 0 t L1"
      "lp_data L1 = dat" "efd_count counter L1 = 0"
    using pinged_source.insert_serves [OF eventfd_system.executor_pinged [OF assms(1)] assms(6,7) refl, of ex sx vacant_key prog]
    unfolding assms(8,12) by blast
  have start: "exec_alive ex (lp_data L1)" "notified_pings ex (lp_data L1) (efd_count counter L1)"
      "queue_pings ex (lp_data L1) (efd_count counter L1)"
      "rq_of ex sx (lp_data L1) = \<lparr>rq_queue = [], rq_active = slab_new, rq_st = acc_get sx dat\<rparr>"
    using assms(10) L1(3,4) by (simp_all add: exec_alive_def notified_pings_def queue_pings_def rq_of_def)
  have inv: "rq_inv (rq_of ex sx (lp_data L1))" unfolding start(4) by (simp add: rq_inv_def)
  have sess: "rq_session vacant_key prog rounds (rq_of ex sx (lp_data L1)) = Some q" using assms(11) start(4) by simp
  obtain ks L2 where L2: "list_all2 (\<lambda>k (_, N). k \<le> N div 1024 + 1) ks rounds"
    "executor_session K E fd ex sx vacant_key ops run_idle n timeout (zip (map fst rounds) ks) L1 = (Ok (), L2)"
    "serving regs fd g g 0 t L2" "rq_of ex sx (lp_data L2) = q" "exec_alive ex (lp_data L2)"
    using eventfd_system.executor_session_serves [OF assms(1) parts assms(5,9) L1(2) start(1,2,3) inv sess, of run_idle timeout]
    unfolding assms(12) by blast
  have "rq_queue q = []" using rq_session_rests [OF assms(11)] by simp
  then have "acc_get sx (lp_data L2) = rq_st q" "es_active (acc_get ex (lp_data L2)) = Some (rq_active q)"
      "es_incoming (acc_get ex (lp_data L2)) = []"
    using L2(4,5) by (auto simp: rq_of_def exec_alive_def)
  moreover have "sl_lookup (lp_sources L2) t \<noteq> None" using L2(3) by (simp add: serving_def)
  ultimately show ?thesis using L1(1) L2(1,2) by blast
qed

text \<open>
  Two futures: the first wakes itself once and, when it is ready, wakes the second, which waits for
  that. The callback schedules a third for the first result.
\<close>

definition demo_program :: "(nat, (nat \<Rightarrow> nat) \<times> nat list) task_program" where
  "demo_program =
     \<lparr>pr_poll = (\<lambda>i (n, log).
        if i = 0 then (if n 0 = 0 then (None, [Wake 0], (n(0 := 1), log)) else (Some 10, [Wake 1], (n(1 := 1), log)))
        else if i = 1 \<and> n 1 = 0 then (None, [], (n, log))
        else (Some (10 * i + n i), [], (n, log))),
      pr_callback = (\<lambda>v (n, log). (if v = 10 then [Spawn (\<lambda>i (n, log). (n(i := 5), log))] else [], (n, log @ [v])))\<rparr>"

theorem executor_end_to_end_witness:
  "\<exists>L2 :: (eventfd_source, nat, linux, nat exec_state \<times> (nat \<Rightarrow> nat) \<times> nat list) loop_state.
     snd (snd (lp_data L2)) = [10, 11, 25]"
proof -
  let ?p = "\<lparr>lx_regs = [], lx_counters = \<lambda>_. 0, lx_now = 0, lx_next = 4\<rparr>"
  let ?dat = "(\<lparr>es_incoming = [], es_active = Some slab_new, es_notified = False, es_receiver = True\<rparr>, (\<lambda>_. 0), [])
    :: nat exec_state \<times> (nat \<Rightarrow> nat) \<times> nat list"
  let ?rounds = "[([Spawn (\<lambda>_ st. st), Spawn (\<lambda>_ st. st)], 6)] :: (((nat \<Rightarrow> nat) \<times> nat list) act list \<times> nat) list"
  obtain L0 :: "(eventfd_source, nat, linux, nat exec_state \<times> (nat \<Rightarrow> nat) \<times> nat list) loop_state"
    where L0: "try_new LXP (Inr ?p) ?dat = Ok L0"
    by (simp add: try_new_def Poll_new_def Poll_new_inner_def LXP_def)
  have start: "lx_table ?p = Map.empty" "lx_counters ?p 3 = 0" "0 < (1 :: nat)"
    "acc_get pair_first ?dat = \<lparr>es_incoming = [], es_active = Some slab_new, es_notified = False, es_receiver = True\<rparr>"
    by (simp_all add: lx_table_def pair_first_def)
  have run: "\<exists>q. rq_session slab_size demo_program ?rounds \<lparr>rq_queue = [], rq_active = slab_new, rq_st = acc_get pair_second ?dat\<rparr> = Some q \<and>
      snd (rq_st q) = [10, 11, 25]"
    by (simp add: demo_program_def pair_second_def rq_step_def slab_insert_def slab_remove_def slab_get_def slab_size_def slab_new_def unfinished_def woken_def
        numeral_eq_Suc Let_def)
  then obtain q where q: "rq_session slab_size demo_program ?rounds \<lparr>rq_queue = [], rq_active = slab_new, rq_st = acc_get pair_second ?dat\<rparr> = Some q"
    "snd (rq_st q) = [10, 11, 25]" by blast
  from executor_end_to_end [OF linux_loop.eventfd_system_axioms pair_ok order_refl L0 start(1,2,3,4) q(1) refl, of "\<lambda>_ L. L" None]
  obtain L2 :: "(eventfd_source, nat, linux, nat exec_state \<times> (nat \<Rightarrow> nat) \<times> nat list) loop_state"
    where "acc_get pair_second (lp_data L2) = rq_st q" by blast
  with q(2) have "snd (snd (lp_data L2)) = [10, 11, 25]" by (simp add: pair_second_def)
  then show ?thesis ..
qed

end
