(* ===== verification/Stream_Source.thy ===== *)
theory Stream_Source
  imports Ping_Eventfd
begin

text \<open>
  \<open>src/src/sources/stream.rs\<close>: a \<open>Stream\<close> as an event source. The stream's waker pings the source.
  \<open>poll_next\<close>, a parameter, is the user's stream: \<open>None\<close> for \<open>Pending\<close>, \<open>Some None\<close> at its end. A
  stream that is always ready keeps the loop of \<open>process_events\<close> going, so that loop has fuel.
\<close>

record ('st, 'src) stream_source =
  ss_stream :: 'st
  ss_source :: 'src

type_synonym ('st, 'i, 'w) poll_next = "'st \<Rightarrow> 'w \<Rightarrow> 'i option option \<times> 'st \<times> 'w"

text \<open>\<open>PingWaker::wake\<close>, and \<open>StreamSource::new\<close>, which pings once so that the stream is polled.\<close>

definition stream_wake :: "('h \<Rightarrow> 'w \<Rightarrow> 'w) \<Rightarrow> 'h \<Rightarrow> 'w \<Rightarrow> 'w" where
  "stream_wake ping h w = ping h w"

definition stream_new :: "('w \<Rightarrow> (io_error + 'h \<times> 'src) \<times> 'w) \<Rightarrow> ('h \<Rightarrow> 'w \<Rightarrow> 'w) \<Rightarrow> 'st \<Rightarrow> 'w
    \<Rightarrow> ('st, 'src) stream_source cresult \<times> 'w" where
  "stream_new make_ping ping stream w =
     (case make_ping w of
        (Inl e, w') \<Rightarrow> (Err (error_from_io e), w')
      | (Inr (h, source), w') \<Rightarrow> (Ok \<lparr>ss_stream = stream, ss_source = source\<rparr>, ping h w'))"

text \<open>
  The \<open>while let\<close>; the closure's captured state is the stream, \<open>end_of_stream\<close>, and whether the
  fuel ran out.
\<close>

fun stream_loop :: "('st, 'i, 'w) poll_next \<Rightarrow> ('i option \<Rightarrow> 'w \<Rightarrow> 'w) \<Rightarrow> nat \<Rightarrow> 'st \<times> bool \<times> bool \<Rightarrow> 'w
    \<Rightarrow> ('st \<times> bool \<times> bool) \<times> 'w" where
  "stream_loop poll_next callback 0 (st, fin, out) w = ((st, fin, True), w)"
| "stream_loop poll_next callback (Suc n) (st, fin, out) w =
     (case poll_next st w of
        (None, st', w') \<Rightarrow> ((st', fin, out), w')
      | (Some (Some evt), st', w') \<Rightarrow> stream_loop poll_next callback n (st', fin, out) (callback (Some evt) w')
      | (Some None, st', w') \<Rightarrow> ((st', True, out), callback None w'))"

definition stream_process :: "('src, 'st \<times> bool \<times> bool, 'w) ping_process \<Rightarrow> ('st, 'i, 'w) poll_next
    \<Rightarrow> ('i option \<Rightarrow> 'w \<Rightarrow> 'w) \<Rightarrow> nat \<Rightarrow> (('st, 'src) stream_source, 'w) process_op" where
  "stream_process pp poll_next callback n ss rd token w =
     (case pp (ss_source ss) rd token (stream_loop poll_next callback n) (ss_stream ss, False, False) w of
        (r, src, (st, end_of_stream, out), w') \<Rightarrow>
          (let ss' = \<lparr>ss_stream = st, ss_source = src\<rparr> in
           if out then (Diverge, ss', w')
           else case r of
                  Ok action \<Rightarrow> (Ok (if end_of_stream then Remove else action), ss', w')
                | Err e \<Rightarrow> (Err (StreamError e), ss', w')
                | Panic \<Rightarrow> (Panic, ss', w')
                | Diverge \<Rightarrow> (Diverge, ss', w')))"

definition stream_register :: "('src, 'p) register_op \<Rightarrow> (('st, 'src) stream_source, 'p) register_op" where
  "stream_register reg ss P tf =
     (case reg (ss_source ss) P tf of (r, src, P', tf') \<Rightarrow> (r, ss\<lparr>ss_source := src\<rparr>, P', tf'))"

definition stream_reregister :: "('src, 'p) register_op \<Rightarrow> (('st, 'src) stream_source, 'p) register_op" where
  "stream_reregister rereg ss P tf =
     (case rereg (ss_source ss) P tf of (r, src, P', tf') \<Rightarrow> (r, ss\<lparr>ss_source := src\<rparr>, P', tf'))"

definition stream_unregister :: "('src, 'p) unregister_op \<Rightarrow> (('st, 'src) stream_source, 'p) unregister_op" where
  "stream_unregister unreg ss P =
     (case unreg (ss_source ss) P of (r, src, P') \<Rightarrow> (r, ss\<lparr>ss_source := src\<rparr>, P'))"

section \<open>A stream with a list of items\<close>

text \<open>The items that are ready, and whether the stream ends after them or is pending.\<close>

definition list_stream :: "('i list \<times> bool, 'i, 'w) poll_next" where
  "list_stream st w =
     (case fst st of
        x # xs \<Rightarrow> (Some (Some x), (xs, snd st), w)
      | [] \<Rightarrow> (if snd st then Some None else None, st, w))"

lemma stream_loop_list:
  "length xs < n \<Longrightarrow>
     stream_loop list_stream callback n ((xs, ends), False, False) w =
       (let w' = fold (\<lambda>x. callback (Some x)) xs w in
        ((([], ends), ends, False), if ends then callback None w' else w'))"
proof (induction n arbitrary: xs w)
  case 0
  then show ?case by simp
next
  case (Suc n)
  then show ?case by (cases xs) (auto simp: list_stream_def Let_def)
qed

text \<open>
  One event of a stream source takes every item the stream has ready, in order, then, if
  the stream has ended, delivers the end and asks for removal; otherwise the stream was polled
  until it was pending, so that its waker is registered. The loop ends one poll after the last
  ready item.
\<close>

theorem stream_drains_ready_items:
  assumes "eventfd_contract E fd counter" and "access_ok sys"
    and "gn_file (ss_source ss) = Some fd" and "gn_token (ss_source ss) = Some t"
    and "2 \<le> unat (counter (acc_get sys w))"
    and "ss_stream ss = (xs, ends)" and "length xs < n"
  shows "\<exists>w1. counter (acc_get sys w1) = 0 \<and>
    stream_process (eventfd_process E sys) list_stream callback n ss rd t w =
      (Ok (if ends \<or> odd (counter (acc_get sys w)) then Remove else Continue), \<lparr>ss_stream = ([], ends), ss_source = ss_source ss\<rparr>,
       (let w' = fold (\<lambda>x. callback (Some x)) xs w1 in if ends then callback None w' else w'))"
proof -
  have K: "eventfd_kernel E sys fd counter (\<lambda>_. ())" using assms(1,2) by unfold_locales auto
  have "counter (acc_get sys w) \<noteq> 0" using assms(5) by auto
  with assms(5) obtain w1 where "counter (acc_get sys w1) = 0" and
    "eventfd_process E sys (ss_source ss) rd t (stream_loop list_stream callback n) (ss_stream ss, False, False) w =
      (Ok (if odd (counter (acc_get sys w)) then Remove else Continue), ss_source ss,
       stream_loop list_stream callback n (ss_stream ss, False, False) w1)"
    using eventfd_kernel.process_effect [OF K assms(3,4), where w = w and rd = rd and
        cb = "stream_loop list_stream callback n" and c = "(ss_stream ss, False, False)"] by auto
  moreover have "stream_loop list_stream callback n (ss_stream ss, False, False) w1 =
      ((([], ends), ends, False),
       (let w' = fold (\<lambda>x. callback (Some x)) xs w1 in if ends then callback None w' else w'))"
    using stream_loop_list [OF assms(7), where callback = callback and ends = ends and w = w1] by (simp add: assms(6) Let_def)
  ultimately show ?thesis
    by (intro exI [of _ w1]) (auto simp: stream_process_def Let_def)
qed

theorem stream_drains_ready_items_witness:
  "\<exists>w1. stream_process (eventfd_process EFK first_component) list_stream (\<lambda>ev w. (fst w, snd w @ [ev])) 5
      \<lparr>ss_stream = ([4, 6 :: nat], True),
       ss_source = (Generic_new 3 Interest_READ Level)\<lparr>gn_token := Some \<lparr>tok_id = 1, tok_version = 0, tok_sub_id = 0\<rparr>\<rparr>\<rparr>
      Readiness_EMPTY \<lparr>tok_id = 1, tok_version = 0, tok_sub_id = 0\<rparr> (\<lambda>_. 2, [])
    = (Ok Remove, \<lparr>ss_stream = ([], True),
       ss_source = (Generic_new 3 Interest_READ Level)\<lparr>gn_token := Some \<lparr>tok_id = 1, tok_version = 0, tok_sub_id = 0\<rparr>\<rparr>\<rparr>,
       (fst w1, snd w1 @ [Some 4, Some 6, None]))"
proof -
  let ?t = "\<lparr>tok_id = 1, tok_version = 0, tok_sub_id = 0\<rparr> :: token_inner"
  let ?src = "(Generic_new 3 Interest_READ Level)\<lparr>gn_token := Some ?t\<rparr> :: eventfd_source"
  show ?thesis
    using stream_drains_ready_items [OF EFK_contract [of 3] first_component_ok, of "\<lparr>ss_stream = ([4, 6 :: nat], True), ss_source = ?src\<rparr>"
        ?t "(\<lambda>_. 2, [])" "[4, 6]" True 5 "\<lambda>ev w. (fst w, snd w @ [ev])" Readiness_EMPTY]
    by (auto simp: Generic_new_def first_component_def)
qed

end
