(* ===== verification/Stream_Loop.thy ===== *)
theory Stream_Loop
  imports Stream_Source Ping_Loop
begin

text \<open>
  A stream in a loop, end to end. The stream is the receiver of a channel of the crate \<open>futures\<close>, as in
  the test of \<open>src/src/sources/stream.rs\<close>; its senders may be on another thread and act between any two
  calls of the loop's owner. Each event reaches the user's callback in order, the end of the stream once.
\<close>

section \<open>The channel\<close>

text \<open>
  \<open>futures::channel::mpsc\<close>, by its documentation: a queue with room for \<open>bound\<close> items and one for each
  sender, of which there is one. A receiver that finds nothing leaves its waker, which the next item
  or the drop of the last sender takes and wakes.
\<close>

record 'm fut_channel =
  fc_items :: "'m list"
  fc_bound :: "nat option"
  fc_closed :: bool
  fc_waker :: bool

definition fut_full :: "'m fut_channel \<Rightarrow> bool" where
  "fut_full c = (case fc_bound c of Some b \<Rightarrow> b + 1 \<le> length (fc_items c) | None \<Rightarrow> False)"

definition fut_poll_next :: "('w, 'm fut_channel) access \<Rightarrow> (unit, 'm, 'w) poll_next" where
  "fut_poll_next q st w =
     (let c = acc_get q w in
      case fc_items c of
        x # xs \<Rightarrow> (Some (Some x), st, acc_put q (c\<lparr>fc_items := xs\<rparr>) w)
      | [] \<Rightarrow> if fc_closed c then (Some None, st, w) else (None, st, acc_put q (c\<lparr>fc_waker := True\<rparr>) w))"

definition fut_wake :: "('w, 'm fut_channel) access \<Rightarrow> ('w \<Rightarrow> 'w) \<Rightarrow> 'w \<Rightarrow> 'w" where
  "fut_wake q wake w =
     (let c = acc_get q w in if fc_waker c then wake (acc_put q (c\<lparr>fc_waker := False\<rparr>) w) else w)"

definition fut_try_send :: "('w, 'm fut_channel) access \<Rightarrow> ('w \<Rightarrow> 'w) \<Rightarrow> 'm \<Rightarrow> 'w \<Rightarrow> ('m, unit) outcome \<times> 'w" where
  "fut_try_send q wake m w =
     (let c = acc_get q w in
      if fc_closed c \<or> fut_full c then (Err m, w)
      else (Ok (), fut_wake q wake (acc_put q (c\<lparr>fc_items := fc_items c @ [m]\<rparr>) w)))"

definition fut_close :: "('w, 'm fut_channel) access \<Rightarrow> ('w \<Rightarrow> 'w) \<Rightarrow> 'w \<Rightarrow> 'w" where
  "fut_close q wake w = fut_wake q wake (acc_put q ((acc_get q w)\<lparr>fc_closed := True\<rparr>) w)"

section \<open>The stream as a source of the loop\<close>

definition stream_callback :: "('w, 'l) access \<Rightarrow> ('m option \<Rightarrow> 'l \<Rightarrow> 'l) \<Rightarrow> 'm option \<Rightarrow> 'w \<Rightarrow> 'w" where
  "stream_callback lg f ev w = acc_put lg (f ev (acc_get lg w)) w"

definition stream_ops :: "'p poller_ops \<Rightarrow> 'p eventfd_ops \<Rightarrow> ('d, 'm fut_channel) access \<Rightarrow> ('d, 'l) access
    \<Rightarrow> ('m option \<Rightarrow> 'l \<Rightarrow> 'l) \<Rightarrow> nat \<Rightarrow> ((unit, eventfd_source) stream_source, 'p, ('s, 'i, 'p, 'd) loop_state) source_ops" where
  "stream_ops K E q lg f n =
     \<lparr>so_process = stream_process (eventfd_process E loop_system) (fut_poll_next (in_data q)) (stream_callback (in_data lg) f) n,
      so_register = stream_register (eventfd_register K), so_reregister = stream_reregister (eventfd_reregister K),
      so_unregister = stream_unregister (eventfd_unregister K), so_needs_extra = default_needs_extra,
      so_before_sleep = default_before_sleep, so_before_handle = default_before_handle\<rparr>"

text \<open>The events of a channel's contents.\<close>

definition fut_events :: "'m fut_channel \<Rightarrow> 'm option list" where
  "fut_events c = map Some (fc_items c) @ (if fc_closed c then [None] else [])"

text \<open>The loop of \<open>process_events\<close> takes them all; \<open>other\<close> is what neither the channel nor the callback changes.\<close>

lemma stream_loop_queue:
  assumes parts: "access_ok q" "access_ok lg" "access_apart q lg"
    and other: "\<And>x w. other (acc_put q x w) = other w" "\<And>x w. other (acc_put lg x w) = other w"
  shows "length (fc_items (acc_get q w)) < n \<Longrightarrow> c = acc_get q w \<Longrightarrow>
    \<exists>w'. stream_loop (fut_poll_next q) (stream_callback lg f) n ((), fin, False) w = (((), fin \<or> fc_closed c, False), w') \<and>
      acc_get lg w' = fold f (fut_events c) (acc_get lg w) \<and>
      acc_get q w' = c\<lparr>fc_items := [], fc_waker := \<not> fc_closed c \<or> fc_waker c\<rparr> \<and> other w' = other w"
proof (induction n arbitrary: w c)
  case (Suc n)
  show ?case
  proof (cases "fc_items c")
    case Nil
    then show ?thesis using Suc.prems(2) parts other
      by (auto simp: fut_poll_next_def Let_def stream_callback_def fut_events_def access_ok_simps access_apart_simps)
  next
    case (Cons x xs)
    let ?c = "c\<lparr>fc_items := xs\<rparr>"
    let ?w = "stream_callback lg f (Some x) (acc_put q ?c w)"
    have "acc_get q ?w = ?c" "acc_get lg ?w = f (Some x) (acc_get lg w)" "other ?w = other w"
      using parts other by (simp_all add: stream_callback_def access_ok_simps access_apart_simps)
    with Suc.IH [of ?w ?c] Suc.prems Cons obtain w' where
      "stream_loop (fut_poll_next q) (stream_callback lg f) n ((), fin, False) ?w = (((), fin \<or> fc_closed c, False), w')"
      "acc_get lg w' = fold f (fut_events ?c) (f (Some x) (acc_get lg w))"
      "acc_get q w' = c\<lparr>fc_items := [], fc_waker := \<not> fc_closed c \<or> fc_waker c\<rparr>" "other w' = other w"
      by auto
    moreover have "fut_poll_next q () w = (Some (Some x), (), acc_put q ?c w)"
      using Suc.prems(2) Cons by (simp add: fut_poll_next_def)
    ultimately show ?thesis using Cons by (intro exI [of _ w']) (simp add: fut_events_def)
  qed
qed simp

context eventfd_system
begin

lemma stream_pinged:
  "pinged_source K E regs fd counter (stream_ops K E q lg f n) ss_source (\<lambda>g ss. ss\<lparr>ss_source := g\<rparr>)"
  by unfold_locales (simp_all add: stream_ops_def stream_register_def stream_unregister_def default_needs_extra_def)

text \<open>One event.\<close>

lemma stream_event:
  fixes L :: "((unit, eventfd_source) stream_source, 'i, 'p, 'd) loop_state" and q :: "('d, 'm fut_channel) access" and lg :: "('d, 'l) access"
  assumes parts: "access_ok q" "access_ok lg" "access_apart q lg"
    and "gn_file (ss_source ss) = Some fd" and "gn_token (ss_source ss) = Some t"
    and "2 \<le> unat (efd_count counter L)" and "even (efd_count counter L)"
    and c: "c = acc_get q (lp_data L)" and "length (fc_items c) < n"
  shows "\<exists>L'. so_process (stream_ops K E q lg f n) ss rd t L = (Ok (if fc_closed c then Remove else Continue), ss, L') \<and>
    loop_frame regs L' = loop_frame regs L \<and>
    acc_get lg (lp_data L') = fold f (fut_events c) (acc_get lg (lp_data L)) \<and>
    acc_get q (lp_data L') = c\<lparr>fc_items := [], fc_waker := \<not> fc_closed c \<or> fc_waker c\<rparr> \<and> efd_count counter L' = 0"
proof -
  let ?sys = "loop_system :: (((unit, eventfd_source) stream_source, 'i, 'p, 'd) loop_state, 'p) access"
  let ?q = "in_data q :: (((unit, eventfd_source) stream_source, 'i, 'p, 'd) loop_state, 'm fut_channel) access"
  let ?lg = "in_data lg :: (((unit, eventfd_source) stream_source, 'i, 'p, 'd) loop_state, 'l) access"
  let ?loop = "stream_loop (fut_poll_next ?q) (stream_callback ?lg f) n"
  have "counter (acc_get ?sys L) \<noteq> 0" using assms(6) by auto
  then obtain L1 where L1: "loop_frame regs L1 = loop_frame regs L" "lp_data L1 = lp_data L" "efd_count counter L1 = 0"
    "eventfd_process E ?sys (ss_source ss) rd t ?loop ((), False, False) L = (Ok Continue, ss_source ss, ?loop ((), False, False) L1)"
    using eventfd_kernel.process_effect [OF ping_kernel assms(4,5), of L rd ?loop "((), False, False)"] assms(6,7) by auto
  have ok: "access_ok ?q" "access_ok ?lg" "access_apart ?q ?lg" using parts by (simp_all add: in_data_ok)
  have "c = acc_get ?q L1" "length (fc_items (acc_get ?q L1)) < n" using c assms(9) L1(2) by simp_all
  then obtain L' where L': "?loop ((), False, False) L1 = (((), fc_closed c, False), L')"
    "acc_get ?lg L' = fold f (fut_events c) (acc_get ?lg L1)"
    "acc_get ?q L' = c\<lparr>fc_items := [], fc_waker := \<not> fc_closed c \<or> fc_waker c\<rparr>"
    "loop_frame regs L' = loop_frame regs L1 \<and> efd_count counter L' = efd_count counter L1"
    using stream_loop_queue [OF ok, of "\<lambda>L. (loop_frame regs L, efd_count counter L)" L1 n c f False]
    by (auto simp: loop_frame_def)
  with L1 have "stream_process (eventfd_process E ?sys) (fut_poll_next ?q) (stream_callback ?lg f) n ss rd t L =
      (Ok (if fc_closed c then Remove else Continue), ss, L')"
    by (cases ss) (auto simp: stream_process_def Let_def)
  with L1 L' show ?thesis by (intro exI [of _ L']) (simp add: stream_ops_def)
qed

lemma stream_dispatch:
  fixes L :: "((unit, eventfd_source) stream_source, 'i, 'p, 'd) loop_state" and q :: "('d, 'm fut_channel) access" and lg :: "('d, 'l) access"
  assumes parts: "access_ok q" "access_ok lg" "access_apart q lg" and "0 < k"
    and serving: "serving regs fd (ss_source ss) ss d t L"
    and count: "2 \<le> unat (efd_count counter L)" "even (efd_count counter L)"
    and c: "c = acc_get q (lp_data L)" and n: "length (fc_items c) < n"
  shows "\<exists>L'. dispatch K (stream_ops K E q lg f n) run_idle k timeout L = (Ok (), L') \<and>
    (acc_get lg (lp_data L') = fold f (fut_events c) (acc_get lg (lp_data L)) \<and>
     acc_get q (lp_data L') = c\<lparr>fc_items := [], fc_waker := \<not> fc_closed c \<or> fc_waker c\<rparr> \<and> efd_count counter L' = 0) \<and>
    (if fc_closed c then sl_lookup (lp_sources L') t = None \<and> regs (poller (lp_poll L')) = Map.empty
     else serving regs fd (ss_source ss) ss d t L')"
proof (rule pinged_source.served_dispatch [OF stream_pinged serving assms(4)])
  show "efd_count counter L \<noteq> 0" using count(1) by auto
  have sv: "gn_file (ss_source ss) = Some fd" "gn_token (ss_source ss) = Some t" using serving by (simp_all add: serving_def)
  fix L1 :: "((unit, eventfd_source) stream_source, 'i, 'p, 'd) loop_state"
  assume same: "lp_data L1 = lp_data L" "efd_count counter L1 = efd_count counter L"
  show "\<exists>L2. so_process (stream_ops K E q lg f n) ss (pe_readiness (timer_event t)) t L1
        = (Ok (if fc_closed c then Remove else Continue), ss, L2) \<and> loop_frame regs L2 = loop_frame regs L1 \<and>
      acc_get lg (lp_data L2) = fold f (fut_events c) (acc_get lg (lp_data L)) \<and>
      acc_get q (lp_data L2) = c\<lparr>fc_items := [], fc_waker := \<not> fc_closed c \<or> fc_waker c\<rparr> \<and> efd_count counter L2 = 0"
    using stream_event [OF parts sv, of L1, unfolded same, OF count c n] by blast
qed

end

section \<open>Interleaved senders\<close>

text \<open>
  What the senders do, between the dispatches of the loop: try to send an item, or drop the last sender.
  Dispatches stop when the stream has left the loop.
\<close>

datatype 'm stream_step = StreamSend 'm | StreamClose | StreamDispatch duration

fun stream_do :: "'p poller_ops \<Rightarrow> 'p eventfd_ops \<Rightarrow> raw_fd \<Rightarrow> ('d, 'm fut_channel) access \<Rightarrow> ('s, 'i, 'p, 'd) loop_ops
    \<Rightarrow> ('i \<Rightarrow> ('s, 'i, 'p, 'd) loop_state \<Rightarrow> ('s, 'i, 'p, 'd) loop_state) \<Rightarrow> nat \<Rightarrow> registration_token \<Rightarrow> 'm stream_step
    \<Rightarrow> ('s, 'i, 'p, 'd) loop_state \<Rightarrow> unit cresult \<times> ('s, 'i, 'p, 'd) loop_state" where
  "stream_do K E fd q ops run_idle k t (StreamSend m) L =
     (Ok (), snd (fut_try_send (in_data q) (stream_wake (eventfd_ping E loop_system) fd) m L))"
| "stream_do K E fd q ops run_idle k t StreamClose L = (Ok (), fut_close (in_data q) (stream_wake (eventfd_ping E loop_system) fd) L)"
| "stream_do K E fd q ops run_idle k t (StreamDispatch timeout) L =
     (if sl_lookup (lp_sources L) t = None then (Ok (), L) else dispatch K ops run_idle k (Some timeout) L)"

fun stream_session :: "'p poller_ops \<Rightarrow> 'p eventfd_ops \<Rightarrow> raw_fd \<Rightarrow> ('d, 'm fut_channel) access \<Rightarrow> ('s, 'i, 'p, 'd) loop_ops
    \<Rightarrow> ('i \<Rightarrow> ('s, 'i, 'p, 'd) loop_state \<Rightarrow> ('s, 'i, 'p, 'd) loop_state) \<Rightarrow> nat \<Rightarrow> registration_token \<Rightarrow> 'm stream_step list
    \<Rightarrow> ('s, 'i, 'p, 'd) loop_state \<Rightarrow> unit cresult \<times> ('s, 'i, 'p, 'd) loop_state" where
  "stream_session K E fd q ops run_idle k t [] L = (Ok (), L)"
| "stream_session K E fd q ops run_idle k t (st # sts) L =
     and_then (stream_do K E fd q ops run_idle k t st L) (\<lambda>_ L'. stream_session K E fd q ops run_idle k t sts L')"

text \<open>
  The same without a loop: the items that wait, whether the channel is closed, what has been delivered,
  and whether the end was.
\<close>

fun deliver :: "nat option \<Rightarrow> 'm stream_step \<Rightarrow> 'm list \<times> bool \<times> 'm option list \<times> bool \<Rightarrow> 'm list \<times> bool \<times> 'm option list \<times> bool" where
  "deliver b (StreamSend m) (xs, closed, out, over) =
     (if closed \<or> (case b of Some n \<Rightarrow> n < length xs | None \<Rightarrow> False) then xs else xs @ [m], closed, out, over)"
| "deliver b StreamClose (xs, closed, out, over) = (xs, True, out, over)"
| "deliver b (StreamDispatch timeout) (xs, closed, out, over) =
     (if over then (xs, closed, out, over) else ([], closed, out @ map Some xs @ (if closed then [None] else []), closed))"

context level_system
begin

text \<open>A wake-up, and the drop of the waker that goes with it.\<close>

lemma wake_effect:
  fixes q :: "('d, 'm fut_channel) access" and L :: "('s, 'i, 'p, 'd) loop_state"
  assumes "access_ok q" and "c = acc_get q (lp_data L)" and "L' = fut_wake (in_data q) (stream_wake (eventfd_ping E loop_system) fd) L"
  shows "loop_frame regs L' = loop_frame regs L" "acc_get q (lp_data L') = c\<lparr>fc_waker := False\<rparr>"
    "access_apart q lg \<Longrightarrow> acc_get lg (lp_data L') = acc_get lg (lp_data L)"
    "even (efd_count counter L) \<Longrightarrow> even (efd_count counter L') \<and>
       (fc_waker c \<or> 2 \<le> unat (efd_count counter L) \<longrightarrow> 2 \<le> unat (efd_count counter L'))"
proof -
  let ?M = "L\<lparr>lp_data := acc_put q (c\<lparr>fc_waker := False\<rparr>) (lp_data L)\<rparr>"
  have L': "L' = (if fc_waker c then eventfd_ping E loop_system fd ?M else L)"
    using assms(2,3) by (simp add: fut_wake_def stream_wake_def Let_def)
  have "loop_frame regs ?M = loop_frame regs L" by (simp add: loop_frame_def)
  then show "loop_frame regs L' = loop_frame regs L" using ping_in_loop(1) [of ?M] by (simp add: L')
  have "c\<lparr>fc_waker := False\<rparr> = c" if "\<not> fc_waker c" using that by simp
  then show "acc_get q (lp_data L') = c\<lparr>fc_waker := False\<rparr>"
    using assms(1,2) by (simp add: L' ping_in_loop(2) access_ok_simps)
  show "access_apart q lg \<Longrightarrow> acc_get lg (lp_data L') = acc_get lg (lp_data L)"
    by (simp add: L' ping_in_loop(2) access_apart_simps)
  show "even (efd_count counter L) \<Longrightarrow> even (efd_count counter L') \<and>
      (fc_waker c \<or> 2 \<le> unat (efd_count counter L) \<longrightarrow> 2 \<le> unat (efd_count counter L'))"
    using ping_in_loop(3) [of ?M] by (simp add: L')
qed

text \<open>
  The state of the channel, and with it in the loop: until its end is delivered the stream is served, and a
  ping is pending unless nothing waits and the receiver has left its waker.
\<close>

definition streaming :: "('d, 'm fut_channel) access \<Rightarrow> ('d, 'l) access \<Rightarrow> ('m option \<Rightarrow> 'l \<Rightarrow> 'l) \<Rightarrow> 'l \<Rightarrow> nat option
    \<Rightarrow> (unit, eventfd_source) stream_source \<Rightarrow> nat \<Rightarrow> token \<Rightarrow> 'm list \<times> bool \<times> 'm option list \<times> bool
    \<Rightarrow> ((unit, eventfd_source) stream_source, 'i, 'p, 'd) loop_state \<Rightarrow> bool" where
  "streaming q lg f l0 b ss d t = (\<lambda>(xs, closed, out, over) L.
     let c = acc_get q (lp_data L); k = efd_count counter L in
     fc_items c = xs \<and> fc_bound c = b \<and> fc_closed c = closed \<and> acc_get lg (lp_data L) = fold f out l0 \<and>
     (if over then closed \<and> sl_lookup (lp_sources L) t = None
      else serving regs fd (ss_source ss) ss d t L \<and> even k \<and>
        (2 \<le> unat k \<or> k = 0 \<and> xs = [] \<and> \<not> closed \<and> fc_waker c)))"

lemma streaming_woken:
  assumes parts: "access_ok q" "access_apart q lg" and st: "streaming q lg f l0 b ss d t (xs, closed, out, over) L"
    and M: "M = fut_wake (in_data q) (stream_wake (eventfd_ping E loop_system) fd) (L\<lparr>lp_data := acc_put q c (lp_data L)\<rparr>)"
    and c: "c = (acc_get q (lp_data L))\<lparr>fc_items := ys, fc_closed := closed'\<rparr>" and "over \<longrightarrow> closed'"
  shows "streaming q lg f l0 b ss d t (ys, closed', out, over) M"
proof -
  let ?L = "L\<lparr>lp_data := acc_put q c (lp_data L)\<rparr>"
  have data: "acc_get q (lp_data ?L) = c" "acc_get lg (lp_data ?L) = acc_get lg (lp_data L)"
    using parts by (simp_all add: access_ok_simps access_apart_simps)
  note w = wake_effect [OF parts(1) data(1) [symmetric] M]
  have "loop_frame regs ?L = loop_frame regs L" by (simp add: loop_frame_def)
  then have frame: "loop_frame regs M = loop_frame regs L" using w(1) by simp
  then have src: "lp_sources M = lp_sources L" by (simp add: loop_frame_def)
  have "acc_get q (lp_data M) = c\<lparr>fc_waker := False\<rparr>" "acc_get lg (lp_data M) = acc_get lg (lp_data L)"
    using w(2) w(3) [OF parts(2)] data(2) by simp_all
  with st serving_frame [OF frame, of fd "ss_source ss" ss d t] w(4) src assms(6) show ?thesis
    by (auto simp: streaming_def Let_def c)
qed

lemma streaming_step:
  assumes parts: "access_ok q" "access_ok lg" "access_apart q lg" and "0 < k"
    and st: "streaming q lg f l0 b ss d t \<sigma> L" and n: "length (fst \<sigma>) < n"
  shows "\<exists>L'. stream_do K E fd q (stream_ops K E q lg f n) run_idle k t a L = (Ok (), L') \<and>
    streaming q lg f l0 b ss d t (deliver b a \<sigma>) L'"
proof -
  obtain xs closed out over where \<sigma>: "\<sigma> = (xs, closed, out, over)" by (cases \<sigma>) auto
  let ?c = "acc_get q (lp_data L)"
  have c: "fc_items ?c = xs" "fc_bound ?c = b" "fc_closed ?c = closed" "over \<longrightarrow> closed"
    using st by (auto simp: streaming_def Let_def \<sigma> split: if_splits)
  show ?thesis
  proof (cases a)
    case (StreamSend m)
    have full: "fut_full ?c = (case b of Some n \<Rightarrow> n < length xs | None \<Rightarrow> False)"
      using c by (auto simp: fut_full_def split: option.split)
    show ?thesis
    proof (cases "closed \<or> fut_full ?c")
      case True
      with st c full show ?thesis by (simp add: StreamSend fut_try_send_def Let_def \<sigma>)
    next
      case False
      have "?c\<lparr>fc_items := xs @ [m]\<rparr> = ?c\<lparr>fc_items := xs @ [m], fc_closed := closed\<rparr>" using c(3) by simp
      from streaming_woken [OF parts(1,3) st [unfolded \<sigma>] refl this c(4)] False full c show ?thesis
        by (auto simp: StreamSend fut_try_send_def Let_def \<sigma>)
    qed
  next
    case StreamClose
    have "?c\<lparr>fc_closed := True\<rparr> = ?c\<lparr>fc_items := xs, fc_closed := True\<rparr>" using c(1) by simp
    from streaming_woken [OF parts(1,3) st [unfolded \<sigma>] refl this] show ?thesis
      by (simp add: StreamClose fut_close_def \<sigma>)
  next
    case (StreamDispatch timeout)
    show ?thesis
    proof (cases over)
      case True
      with st show ?thesis by (simp add: StreamDispatch streaming_def Let_def \<sigma>)
    next
      case False
      then have sv: "serving regs fd (ss_source ss) ss d t L" "even (efd_count counter L)" "acc_get lg (lp_data L) = fold f out l0"
        "2 \<le> unat (efd_count counter L) \<or> efd_count counter L = 0 \<and> xs = [] \<and> \<not> closed \<and> fc_waker ?c"
        using st by (simp_all add: streaming_def Let_def \<sigma>)
      have here: "sl_lookup (lp_sources L) t \<noteq> None" using sv(1) by (simp add: serving_def)
      show ?thesis
      proof (cases "2 \<le> unat (efd_count counter L)")
        case True
        have "length (fc_items ?c) < n" using n c(1) by (simp add: \<sigma>)
        from stream_dispatch [OF parts assms(4) sv(1) True sv(2) refl this, of f run_idle "Some timeout"] here False c sv(3)
        show ?thesis by (auto simp: StreamDispatch streaming_def Let_def \<sigma> fut_events_def split: if_splits)
      next
        case False
        then have none: "efd_count counter L = 0" "xs = []" "\<not> closed" "fc_waker ?c" using sv(4) by simp_all
        from idle_dispatch [OF sv(1) none(1) assms(4), of "stream_ops K E q lg f n" run_idle timeout] obtain L' where
          "dispatch K (stream_ops K E q lg f n) run_idle k (Some timeout) L = (Ok (), L')" "loop_frame regs L' = loop_frame regs L"
          "efd_count counter L' = 0" "lp_data L' = lp_data L" by blast
        with here none c sv(1,3) \<open>\<not> over\<close> serving_frame [of regs L' L fd "ss_source ss" ss d t] show ?thesis
          by (simp add: StreamDispatch streaming_def Let_def \<sigma>)
      qed
    qed
  qed
qed

lemma streaming_session:
  assumes parts: "access_ok q" "access_ok lg" "access_apart q lg" and "0 < k"
  shows "streaming q lg f l0 b ss d t \<sigma> L \<Longrightarrow> length (fst \<sigma>) + length sts \<le> n \<Longrightarrow>
    \<exists>L'. stream_session K E fd q (stream_ops K E q lg f n) run_idle k t sts L = (Ok (), L') \<and>
      streaming q lg f l0 b ss d t (fold (deliver b) sts \<sigma>) L'"
proof (induction sts arbitrary: \<sigma> L)
  case (Cons a sts)
  have n: "length (fst \<sigma>) < n" using Cons.prems(2) by simp
  obtain L1 where L1: "stream_do K E fd q (stream_ops K E q lg f n) run_idle k t a L = (Ok (), L1)"
    "streaming q lg f l0 b ss d t (deliver b a \<sigma>) L1"
    using streaming_step [OF parts assms(4) Cons.prems(1) n] by blast
  have "length (fst (deliver b a \<sigma>)) \<le> Suc (length (fst \<sigma>))" by (cases \<sigma>; cases a) auto
  with Cons.IH [OF L1(2)] Cons.prems(2) L1(1) show ?case by auto
qed simp

end

section \<open>From the senders to the callback\<close>

text \<open>
  C6: a stream in a loop delivers what its channel is sent. In a new loop whose poller and eventfd work as
  documented a stream source is inserted; then senders send and are dropped and the owner dispatches, in any
  order. No call fails. The callback gets just the events a plain queue gives: each dispatch delivers all items
  that were sent since the last one, in order and once, and after the drop of the last sender the end
  of the stream, once, with which the source leaves the loop.
\<close>

theorem stream_end_to_end:
  assumes "level_system K E regs fd counter" and "access_ok q" and "access_ok lg" and "access_apart q lg"
    and "try_new K (Inr p) dat = Ok L0" and "regs p = Map.empty" and "even (counter p)" and "2 \<le> unat (counter p)"
    and "ss_source ss = Generic_new fd Interest_READ Level"
    and "acc_get q dat = \<lparr>fc_items = [], fc_bound = b, fc_closed = False, fc_waker = False\<rparr>"
    and "length sts \<le> n" and "0 < k" and "ops = stream_ops K E q lg f n"
  shows "\<exists>t L1 L2 xs closed out over. insert_source ops ss L0 = (Ok t, L1) \<and>
    stream_session K E fd q ops run_idle k t sts L1 = (Ok (), L2) \<and>
    fold (deliver b) sts ([], False, [], False) = (xs, closed, out, over) \<and>
    acc_get lg (lp_data L2) = fold f out (acc_get lg dat) \<and> fc_items (acc_get q (lp_data L2)) = xs \<and>
    (sl_lookup (lp_sources L2) t = None \<longleftrightarrow> over)"
proof -
  have sys: "eventfd_system K E regs fd counter" using assms(1) by (simp add: level_system_def)
  obtain L1 t g where L1: "insert_source ops ss L0 = (Ok t, L1)" "serving regs fd g (ss\<lparr>ss_source := g\<rparr>) 0 t L1"
      "lp_data L1 = dat" "efd_count counter L1 = counter p"
    using pinged_source.insert_serves [OF eventfd_system.stream_pinged [OF sys] assms(5,6,9), of q lg f n]
    unfolding assms(13) by blast
  let ?ss = "ss\<lparr>ss_source := g\<rparr>"
  have "level_system.streaming regs fd counter q lg f (acc_get lg dat) b ?ss 0 t ([], False, [], False) L1"
    using L1(2-4) assms(7,8,10) by (simp add: level_system.streaming_def [OF assms(1)] Let_def)
  from level_system.streaming_session [OF assms(1-4,12) this, of sts n run_idle] assms(11) obtain L2 where
    L2: "stream_session K E fd q ops run_idle k t sts L1 = (Ok (), L2)"
      "level_system.streaming regs fd counter q lg f (acc_get lg dat) b ?ss 0 t (fold (deliver b) sts ([], False, [], False)) L2"
    unfolding assms(13) by auto
  obtain xs closed out over where \<sigma>: "fold (deliver b) sts ([], False, [], False) = (xs, closed, out, over)" by (metis prod_cases4)
  show ?thesis
    using L1(1) L2 \<sigma>
    by (intro exI [of _ t] exI [of _ L1] exI [of _ L2] exI [of _ xs] exI [of _ closed] exI [of _ out] exI [of _ over])
      (auto simp: level_system.streaming_def [OF assms(1)] Let_def serving_def split: if_splits)
qed

theorem stream_end_to_end_witness:
  "\<exists>t L0 L1 L2 xs closed out over.
     try_new LXP (Inr \<lparr>lx_regs = [], lx_counters = (\<lambda>_. 0)(3 := 2), lx_now = 0, lx_next = 4\<rparr>)
       (\<lparr>fc_items = [], fc_bound = Some 1, fc_closed = False, fc_waker = False\<rparr>, []) =
       Ok (L0 :: ((unit, eventfd_source) stream_source, nat, linux, nat fut_channel \<times> nat option list) loop_state) \<and>
     insert_source (stream_ops LXP LXE pair_first pair_second (\<lambda>ev evs. evs @ [ev]) 6)
       \<lparr>ss_stream = (), ss_source = Generic_new 3 Interest_READ Level\<rparr> L0 = (Ok t, L1) \<and>
     stream_session LXP LXE 3 pair_first (stream_ops LXP LXE pair_first pair_second (\<lambda>ev evs. evs @ [ev]) 6) (\<lambda>_ L. L) 1 t
       [StreamSend 4, StreamDispatch 0, StreamDispatch 7, StreamSend 5, StreamClose, StreamDispatch 0] L1 = (Ok (), L2) \<and>
     fold (deliver (Some 1)) [StreamSend 4, StreamDispatch 0, StreamDispatch 7, StreamSend 5, StreamClose, StreamDispatch 0]
       ([], False, [], False) = (xs, closed, out, over) \<and>
     acc_get pair_second (lp_data L2) = fold (\<lambda>ev evs. evs @ [ev]) out [] \<and> out = [Some 4, Some 5, None] \<and> over"
proof -
  let ?p = "\<lparr>lx_regs = [], lx_counters = (\<lambda>_. 0)(3 := 2), lx_now = 0, lx_next = 4\<rparr> :: linux"
  let ?c = "\<lparr>fc_items = [], fc_bound = Some 1, fc_closed = False, fc_waker = False\<rparr> :: nat fut_channel"
  obtain L0 :: "((unit, eventfd_source) stream_source, nat, linux, nat fut_channel \<times> nat option list) loop_state" where
    L0: "try_new LXP (Inr ?p) (?c, []) = Ok L0"
    by (simp add: try_new_def Poll_new_def Poll_new_inner_def LXP_def)
  have start: "acc_get pair_first (?c, [] :: nat option list) = ?c" "lx_table ?p = Map.empty" "even (lx_counters ?p 3)" "2 \<le> unat (lx_counters ?p 3)"
    by (simp_all add: pair_first_def lx_table_def)
  define sts where "sts = [StreamSend (4 :: nat), StreamDispatch 0, StreamDispatch 7, StreamSend 5, StreamClose, StreamDispatch (0 :: duration)]"
  define ops :: "((unit, eventfd_source) stream_source, linux, ((unit, eventfd_source) stream_source, nat, linux, nat fut_channel \<times> nat option list) loop_state) source_ops"
    where "ops = stream_ops LXP LXE pair_first pair_second (\<lambda>ev evs. evs @ [ev]) 6"
  have "ss_source \<lparr>ss_stream = (), ss_source = Generic_new 3 Interest_READ Level :: eventfd_source\<rparr> = Generic_new 3 Interest_READ Level" "length sts \<le> 6"
    by (simp_all add: sts_def)
  from stream_end_to_end [where K = LXP and E = LXE and regs = lx_table and fd = 3 and counter = "\<lambda>p. lx_counters p 3" and p = ?p,
      OF linux_level.level_system_axioms pair_ok L0 start(2-4) this(1) start(1) this(2) zero_less_one ops_def, of "\<lambda>_ L. L"]
  obtain t L1 L2 xs closed out over where run: "insert_source ops \<lparr>ss_stream = (), ss_source = Generic_new 3 Interest_READ Level\<rparr> L0 = (Ok t, L1)"
    "stream_session LXP LXE 3 pair_first ops (\<lambda>_ L. L) 1 t sts L1 = (Ok (), L2)"
    "fold (deliver (Some 1)) sts ([], False, [], False) = (xs, closed, out, over)"
    "acc_get pair_second (lp_data L2) = fold (\<lambda>ev evs. evs @ [ev]) out (acc_get pair_second (?c, []))"
    by blast
  have "out = [Some 4, Some 5, None] \<and> over" using run(3) by (auto simp: sts_def)
  moreover have "acc_get pair_second (lp_data L2) = fold (\<lambda>ev evs. evs @ [ev]) out []" using run(4) by (simp add: pair_second_def)
  ultimately show ?thesis using L0 run(1-3) unfolding sts_def ops_def by blast
qed

end
