(* ===== verification/Dropped_Sources.thy ===== *)
theory Dropped_Sources
  imports Loop_Laws
begin

text \<open>
  What becomes of a dispatcher whose last reference is gone. In the code it is dropped there and then; in the
  model its cell stays in the list. The two agree: what a cell holds that nothing refers to has no
  influence on any later call or dispatch, and none of them changes it.
\<close>

section \<open>Operations that do not see a cell\<close>

text \<open>No slot refers to the dispatcher \<open>d\<close>.\<close>

definition unreferenced :: "nat \<Rightarrow> ('s, 'i, 'p, 'd) loop_state \<Rightarrow> bool" where
  "unreferenced d L \<longleftrightarrow> d < length (lp_cells L) \<and> (\<forall>i < length (lp_sources L). se_source (lp_sources L ! i) \<noteq> Some d)"

text \<open>
  \<open>f\<close> does the same whatever the cell of \<open>d\<close> holds, leaves it alone, and makes no slot refer to it.
\<close>

definition blind :: "nat \<Rightarrow> 's cell \<Rightarrow> (('s, 'i, 'p, 'd) loop_state \<Rightarrow> 'a \<times> ('s, 'i, 'p, 'd) loop_state) \<Rightarrow> bool" where
  "blind d x f \<longleftrightarrow>
     (\<forall>L. unreferenced d L \<longrightarrow> f (set_cell d x L) = apsnd (set_cell d x) (f L) \<and> unreferenced d (snd (f L)))"

definition blind_result :: "nat \<Rightarrow> 's cell \<Rightarrow> (('s, 'i, 'p, 'd) loop_state \<Rightarrow> 'r \<times> 'a \<times> ('s, 'i, 'p, 'd) loop_state) \<Rightarrow> bool" where
  "blind_result d x g \<longleftrightarrow> blind d x (\<lambda>L. case g L of (r, a, L') \<Rightarrow> ((r, a), L'))"

named_theorems blind_intros \<open>operations that do not see a cell\<close>

lemma blindI:
  "(\<And>L. unreferenced d L \<Longrightarrow> f (set_cell d x L) = apsnd (set_cell d x) (f L)) \<Longrightarrow>
   (\<And>L. unreferenced d L \<Longrightarrow> unreferenced d (snd (f L))) \<Longrightarrow> blind d x f"
  by (simp add: blind_def)

lemma blindD:
  assumes "blind d x f" and "unreferenced d L"
  shows "f (set_cell d x L) = apsnd (set_cell d x) (f L)" "unreferenced d (snd (f L))"
  using assms by (simp_all add: blind_def)

lemma blind_at:
  "blind d x f \<Longrightarrow> unreferenced d L \<Longrightarrow> f L = (r, L') \<Longrightarrow> f (set_cell d x L) = (r, set_cell d x L') \<and> unreferenced d L'"
  using blindD [of d x f L] by simp

lemma blind_resultI:
  "(\<And>L r a L'. unreferenced d L \<Longrightarrow> g L = (r, a, L') \<Longrightarrow> g (set_cell d x L) = (r, a, set_cell d x L') \<and> unreferenced d L') \<Longrightarrow>
   blind_result d x g"
  unfolding blind_result_def by (intro blindI; case_tac "g L") auto

lemma blind_result_at:
  "blind_result d x g \<Longrightarrow> unreferenced d L \<Longrightarrow> g L = (r, a, L') \<Longrightarrow> g (set_cell d x L) = (r, a, set_cell d x L') \<and> unreferenced d L'"
  unfolding blind_result_def by (drule (1) blind_at [where r = "(r, a)" and L' = L'], simp) (auto split: prod.splits)

lemma set_cell_updates:
  "(set_cell d x L)\<lparr>lp_poll := P\<rparr> = set_cell d x (L\<lparr>lp_poll := P\<rparr>)"
  "(set_cell d x L)\<lparr>lp_sources := sl\<rparr> = set_cell d x (L\<lparr>lp_sources := sl\<rparr>)"
  "(set_cell d x L)\<lparr>lp_lifecycle := lc\<rparr> = set_cell d x (L\<lparr>lp_lifecycle := lc\<rparr>)"
  "(set_cell d x L)\<lparr>lp_idles := is\<rparr> = set_cell d x (L\<lparr>lp_idles := is\<rparr>)"
  "(set_cell d x L)\<lparr>lp_idle_cells := cs\<rparr> = set_cell d x (L\<lparr>lp_idle_cells := cs\<rparr>)"
  "(set_cell d x L)\<lparr>lp_pending := pa\<rparr> = set_cell d x (L\<lparr>lp_pending := pa\<rparr>)"
  "(set_cell d x L)\<lparr>lp_stop := b\<rparr> = set_cell d x (L\<lparr>lp_stop := b\<rparr>)"
  "(set_cell d x L)\<lparr>lp_future_ready := b\<rparr> = set_cell d x (L\<lparr>lp_future_ready := b\<rparr>)"
  "(set_cell d x L)\<lparr>lp_synthetic := es\<rparr> = set_cell d x (L\<lparr>lp_synthetic := es\<rparr>)"
  "(set_cell d x L)\<lparr>lp_woken := ws\<rparr> = set_cell d x (L\<lparr>lp_woken := ws\<rparr>)"
  "(set_cell d x L)\<lparr>lp_data := dt\<rparr> = set_cell d x (L\<lparr>lp_data := dt\<rparr>)"
  by (simp_all add: set_cell_def)

lemma set_cell_reads [simp]:
  "lp_poll (set_cell d x L) = lp_poll L" "lp_idles (set_cell d x L) = lp_idles L"
  "lp_idle_cells (set_cell d x L) = lp_idle_cells L" "lp_stop (set_cell d x L) = lp_stop L"
  "lp_future_ready (set_cell d x L) = lp_future_ready L" "lp_woken (set_cell d x L) = lp_woken L"
  "lp_data (set_cell d x L) = lp_data L" "e \<noteq> d \<Longrightarrow> lp_cells (set_cell d x L) ! e = lp_cells L ! e"
  by (simp_all add: set_cell_def)

lemma set_cell_swap: "e \<noteq> d \<Longrightarrow> set_cell e y (set_cell d x L) = set_cell d x (set_cell e y L)"
  by (simp add: set_cell_def list_update_swap)

lemma unreferenced_updates [simp]:
  "unreferenced d (L\<lparr>lp_poll := P\<rparr>) = unreferenced d L" "unreferenced d (L\<lparr>lp_lifecycle := lc\<rparr>) = unreferenced d L"
  "unreferenced d (L\<lparr>lp_idles := is\<rparr>) = unreferenced d L" "unreferenced d (L\<lparr>lp_idle_cells := cs\<rparr>) = unreferenced d L"
  "unreferenced d (L\<lparr>lp_pending := pa\<rparr>) = unreferenced d L" "unreferenced d (L\<lparr>lp_stop := b\<rparr>) = unreferenced d L"
  "unreferenced d (L\<lparr>lp_future_ready := b\<rparr>) = unreferenced d L" "unreferenced d (L\<lparr>lp_synthetic := es\<rparr>) = unreferenced d L"
  "unreferenced d (L\<lparr>lp_woken := ws\<rparr>) = unreferenced d L" "unreferenced d (L\<lparr>lp_data := dt\<rparr>) = unreferenced d L"
  "unreferenced d (set_cell e y L) = unreferenced d L"
  by (simp_all add: unreferenced_def set_cell_def)

lemma unreferenced_lookup:
  assumes "unreferenced d L"
  shows "sl_lookup (lp_sources L) t = Some e \<Longrightarrow> e \<noteq> d" "sl_get (lp_sources L) t = Ok entry \<Longrightarrow> se_source entry = Some e \<Longrightarrow> e \<noteq> d"
    "i < length (lp_sources L) \<Longrightarrow> se_source (lp_sources L ! i) = Some e \<Longrightarrow> e \<noteq> d"
  using assms by (auto simp: unreferenced_def sl_lookup_iff sl_get_iff)

lemma unreferenced_set_source:
  "unreferenced d L \<Longrightarrow> src \<noteq> Some d \<Longrightarrow> unreferenced d (L\<lparr>lp_sources := set_source i src (lp_sources L)\<rparr>)"
  by (cases "i < length (lp_sources L)")
    (auto simp: unreferenced_def set_source_def list_update_beyond nth_list_update)

lemma unreferenced_release:
  "unreferenced d L \<Longrightarrow> unreferenced d (L\<lparr>lp_sources := sl_release t (lp_sources L)\<rparr>)"
  unfolding sl_release_eq by (simp add: unreferenced_set_source)

lemma blind_and_then [blind_intros]:
  fixes f :: "('s, 'i, 'p, 'd) loop_state \<Rightarrow> ('e, 'a) outcome \<times> ('s, 'i, 'p, 'd) loop_state"
  assumes "blind d x f" and "\<And>a. blind d x (g a)"
  shows "blind d x (\<lambda>L. and_then (f L) g)"
proof (rule blindI)
  fix L :: "('s, 'i, 'p, 'd) loop_state" assume u: "unreferenced d L"
  obtain r L' where f: "f L = (r, L')" by force
  note 1 = blind_at [OF assms(1) u f]
  then show "and_then (f (set_cell d x L)) g = apsnd (set_cell d x) (and_then (f L) g)"
    using f blindD(1) [OF assms(2)] by (cases r) auto
  show "unreferenced d (snd (and_then (f L) g))"
    using f 1 blindD(2) [OF assms(2)] by (cases r) auto
qed

lemma blind_return [blind_intros]: "blind d x (\<lambda>L. (a, L))"
  by (simp add: blind_def)

lemma blind_store:
  assumes "e \<noteq> d" and "unreferenced d L"
  shows "store_disp e res (set_cell d x L) = apsnd (set_cell d x) (store_disp e res L)" "unreferenced d (snd (store_disp e res L))"
  using assms by (auto simp: store_disp_def set_cell_def unreferenced_def list_update_swap split: prod.splits)

lemma blind_registration [blind_intros]:
  assumes "e \<noteq> d"
  shows "blind d x (loop_register ops e tf)" "blind d x (loop_reregister ops e tf)" "blind d x (loop_unregister K ops e reg)"
  using assms by (auto intro!: blindI simp: loop_register_def loop_reregister_def loop_unregister_def blind_store)

lemma blind_log [blind_intros]: "blind d x f \<Longrightarrow> blind d x (\<lambda>L. log_error (f L))"
  by (auto simp: blind_def log_error_def split: prod.splits outcome.splits)

lemma blind_map [blind_intros]: "blind d x f \<Longrightarrow> blind d x (\<lambda>L. map_prod g id (f L))"
  by (auto simp: blind_def apsnd_def map_prod_def split: prod.splits)

section \<open>Calls\<close>

text \<open>A call that names a source by its token.\<close>

lemma blind_named:
  fixes g :: "nat source_entry \<Rightarrow> nat \<Rightarrow> ('s, 'i, 'p, 'd) loop_state \<Rightarrow> 'a cresult \<times> ('s, 'i, 'p, 'd) loop_state"
  assumes "\<And>entry e. e \<noteq> d \<Longrightarrow> blind d x (g entry e)"
  shows "blind d x (\<lambda>L. case sl_get (lp_sources L) token of
      Err e \<Rightarrow> (Err e, L) | Panic \<Rightarrow> (Panic, L) | Diverge \<Rightarrow> (Diverge, L)
    | Ok entry \<Rightarrow> (case se_source entry of None \<Rightarrow> (Err InvalidToken, L) | Some source \<Rightarrow> g entry source L))"
proof (rule blindI, goal_cases)
  case (1 L)
  then show ?case using blindD(1) [OF assms, OF unreferenced_lookup(2) [OF 1] 1]
    by (auto split: outcome.split option.split)
next
  case (2 L)
  then show ?case using blindD(2) [OF assms, OF unreferenced_lookup(2) [OF 2] 2]
    by (auto split: outcome.split option.split)
qed

lemma blind_lookup:
  assumes "\<And>e. e \<noteq> d \<Longrightarrow> blind d x (g e)"
  shows "blind d x (\<lambda>L. case sl_lookup (lp_sources L) t of None \<Rightarrow> (r, L) | Some e \<Rightarrow> g e L)"
proof (rule blindI, goal_cases)
  case (1 L)
  then show ?case using blindD(1) [OF assms, OF unreferenced_lookup(1) [OF 1] 1] by (auto split: option.split)
next
  case (2 L)
  then show ?case using blindD(2) [OF assms, OF unreferenced_lookup(1) [OF 2] 2] by (auto split: option.split)
qed

lemma blind_pending [blind_intros]: "blind d x (\<lambda>L. (r, if b then L\<lparr>lp_pending := a\<rparr> else L))"
  by (intro blindI) (auto simp: set_cell_updates)

lemma blind_if [blind_intros]: "(b \<Longrightarrow> blind d x f) \<Longrightarrow> (\<not> b \<Longrightarrow> blind d x g) \<Longrightarrow> blind d x (\<lambda>L. if b then f L else g L)"
  by (cases b) simp_all

lemma blind_enable [blind_intros]: "blind d x (handle_enable ops t)"
  unfolding handle_enable_def [abs_def] by (intro blind_named blind_intros)

lemma blind_update [blind_intros]: "blind d x (handle_update ops t)"
  unfolding handle_update_def [abs_def] by (intro blind_named blind_intros)

lemma blind_disable [blind_intros]: "blind d x (handle_disable K ops t)"
  unfolding handle_disable_def [abs_def] by (intro blind_named blind_intros)

lemma blind_remove [blind_intros]:
  fixes ops :: "('s, 'i, 'p, 'd) loop_ops"
  shows "blind d x (handle_remove K ops t)"
proof -
  have "handle_remove K ops t (set_cell d x L) = apsnd (set_cell d x) (handle_remove K ops t L) \<and> unreferenced d (snd (handle_remove K ops t L))"
    if u: "unreferenced d L" for L :: "('s, 'i, 'p, 'd) loop_state"
  proof (cases "\<exists>i e. sl_get_mut (lp_sources L) t = Ok i \<and> se_source (lp_sources L ! i) = Some e")
    case True
    then obtain i e where e: "sl_get_mut (lp_sources L) t = Ok i" "se_source (lp_sources L ! i) = Some e" by blast
    then have "i < length (lp_sources L)" by (simp add: sl_get_mut_iff)
    then have "e \<noteq> d" using unreferenced_lookup(3) [OF u _ e(2)] by blast
    from blindD [OF blind_log [OF blind_registration(3) [OF this]] unreferenced_set_source [OF u, of None i]] e
    show ?thesis by (simp add: handle_remove_def set_cell_updates)
  qed (auto simp: handle_remove_def u split: outcome.split option.split)
  then show ?thesis by (simp add: blind_def)
qed

section \<open>New dispatchers\<close>

lemma vacant_entry_refs:
  "vacant_entry sl = (r, sl') \<Longrightarrow> j < length sl' \<Longrightarrow> se_source (sl' ! j) = Some e \<Longrightarrow>
    j < length sl \<and> se_source (sl ! j) = Some e"
  using position_SomeD [of "\<lambda>slot. se_source slot = None" sl]
  by (auto simp: vacant_entry_def nth_append nth_list_update less_Suc_eq split: option.splits outcome.splits if_splits)

lemma unreferenced_vacant:
  "unreferenced d L \<Longrightarrow> vacant_entry (lp_sources L) = (r, sl) \<Longrightarrow> unreferenced d (L\<lparr>lp_sources := sl\<rparr>)"
  by (auto simp: unreferenced_def dest: vacant_entry_refs)

lemma blind_register_dispatcher [blind_intros]:
  fixes ops :: "('s, 'i, 'p, 'd) loop_ops"
  assumes "e \<noteq> d" shows "blind d x (register_dispatcher ops e)"
proof -
  have "register_dispatcher ops e (set_cell d x L) = apsnd (set_cell d x) (register_dispatcher ops e L) \<and>
      unreferenced d (snd (register_dispatcher ops e L))"
    if u: "unreferenced d L" for L :: "('s, 'i, 'p, 'd) loop_state"
  proof -
    obtain r sl where v: "vacant_entry (lp_sources L) = (r, sl)" by force
    note u1 = unreferenced_vacant [OF u v]
    show ?thesis
    proof (cases "\<exists>i. r = Ok i")
      case False
      with v u1 show ?thesis by (cases r) (auto simp: register_dispatcher_def set_cell_updates)
    next
      case True
      then obtain i where r: "r = Ok i" by blast
      let ?L1 = "L\<lparr>lp_sources := set_source i (Some e) sl\<rparr>" and ?tf = "TokenFactory_new (se_token (set_source i (Some e) sl ! i))"
      have "unreferenced d ?L1" using unreferenced_set_source [OF u1, of "Some e" i] assms by simp
      note b = blindD [OF blind_registration(1) [OF assms, where x = x and ops = ops and tf = ?tf] this]
      obtain q L2 where q: "loop_register ops e ?tf ?L1 = (q, L2)" by force
      with b have "loop_register ops e ?tf (set_cell d x ?L1) = (q, set_cell d x L2)" "unreferenced d L2" by simp_all
      with v r q unreferenced_set_source [of d L2 None i] show ?thesis
        by (cases q) (simp_all add: register_dispatcher_def set_cell_updates)
    qed
  qed
  then show ?thesis by (simp add: blind_def)
qed

lemma blind_new_cell:
  "unreferenced d L \<Longrightarrow> lp_cells (set_cell d x L) @ [c] = (lp_cells L @ [c])[d := x]"
  by (simp add: set_cell_def unreferenced_def list_update_append1)

lemma blind_dispatcher_new:
  assumes "unreferenced d L"
  shows "Dispatcher_new ops s (set_cell d x L) = apsnd (set_cell d x) (Dispatcher_new ops s L)"
    "unreferenced d (snd (Dispatcher_new ops s L))" "fst (Dispatcher_new ops s L) \<noteq> d"
  using assms by (auto simp: Dispatcher_new_def set_cell_def unreferenced_def list_update_append1)

lemma blind_into_source_inner: "e \<noteq> d \<Longrightarrow> into_source_inner k e (set_cell d x L) = into_source_inner k e L"
  by (simp add: into_source_inner_def dispatcher_in_use_def)

lemma blind_insert_source [blind_intros]:
  fixes ops :: "('s, 'i, 'p, 'd) loop_ops"
  shows "blind d x (insert_source ops s)"
proof -
  have "insert_source ops s (set_cell d x L) = apsnd (set_cell d x) (insert_source ops s L) \<and> unreferenced d (snd (insert_source ops s L))"
    if u: "unreferenced d L" for L :: "('s, 'i, 'p, 'd) loop_state"
  proof -
    obtain e L1 where e: "Dispatcher_new ops s L = (e, L1)" by force
    note n = blind_dispatcher_new [OF u, where ops = ops and s = s, unfolded e fst_conv snd_conv]
    obtain r L2 where r: "register_dispatcher ops e L1 = (r, L2)" by force
    note b = blind_at [OF blind_register_dispatcher [OF n(3)] n(2) r, where x = x]
    show ?thesis using e n(1) r b blind_into_source_inner [OF n(3), of 0 x L2]
      by (auto simp: insert_source_def split: outcome.split)
  qed
  then show ?thesis by (simp add: blind_def)
qed

section \<open>Adapters and the user's handles\<close>

lemma blind_source_mut [blind_intros]: "e \<noteq> d \<Longrightarrow> blind d x (as_source_mut e f)"
  by (auto intro!: blindI simp: as_source_mut_def Let_def unreferenced_def set_cell_def list_update_swap split: dispatcher.split)

lemma blind_io_put:
  assumes "e \<noteq> d"
  shows "io_put e io (set_cell d x L) = set_cell d x (io_put e io L)" "io_at e (set_cell d x L) = io_at e L"
    "unreferenced d (io_put e io L) = unreferenced d L"
  using assms by (simp_all add: io_put_def io_at_def set_cell_def list_update_swap unreferenced_def)

lemma blind_io_register [blind_intros]:
  assumes "e \<noteq> d"
  shows "blind d x (io_register K e disp)" "blind d x (io_reregister K e disp)"
  using assms
  by (auto intro!: blindI simp: io_register_def io_reregister_def Let_def set_cell_updates blind_io_put split: option.split prod.split)

lemma blind_io_kill [blind_intros]: "e \<noteq> d \<Longrightarrow> blind d x (io_kill K e disp)"
  by (auto intro!: blindI simp: io_kill_def Let_def set_cell_updates blind_io_put unreferenced_release split: option.split prod.split)

lemma blind_register_waker [blind_intros]:
  assumes "as_dispatcher a \<noteq> d" shows "blind d x (async_register_waker K a i wk)"
  by (auto intro!: blindI simp: async_register_waker_def Let_def blind_io_put [OF assms] blindD [OF blind_io_register(2) [OF assms]]
      split: option.split)

lemma blind_async_poll [blind_intros]:
  fixes K :: "'p poller_ops"
  assumes "as_dispatcher a \<noteq> d" shows "blind d x (async_poll K wanted i a wk :: ('s, 'i, 'p, 'd) loop_state \<Rightarrow> _)"
proof -
  have "async_poll K wanted i a wk (set_cell d x L) = apsnd (set_cell d x) (async_poll K wanted i a wk L) \<and>
      unreferenced d (snd (async_poll K wanted i a wk L))"
    if u: "unreferenced d L" for L :: "('s, 'i, 'p, 'd) loop_state"
  proof (cases "io_at (as_dispatcher a) L")
    case None
    then show ?thesis using u by (simp add: async_poll_def blind_io_put assms)
  next
    case (Some disp)
    obtain rd disp' where rd: "io_readiness disp = (rd, disp')" by force
    let ?L1 = "io_put (as_dispatcher a) disp' L"
    obtain r L2 where r: "async_register_waker K a i wk ?L1 = (r, L2)" by force
    have "unreferenced d ?L1" using u blind_io_put(3) [OF assms] by blast
    note b = blind_at [OF blind_register_waker [OF assms, where x = x] this r]
    with Some rd r u show ?thesis
      by (cases r) (simp_all add: async_poll_def Let_def blind_io_put [OF assms])
  qed
  then show ?thesis by (simp add: blind_def)
qed

lemma blind_async_new [blind_intros]:
  fixes K :: "'p poller_ops"
  shows "blind d x (Async_new K r fd :: ('s, 'i, 'p, 'd) loop_state \<Rightarrow> _)"
proof -
  have "Async_new K r fd (set_cell d x L) = apsnd (set_cell d x) (Async_new K r fd L) \<and> unreferenced d (snd (Async_new K r fd L))"
    if u: "unreferenced d L" for L :: "('s, 'i, 'p, 'd) loop_state"
  proof -
    let ?e = "length (lp_cells L)"
    have e: "?e \<noteq> d" using u by (auto simp: unreferenced_def)
    obtain v sl where v: "vacant_entry (lp_sources L) = (v, sl)" by force
    note u1 = unreferenced_vacant [OF u v]
    show ?thesis
    proof (cases "(\<exists>b. r = Inr b) \<and> (\<exists>i. v = Ok i)")
      case False
      with u v u1 show ?thesis
        by (auto simp: Async_new_def Let_def set_cell_updates split: sum.splits outcome.splits)
    next
      case True
      then obtain b i where bi: "r = Inr b" "v = Ok i" by blast
      let ?sl = "set_source i (Some ?e) sl"
      let ?disp = "(io_disp_new fd)\<lparr>io_token := Some (se_token (?sl ! i))\<rparr>"
      let ?L1 = "L\<lparr>lp_cells := lp_cells L @ [\<lparr>cell_val = IoDisp ?disp, cell_borrowed = False\<rparr>], lp_sources := ?sl\<rparr>"
      have "unreferenced d (L\<lparr>lp_sources := ?sl\<rparr>)" using unreferenced_set_source [OF u1, of "Some ?e" i] e by simp
      then have u2: "unreferenced d ?L1" by (simp add: unreferenced_def)
      obtain q L2 where q: "io_register K ?e ?disp ?L1 = (q, L2)" by force
      note b = blind_at [OF blind_io_register(1) [OF e, where x = x] u2 q]
      have "(set_cell d x L)\<lparr>lp_cells := lp_cells (set_cell d x L) @ [c], lp_sources := ?sl\<rparr> =
          set_cell d x (L\<lparr>lp_cells := lp_cells L @ [c], lp_sources := ?sl\<rparr>)" for c
        using u by (simp add: set_cell_def unreferenced_def list_update_append1)
      with v bi q b show ?thesis by (cases q) (simp_all add: Async_new_def Let_def)
    qed
  qed
  then show ?thesis by (simp add: blind_def)
qed

lemma blind_async_drop [blind_intros]:
  assumes "as_dispatcher a \<noteq> d" shows "blind d x (async_drop K a)"
  by (auto intro!: blindI simp: async_drop_def blind_io_put [OF assms] blindD [OF blind_io_kill [OF assms]] split: option.split)

text \<open>The calls that are not made through a handle of \<open>d\<close>.\<close>

definition foreign_call :: "nat \<Rightarrow> ('s, 'i, 'p, 'd) api_call \<Rightarrow> bool" where
  "foreign_call d c =
     (case c of
        CallRegister e \<Rightarrow> e \<noteq> d
      | CallSourceMut e _ \<Rightarrow> e \<noteq> d
      | CallAsyncWait a _ _ \<Rightarrow> as_dispatcher a \<noteq> d
      | CallReadable a _ \<Rightarrow> as_dispatcher a \<noteq> d
      | CallWritable a _ \<Rightarrow> as_dispatcher a \<noteq> d
      | CallAsyncDrop a \<Rightarrow> as_dispatcher a \<noteq> d
      | _ \<Rightarrow> True)"

lemma blind_forget [blind_intros]: "blind d x f \<Longrightarrow> blind d x (\<lambda>L. forget_result (f L))"
  by (auto simp: blind_def forget_result_def)

lemma blind_exec_call:
  fixes c :: "('s, 'i, 'p, 'd) api_call"
  assumes "foreign_call d c"
  shows "blind d x (exec_call K ops c)"
proof (cases c)
  case (CallInsertSource s)
  then show ?thesis
    using blind_insert_source [of d x ops s] by (auto simp: blind_def split: prod.split)
next
  case (CallDispatcherNew s)
  then show ?thesis by (auto intro!: blindI simp: blind_dispatcher_new)
next
  case (CallReadable a wk)
  with assms show ?thesis
    using blind_forget [OF blind_async_poll [of a d x K rd_readable Interest_READ wk]]
    by (auto simp: foreign_call_def blind_def readable_poll_def)
next
  case (CallWritable a wk)
  with assms show ?thesis
    using blind_forget [OF blind_async_poll [of a d x K rd_writable Interest_WRITE wk]]
    by (auto simp: foreign_call_def blind_def writable_poll_def)
qed (use assms in \<open>auto simp: foreign_call_def exec_call.simps [abs_def] insert_idle_def idle_cancel_def signal_stop_def signal_wakeup_def
      loop_waker_wake_def set_cell_updates Let_def intro!: blind_intros blindI\<close>)

section \<open>Dispatches\<close>

text \<open>
  The contract of sources and callbacks that hold no handle of \<open>d\<close>: they cannot reach its cell.
\<close>

locale oblivious_sources =
  fixes d :: nat and ops :: "('s, 'i, 'p, 'd) loop_ops"
    and run_idle :: "'i \<Rightarrow> ('s, 'i, 'p, 'd) loop_state \<Rightarrow> ('s, 'i, 'p, 'd) loop_state"
  assumes process_blind: "blind_result d x (so_process ops s rd t)"
    and sleep_blind: "blind_result d x (so_before_sleep ops s)"
    and handle_blind: "blind d x (so_before_handle ops s evs)"
    and idle_blind: "blind d x (\<lambda>L. ((), run_idle f L))"
begin

lemma disp_process_blind:
  assumes "e \<noteq> d" shows "blind d x (disp_process ops e rd t)"
proof -
  have "disp_process ops e rd t (set_cell d x L) = apsnd (set_cell d x) (disp_process ops e rd t L) \<and>
      unreferenced d (snd (disp_process ops e rd t L))" if u: "unreferenced d L" for L
  proof (cases "cell_val (lp_cells L ! e)")
    case (SourceDisp di)
    let ?L = "set_cell e ((lp_cells L ! e)\<lparr>cell_borrowed := True\<rparr>) L"
    obtain r s' L' where p: "so_process ops (di_source di) rd t ?L = (r, s', L')" by (metis prod.collapse)
    have "so_process ops (di_source di) rd t (set_cell d x ?L) = (r, s', set_cell d x L')" "unreferenced d L'"
      using blind_result_at [OF process_blind [of x] _ p] u by simp_all
    with p u show ?thesis by (simp add: disp_process_def Let_def SourceDisp assms set_cell_swap)
  next
    case (IoDisp io)
    then show ?thesis using u assms
      by (auto simp: disp_process_def Let_def blind_io_put set_cell_updates split: prod.split)
  qed
  then show ?thesis by (simp add: blind_def)
qed

lemma disp_before_sleep_blind:
  assumes "e \<noteq> d" shows "blind d x (disp_before_sleep ops e)"
proof -
  have "disp_before_sleep ops e (set_cell d x L) = apsnd (set_cell d x) (disp_before_sleep ops e L) \<and>
      unreferenced d (snd (disp_before_sleep ops e L))" if u: "unreferenced d L" for L
  proof (cases "cell_val (lp_cells L ! e)")
    case (SourceDisp di)
    let ?L = "set_cell e ((lp_cells L ! e)\<lparr>cell_borrowed := True\<rparr>) L"
    obtain r s' L' where p: "so_before_sleep ops (di_source di) ?L = (r, s', L')" by (metis prod.collapse)
    have "so_before_sleep ops (di_source di) (set_cell d x ?L) = (r, s', set_cell d x L')" "unreferenced d L'"
      using blind_result_at [OF sleep_blind [of x] _ p] u by simp_all
    with p u show ?thesis by (simp add: disp_before_sleep_def Let_def SourceDisp assms set_cell_swap)
  qed (use u assms in \<open>simp add: disp_before_sleep_def\<close>)
  then show ?thesis by (simp add: blind_def)
qed

lemma disp_before_handle_blind:
  assumes "e \<noteq> d" shows "blind d x (disp_before_handle ops e evs)"
proof -
  have "disp_before_handle ops e evs (set_cell d x L) = apsnd (set_cell d x) (disp_before_handle ops e evs L) \<and>
      unreferenced d (snd (disp_before_handle ops e evs L))" if u: "unreferenced d L" for L
  proof (cases "cell_val (lp_cells L ! e)")
    case (SourceDisp di)
    let ?L = "set_cell e ((lp_cells L ! e)\<lparr>cell_borrowed := True\<rparr>) L"
    obtain s' L' where p: "so_before_handle ops (di_source di) evs ?L = (s', L')" by (metis prod.collapse)
    have "so_before_handle ops (di_source di) evs (set_cell d x ?L) = (s', set_cell d x L')" "unreferenced d L'"
      using blindD [OF handle_blind [of x "di_source di" evs], of ?L] u p by auto
    with p u show ?thesis by (simp add: disp_before_handle_def Let_def SourceDisp assms set_cell_swap)
  qed (use u assms in \<open>simp add: disp_before_handle_def\<close>)
  then show ?thesis by (simp add: blind_def)
qed

lemma run_before_sleep_blind: "blind d x (run_before_sleep ops ts timeout)"
proof (induction ts arbitrary: timeout)
  case Nil
  then show ?case by (simp add: blind_def)
next
  case (Cons t ts)
  have "blind d x (\<lambda>L. and_then (disp_before_sleep ops e L) (\<lambda>ev L'. case ev of
      Some (readiness, token) \<Rightarrow>
        run_before_sleep ops ts (Some 0) (L'\<lparr>lp_synthetic := lp_synthetic L' @ [\<lparr>pe_readiness = readiness, pe_token = token\<rparr>]\<rparr>)
    | None \<Rightarrow> run_before_sleep ops ts timeout L'))" if "e \<noteq> d" for e
    using that blindD [OF Cons.IH]
    by (intro blind_and_then disp_before_sleep_blind blindI) (auto simp: set_cell_updates split: option.split)
  from blind_lookup [OF this] show ?case by (simp add: blind_def)
qed

lemma run_before_handle_blind: "blind d x (run_before_handle ops ts evs)"
proof (induction ts)
  case Nil
  then show ?case by (simp add: blind_def)
next
  case (Cons t ts)
  have "blind d x (\<lambda>L. and_then (disp_before_handle ops e (event_iterator t evs) L) (\<lambda>_ L'. run_before_handle ops ts evs L'))"
    if "e \<noteq> d" for e
    using that Cons.IH by (intro blind_and_then disp_before_handle_blind)
  from blind_lookup [OF this] show ?case by (simp add: blind_def)
qed

lemma dispatch_event_blind: "blind d x (dispatch_event K ops ev)"
proof -
  let ?reg = "forget_sub_id (pe_token ev)"
  have after: "blind d x (\<lambda>L. and_then (loop_reregister ops e tf L) (\<lambda>_ L'. (Ok (), L')))"
    "blind d x (\<lambda>L. and_then (loop_unregister K ops e reg L) (\<lambda>_ L'. (Ok (), L')))" if "e \<noteq> d" for e tf reg
    using that by (intro blind_and_then blind_registration blind_return; assumption)+
  have post: "blind d x (apply_post_action K ops ?reg e a)" if "e \<noteq> d" for e a
    unfolding apply_post_action_def [abs_def] using after [OF that]
    by (cases a) (simp_all add: blind_return, auto intro!: blindI simp: unreferenced_release set_cell_updates)
  have unreg: "blind d x (unregister_if_removed K ops ?reg e)" if "e \<noteq> d" for e
    by (auto intro!: blindI simp: unregister_if_removed_def blindD(1) [OF blind_log [OF blind_registration(3) [OF that]]]
        blindD(2) [OF blind_registration(3) [OF that]])
  have rest: "blind d x (\<lambda>L1. case take_pending ret L1 of (ret', L2) \<Rightarrow>
      and_then (apply_post_action K ops ?reg e ret' L2) (\<lambda>_ L3. unregister_if_removed K ops ?reg e L3))" if "e \<noteq> d" for e ret
    using blindD [OF blind_and_then [where g = "\<lambda>_. unregister_if_removed K ops ?reg e", OF post [OF that] unreg [OF that]]]
    by (intro blindI) (auto simp: take_pending_def set_cell_updates)
  have "blind d x (\<lambda>L. and_then (disp_process ops e (pe_readiness ev) (pe_token ev) L) (\<lambda>ret L1. case take_pending ret L1 of (ret', L2) \<Rightarrow>
      and_then (apply_post_action K ops ?reg e ret' L2) (\<lambda>_ L3. unregister_if_removed K ops ?reg e L3)))" if "e \<noteq> d" for e
    using that by (intro blind_and_then disp_process_blind rest)
  from blind_lookup [OF this] show ?thesis unfolding dispatch_event_def [abs_def] Let_def .
qed

lemma dispatch_list_blind: "blind d x (dispatch_list K ops evs)"
proof (induction evs)
  case (Cons ev evs)
  have "blind d x (\<lambda>L. and_then (dispatch_event K ops ev L) (\<lambda>_ L'. dispatch_list K ops evs L'))"
    by (intro blind_and_then dispatch_event_blind Cons.IH)
  then show ?case by (simp add: blind_def)
qed (simp add: blind_def)

lemma loop_poll_blind: "blind d x (loop_poll K n now timeout)"
  by (auto intro!: blindI simp: loop_poll_def set_cell_updates split: prod.split)

lemma dispatch_events_blind: "blind d x (dispatch_events K ops n timeout)"
proof -
  have last: "blind d x (\<lambda>L3. dispatch_list K ops (lp_synthetic L3 @ evs) (L3\<lparr>lp_synthetic := []\<rparr>))" for evs
    using blindD [OF dispatch_list_blind] by (intro blindI) (simp_all add: set_cell_updates)
  have handle: "blind d x (\<lambda>L2. case polled of None \<Rightarrow> (Ok (), L2)
      | Some events \<Rightarrow> and_then (run_before_handle ops (lp_lifecycle L2) events L2)
          (\<lambda>_ L3. dispatch_list K ops (lp_synthetic L3 @ events) (L3\<lparr>lp_synthetic := []\<rparr>)))" for polled
    using blindD [OF blind_and_then [OF run_before_handle_blind last]]
    by (intro blindI) (auto split: option.split)
  have "blind d x (\<lambda>L. and_then (run_before_sleep ops ts timeout L) (\<lambda>timeout' L1. and_then (loop_poll K n now timeout' L1)
      (\<lambda>polled L2. case polled of None \<Rightarrow> (Ok (), L2)
        | Some events \<Rightarrow> and_then (run_before_handle ops (lp_lifecycle L2) events L2)
            (\<lambda>_ L3. dispatch_list K ops (lp_synthetic L3 @ events) (L3\<lparr>lp_synthetic := []\<rparr>)))))" for ts now
    by (intro blind_and_then run_before_sleep_blind loop_poll_blind handle)
  from blindD [OF this] show ?thesis
    by (intro blindI) (simp_all add: dispatch_events_def Let_def)
qed

lemma idle_dispatch_blind: "blind d x (\<lambda>L. ((), idle_dispatch run_idle cb L))"
proof (rule blindI, goal_cases)
  case (1 L)
  then show ?case using blindD(1) [OF idle_blind]
    by (auto simp: idle_dispatch_def Let_def set_cell_updates split: idle_cell.split)
next
  case (2 L)
  then show ?case using blindD(2) [OF idle_blind]
    by (auto simp: idle_dispatch_def Let_def split: idle_cell.split)
qed

lemma dispatch_idles_blind: "blind d x (\<lambda>L. (r, dispatch_idles run_idle L))"
proof -
  have "fold (idle_dispatch run_idle) cbs (set_cell d x L) = set_cell d x (fold (idle_dispatch run_idle) cbs L) \<and>
      unreferenced d (fold (idle_dispatch run_idle) cbs L)" if "unreferenced d L" for cbs L
    using that blindD [OF idle_dispatch_blind] by (induction cbs arbitrary: L) auto
  then show ?thesis by (intro blindI) (simp_all add: dispatch_idles_def set_cell_updates)
qed

lemma dispatch_blind: "blind d x (dispatch K ops run_idle n timeout)"
  unfolding dispatch_def [abs_def] by (intro blind_and_then dispatch_events_blind dispatch_idles_blind)

end

section \<open>The owner of the loop\<close>

text \<open>What the owner of the loop does, up to a call that does not return.\<close>

datatype ('s, 'i, 'p, 'd) owner_step = OwnerCall "('s, 'i, 'p, 'd) api_call" | OwnerDispatch nat "duration option"

fun owner_do :: "'p poller_ops \<Rightarrow> ('s, 'i, 'p, 'd) loop_ops
    \<Rightarrow> ('i \<Rightarrow> ('s, 'i, 'p, 'd) loop_state \<Rightarrow> ('s, 'i, 'p, 'd) loop_state) \<Rightarrow> ('s, 'i, 'p, 'd) owner_step
    \<Rightarrow> ('s, 'i, 'p, 'd) loop_state \<Rightarrow> unit cresult \<times> ('s, 'i, 'p, 'd) loop_state" where
  "owner_do K ops run_idle (OwnerCall c) L = exec_call K ops c L"
| "owner_do K ops run_idle (OwnerDispatch n timeout) L = dispatch K ops run_idle n timeout L"

fun owner_run :: "'p poller_ops \<Rightarrow> ('s, 'i, 'p, 'd) loop_ops
    \<Rightarrow> ('i \<Rightarrow> ('s, 'i, 'p, 'd) loop_state \<Rightarrow> ('s, 'i, 'p, 'd) loop_state) \<Rightarrow> ('s, 'i, 'p, 'd) owner_step list
    \<Rightarrow> ('s, 'i, 'p, 'd) loop_state \<Rightarrow> unit cresult list \<times> ('s, 'i, 'p, 'd) loop_state" where
  "owner_run K ops run_idle [] L = ([], L)"
| "owner_run K ops run_idle (st # sts) L =
     (case owner_do K ops run_idle st L of
        (r, L') \<Rightarrow> if returns r then (case owner_run K ops run_idle sts L' of (rs, L'') \<Rightarrow> (r # rs, L'')) else ([r], L'))"

definition foreign_steps :: "nat \<Rightarrow> ('s, 'i, 'p, 'd) owner_step list \<Rightarrow> bool" where
  "foreign_steps d sts \<longleftrightarrow> (\<forall>c. OwnerCall c \<in> set sts \<longrightarrow> foreign_call d c)"

context oblivious_sources
begin

lemma owner_run_blind: "foreign_steps d sts \<Longrightarrow> blind d x (owner_run K ops run_idle sts)"
proof (induction sts)
  case Nil
  then show ?case by (simp add: blind_def)
next
  case (Cons st sts)
  have "blind d x (owner_do K ops run_idle st)"
    using Cons.prems by (cases st) (simp_all add: foreign_steps_def owner_do.simps [abs_def] dispatch_blind blind_exec_call)
  moreover have "blind d x (owner_run K ops run_idle sts)" using Cons by (simp add: foreign_steps_def)
  ultimately have "owner_run K ops run_idle (st # sts) (set_cell d x L) = apsnd (set_cell d x) (owner_run K ops run_idle (st # sts) L) \<and>
      unreferenced d (snd (owner_run K ops run_idle (st # sts) L))" if u: "unreferenced d L" for L
  proof -
    obtain r L' rs L'' where 1: "owner_do K ops run_idle st L = (r, L')" "owner_run K ops run_idle sts L' = (rs, L'')" by force
    from blind_at [OF \<open>blind d x (owner_do K ops run_idle st)\<close> u 1(1)] blind_at [OF \<open>blind d x (owner_run K ops run_idle sts)\<close> _ 1(2)] 1
    show ?thesis by auto
  qed
  then show ?case by (simp add: blind_def)
qed

end

section \<open>Sources that lose their last reference\<close>

text \<open>\<open>d\<close> has no slot but that of \<open>t\<close>, which is the case when it came in by \<open>insert_source\<close>.\<close>

definition only_slot :: "nat \<Rightarrow> token \<Rightarrow> ('s, 'i, 'p, 'd) loop_state \<Rightarrow> bool" where
  "only_slot d t L \<longleftrightarrow>
     sl_lookup (lp_sources L) t = Some d \<and> d < length (lp_cells L) \<and>
     (\<forall>i < length (lp_sources L). se_source (lp_sources L ! i) = Some d \<longrightarrow> i = get_id t)"

lemma release_unreferenced:
  "only_slot d t L \<Longrightarrow> unreferenced d (L\<lparr>lp_sources := sl_release t (lp_sources L)\<rparr>)"
  by (auto simp: only_slot_def unreferenced_def sl_release_eq sl_lookup_iff source_set_source split: if_splits)

lemma remove_eq_release:
  assumes "sl_lookup (lp_sources L) t = Some d"
  shows "handle_remove K ops t L = log_error (loop_unregister K ops d t (L\<lparr>lp_sources := sl_release t (lp_sources L)\<rparr>))"
proof -
  have "sl_get_mut (lp_sources L) t = Ok (get_id t)" "se_source (lp_sources L ! get_id t) = Some d"
    using assms by (auto simp: sl_lookup_iff sl_get_mut_iff)
  then show ?thesis by (simp add: handle_remove_def sl_release_def)
qed

lemma unreferenced_unregister:
  "unreferenced d L \<Longrightarrow> unreferenced d (snd (loop_unregister K ops e reg L))"
  by (auto simp: loop_unregister_def store_disp_def unreferenced_def split: prod.split)

lemma removed_unreferenced:
  assumes "only_slot d t L" shows "unreferenced d (snd (handle_remove K ops t L))"
proof -
  have "sl_lookup (lp_sources L) t = Some d" using assms by (simp add: only_slot_def)
  then show ?thesis using unreferenced_unregister [OF release_unreferenced [OF assms]] by (simp add: remove_eq_release)
qed

text \<open>The same for a source whose own event ends with \<open>Remove\<close>.\<close>

lemma ended_unreferenced:
  assumes "disp_process ops d (pe_readiness ev) (pe_token ev) L = (Ok Remove, L1)"
    and "sl_lookup (lp_sources L) (forget_sub_id (pe_token ev)) = Some d" and "only_slot d (forget_sub_id (pe_token ev)) L1"
  shows "unreferenced d (snd (dispatch_event K ops ev L))"
proof -
  let ?t = "forget_sub_id (pe_token ev)"
  have "unreferenced d (L1\<lparr>lp_sources := sl_release ?t (lp_sources L1)\<rparr>)" by (rule release_unreferenced [OF assms(3)])
  then have "unreferenced d (L1\<lparr>lp_pending := Continue, lp_sources := sl_release ?t (lp_sources L1)\<rparr>)" by (simp add: unreferenced_def)
  then show ?thesis using assms(1,2)
    by (simp add: dispatch_event_def Let_def take_pending_def apply_post_action_def unregister_if_removed_def unreferenced_unregister)
qed

text \<open>
  The destructor of a removed \<open>Generic\<close>: nothing is left to do for it where \<open>remove\<close> could take the
  descriptor off the poller; where that failed it tries once more.
\<close>

lemma removed_generic_dropped:
  assumes "sl_lookup (lp_sources L) t = Some d" and "d < length (lp_cells L)"
    and "lp_cells L ! d = \<lparr>cell_val = SourceDisp \<lparr>di_source = g, di_needs = False\<rparr>, cell_borrowed = False\<rparr>"
    and "gn_file g = Some fl" and "gn_poller g" and "Poll_unregister K (as_fd fl) (lp_poll L) = (q, P)" and "returns q"
  shows "\<exists>L1 g'. handle_remove K (generic_ops K as_fd box cb) t L = (Ok (), L1) \<and>
    lp_cells L1 ! d = \<lparr>cell_val = SourceDisp \<lparr>di_source = g', di_needs = False\<rparr>, cell_borrowed = False\<rparr> \<and>
    generic_drop K as_fd g' p = (if is_ok q then p else snd (pl_delete K p (as_fd fl)))"
  using assms(2-7)
  by (cases q)
    (auto simp: remove_eq_release [OF assms(1)] log_error_def loop_unregister_def store_disp_def disp_unregister_def generic_ops_def
      generic_unregister_def generic_drop_def Let_def is_ok_def)

section \<open>Scripts without a handle of the dispatcher\<close>

definition forgetting :: "nat \<Rightarrow> ('e \<Rightarrow> 'r \<times> ('s, 'i, 'p, 'd) api_call list) \<Rightarrow> 'e \<Rightarrow> 'r \<times> ('s, 'i, 'p, 'd) api_call list" where
  "forgetting d f e = apsnd (filter (foreign_call d)) (f e)"

lemma blind_script: "\<forall>c \<in> set cs. foreign_call d c \<Longrightarrow> blind d x (\<lambda>L. (a, run_script K ops any_call cs L))"
proof (induction cs)
  case Nil
  then show ?case by (simp add: run_script_def blind_def)
next
  case (Cons c cs)
  have c: "blind d x (exec_call K ops c)" using Cons.prems by (simp add: blind_exec_call)
  have valid: "valid_call c (set_cell d x L) = valid_call c L" for L by (cases c) (simp_all add: valid_call_def)
  have "run_call K ops any_call c (set_cell d x L) = set_cell d x (run_call K ops any_call c L) \<and>
      unreferenced d (run_call K ops any_call c L)" if "unreferenced d L" for L
    using blindD [OF c that] that by (simp add: run_call_def any_call_def valid)
  with Cons.IH Cons.prems show ?case by (simp add: run_script_def blind_def)
qed

lemma blind_wrap: "blind_result d x g \<Longrightarrow> blind_result d x (\<lambda>L. sum_result w (g L))"
  by (intro blind_resultI) (auto simp: sum_result_def split: prod.splits dest: blind_result_at)

lemma blind_timer_process:
  assumes "\<And>deadline. blind d x (cb deadline)"
  shows "blind_result d x (timer_process K cb tm rd t)"
proof (rule blind_resultI)
  fix L r tm' L' assume u: "unreferenced d L" and p: "timer_process K cb tm rd t L = (r, tm', L')"
  show "timer_process K cb tm rd t (set_cell d x L) = (r, tm', set_cell d x L') \<and> unreferenced d L'"
  proof (cases "\<exists>reg dl. tm_registration tm = Some reg \<and> tm_deadline tm = Some dl \<and> rg_token reg = t")
    case False
    with p u show ?thesis by (auto simp: timer_process_def split: option.splits if_splits)
  next
    case True
    then obtain reg dl where reg: "tm_registration tm = Some reg" "tm_deadline tm = Some dl" "rg_token reg = t" by blast
    obtain a L1 where cb: "cb dl L = (a, L1)" by force
    from blind_at [OF assms u cb] reg cb p show ?thesis
      by (cases a) (auto simp: timer_process_def timer_rearm_def with_timers_def loop_now_def set_cell_updates split: option.splits)
  qed
qed

lemma blind_generic_process:
  assumes "\<And>f. blind_result d x (cb rd f)"
  shows "blind_result d x (\<lambda>L. box_process box (generic_process cb g rd t L))"
proof (rule blind_resultI)
  fix L r g' L' assume u: "unreferenced d L" and p: "box_process box (generic_process cb g rd t L) = (r, g', L')"
  show "box_process box (generic_process cb g rd t (set_cell d x L)) = (r, g', set_cell d x L') \<and> unreferenced d L'"
  proof (cases "gn_token g = Some t \<and> gn_file g \<noteq> None")
    case False
    with u p show ?thesis by (auto simp: generic_process_def box_process_def split: option.splits if_splits)
  next
    case True
    then obtain f where f: "gn_file g = Some f" "gn_token g = Some t" by blast
    obtain q f' L1 where cb: "cb rd f L = (q, f', L1)" by (metis prod.collapse)
    from blind_result_at [OF assms u cb] cb f p show ?thesis by (auto simp: generic_process_def box_process_def)
  qed
qed

interpretation forgetful_app: oblivious_sources d "app_ops K (forgetting d on_timer) (\<lambda>rd. forgetting d (on_ready rd))"
    "app_idle K (\<lambda>i. filter (foreign_call d) (on_idle i))"
  for d and K :: "'p poller_ops" and on_timer on_ready and on_idle :: "nat \<Rightarrow> ('p, 'd) app_call list"
proof (unfold_locales, goal_cases)
  case (1 x s rd t)
  show ?case
  proof (cases s)
    case (Inl tm)
    have "blind d x (\<lambda>L. (fst (forgetting d on_timer dl), run_script K (app_base K) any_call (snd (forgetting d on_timer dl)) L))" for dl
      by (rule blind_script) (simp add: forgetting_def)
    from blind_wrap [OF blind_timer_process [OF this]] show ?thesis by (simp add: Inl app_ops_def sum_ops_def timer_ops_def)
  next
    case (Inr g)
    have "blind d x (\<lambda>L. (a, run_script K (app_base K) any_call (snd (forgetting d (on_ready rd) fd)) L))" for a :: unit and fd
      by (rule blind_script) (simp add: forgetting_def)
    from blindD [OF this]
    have "blind_result d x (\<lambda>L. (case fst (forgetting d (on_ready rd) fd) of Inl e \<Rightarrow> Err e | Inr a \<Rightarrow> Ok a, fd,
        run_script K (app_base K) any_call (snd (forgetting d (on_ready rd) fd)) L))" for fd
      by (intro blind_resultI) auto
    from blind_wrap [OF blind_generic_process [where rd = rd and cb = "\<lambda>rd fd L. (case fst (forgetting d (on_ready rd) fd) of
        Inl e \<Rightarrow> Err e | Inr a \<Rightarrow> Ok a, fd, run_script K (app_base K) any_call (snd (forgetting d (on_ready rd) fd)) L)", OF this]] show ?thesis by (simp add: Inr app_ops_def sum_ops_def generic_ops_def)
  qed
next
  case (2 x s)
  then show ?case
    by (intro blind_resultI) (auto simp: app_ops_def sum_ops_def timer_ops_def generic_ops_def sum_result_def default_before_sleep_def split: sum.splits)
next
  case (3 x s evs)
  then show ?case
    by (auto intro!: blindI simp: app_ops_def sum_ops_def timer_ops_def generic_ops_def default_before_handle_def split: sum.split)
next
  case (4 x f)
  show ?case unfolding app_idle_def by (rule blind_script) simp
qed

section \<open>Dropping is not observable\<close>

lemma inserted_only_slot:
  assumes "core_inv None L" and "insert_source ops s L = (Ok t, L')"
  shows "only_slot (length (lp_cells L)) t L'"
proof -
  let ?d = "length (lp_cells L)" and ?L0 = "snd (Dispatcher_new ops s L)"
  have src: "lp_sources ?L0 = lp_sources L" by (simp add: Dispatcher_new_def)
  have reg: "register_dispatcher ops ?d ?L0 = (Ok t, L')" using assms(2) by (simp add: insert_source_Ok Dispatcher_new_def)
  obtain v sl where v: "vacant_entry (lp_sources L) = (v, sl)" by force
  then obtain i where i: "vacant_entry (lp_sources L) = (Ok i, sl)"
    using reg by (cases v) (auto simp: register_dispatcher_def src)
  let ?sl = "set_source i (Some ?d) sl"
  obtain q L1 where q: "loop_register ops ?d (TokenFactory_new (se_token (?sl ! i))) (?L0\<lparr>lp_sources := ?sl\<rparr>) = (q, L1)" by force
  with reg i src have L': "t = se_token (?sl ! i)" "L' = L1" by (cases q; auto simp: register_dispatcher_def Let_def)+
  have frame: "lp_sources L1 = ?sl" "length (lp_cells L1) = Suc ?d"
    using loop_register_frame(1,2) [of ops ?d "TokenFactory_new (se_token (?sl ! i))" "?L0\<lparr>lp_sources := ?sl\<rparr>", unfolded q]
    by (simp_all add: Dispatcher_new_def)
  have old: "se_source (sl ! j) \<noteq> Some ?d" if "j < length sl" for j
    using core_invD(2) [OF core_inv_vacant [OF assms(1) i], of j ?d] that by auto
  note ve = vacant_entry_Ok [OF core_invD(1) [OF assms(1)] i]
  have id: "get_id t = i" using ve(2) slots_wfD(1) [OF ve(1,2)] by (simp add: L'(1))
  show ?thesis unfolding only_slot_def
    using ve(2) id old by (auto simp: L'(2) frame sl_lookup_iff L'(1) source_set_source split: if_splits)
qed

text \<open>
  C9: a dispatcher may be dropped as soon as nothing refers to it. When a source whose only slot is that of
  its token is removed, then in whatever its owner does next, calls that are not made through a handle of that
  dispatcher and dispatches with callbacks that hold none, no token names it again, its cell is not
  touched, and what the cell holds makes no difference: every call has the same result and the loop the same
  state if the dispatcher was replaced or destroyed at once, which is what the reference count of the code does.
\<close>

theorem dropped_dispatcher_unobservable:
  assumes "oblivious_sources d ops run_idle" and "only_slot d t L" and "handle_remove K ops t L = (r, L1)"
    and "foreign_steps d sts" and "owner_run K ops run_idle sts L1 = (rs, L2)"
  shows "owner_run K ops run_idle sts (set_cell d x L1) = (rs, set_cell d x L2) \<and>
    lp_cells L2 ! d = lp_cells L1 ! d \<and> (\<forall>u. sl_lookup (lp_sources L2) u \<noteq> Some d)"
proof -
  have u: "unreferenced d L1" using removed_unreferenced [OF assms(2), of K ops] assms(3) by simp
  have run: "owner_run K ops run_idle sts (set_cell d y L1) = (rs, set_cell d y L2) \<and> unreferenced d L2" for y
    by (rule blind_at [OF oblivious_sources.owner_run_blind [OF assms(1,4)] u assms(5)])
  have "set_cell d (lp_cells L1 ! d) L1 = L1" by (simp add: set_cell_def)
  with run [of "lp_cells L1 ! d"] assms(5) have "L2 = set_cell d (lp_cells L1 ! d) L2" by simp
  then have "lp_cells L2 ! d = lp_cells (set_cell d (lp_cells L1 ! d) L2) ! d" by simp
  moreover have "d < length (lp_cells L2)" using run by (auto simp: unreferenced_def)
  ultimately have "lp_cells L2 ! d = lp_cells L1 ! d" by (simp add: set_cell_def)
  with run unreferenced_lookup(1) show ?thesis by blast
qed

text \<open>A source is removed; another takes its slot and is dispatched.\<close>

theorem dropped_dispatcher_unobservable_witness:
  "\<exists>rs L2. owner_run SP demo_base (\<lambda>_ L. L) [OwnerCall (CallInsertSource 2), OwnerDispatch 1 (Some 0)]
       (snd (handle_remove SP demo_base (demo_token 0) (demo_loop [demo_cell 1]))) = (rs, L2) \<and>
     owner_run SP demo_base (\<lambda>_ L. L) [OwnerCall (CallInsertSource 2), OwnerDispatch 1 (Some 0)]
       (set_cell 0 (demo_cell 9) (snd (handle_remove SP demo_base (demo_token 0) (demo_loop [demo_cell 1])))) =
       (rs, set_cell 0 (demo_cell 9) L2)"
proof -
  have "oblivious_sources 0 demo_base (\<lambda>_ L. L)"
    by unfold_locales (auto intro!: blindI blind_resultI simp: demo_base_def demo_ops_def default_before_sleep_def default_before_handle_def)
  moreover have "only_slot 0 (demo_token 0) (demo_loop [demo_cell 1])"
    by (simp add: only_slot_def demo_defs sl_lookup_iff get_id_def same_source_as_def)
  moreover obtain r L1 where "handle_remove SP demo_base (demo_token 0) (demo_loop [demo_cell 1]) = (r, L1)" by force
  moreover have "foreign_steps 0 [OwnerCall (CallInsertSource 2), OwnerDispatch 1 (Some 0)]"
    by (simp add: foreign_steps_def foreign_call_def)
  moreover obtain rs L2 where "owner_run SP demo_base (\<lambda>_ L. L) [OwnerCall (CallInsertSource 2), OwnerDispatch 1 (Some 0)] L1 = (rs, L2)"
    by force
  ultimately show ?thesis using dropped_dispatcher_unobservable by (metis snd_conv)
qed

end
