(* ===== verification/Ping_Equivalence.thy ===== *)
theory Ping_Equivalence
  imports Ping_Eventfd Ping_Pipe
begin

text \<open>
  The two Unix implementations of \<open>src/src/sources/ping.rs\<close> show a program the same behaviour: a
  reference ping, of two flags, against which both are compared over every sequence of pings,
  of the drop of the handle, and of events, with callbacks that ping again.
\<close>

section \<open>The reference\<close>

text \<open>\<open>PingEvent k\<close>: an event whose callback pings \<open>k\<close> times, if there still is a handle.\<close>

datatype ping_op = PingPing | PingDrop | PingEvent nat

text \<open>What an event shows: how often the callback ran, and what the source returned.\<close>

type_synonym ping_seen = "nat \<times> (boxed_error, post_action) outcome"

record ping_ref =
  pf_pending :: bool
  pf_open :: bool
  pf_gone :: bool

fun ref_run :: "ping_ref \<Rightarrow> ping_op list \<Rightarrow> ping_seen list" where
  "ref_run s [] = []"
| "ref_run s (PingPing # ops) = ref_run (s\<lparr>pf_pending := pf_pending s \<or> pf_open s\<rparr>) ops"
| "ref_run s (PingDrop # ops) = ref_run (s\<lparr>pf_open := False\<rparr>) ops"
| "ref_run s (PingEvent k # ops) =
     (if pf_gone s \<or> (\<not> pf_pending s \<and> pf_open s) then ref_run s ops
      else (if pf_pending s then 1 else 0, Ok (if pf_open s then Continue else Remove)) #
        ref_run (s\<lparr>pf_pending := pf_pending s \<and> pf_open s \<and> 0 < k, pf_gone := \<not> pf_open s\<rparr>) ops)"

section \<open>An implementation\<close>

text \<open>
  The poller is level-triggered: the source runs exactly when its descriptor is readable. After
  \<open>Remove\<close> it is not called again, and without a handle nobody pings.
\<close>

record 'w ping_impl =
  pi_ping :: "'w \<Rightarrow> 'w"
  pi_drop :: "'w \<Rightarrow> 'w"
  pi_readable :: "'w \<Rightarrow> bool"
  pi_process :: "(nat \<Rightarrow> 'w \<Rightarrow> nat \<times> 'w) \<Rightarrow> 'w \<Rightarrow> (boxed_error, post_action) outcome \<times> nat \<times> 'w"

definition ping_callback :: "'w ping_impl \<Rightarrow> bool \<Rightarrow> nat \<Rightarrow> nat \<Rightarrow> 'w \<Rightarrow> nat \<times> 'w" where
  "ping_callback I opn k c w = (c + 1, if opn then (pi_ping I ^^ k) w else w)"

fun impl_run :: "'w ping_impl \<Rightarrow> bool \<Rightarrow> bool \<Rightarrow> 'w \<Rightarrow> ping_op list \<Rightarrow> ping_seen list" where
  "impl_run I opn gone w [] = []"
| "impl_run I opn gone w (PingPing # ops) = impl_run I opn gone (if opn then pi_ping I w else w) ops"
| "impl_run I opn gone w (PingDrop # ops) = impl_run I False gone (if opn then pi_drop I w else w) ops"
| "impl_run I opn gone w (PingEvent k # ops) =
     (if gone \<or> \<not> pi_readable I w then impl_run I opn gone w ops
      else case pi_process I (ping_callback I opn k) w of
             (r, c, w') \<Rightarrow> (c, r) # impl_run I opn (r = Ok Remove) w' ops)"

definition eventfd_impl :: "'p eventfd_ops \<Rightarrow> ('w, 'p) access \<Rightarrow> raw_fd \<Rightarrow> ('p \<Rightarrow> u64) \<Rightarrow> eventfd_source \<Rightarrow> readiness \<Rightarrow> token
    \<Rightarrow> 'w ping_impl" where
  "eventfd_impl E sys fd counter src rd t =
     \<lparr>pi_ping = eventfd_ping E sys fd, pi_drop = eventfd_flag_on_drop E sys fd,
      pi_readable = (\<lambda>w. counter (acc_get sys w) \<noteq> 0),
      pi_process = (\<lambda>cb w. case eventfd_process E sys src rd t cb 0 w of (r, _, c, w') \<Rightarrow> (r, c, w'))\<rparr>"

definition pipe_impl :: "'p pipe_ops \<Rightarrow> ('w, 'p) access \<Rightarrow> nat \<Rightarrow> raw_fd \<Rightarrow> ('p \<Rightarrow> nat) \<Rightarrow> ('p \<Rightarrow> bool) \<Rightarrow> pipe_source
    \<Rightarrow> readiness \<Rightarrow> token \<Rightarrow> 'w ping_impl" where
  "pipe_impl Pi sys fuel wfd bytes closed src rd t =
     \<lparr>pi_ping = pipe_ping Pi sys wfd, pi_drop = pipe_handle_drop Pi sys wfd,
      pi_readable = (\<lambda>w. 0 < bytes (acc_get sys w) \<or> closed (acc_get sys w)),
      pi_process = (\<lambda>cb w. case pipe_process Pi sys fuel src rd t cb 0 w of (r, _, c, w') \<Rightarrow> (r, c, w'))\<rparr>"

section \<open>Simulation of the reference\<close>

text \<open>The number of pings in a sequence, which bounds the counter of an eventfd.\<close>

fun pings_in :: "ping_op list \<Rightarrow> nat" where
  "pings_in [] = 0"
| "pings_in (PingPing # ops) = Suc (pings_in ops)"
| "pings_in (PingDrop # ops) = pings_in ops"
| "pings_in (PingEvent k # ops) = k + pings_in ops"

text \<open>
  \<open>abs I n w pending opn\<close>: the state of the implementation shows these flags, and has room for \<open>n\<close>
  more pings.
\<close>

locale ping_simulation =
  fixes I :: "'w ping_impl" and abs :: "nat \<Rightarrow> 'w \<Rightarrow> bool \<Rightarrow> bool \<Rightarrow> bool"
  assumes sim_ping: "abs (Suc n) w p True \<Longrightarrow> abs n (pi_ping I w) True True"
    and sim_drop: "abs n w p True \<Longrightarrow> abs n (pi_drop I w) p False"
    and sim_less: "abs n w p b \<Longrightarrow> m \<le> n \<Longrightarrow> abs m w p b"
    and sim_readable: "abs n w p b \<Longrightarrow> pi_readable I w \<longleftrightarrow> p \<or> \<not> b"
    and sim_process: "abs n w p b \<Longrightarrow> p \<or> \<not> b \<Longrightarrow>
      \<exists>w1. (b \<longrightarrow> abs n w1 False True) \<and> pi_process I cb w = (let cw = (if p then cb 0 w1 else (0, w1)) in
        (Ok (if b then Continue else Remove), fst cw, snd cw))"
begin

lemma sim_pings: "abs (k + n) w p True \<Longrightarrow> abs n ((pi_ping I ^^ k) w) (p \<or> 0 < k) True"
proof (induction k arbitrary: n)
  case 0
  then show ?case by simp
next
  case (Suc k)
  from Suc.IH [of "Suc n"] Suc.prems have "abs (Suc n) ((pi_ping I ^^ k) w) (p \<or> 0 < k) True" by simp
  from sim_ping [OF this] show ?case by simp
qed

lemma run_gone: "impl_run I opn True w ops = [] \<and> ref_run \<lparr>pf_pending = p, pf_open = b, pf_gone = True\<rparr> ops = []"
proof (induction ops arbitrary: opn w p b)
  case (Cons op ops)
  then show ?case by (cases op) simp_all
qed simp

lemma impl_run_ref:
  "abs (pings_in ops) w p b \<Longrightarrow> impl_run I b False w ops = ref_run \<lparr>pf_pending = p, pf_open = b, pf_gone = False\<rparr> ops"
proof (induction ops arbitrary: w p b)
  case (Cons op ops)
  show ?case
  proof (cases op)
    case PingPing
    with Cons.prems Cons.IH sim_ping [of "pings_in ops" w p] sim_less [of "Suc (pings_in ops)" w p b "pings_in ops"] show ?thesis
      by (cases b) simp_all
  next
    case PingDrop
    with Cons.prems Cons.IH sim_drop show ?thesis by (cases b) simp_all
  next
    case (PingEvent k)
    have less: "abs (pings_in ops) w p b" using Cons.prems PingEvent sim_less [of _ w p b "pings_in ops"] by simp
    show ?thesis
    proof (cases "p \<or> \<not> b")
      case False
      with sim_readable [OF Cons.prems] Cons.IH [OF less] PingEvent show ?thesis by simp
    next
      case True
      obtain w1 where w1: "b \<Longrightarrow> abs (k + pings_in ops) w1 False True"
        and run: "pi_process I (ping_callback I b k) w = (let cw = (if p then ping_callback I b k 0 w1 else (0, w1)) in
          (Ok (if b then Continue else Remove), fst cw, snd cw))"
        using sim_process [OF Cons.prems True, of "ping_callback I b k"] PingEvent by auto
      show ?thesis
      proof (cases b)
        case True
        with \<open>p \<or> \<not> b\<close> have "p" by simp
        with True Cons.IH [OF sim_pings [OF w1 [OF True]]] run sim_readable [OF Cons.prems] PingEvent show ?thesis
          by (simp add: ping_callback_def)
      next
        case False
        with run sim_readable [OF Cons.prems] PingEvent run_gone show ?thesis by (simp add: ping_callback_def)
      qed
    qed
  qed
qed simp

end

section \<open>Both implementations\<close>

definition eventfd_shows :: "('p \<Rightarrow> u64) \<Rightarrow> ('w, 'p) access \<Rightarrow> nat \<Rightarrow> 'w \<Rightarrow> bool \<Rightarrow> bool \<Rightarrow> bool" where
  "eventfd_shows counter sys n w p b \<longleftrightarrow>
     (let c = unat (counter (acc_get sys w)) in
      (p \<longleftrightarrow> 2 \<le> c) \<and> (b \<longleftrightarrow> even c) \<and> c + 2 * n + (if b then 3 else 2) < 2 ^ 64)"

definition pipe_shows :: "('p \<Rightarrow> nat) \<Rightarrow> ('p \<Rightarrow> bool) \<Rightarrow> ('w, 'p) access \<Rightarrow> nat \<Rightarrow> 'w \<Rightarrow> bool \<Rightarrow> bool \<Rightarrow> bool" where
  "pipe_shows bytes closed sys n w p b \<longleftrightarrow> (p \<longleftrightarrow> 0 < bytes (acc_get sys w)) \<and> (b \<longleftrightarrow> \<not> closed (acc_get sys w))"

lemma eventfd_showsD:
  assumes "eventfd_shows counter sys n w p b"
  shows "p \<or> \<not> b \<longleftrightarrow> counter (acc_get sys w) \<noteq> 0" and "p \<longleftrightarrow> 2 \<le> unat (counter (acc_get sys w))"
    and "b \<longleftrightarrow> even (counter (acc_get sys w))" and "2 * n + 2 < 2 ^ 64" and "b \<Longrightarrow> 2 * n + 3 < 2 ^ 64"
proof -
  have e: "even (unat c) \<longleftrightarrow> even c" for c :: u64 using odd_unat_iff [of c] by blast
  show "b \<longleftrightarrow> even (counter (acc_get sys w))" using assms e by (simp add: eventfd_shows_def Let_def)
  have "2 \<le> c \<or> odd c \<longleftrightarrow> c \<noteq> 0" for c :: nat by presburger
  with assms show "p \<or> \<not> b \<longleftrightarrow> counter (acc_get sys w) \<noteq> 0"
    by (simp add: eventfd_shows_def Let_def unat_gt_0)
qed (use assms in \<open>auto simp: eventfd_shows_def Let_def split: if_splits\<close>)

lemma eventfd_simulation:
  assumes "eventfd_contract E fd counter" and "access_ok sys" and "gn_file src = Some fd" and "gn_token src = Some t"
  shows "ping_simulation (eventfd_impl E sys fd counter src rd t) (eventfd_shows counter sys)"
proof -
  have K: "eventfd_kernel E sys fd counter (\<lambda>_. ())" using assms(1,2) by unfold_locales auto
  show ?thesis
  proof (unfold_locales, goal_cases)
    case (1 n w p)
    then have "unat (counter (acc_get sys w)) + 2 * n + 5 < 2 ^ 64" "even (unat (counter (acc_get sys w)))"
      by (simp_all add: eventfd_shows_def Let_def)
    then show ?case
      by (simp add: eventfd_shows_def eventfd_impl_def eventfd_kernel.ping_effect(2) [OF K] unat_word_ariths Let_def)
  next
    case (2 n w p)
    then have "unat (counter (acc_get sys w)) + 2 * n + 3 < 2 ^ 64" "even (unat (counter (acc_get sys w)))"
        "p \<longleftrightarrow> 2 \<le> unat (counter (acc_get sys w))"
      by (simp_all add: eventfd_shows_def Let_def)
    moreover from this(2) have "2 \<le> unat (counter (acc_get sys w)) + 1 \<longleftrightarrow> 2 \<le> unat (counter (acc_get sys w))" by presburger
    ultimately show ?case
      by (simp add: eventfd_shows_def eventfd_impl_def eventfd_kernel.drop_effect(2) [OF K] unat_word_ariths Let_def)
  next
    case (3 n w p b m)
    then show ?case by (auto simp: eventfd_shows_def Let_def)
  next
    case (4 n w p b)
    then show ?case by (simp add: eventfd_impl_def eventfd_showsD(1))
  next
    case (5 n w p b cb)
    note c = eventfd_showsD [OF 5(1)]
    from eventfd_kernel.process_effect [OF K assms(3,4), where w = w and rd = rd and cb = cb and c = 0] obtain w1 where
      w1: "counter (acc_get sys w1) = 0" "eventfd_process E sys src rd t cb 0 w =
        (if counter (acc_get sys w) = 0 then (Err (PingError (BIo WouldBlock)), src, 0, w1)
         else (Ok (if odd (counter (acc_get sys w)) then Remove else Continue), src,
               if 2 \<le> unat (counter (acc_get sys w)) then cb 0 w1 else (0, w1)))" by blast
    have "eventfd_process E sys src rd t cb 0 w = (Ok (if b then Continue else Remove), src, if p then cb 0 w1 else (0, w1))"
      using w1(2) c(1-3) 5(2) by simp
    then have "pi_process (eventfd_impl E sys fd counter src rd t) cb w =
        (let cw = (if p then cb 0 w1 else (0, w1)) in (Ok (if b then Continue else Remove), fst cw, snd cw))"
      by (simp add: eventfd_impl_def Let_def split: prod.split)
    moreover have "b \<longrightarrow> eventfd_shows counter sys n w1 False True"
      using w1(1) c(5) by (simp add: eventfd_shows_def)
    ultimately show ?case by blast
  qed
qed

lemma pipe_simulation:
  assumes "pipe_contract Pi rfd wfd cap bytes closed" and "access_ok sys" and "cap + 32 \<le> 32 * fuel"
    and "gn_file src = Some rfd" and "gn_token src = Some t"
  shows "ping_simulation (pipe_impl Pi sys fuel wfd bytes closed src rd t) (pipe_shows bytes closed sys)"
proof -
  have K: "pipe_kernel Pi sys rfd wfd cap fuel bytes closed (\<lambda>_. ())"
    using assms(1,2,3) by unfold_locales auto
  show ?thesis
  proof (unfold_locales, goal_cases)
    case (1 n w p)
    then show ?case using pipe_contractD(2) [OF assms(1)]
      by (simp add: pipe_shows_def pipe_impl_def pipe_kernel.ping_effect(2,3) [OF K])
  next
    case (2 n w p)
    then show ?case by (simp add: pipe_shows_def pipe_impl_def pipe_kernel.drop_effect(2,3) [OF K])
  next
    case (5 n w p b cb)
    from pipe_kernel.process_effect [OF K assms(4,5), where w = w and rd = rd and cb = cb and c = 0] obtain w1 where
      w1: "bytes (acc_get sys w1) = 0" "closed (acc_get sys w1) = closed (acc_get sys w)"
        "pipe_process Pi sys fuel src rd t cb 0 w = (Ok (if closed (acc_get sys w) then Remove else Continue), src,
           if 0 < bytes (acc_get sys w) then cb 0 w1 else (0, w1))" by blast
    have "pipe_process Pi sys fuel src rd t cb 0 w = (Ok (if b then Continue else Remove), src, if p then cb 0 w1 else (0, w1))"
      using w1(3) 5(1) by (simp add: pipe_shows_def)
    then have "pi_process (pipe_impl Pi sys fuel wfd bytes closed src rd t) cb w =
        (let cw = (if p then cb 0 w1 else (0, w1)) in (Ok (if b then Continue else Remove), fst cw, snd cw))"
      by (simp add: pipe_impl_def Let_def split: prod.split)
    moreover have "b \<longrightarrow> pipe_shows bytes closed sys n w1 False True"
      using w1(1,2) 5(1) by (simp add: pipe_shows_def)
    ultimately show ?case by blast
  qed (simp_all add: pipe_shows_def pipe_impl_def)
qed

interpretation linux_sim: ping_simulation "eventfd_impl EFK first_component fd (\<lambda>k. k fd) (src\<lparr>gn_file := Some fd, gn_token := Some t\<rparr>) rd t"
    "eventfd_shows (\<lambda>k. k fd) first_component" for fd src rd t
  by (rule eventfd_simulation) (simp_all add: EFK_contract)

interpretation unix_sim: ping_simulation "pipe_impl PPK first_component 3 wfd (\<lambda>k. min 64 (fst k)) snd
      (src\<lparr>gn_file := Some rfd, gn_token := Some t\<rparr>) rd t"
    "pipe_shows (\<lambda>k. min 64 (fst k)) snd first_component" for rfd wfd src rd t
  by (rule pipe_simulation [OF PPK_contract [of rfd wfd]]) simp_all

section \<open>Properties\<close>

text \<open>
  C17: the eventfd and the pipe implementation of a ping are equivalent. Over every sequence of
  pings, of the drop of the handle and of events, with callbacks that ping again any number of
  times, both show the program what the reference of two flags shows: the same events, each
  with the same number of callback runs and the same post action. The eventfd needs fewer than
  \<open>2 ^ 63 - 2\<close> pings for that, the pipe any number, also more than it can hold.
\<close>

theorem ping_backends_equivalent:
  assumes "eventfd_contract E fd counter" and "access_ok sys" and "gn_file src = Some fd" and "gn_token src = Some t"
    and "pipe_contract Pi rfd wfd cap bytes closed" and "access_ok sys'" and "cap + 32 \<le> 32 * fuel"
    and "gn_file src' = Some rfd" and "gn_token src' = Some t'"
    and "counter (acc_get sys w) = 0" and "bytes (acc_get sys' w') = 0" and "\<not> closed (acc_get sys' w')"
    and "pings_in ops < 2 ^ 63 - 2"
  shows "impl_run (eventfd_impl E sys fd counter src rd t) True False w ops =
      ref_run \<lparr>pf_pending = False, pf_open = True, pf_gone = False\<rparr> ops \<and>
    impl_run (pipe_impl Pi sys' fuel wfd bytes closed src' rd' t') True False w' ops =
      ref_run \<lparr>pf_pending = False, pf_open = True, pf_gone = False\<rparr> ops"
proof
  have "eventfd_shows counter sys (pings_in ops) w False True"
    using assms(10,13) by (simp add: eventfd_shows_def)
  then show "impl_run (eventfd_impl E sys fd counter src rd t) True False w ops =
      ref_run \<lparr>pf_pending = False, pf_open = True, pf_gone = False\<rparr> ops"
    by (rule ping_simulation.impl_run_ref [OF eventfd_simulation [OF assms(1-4)]])
  have "pipe_shows bytes closed sys' (pings_in ops) w' False True"
    using assms(11,12) by (simp add: pipe_shows_def)
  then show "impl_run (pipe_impl Pi sys' fuel wfd bytes closed src' rd' t') True False w' ops =
      ref_run \<lparr>pf_pending = False, pf_open = True, pf_gone = False\<rparr> ops"
    by (rule ping_simulation.impl_run_ref [OF pipe_simulation [OF assms(5-9)]])
qed

theorem ping_backends_equivalent_witness:
  "impl_run (eventfd_impl EFK first_component 3 (\<lambda>k. k 3)
      ((Generic_new 3 Interest_READ Level)\<lparr>gn_token := Some \<lparr>tok_id = 1, tok_version = 0, tok_sub_id = 0\<rparr>\<rparr>) Readiness_EMPTY
      \<lparr>tok_id = 1, tok_version = 0, tok_sub_id = 0\<rparr>) True False ((\<lambda>_. 0), ())
      [PingPing, PingPing, PingEvent 1, PingEvent 0, PingEvent 0, PingDrop, PingEvent 0, PingEvent 0]
    = [(1, Ok Continue), (1, Ok Continue), (0, Ok Remove)]"
proof -
  let ?t = "\<lparr>tok_id = 1, tok_version = 0, tok_sub_id = 0\<rparr> :: token_inner"
  let ?src = "(Generic_new 3 Interest_READ Level)\<lparr>gn_token := Some ?t\<rparr> :: raw_fd generic"
  have "gn_file ?src = Some 3" "gn_token ?src = Some ?t" by (simp_all add: Generic_new_def)
  from ping_backends_equivalent [OF EFK_contract [of 3] first_component_ok this PPK_contract [of 3 4] first_component_ok _ this,
      of 3 "((\<lambda>_. 0), ())" "((0, False), ())" "[PingPing, PingPing, PingEvent 1, PingEvent 0, PingEvent 0, PingDrop, PingEvent 0, PingEvent 0]"
      Readiness_EMPTY Readiness_EMPTY]
  show ?thesis by (simp add: first_component_def)
qed

end
