(* ===== verification/Ping_Iocp.thy ===== *)
theory Ping_Iocp
  imports Ping_Backend
begin

text \<open>
  \<open>src/src/sources/ping/iocp.rs\<close>, the ping of Windows: a counter shared by the handles and the
  source, and a completion packet posted to the poller. The shared \<open>State\<close> lives in the
  operating system's part \<open>'p\<close> of the world, found by \<open>st\<close>. Pollers are named by numbers, so that
  \<open>Arc::ptr_eq\<close> is equality: \<open>me\<close> is that of the \<open>Poll\<close> a call is given, and \<open>post\<close> is \<open>Poller::post\<close> on
  the poller of that name, for a readable event with the given key. The mutex is not reentrant: taking it while it is held never
  returns. \<open>ic_refs\<close> is \<open>Arc::strong_count\<close>.
\<close>

record iocp_poll_state =
  ip_poller :: nat
  ip_inserted :: bool
  ip_key :: usize

record iocp_state =
  ic_notified :: bool
  ic_poll_state :: "iocp_poll_state option"
  ic_locked :: bool
  ic_refs :: nat

text \<open>\<open>make_ping\<close>: one handle and one source share the new state.\<close>

definition iocp_make_ping :: iocp_state where
  "iocp_make_ping = \<lparr>ic_notified = False, ic_poll_state = None, ic_locked = False, ic_refs = 2\<rparr>"

type_synonym 'p iocp_post = "'p \<Rightarrow> nat \<Rightarrow> usize \<Rightarrow> (io_error + unit) \<times> 'p"

text \<open>\<open>PollState::notify\<close> and \<open>PollState::new\<close>.\<close>

definition iocp_notify :: "'p iocp_post \<Rightarrow> iocp_poll_state \<Rightarrow> 'p \<Rightarrow> (io_error + unit) \<times> iocp_poll_state \<times> 'p" where
  "iocp_notify post ps p =
     (if \<not> ip_inserted ps then
        (case post p (ip_poller ps) (ip_key ps) of
           (Inr _, p') \<Rightarrow> (Inr (), ps\<lparr>ip_inserted := True\<rparr>, p')
         | (Inl e, p') \<Rightarrow> (Inl e, ps, p'))
      else (Inr (), ps, p))"

definition iocp_PollState_new :: "'p iocp_post \<Rightarrow> nat \<Rightarrow> usize \<Rightarrow> bool \<Rightarrow> 'p \<Rightarrow> (io_error + iocp_poll_state) \<times> 'p" where
  "iocp_PollState_new post me key notified p =
     (let ps = \<lparr>ip_poller = me, ip_inserted = False, ip_key = key\<rparr> in
      if notified then
        (case iocp_notify post ps p of
           (Inr _, ps', p') \<Rightarrow> (Inr ps', p')
         | (Inl e, ps', p') \<Rightarrow> (Inl e, p'))
      else (Inr ps, p))"

definition iocp_set_poll_state :: "('p, iocp_state) access \<Rightarrow> iocp_poll_state option \<Rightarrow> 'p \<Rightarrow> 'p" where
  "iocp_set_poll_state st ps p = acc_put st ((acc_get st p)\<lparr>ic_poll_state := ps\<rparr>) p"

text \<open>\<open>Ping::ping\<close> and the drop of a handle; a failed post is only logged.\<close>

definition iocp_ping :: "'p iocp_post \<Rightarrow> ('p, iocp_state) access \<Rightarrow> 'p \<Rightarrow> (unit, unit) outcome \<times> 'p" where
  "iocp_ping post st p =
     (if ic_locked (acc_get st p) then (Diverge, p)
      else
        (let p1 = acc_put st ((acc_get st p)\<lparr>ic_notified := True\<rparr>) p in
         case ic_poll_state (acc_get st p1) of
           None \<Rightarrow> (Ok (), p1)
         | Some ps \<Rightarrow>
             (case iocp_notify post ps p1 of (_, ps', p2) \<Rightarrow> (Ok (), iocp_set_poll_state st (Some ps') p2))))"

definition iocp_handle_drop :: "'p iocp_post \<Rightarrow> ('p, iocp_state) access \<Rightarrow> 'p \<Rightarrow> (unit, unit) outcome \<times> 'p" where
  "iocp_handle_drop post st p =
     (let release = (\<lambda>q. acc_put st ((acc_get st q)\<lparr>ic_refs := ic_refs (acc_get st q) - 1\<rparr>) q) in
      if ic_refs (acc_get st p) \<le> 2 then
        (if ic_locked (acc_get st p) then (Diverge, p)
         else case ic_poll_state (acc_get st p) of
                None \<Rightarrow> (Ok (), release p)
              | Some ps \<Rightarrow>
                  (case iocp_notify post ps p of (_, ps', p') \<Rightarrow> (Ok (), release (iocp_set_poll_state st (Some ps') p'))))
      else (Ok (), release p))"

section \<open>EventSource\<close>

text \<open>
  \<open>process_events\<close>: the lock is held from the first line to the return, the callback included.
  \<open>w\<close> is the world, whose operating system \<open>sys\<close> finds.
\<close>

definition iocp_process :: "('w, 'p) access \<Rightarrow> ('p, iocp_state) access \<Rightarrow> (unit, 'c, 'w) ping_process" where
  "iocp_process sys st src rd token callback c w =
     (let get = (\<lambda>w. acc_get st (acc_get sys w));
          put = (\<lambda>s w. acc_put sys (acc_put st s (acc_get sys w)) w);
          unlock = (\<lambda>w. put ((get w)\<lparr>ic_locked := False\<rparr>) w)
      in if ic_locked (get w) then (Diverge, src, c, w)
      else case ic_poll_state (get w) of
             None \<Rightarrow> (Ok Disable, src, c, w)
           | Some ps \<Rightarrow>
               (let w1 = put ((get w)\<lparr>ic_locked := True, ic_poll_state := Some (ps\<lparr>ip_inserted := False\<rparr>)\<rparr>) w in
                if ip_key ps \<noteq> usize_of_token token then (Ok Continue, src, c, unlock w1)
                else
                  (case (if ic_notified (get w1) then callback c (put ((get w1)\<lparr>ic_notified := False\<rparr>) w1) else (c, w1)) of
                     (c', w2) \<Rightarrow> (Ok (if ic_refs (get w2) \<le> 1 then Remove else Continue), src, c', unlock w2))))"

definition iocp_register :: "'p iocp_post \<Rightarrow> nat \<Rightarrow> ('p, iocp_state) access \<Rightarrow> (unit, 'p) register_op" where
  "iocp_register post me st src P tf =
     (case factory_token tf of
        (Ok token, tf') \<Rightarrow>
          (let s = acc_get st (poller P) in
           if ic_locked s then (Diverge, src, P, tf')
           else if ic_poll_state s \<noteq> None then (Err (error_from_io AlreadyExists), src, P, tf')
           else
             (case iocp_PollState_new post me (usize_of_token token) (ic_notified s) (poller P) of
                (Inl e, p) \<Rightarrow> (Err (error_from_io e), src, P\<lparr>poller := p\<rparr>, tf')
              | (Inr ps, p) \<Rightarrow> (Ok (), src, P\<lparr>poller := iocp_set_poll_state st (Some ps) p\<rparr>, tf')))
      | (_, tf') \<Rightarrow> (Panic, src, P, tf'))"

definition iocp_reregister :: "'p iocp_post \<Rightarrow> nat \<Rightarrow> ('p, iocp_state) access \<Rightarrow> (unit, 'p) register_op" where
  "iocp_reregister post me st src P tf =
     (case factory_token tf of
        (Ok token, tf') \<Rightarrow>
          (let s = acc_get st (poller P) in
           if ic_locked s then (Diverge, src, P, tf')
           else case ic_poll_state s of
                  None \<Rightarrow> (Err (error_from_io NotFound), src, P, tf')
                | Some ps \<Rightarrow>
                    if ip_poller ps \<noteq> me then (Err (error_from_io NotFound), src, P, tf')
                    else if usize_of_token token \<noteq> ip_key ps then
                      (if ip_inserted ps then
                         (case iocp_notify post (ps\<lparr>ip_inserted := False, ip_key := usize_of_token token\<rparr>) (poller P) of
                            (Inr _, ps', p) \<Rightarrow> (Ok (), src, P\<lparr>poller := iocp_set_poll_state st (Some ps') p\<rparr>, tf')
                          | (Inl e, ps', p) \<Rightarrow>
                              (Err (error_from_io e), src, P\<lparr>poller := iocp_set_poll_state st (Some ps') p\<rparr>, tf'))
                       else
                         (Ok (), src,
                          P\<lparr>poller := iocp_set_poll_state st (Some (ps\<lparr>ip_key := usize_of_token token\<rparr>)) (poller P)\<rparr>, tf'))
                    else (Ok (), src, P, tf'))
      | (_, tf') \<Rightarrow> (Panic, src, P, tf'))"

definition iocp_unregister :: "('p, iocp_state) access \<Rightarrow> (unit, 'p) unregister_op" where
  "iocp_unregister st src P =
     (if ic_locked (acc_get st (poller P)) then (Diverge, src, P)
      else (Ok (), src, P\<lparr>poller := iocp_set_poll_state st None (poller P)\<rparr>))"

lemmas iocp_defs [source_defs] = iocp_process_def iocp_register_def iocp_reregister_def iocp_unregister_def
  iocp_ping_def iocp_notify_def iocp_PollState_new_def iocp_set_poll_state_def

section \<open>What posting promises\<close>

text \<open>
  \<open>queued\<close> are the packets that wait, with the poller and the key of each, and \<open>failed\<close> counts the
  posts that have failed: a post either adds its packet or fails and adds nothing.
\<close>

definition post_contract :: "'p iocp_post \<Rightarrow> ('p, iocp_state) access \<Rightarrow> ('p \<Rightarrow> (nat \<times> usize) multiset) \<Rightarrow> ('p \<Rightarrow> nat) \<Rightarrow> bool" where
  "post_contract post st queued failed \<longleftrightarrow> access_ok st \<and>
     (\<forall>p s. queued (acc_put st s p) = queued p \<and> failed (acc_put st s p) = failed p) \<and>
     (\<forall>p i k. acc_get st (snd (post p i k)) = acc_get st p \<and>
        (if fst (post p i k) = Inr () then queued (snd (post p i k)) = add_mset (i, k) (queued p) \<and> failed (snd (post p i k)) = failed p
         else queued (snd (post p i k)) = queued p \<and> failed (snd (post p i k)) = failed p + 1))"

lemma post_contractD:
  assumes "post_contract post st queued failed"
  shows "access_ok st" "queued (acc_put st s p) = queued p" "failed (acc_put st s p) = failed p"
    "post p i k = (r, p') \<Longrightarrow> acc_get st p' = acc_get st p \<and>
      (if r = Inr () then queued p' = add_mset (i, k) (queued p) \<and> failed p' = failed p
       else queued p' = queued p \<and> failed p' = failed p + 1)"
proof -
  show "access_ok st" "queued (acc_put st s p) = queued p" "failed (acc_put st s p) = failed p"
    using assms by (simp_all add: post_contract_def)
  assume "post p i k = (r, p')"
  then show "acc_get st p' = acc_get st p \<and> (if r = Inr () then queued p' = add_mset (i, k) (queued p) \<and> failed p' = failed p
       else queued p' = queued p \<and> failed p' = failed p + 1)"
    using assms [unfolded post_contract_def, THEN conjunct2, THEN conjunct2, THEN spec, THEN spec, THEN spec, of p i k] by (auto split: if_splits)
qed

section \<open>Everything that can happen\<close>

text \<open>
  The calls on one ping: pings, clones and drops of its handles (\<open>is_refs\<close> changes their number), registration, re-registration by any poller, and
  unregistration with any result, an event of the source, which takes a packet from its poller, and anything else, which may
  queue packets and take those that are not the source's. The callback does not use the ping. \<open>stale\<close> says
  whether the source may get an event of a packet that was posted before its key was changed.
\<close>

definition iocp_others :: "('w, 'p) access \<Rightarrow> ('p, iocp_state) access \<Rightarrow> ('p \<Rightarrow> (nat \<times> usize) multiset) \<Rightarrow> ('p \<Rightarrow> nat) \<Rightarrow> 'w \<Rightarrow> 'w \<Rightarrow> bool" where
  "iocp_others sys st queued failed w w' \<longleftrightarrow>
     acc_get st (acc_get sys w') = acc_get st (acc_get sys w) \<and> failed (acc_get sys w) \<le> failed (acc_get sys w') \<and>
     (\<forall>ps. ic_poll_state (acc_get st (acc_get sys w)) = Some ps \<longrightarrow>
        count (queued (acc_get sys w)) (ip_poller ps, ip_key ps) \<le> count (queued (acc_get sys w')) (ip_poller ps, ip_key ps))"

inductive iocp_step :: "'p iocp_post \<Rightarrow> ('w, 'p) access \<Rightarrow> ('p, iocp_state) access \<Rightarrow> ('p \<Rightarrow> (nat \<times> usize) multiset) \<Rightarrow> ('p \<Rightarrow> nat) \<Rightarrow> bool
    \<Rightarrow> 'w \<Rightarrow> 'w \<Rightarrow> bool"
  for post sys st queued failed stale where
  is_ping: "iocp_ping post st (acc_get sys w) = (r, p) \<Longrightarrow> iocp_step post sys st queued failed stale w (acc_put sys p w)"
| is_drop: "iocp_handle_drop post st (acc_get sys w) = (r, p) \<Longrightarrow> iocp_step post sys st queued failed stale w (acc_put sys p w)"
| is_refs: "p = acc_get sys w \<Longrightarrow> iocp_step post sys st queued failed stale w
    (acc_put sys (acc_put st ((acc_get st p)\<lparr>ic_refs := n\<rparr>) p) w)"
| is_register: "poller P = acc_get sys w \<Longrightarrow> iocp_register post me st src P tf = (r, src', P', tf') \<Longrightarrow>
    iocp_step post sys st queued failed stale w (acc_put sys (poller P') w)"
| is_reregister: "poller P = acc_get sys w \<Longrightarrow> iocp_reregister post me st src P tf = (r, src', P', tf') \<Longrightarrow>
    iocp_step post sys st queued failed stale w (acc_put sys (poller P') w)"
| is_unregister: "poller P = acc_get sys w \<Longrightarrow> iocp_unregister st src P = (r, src', P') \<Longrightarrow>
    iocp_step post sys st queued failed stale w (acc_put sys (poller P') w)"
| is_event: "acc_get st p = acc_get st (acc_get sys w) \<Longrightarrow> failed p = failed (acc_get sys w) \<Longrightarrow>
    queued (acc_get sys w) = add_mset (me, usize_of_token token) (queued p) \<Longrightarrow>
    (\<And>ps. ic_poll_state (acc_get st p) = Some ps \<Longrightarrow> ip_poller ps = me \<and> (stale \<or> ip_key ps = usize_of_token token)) \<Longrightarrow>
    (\<And>c w1. iocp_others sys st queued failed w1 (snd (cb c w1))) \<Longrightarrow>
    iocp_process sys st src rd token (cb :: unit \<Rightarrow> 'w \<Rightarrow> unit \<times> 'w) c (acc_put sys p w) = (r, src', c', w') \<Longrightarrow> iocp_step post sys st queued failed stale w w'"
| is_other: "iocp_others sys st queued failed w w' \<Longrightarrow> iocp_step post sys st queued failed stale w w'"

section \<open>No ping is lost\<close>

text \<open>
  \<open>iocp_inv\<close> always holds: a source that counts as inserted has a packet under its current key.
  \<open>iocp_pending\<close> holds unless a post has failed: a source with a ping to report is inserted.
\<close>

definition iocp_queued :: "('p \<Rightarrow> (nat \<times> usize) multiset) \<Rightarrow> iocp_poll_state \<Rightarrow> 'p \<Rightarrow> bool" where
  "iocp_queued queued ps p \<longleftrightarrow> (ip_poller ps, ip_key ps) \<in># queued p"

definition iocp_inv :: "('p, iocp_state) access \<Rightarrow> ('p \<Rightarrow> (nat \<times> usize) multiset) \<Rightarrow> 'p \<Rightarrow> bool" where
  "iocp_inv st queued p \<longleftrightarrow> \<not> ic_locked (acc_get st p) \<and>
     (\<forall>ps. ic_poll_state (acc_get st p) = Some ps \<longrightarrow> ip_inserted ps \<longrightarrow> iocp_queued queued ps p)"

definition iocp_pending :: "('p, iocp_state) access \<Rightarrow> 'p \<Rightarrow> bool" where
  "iocp_pending st p \<longleftrightarrow>
     (\<forall>ps. ic_poll_state (acc_get st p) = Some ps \<longrightarrow> ic_notified (acc_get st p) \<longrightarrow> ip_inserted ps)"

lemma iocp_notify_effect:
  assumes "post_contract post st queued failed" and "iocp_notify post ps p = (r, ps', p')"
    and "ip_inserted ps \<longrightarrow> iocp_queued queued ps p"
  shows "acc_get st p' = acc_get st p" "failed p \<le> failed p'" "ip_poller ps' = ip_poller ps" "ip_key ps' = ip_key ps"
    "ip_inserted ps' \<longrightarrow> iocp_queued queued ps' p'" "failed p' = failed p \<Longrightarrow> ip_inserted ps'"
    "iocp_queued queued x p \<Longrightarrow> iocp_queued queued x p'" "r = Inr () \<longleftrightarrow> failed p' = failed p"
  using assms(2,3) post_contractD(4) [OF assms(1), of p "ip_poller ps" "ip_key ps"]
  by (auto simp: iocp_notify_def iocp_queued_def split: if_splits prod.splits sum.splits)

lemma iocp_ping_effect:
  assumes C: "post_contract post st queued failed" and inv: "iocp_inv st queued p" and "iocp_ping post st p = (r, p')"
  shows "r = Ok () \<and> iocp_inv st queued p' \<and> failed p \<le> failed p' \<and> ic_notified (acc_get st p') \<and>
    (failed p' = failed p \<longrightarrow> iocp_pending st p')"
proof -
  note ok = access_ok_simps [OF post_contractD(1) [OF C]] and q = post_contractD(2,3) [OF C]
  let ?p1 = "acc_put st ((acc_get st p)\<lparr>ic_notified := True\<rparr>) p"
  show ?thesis
  proof (cases "ic_poll_state (acc_get st p)")
    case None
    with assms(2,3) show ?thesis by (auto simp: iocp_ping_def iocp_inv_def iocp_pending_def ok q)
  next
    case (Some ps)
    obtain e ps' p2 where n: "iocp_notify post ps ?p1 = (e, ps', p2)" by (metis prod_cases3)
    have "ip_inserted ps \<longrightarrow> iocp_queued queued ps ?p1" using inv Some by (simp add: iocp_inv_def iocp_queued_def q)
    from iocp_notify_effect [OF C n this] assms(2,3) Some n show ?thesis
      by (auto simp: iocp_ping_def iocp_inv_def iocp_pending_def iocp_set_poll_state_def iocp_queued_def ok q)
  qed
qed

text \<open>What each of the other calls keeps.\<close>

definition iocp_keeps :: "('p, iocp_state) access \<Rightarrow> ('p \<Rightarrow> (nat \<times> usize) multiset) \<Rightarrow> ('p \<Rightarrow> nat) \<Rightarrow> bool \<Rightarrow> 'p \<Rightarrow> 'p \<Rightarrow> bool" where
  "iocp_keeps st queued failed stale p p' \<longleftrightarrow> iocp_inv st queued p' \<and> failed p \<le> failed p' \<and>
     (\<not> stale \<longrightarrow> failed p' = failed p \<longrightarrow> iocp_pending st p \<longrightarrow> iocp_pending st p')"

lemma iocp_drop_effect:
  assumes C: "post_contract post st queued failed" and inv: "iocp_inv st queued p" and "iocp_handle_drop post st p = (r, p')"
  shows "iocp_keeps st queued failed stale p p'"
proof -
  note ok = access_ok_simps [OF post_contractD(1) [OF C]] and q = post_contractD(2,3) [OF C]
  show ?thesis
  proof (cases "ic_refs (acc_get st p) \<le> 2 \<and> ic_poll_state (acc_get st p) \<noteq> None")
    case False
    with assms(2,3) show ?thesis
      by (auto simp: iocp_handle_drop_def iocp_keeps_def iocp_inv_def iocp_pending_def iocp_queued_def Let_def ok q split: if_splits)
  next
    case True
    then obtain ps where ps: "ic_poll_state (acc_get st p) = Some ps" by blast
    obtain e ps' p2 where n: "iocp_notify post ps p = (e, ps', p2)" by (metis prod_cases3)
    have "ip_inserted ps \<longrightarrow> iocp_queued queued ps p" using inv ps by (simp add: iocp_inv_def)
    from iocp_notify_effect [OF C n this] assms(2,3) True ps n show ?thesis
      by (auto simp: iocp_handle_drop_def iocp_keeps_def iocp_inv_def iocp_pending_def iocp_set_poll_state_def iocp_queued_def Let_def ok q)
  qed
qed

lemma iocp_register_effect:
  assumes C: "post_contract post st queued failed" and inv: "iocp_inv st queued (poller P)"
    and run: "iocp_register post me st src P tf = (r, src', P', tf')"
  shows "iocp_keeps st queued failed stale (poller P) (poller P')"
proof -
  note ok = access_ok_simps [OF post_contractD(1) [OF C]] and q = post_contractD(2,3) [OF C]
  let ?s = "acc_get st (poller P)"
  have free: "\<not> ic_locked ?s" using inv by (simp add: iocp_inv_def)
  show ?thesis
  proof (cases "ic_poll_state ?s = None \<and> (\<exists>t f. factory_token tf = (Ok t, f))")
    case False
    with run free inv show ?thesis
      by (auto simp: iocp_register_def iocp_keeps_def Let_def split: prod.splits outcome.splits if_splits)
  next
    case True
    then obtain t f where t: "factory_token tf = (Ok t, f)" by blast
    let ?ps = "\<lparr>ip_poller = me, ip_inserted = False, ip_key = usize_of_token t\<rparr>"
    obtain e ps' p2 where n: "iocp_notify post ?ps (poller P) = (e, ps', p2)" by (metis prod_cases3)
    show ?thesis
    proof (cases e)
      case (Inl x)
      with run free inv t True n iocp_notify_effect [OF C n] show ?thesis
        by (auto simp: iocp_register_def iocp_PollState_new_def iocp_keeps_def iocp_inv_def iocp_pending_def
            iocp_set_poll_state_def iocp_queued_def Let_def ok q split: if_splits)
    next
      case (Inr u)
      with run free inv t True n iocp_notify_effect [OF C n] show ?thesis
        by (auto simp: iocp_register_def iocp_PollState_new_def iocp_keeps_def iocp_inv_def iocp_pending_def
            iocp_set_poll_state_def iocp_queued_def Let_def ok q split: if_splits)
    qed
  qed
qed

lemma iocp_reregister_effect:
  assumes C: "post_contract post st queued failed" and inv: "iocp_inv st queued (poller P)"
    and run: "iocp_reregister post me st src P tf = (r, src', P', tf')"
  shows "iocp_keeps st queued failed stale (poller P) (poller P')"
proof -
  note ok = access_ok_simps [OF post_contractD(1) [OF C]] and q = post_contractD(2,3) [OF C]
  let ?s = "acc_get st (poller P)"
  have free: "\<not> ic_locked ?s" using inv by (simp add: iocp_inv_def)
  have kept: "iocp_keeps st queued failed stale (poller P) (poller P)" using inv by (simp add: iocp_keeps_def)
  show ?thesis
  proof (cases "\<exists>ps t f. ic_poll_state ?s = Some ps \<and> factory_token tf = (Ok t, f) \<and> ip_poller ps = me \<and> usize_of_token t \<noteq> ip_key ps")
    case False
    then have "P' = P" using run free by (auto simp: iocp_reregister_def Let_def split: prod.splits outcome.splits option.splits if_splits)
    with kept show ?thesis by simp
  next
    case True
    then obtain ps t f where t: "ic_poll_state ?s = Some ps" "factory_token tf = (Ok t, f)" "ip_poller ps = me" "usize_of_token t \<noteq> ip_key ps"
      by blast
    let ?ps = "ps\<lparr>ip_inserted := False, ip_key := usize_of_token t\<rparr>"
    obtain e ps' p2 where n: "iocp_notify post ?ps (poller P) = (e, ps', p2)" by (metis prod_cases3)
    show ?thesis
    proof (cases "ip_inserted ps")
      case True
      with run free inv t n iocp_notify_effect [OF C n] show ?thesis
        by (cases e) (auto simp: iocp_reregister_def iocp_keeps_def iocp_inv_def iocp_pending_def iocp_set_poll_state_def iocp_queued_def Let_def ok q)
    next
      case False
      with run free inv t show ?thesis
        by (auto simp: iocp_reregister_def iocp_keeps_def iocp_inv_def iocp_pending_def iocp_set_poll_state_def iocp_queued_def Let_def ok q)
    qed
  qed
qed

lemma iocp_event_effect:
  assumes C: "post_contract post st queued failed" and sys: "access_ok sys" and inv: "iocp_inv st queued (acc_get sys w)"
    and p: "acc_get st p = acc_get st (acc_get sys w)" "failed p = failed (acc_get sys w)"
      "queued (acc_get sys w) = add_mset (me, usize_of_token token) (queued p)"
    and me: "\<And>ps. ic_poll_state (acc_get st p) = Some ps \<Longrightarrow> ip_poller ps = me \<and> (stale \<or> ip_key ps = usize_of_token token)"
    and cb: "\<And>c w1. iocp_others sys st queued failed w1 (snd (cb c w1))"
    and run: "iocp_process sys st src rd token cb c (acc_put sys p w) = (r, src', c', w')"
  shows "iocp_inv st queued (acc_get sys w') \<and> failed (acc_get sys w) \<le> failed (acc_get sys w') \<and>
    (\<not> stale \<longrightarrow> iocp_pending st (acc_get sys w) \<longrightarrow> iocp_pending st (acc_get sys w'))"
proof -
  note ok = access_ok_simps [OF post_contractD(1) [OF C]] access_ok_simps [OF sys] and q = post_contractD(2,3) [OF C]
  let ?s = "acc_get st p"
  have free: "\<not> ic_locked ?s" using inv p(1) by (simp add: iocp_inv_def)
  show ?thesis
  proof (cases "ic_poll_state ?s")
    case None
    with run free inv p show ?thesis
      by (auto simp: iocp_process_def Let_def ok iocp_inv_def iocp_pending_def)
  next
    case (Some ps)
    let ?s1 = "?s\<lparr>ic_locked := True, ic_poll_state := Some (ps\<lparr>ip_inserted := False\<rparr>)\<rparr>"
    have kept: "iocp_queued queued ps p" if "ip_key ps \<noteq> usize_of_token token" "iocp_queued queued ps (acc_get sys w)"
      using that me [OF Some] p(3) by (auto simp: iocp_queued_def)
    show ?thesis
    proof (cases "ip_key ps = usize_of_token token")
      case False
      with run free Some have "w' = acc_put sys (acc_put st (?s1\<lparr>ic_locked := False\<rparr>) p) w"
        by (auto simp: iocp_process_def Let_def ok)
      with False Some inv p kept me [OF Some] show ?thesis by (auto simp: iocp_inv_def iocp_pending_def iocp_queued_def ok q)
    next
      case True
      let ?w1 = "acc_put sys (acc_put st (if ic_notified ?s then ?s1\<lparr>ic_notified := False\<rparr> else ?s1) p) w"
      let ?w2 = "if ic_notified ?s then snd (cb c ?w1) else ?w1"
      have w': "w' = acc_put sys (acc_put st ((acc_get st (acc_get sys ?w2))\<lparr>ic_locked := False\<rparr>) (acc_get sys ?w2)) ?w2"
        using run free Some True by (auto simp: iocp_process_def Let_def ok split: prod.splits if_splits)
      have s2: "acc_get st (acc_get sys ?w2) = (if ic_notified ?s then ?s1\<lparr>ic_notified := False\<rparr> else ?s1)"
          "failed (acc_get sys w) \<le> failed (acc_get sys ?w2)"
        using cb [of ?w1 c] p(2) by (auto simp: iocp_others_def ok q)
      then show ?thesis by (auto simp: w' ok q iocp_inv_def iocp_pending_def split: if_splits)
    qed
  qed
qed

lemma iocp_step_effect:
  assumes C: "post_contract post st queued failed" and sys: "access_ok sys" and inv: "iocp_inv st queued (acc_get sys w)"
    and step: "iocp_step post sys st queued failed stale w w'"
  shows "iocp_keeps st queued failed stale (acc_get sys w) (acc_get sys w')"
proof -
  note ok = access_ok_simps [OF post_contractD(1) [OF C]] access_ok_simps [OF sys] and q = post_contractD(2,3) [OF C]
  show ?thesis
    using step
  proof cases
    case (is_ping r p)
    from iocp_ping_effect [OF C inv this(2)] is_ping(1) show ?thesis by (simp add: ok iocp_keeps_def)
  next
    case (is_drop r p)
    from iocp_drop_effect [OF C inv this(2)] is_drop(1) show ?thesis by (simp add: ok)
  next
    case (is_refs p n)
    with inv show ?thesis by (auto simp: iocp_keeps_def iocp_inv_def iocp_pending_def iocp_queued_def ok q)
  next
    case (is_register P me src tf r src' P' tf')
    from iocp_register_effect [OF C _ this(3), unfolded is_register(2), OF inv] is_register(1) show ?thesis by (simp add: ok)
  next
    case (is_reregister P me src tf r src' P' tf')
    from iocp_reregister_effect [OF C _ this(3), unfolded is_reregister(2), OF inv] is_reregister(1) show ?thesis by (simp add: ok)
  next
    case (is_unregister P src r src' P')
    with inv show ?thesis
      by (auto simp: iocp_unregister_def iocp_keeps_def iocp_inv_def iocp_pending_def iocp_set_poll_state_def ok q split: if_splits)
  next
    case (is_event p me token cb src rd c r src' c')
    from iocp_event_effect [OF C sys inv this] show ?thesis by (simp add: iocp_keeps_def)
  next
    case is_other
    with inv show ?thesis by (fastforce simp: iocp_others_def iocp_keeps_def iocp_inv_def iocp_pending_def iocp_queued_def count_greater_zero_iff [symmetric] simp del: count_greater_zero_iff)
  qed
qed

lemma iocp_run_effect:
  assumes C: "post_contract post st queued failed" and sys: "access_ok sys" and "(iocp_step post sys st queued failed stale)\<^sup>*\<^sup>* w w'"
    and "iocp_inv st queued (acc_get sys w)"
  shows "iocp_keeps st queued failed stale (acc_get sys w) (acc_get sys w')"
  using assms(3)
proof (induction rule: rtranclp_induct)
  case base
  with assms(4) show ?case by (simp add: iocp_keeps_def)
next
  case (step x y)
  with iocp_step_effect [OF C sys _ step(2)] show ?case by (auto simp: iocp_keeps_def)
qed

text \<open>An event of the current key answers a ping.\<close>

lemma iocp_event_answers:
  assumes C: "post_contract post st queued failed" and sys: "access_ok sys" and inv: "iocp_inv st queued (acc_get sys w)"
    and "ic_poll_state (acc_get st (acc_get sys w)) = Some ps" and "ic_notified (acc_get st (acc_get sys w))"
    and "ip_key ps = usize_of_token token"
  shows "\<exists>act w1. \<not> ic_notified (acc_get st (acc_get sys w1)) \<and>
    iocp_process sys st src rd token cb c w = (Ok act, src, fst (cb c w1),
      (let p = acc_get sys (snd (cb c w1)) in acc_put sys (acc_put st ((acc_get st p)\<lparr>ic_locked := False\<rparr>) p) (snd (cb c w1))))"
proof -
  note ok = access_ok_simps [OF post_contractD(1) [OF C]] access_ok_simps [OF sys]
  let ?p1 = "acc_put st ((acc_get st (acc_get sys w))\<lparr>ic_locked := True, ic_poll_state := Some (ps\<lparr>ip_inserted := False\<rparr>),
      ic_notified := False\<rparr>) (acc_get sys w)"
  let ?w1 = "acc_put sys ?p1 w"
  obtain c' w2 where "cb c ?w1 = (c', w2)" by force
  with assms(4-6) inv show ?thesis
    by (intro exI [of _ "if ic_refs (acc_get st (acc_get sys w2)) \<le> 1 then Remove else Continue"] exI [where x = ?w1])
      (simp add: iocp_process_def Let_def ok iocp_inv_def)
qed

text \<open>
  C18: no ping is lost as long as posting works. Take any sequence of pings, drops of handles, registrations,
  re-registrations by any poller, unregistrations and events of a new ping, each with any result, and of things
  other sources do. A ping whose post does not fail leaves the source notified and, if it is registered, a packet under its current key in
  its poller, whatever failed before. If no post has failed, and no event of a key the source no longer has reached
  it, then a registered source with a ping to report has such a packet at any moment.
  The event of that packet takes the ping and calls the callback, once.
\<close>

theorem iocp_ping_not_lost:
  assumes "post_contract post st queued failed" and "access_ok sys" and "acc_get st (acc_get sys w0) = iocp_make_ping"
    and "(iocp_step post sys st queued failed stale)\<^sup>*\<^sup>* w0 w" and "p = acc_get sys w"
  shows "(\<forall>r p'. iocp_ping post st p = (r, p') \<longrightarrow> r = Ok () \<and> ic_notified (acc_get st p') \<and>
      (failed p' = failed p \<longrightarrow> (\<forall>ps. ic_poll_state (acc_get st p') = Some ps \<longrightarrow> (ip_poller ps, ip_key ps) \<in># queued p'))) \<and>
    (\<not> stale \<and> failed p = failed (acc_get sys w0) \<longrightarrow>
      (\<forall>ps. ic_poll_state (acc_get st p) = Some ps \<and> ic_notified (acc_get st p) \<longrightarrow> (ip_poller ps, ip_key ps) \<in># queued p)) \<and>
    (\<forall>ps rd token cb c. ic_poll_state (acc_get st p) = Some ps \<and> ic_notified (acc_get st p) \<and> ip_key ps = usize_of_token token \<longrightarrow>
      (\<exists>act w1. \<not> ic_notified (acc_get st (acc_get sys w1)) \<and>
        iocp_process sys st () rd token cb c w = (Ok act, (), fst (cb c w1),
          (let p = acc_get sys (snd (cb c w1)) in acc_put sys (acc_put st ((acc_get st p)\<lparr>ic_locked := False\<rparr>) p) (snd (cb c w1))))))"
proof -
  have "iocp_inv st queued (acc_get sys w0)" "iocp_pending st (acc_get sys w0)"
    by (simp_all add: assms(3) iocp_inv_def iocp_pending_def iocp_make_ping_def)
  with iocp_run_effect [OF assms(1,2,4)] have run: "iocp_inv st queued p"
    "\<not> stale \<Longrightarrow> failed p = failed (acc_get sys w0) \<Longrightarrow> iocp_pending st p"
    by (auto simp: iocp_keeps_def assms(5))
  show ?thesis
  proof (intro conjI)
    show "\<forall>r p'. iocp_ping post st p = (r, p') \<longrightarrow> r = Ok () \<and> ic_notified (acc_get st p') \<and>
      (failed p' = failed p \<longrightarrow> (\<forall>ps. ic_poll_state (acc_get st p') = Some ps \<longrightarrow> (ip_poller ps, ip_key ps) \<in># queued p'))"
      using iocp_ping_effect [OF assms(1) run(1)] by (auto simp: iocp_inv_def iocp_pending_def iocp_queued_def)
    show "\<not> stale \<and> failed p = failed (acc_get sys w0) \<longrightarrow>
      (\<forall>ps. ic_poll_state (acc_get st p) = Some ps \<and> ic_notified (acc_get st p) \<longrightarrow> (ip_poller ps, ip_key ps) \<in># queued p)"
      using run by (auto simp: iocp_inv_def iocp_pending_def iocp_queued_def)
  qed (intro allI impI, elim conjE, rule iocp_event_answers [OF assms(1,2) run(1) [unfolded assms(5)]], simp_all add: assms(5))
qed

text \<open>A reference poller for the witness: the posted keys and the shared state; no post fails.\<close>

definition queue_post :: "((nat \<times> usize) list \<times> iocp_state) iocp_post" where
  "queue_post p i k = (Inr (), ((i, k) # fst p, snd p))"

definition queue_state :: "((nat \<times> usize) list \<times> iocp_state, iocp_state) access" where
  "queue_state = \<lparr>acc_get = snd, acc_put = (\<lambda>s p. (fst p, s))\<rparr>"

lemma queue_post_contract: "post_contract queue_post queue_state (\<lambda>p. mset (fst p)) (\<lambda>_. 0)"
  by (simp add: post_contract_def queue_post_def queue_state_def access_ok_def)

text \<open>A ping before the registration: registering posts the packet.\<close>

theorem iocp_ping_not_lost_witness:
  "\<exists>p1 P' tf' ps. iocp_ping queue_post queue_state ([], iocp_make_ping) = (Ok (), p1) \<and>
    iocp_register queue_post 5 queue_state () \<lparr>poller = p1, level_triggered = None, timers = TimerWheel_new\<rparr>
      (TokenFactory_new \<lparr>tok_id = 3, tok_version = 0, tok_sub_id = 0\<rparr>) = (Ok (), (), P', tf') \<and>
    ic_poll_state (snd (poller P')) = Some ps \<and> (ip_poller ps, ip_key ps) \<in># mset (fst (poller P'))"
proof -
  let ?tf = "TokenFactory_new \<lparr>tok_id = 3, tok_version = 0, tok_sub_id = 0\<rparr>"
  let ?step = "iocp_step queue_post first_component queue_state (\<lambda>p. mset (fst p)) (\<lambda>_. 0) False"
  obtain p1 where p1: "iocp_ping queue_post queue_state ([], iocp_make_ping) = (Ok (), p1)"
    by (simp add: iocp_ping_def queue_state_def iocp_make_ping_def)
  let ?P = "\<lparr>poller = p1, level_triggered = None, timers = TimerWheel_new\<rparr>"
  obtain P' tf' ps where reg: "iocp_register queue_post 5 queue_state () ?P ?tf = (Ok (), (), P', tf')"
    "ic_poll_state (snd (poller P')) = Some ps" "ic_notified (snd (poller P'))"
    using p1 by (auto simp: iocp_ping_def queue_state_def iocp_make_ping_def iocp_register_def iocp_PollState_new_def iocp_notify_def
        queue_post_def iocp_set_poll_state_def factory_token_eq TokenFactory_new_def forget_sub_id_def Let_def)
  let ?w0 = "(([], iocp_make_ping), ()) :: ((nat \<times> usize) list \<times> iocp_state) \<times> unit"
  have "?step ?w0 (acc_put first_component p1 ?w0)" by (rule is_ping) (simp add: first_component_def p1)
  moreover have "?step (acc_put first_component p1 ?w0) (acc_put first_component (poller P') (acc_put first_component p1 ?w0))"
    by (rule is_register [OF _ reg(1)]) (simp add: first_component_def)
  ultimately have "?step\<^sup>*\<^sup>* ?w0 (poller P', ())" by (simp add: first_component_def converse_rtranclp_into_rtranclp)
  from iocp_ping_not_lost [OF queue_post_contract first_component_ok _ this refl, THEN conjunct2, THEN conjunct1] reg
  have "(ip_poller ps, ip_key ps) \<in># mset (fst (poller P'))" by (simp add: first_component_def queue_state_def)
  with p1 reg show ?thesis by blast
qed

text \<open>
  C26: an event of a packet that was posted under an earlier key marks the source as not inserted, although the packet of
  its current key still waits. If the source then gets another key, no packet is posted for it: the ping stays
  unreported, and registered with it is a source that nothing will wake.
\<close>

theorem iocp_stale_event_loses_ping:
  assumes "post_contract post st queued failed" and "access_ok sys"
    and "acc_get st (acc_get sys w) = \<lparr>ic_notified = True, ic_poll_state = Some ps, ic_locked = False, ic_refs = n\<rparr>"
    and "usize_of_token old \<noteq> ip_key ps" and "iocp_process sys st () rd old cb c w = (r, (), c', w1)"
    and "poller P = acc_get sys w1" and "factory_token tf = (Ok new, tf')" and "usize_of_token new \<noteq> ip_key ps"
    and "(ip_poller ps, usize_of_token new) \<notin># queued (acc_get sys w)"
  shows "\<exists>P' ps'. iocp_reregister post (ip_poller ps) st () P tf = (Ok (), (), P', tf') \<and>
    ic_notified (acc_get st (poller P')) \<and> ic_poll_state (acc_get st (poller P')) = Some ps' \<and>
    ip_key ps' = usize_of_token new \<and> (ip_poller ps', ip_key ps') \<notin># queued (poller P')"
proof -
  note ok = access_ok_simps [OF post_contractD(1) [OF assms(1)]] access_ok_simps [OF assms(2)] and q = post_contractD(2,3) [OF assms(1)]
  have "acc_get sys w1 = acc_put st \<lparr>ic_notified = True, ic_poll_state = Some (ps\<lparr>ip_inserted := False\<rparr>), ic_locked = False, ic_refs = n\<rparr> (acc_get sys w)"
    using assms(3-5) by (auto simp: iocp_process_def Let_def ok)
  with assms(6-9) show ?thesis by (auto simp: iocp_reregister_def iocp_set_poll_state_def Let_def ok q)
qed

theorem iocp_stale_event_loses_ping_witness:
  "\<exists>w1 P' tf' ps'. iocp_process first_component queue_state () Readiness_EMPTY \<lparr>tok_id = 0, tok_version = 0, tok_sub_id = 1\<rparr> (\<lambda>c w. (c, w)) ()
      (([(1, 0)], \<lparr>ic_notified = True, ic_poll_state = Some \<lparr>ip_poller = 1, ip_inserted = True, ip_key = 0\<rparr>, ic_locked = False, ic_refs = 2\<rparr>), ())
      = (Ok Continue, (), (), w1) \<and>
    iocp_reregister queue_post 1 queue_state () \<lparr>poller = fst w1, level_triggered = None, timers = TimerWheel_new\<rparr>
      \<lparr>next_token = \<lparr>tok_id = 0, tok_version = 0, tok_sub_id = 2\<rparr>\<rparr> = (Ok (), (), P', tf') \<and>
    ic_notified (snd (poller P')) \<and> ic_poll_state (snd (poller P')) = Some ps' \<and> (ip_poller ps', ip_key ps') \<notin># mset (fst (poller P'))"
proof -
  let ?ps = "\<lparr>ip_poller = 1, ip_inserted = True, ip_key = 0\<rparr>"
  let ?w = "(([(1, 0)], \<lparr>ic_notified = True, ic_poll_state = Some ?ps, ic_locked = False, ic_refs = 2\<rparr>), ()) :: ((nat \<times> usize) list \<times> iocp_state) \<times> unit"
  let ?old = "\<lparr>tok_id = 0, tok_version = 0, tok_sub_id = 1\<rparr> :: token" and ?new = "\<lparr>tok_id = 0, tok_version = 0, tok_sub_id = 2\<rparr> :: token"
  have keys: "(usize_of_token ?old :: usize) = 1" "(usize_of_token ?new :: usize) = 2" by (simp_all add: usize_of_token_def)
  obtain w1 where w1: "iocp_process first_component queue_state () Readiness_EMPTY ?old (\<lambda>c w. (c, w)) () ?w = (Ok Continue, (), (), w1)"
    by (simp add: iocp_process_def first_component_def queue_state_def keys)
  have tf: "factory_token \<lparr>next_token = ?new\<rparr> = (Ok ?new, \<lparr>next_token = ?new\<lparr>tok_sub_id := 3\<rparr>\<rparr>)" by (simp add: factory_token_eq)
  from iocp_stale_event_loses_ping [OF queue_post_contract first_component_ok _ _ w1 _ tf, of ?ps 2
      "\<lparr>poller = fst w1, level_triggered = None, timers = TimerWheel_new\<rparr>"] w1 keys
  show ?thesis by (auto simp: first_component_def queue_state_def)
qed

text \<open>
  The callback of the source runs with the mutex of the shared state held, so a callback
  that pings its own source never returns from that ping.
\<close>

theorem iocp_ping_in_callback_blocks:
  assumes "access_ok sys" and "access_ok st"
    and "acc_get st (acc_get sys w) = \<lparr>ic_notified = True, ic_poll_state = Some ps, ic_locked = False, ic_refs = n\<rparr>"
    and "ip_key ps = usize_of_token token"
    and "callback = (\<lambda>c v. (fst (iocp_ping post st (acc_get sys v)) # c, v))"
  shows "\<exists>r w'. iocp_process sys st () rd token callback [] w = (r, (), [Diverge], w')"
  using assms by (simp add: iocp_process_def iocp_ping_def access_ok_simps Let_def)

theorem iocp_ping_in_callback_blocks_witness:
  "\<exists>r w'. iocp_process first_component queue_state () Readiness_EMPTY \<lparr>tok_id = 0, tok_version = 0, tok_sub_id = 0\<rparr>
      (\<lambda>c v. (fst (iocp_ping queue_post queue_state (acc_get first_component v)) # c, v)) []
      (([], \<lparr>ic_notified = True, ic_poll_state = Some \<lparr>ip_poller = 1, ip_inserted = True, ip_key = 0\<rparr>, ic_locked = False, ic_refs = 2\<rparr>), ())
    = (r, (), [Diverge], w')"
  by (rule iocp_ping_in_callback_blocks [OF first_component_ok, where ps = "\<lparr>ip_poller = 1, ip_inserted = True, ip_key = 0\<rparr>" and n = 2])
    (simp_all add: access_ok_def queue_state_def first_component_def usize_of_token_def)

end
