(* ===== verification/Signals_Source.thy ===== *)
theory Signals_Source
  imports Ping_Backend
begin

text \<open>
  \<open>src/src/sources/signals.rs\<close>: Unix signals through a signalfd. The signals are blocked for the
  thread, so that the kernel queues them for the descriptor instead of delivering them. The
  system calls of the \<open>nix\<close> crate are a record of operations; the read loop carries fuel.
\<close>

datatype signal =
    SIGHUP | SIGINT | SIGQUIT | SIGILL | SIGTRAP | SIGABRT | SIGBUS | SIGFPE | SIGKILL | SIGUSR1
  | SIGSEGV | SIGUSR2 | SIGPIPE | SIGALRM | SIGTERM | SIGCHLD | SIGCONT | SIGSTOP | SIGTSTP | SIGTTIN
  | SIGTTOU | SIGURG | SIGXCPU | SIGXFSZ | SIGVTALRM | SIGPROF | SIGWINCH | SIGIO | SIGSYS

text \<open>The part of \<open>siginfo\<close> that \<open>Event\<close>'s accessors read; \<open>ssi_status\<close> and the like are numbers.\<close>

record siginfo =
  si_signo :: int
  si_errno :: int
  si_code :: int
  si_pid :: int
  si_uid :: int
  si_fd :: int
  si_tid :: int
  si_band :: int
  si_overrun :: int
  si_trapno :: int
  si_status :: int

type_synonym sigset = "signal list"

definition sigset_add :: "signal \<Rightarrow> sigset \<Rightarrow> sigset" where
  "sigset_add s m = List.insert s m"

definition sigset_remove :: "signal \<Rightarrow> sigset \<Rightarrow> sigset" where
  "sigset_remove s m = filter (\<lambda>x. x \<noteq> s) m"

record 'p signal_ops =
  sg_block :: "'p \<Rightarrow> sigset \<Rightarrow> (io_error + unit) \<times> 'p"
  sg_unblock :: "'p \<Rightarrow> sigset \<Rightarrow> (io_error + unit) \<times> 'p"
  sg_open :: "'p \<Rightarrow> sigset \<Rightarrow> (io_error + raw_fd) \<times> 'p"
  sg_set_mask :: "'p \<Rightarrow> raw_fd \<Rightarrow> sigset \<Rightarrow> (io_error + unit) \<times> 'p"
  sg_read :: "'p \<Rightarrow> raw_fd \<Rightarrow> (io_error + siginfo option) \<times> 'p"

section \<open>Signals\<close>

record signals =
  sig_sfd :: "raw_fd generic"
  sig_mask :: sigset

text \<open>\<open>?\<close> on a system call with \<open>map_err(IoError::from)\<close>.\<close>

definition sys_then :: "(io_error + 'a) \<times> 'p \<Rightarrow> ('a \<Rightarrow> 'p \<Rightarrow> 'r cresult \<times> 's \<times> 'p) \<Rightarrow> 's \<Rightarrow> 'r cresult \<times> 's \<times> 'p" where
  "sys_then res f s = (case res of (Inl e, p) \<Rightarrow> (Err (error_from_io e), s, p) | (Inr a, p) \<Rightarrow> f a p)"

definition Signals_new :: "'p signal_ops \<Rightarrow> signal list \<Rightarrow> 'p \<Rightarrow> signals cresult \<times> 'p" where
  "Signals_new S sigs p =
     (let mask = fold sigset_add sigs [] in
      case sys_then (sg_block S p mask)
        (\<lambda>_ p1. sys_then (sg_open S p1 mask)
           (\<lambda>fd p2. (Ok \<lparr>sig_sfd = Generic_new fd Interest_READ Level, sig_mask = mask\<rparr>, (), p2)) ()) () of
        (r, _, p') \<Rightarrow> (r, p'))"

text \<open>The descriptor of the source; \<open>get_mut\<close> panics if it was taken.\<close>

definition with_sfd :: "signals \<Rightarrow> 'p \<Rightarrow> (raw_fd \<Rightarrow> unit cresult \<times> signals \<times> 'p) \<Rightarrow> unit cresult \<times> signals \<times> 'p" where
  "with_sfd s p f = (case gn_file (sig_sfd s) of None \<Rightarrow> (Panic, s, p) | Some fd \<Rightarrow> f fd)"

definition add_signals :: "'p signal_ops \<Rightarrow> signal list \<Rightarrow> signals \<Rightarrow> 'p \<Rightarrow> unit cresult \<times> signals \<times> 'p" where
  "add_signals S sigs s p =
     (let s1 = s\<lparr>sig_mask := fold sigset_add sigs (sig_mask s)\<rparr> in
      sys_then (sg_block S p (sig_mask s1))
        (\<lambda>_ p1. with_sfd s1 p1 (\<lambda>fd. sys_then (sg_set_mask S p1 fd (sig_mask s1)) (\<lambda>_ p2. (Ok (), s1, p2)) s1)) s1)"

definition remove_signals :: "'p signal_ops \<Rightarrow> signal list \<Rightarrow> signals \<Rightarrow> 'p \<Rightarrow> unit cresult \<times> signals \<times> 'p" where
  "remove_signals S sigs s p =
     (let s1 = s\<lparr>sig_mask := fold sigset_remove sigs (sig_mask s)\<rparr>; removed = fold sigset_add sigs [] in
      sys_then (sg_unblock S p removed)
        (\<lambda>_ p1. with_sfd s1 p1 (\<lambda>fd. sys_then (sg_set_mask S p1 fd (sig_mask s1)) (\<lambda>_ p2. (Ok (), s1, p2)) s1)) s1)"

definition set_signals :: "'p signal_ops \<Rightarrow> signal list \<Rightarrow> signals \<Rightarrow> 'p \<Rightarrow> unit cresult \<times> signals \<times> 'p" where
  "set_signals S sigs s p =
     (let new_mask = fold sigset_add sigs [] in
      sys_then (sg_unblock S p (sig_mask s))
        (\<lambda>_ p1. sys_then (sg_block S p1 new_mask)
           (\<lambda>_ p2. with_sfd s p2 (\<lambda>fd. sys_then (sg_set_mask S p2 fd new_mask)
              (\<lambda>_ p3. (Ok (), s\<lparr>sig_mask := new_mask\<rparr>, p3)) s)) s) s)"

text \<open>\<open>Drop\<close>: an error is only logged.\<close>

definition signals_drop :: "'p signal_ops \<Rightarrow> signals \<Rightarrow> 'p \<Rightarrow> 'p" where
  "signals_drop S s p = snd (sg_unblock S p (sig_mask s))"

section \<open>EventSource\<close>

fun signal_read_loop :: "'p signal_ops \<Rightarrow> ('w, 'p) access \<Rightarrow> (siginfo \<Rightarrow> 'w \<Rightarrow> 'w) \<Rightarrow> nat \<Rightarrow> raw_fd \<Rightarrow> 'w
    \<Rightarrow> (io_error, post_action) outcome \<times> 'w" where
  "signal_read_loop S sys callback 0 fd w = (Diverge, w)"
| "signal_read_loop S sys callback (Suc n) fd w =
     (case on_component sys (\<lambda>p. sg_read S p fd) w of
        (Inr (Some info), w') \<Rightarrow> signal_read_loop S sys callback n fd (callback info w')
      | (Inr None, w') \<Rightarrow> (Ok Continue, w')
      | (Inl e, w') \<Rightarrow> (Err e, w'))"

definition signals_process :: "'p signal_ops \<Rightarrow> ('w, 'p) access \<Rightarrow> (siginfo \<Rightarrow> 'w \<Rightarrow> 'w) \<Rightarrow> nat \<Rightarrow> (signals, 'w) process_op" where
  "signals_process S sys callback n s rd token w =
     (case generic_process (\<lambda>_ fd w. case signal_read_loop S sys callback n fd w of (r, w') \<Rightarrow> (r, fd, w'))
         (sig_sfd s) rd token w of
        (r, sfd, w') \<Rightarrow> (map_err (\<lambda>e. SignalError (BIo e)) r, s\<lparr>sig_sfd := sfd\<rparr>, w'))"

definition signals_register :: "'p poller_ops \<Rightarrow> (signals, 'p) register_op" where
  "signals_register K s P tf =
     (case generic_register K (\<lambda>fd. fd) (sig_sfd s) P tf of (r, g, P', tf') \<Rightarrow> (r, s\<lparr>sig_sfd := g\<rparr>, P', tf'))"

definition signals_reregister :: "'p poller_ops \<Rightarrow> (signals, 'p) register_op" where
  "signals_reregister K s P tf =
     (case generic_reregister K (\<lambda>fd. fd) (sig_sfd s) P tf of (r, g, P', tf') \<Rightarrow> (r, s\<lparr>sig_sfd := g\<rparr>, P', tf'))"

definition signals_unregister :: "'p poller_ops \<Rightarrow> (signals, 'p) unregister_op" where
  "signals_unregister K s P =
     (case generic_unregister K (\<lambda>fd. fd) (sig_sfd s) P of (r, g, P') \<Rightarrow> (r, s\<lparr>sig_sfd := g\<rparr>, P'))"

text \<open>
  \<open>Event\<close>'s accessors convert with \<open>try_into().unwrap()\<close>: a panic where the number does not fit.
\<close>

definition as_i32 :: "int \<Rightarrow> (unit, int) outcome" where
  "as_i32 n = (if - (2 ^ 31) \<le> n \<and> n < 2 ^ 31 then Ok n else Panic)"

definition as_u32 :: "int \<Rightarrow> (unit, int) outcome" where
  "as_u32 n = (if 0 \<le> n \<and> n < 2 ^ 32 then Ok n else Panic)"

definition event_errno :: "siginfo \<Rightarrow> (unit, int) outcome" where
  "event_errno info = as_i32 (si_errno info)"

definition event_code :: "siginfo \<Rightarrow> (unit, int) outcome" where
  "event_code info = as_i32 (si_code info)"

definition event_pid :: "siginfo \<Rightarrow> (unit, int) outcome" where
  "event_pid info = as_u32 (si_pid info)"

definition event_uid :: "siginfo \<Rightarrow> (unit, int) outcome" where
  "event_uid info = as_u32 (si_uid info)"

definition event_fd :: "siginfo \<Rightarrow> (unit, int) outcome" where
  "event_fd info = as_i32 (si_fd info)"

definition event_tid :: "siginfo \<Rightarrow> (unit, int) outcome" where
  "event_tid info = as_u32 (si_tid info)"

definition event_bad :: "siginfo \<Rightarrow> (unit, int) outcome" where
  "event_bad info = as_u32 (si_band info)"

definition event_overrun :: "siginfo \<Rightarrow> (unit, int) outcome" where
  "event_overrun info = as_u32 (si_overrun info)"

definition event_trapno :: "siginfo \<Rightarrow> (unit, int) outcome" where
  "event_trapno info = as_u32 (si_trapno info)"

definition event_status :: "siginfo \<Rightarrow> (unit, int) outcome" where
  "event_status info = as_u32 (si_status info)"

text \<open>
  \<open>Signal::from_num\<close> and \<open>Event::signal\<close>. \<open>nix\<close> is \<open>nix::sys::signal::Signal::try_from\<close>: a number that it
  does not know, or whose signal is not in the enumeration, is a panic.
\<close>

definition signal_from_num :: "(int \<Rightarrow> signal option) \<Rightarrow> int \<Rightarrow> (unit, signal) outcome" where
  "signal_from_num nix n = (case nix n of Some s \<Rightarrow> Ok s | None \<Rightarrow> Panic)"

definition event_signal :: "(int \<Rightarrow> signal option) \<Rightarrow> siginfo \<Rightarrow> (unit, signal) outcome" where
  "event_signal nix info = signal_from_num nix (sint (word_of_int (si_signo info) :: 32 word))"

section \<open>What an event delivers\<close>

text \<open>
  signalfd(2): reads give the pending signals one by one, then nothing, or an error. \<open>pending\<close> is what the reads
  of the descriptor are going to give.
\<close>

definition signal_reads :: "'p signal_ops \<Rightarrow> raw_fd \<Rightarrow> ('p \<Rightarrow> siginfo list \<times> io_error option) \<Rightarrow> bool" where
  "signal_reads S fd pending \<longleftrightarrow>
     (\<forall>p. case (pending p, sg_read S p fd) of
        ((info # infos, e), (r, p')) \<Rightarrow> r = Inr (Some info) \<and> pending p' = (infos, e)
      | (([], None), (r, p')) \<Rightarrow> r = Inr None \<and> pending p' = ([], None)
      | (([], Some e), (r, p')) \<Rightarrow> r = Inl e \<and> pending p' = ([], None))"

lemma signal_reads_cases:
  assumes "signal_reads S fd pending"
  shows "pending p = (info # infos, e) \<Longrightarrow> \<exists>p'. sg_read S p fd = (Inr (Some info), p') \<and> pending p' = (infos, e)"
    and "pending p = ([], None) \<Longrightarrow> \<exists>p'. sg_read S p fd = (Inr None, p') \<and> pending p' = ([], None)"
    and "pending p = ([], Some err) \<Longrightarrow> \<exists>p'. sg_read S p fd = (Inl err, p') \<and> pending p' = ([], None)"
  using assms [unfolded signal_reads_def, rule_format, of p] by (auto split: prod.splits)

definition signal_callback :: "('w, 'l) access \<Rightarrow> (siginfo \<Rightarrow> 'l \<Rightarrow> 'l) \<Rightarrow> siginfo \<Rightarrow> 'w \<Rightarrow> 'w" where
  "signal_callback lg f info w = acc_put lg (f info (acc_get lg w)) w"

lemma signal_read_loop_delivers:
  assumes reads: "signal_reads S fd pending" and parts: "access_ok sys" "access_ok lg" "access_apart sys lg"
  shows "pending (acc_get sys w) = (infos, e) \<Longrightarrow> length infos < n \<Longrightarrow>
    \<exists>w'. signal_read_loop S sys (signal_callback lg f) n fd w = (case e of None \<Rightarrow> Ok Continue | Some e \<Rightarrow> Err e, w') \<and>
      acc_get lg w' = fold f infos (acc_get lg w) \<and> pending (acc_get sys w') = ([], None)"
proof (induction n arbitrary: w infos)
  case (Suc n)
  note ok = access_ok_simps [OF parts(1)] access_ok_simps [OF parts(2)] access_apart_simps [OF parts(3)]
  show ?case
  proof (cases infos)
    case Nil
    then show ?thesis
      using Suc.prems signal_reads_cases(2,3) [OF reads, of "acc_get sys w"]
      by (cases e) (auto simp: on_component_def ok)
  next
    case (Cons info rest)
    then obtain p' where p': "sg_read S (acc_get sys w) fd = (Inr (Some info), p')" "pending p' = (rest, e)"
      using Suc.prems(1) signal_reads_cases(1) [OF reads, of "acc_get sys w"] by blast
    let ?w = "signal_callback lg f info (acc_put sys p' w)"
    have "pending (acc_get sys ?w) = (rest, e)" "acc_get lg ?w = f info (acc_get lg w)" "length rest < n"
      using p'(2) Suc.prems(2) Cons by (simp_all add: signal_callback_def ok)
    with Suc.IH [of ?w rest] Cons p'(1) show ?thesis by (auto simp: on_component_def)
  qed
qed simp

text \<open>
  C24: one event of the signal source hands every pending signal to the callback, in the order the kernel gives
  them and each once, until there is none left, and keeps the source; an error of a read ends the event with that
  error after the signals before it were delivered; an event with another token delivers nothing. The loop ends
  one read after the last signal.
\<close>

theorem signal_event_delivers_all:
  assumes "signal_reads S fd pending" and "access_ok sys" and "access_ok lg" and "access_apart sys lg"
    and "gn_file (sig_sfd s) = Some fd" and "pending (acc_get sys w) = (infos, e)" and "length infos < n"
  shows "(gn_token (sig_sfd s) = Some t \<longrightarrow>
      (\<exists>w'. signals_process S sys (signal_callback lg f) n s rd t w
         = (case e of None \<Rightarrow> Ok Continue | Some e \<Rightarrow> Err (SignalError (BIo e)), s, w') \<and>
       acc_get lg w' = fold f infos (acc_get lg w) \<and> pending (acc_get sys w') = ([], None))) \<and>
    (gn_token (sig_sfd s) \<noteq> Some t \<longrightarrow> signals_process S sys (signal_callback lg f) n s rd t w = (Ok Continue, s, w))"
proof -
  obtain w' where "signal_read_loop S sys (signal_callback lg f) n fd w = (case e of None \<Rightarrow> Ok Continue | Some e \<Rightarrow> Err e, w')"
      "acc_get lg w' = fold f infos (acc_get lg w)" "pending (acc_get sys w') = ([], None)"
    using signal_read_loop_delivers [OF assms(1-4,6,7)] by blast
  moreover have "s\<lparr>sig_sfd := (sig_sfd s)\<lparr>gn_file := Some fd\<rparr>\<rparr> = s" using assms(5) by (cases s; cases "sig_sfd s") simp
  ultimately show ?thesis
    using assms(5) by (cases e) (auto simp: signals_process_def generic_process_def)
qed

text \<open>A kernel that is only a list of signals to read.\<close>

definition SRK :: "siginfo list signal_ops" where
  "SRK = \<lparr>sg_block = (\<lambda>p m. (Inr (), p)), sg_unblock = (\<lambda>p m. (Inr (), p)), sg_open = (\<lambda>p m. (Inr 3, p)),
     sg_set_mask = (\<lambda>p fd m. (Inr (), p)), sg_read = (\<lambda>p fd. case p of [] \<Rightarrow> (Inr None, p) | i # is \<Rightarrow> (Inr (Some i), is))\<rparr>"

lemma SRK_reads: "signal_reads SRK fd (\<lambda>p. (p, None))"
  by (simp add: signal_reads_def SRK_def split: list.splits)

theorem signal_event_delivers_all_witness:
  "\<exists>w' :: siginfo list \<times> int list. signals_process SRK first_component (\<lambda>info w. (fst w, snd w @ [si_signo info])) 9
     \<lparr>sig_sfd = (Generic_new 3 Interest_READ Level)\<lparr>gn_token := Some \<lparr>tok_id = 1, tok_version = 0, tok_sub_id = 0\<rparr>\<rparr>, sig_mask = [SIGUSR1]\<rparr>
     Readiness_EMPTY \<lparr>tok_id = 1, tok_version = 0, tok_sub_id = 0\<rparr>
     ([\<lparr>si_signo = 10, si_errno = 0, si_code = 0, si_pid = 1, si_uid = 0, si_fd = 0, si_tid = 0, si_band = 0, si_overrun = 0,
        si_trapno = 0, si_status = 0\<rparr>], [])
     = (Ok Continue, \<lparr>sig_sfd = (Generic_new 3 Interest_READ Level)\<lparr>gn_token := Some \<lparr>tok_id = 1, tok_version = 0, tok_sub_id = 0\<rparr>\<rparr>, sig_mask = [SIGUSR1]\<rparr>, w') \<and>
     snd w' = [10]"
proof -
  let ?t = "\<lparr>tok_id = 1, tok_version = 0, tok_sub_id = 0\<rparr> :: token_inner"
  let ?s = "\<lparr>sig_sfd = (Generic_new 3 Interest_READ Level)\<lparr>gn_token := Some ?t\<rparr>, sig_mask = [SIGUSR1]\<rparr>"
  let ?info = "\<lparr>si_signo = 10, si_errno = 0, si_code = 0, si_pid = 1, si_uid = 0, si_fd = 0, si_tid = 0, si_band = 0, si_overrun = 0,
        si_trapno = 0, si_status = 0\<rparr> :: siginfo"
  let ?lg = "\<lparr>acc_get = snd, acc_put = (\<lambda>l w. (fst w, l))\<rparr> :: (siginfo list \<times> int list, int list) access"
  have lg: "access_ok ?lg" "access_apart first_component ?lg"
    by (simp_all add: access_ok_def access_apart_def first_component_def)
  have cb: "signal_callback ?lg (\<lambda>info l. l @ [si_signo info]) = (\<lambda>info w. (fst w, snd w @ [si_signo info]))"
    by (intro ext) (simp add: signal_callback_def)
  show ?thesis
    using signal_event_delivers_all [OF SRK_reads [of 3] first_component_ok lg, where s = ?s and w = "([?info], [])" and t = ?t and n = 9
        and f = "\<lambda>info l. l @ [si_signo info]" and rd = Readiness_EMPTY, unfolded cb]
    by (auto simp: Generic_new_def first_component_def)
qed

section \<open>The thread's mask\<close>

text \<open>
  sigprocmask(2) and signalfd(2): \<open>blocked\<close> is the thread's mask and \<open>watched\<close> what each open
  signalfd reports; \<open>lost\<close> are the signals that arrived while they were not blocked, which the
  process gets as usual signals. A pending signal (\<open>pend\<close>) that is unblocked is delivered at once.
  Attempts to block or to watch \<open>SIGKILL\<close> and \<open>SIGSTOP\<close> are silently ignored. Opening a descriptor
  may fail; it gives one that was not open.
\<close>

definition maskable :: "signal set \<Rightarrow> signal set" where
  "maskable A = A - {SIGKILL, SIGSTOP}"

definition signal_contract :: "'p signal_ops \<Rightarrow> ('p \<Rightarrow> signal set) \<Rightarrow> ('p \<Rightarrow> raw_fd \<Rightarrow> signal set option)
    \<Rightarrow> ('p \<Rightarrow> signal set) \<Rightarrow> ('p \<Rightarrow> signal set) \<Rightarrow> bool" where
  "signal_contract S blocked watched pend lost \<longleftrightarrow>
     (\<forall>p m. case sg_block S p m of (r, p') \<Rightarrow> r = Inr () \<and> blocked p' = blocked p \<union> maskable (set m) \<and>
        watched p' = watched p \<and> pend p' = pend p \<and> lost p' = lost p) \<and>
     (\<forall>p m. case sg_unblock S p m of (r, p') \<Rightarrow> r = Inr () \<and> blocked p' = blocked p - set m \<and> watched p' = watched p \<and>
        pend p' = pend p - set m \<and> lost p' = lost p \<union> (pend p \<inter> set m)) \<and>
     (\<forall>p m fd. watched p fd \<noteq> None \<longrightarrow> (case sg_set_mask S p fd m of (r, p') \<Rightarrow> r = Inr () \<and> blocked p' = blocked p \<and>
        watched p' = (watched p)(fd \<mapsto> maskable (set m)) \<and> pend p' = pend p \<and> lost p' = lost p)) \<and>
     (\<forall>p m. case sg_open S p m of (r, p') \<Rightarrow> blocked p' = blocked p \<and> pend p' = pend p \<and> lost p' = lost p \<and>
        (case r of Inl _ \<Rightarrow> watched p' = watched p
         | Inr fd \<Rightarrow> watched p fd = None \<and> watched p' = (watched p)(fd \<mapsto> maskable (set m))))"

lemma sg_block_ok:
  assumes "signal_contract S blocked watched pend lost"
  obtains p' where "sg_block S p m = (Inr (), p')" "blocked p' = blocked p \<union> maskable (set m)" "watched p' = watched p"
    "pend p' = pend p" "lost p' = lost p"
  using assms [unfolded signal_contract_def, THEN conjunct1, rule_format, of p m] by (auto split: prod.splits)

lemma sg_unblock_ok:
  assumes "signal_contract S blocked watched pend lost"
  obtains p' where "sg_unblock S p m = (Inr (), p')" "blocked p' = blocked p - set m" "watched p' = watched p"
    "pend p' = pend p - set m" "lost p' = lost p \<union> (pend p \<inter> set m)"
  using assms [unfolded signal_contract_def, THEN conjunct2, THEN conjunct1, rule_format, of p m] by (auto split: prod.splits)

lemma sg_set_mask_ok:
  assumes "signal_contract S blocked watched pend lost" "watched p fd \<noteq> None"
  obtains p' where "sg_set_mask S p fd m = (Inr (), p')" "blocked p' = blocked p"
    "watched p' = (watched p)(fd \<mapsto> maskable (set m))" "pend p' = pend p" "lost p' = lost p"
  using assms(1) [unfolded signal_contract_def, THEN conjunct2, THEN conjunct2, THEN conjunct1, rule_format, OF assms(2), of m]
  by (auto split: prod.splits)

lemma sg_open_ok:
  assumes "signal_contract S blocked watched pend lost"
  obtains (failed) e p' where "sg_open S p m = (Inl e, p')" "blocked p' = blocked p" "watched p' = watched p"
  | (opened) fd p' where "sg_open S p m = (Inr fd, p')" "blocked p' = blocked p" "watched p fd = None"
      "watched p' = (watched p)(fd \<mapsto> maskable (set m))"
  using assms [unfolded signal_contract_def, THEN conjunct2, THEN conjunct2, THEN conjunct2, rule_format, of p m]
  by (auto split: prod.splits sum.splits)

lemma set_fold_add [simp]: "set (fold sigset_add sigs m) = set sigs \<union> set m"
  by (induction sigs arbitrary: m) (auto simp: sigset_add_def)

lemma set_fold_remove [simp]: "set (fold sigset_remove sigs m) = set m - set sigs"
  by (induction sigs arbitrary: m) (auto simp: sigset_remove_def)

lemma maskable_simps [simp]:
  "maskable (A \<union> B) = maskable A \<union> maskable B" "maskable (A - B) = maskable A - B" "maskable {} = {}"
  by (auto simp: maskable_def)

text \<open>The source owns its signals: blocked for the thread, and reported by the descriptor.\<close>

definition signals_inv :: "('p \<Rightarrow> signal set) \<Rightarrow> ('p \<Rightarrow> raw_fd \<Rightarrow> signal set option) \<Rightarrow> signals \<Rightarrow> 'p \<Rightarrow> bool" where
  "signals_inv blocked watched s p \<longleftrightarrow>
     (\<exists>fd. gn_file (sig_sfd s) = Some fd \<and> maskable (set (sig_mask s)) \<subseteq> blocked p \<and>
        watched p fd = Some (maskable (set (sig_mask s))))"

text \<open>What a call leaves: the invariant, the source's signals, and the thread's mask.\<close>

definition mask_result :: "('p \<Rightarrow> signal set) \<Rightarrow> ('p \<Rightarrow> raw_fd \<Rightarrow> signal set option) \<Rightarrow> signal set \<Rightarrow> signal set
    \<Rightarrow> unit cresult \<times> signals \<times> 'p \<Rightarrow> bool" where
  "mask_result blocked watched sigs thread res \<longleftrightarrow>
     (case res of (r, s, p) \<Rightarrow> r = Ok () \<and> signals_inv blocked watched s p \<and> set (sig_mask s) = sigs \<and> blocked p = thread)"

lemmas mask_calls = add_signals_def remove_signals_def set_signals_def sys_then_def with_sfd_def Let_def signals_inv_def
  mask_result_def

lemma Signals_new_masks:
  assumes C: "signal_contract S blocked watched pend lost" and n: "Signals_new S sigs p = (r, p')"
  shows "blocked p' = blocked p \<union> maskable (set sigs)"
    and "(\<exists>s. r = Ok s \<and> signals_inv blocked watched s p' \<and> set (sig_mask s) = set sigs) \<or> (\<exists>e. r = Err e)"
proof -
  obtain a where a: "sg_block S p (fold sigset_add sigs []) = (Inr (), a)" "blocked a = blocked p \<union> maskable (set sigs)"
    by (rule sg_block_ok [OF C, of p "fold sigset_add sigs []"]) simp
  have "blocked p' = blocked p \<union> maskable (set sigs) \<and>
    ((\<exists>s. r = Ok s \<and> signals_inv blocked watched s p' \<and> set (sig_mask s) = set sigs) \<or> (\<exists>e. r = Err e))"
    by (rule sg_open_ok [OF C, of a "fold sigset_add sigs []"])
      (use n a in \<open>auto simp: Signals_new_def sys_then_def Let_def signals_inv_def Generic_new_def\<close>)
  then show "blocked p' = blocked p \<union> maskable (set sigs)"
    and "(\<exists>s. r = Ok s \<and> signals_inv blocked watched s p' \<and> set (sig_mask s) = set sigs) \<or> (\<exists>e. r = Err e)"
    by simp_all
qed

lemma add_signals_masks:
  assumes C: "signal_contract S blocked watched pend lost" and inv: "signals_inv blocked watched s p"
  shows "mask_result blocked watched (set (sig_mask s) \<union> set sigs) (blocked p \<union> maskable (set sigs)) (add_signals S sigs s p)"
proof -
  let ?m = "fold sigset_add sigs (sig_mask s)"
  obtain fd where fd: "gn_file (sig_sfd s) = Some fd" "maskable (set (sig_mask s)) \<subseteq> blocked p" "watched p fd \<noteq> None"
    using inv by (auto simp: signals_inv_def)
  obtain a where a: "sg_block S p ?m = (Inr (), a)" "blocked a = blocked p \<union> maskable (set sigs \<union> set (sig_mask s))"
    "watched a = watched p"
    by (rule sg_block_ok [OF C, of p ?m]) simp
  have "watched a fd \<noteq> None" using a fd by simp
  then obtain b where b: "sg_set_mask S a fd ?m = (Inr (), b)" "blocked b = blocked a"
    "watched b = (watched a)(fd \<mapsto> maskable (set sigs \<union> set (sig_mask s)))"
    by (rule sg_set_mask_ok [OF C, of a fd ?m]) simp
  show ?thesis using a b fd by (auto simp: mask_calls)
qed

lemma remove_signals_masks:
  assumes C: "signal_contract S blocked watched pend lost" and inv: "signals_inv blocked watched s p"
  shows "mask_result blocked watched (set (sig_mask s) - set sigs) (blocked p - set sigs) (remove_signals S sigs s p)"
proof -
  let ?m = "fold sigset_remove sigs (sig_mask s)"
  obtain fd where fd: "gn_file (sig_sfd s) = Some fd" "maskable (set (sig_mask s)) \<subseteq> blocked p" "watched p fd \<noteq> None"
    using inv by (auto simp: signals_inv_def)
  obtain a where a: "sg_unblock S p (fold sigset_add sigs []) = (Inr (), a)" "blocked a = blocked p - set sigs"
    "watched a = watched p"
    by (rule sg_unblock_ok [OF C, of p "fold sigset_add sigs []"]) simp
  have "watched a fd \<noteq> None" using a fd by simp
  then obtain b where b: "sg_set_mask S a fd ?m = (Inr (), b)" "blocked b = blocked a"
    "watched b = (watched a)(fd \<mapsto> maskable (set (sig_mask s) - set sigs))"
    by (rule sg_set_mask_ok [OF C, of a fd ?m]) simp
  show ?thesis using a b fd by (auto simp: mask_calls)
qed

lemma set_signals_masks:
  assumes C: "signal_contract S blocked watched pend lost" and inv: "signals_inv blocked watched s p"
  shows "mask_result blocked watched (set sigs) ((blocked p - set (sig_mask s)) \<union> maskable (set sigs)) (set_signals S sigs s p)"
proof -
  let ?m = "fold sigset_add sigs []"
  obtain fd where fd: "gn_file (sig_sfd s) = Some fd" "watched p fd \<noteq> None"
    using inv by (auto simp: signals_inv_def)
  obtain a where a: "sg_unblock S p (sig_mask s) = (Inr (), a)" "blocked a = blocked p - set (sig_mask s)" "watched a = watched p"
    by (rule sg_unblock_ok [OF C, of p "sig_mask s"])
  obtain b where b: "sg_block S a ?m = (Inr (), b)" "blocked b = blocked a \<union> maskable (set sigs)" "watched b = watched a"
    by (rule sg_block_ok [OF C, of a ?m]) simp
  have "watched b fd \<noteq> None" using a b fd by simp
  then obtain d where d: "sg_set_mask S b fd ?m = (Inr (), d)" "blocked d = blocked b"
    "watched d = (watched b)(fd \<mapsto> maskable (set sigs))"
    by (rule sg_set_mask_ok [OF C, of b fd ?m]) simp
  show ?thesis using a b d fd by (auto simp: mask_calls)
qed

lemma signals_drop_masks:
  assumes C: "signal_contract S blocked watched pend lost"
  shows "blocked (signals_drop S s p) = blocked p - set (sig_mask s)"
  by (rule sg_unblock_ok [OF C, of p "sig_mask s"]) (simp add: signals_drop_def)

text \<open>
  C37: creating a source and adding, removing and replacing its signals keep the signals of the
  source, without the two that cannot be blocked, blocked for the thread and reported by its
  descriptor, with the mask the call asks for, and change the mask of no other signal, except that
  \<open>remove_signals\<close> also unblocks signals that the source never had. Dropping it unblocks its
  signals. A \<open>Signals::new\<close> that fails leaves the signals blocked all the same.
\<close>

theorem signals_mask_agrees:
  assumes "signal_contract S blocked watched pend lost"
  shows "(case Signals_new S sigs p of (r, p') \<Rightarrow> blocked p' = blocked p \<union> maskable (set sigs) \<and>
      ((\<exists>s. r = Ok s \<and> signals_inv blocked watched s p' \<and> set (sig_mask s) = set sigs) \<or> (\<exists>e. r = Err e))) \<and>
    (signals_inv blocked watched s p \<longrightarrow>
       mask_result blocked watched (set (sig_mask s) \<union> set sigs) (blocked p \<union> maskable (set sigs)) (add_signals S sigs s p) \<and>
       mask_result blocked watched (set (sig_mask s) - set sigs) (blocked p - set sigs) (remove_signals S sigs s p) \<and>
       mask_result blocked watched (set sigs) ((blocked p - set (sig_mask s)) \<union> maskable (set sigs)) (set_signals S sigs s p)) \<and>
    blocked (signals_drop S s p) = blocked p - set (sig_mask s)"
  using Signals_new_masks [OF assms] add_signals_masks [OF assms] remove_signals_masks [OF assms] set_signals_masks [OF assms]
    signals_drop_masks [OF assms]
  by (auto split: prod.split)

text \<open>
  \<open>set_signals\<close> unblocks the old signals before it blocks the new ones, so a signal that is in
  both lists and pending is delivered to the process as an ordinary signal, and lost to the
  source, although the source listens to it before and after the call.
\<close>

theorem set_signals_gap_delivers:
  assumes "signal_contract S blocked watched pend lost" and "signals_inv blocked watched s p"
    and "sg \<in> set (sig_mask s)" and "sg \<in> set sigs" and "sg \<in> pend p"
  shows "\<exists>s' p'. set_signals S sigs s p = (Ok (), s', p') \<and> sg \<in> set (sig_mask s') \<and> sg \<in> lost p' \<and> sg \<notin> pend p'"
proof -
  let ?m = "fold sigset_add sigs []"
  obtain fd where fd: "gn_file (sig_sfd s) = Some fd" "watched p fd \<noteq> None"
    using assms(2) by (auto simp: signals_inv_def)
  obtain a where a: "sg_unblock S p (sig_mask s) = (Inr (), a)" "watched a = watched p" "pend a = pend p - set (sig_mask s)"
    "lost a = lost p \<union> (pend p \<inter> set (sig_mask s))"
    by (rule sg_unblock_ok [OF assms(1), of p "sig_mask s"])
  obtain b where b: "sg_block S a ?m = (Inr (), b)" "watched b = watched a" "pend b = pend a" "lost b = lost a"
    by (rule sg_block_ok [OF assms(1), of a ?m])
  have "watched b fd \<noteq> None" using a b fd by simp
  then obtain d where d: "sg_set_mask S b fd ?m = (Inr (), d)" "pend d = pend b" "lost d = lost b"
    by (rule sg_set_mask_ok [OF assms(1), of b fd ?m])
  show ?thesis
    using a b d fd assms(3-5) by (auto simp: set_signals_def sys_then_def with_sfd_def Let_def)
qed

text \<open>A reference kernel: the four sets, with room for one signalfd.\<close>

record sig_kernel =
  sk_blocked :: "signal set"
  sk_watched :: "raw_fd \<Rightarrow> signal set option"
  sk_pend :: "signal set"
  sk_lost :: "signal set"

definition SGK :: "sig_kernel signal_ops" where
  "SGK = \<lparr>sg_block = (\<lambda>p m. (Inr (), p\<lparr>sk_blocked := sk_blocked p \<union> maskable (set m)\<rparr>)),
     sg_unblock = (\<lambda>p m. (Inr (), p\<lparr>sk_blocked := sk_blocked p - set m, sk_pend := sk_pend p - set m,
        sk_lost := sk_lost p \<union> (sk_pend p \<inter> set m)\<rparr>)),
     sg_open = (\<lambda>p m. if sk_watched p 3 = None then (Inr 3, p\<lparr>sk_watched := (sk_watched p)(3 \<mapsto> maskable (set m))\<rparr>)
        else (Inl (OtherIo 24), p)),
     sg_set_mask = (\<lambda>p fd m. if sk_watched p fd = None then (Inl (OtherIo 9), p)
        else (Inr (), p\<lparr>sk_watched := (sk_watched p)(fd \<mapsto> maskable (set m))\<rparr>)),
     sg_read = (\<lambda>p fd. (Inr None, p))\<rparr>"

lemma SGK_contract: "signal_contract SGK sk_blocked sk_watched sk_pend sk_lost"
  by (simp add: signal_contract_def SGK_def)

theorem signals_mask_agrees_witness:
  "\<exists>s p s1 p1. Signals_new SGK [SIGUSR1, SIGKILL]
       \<lparr>sk_blocked = {SIGHUP}, sk_watched = Map.empty, sk_pend = {}, sk_lost = {}\<rparr> = (Ok s, p) \<and>
     set_signals SGK [SIGUSR2] s p = (Ok (), s1, p1) \<and> sk_blocked p1 = {SIGHUP, SIGUSR2} \<and> set (sig_mask s1) = {SIGUSR2}"
proof -
  let ?p0 = "\<lparr>sk_blocked = {SIGHUP}, sk_watched = Map.empty, sk_pend = {}, sk_lost = {}\<rparr>"
  obtain s p where n: "Signals_new SGK [SIGUSR1, SIGKILL] ?p0 = (Ok s, p)"
    by (auto simp: Signals_new_def SGK_def sys_then_def Let_def sigset_add_def)
  have inv: "signals_inv sk_blocked sk_watched s p" "sk_blocked p = {SIGHUP, SIGUSR1}" "set (sig_mask s) = {SIGUSR1, SIGKILL}"
    using signals_mask_agrees [OF SGK_contract, where sigs = "[SIGUSR1, SIGKILL]" and p = ?p0] n by (auto simp: maskable_def)
  have "mask_result sk_blocked sk_watched {SIGUSR2} ((sk_blocked p - set (sig_mask s)) \<union> maskable {SIGUSR2}) (set_signals SGK [SIGUSR2] s p)"
    using signals_mask_agrees [OF SGK_contract, where sigs = "[SIGUSR2]" and p = p and s = s] inv(1) by simp
  moreover have "(sk_blocked p - set (sig_mask s)) \<union> maskable {SIGUSR2} = {SIGHUP, SIGUSR2}"
    unfolding inv(2,3) maskable_def by auto
  ultimately show ?thesis using n by (auto simp: mask_result_def split: prod.splits)
qed

theorem set_signals_gap_delivers_witness:
  "\<exists>s' p'. set_signals SGK [SIGTERM] \<lparr>sig_sfd = Generic_new 3 Interest_READ Level, sig_mask = [SIGTERM]\<rparr>
       \<lparr>sk_blocked = {SIGTERM}, sk_watched = [3 \<mapsto> {SIGTERM}], sk_pend = {SIGTERM}, sk_lost = {}\<rparr> = (Ok (), s', p') \<and>
     SIGTERM \<in> set (sig_mask s') \<and> SIGTERM \<in> sk_lost p' \<and> SIGTERM \<notin> sk_pend p'"
  by (rule set_signals_gap_delivers [OF SGK_contract]) (simp_all add: Generic_new_def signals_inv_def maskable_def)

end
