(* ===== verification/Transient_Source.thy ===== *)
theory Transient_Source
  imports Generic_Source
begin

text \<open>
  \<open>src/src/sources/transient.rs\<close>: a wrapper for a child source that can go away while its parent
  stays in the loop. The wrapper answers its parent only with \<open>Continue\<close> or \<open>Reregister\<close> and
  carries the child's own requests in its state until the next re-registration.
\<close>

datatype 't transient_state =
    TKeep 't | TRegister 't | TDisable 't | TRemove 't | TReplace (tr_new: 't) (tr_old: 't) | TNone

definition transient_default :: "'t transient_state" where
  "transient_default = TNone"

definition transient_from :: "'t \<Rightarrow> 't transient_state" where
  "transient_from source = TRegister source"

fun replace_state :: "('t \<Rightarrow> 't transient_state) \<Rightarrow> 't transient_state \<Rightarrow> 't transient_state" where
  "replace_state replacer (TKeep source) = replacer source"
| "replace_state replacer (TRegister source) = replacer source"
| "replace_state replacer (TRemove source) = replacer source"
| "replace_state replacer (TDisable source) = replacer source"
| "replace_state replacer (TReplace source _) = replacer source"
| "replace_state replacer TNone = TNone"

text \<open>\<open>map\<close>: \<open>f\<close> may change the source it is given.\<close>

fun transient_map :: "('t \<Rightarrow> 'u \<times> 't) \<Rightarrow> 't transient_state \<Rightarrow> 'u option \<times> 't transient_state" where
  "transient_map f (TKeep s) = (case f s of (u, s') \<Rightarrow> (Some u, TKeep s'))"
| "transient_map f (TRegister s) = (case f s of (u, s') \<Rightarrow> (Some u, TRegister s'))"
| "transient_map f (TDisable s) = (case f s of (u, s') \<Rightarrow> (Some u, TDisable s'))"
| "transient_map f (TReplace s old) = (case f s of (u, s') \<Rightarrow> (Some u, TReplace s' old))"
| "transient_map f (TRemove s) = (None, TRemove s)"
| "transient_map f TNone = (None, TNone)"

definition transient_is_none :: "'t transient_state \<Rightarrow> bool" where
  "transient_is_none st = (case st of TNone \<Rightarrow> True | _ \<Rightarrow> False)"

definition transient_remove :: "'t transient_state \<Rightarrow> 't transient_state" where
  "transient_remove st = replace_state TRemove st"

definition transient_replace :: "'t \<Rightarrow> 't transient_state \<Rightarrow> 't transient_state" where
  "transient_replace new st = replace_state (\<lambda>old. TReplace new old) st"

section \<open>EventSource\<close>

text \<open>\<open>child\<close> is the child's \<open>process_events\<close> with the callback in it.\<close>

definition transient_process :: "('t \<Rightarrow> readiness \<Rightarrow> token \<Rightarrow> 'w \<Rightarrow> ('e, post_action) outcome \<times> 't \<times> 'w)
    \<Rightarrow> 't transient_state \<Rightarrow> readiness \<Rightarrow> token \<Rightarrow> 'w \<Rightarrow> ('e, post_action) outcome \<times> 't transient_state \<times> 'w" where
  "transient_process child st rd token w =
     (case st of
        TKeep source \<Rightarrow>
          (case child source rd token w of
             (Ok child_post_action, source', w') \<Rightarrow>
               (case child_post_action of
                  Continue \<Rightarrow> (Ok Continue, TKeep source', w')
                | Reregister \<Rightarrow> (Ok Reregister, TKeep source', w')
                | Disable \<Rightarrow> (Ok Reregister, replace_state TDisable (TKeep source'), w')
                | Remove \<Rightarrow> (Ok Reregister, replace_state TRemove (TKeep source'), w'))
           | (Err e, source', w') \<Rightarrow> (Err e, TKeep source', w')
           | (Panic, source', w') \<Rightarrow> (Panic, TKeep source', w')
           | (Diverge, source', w') \<Rightarrow> (Diverge, TKeep source', w'))
      | _ \<Rightarrow> (Ok Continue, st, w))"

text \<open>A call on the child in place; \<open>f\<close> puts it back and \<open>g\<close> is the state after a success.\<close>

definition child_call :: "unit cresult \<times> 't \<times> 'x \<Rightarrow> ('t \<Rightarrow> 't transient_state) \<Rightarrow> ('t \<Rightarrow> 't transient_state)
    \<Rightarrow> unit cresult \<times> 't transient_state \<times> 'x" where
  "child_call res f g = (case res of (r, s, x) \<Rightarrow> (r, if is_ok r then g s else f s, x))"

definition transient_register :: "('t, 'p) register_op \<Rightarrow> ('t transient_state, 'p) register_op" where
  "transient_register reg st P tf =
     (case st of
        TKeep source \<Rightarrow> child_call (reg source P tf) TKeep TKeep
      | TRegister source \<Rightarrow> child_call (reg source P tf) TRegister (\<lambda>s. replace_state TKeep (TRegister s))
      | TDisable source \<Rightarrow> child_call (reg source P tf) TDisable (\<lambda>s. replace_state TKeep (TDisable s))
      | TReplace source old \<Rightarrow>
          child_call (reg source P tf) (\<lambda>s. TReplace s old) (\<lambda>s. replace_state TKeep (TReplace s old))
      | TRemove source \<Rightarrow> (Ok (), replace_state (\<lambda>_. TNone) st, P, tf)
      | TNone \<Rightarrow> (Ok (), st, P, tf))"

definition transient_reregister :: "('t, 'p) register_op \<Rightarrow> ('t, 'p) register_op \<Rightarrow> ('t, 'p) unregister_op
    \<Rightarrow> ('t transient_state, 'p) register_op" where
  "transient_reregister reg rereg unreg st P tf =
     (case st of
        TKeep source \<Rightarrow> child_call (rereg source P tf) TKeep TKeep
      | TRegister source \<Rightarrow> child_call (reg source P tf) TRegister (\<lambda>s. replace_state TKeep (TRegister s))
      | TDisable source \<Rightarrow>
          (case unreg source P of (r, s, P') \<Rightarrow> (r, TDisable s, P', tf))
      | TRemove source \<Rightarrow>
          (case unreg source P of
             (r, s, P') \<Rightarrow> (r, if is_ok r then replace_state (\<lambda>_. TNone) (TRemove s) else TRemove s, P', tf))
      | TReplace new old \<Rightarrow>
          (case unreg old P of
             (r, old', P') \<Rightarrow>
               if is_ok r then
                 child_call (reg new P' tf) (\<lambda>s. TReplace s old') (\<lambda>s. replace_state TKeep (TReplace s old'))
               else (r, TReplace new old', P', tf))
      | TNone \<Rightarrow> (Ok (), st, P, tf))"

definition transient_unregister :: "('t, 'p) unregister_op \<Rightarrow> ('t transient_state, 'p) unregister_op" where
  "transient_unregister unreg st P =
     (case st of
        TKeep source \<Rightarrow> child_call (unreg source P) TKeep TKeep
      | TRegister source \<Rightarrow> child_call (unreg source P) TRegister TRegister
      | TDisable source \<Rightarrow> child_call (unreg source P) TDisable TDisable
      | TRemove source \<Rightarrow> child_call (unreg source P) TRemove (\<lambda>s. replace_state (\<lambda>_. TNone) (TRemove s))
      | TReplace new old \<Rightarrow>
          (case unreg old P of
             (r, old', P') \<Rightarrow>
               if is_ok r then
                 child_call (unreg new P') (\<lambda>s. TReplace s old') (\<lambda>s. replace_state TRegister (TReplace s old'))
               else (r, TReplace new old', P'))
      | TNone \<Rightarrow> (Ok (), st, P))"

definition transient_ops :: "('t, 'p, 'w) source_ops \<Rightarrow> ('t transient_state, 'p, 'w) source_ops" where
  "transient_ops T =
     \<lparr>so_process = transient_process (so_process T),
      so_register = transient_register (so_register T),
      so_reregister = transient_reregister (so_register T) (so_reregister T) (so_unregister T),
      so_unregister = transient_unregister (so_unregister T),
      so_needs_extra = default_needs_extra, so_before_sleep = default_before_sleep,
      so_before_handle = default_before_handle\<rparr>"

lemmas transient_source_defs [source_defs] = transient_process_def transient_register_def
  transient_reregister_def transient_unregister_def child_call_def

section \<open>The child's registration\<close>

text \<open>
  The registration contract of a child: \<open>reg c\<close> says that \<open>c\<close> is registered. A success does what
  it says, a failure changes nothing, and processing an event does not register or unregister.
\<close>

locale child_source =
  fixes reg :: "'t \<Rightarrow> bool"
    and T :: "('t, 'p, 'w) source_ops"
  assumes register_reg: "so_register T c P tf = (r, c', P', tf') \<Longrightarrow> reg c' = (is_ok r \<or> reg c)"
    and reregister_reg: "so_reregister T c P tf = (r, c', P', tf') \<Longrightarrow> reg c' = reg c"
    and unregister_reg: "so_unregister T c P = (r, c', P') \<Longrightarrow> reg c' = (\<not> is_ok r \<and> reg c)"
    and process_reg: "so_process T c rd t w = (pa, c', w') \<Longrightarrow> reg c' = reg c"
begin

text \<open>
  What each state says about its children, while the wrapper itself is registered and its
  requests have been carried out, and while one is waiting to be.
\<close>

definition settled :: "'t transient_state \<Rightarrow> bool" where
  "settled st = (case st of TKeep c \<Rightarrow> reg c | TDisable c \<Rightarrow> \<not> reg c | TNone \<Rightarrow> True | _ \<Rightarrow> False)"

definition waiting :: "'t transient_state \<Rightarrow> bool" where
  "waiting st = (case st of TKeep c \<Rightarrow> reg c | TRegister c \<Rightarrow> \<not> reg c | TDisable c \<Rightarrow> reg c | TRemove c \<Rightarrow> reg c
     | TReplace new old \<Rightarrow> \<not> reg new \<and> reg old | TNone \<Rightarrow> True)"

lemma register_settles:
  assumes "transient_register (so_register T) (TRegister c) P tf = (Ok (), st, P', tf')"
  shows "\<exists>c'. st = TKeep c' \<and> reg c'"
proof -
  obtain r c' Q ug where s: "so_register T c P tf = (r, c', Q, ug)" by (metis prod.collapse)
  from register_reg [OF s] s assms show ?thesis by (auto simp: source_defs)
qed

lemma process_waits:
  assumes "reg c" and "so_process T c rd t w = (Ok pa, c', w')"
  shows "\<exists>st. transient_process (so_process T) (TKeep c) rd t w
      = (Ok (if pa = Continue then Continue else Reregister), st, w') \<and> waiting st \<and>
    st = (case pa of Continue \<Rightarrow> TKeep c' | Reregister \<Rightarrow> TKeep c' | Disable \<Rightarrow> TDisable c' | Remove \<Rightarrow> TRemove c')"
  using assms process_reg [OF assms(2)]
  by (cases pa) (simp_all add: source_defs waiting_def)

lemma reregister_settles:
  assumes "waiting st" and "so_reregister (transient_ops T) st P tf = (Ok (), st', P', tf')"
  shows "settled st'"
proof (cases st)
  case (TKeep c)
  with assms reregister_reg [of c P tf] show ?thesis
    by (auto simp: source_defs transient_ops_def waiting_def settled_def split: prod.splits)
next
  case (TRegister c)
  with assms register_reg [of c P tf] show ?thesis
    by (auto simp: source_defs transient_ops_def waiting_def settled_def split: prod.splits)
next
  case (TDisable c)
  with assms unregister_reg [of c P] show ?thesis
    by (auto simp: source_defs transient_ops_def waiting_def settled_def split: prod.splits)
next
  case (TRemove c)
  with assms show ?thesis
    by (auto simp: source_defs transient_ops_def settled_def split: prod.splits)
next
  case (TReplace new old)
  with assms register_reg show ?thesis
    by (fastforce simp: source_defs transient_ops_def waiting_def settled_def split: prod.splits if_splits)
next
  case TNone
  with assms show ?thesis by (auto simp: source_defs transient_ops_def settled_def)
qed

lemma remove_waits: "waiting st \<Longrightarrow> (\<exists>c. st = TKeep c) \<or> st = TNone \<Longrightarrow> waiting (transient_remove st)"
  by (auto simp: transient_remove_def waiting_def)

lemma replace_waits: "st = TKeep c \<Longrightarrow> waiting st \<Longrightarrow> \<not> reg new \<Longrightarrow> waiting (transient_replace new st)"
  by (auto simp: transient_replace_def waiting_def)

end

text \<open>The \<open>Generic\<close> source keeps that contract, with its back-reference as the registration.\<close>

lemma generic_register_flag:
  "generic_register K as_fd g P tf = (r, g', P', tf') \<Longrightarrow> gn_poller g' = (is_ok r \<or> gn_poller g)"
  "generic_reregister K as_fd g P tf = (r, g', P', tf') \<Longrightarrow> gn_poller g' = gn_poller g"
  "generic_unregister K as_fd g P = (r, g', P') \<Longrightarrow> gn_poller g' = (\<not> is_ok r \<and> gn_poller g)"
  "generic_process callback g rd t w = (s, g', w') \<Longrightarrow> gn_poller g' = gn_poller g"
  by (auto simp: source_defs generic_process_def split: outcome.splits option.splits prod.splits if_splits)

interpretation generic_child: child_source gn_poller "generic_ops K as_fd box callback" for K as_fd box callback
proof (unfold_locales, goal_cases)
  case (1 c P tf r c' P' tf')
  then show ?case by (intro generic_register_flag(1)) (simp add: generic_ops_def)
next
  case (2 c P tf r c' P' tf')
  then show ?case by (intro generic_register_flag(2)) (simp add: generic_ops_def)
next
  case (3 c P r c' P')
  then show ?case by (intro generic_register_flag(3)) (simp add: generic_ops_def)
next
  case (4 c rd t w pa c' w')
  obtain s where "generic_process callback c rd t w = (s, c', w')"
    using 4 by (cases "generic_process callback c rd t w") (auto simp: generic_ops_def box_process_def)
  then show ?case by (rule generic_register_flag(4))
qed

section \<open>Properties\<close>

text \<open>
  C28: a registered child's post action never reaches the parent as \<open>Disable\<close> or \<open>Remove\<close>: the
  wrapper answers \<open>Continue\<close> or asks to be re-registered. The next re-registration of the wrapper makes exactly one
  call on the child, with its result: it re-registers a child that goes on, and unregisters one that asked to be disabled or removed.
  Then the child is where it asked to be: registered and kept, unregistered and kept, or
  unregistered and gone. If its call fails the child stays registered, and the wrapper keeps the request.
\<close>

theorem transient_carries_out_post_action:
  assumes "child_source reg T" and "reg c" and "so_process T c rd t w = (Ok pa, c', w')"
    and "so_process (transient_ops T) (TKeep c) rd t w = (r, st, w2)"
    and "so_reregister (transient_ops T) st P tf = (q, st', P', tf')"
  shows "r = Ok (if pa = Continue then Continue else Reregister) \<and> w2 = w' \<and>
    (\<exists>c2. (case pa of
        Continue \<Rightarrow> so_reregister T c' P tf = (q, c2, P', tf') \<and> reg c2 \<and> st' = TKeep c2
      | Reregister \<Rightarrow> so_reregister T c' P tf = (q, c2, P', tf') \<and> reg c2 \<and> st' = TKeep c2
      | Disable \<Rightarrow> so_unregister T c' P = (q, c2, P') \<and> tf' = tf \<and> reg c2 = (\<not> is_ok q) \<and> st' = TDisable c2
      | Remove \<Rightarrow> so_unregister T c' P = (q, c2, P') \<and> tf' = tf \<and> reg c2 = (\<not> is_ok q) \<and>
          st' = (if is_ok q then TNone else TRemove c2)))"
proof -
  have p: "transient_process (so_process T) (TKeep c) rd t w = (r, st, w2)"
    using assms(4) by (simp add: transient_ops_def)
  from child_source.process_waits [OF assms(1,2,3)] p
  have r: "r = Ok (if pa = Continue then Continue else Reregister)" "w2 = w'"
    and st: "st = (case pa of Continue \<Rightarrow> TKeep c' | Reregister \<Rightarrow> TKeep c' | Disable \<Rightarrow> TDisable c' | Remove \<Rightarrow> TRemove c')"
    by auto
  have c': "reg c'" using child_source.process_reg [OF assms(1,3)] assms(2) by simp
  obtain e1 d1 P1 f1 where re: "so_reregister T c' P tf = (e1, d1, P1, f1)" by (metis prod.collapse)
  obtain e2 d2 P2 where un: "so_unregister T c' P = (e2, d2, P2)" by (metis prod.collapse)
  show ?thesis
    using assms(5) st r c' re un child_source.reregister_reg [OF assms(1) re] child_source.unregister_reg [OF assms(1) un]
    by (cases pa) (auto simp: source_defs transient_ops_def split: if_splits)
qed

text \<open>
  Replacing a registered child and re-registering the wrapper unregisters the old child,
  registers the new one, and keeps the new one.
\<close>

theorem transient_replace_swaps:
  assumes "child_source reg T" and "reg old" and "\<not> reg new"
    and "so_reregister (transient_ops T) (transient_replace new (TKeep old)) P tf = (Ok (), st, P', tf')"
  shows "\<exists>old' Q new'. so_unregister T old P = (Ok (), old', Q) \<and> \<not> reg old' \<and>
    so_register T new Q tf = (Ok (), new', P', tf') \<and> reg new' \<and> st = TKeep new'"
proof -
  obtain r old' Q where u: "so_unregister T old P = (r, old', Q)" by (metis prod.collapse)
  obtain s new' R ug where n: "so_register T new Q tf = (s, new', R, ug)" by (metis prod.collapse)
  from assms(4) u n child_source.unregister_reg [OF assms(1) u] child_source.register_reg [OF assms(1) n]
  show ?thesis
    by (auto simp: source_defs transient_ops_def transient_replace_def is_ok_iff split: if_splits)
qed

text \<open>
  A wrapper whose \<open>Generic\<close> child asked to be disabled stays in its \<open>Disable\<close> state after the
  re-registration that unregistered the child; the next unregistration of the wrapper, as when
  its parent is removed, unregisters the child again and fails, and so does another
  re-registration.
\<close>

theorem transient_disabled_twice_fails:
  assumes "poller_contract K regs" and "gn_file g = Some file"
    and "so_reregister (transient_ops (generic_ops K as_fd box callback)) (TDisable g) P tf = (Ok (), st, P', tf')"
  shows "(\<exists>e st2 P2. so_unregister (transient_ops (generic_ops K as_fd box callback)) st P' = (Err e, st2, P2)) \<and>
    (\<exists>e st2 P2 tf2. so_reregister (transient_ops (generic_ops K as_fd box callback)) st P' tf' = (Err e, st2, P2, tf2))"
proof -
  obtain r Q where u: "Poll_unregister K (as_fd file) P = (r, Q)" by force
  with assms(2,3) have r: "r = Ok ()" "P' = Q" "st = TDisable (g\<lparr>gn_poller := False, gn_token := None\<rparr>)"
    by (auto simp: source_defs transient_ops_def generic_ops_def split: outcome.splits)
  have "regs (poller Q) (as_fd file) = None" using Poll_unregister_table [OF assms(1) u] r(1) by auto
  moreover obtain r2 Q2 where u2: "Poll_unregister K (as_fd file) Q = (r2, Q2)" by force
  ultimately obtain e where "r2 = Err e" using Poll_unregister_table [OF assms(1) u2] by auto
  with u2 r assms(2) show ?thesis
    by (simp add: source_defs transient_ops_def generic_ops_def)
qed

section \<open>Witnesses\<close>

text \<open>A \<open>Generic\<close> child on the scripted poller whose callback disables it.\<close>

definition disabling_child :: "(nat generic, script_poller, unit) source_ops" where
  "disabling_child = generic_ops SP (\<lambda>f. f) BIo (\<lambda>rd f w. (Ok Disable, f, w))"

lemma disabling_child_source: "child_source gn_poller disabling_child"
  unfolding disabling_child_def by (rule generic_child.child_source_axioms)

definition child_poll :: "script_poller poll" where
  "child_poll = \<lparr>poller = \<lparr>sp_regs = [(7, \<lparr>ev_key = 0, ev_readable = True, ev_writable = False\<rparr>, PollLevel)], sp_now = 0,
     sp_level = True, sp_script = []\<rparr>, level_triggered = None, timers = TimerWheel_new\<rparr>"

definition registered_child :: "nat generic" where
  "registered_child = \<lparr>gn_file = Some 7, gn_interest = Interest_READ, gn_mode = Level, gn_poller = True,
     gn_token = Some \<lparr>tok_id = 0, tok_version = 0, tok_sub_id = 0\<rparr>\<rparr>"

theorem transient_carries_out_post_action_witness:
  "\<exists>st w2 P' tf' c2. so_process (transient_ops disabling_child) (TKeep registered_child) Readiness_EMPTY
       \<lparr>tok_id = 0, tok_version = 0, tok_sub_id = 0\<rparr> () = (Ok Reregister, st, w2) \<and>
     so_reregister (transient_ops disabling_child) st child_poll (TokenFactory_new \<lparr>tok_id = 0, tok_version = 0, tok_sub_id = 0\<rparr>)
       = (Ok (), TDisable c2, P', tf') \<and> \<not> gn_poller c2"
proof -
  let ?t = "\<lparr>tok_id = 0, tok_version = 0, tok_sub_id = 0\<rparr> :: token_inner"
  have p: "so_process disabling_child registered_child Readiness_EMPTY ?t () = (Ok Disable, registered_child, ())"
    by (simp add: disabling_child_def generic_ops_def generic_process_def registered_child_def box_process_def)
  then have q: "so_process (transient_ops disabling_child) (TKeep registered_child) Readiness_EMPTY ?t ()
      = (Ok Reregister, TDisable registered_child, ())"
    by (simp add: transient_ops_def transient_process_def)
  obtain st' P' tf' where r: "so_reregister (transient_ops disabling_child) (TDisable registered_child) child_poll (TokenFactory_new ?t)
      = (Ok (), st', P', tf')"
    by (simp add: source_defs poll_defs transient_ops_def disabling_child_def generic_ops_def registered_child_def
        child_poll_def SP_def)
  from transient_carries_out_post_action [OF disabling_child_source _ p q r] q r show ?thesis
    by (auto simp: registered_child_def)
qed

theorem transient_replace_swaps_witness:
  "\<exists>new' P' tf'. so_reregister (transient_ops disabling_child) (transient_replace (Generic_new 9 Interest_READ Level) (TKeep registered_child))
       child_poll (TokenFactory_new \<lparr>tok_id = 0, tok_version = 0, tok_sub_id = 0\<rparr>) = (Ok (), TKeep new', P', tf') \<and> gn_poller new'"
proof -
  let ?t = "\<lparr>tok_id = 0, tok_version = 0, tok_sub_id = 0\<rparr> :: token_inner"
  obtain st' P' tf' where r: "so_reregister (transient_ops disabling_child)
      (transient_replace (Generic_new 9 Interest_READ Level) (TKeep registered_child)) child_poll (TokenFactory_new ?t)
      = (Ok (), st', P', tf')"
    by (simp add: source_defs poll_defs transient_ops_def disabling_child_def generic_ops_def registered_child_def
        child_poll_def SP_def Generic_new_def transient_replace_def sp_drop_def Let_def)
  from transient_replace_swaps [OF disabling_child_source _ _ r] r show ?thesis
    by (auto simp: registered_child_def Generic_new_def)
qed

theorem transient_disabled_twice_fails_witness:
  "\<exists>st P' tf' e st2 P2. so_reregister (transient_ops disabling_child) (TDisable registered_child) child_poll
       (TokenFactory_new \<lparr>tok_id = 0, tok_version = 0, tok_sub_id = 0\<rparr>) = (Ok (), st, P', tf') \<and>
     so_unregister (transient_ops disabling_child) st P' = (Err e, st2, P2)"
proof -
  let ?t = "\<lparr>tok_id = 0, tok_version = 0, tok_sub_id = 0\<rparr> :: token_inner"
  obtain st' P' tf' where r: "so_reregister (transient_ops disabling_child) (TDisable registered_child) child_poll (TokenFactory_new ?t)
      = (Ok (), st', P', tf')"
    by (simp add: source_defs poll_defs transient_ops_def disabling_child_def generic_ops_def registered_child_def
        child_poll_def SP_def)
  from transient_disabled_twice_fails [OF SP_contract _ r [unfolded disabling_child_def]] r show ?thesis
    by (auto simp: registered_child_def disabling_child_def)
qed

end
