(* ===== verification/Batch.thy ===== *)
theory Batch
  imports Transient_Source
begin

text \<open>
  \<open>src/src/macros.rs\<close>: \<open>batch_register!\<close>, \<open>batch_reregister!\<close> and \<open>batch_unregister!\<close> call the operation
  on each source in the order of the list and return at the first error. The sources of a batch
  may have different types; \<open>ops\<close> gives the operation of each.
\<close>

fun batch_register :: "('t, 'p) register_op \<Rightarrow> 't list \<Rightarrow> 'p poll \<Rightarrow> token_factory
    \<Rightarrow> unit cresult \<times> 't list \<times> 'p poll \<times> token_factory" where
  "batch_register reg [] P tf = (Ok (), [], P, tf)"
| "batch_register reg (source # sources) P tf =
     (case reg source P tf of
        (Ok _, source', P', tf') \<Rightarrow>
          (case batch_register reg sources P' tf' of (r, sources', P2, tf2) \<Rightarrow> (r, source' # sources', P2, tf2))
      | (r, source', P', tf') \<Rightarrow> (r, source' # sources, P', tf'))"

fun batch_reregister :: "('t, 'p) register_op \<Rightarrow> 't list \<Rightarrow> 'p poll \<Rightarrow> token_factory
    \<Rightarrow> unit cresult \<times> 't list \<times> 'p poll \<times> token_factory" where
  "batch_reregister rereg [] P tf = (Ok (), [], P, tf)"
| "batch_reregister rereg (source # sources) P tf =
     (case rereg source P tf of
        (Ok _, source', P', tf') \<Rightarrow>
          (case batch_reregister rereg sources P' tf' of (r, sources', P2, tf2) \<Rightarrow> (r, source' # sources', P2, tf2))
      | (r, source', P', tf') \<Rightarrow> (r, source' # sources, P', tf'))"

fun batch_unregister :: "('t, 'p) unregister_op \<Rightarrow> 't list \<Rightarrow> 'p poll \<Rightarrow> unit cresult \<times> 't list \<times> 'p poll" where
  "batch_unregister unreg [] P = (Ok (), [], P)"
| "batch_unregister unreg (source # sources) P =
     (case unreg source P of
        (Ok _, source', P') \<Rightarrow>
          (case batch_unregister unreg sources P' of (r, sources', P2) \<Rightarrow> (r, source' # sources', P2))
      | (r, source', P') \<Rightarrow> (r, source' # sources, P'))"

lemma batch_register_count:
  assumes "child_source reg T"
  shows "batch_register (so_register T) cs P tf = (r, cs', P', tf') \<Longrightarrow> \<forall>c \<in> set cs. \<not> reg c \<Longrightarrow>
    \<exists>k. length cs' = length cs \<and> k \<le> length cs \<and> (\<forall>i < length cs. reg (cs' ! i) \<longleftrightarrow> i < k) \<and> drop (Suc k) cs' = drop (Suc k) cs \<and>
      (is_ok r \<longleftrightarrow> k = length cs)"
proof (induction cs arbitrary: P tf cs' r P' tf')
  case Nil
  then show ?case by auto
next
  case (Cons c cs)
  obtain s c' Q ug where s: "so_register T c P tf = (s, c', Q, ug)" by (metis prod.collapse)
  note flag = child_source.register_reg [OF assms s]
  show ?case
  proof (cases "is_ok s")
    case True
    obtain ds where ds: "batch_register (so_register T) cs Q ug = (r, ds, P', tf')" "cs' = c' # ds"
      using Cons.prems(1) s True by (auto simp: is_ok_iff split: prod.splits)
    from Cons.IH [OF ds(1)] Cons.prems(2) obtain k where k: "length ds = length cs" "k \<le> length cs"
      "\<forall>i < length cs. reg (ds ! i) \<longleftrightarrow> i < k" "drop (Suc k) ds = drop (Suc k) cs" "is_ok r \<longleftrightarrow> k = length cs" by auto
    with True flag ds(2) show ?thesis
      by (intro exI [of _ "Suc k"]) (auto simp: nth_Cons split: nat.splits)
  next
    case False
    then have "r = s" "cs' = c' # cs" using Cons.prems(1) s by (cases s; auto)+
    with False flag Cons.prems(2) show ?thesis
      by (intro exI [of _ 0]) (auto simp: nth_Cons split: nat.splits)
  qed
qed

text \<open>
  \<open>batch_register!\<close> on sources that are not registered registers a prefix of the list: all of
  them if it succeeds, and if it fails exactly those before the source whose registration
  failed; these stay registered, and the sources after it are untouched.
\<close>

theorem batch_register_prefix:
  assumes "child_source reg T" and "batch_register (so_register T) cs P tf = (r, cs', P', tf')"
    and "\<forall>c \<in> set cs. \<not> reg c"
  shows "\<exists>k \<le> length cs. length cs' = length cs \<and> (\<forall>i < length cs. reg (cs' ! i) \<longleftrightarrow> i < k) \<and>
    drop (Suc k) cs' = drop (Suc k) cs \<and> (is_ok r \<longleftrightarrow> k = length cs)"
  using batch_register_count [OF assms] by blast

theorem batch_register_prefix_witness:
  "\<exists>cs' P' tf' e. batch_register (so_register disabling_child) [Generic_new 8 Interest_READ Level, Generic_new 7 Interest_READ Level] child_poll
      (TokenFactory_new \<lparr>tok_id = 1, tok_version = 0, tok_sub_id = 0\<rparr>) = (Err e, cs', P', tf') \<and>
    gn_poller (cs' ! 0) \<and> \<not> gn_poller (cs' ! 1)"
proof -
  let ?cs = "[Generic_new 8 Interest_READ Level, Generic_new 7 Interest_READ Level] :: nat generic list"
  let ?tf = "TokenFactory_new \<lparr>tok_id = 1, tok_version = 0, tok_sub_id = 0\<rparr>"
  obtain e cs' P' tf' where b: "batch_register (so_register disabling_child) ?cs child_poll ?tf = (Err e, cs', P', tf')"
    and l: "gn_poller (cs' ! 0)"
    by (simp add: source_defs poll_defs disabling_child_def generic_ops_def child_poll_def SP_def Generic_new_def
        forget_sub_id_def TokenFactory_new_def factory_token_eq Let_def)
  from batch_register_prefix [OF disabling_child_source b] obtain k where
    "k \<le> 2" "\<forall>i < 2. gn_poller (cs' ! i) \<longleftrightarrow> i < k" "k \<noteq> 2"
    by (auto simp: Generic_new_def numeral_2_eq_2)
  with l have "\<not> gn_poller (cs' ! 1)" by auto
  with b l show ?thesis by blast
qed

end
