(* ===== verification/Zmq_Source.thy ===== *)
theory Zmq_Source
  imports Channel_Source
begin

text \<open>
  \<open>src/doc/src/zmqsource.rs\<close>, the composite source of the book: a ZeroMQ socket, a channel of messages
  to send over it, and a ping that wakes the source after each (re-)registration, since the
  descriptor of the socket is edge-triggered. The operations of crate \<open>zmq\<close> on the socket \<open>'z\<close> are a
  record; \<open>'m\<close> is what is sent and \<open>'r\<close> a received multipart message. The queue \<open>outbox\<close> is captured
  by the channel's callback, so it is a component of the world, as the socket is.
\<close>

record ('z, 'm, 'r, 'e) zmq_ops =
  zq_events :: "'z \<Rightarrow> ('e + bool \<times> bool) \<times> 'z"
  zq_send :: "'z \<Rightarrow> 'm \<Rightarrow> ('e + unit) \<times> 'z"
  zq_recv :: "'z \<Rightarrow> ('e + 'r) \<times> 'z"
  zq_set_linger :: "'z \<Rightarrow> int \<Rightarrow> ('e + unit) \<times> 'z"
  zq_set_rcvtimeo :: "'z \<Rightarrow> int \<Rightarrow> ('e + unit) \<times> 'z"
  zq_set_sndtimeo :: "'z \<Rightarrow> int \<Rightarrow> ('e + unit) \<times> 'z"
  zq_last_endpoint :: "'z \<Rightarrow> (string option) \<times> 'z"
  zq_disconnect :: "'z \<Rightarrow> string \<Rightarrow> ('e + unit) \<times> 'z"

text \<open>The contexts that \<open>anyhow\<close> adds to an error.\<close>

datatype 'e zmq_error =
  AfterRegistration boxed_error | OutgoingMessages boxed_error | ReadEvents 'e | SendMessage 'e
  | ReceiveMessage 'e | EventCallback io_error

text \<open>The wake-up ping's handle and the outbox are given separately.\<close>

record 'src zmq_source =
  zm_socket :: "raw_fd generic"
  zm_receiver :: "'src channel"
  zm_wake :: 'src

definition zmq_from_socket :: "('w, 'm mpsc) access \<Rightarrow> ('w, 'm list) access \<Rightarrow> ('w \<Rightarrow> (io_error + 'h \<times> 'src) \<times> 'w)
    \<Rightarrow> raw_fd \<Rightarrow> 'w \<Rightarrow> (io_error, 'src zmq_source \<times> 'h \<times> 'h) outcome \<times> 'w" where
  "zmq_from_socket q ob make_ping fd w =
     (case channel_new None q make_ping w of
        (Ok (mpsc_sender, mpsc_receiver), w1) \<Rightarrow>
          (case make_ping w1 of
             (Inr (wake_ping_sender, wake_ping_receiver), w2) \<Rightarrow>
               (Ok (\<lparr>zm_socket = Generic_new fd Interest_READ Edge, zm_receiver = mpsc_receiver, zm_wake = wake_ping_receiver\<rparr>,
                    mpsc_sender, wake_ping_sender), acc_put ob [] w2)
           | (Inl e, w2) \<Rightarrow> (Err e, w2))
      | (_, w1) \<Rightarrow> (Panic, w1))"

section \<open>Events\<close>

text \<open>The channel's callback: a message goes to the outbox, \<open>Closed\<close> is ignored.\<close>

fun push_outbox :: "('w, 'm list) access \<Rightarrow> 'm event \<Rightarrow> 'w \<Rightarrow> 'w" where
  "push_outbox ob (Msg msg) w = acc_put ob (acc_get ob w @ [msg]) w"
| "push_outbox ob Closed w = w"

text \<open>
  The loop over the socket, with fuel; \<open>zmq_send_one\<close> is its first half, which gives whether the
  socket was used.
\<close>

definition zmq_send_one :: "('z, 'm, 'r, 'e) zmq_ops \<Rightarrow> ('w, 'z) access \<Rightarrow> ('w, 'm list) access \<Rightarrow> bool \<Rightarrow> 'w
    \<Rightarrow> ('e zmq_error, bool) outcome \<times> 'w" where
  "zmq_send_one Z zs ob pollout w =
     (case acc_get ob w of
        parts # rest \<Rightarrow>
          if pollout then
            (case on_component zs (\<lambda>z. zq_send Z z parts) (acc_put ob rest w) of
               (Inr _, w') \<Rightarrow> (Ok True, w')
             | (Inl e, w') \<Rightarrow> (Err (SendMessage e), w'))
          else (Ok False, w)
      | [] \<Rightarrow> (Ok False, w))"

definition zmq_recv_one :: "('z, 'm, 'r, 'e) zmq_ops \<Rightarrow> ('w, 'z) access \<Rightarrow> ('r \<Rightarrow> 'w \<Rightarrow> (io_error + unit) \<times> 'w) \<Rightarrow> bool \<Rightarrow> 'w
    \<Rightarrow> ('e zmq_error, bool) outcome \<times> 'w" where
  "zmq_recv_one Z zs callback pollin w =
     (if pollin then
        (case on_component zs (zq_recv Z) w of
           (Inl e, w') \<Rightarrow> (Err (ReceiveMessage e), w')
         | (Inr messages, w') \<Rightarrow>
             (case callback messages w' of
                (Inl e, w2) \<Rightarrow> (Err (EventCallback e), w2)
              | (Inr _, w2) \<Rightarrow> (Ok True, w2)))
      else (Ok False, w))"

fun zmq_loop :: "('z, 'm, 'r, 'e) zmq_ops \<Rightarrow> ('w, 'z) access \<Rightarrow> ('w, 'm list) access
    \<Rightarrow> ('r \<Rightarrow> 'w \<Rightarrow> (io_error + unit) \<times> 'w) \<Rightarrow> nat \<Rightarrow> 'w \<Rightarrow> ('e zmq_error, unit) outcome \<times> 'w" where
  "zmq_loop Z zs ob callback 0 w = (Diverge, w)"
| "zmq_loop Z zs ob callback (Suc n) w =
     (case on_component zs (zq_events Z) w of
        (Inl e, w1) \<Rightarrow> (Err (ReadEvents e), w1)
      | (Inr (pollin, pollout), w1) \<Rightarrow>
          and_then (zmq_send_one Z zs ob pollout w1)
            (\<lambda>sent w2. and_then (zmq_recv_one Z zs callback pollin w2)
              (\<lambda>received w3. if sent \<or> received then zmq_loop Z zs ob callback n w3 else (Ok (), w3))))"

text \<open>
  \<open>process_events\<close>; \<open>wake_pp\<close> and \<open>pp\<close> are the \<open>process_events\<close> of the two ping sources and \<open>ping\<close> is the
  ping of the channel.
\<close>

definition zmq_process :: "('z, 'm, 'r, 'e) zmq_ops \<Rightarrow> ('w, 'z) access \<Rightarrow> ('w, 'm mpsc) access \<Rightarrow> ('w, 'm list) access
    \<Rightarrow> ('src, unit, 'w) ping_process \<Rightarrow> ('src, bool \<times> bool, 'w) ping_process \<Rightarrow> ('w \<Rightarrow> 'w) \<Rightarrow> nat
    \<Rightarrow> ('r \<Rightarrow> 'w \<Rightarrow> (io_error + unit) \<times> 'w) \<Rightarrow> 'src zmq_source \<Rightarrow> readiness \<Rightarrow> token \<Rightarrow> 'w
    \<Rightarrow> ('e zmq_error, post_action) outcome \<times> 'src zmq_source \<times> 'w" where
  "zmq_process Z zs q ob wake_pp pp ping n callback s rd token w =
     (case wake_pp (zm_wake s) rd token (\<lambda>c w. (c, w)) () w of
        (r1, wake, _, w1) \<Rightarrow>
          (let s1 = s\<lparr>zm_wake := wake\<rparr> in
           case map_err AfterRegistration r1 of
             Ok _ \<Rightarrow>
               (case channel_process pp ping q (push_outbox ob) (zm_receiver s1) rd token w1 of
                  (r2, receiver, w2) \<Rightarrow>
                    (let s2 = s1\<lparr>zm_receiver := receiver\<rparr> in
                     case map_err OutgoingMessages r2 of
                       Ok _ \<Rightarrow>
                         (case zmq_loop Z zs ob callback n w2 of
                            (r3, w3) \<Rightarrow> (map_ok (\<lambda>_. Continue) r3, s2, w3))
                     | Err e \<Rightarrow> (Err e, s2, w2)
                     | Panic \<Rightarrow> (Panic, s2, w2)
                     | Diverge \<Rightarrow> (Diverge, s2, w2)))
           | Err e \<Rightarrow> (Err e, s1, w1)
           | Panic \<Rightarrow> (Panic, s1, w1)
           | Diverge \<Rightarrow> (Diverge, s1, w1)))"

section \<open>Registration\<close>

text \<open>An operation on a part of a source, and two operations in a row with \<open>?\<close> between.\<close>

definition part_register :: "('s \<Rightarrow> 'c) \<Rightarrow> ('c \<Rightarrow> 's \<Rightarrow> 's) \<Rightarrow> ('c, 'p) register_op \<Rightarrow> ('s, 'p) register_op" where
  "part_register get put f s P tf = (case f (get s) P tf of (r, c, P', tf') \<Rightarrow> (r, put c s, P', tf'))"

definition seq_register :: "('s, 'p) register_op \<Rightarrow> ('s, 'p) register_op \<Rightarrow> ('s, 'p) register_op" where
  "seq_register f g s P tf =
     (case f s P tf of
        (Ok _, s', P', tf') \<Rightarrow> g s' P' tf'
      | (r, s', P', tf') \<Rightarrow> (r, s', P', tf'))"

definition wake_after :: "('p \<Rightarrow> 'p) \<Rightarrow> ('s, 'p) register_op" where
  "wake_after wake s P tf = (Ok (), s, P\<lparr>poller := wake (poller P)\<rparr>, tf)"

text \<open>\<open>register\<close> and \<open>reregister\<close> differ in the operation of the parts; \<open>wake\<close> pings the wake-up ping.\<close>

definition zmq_register :: "'p poller_ops \<Rightarrow> ('src, 'p) register_op \<Rightarrow> ('p \<Rightarrow> 'p) \<Rightarrow> ('src zmq_source, 'p) register_op" where
  "zmq_register K reg wake =
     seq_register (part_register zm_socket (\<lambda>c s. s\<lparr>zm_socket := c\<rparr>) (generic_register K (\<lambda>fd. fd)))
       (seq_register (part_register zm_receiver (\<lambda>c s. s\<lparr>zm_receiver := c\<rparr>) (channel_register reg))
         (seq_register (part_register zm_wake (\<lambda>c s. s\<lparr>zm_wake := c\<rparr>) reg) (wake_after wake)))"

definition zmq_reregister :: "'p poller_ops \<Rightarrow> ('src, 'p) register_op \<Rightarrow> ('p \<Rightarrow> 'p) \<Rightarrow> ('src zmq_source, 'p) register_op" where
  "zmq_reregister K rereg wake =
     seq_register (part_register zm_socket (\<lambda>c s. s\<lparr>zm_socket := c\<rparr>) (generic_reregister K (\<lambda>fd. fd)))
       (seq_register (part_register zm_receiver (\<lambda>c s. s\<lparr>zm_receiver := c\<rparr>) (channel_reregister rereg))
         (seq_register (part_register zm_wake (\<lambda>c s. s\<lparr>zm_wake := c\<rparr>) rereg) (wake_after wake)))"

definition zmq_unregister :: "'p poller_ops \<Rightarrow> ('src, 'p) unregister_op \<Rightarrow> ('src zmq_source, 'p) unregister_op" where
  "zmq_unregister K unreg s P =
     (case generic_unregister K (\<lambda>fd. fd) (zm_socket s) P of
        (Ok _, socket, P1) \<Rightarrow>
          (let s1 = s\<lparr>zm_socket := socket\<rparr> in
           case channel_unregister unreg (zm_receiver s1) P1 of
             (Ok _, receiver, P2) \<Rightarrow>
               (let s2 = s1\<lparr>zm_receiver := receiver\<rparr> in
                case unreg (zm_wake s2) P2 of (r, wake, P3) \<Rightarrow> (r, s2\<lparr>zm_wake := wake\<rparr>, P3))
           | (r, receiver, P2) \<Rightarrow> (r, s1\<lparr>zm_receiver := receiver\<rparr>, P2))
      | (r, socket, P1) \<Rightarrow> (r, s\<lparr>zm_socket := socket\<rparr>, P1))"

text \<open>\<open>Drop\<close>: the results are ignored; \<open>None\<close> stands for both failures of \<open>get_last_endpoint\<close>.\<close>

definition zmq_drop :: "('z, 'm, 'r, 'e) zmq_ops \<Rightarrow> 'z \<Rightarrow> 'z" where
  "zmq_drop Z z =
     (let z1 = snd (zq_set_linger Z z 0);
          z2 = snd (zq_set_rcvtimeo Z z1 0);
          z3 = snd (zq_set_sndtimeo Z z2 0)
      in case zq_last_endpoint Z z3 of
           (Some last_endpoint, z4) \<Rightarrow> snd (zq_disconnect Z z4 last_endpoint)
         | (None, z4) \<Rightarrow> z4)"

section \<open>What an event of the source does\<close>

text \<open>
  A socket as crate \<open>zmq\<close> documents it: \<open>inq\<close> are the multipart messages that wait to be received,
  \<open>sent\<close> those that were sent, and \<open>room\<close> says whether the socket takes another one.
\<close>

definition zmq_contract :: "('z, 'm, 'r, 'e) zmq_ops \<Rightarrow> ('z \<Rightarrow> 'r list) \<Rightarrow> ('z \<Rightarrow> 'm list) \<Rightarrow> ('z \<Rightarrow> bool) \<Rightarrow> bool" where
  "zmq_contract Z inq sent room \<longleftrightarrow>
     (\<forall>z. \<exists>z'. zq_events Z z = (Inr (inq z \<noteq> [], room z), z') \<and> inq z' = inq z \<and> sent z' = sent z \<and> room z' = room z) \<and>
     (\<forall>z m. room z \<longrightarrow> (\<exists>z'. zq_send Z z m = (Inr (), z') \<and> sent z' = sent z @ [m] \<and> inq z' = inq z)) \<and>
     (\<forall>z m ms. inq z = m # ms \<longrightarrow> (\<exists>z'. zq_recv Z z = (Inr m, z') \<and> inq z' = ms \<and> sent z' = sent z))"

text \<open>The user's callback, recorded in a log.\<close>

definition zmq_log :: "('w, 'r list) access \<Rightarrow> 'r \<Rightarrow> 'w \<Rightarrow> (io_error + unit) \<times> 'w" where
  "zmq_log lg m w = (Inr (), acc_put lg (acc_get lg w @ [m]) w)"

locale zmq_world =
  fixes E :: "'p eventfd_ops" and sys :: "('w, 'p) access" and fd :: raw_fd and counter :: "'p \<Rightarrow> u64"
    and q :: "('w, 'm mpsc) access" and ob :: "('w, 'm list) access"
    and Z :: "('z, 'm, 'r, 'e) zmq_ops" and zs :: "('w, 'z) access" and lg :: "('w, 'r list) access"
    and inq :: "'z \<Rightarrow> 'r list" and sent :: "'z \<Rightarrow> 'm list" and room :: "'z \<Rightarrow> bool"
  assumes eventfd: "eventfd_contract E fd counter"
    and socket: "zmq_contract Z inq sent room"
    and parts: "access_ok sys" "access_ok q" "access_ok ob" "access_ok zs" "access_ok lg"
    and sys_apart: "access_apart sys q" "access_apart sys ob" "access_apart sys zs" "access_apart sys lg"
    and q_apart: "access_apart q ob" "access_apart q zs" "access_apart q lg"
    and zs_apart: "access_apart ob zs" "access_apart ob lg" "access_apart zs lg"
begin

lemmas world_simps = access_ok_simps [OF parts(1)] access_ok_simps [OF parts(2)] access_ok_simps [OF parts(3)]
  access_ok_simps [OF parts(4)] access_ok_simps [OF parts(5)]
  access_apart_simps [OF sys_apart(1)] access_apart_simps [OF sys_apart(2)] access_apart_simps [OF sys_apart(3)]
  access_apart_simps [OF sys_apart(4)] access_apart_simps [OF q_apart(1)] access_apart_simps [OF q_apart(2)]
  access_apart_simps [OF q_apart(3)] access_apart_simps [OF zs_apart(1)] access_apart_simps [OF zs_apart(2)]
  access_apart_simps [OF zs_apart(3)]

lemma events_read:
  "\<exists>z'. zq_events Z z = (Inr (inq z \<noteq> [], room z), z') \<and> inq z' = inq z \<and> sent z' = sent z \<and> room z' = room z"
  using socket unfolding zmq_contract_def by blast

lemma send_one:
  assumes "pollout = room (acc_get zs w)"
  shows "\<exists>b w'. zmq_send_one Z zs ob pollout w = (Ok b, w') \<and> inq (acc_get zs w') = inq (acc_get zs w) \<and>
    acc_get lg w' = acc_get lg w \<and> (acc_get sys w', acc_get q w') = (acc_get sys w, acc_get q w) \<and>
    (if b then \<exists>m. acc_get ob w = m # acc_get ob w' \<and> sent (acc_get zs w') = sent (acc_get zs w) @ [m]
     else w' = w \<and> (acc_get ob w = [] \<or> \<not> pollout))"
proof (cases "pollout \<and> acc_get ob w \<noteq> []")
  case True
  then obtain m ms where o: "acc_get ob w = m # ms" and "room (acc_get zs w)" using assms by (cases "acc_get ob w") auto
  then obtain z' where "zq_send Z (acc_get zs w) m = (Inr (), z')" "sent z' = sent (acc_get zs w) @ [m]" "inq z' = inq (acc_get zs w)"
    using socket unfolding zmq_contract_def by blast
  with True o show ?thesis
    by (intro exI [of _ True] exI [of _ "acc_put zs z' (acc_put ob ms w)"])
      (simp add: zmq_send_one_def on_component_def world_simps)
qed (auto simp: zmq_send_one_def split: list.split)

lemma recv_one:
  assumes "pollin \<longleftrightarrow> inq (acc_get zs w) \<noteq> []"
  shows "\<exists>w'. zmq_recv_one Z zs (zmq_log lg) pollin w = (Ok pollin, w') \<and> sent (acc_get zs w') = sent (acc_get zs w) \<and>
    acc_get ob w' = acc_get ob w \<and> (acc_get sys w', acc_get q w') = (acc_get sys w, acc_get q w) \<and>
    (if pollin then \<exists>m. inq (acc_get zs w) = m # inq (acc_get zs w') \<and> acc_get lg w' = acc_get lg w @ [m] else w' = w)"
proof (cases "inq (acc_get zs w)")
  case (Cons m ms)
  then obtain z' where "zq_recv Z (acc_get zs w) = (Inr m, z')" "inq z' = ms" "sent z' = sent (acc_get zs w)"
    using socket unfolding zmq_contract_def by blast
  with Cons assms show ?thesis by (simp add: zmq_recv_one_def on_component_def zmq_log_def world_simps)
qed (use assms in \<open>simp add: zmq_recv_one_def\<close>)

lemma loop_drains:
  "length (inq (acc_get zs w)) + length (acc_get ob w) < n \<Longrightarrow>
     \<exists>w' k. zmq_loop Z zs ob (zmq_log lg) n w = (Ok (), w') \<and> inq (acc_get zs w') = [] \<and>
       acc_get lg w' = acc_get lg w @ inq (acc_get zs w) \<and>
       sent (acc_get zs w') = sent (acc_get zs w) @ take k (acc_get ob w) \<and> acc_get ob w' = drop k (acc_get ob w) \<and>
       (acc_get ob w' = [] \<or> \<not> room (acc_get zs w')) \<and> (acc_get sys w', acc_get q w') = (acc_get sys w, acc_get q w)"
proof (induction n arbitrary: w)
  case 0
  then show ?case by simp
next
  case (Suc n)
  obtain z1 where z1: "zq_events Z (acc_get zs w) = (Inr (inq (acc_get zs w) \<noteq> [], room (acc_get zs w)), z1)"
      "inq z1 = inq (acc_get zs w)" "sent z1 = sent (acc_get zs w)" "room z1 = room (acc_get zs w)"
    using events_read by blast
  let ?w1 = "acc_put zs z1 w" and ?in = "inq (acc_get zs w) \<noteq> []" and ?out = "room (acc_get zs w)"
  have w1: "acc_get zs ?w1 = z1" "acc_get ob ?w1 = acc_get ob w" "acc_get lg ?w1 = acc_get lg w"
      "acc_get sys ?w1 = acc_get sys w" "acc_get q ?w1 = acc_get q w" by (simp_all add: world_simps)
  obtain b w2 where send: "zmq_send_one Z zs ob ?out ?w1 = (Ok b, w2)" "inq (acc_get zs w2) = inq (acc_get zs w)"
      "acc_get lg w2 = acc_get lg w" "(acc_get sys w2, acc_get q w2) = (acc_get sys w, acc_get q w)"
      "if b then \<exists>m. acc_get ob w = m # acc_get ob w2 \<and> sent (acc_get zs w2) = sent (acc_get zs w) @ [m]
       else w2 = ?w1 \<and> (acc_get ob w = [] \<or> \<not> ?out)"
    using send_one [of ?out ?w1, unfolded w1] unfolding z1(2-4) by blast
  obtain w3 where recv: "zmq_recv_one Z zs (zmq_log lg) ?in w2 = (Ok ?in, w3)" "sent (acc_get zs w3) = sent (acc_get zs w2)"
      "acc_get ob w3 = acc_get ob w2" "(acc_get sys w3, acc_get q w3) = (acc_get sys w2, acc_get q w2)"
      "if ?in then \<exists>m. inq (acc_get zs w2) = m # inq (acc_get zs w3) \<and> acc_get lg w3 = acc_get lg w2 @ [m] else w3 = w2"
    using recv_one [of ?in w2] unfolding send(2) by blast
  have run: "zmq_loop Z zs ob (zmq_log lg) (Suc n) w = (if b \<or> ?in then zmq_loop Z zs ob (zmq_log lg) n w3 else (Ok (), w3))"
    using z1 send(1) recv(1) by (simp add: on_component_def)
  obtain j where j: "acc_get ob w3 = drop j (acc_get ob w)" "sent (acc_get zs w3) = sent (acc_get zs w) @ take j (acc_get ob w)"
      "b \<longleftrightarrow> 0 < j" "j \<le> length (acc_get ob w)"
  proof (cases b)
    case True
    with send(5) recv(2,3) show ?thesis by (auto intro: that [of 1])
  next
    case False
    with send(5) recv(2,3) z1 show ?thesis by (auto intro: that [of 0] simp: world_simps)
  qed
  show ?case
  proof (cases "b \<or> ?in")
    case False
    with run send(2,3,4,5) recv(4,5) z1 show ?thesis
      by (intro exI [of _ w3] exI [of _ 0]) (auto simp: world_simps)
  next
    case True
    have log: "acc_get lg w3 @ inq (acc_get zs w3) = acc_get lg w @ inq (acc_get zs w)"
      using recv(5) send(2,3) by (auto split: if_splits)
    have "length (inq (acc_get zs w3)) + length (acc_get ob w3) < length (inq (acc_get zs w)) + length (acc_get ob w)"
      using True j recv(5) send(2) by (auto split: if_splits)
    with Suc.prems have "length (inq (acc_get zs w3)) + length (acc_get ob w3) < n" by simp
    from Suc.IH [OF this] obtain w' k where ih: "zmq_loop Z zs ob (zmq_log lg) n w3 = (Ok (), w')" "inq (acc_get zs w') = []"
        "acc_get lg w' = acc_get lg w3 @ inq (acc_get zs w3)"
        "sent (acc_get zs w') = sent (acc_get zs w3) @ take k (acc_get ob w3)" "acc_get ob w' = drop k (acc_get ob w3)"
        "acc_get ob w' = [] \<or> \<not> room (acc_get zs w')" "(acc_get sys w', acc_get q w') = (acc_get sys w3, acc_get q w3)"
      by blast
    with run True j log recv(4) send(4) show ?thesis
      by (intro exI [of _ w'] exI [of _ "j + k"]) (auto simp: take_add drop_drop add.commute)
  qed
qed

text \<open>An event of the channel: messages move to the outbox, then the socket is served.\<close>

definition to_outbox :: "'m event \<Rightarrow> 'm list \<Rightarrow> 'm list" where
  "to_outbox ev l = (case ev of Msg m \<Rightarrow> l @ [m] | Closed \<Rightarrow> l)"

lemma fold_outbox: "fold to_outbox (map Msg ms @ (if b then [Closed] else [])) l = l @ ms"
  by (induction ms arbitrary: l) (simp_all add: to_outbox_def)

lemma push_outbox_eq: "push_outbox ob = (\<lambda>ev w. acc_put ob (to_outbox ev (acc_get ob w)) w)"
  by (intro ext; rename_tac ev w; case_tac ev) (simp_all add: to_outbox_def world_simps)

lemma process_event:
  assumes "gn_file (ch_source (zm_receiver s)) = Some fd" and "gn_token (ch_source (zm_receiver s)) = Some t"
    and "gn_token (zm_wake s) \<noteq> Some t" and "2 \<le> unat (counter (acc_get sys w))"
    and "limit = channel_max (ch_capacity (zm_receiver s))" and "out = acc_get ob w @ take limit (mq_msgs (acc_get q w))"
    and "length (inq (acc_get zs w)) + length out < n"
  shows "\<exists>s' w' k. zmq_process Z zs q ob (eventfd_process E sys) (eventfd_process E sys) (eventfd_ping E sys fd) n (zmq_log lg) s rd t w
      = (Ok Continue, s', w') \<and>
    sent (acc_get zs w') = sent (acc_get zs w) @ take k out \<and> acc_get ob w' = drop k out \<and>
    (acc_get ob w' = [] \<or> \<not> room (acc_get zs w')) \<and>
    inq (acc_get zs w') = [] \<and> acc_get lg w' = acc_get lg w @ inq (acc_get zs w) \<and>
    mq_msgs (acc_get q w') = drop limit (mq_msgs (acc_get q w)) \<and>
    (mq_msgs (acc_get q w') \<noteq> [] \<longrightarrow> 2 \<le> unat (counter (acc_get sys w')))"
proof -
  have wake: "eventfd_process E sys (zm_wake s) rd t (\<lambda>c w. (c, w)) () w = (Ok Continue, zm_wake s, (), w)"
    using assms(3) by (simp add: eventfd_process_def generic_process_def)
  obtain r ch w2 where ch: "channel_process (eventfd_process E sys) (eventfd_ping E sys fd) q (push_outbox ob) (zm_receiver s) rd t w = (r, ch, w2)"
    by (metis prod.collapse)
  note c = eventfd_channel_fold [OF eventfd parts(1,2) sys_apart(1) parts(3) q_apart(1) sys_apart(2) assms(1,2,4)
    ch [unfolded push_outbox_eq] refl assms(5), of "\<lambda>w. (acc_get zs w, acc_get lg w)", unfolded fold_outbox]
  then have c: "acc_get ob w2 = out" "acc_get q w2 = (acc_get q w)\<lparr>mq_msgs := drop limit (mq_msgs (acc_get q w))\<rparr>"
      "acc_get zs w2 = acc_get zs w" "acc_get lg w2 = acc_get lg w" "is_ok r"
      "limit \<le> length (mq_msgs (acc_get q w)) \<Longrightarrow> 2 \<le> unat (counter (acc_get sys w2))"
    by (simp_all add: world_simps assms(6))
  obtain w' k where l: "zmq_loop Z zs ob (zmq_log lg) n w2 = (Ok (), w')" "inq (acc_get zs w') = []"
      "acc_get lg w' = acc_get lg w2 @ inq (acc_get zs w2)" "sent (acc_get zs w') = sent (acc_get zs w2) @ take k (acc_get ob w2)"
      "acc_get ob w' = drop k (acc_get ob w2)" "acc_get ob w' = [] \<or> \<not> room (acc_get zs w')"
      "(acc_get sys w', acc_get q w') = (acc_get sys w2, acc_get q w2)"
    using loop_drains [of w2 n] assms(7) unfolding c(1,3) by blast
  obtain a where "r = Ok a" using c(5) by (auto simp: is_ok_iff)
  with wake ch l(1) have "zmq_process Z zs q ob (eventfd_process E sys) (eventfd_process E sys) (eventfd_ping E sys fd) n (zmq_log lg) s rd t w
      = (Ok Continue, s\<lparr>zm_wake := zm_wake s, zm_receiver := ch\<rparr>, w')"
    by (simp add: zmq_process_def)
  with l c show ?thesis
    by (intro exI [of _ "s\<lparr>zm_wake := zm_wake s, zm_receiver := ch\<rparr>"] exI [of _ w'] exI [of _ k]) auto
qed

end

section \<open>A concrete world\<close>

text \<open>A kernel, a queue, an outbox, a socket that takes three more messages, and a log.\<close>

record zmq_demo_socket =
  zd_in :: "nat list"
  zd_sent :: "nat list"

type_synonym zmq_demo_world = "(raw_fd \<Rightarrow> u64) \<times> nat mpsc \<times> nat list \<times> zmq_demo_socket \<times> nat list"

definition zd_sys :: "(zmq_demo_world, raw_fd \<Rightarrow> u64) access" where
  "zd_sys = \<lparr>acc_get = (\<lambda>(k, q, ob, z, l). k), acc_put = (\<lambda>k (_, q, ob, z, l). (k, q, ob, z, l))\<rparr>"

definition zd_q :: "(zmq_demo_world, nat mpsc) access" where
  "zd_q = \<lparr>acc_get = (\<lambda>(k, q, ob, z, l). q), acc_put = (\<lambda>q (k, _, ob, z, l). (k, q, ob, z, l))\<rparr>"

definition zd_ob :: "(zmq_demo_world, nat list) access" where
  "zd_ob = \<lparr>acc_get = (\<lambda>(k, q, ob, z, l). ob), acc_put = (\<lambda>ob (k, q, _, z, l). (k, q, ob, z, l))\<rparr>"

definition zd_zs :: "(zmq_demo_world, zmq_demo_socket) access" where
  "zd_zs = \<lparr>acc_get = (\<lambda>(k, q, ob, z, l). z), acc_put = (\<lambda>z (k, q, ob, _, l). (k, q, ob, z, l))\<rparr>"

definition zd_lg :: "(zmq_demo_world, nat list) access" where
  "zd_lg = \<lparr>acc_get = (\<lambda>(k, q, ob, z, l). l), acc_put = (\<lambda>l (k, q, ob, z, _). (k, q, ob, z, l))\<rparr>"

definition zd_room :: "zmq_demo_socket \<Rightarrow> bool" where
  "zd_room z \<longleftrightarrow> length (zd_sent z) < 3"

definition ZMK :: "(zmq_demo_socket, nat, nat, io_error) zmq_ops" where
  "ZMK = \<lparr>zq_events = (\<lambda>z. (Inr (zd_in z \<noteq> [], zd_room z), z)),
     zq_send = (\<lambda>z m. (Inr (), z\<lparr>zd_sent := zd_sent z @ [m]\<rparr>)),
     zq_recv = (\<lambda>z. case zd_in z of [] \<Rightarrow> (Inl WouldBlock, z) | m # ms \<Rightarrow> (Inr m, z\<lparr>zd_in := ms\<rparr>)),
     zq_set_linger = (\<lambda>z _. (Inr (), z)), zq_set_rcvtimeo = (\<lambda>z _. (Inr (), z)), zq_set_sndtimeo = (\<lambda>z _. (Inr (), z)),
     zq_last_endpoint = (\<lambda>z. (None, z)), zq_disconnect = (\<lambda>z _. (Inr (), z))\<rparr>"

interpretation zmq_demo: zmq_world EFK zd_sys fd "\<lambda>k. k fd" zd_q zd_ob ZMK zd_zs zd_lg zd_in zd_sent zd_room for fd
  by unfold_locales
    (auto simp: EFK_contract zmq_contract_def ZMK_def zd_room_def access_ok_def access_apart_def zd_sys_def zd_q_def zd_ob_def
      zd_zs_def zd_lg_def)

section \<open>Properties\<close>

text \<open>
  C27: one event of the composite source moves the messages that were sent through its channel,
  as many as the channel hands out at once, behind those in the outbox, then sends from the
  front of the outbox until it is empty or the socket takes no more, and receives every waiting
  message and hands it to the callback: in order, nothing lost or duplicated. Its loop ends
  within one round more than there are messages. Messages left in the channel have a ping
  pending, so that the source runs again.
\<close>

theorem zmq_event_serves_both_ways:
  assumes "zmq_world E sys fd counter q ob Z zs lg inq sent room"
    and "gn_file (ch_source (zm_receiver s)) = Some fd" and "gn_token (ch_source (zm_receiver s)) = Some t"
    and "gn_token (zm_wake s) \<noteq> Some t" and "2 \<le> unat (counter (acc_get sys w))"
    and "limit = channel_max (ch_capacity (zm_receiver s))" and "out = acc_get ob w @ take limit (mq_msgs (acc_get q w))"
    and "length (inq (acc_get zs w)) + length out < n"
  shows "\<exists>s' w' k. zmq_process Z zs q ob (eventfd_process E sys) (eventfd_process E sys) (eventfd_ping E sys fd) n (zmq_log lg) s rd t w
      = (Ok Continue, s', w') \<and>
    sent (acc_get zs w') = sent (acc_get zs w) @ take k out \<and> acc_get ob w' = drop k out \<and>
    (acc_get ob w' = [] \<or> \<not> room (acc_get zs w')) \<and>
    inq (acc_get zs w') = [] \<and> acc_get lg w' = acc_get lg w @ inq (acc_get zs w) \<and>
    mq_msgs (acc_get q w') = drop limit (mq_msgs (acc_get q w)) \<and>
    (mq_msgs (acc_get q w') \<noteq> [] \<longrightarrow> 2 \<le> unat (counter (acc_get sys w')))"
  by (rule zmq_world.process_event [OF assms])

theorem zmq_event_serves_both_ways_witness:
  "\<exists>s' w'. zmq_process ZMK zd_zs zd_q zd_ob (eventfd_process EFK zd_sys) (eventfd_process EFK zd_sys) (eventfd_ping EFK zd_sys 3) 9
      (zmq_log zd_lg)
      \<lparr>zm_socket = Generic_new 7 Interest_READ Edge,
       zm_receiver = \<lparr>ch_source = (Generic_new 3 Interest_READ Level)\<lparr>gn_token := Some \<lparr>tok_id = 1, tok_version = 0, tok_sub_id = 1\<rparr>\<rparr>,
         ch_capacity = 9\<rparr>,
       zm_wake = Generic_new 5 Interest_READ Level\<rparr>
      Readiness_EMPTY \<lparr>tok_id = 1, tok_version = 0, tok_sub_id = 1\<rparr>
      ((\<lambda>_. 2), \<lparr>mq_msgs = [2, 3], mq_senders = 1, mq_receiver = True, mq_bound = None\<rparr>, [1], \<lparr>zd_in = [8, 9], zd_sent = [0]\<rparr>, [])
    = (Ok Continue, s', w') \<and> acc_get zd_lg w' = [8, 9] \<and> acc_get zd_ob w' \<in> {[], [3]}"
proof -
  let ?t = "\<lparr>tok_id = 1, tok_version = 0, tok_sub_id = 1\<rparr> :: token_inner"
  let ?s = "\<lparr>zm_socket = Generic_new 7 Interest_READ Edge,
       zm_receiver = \<lparr>ch_source = (Generic_new 3 Interest_READ Level)\<lparr>gn_token := Some ?t\<rparr>, ch_capacity = 9\<rparr>,
       zm_wake = Generic_new 5 Interest_READ Level\<rparr> :: eventfd_source zmq_source"
  let ?w = "((\<lambda>_. 2), \<lparr>mq_msgs = [2, 3], mq_senders = 1, mq_receiver = True, mq_bound = None\<rparr>, [1], \<lparr>zd_in = [8, 9], zd_sent = [0]\<rparr>, [])
      :: zmq_demo_world"
  have max: "channel_max 9 = 10" by (simp add: channel_max_def USIZE_MAX_def MAX_EVENTS_CHECK_def)
  have "gn_file (ch_source (zm_receiver ?s)) = Some 3" "gn_token (ch_source (zm_receiver ?s)) = Some ?t"
    "gn_token (zm_wake ?s) \<noteq> Some ?t" "2 \<le> unat (acc_get zd_sys ?w 3)"
    "10 = channel_max (ch_capacity (zm_receiver ?s))" "[1, 2, 3] = acc_get zd_ob ?w @ take 10 (mq_msgs (acc_get zd_q ?w))"
    "length (zd_in (acc_get zd_zs ?w)) + length [1 :: nat, 2, 3] < 9"
    by (simp_all add: Generic_new_def zd_sys_def zd_ob_def zd_q_def zd_zs_def max)
  from zmq_event_serves_both_ways [where counter = "\<lambda>k. k 3" and w = ?w and s = ?s and rd = Readiness_EMPTY and n = 9,
      OF zmq_demo.zmq_world_axioms this] obtain s' w' k where
    "zmq_process ZMK zd_zs zd_q zd_ob (eventfd_process EFK zd_sys) (eventfd_process EFK zd_sys) (eventfd_ping EFK zd_sys 3) 9
      (zmq_log zd_lg) ?s Readiness_EMPTY ?t ?w = (Ok Continue, s', w')"
    "acc_get zd_ob w' = drop k [1, 2, 3]" "zd_sent (acc_get zd_zs w') = zd_sent (acc_get zd_zs ?w) @ take k [1, 2, 3]"
    "acc_get zd_ob w' = [] \<or> \<not> zd_room (acc_get zd_zs w')" "acc_get zd_lg w' = acc_get zd_lg ?w @ zd_in (acc_get zd_zs ?w)" by blast
  then show ?thesis
    by (auto simp: zd_lg_def zd_zs_def zd_room_def drop_Cons' take_Cons' split: if_splits)
qed

end
