(* ===== verification/Ping_Session.thy ===== *)
theory Ping_Session
  imports Ping_Loop
begin

text \<open>
  A ping in a loop, end to end (\<open>src/src/sources/ping.rs\<close> with \<open>src/src/sources/ping/eventfd.rs\<close>): handles are
  cloned, pinged and dropped between the dispatches of the loop's owner, on any poller and eventfd that work
  as documented.
\<close>

section \<open>The ping source in a loop\<close>

definition ping_ops :: "'p poller_ops \<Rightarrow> 'p eventfd_ops \<Rightarrow> (('s, 'i, 'p, 'd) loop_state \<Rightarrow> ('s, 'i, 'p, 'd) loop_state)
    \<Rightarrow> (eventfd_source, 'p, ('s, 'i, 'p, 'd) loop_state) source_ops" where
  "ping_ops K E cb =
     \<lparr>so_process = (\<lambda>src rd token L.
        case eventfd_process E loop_system src rd token (\<lambda>_ L. ((), cb L)) () L of (r, src', _, L') \<Rightarrow> (r, src', L')),
      so_register = eventfd_register K, so_reregister = eventfd_reregister K, so_unregister = eventfd_unregister K,
      so_needs_extra = default_needs_extra, so_before_sleep = default_before_sleep, so_before_handle = default_before_handle\<rparr>"

lemma ping_ops_simps [simp]:
  "so_process (ping_ops K E cb) src rd token L =
     (case eventfd_process E loop_system src rd token (\<lambda>_ L. ((), cb L)) () L of (r, src', _, L') \<Rightarrow> (r, src', L'))"
  "so_register (ping_ops K E cb) = eventfd_register K" "so_reregister (ping_ops K E cb) = eventfd_reregister K"
  "so_unregister (ping_ops K E cb) = eventfd_unregister K" "so_needs_extra (ping_ops K E cb) = default_needs_extra"
  by (simp_all add: ping_ops_def)

text \<open>
  What a program does with its handles, and the dispatches of the loop, which stop when the source has left it.
  A program without a handle can neither ping nor clone.
\<close>

datatype ping_act = PingSend | PingClone | PingDrop | PingDispatch duration

fun ping_do :: "'p poller_ops \<Rightarrow> 'p eventfd_ops \<Rightarrow> ('s, 'i, 'p, 'd) loop_ops
    \<Rightarrow> ('i \<Rightarrow> ('s, 'i, 'p, 'd) loop_state \<Rightarrow> ('s, 'i, 'p, 'd) loop_state) \<Rightarrow> nat \<Rightarrow> registration_token \<Rightarrow> ping_act
    \<Rightarrow> ping_handles \<times> ('s, 'i, 'p, 'd) loop_state \<Rightarrow> unit cresult \<times> ping_handles \<times> ('s, 'i, 'p, 'd) loop_state" where
  "ping_do K E ops run_idle k t PingSend (h, L) =
     (Ok (), h, if ph_strong h = 0 then L else eventfd_ping E loop_system (ph_fd h) L)"
| "ping_do K E ops run_idle k t PingClone (h, L) = (Ok (), if ph_strong h = 0 then h else ping_clone h, L)"
| "ping_do K E ops run_idle k t PingDrop (h, L) =
     (Ok (), if ph_strong h = 0 then (h, L) else ping_handle_drop E loop_system h L)"
| "ping_do K E ops run_idle k t (PingDispatch timeout) (h, L) =
     (if sl_lookup (lp_sources L) t = None then (Ok (), h, L)
      else case dispatch K ops run_idle k (Some timeout) L of (r, L') \<Rightarrow> (r, h, L'))"

fun ping_session :: "'p poller_ops \<Rightarrow> 'p eventfd_ops \<Rightarrow> ('s, 'i, 'p, 'd) loop_ops
    \<Rightarrow> ('i \<Rightarrow> ('s, 'i, 'p, 'd) loop_state \<Rightarrow> ('s, 'i, 'p, 'd) loop_state) \<Rightarrow> nat \<Rightarrow> registration_token \<Rightarrow> ping_act list
    \<Rightarrow> ping_handles \<times> ('s, 'i, 'p, 'd) loop_state \<Rightarrow> unit cresult \<times> ping_handles \<times> ('s, 'i, 'p, 'd) loop_state" where
  "ping_session K E ops run_idle k t [] w = (Ok (), w)"
| "ping_session K E ops run_idle k t (a # acts) w =
     and_then (ping_do K E ops run_idle k t a w) (\<lambda>_ w'. ping_session K E ops run_idle k t acts w')"

text \<open>
  The same without a loop: the handles, whether one was pinged since the last dispatch, how often the callback
  ran, and whether the source is gone.
\<close>

fun pings_seen :: "ping_act \<Rightarrow> nat \<times> bool \<times> nat \<times> bool \<Rightarrow> nat \<times> bool \<times> nat \<times> bool" where
  "pings_seen PingSend (n, pinged, calls, gone) = (n, pinged \<or> 0 < n, calls, gone)"
| "pings_seen PingClone (n, pinged, calls, gone) = (if n = 0 then 0 else n + 1, pinged, calls, gone)"
| "pings_seen PingDrop (n, pinged, calls, gone) = (n - 1, pinged, calls, gone)"
| "pings_seen (PingDispatch timeout) (n, pinged, calls, gone) =
     (if gone then (n, pinged, calls, gone) else (n, False, if pinged then calls + 1 else calls, n = 0))"

section \<open>One step\<close>

context level_system
begin

lemma ping_pinged: "pinged_source K E regs fd counter (ping_ops K E cb) (\<lambda>g. g) (\<lambda>g _. g)"
  by unfold_locales (simp_all add: default_needs_extra_def split: prod.splits)

text \<open>
  The counter has the ping of the handles in its upper bits and the drop of the last one in its lowest; \<open>m\<close>
  bounds the pings so far.
\<close>

definition pinging :: "('d \<Rightarrow> 'd) \<Rightarrow> 'd \<Rightarrow> eventfd_source \<Rightarrow> nat \<Rightarrow> token \<Rightarrow> nat \<Rightarrow> nat \<times> bool \<times> nat \<times> bool
    \<Rightarrow> ping_handles \<times> (eventfd_source, 'i, 'p, 'd) loop_state \<Rightarrow> bool" where
  "pinging f d0 g d t m = (\<lambda>(n, pinged, calls, gone) (h, L).
     let k = efd_count counter L in
     ph_fd h = fd \<and> ph_strong h = n \<and> lp_data L = (f ^^ calls) d0 \<and>
     (if gone then n = 0 \<and> \<not> pinged \<and> sl_lookup (lp_sources L) t = None \<and> regs (poller (lp_poll L)) = Map.empty
      else serving regs fd g g d t L \<and> (odd k \<longleftrightarrow> n = 0) \<and> (2 \<le> unat k \<longleftrightarrow> pinged) \<and> unat k \<le> 2 * m + 1))"

lemma ping_counts:
  fixes L :: "('s, 'i, 'p, 'd) loop_state"
  assumes "unat (efd_count counter L) \<le> 2 * m + 1" and "m < 2 ^ 62"
  shows "unat (efd_count counter (eventfd_ping E loop_system fd L)) = unat (efd_count counter L) + 2"
    and "odd (efd_count counter (eventfd_ping E loop_system fd L)) = odd (efd_count counter L)"
    and "unat (efd_count counter (eventfd_flag_on_drop E loop_system fd L)) = unat (efd_count counter L) + 1"
    and "odd (efd_count counter (eventfd_flag_on_drop E loop_system fd L)) = even (efd_count counter L)"
proof -
  let ?c = "efd_count counter L"
  have "unat (?c + 2) = unat ?c + 2" "unat (?c + 1) = unat ?c + 1" using assms by (simp_all add: unat_word_ariths)
  moreover have "even c \<longleftrightarrow> even (unat c)" for c :: u64 using odd_unat_iff [of c] by blast
  ultimately show "unat (efd_count counter (eventfd_ping E loop_system fd L)) = unat ?c + 2"
    and "odd (efd_count counter (eventfd_ping E loop_system fd L)) = odd ?c"
    and "unat (efd_count counter (eventfd_flag_on_drop E loop_system fd L)) = unat ?c + 1"
    and "odd (efd_count counter (eventfd_flag_on_drop E loop_system fd L)) = even ?c"
    using assms eventfd_kernel.ping_effect(2) [OF ping_kernel, of L] eventfd_kernel.drop_effect(2) [OF ping_kernel, of L]
    by simp_all
qed

lemma drop_in_loop:
  fixes L :: "('s, 'i, 'p, 'd) loop_state"
  shows "loop_frame regs (eventfd_flag_on_drop E loop_system fd L) = loop_frame regs L"
    "lp_data (eventfd_flag_on_drop E loop_system fd L) = lp_data L"
  using eventfd_kernel.drop_effect(1) [OF ping_kernel, of L] by simp_all

text \<open>A dispatch with something in the counter.\<close>

lemma ping_dispatch:
  fixes L :: "(eventfd_source, 'i, 'p, 'd) loop_state"
  assumes serving: "serving regs fd g g d t L" and "0 < k" and count: "efd_count counter L \<noteq> 0"
  shows "\<exists>L'. dispatch K (ping_ops K E (\<lambda>L. L\<lparr>lp_data := f (lp_data L)\<rparr>)) run_idle k timeout L = (Ok (), L') \<and>
    (lp_data L' = (if 2 \<le> unat (efd_count counter L) then f (lp_data L) else lp_data L) \<and> efd_count counter L' = 0) \<and>
    (if odd (efd_count counter L) then sl_lookup (lp_sources L') t = None \<and> regs (poller (lp_poll L')) = Map.empty
     else serving regs fd g g d t L')"
proof (rule pinged_source.served_dispatch [OF ping_pinged serving assms(2) count])
  have sv: "gn_file g = Some fd" "gn_token g = Some t" using serving by (simp_all add: serving_def)
  fix L1 :: "(eventfd_source, 'i, 'p, 'd) loop_state"
  assume same: "lp_data L1 = lp_data L" "efd_count counter L1 = efd_count counter L"
  let ?cb = "\<lambda>_ L. ((), L\<lparr>lp_data := f (lp_data L)\<rparr>)"
  obtain W where W: "loop_frame regs W = loop_frame regs L1" "lp_data W = lp_data L1" "efd_count counter W = 0"
    "eventfd_process E loop_system g (pe_readiness (timer_event t)) t ?cb () L1
      = (Ok (if odd (efd_count counter L1) then Remove else Continue), g,
         if 2 \<le> unat (efd_count counter L1) then ?cb () W else ((), W))"
    using eventfd_kernel.process_effect [OF ping_kernel sv, of L1 "pe_readiness (timer_event t)" ?cb "()"] same(2) count
    by auto
  with same show "\<exists>L2. so_process (ping_ops K E (\<lambda>L. L\<lparr>lp_data := f (lp_data L)\<rparr>)) g (pe_readiness (timer_event t)) t L1
      = (Ok (if odd (efd_count counter L) then Remove else Continue), g, L2) \<and> loop_frame regs L2 = loop_frame regs L1 \<and>
      lp_data L2 = (if 2 \<le> unat (efd_count counter L) then f (lp_data L) else lp_data L) \<and> efd_count counter L2 = 0"
    by (auto simp: loop_frame_def)
qed

lemma pinging_step:
  assumes inv: "pinging f d0 g d t m \<sigma> (h, L)" and "m < 2 ^ 62" and "0 < k"
  shows "\<exists>w'. ping_do K E (ping_ops K E (\<lambda>L. L\<lparr>lp_data := f (lp_data L)\<rparr>)) run_idle k t a (h, L) = (Ok (), w') \<and>
    pinging f d0 g d t (Suc m) (pings_seen a \<sigma>) w'"
proof -
  obtain n pinged calls gone where \<sigma>: "\<sigma> = (n, pinged, calls, gone)" by (cases \<sigma>) auto
  note inv' = inv [unfolded \<sigma> pinging_def Let_def prod.case]
  show ?thesis
  proof (cases gone)
    case True
    with inv' show ?thesis by (cases a) (simp_all add: \<sigma> pinging_def)
  next
    case False
    let ?k = "efd_count counter L"
    have h: "ph_fd h = fd" "ph_strong h = n" "lp_data L = (f ^^ calls) d0"
      and sv: "serving regs fd g g d t L" and k: "odd ?k \<longleftrightarrow> n = 0" "2 \<le> unat ?k \<longleftrightarrow> pinged" "unat ?k \<le> 2 * m + 1"
      using inv' False by simp_all
    note counts = ping_counts [OF k(3) assms(2)]
    show ?thesis
    proof (cases a)
      case PingSend
      with False h sv k counts ping_in_loop(1,2) [of L] serving_frame [OF ping_in_loop(1) [of L], of fd g g d t] show ?thesis
        by (auto simp: \<sigma> pinging_def Let_def)
    next
      case PingClone
      with False h sv k show ?thesis by (auto simp: \<sigma> pinging_def Let_def ping_clone_def)
    next
      case PingDrop
      have "\<not> odd ?k \<Longrightarrow> 2 \<le> unat ?k + 1 \<longleftrightarrow> 2 \<le> unat ?k" by (auto simp: odd_unat_iff)
      with PingDrop False h sv k counts drop_in_loop [of L] serving_frame [OF drop_in_loop(1) [of L], of fd g g d t] show ?thesis
        by (auto simp: \<sigma> pinging_def Let_def ping_handle_drop_def)
    next
      case (PingDispatch timeout)
      have here: "sl_lookup (lp_sources L) t \<noteq> None" using sv by (simp add: serving_def)
      show ?thesis
      proof (cases "?k = 0")
        case True
        then obtain L' where L': "dispatch K (ping_ops K E (\<lambda>L. L\<lparr>lp_data := f (lp_data L)\<rparr>)) run_idle k (Some timeout) L = (Ok (), L')"
          "loop_frame regs L' = loop_frame regs L" "efd_count counter L' = 0" "lp_data L' = lp_data L"
          using idle_dispatch [OF sv True assms(3)] by blast
        with PingDispatch False here h sv k True serving_frame [OF L'(2), of fd g g d t] show ?thesis
          by (auto simp: \<sigma> pinging_def Let_def)
      next
        case False
        obtain L' where L': "dispatch K (ping_ops K E (\<lambda>L. L\<lparr>lp_data := f (lp_data L)\<rparr>)) run_idle k (Some timeout) L = (Ok (), L')"
          "lp_data L' = (if 2 \<le> unat ?k then f (lp_data L) else lp_data L)" "efd_count counter L' = 0"
          "if odd ?k then sl_lookup (lp_sources L') t = None \<and> regs (poller (lp_poll L')) = Map.empty
           else serving regs fd g g d t L'"
          using ping_dispatch [OF sv assms(3) False, of f run_idle "Some timeout"] by blast
        with PingDispatch \<open>\<not> gone\<close> here h k show ?thesis by (auto simp: \<sigma> pinging_def Let_def)
      qed
    qed
  qed
qed

lemma pinging_session:
  assumes "0 < k"
  shows "pinging f d0 g d t m \<sigma> w \<Longrightarrow> m + length acts < 2 ^ 62 \<Longrightarrow>
    \<exists>w'. ping_session K E (ping_ops K E (\<lambda>L. L\<lparr>lp_data := f (lp_data L)\<rparr>)) run_idle k t acts w = (Ok (), w') \<and>
      pinging f d0 g d t (m + length acts) (fold pings_seen acts \<sigma>) w'"
proof (induction acts arbitrary: m \<sigma> w)
  case (Cons a acts)
  obtain h L where w: "w = (h, L)" by (rule prod.exhaust)
  have m: "m < 2 ^ 62" "Suc m + length acts < 2 ^ 62" using Cons.prems(2) by simp_all
  obtain w1 where w1: "ping_do K E (ping_ops K E (\<lambda>L. L\<lparr>lp_data := f (lp_data L)\<rparr>)) run_idle k t a w = (Ok (), w1)"
    "pinging f d0 g d t (Suc m) (pings_seen a \<sigma>) w1"
    using pinging_step [OF Cons.prems(1) [unfolded w] m(1) assms] unfolding w by blast
  with Cons.IH [OF w1(2) m(2)] show ?case by auto
qed simp

end

section \<open>From the handles to the callback\<close>

text \<open>
  C23: a ping in a loop. In a new loop whose poller and eventfd work as documented a ping source is inserted; its
  handles are then cloned, pinged and dropped and the owner dispatches, in any order. No call fails. Each dispatch
  runs the callback once if some handle was pinged since the last one, and not otherwise, however many pings there
  were and from whichever handle; the source stays in the loop until the first dispatch after the last
  handle was dropped, which still delivers a ping sent before the drop, and is then unregistered.
\<close>

theorem ping_end_to_end:
  assumes "level_system K E regs fd counter" and "try_new K (Inr p) dat = Ok L0" and "regs p = Map.empty" and "counter p = 0"
    and "ops = ping_ops K E (\<lambda>L. L\<lparr>lp_data := f (lp_data L)\<rparr>)" and "length acts < 2 ^ 62" and "0 < k"
    and "fold pings_seen acts (1, False, 0, False) = (n, pinged, calls, gone)"
  shows "\<exists>t L1 h L2. insert_source ops (Generic_new fd Interest_READ Level) L0 = (Ok t, L1) \<and>
    ping_session K E ops run_idle k t acts (ping_handle fd, L1) = (Ok (), h, L2) \<and> ph_strong h = n \<and>
    lp_data L2 = (f ^^ calls) dat \<and> (sl_lookup (lp_sources L2) t = None \<longleftrightarrow> gone) \<and>
    (regs (poller (lp_poll L2)) fd = None \<longleftrightarrow> gone)"
proof -
  obtain L1 t g where L1: "insert_source ops (Generic_new fd Interest_READ Level) L0 = (Ok t, L1)" "serving regs fd g g 0 t L1"
      "lp_data L1 = dat" "efd_count counter L1 = 0"
    using pinged_source.insert_serves [OF level_system.ping_pinged [OF assms(1)] assms(2,3) refl]
    unfolding assms(4,5) by blast
  have "level_system.pinging regs fd counter f dat g 0 t 0 (1, False, 0, False) (ping_handle fd, L1)"
    using L1(2-4) by (simp add: level_system.pinging_def [OF assms(1)] ping_handle_def Let_def)
  from level_system.pinging_session [OF assms(1,7) this, of acts run_idle] assms(6) obtain h L2 where
    L2: "ping_session K E ops run_idle k t acts (ping_handle fd, L1) = (Ok (), h, L2)"
      "level_system.pinging regs fd counter f dat g 0 t (length acts) (n, pinged, calls, gone) (h, L2)"
    unfolding assms(5,8) by auto
  have "ph_strong h = n \<and> lp_data L2 = (f ^^ calls) dat \<and> (sl_lookup (lp_sources L2) t = None \<longleftrightarrow> gone) \<and>
      (regs (poller (lp_poll L2)) fd = None \<longleftrightarrow> gone)"
    using L2(2) by (auto simp: level_system.pinging_def [OF assms(1)] Let_def serving_def split: if_splits)
  with L1(1) L2(1) show ?thesis by (intro exI [of _ t] exI [of _ L1] exI [of _ h] exI [of _ L2]) simp
qed

text \<open>Two handles: two pings make one call; the drop of one handle leaves the source, that of the other ends it.\<close>

theorem ping_end_to_end_witness:
  "\<exists>t L1 h L2. insert_source (ping_ops LXP LXE (\<lambda>L. L\<lparr>lp_data := Suc (lp_data L)\<rparr>)) (Generic_new 3 Interest_READ Level) L1 = (Ok t, L2) \<and>
     (\<exists>L3. ping_session LXP LXE (ping_ops LXP LXE (\<lambda>L. L\<lparr>lp_data := Suc (lp_data L)\<rparr>)) (\<lambda>_ L. L) 1 t
        [PingClone, PingSend, PingSend, PingDispatch 5, PingDrop, PingDispatch 5, PingSend, PingDrop, PingDispatch 5]
        (ping_handle 3, L2 :: (eventfd_source, nat, linux, nat) loop_state) = (Ok (), h, L3) \<and>
      lp_data L3 = 2 \<and> sl_lookup (lp_sources L3) t = None)"
proof -
  let ?p = "\<lparr>lx_regs = [], lx_counters = \<lambda>_. 0, lx_now = 0, lx_next = 4\<rparr>"
  let ?acts = "[PingClone, PingSend, PingSend, PingDispatch 5, PingDrop, PingDispatch 5, PingSend, PingDrop, PingDispatch 5]"
  obtain L0 :: "(eventfd_source, nat, linux, nat) loop_state" where L0: "try_new LXP (Inr ?p) 0 = Ok L0"
    by (simp add: try_new_def Poll_new_def Poll_new_inner_def LXP_def)
  have start: "lx_table ?p = Map.empty" "lx_counters ?p 3 = 0" "length ?acts < 2 ^ 62" "0 < (1 :: nat)"
    "fold pings_seen ?acts (1, False, 0, False) = (0, False, 2, True)"
    by (simp_all add: lx_table_def)
  define acts where "acts = ?acts"
  obtain t L1 h L2 where L2: "insert_source (ping_ops LXP LXE (\<lambda>L. L\<lparr>lp_data := Suc (lp_data L)\<rparr>)) (Generic_new 3 Interest_READ Level) L0 = (Ok t, L1)"
    "ping_session LXP LXE (ping_ops LXP LXE (\<lambda>L. L\<lparr>lp_data := Suc (lp_data L)\<rparr>)) (\<lambda>_ L. L) 1 t acts (ping_handle 3, L1) = (Ok (), h, L2)"
    "lp_data L2 = (Suc ^^ 2) 0" "sl_lookup (lp_sources L2) t = None"
    using ping_end_to_end [OF linux_level.level_system_axioms L0 start(1,2) refl start(3,4,5), where run_idle = "\<lambda>_ L. L"]
    unfolding acts_def [symmetric] by blast
  then show ?thesis unfolding acts_def [symmetric] by (intro exI [of _ t] exI [of _ L0] exI [of _ h] exI [of _ L1]) auto
qed

end
