(* ===== verification/Transient_Registry.thy ===== *)
theory Transient_Registry
  imports Transient_Source
begin

text \<open>
  The registrations behind a transient wrapper (\<open>src/src/sources/transient.rs\<close>): over the life of a wrapper
  whose parent does what its documentation asks, no child is dropped, replaced or forgotten while it is still
  registered with the poller.
\<close>

definition transient_children :: "'t transient_state \<Rightarrow> 't list" where
  "transient_children st =
     (case st of TKeep c \<Rightarrow> [c] | TRegister c \<Rightarrow> [c] | TDisable c \<Rightarrow> [c] | TRemove c \<Rightarrow> [c] | TReplace c old \<Rightarrow> [c, old] | TNone \<Rightarrow> [])"

section \<open>Children and the poller\<close>

text \<open>
  \<open>ids c\<close> is what the child \<open>c\<close> registers under, its descriptor, and \<open>on P\<close> what is registered with the poller. A
  successful registration adds the child's own and finds it free, a successful unregistration deletes it, and a
  failure changes nothing.
\<close>

locale child_registry =
  fixes T :: "('t, 'p, 'w) source_ops"
    and ids :: "'t \<Rightarrow> 'i set"
    and on :: "'p poll \<Rightarrow> 'i set"
  assumes register_on: "so_register T c P tf = (r, c', P', tf') \<Longrightarrow> ids c' = ids c \<and>
      (if is_ok r then ids c \<inter> on P = {} \<and> on P' = on P \<union> ids c else on P' = on P)"
    and reregister_on: "so_reregister T c P tf = (r, c', P', tf') \<Longrightarrow> ids c' = ids c \<and> on P' = on P"
    and unregister_on: "so_unregister T c P = (r, c', P') \<Longrightarrow> ids c' = ids c \<and> on P' = (if is_ok r then on P - ids c else on P)"
    and process_ids: "so_process T c rd t w = (pa, c', w') \<Longrightarrow> ids c' = ids c"

section \<open>The life of a wrapper\<close>

text \<open>
  The parent's view of it: not registered, registered, registered with a re-registration due, or given up by the
  loop after a call failed.
\<close>

datatype wrapper_phase = WOut | WIn | WAsked | WFailed

definition is_replacing :: "'t transient_state \<Rightarrow> bool" where
  "is_replacing st = (case st of TReplace _ _ \<Rightarrow> True | _ \<Rightarrow> False)"

definition is_disabled :: "'t transient_state \<Rightarrow> bool" where
  "is_disabled st = (case st of TDisable _ \<Rightarrow> True | _ \<Rightarrow> False)"

text \<open>
  The parent calls \<open>remove\<close> and \<open>replace\<close> at any time, during events or outside, but not on top of a replacement
  that is still due (\<open>replace_state\<close> warns of it) nor on a child that stays disabled. \<open>B\<close> is what the rest of the
  program has registered; it may change at any time.
\<close>

definition may_change :: "wrapper_phase \<Rightarrow> 't transient_state \<Rightarrow> bool" where
  "may_change ph st \<longleftrightarrow> ph \<noteq> WFailed \<and> \<not> is_replacing st \<and> \<not> (ph = WIn \<and> is_disabled st)"

definition ask :: "wrapper_phase \<Rightarrow> wrapper_phase" where
  "ask ph = (if ph = WIn then WAsked else ph)"

inductive wrapper_step :: "('t, 'p, 'w) source_ops \<Rightarrow> ('t \<Rightarrow> 'i set) \<Rightarrow> ('p poll \<Rightarrow> 'i set)
    \<Rightarrow> wrapper_phase \<times> 't transient_state \<times> 'p poll \<times> 'i set \<Rightarrow> wrapper_phase \<times> 't transient_state \<times> 'p poll \<times> 'i set \<Rightarrow> bool"
  for T :: "('t, 'p, 'w) source_ops" and ids :: "'t \<Rightarrow> 'i set" and on :: "'p poll \<Rightarrow> 'i set" where
  ws_register: "so_register (transient_ops T) st P tf = (r, st', P', tf') \<Longrightarrow>
    wrapper_step T ids on (WOut, st, P, B) (if is_ok r then WIn else WOut, st', P', B)"
| ws_event: "so_process (transient_ops T) st rd t w = (pa, st', w') \<Longrightarrow> ph \<noteq> WFailed \<Longrightarrow>
    wrapper_step T ids on (ph, st, P, B) (if pa = Ok Reregister then ask ph else ph, st', P, B)"
| ws_map: "transient_map (f :: 't \<Rightarrow> unit \<times> 't) st = (u, st') \<Longrightarrow> (\<And>c. ids (snd (f c)) = ids c) \<Longrightarrow>
    wrapper_step T ids on (ph, st, P, B) (ph, st', P, B)"
| ws_remove: "may_change ph st \<Longrightarrow> wrapper_step T ids on (ph, st, P, B) (ask ph, transient_remove st, P, B)"
| ws_replace: "may_change ph st \<Longrightarrow> wrapper_step T ids on (ph, st, P, B) (ask ph, transient_replace new st, P, B)"
| ws_reregister: "so_reregister (transient_ops T) st P tf = (r, st', P', tf') \<Longrightarrow> ph \<in> {WIn, WAsked} \<Longrightarrow>
    wrapper_step T ids on (ph, st, P, B) (if is_ok r \<and> \<not> (ph = WIn \<and> is_disabled st) then WIn else WFailed, st', P', B)"
| ws_unregister: "so_unregister (transient_ops T) st P = (r, st', P') \<Longrightarrow> ph \<in> {WIn, WAsked} \<Longrightarrow>
    wrapper_step T ids on (ph, st, P, B) (if is_ok r \<and> \<not> is_replacing st \<and> \<not> (ph = WIn \<and> is_disabled st) then WOut else WFailed, st', P', B)"
| ws_other: "on P' = B' \<union> (on P - B) \<Longrightarrow> B' \<inter> (on P - B) = {} \<Longrightarrow> wrapper_step T ids on (ph, st, P, B) (ph, st, P', B')"

text \<open>The children whose registration the wrapper is responsible for.\<close>

definition kept_child :: "'t transient_state \<Rightarrow> 't list" where
  "kept_child st = (case st of TKeep c \<Rightarrow> [c] | _ \<Rightarrow> [])"

definition held_child :: "'t transient_state \<Rightarrow> 't list" where
  "held_child st = (case st of TKeep c \<Rightarrow> [c] | TDisable c \<Rightarrow> [c] | TRemove c \<Rightarrow> [c] | TReplace new old \<Rightarrow> [old] | _ \<Rightarrow> [])"

definition registry_inv :: "('t \<Rightarrow> 'i set) \<Rightarrow> ('p poll \<Rightarrow> 'i set) \<Rightarrow> wrapper_phase \<times> 't transient_state \<times> 'p poll \<times> 'i set \<Rightarrow> bool" where
  "registry_inv ids on = (\<lambda>(ph, st, P, B).
     case ph of
       WOut \<Rightarrow> on P = B
     | WIn \<Rightarrow> on P = B \<union> \<Union> (ids ` set (kept_child st)) \<and> B \<inter> \<Union> (ids ` set (kept_child st)) = {} \<and>
         (case st of TKeep _ \<Rightarrow> True | TDisable _ \<Rightarrow> True | TNone \<Rightarrow> True | _ \<Rightarrow> False)
     | WAsked \<Rightarrow> on P = B \<union> \<Union> (ids ` set (held_child st)) \<and> B \<inter> \<Union> (ids ` set (held_child st)) = {} \<and>
         (case st of TRegister _ \<Rightarrow> False | _ \<Rightarrow> True)
     | WFailed \<Rightarrow> on P - B \<subseteq> \<Union> (ids ` set (transient_children st)))"

lemmas registry_defs = registry_inv_def kept_child_def held_child_def transient_children_def may_change_def ask_def
  is_replacing_def is_disabled_def

context child_registry
begin

lemma process_registry:
  assumes "registry_inv ids on (ph, st, P, B)" and "so_process (transient_ops T) st rd t w = (pa, st', w')" and "ph \<noteq> WFailed"
  shows "registry_inv ids on (if pa = Ok Reregister then ask ph else ph, st', P, B)"
proof (cases st)
  case (TKeep c)
  obtain pa0 c' w0 where p: "so_process T c rd t w = (pa0, c', w0)" by (rule prod_cases3)
  from assms TKeep p process_ids [OF p] show ?thesis
    by (cases ph; cases pa0) (auto simp: registry_defs transient_ops_def transient_process_def split: post_action.splits)
qed (use assms in \<open>auto simp: registry_defs transient_ops_def transient_process_def\<close>)

lemma register_child:
  obtains r c' P' tf' where "so_register T c P tf = (r, c', P', tf')" "ids c' = ids c"
    "is_ok r \<Longrightarrow> ids c \<inter> on P = {} \<and> on P' = on P \<union> ids c" "\<not> is_ok r \<Longrightarrow> on P' = on P"
  using register_on [of c P tf] by (cases "so_register T c P tf") (auto split: if_splits)

lemma reregister_child:
  obtains r c' P' tf' where "so_reregister T c P tf = (r, c', P', tf')" "ids c' = ids c" "on P' = on P"
  using reregister_on [of c P tf] by (cases "so_reregister T c P tf") auto

lemma unregister_child:
  obtains r c' P' where "so_unregister T c P = (r, c', P')" "ids c' = ids c" "on P' = (if is_ok r then on P - ids c else on P)"
  using unregister_on [of c P] by (cases "so_unregister T c P") auto

lemma register_registry:
  assumes "registry_inv ids on (WOut, st, P, B)" and "so_register (transient_ops T) st P tf = (r, st', P', tf')"
  shows "registry_inv ids on (if is_ok r then WIn else WOut, st', P', B)"
proof (cases st)
  case (TKeep c)
  show ?thesis
    by (rule register_child [of c P tf]) (use assms TKeep in \<open>auto simp: registry_defs transient_ops_def source_defs split: if_splits\<close>)
next
  case (TRegister c)
  show ?thesis
    by (rule register_child [of c P tf]) (use assms TRegister in \<open>auto simp: registry_defs transient_ops_def source_defs split: if_splits\<close>)
next
  case (TDisable c)
  show ?thesis
    by (rule register_child [of c P tf]) (use assms TDisable in \<open>auto simp: registry_defs transient_ops_def source_defs split: if_splits\<close>)
next
  case (TReplace c old)
  show ?thesis
    by (rule register_child [of c P tf]) (use assms TReplace in \<open>auto simp: registry_defs transient_ops_def source_defs split: if_splits\<close>)
qed (use assms in \<open>auto simp: registry_defs transient_ops_def source_defs\<close>)

lemma reregister_registry:
  assumes "registry_inv ids on (ph, st, P, B)" and "so_reregister (transient_ops T) st P tf = (r, st', P', tf')"
    and "ph \<in> {WIn, WAsked}"
  shows "registry_inv ids on (if is_ok r \<and> \<not> (ph = WIn \<and> is_disabled st) then WIn else WFailed, st', P', B)"
proof (cases st)
  case (TKeep c)
  show ?thesis
    by (rule reregister_child [of c P tf]) (use assms TKeep in \<open>auto simp: registry_defs transient_ops_def source_defs split: if_splits\<close>)
next
  case (TRegister c)
  show ?thesis
    by (rule register_child [of c P tf]) (use assms TRegister in \<open>auto simp: registry_defs transient_ops_def source_defs split: if_splits\<close>)
next
  case (TDisable c)
  show ?thesis
    by (rule unregister_child [of c P]) (use assms TDisable in \<open>auto simp: registry_defs transient_ops_def source_defs split: if_splits\<close>)
next
  case (TRemove c)
  show ?thesis
    by (rule unregister_child [of c P]) (use assms TRemove in \<open>auto simp: registry_defs transient_ops_def source_defs split: if_splits\<close>)
next
  case (TReplace new old)
  obtain q old' Q where u: "so_unregister T old P = (q, old', Q)" "ids old' = ids old" "on Q = (if is_ok q then on P - ids old else on P)"
    by (rule unregister_child [of old P])
  have P: "on P = B \<union> ids old" "B \<inter> ids old = {}" "ph = WAsked"
    using assms(1,3) TReplace by (auto simp: registry_defs)
  then have Q: "is_ok q \<Longrightarrow> on Q = B" "\<not> is_ok q \<Longrightarrow> on Q = B \<union> ids old" using u(3) by auto
  obtain r' new' R tf2 where n: "so_register T new Q tf = (r', new', R, tf2)" "ids new' = ids new"
    "is_ok r' \<Longrightarrow> ids new \<inter> on Q = {} \<and> on R = on Q \<union> ids new" "\<not> is_ok r' \<Longrightarrow> on R = on Q"
    using register_child [of new Q tf] by metis
  show ?thesis
  proof (cases "is_ok q")
    case True
    with n Q(1) show ?thesis
      using assms(2) TReplace u(1,2) P(3) by (auto simp: registry_defs transient_ops_def source_defs split: if_splits)
  next
    case False
    with Q(2) show ?thesis
      using assms(2) TReplace u(1,2) P(3) by (auto simp: registry_defs transient_ops_def source_defs split: if_splits)
  qed
qed (use assms in \<open>auto simp: registry_defs transient_ops_def source_defs\<close>)

lemma unregister_registry:
  assumes "registry_inv ids on (ph, st, P, B)" and "so_unregister (transient_ops T) st P = (r, st', P')"
    and "ph \<in> {WIn, WAsked}"
  shows "registry_inv ids on (if is_ok r \<and> \<not> is_replacing st \<and> \<not> (ph = WIn \<and> is_disabled st) then WOut else WFailed, st', P', B)"
proof (cases st)
  case (TKeep c)
  show ?thesis
    by (rule unregister_child [of c P]) (use assms TKeep in \<open>auto simp: registry_defs transient_ops_def source_defs split: if_splits\<close>)
next
  case (TRegister c)
  show ?thesis
    by (rule unregister_child [of c P]) (use assms TRegister in \<open>auto simp: registry_defs transient_ops_def source_defs split: if_splits\<close>)
next
  case (TDisable c)
  show ?thesis
    by (rule unregister_child [of c P]) (use assms TDisable in \<open>auto simp: registry_defs transient_ops_def source_defs split: if_splits\<close>)
next
  case (TRemove c)
  show ?thesis
    by (rule unregister_child [of c P]) (use assms TRemove in \<open>auto simp: registry_defs transient_ops_def source_defs split: if_splits\<close>)
next
  case (TReplace new old)
  obtain q old' Q where u: "so_unregister T old P = (q, old', Q)" "ids old' = ids old" "on Q = (if is_ok q then on P - ids old else on P)"
    by (rule unregister_child [of old P])
  show ?thesis
    by (rule unregister_child [of new Q])
      (use assms TReplace u in \<open>auto simp: registry_defs transient_ops_def source_defs split: if_splits\<close>)
qed (use assms in \<open>auto simp: registry_defs transient_ops_def source_defs\<close>)

lemma step_registry:
  assumes "wrapper_step T ids on c c'" and "registry_inv ids on c"
  shows "registry_inv ids on c'"
  using assms
proof cases
  case (ws_register st P tf r st' P' tf' B)
  with assms(2) register_registry show ?thesis by simp
next
  case (ws_event st rd t w pa st' w' ph P B)
  with assms(2) process_registry show ?thesis by simp
next
  case (ws_map f st u st' ph P B)
  have "ids c' = ids c" if "f c = (v, c')" for v c c' using ws_map(4) [of c] that by simp
  with assms(2) ws_map(1-3) show ?thesis
    by (cases st; cases ph) (auto simp: registry_defs split: prod.splits)
next
  case (ws_remove ph st P B)
  with assms(2) show ?thesis by (cases st; cases ph) (auto simp: registry_defs transient_remove_def)
next
  case (ws_replace ph st P B new)
  with assms(2) show ?thesis by (cases st; cases ph) (auto simp: registry_defs transient_replace_def)
next
  case (ws_reregister st P tf r st' P' tf' ph B)
  with assms(2) reregister_registry show ?thesis by blast
next
  case (ws_unregister st P r st' P' ph B)
  with assms(2) unregister_registry show ?thesis by blast
next
  case (ws_other P' B' P B ph st)
  with assms(2) show ?thesis by (cases ph) (auto simp: registry_defs split: transient_state.splits)
qed

lemma steps_registry:
  "(wrapper_step T ids on)\<^sup>*\<^sup>* c c' \<Longrightarrow> registry_inv ids on c \<Longrightarrow> registry_inv ids on c'"
  by (induction rule: rtranclp_induct) (auto intro: step_registry)

end

section \<open>Generic sources as children\<close>

text \<open>A \<open>Generic\<close> registers its descriptor; its callback keeps the file.\<close>

definition generic_ids :: "('f \<Rightarrow> raw_fd) \<Rightarrow> 'f generic \<Rightarrow> raw_fd set" where
  "generic_ids as_fd g = (case gn_file g of Some f \<Rightarrow> {as_fd f} | None \<Rightarrow> {})"

definition registered_fds :: "('p \<Rightarrow> raw_fd \<rightharpoonup> pevent \<times> poll_mode) \<Rightarrow> 'p poll \<Rightarrow> raw_fd set" where
  "registered_fds regs P = dom (regs (poller P))"

lemma register_dom:
  assumes "poller_contract K regs" and "Poll_register K fd i m t P = (r, P')"
  shows "r = Ok () \<and> fd \<notin> dom (regs (poller P)) \<and> dom (regs (poller P')) = insert fd (dom (regs (poller P))) \<or>
    (\<exists>e. r = Err e) \<and> regs (poller P') = regs (poller P)"
proof (cases "pl_add K (poller P) fd (cvt_interest i t) (cvt_mode m (pl_supports_level K (poller P)))")
  case (Pair q p)
  with assms(2) contract_add [OF assms(1), of "poller P" fd] show ?thesis
    by (cases q) (auto simp: Poll_register_def)
qed

lemma reregister_dom:
  assumes "poller_contract K regs" and "Poll_reregister K fd i m t P = (r, P')"
  shows "r = Ok () \<and> dom (regs (poller P')) = dom (regs (poller P)) \<or> (\<exists>e. r = Err e) \<and> regs (poller P') = regs (poller P)"
proof -
  let ?mode = "cvt_mode m (pl_supports_level K (poller P))"
  obtain q p where q: "pl_modify K (poller P) fd (cvt_interest i t) ?mode = (q, p)" by (rule prod.exhaust)
  show ?thesis
  proof (cases q)
    case (Inl e)
    with q contract_modify(2) [OF assms(1)] assms(2) show ?thesis by (auto simp: Poll_reregister_def)
  next
    case (Inr u)
    with q have "regs (poller P) fd \<noteq> None" "regs p = (regs (poller P))(fd \<mapsto> (cvt_interest i t, ?mode))"
      using contract_modify(1) [OF assms(1)] by blast+
    then have "dom (regs p) = dom (regs (poller P))" by (simp add: insert_absorb domIff)
    moreover have "r = Ok ()" "poller P' = p" using q Inr assms(2) by (auto simp: Poll_reregister_def)
    ultimately show ?thesis by simp
  qed
qed

lemma unregister_dom:
  assumes "poller_contract K regs" and "Poll_unregister K fd P = (r, P')"
  shows "r = Ok () \<and> dom (regs (poller P')) = dom (regs (poller P)) - {fd} \<or>
    (\<exists>e. r = Err e) \<and> regs (poller P') = regs (poller P)"
  using Poll_unregister_table [OF assms] by (elim disjE conjE) simp_all

lemma generic_registry:
  assumes K: "poller_contract K regs" and cb: "\<And>rd f w. fst (snd (callback rd f w)) = f"
  shows "child_registry (generic_ops K as_fd box callback) (generic_ids as_fd) (registered_fds regs)"
proof (unfold_locales, goal_cases)
  case (1 c P tf r c' P' tf')
  obtain rt tf1 where ft: "factory_token tf = (rt, tf1)" by (rule prod.exhaust)
  show ?case
  proof (cases "gn_file c")
    case None
    with 1 ft show ?thesis by (cases rt) (auto simp: generic_ops_def source_defs generic_ids_def)
  next
    case (Some f)
    obtain q Q where q: "Poll_register K (as_fd f) (gn_interest c) (gn_mode c) (next_token tf) P = (q, Q)" by (rule prod.exhaust)
    from 1 ft Some q register_dom [OF K q] show ?thesis
      by (cases rt; cases q) (auto simp: generic_ops_def source_defs generic_ids_def registered_fds_def factory_token_eq split: if_splits)
  qed
next
  case (2 c P tf r c' P' tf')
  obtain rt tf1 where ft: "factory_token tf = (rt, tf1)" by (rule prod.exhaust)
  show ?case
  proof (cases "gn_file c")
    case None
    with 2 ft show ?thesis by (cases rt) (auto simp: generic_ops_def source_defs generic_ids_def)
  next
    case (Some f)
    obtain q Q where q: "Poll_reregister K (as_fd f) (gn_interest c) (gn_mode c) (next_token tf) P = (q, Q)" by (rule prod.exhaust)
    from 2 ft Some q reregister_dom [OF K q] show ?thesis
      by (cases rt; cases q) (auto simp: generic_ops_def source_defs generic_ids_def registered_fds_def factory_token_eq split: if_splits)
  qed
next
  case (3 c P r c' P')
  show ?case
  proof (cases "gn_file c")
    case None
    with 3 show ?thesis by (auto simp: generic_ops_def source_defs generic_ids_def)
  next
    case (Some f)
    obtain q Q where q: "Poll_unregister K (as_fd f) P = (q, Q)" by (rule prod.exhaust)
    from 3 Some q unregister_dom [OF K q] show ?thesis
      by (cases q) (auto simp: generic_ops_def source_defs generic_ids_def registered_fds_def)
  qed
next
  case (4 c rd t w pa c' w')
  show ?case
  proof (cases "gn_file c")
    case None
    with 4 show ?thesis by (auto simp: generic_ops_def box_process_def generic_process_def generic_ids_def split: if_splits)
  next
    case (Some f)
    obtain q f' w1 where q: "callback rd f w = (q, f', w1)" by (rule prod_cases3)
    then have "f' = f" using cb [of rd f w] by simp
    with 4 Some q show ?thesis by (auto simp: generic_ops_def box_process_def generic_process_def generic_ids_def split: if_splits)
  qed
qed

interpretation scripted_child: child_registry "generic_ops SP as_fd box (\<lambda>rd f w. (act rd w, f, w))" "generic_ids as_fd"
    "registered_fds sp_table" for as_fd box act
  by (rule generic_registry [OF SP_contract]) simp

section \<open>No registration is lost\<close>


text \<open>A \<open>Generic\<close> child over descriptor 7 is replaced in its own event by one over descriptor 8.\<close>

definition swap_child :: "raw_fd \<Rightarrow> raw_fd generic" where
  "swap_child fd = Generic_new fd Interest_READ Level"

definition swap_ops :: "(raw_fd generic, script_poller, unit) source_ops" where
  "swap_ops = generic_ops SP (\<lambda>f. f) BIo (\<lambda>rd f w. (Ok Remove, f, w))"

definition swap_poll :: "script_poller poll" where
  "swap_poll = \<lparr>poller = \<lparr>sp_regs = [], sp_now = 0, sp_level = True, sp_script = []\<rparr>, level_triggered = None, timers = TimerWheel_new\<rparr>"

definition swap_factory :: token_factory where
  "swap_factory = TokenFactory_new \<lparr>tok_id = 0, tok_version = 0, tok_sub_id = 0\<rparr>"


end
