(* ===== verification/Test_Kit.thy ===== *)
theory Test_Kit
  imports Loop_Instance Ping_Session
begin

text \<open>
  The crate's tests, examples and benchmarks are programs over the loop, and the model runs them.
  This theory has what they share: \<open>unwrap\<close> and \<open>assert!\<close>, durations, and the equations by which the
  simplifier runs a program on the system \<open>linux\<close>.
\<close>

section \<open>Programs\<close>

text \<open>A program returns a result, or panics where an \<open>unwrap\<close> meets an error or an assertion fails.\<close>

type_synonym 'r program = "(unit, 'r) outcome"

definition expect :: "('e, 'a) outcome \<times> 'w \<Rightarrow> ('a \<Rightarrow> 'w \<Rightarrow> 'r program) \<Rightarrow> 'r program" where
  "expect q k =
     (case q of
        (Ok a, w) \<Rightarrow> k a w
      | (Diverge, w) \<Rightarrow> Diverge
      | (_, w) \<Rightarrow> Panic)"

definition expect_new :: "('e, 'w) outcome \<Rightarrow> ('w \<Rightarrow> 'r program) \<Rightarrow> 'r program" where
  "expect_new q k = expect (q, ()) (\<lambda>w _. k w)"

definition assert_that :: "bool \<Rightarrow> 'r program \<Rightarrow> 'r program" where
  "assert_that b k = (if b then k else Panic)"

abbreviation micros :: "nat \<Rightarrow> duration" where "micros n \<equiv> 1000 * n"
abbreviation millis :: "nat \<Rightarrow> duration" where "millis n \<equiv> 1000000 * n"
abbreviation secs :: "nat \<Rightarrow> duration" where "secs n \<equiv> 1000000000 * n"

definition DURATION_MAX :: duration where
  "DURATION_MAX = 1000000000 * (2 ^ 64 - 1) + 999999999"

text \<open>A new loop on the system \<open>p\<close>, and a dispatch of it; idle callbacks act on the loop.\<close>

type_synonym ('s, 'd) test_loop = "('s, nat, linux, 'd) loop_state"

definition test_new :: "linux \<Rightarrow> 'd \<Rightarrow> ('s, 'd) test_loop cresult" where
  "test_new p dat = try_new LXP (Inr p) dat"

definition test_dispatch :: "('s, nat, linux, 'd) loop_ops \<Rightarrow> duration option \<Rightarrow> ('s, 'd) test_loop
    \<Rightarrow> unit cresult \<times> ('s, 'd) test_loop" where
  "test_dispatch ops timeout L = dispatch LXP ops (\<lambda>_ L. L) 1 timeout L"

section \<open>Running a program by simplification\<close>

lemma LXP_simps [simp]:
  "pl_now LXP = lx_now" "pl_supports_level LXP p = True" "pl_wait LXP = lx_wait" "pl_notify LXP p = (Inr (), p)"
  "pl_add LXP p fd ev m = (if lx_table p fd = None then (Inr (), p\<lparr>lx_regs := (fd, ev, m) # lx_regs p\<rparr>) else (Inl AlreadyExists, p))"
  "pl_modify LXP p fd ev m = (if lx_table p fd = None then (Inl NotFound, p) else (Inr (), p\<lparr>lx_regs := (fd, ev, m) # lx_regs p\<rparr>))"
  "pl_delete LXP p fd = (if lx_table p fd = None then (Inl NotFound, p)
     else (Inr (), p\<lparr>lx_regs := filter (\<lambda>(fd', _). fd' \<noteq> fd) (lx_regs p)\<rparr>))"
  by (simp_all add: LXP_def)

lemma LXE_simps [simp]:
  "ef_create LXE p = (Inr (lx_next p), p\<lparr>lx_counters := (lx_counters p)(lx_next p := 0), lx_next := lx_next p + 1\<rparr>)"
  "ef_write LXE p fd v = (if unat (lx_counters p fd) + unat v < 2 ^ 64 - 1
     then (Inr (), p\<lparr>lx_counters := (lx_counters p)(fd := lx_counters p fd + v)\<rparr>) else (Inl WouldBlock, p))"
  "ef_read LXE p fd = (if lx_counters p fd = 0 then (Inl WouldBlock, p)
     else (Inr (8, lx_counters p fd), p\<lparr>lx_counters := (lx_counters p)(fd := 0)\<rparr>))"
  by (simp_all add: LXE_def EFK_def on_counters_def)

lemma timer_ops_simps [simp]:
  "so_process (timer_ops K cb) = timer_process K cb" "so_register (timer_ops K cb) = timer_register"
  "so_reregister (timer_ops K cb) = timer_reregister" "so_unregister (timer_ops K cb) = timer_unregister"
  "so_needs_extra (timer_ops K cb) = default_needs_extra" "so_before_sleep (timer_ops K cb) = default_before_sleep"
  "so_before_handle (timer_ops K cb) = default_before_handle"
  by (simp_all add: timer_ops_def)

lemma sum_ops_simps [simp]:
  "so_process (sum_ops A B) (Inl a) rd t w = sum_result Inl (so_process A a rd t w)"
  "so_process (sum_ops A B) (Inr b) rd t w = sum_result Inr (so_process B b rd t w)"
  "so_register (sum_ops A B) (Inl a) P tf = sum_result Inl (so_register A a P tf)"
  "so_register (sum_ops A B) (Inr b) P tf = sum_result Inr (so_register B b P tf)"
  "so_reregister (sum_ops A B) (Inl a) P tf = sum_result Inl (so_reregister A a P tf)"
  "so_reregister (sum_ops A B) (Inr b) P tf = sum_result Inr (so_reregister B b P tf)"
  "so_unregister (sum_ops A B) (Inl a) P = sum_result Inl (so_unregister A a P)"
  "so_unregister (sum_ops A B) (Inr b) P = sum_result Inr (so_unregister B b P)"
  "so_needs_extra (sum_ops A B) (Inl a) = so_needs_extra A a"
  "so_needs_extra (sum_ops A B) (Inr b) = so_needs_extra B b"
  by (simp_all add: sum_ops_def)

lemmas run_table = vacant_entry_def TokenInner_new_def SourceList_new_def set_source_def source_set_source forget_sub_id_def
  sl_lookup_def sl_get_def sl_get_mut_def vec_get_def get_id_def same_source_as_def sl_release_eq
  increment_version_def MASK_VERSION_def BITS_VERSION_def
  TokenFactory_new_def factory_token_def increment_sub_id_def checked_add16_def MASK_SUBID_def BITS_SUBID_def
  factory_registration_token_def

lemmas run_calls = expect_def expect_new_def assert_that_def test_new_def try_new_def Poll_new_def Poll_new_inner_def
  insert_source_def Dispatcher_new_def register_dispatcher_def loop_register_def loop_reregister_def loop_unregister_def
  store_disp_def disp_register_def disp_reregister_def disp_unregister_def default_needs_extra_def
  handle_enable_def handle_disable_def handle_update_def handle_remove_def log_error_def
  into_source_inner_def dispatcher_in_use_def lc_register_def lc_unregister_def

lemmas run_dispatch = test_dispatch_def dispatch_def dispatch_events_def dispatch_event_def dispatch_idles_def idle_dispatch_def
  loop_poll_def Poll_poll_def poll_timeout_def rearm_def event_of_pevent_def key_token timer_event_def
  disp_process_def disp_before_sleep_def disp_before_handle_def set_cell_def take_pending_def apply_post_action_def unregister_if_removed_def
  lx_wait_def lx_ready_def lx_table_def Let_def

lemmas run_timers = Timer_from_duration_def Timer_immediate_def Timer_from_deadline_def Timer_from_deadline_inner_def
  instant_checked_add_def INSTANT_MAX_def loop_now_def saturating_duration_since_def
  timer_register_def timer_unregister_def timer_reregister_def timer_process_def timer_rearm_def with_timers_def
  TimerWheel_new_def wheel_insert_def wheel_insert_reuse_def wheel_cancel_def wheel_next_deadline_def wheel_next_expired_def
  heap_push_def heap_pop_def drain_expired.simps

section \<open>Pings in programs\<close>

text \<open>
  A ping source as a source of a loop. The handles of a ping share the \<open>Arc\<close> of its \<open>FlagOnDrop\<close>: a
  program with several of them counts them, and the drop of the last one drops the flag. A program
  with one handle drops it by \<open>ping_drop\<close>.
\<close>

definition test_make_ping :: "('s, 'd) test_loop \<Rightarrow> (io_error, raw_fd \<times> eventfd_source) outcome \<times> ('s, 'd) test_loop" where
  "test_make_ping L = (case eventfd_make_ping LXE loop_system L of (Inr r, L') \<Rightarrow> (Ok r, L') | (Inl e, L') \<Rightarrow> (Err e, L'))"

definition send_ping :: "raw_fd \<Rightarrow> ('s, 'd) test_loop \<Rightarrow> ('s, 'd) test_loop" where
  "send_ping fd L = eventfd_ping LXE loop_system fd L"

definition ping_drop :: "raw_fd \<Rightarrow> ('s, 'd) test_loop \<Rightarrow> ('s, 'd) test_loop" where
  "ping_drop fd L = eventfd_flag_on_drop LXE loop_system fd L"

lemmas run_pings = ping_handle_def ping_clone_def ping_handle_drop_def test_make_ping_def eventfd_make_ping_def send_ping_def ping_drop_def eventfd_ping_def eventfd_flag_on_drop_def
  eventfd_send_ping_def eventfd_process_def generic_process_def eventfd_on_ready_def eventfd_drain_ping_def on_component_def
  INCREMENT_PING_def INCREMENT_CLOSE_def Generic_new_def
  eventfd_register_def eventfd_reregister_def eventfd_unregister_def generic_register_def generic_reregister_def generic_unregister_def
  Poll_register_def Poll_reregister_def Poll_unregister_def track_level_def cvt_mode_def cvt_interest_def Interest_READ_def

section \<open>Dispatchers in programs\<close>

text \<open>
  A program that keeps a \<open>Dispatcher\<close> registers a clone of it, and takes its source out in the end
  with \<open>into_source_inner\<close> when it holds the only one.
\<close>

definition register_new :: "('s, nat, linux, 'd) loop_ops \<Rightarrow> 's \<Rightarrow> ('s, 'd) test_loop
    \<Rightarrow> (error, nat \<times> registration_token) outcome \<times> ('s, 'd) test_loop" where
  "register_new ops source L =
     (case Dispatcher_new ops source L of
        (dispatcher, L1) \<Rightarrow>
          (case register_dispatcher ops dispatcher L1 of (r, L2) \<Rightarrow> (map_ok (\<lambda>token. (dispatcher, token)) r, L2)))"

definition take_source :: "nat \<Rightarrow> ('s, 'd) test_loop \<Rightarrow> 's cresult \<times> ('s, 'd) test_loop" where
  "take_source dispatcher L = (into_source_inner 0 dispatcher L, L)"

lemmas run_dispatchers = register_new_def take_source_def

end
