(* ===== verification/Timer_Programs.thy ===== *)
theory Timer_Programs
  imports Test_Kit Timer_Loop
begin

text \<open>
  The programs of the repository that use timers: the tests of \<open>src/src/sources/timer.rs\<close>, the
  examples \<open>timer.rs\<close> and \<open>high_precision.rs\<close>, the book's \<open>timer_example.rs\<close> and the benchmarks.
\<close>

section \<open>Tests of the timer source\<close>

text \<open>The callback \<open>|_, _, dispatched| { *dispatched = true; action }\<close>.\<close>

definition set_dispatched :: "timeout_action \<Rightarrow> (timer, nat, linux, bool) timer_callback" where
  "set_dispatched action deadline L = (action, L\<lparr>lp_data := True\<rparr>)"

definition test_simple_timer :: "linux \<Rightarrow> unit program" where
  "test_simple_timer p =
     (let ops = timer_ops LXP (set_dispatched TDrop) in
      expect_new (test_new p False) (\<lambda>L.
      expect (insert_source ops (Timer_from_duration (loop_now LXP L) (millis 100)) L) (\<lambda>_ L.
      expect (test_dispatch ops (Some 0) L) (\<lambda>_ L.
      assert_that (\<not> lp_data L) (
      expect (test_dispatch ops (Some (millis 150)) L) (\<lambda>_ L.
      assert_that (lp_data L) (Ok ())))))))"

definition test_simple_timer_instant :: "linux \<Rightarrow> unit program" where
  "test_simple_timer_instant p =
     (let ops = timer_ops LXP (set_dispatched TDrop) in
      expect_new (test_new p False) (\<lambda>L.
      expect (insert_source ops (Timer_from_duration (loop_now LXP L) (millis 100)) L) (\<lambda>_ L.
      expect (test_dispatch ops (Some (millis 150)) L) (\<lambda>_ L.
      assert_that (lp_data L) (Ok ())))))"

definition test_immediate_timer :: "linux \<Rightarrow> unit program" where
  "test_immediate_timer p =
     (let ops = timer_ops LXP (set_dispatched TDrop) in
      expect_new (test_new p False) (\<lambda>L.
      expect (insert_source ops (Timer_immediate (loop_now LXP L)) L) (\<lambda>_ L.
      expect (test_dispatch ops (Some 0) L) (\<lambda>_ L.
      assert_that (lp_data L) (Ok ())))))"

definition test_high_precision_timer :: "linux \<Rightarrow> unit program" where
  "test_high_precision_timer p =
     (let ops = timer_ops LXP (set_dispatched TDrop) in
      expect_new (test_new p False) (\<lambda>L.
      expect (insert_source ops (Timer_from_duration (loop_now LXP L) (millis 100)) L) (\<lambda>_ L.
      expect (test_dispatch ops (Some 0) L) (\<lambda>_ L.
      assert_that (\<not> lp_data L) (
      expect (test_dispatch ops (Some (micros 10200)) L) (\<lambda>_ L.
      assert_that (\<not> lp_data L) (
      expect (test_dispatch ops (Some (millis 100)) L) (\<lambda>_ L.
      assert_that (lp_data L) (Ok ())))))))))"

definition test_cancel_timer :: "linux \<Rightarrow> unit program" where
  "test_cancel_timer p =
     (let ops = timer_ops LXP (set_dispatched TDrop) in
      expect_new (test_new p False) (\<lambda>L.
      expect (insert_source ops (Timer_from_duration (loop_now LXP L) (millis 100)) L) (\<lambda>token L.
      expect (test_dispatch ops (Some 0) L) (\<lambda>_ L.
      assert_that (\<not> lp_data L) (
      expect (handle_remove LXP ops token L) (\<lambda>_ L.
      expect (test_dispatch ops (Some (millis 150)) L) (\<lambda>_ L.
      assert_that (\<not> lp_data L) (Ok ()))))))))"

text \<open>The callback \<open>|_, _, dispatched| { *dispatched += 1; action }\<close>.\<close>

definition count_dispatched :: "timeout_action \<Rightarrow> (timer, nat, linux, nat) timer_callback" where
  "count_dispatched action deadline L = (action, L\<lparr>lp_data := lp_data L + 1\<rparr>)"

definition test_repeating_timer :: "linux \<Rightarrow> unit program" where
  "test_repeating_timer p =
     (let ops = timer_ops LXP (count_dispatched (ToDuration (millis 500))) in
      expect_new (test_new p 0) (\<lambda>L.
      expect (insert_source ops (Timer_from_duration (loop_now LXP L) (millis 500)) L) (\<lambda>_ L.
      expect (test_dispatch ops (Some (millis 250)) L) (\<lambda>_ L.
      assert_that (lp_data L = 0) (
      expect (test_dispatch ops (Some (millis 510)) L) (\<lambda>_ L.
      assert_that (lp_data L = 1) (
      expect (test_dispatch ops (Some (millis 510)) L) (\<lambda>_ L.
      assert_that (lp_data L = 2) (
      expect (test_dispatch ops (Some (millis 510)) L) (\<lambda>_ L.
      assert_that (lp_data L = 3) (Ok ())))))))))))"

lemmas run_timer_program = run_calls run_table run_dispatch run_timers set_dispatched_def count_dispatched_def

text \<open>A callback that must not run records that it did, in the second component.\<close>

definition test_no_overflow :: "linux \<Rightarrow> unit program" where
  "test_no_overflow p =
     (let count = (\<lambda>_ L. (TDrop, L\<lparr>lp_data := (fst (lp_data L) + 1, snd (lp_data L))\<rparr>));
          never = (\<lambda>_ L. (TDrop, L\<lparr>lp_data := (fst (lp_data L), True)\<rparr>));
          ops = sum_ops (timer_ops LXP count) (timer_ops LXP never) :: (timer + timer, nat, linux, nat \<times> bool) loop_ops in
      expect_new (test_new p (0, False)) (\<lambda>L.
      expect (insert_source ops (Inl (Timer_from_duration (loop_now LXP L) (millis 500))) L) (\<lambda>_ L.
      expect (insert_source ops (Inr (Timer_from_duration (loop_now LXP L) DURATION_MAX)) L) (\<lambda>_ L.
      expect (test_dispatch ops (Some (millis 250)) L) (\<lambda>_ L.
      assert_that (fst (lp_data L) = 0) (
      expect (test_dispatch ops (Some (millis 510)) L) (\<lambda>_ L.
      assert_that (fst (lp_data L) = 1) (
      expect (test_dispatch ops (Some (millis 510)) L) (\<lambda>_ L.
      assert_that (fst (lp_data L) = 1) (
      assert_that (\<not> snd (lp_data L)) (Ok ())))))))))))"

lemma timer_tests_simple:
  assumes "lx_now p \<le> secs 1000000000" and "lx_regs p = []"
  shows "test_simple_timer p = Ok ()" "test_simple_timer_instant p = Ok ()" "test_immediate_timer p = Ok ()"
  using assms
  by (simp_all add: test_simple_timer_def test_simple_timer_instant_def test_immediate_timer_def run_timer_program)

lemma timer_tests_steps:
  assumes "lx_now p \<le> secs 1000000000" and "lx_regs p = []"
  shows "test_high_precision_timer p = Ok ()" "test_cancel_timer p = Ok ()" "test_repeating_timer p = Ok ()"
  using assms
  by (simp_all add: test_high_precision_timer_def test_cancel_timer_def test_repeating_timer_def run_timer_program)

lemma timer_tests_overflow:
  assumes "lx_now p \<le> secs 1000000000" and "lx_regs p = []"
  shows "test_no_overflow p = Ok ()"
  using assms by (simp add: test_no_overflow_def run_timer_program sum_result_def DURATION_MAX_def)

section \<open>The examples\<close>

text \<open>
  \<open>examples/timer.rs\<close>: what it prints is the record of its callback. The fuel \<open>n\<close> is for the waits
  of a dispatch and \<open>m\<close> for the iterations of \<open>run\<close>.
\<close>

definition timer_example_main :: "'p poller_ops \<Rightarrow> nat \<Rightarrow> nat \<Rightarrow> 'p \<Rightarrow> (instant \<times> instant) list program" where
  "timer_example_main K n m p =
     (let ops = timer_ops K (timed_callback K (\<lambda>_. TDrop) True) :: (timer, unit, 'p, (instant \<times> instant) list) loop_ops in
      expect_new (try_new K (Inr p) []) (\<lambda>event_loop.
      expect (insert_source ops (Timer_from_duration (loop_now K event_loop) (secs 2)) event_loop) (\<lambda>_ event_loop.
      expect (run K ops (\<lambda>_ L. L) n m (Some (millis 20)) (\<lambda>L. L) event_loop) (\<lambda>_ event_loop.
      Ok (lp_data event_loop)))))"

text \<open>The program in the documentation of the crate, \<open>src/src/lib.rs\<close>.\<close>

definition crate_example_main :: "'p poller_ops \<Rightarrow> nat \<Rightarrow> nat \<Rightarrow> 'p \<Rightarrow> (instant \<times> instant) list program" where
  "crate_example_main K n m p =
     (let ops = timer_ops K (timed_callback K (\<lambda>_. TDrop) True) :: (timer, unit, 'p, (instant \<times> instant) list) loop_ops in
      expect_new (try_new K (Inr p) []) (\<lambda>event_loop.
      let source = Timer_from_duration (loop_now K event_loop) (secs 2) in
      expect (insert_source ops source event_loop) (\<lambda>_ event_loop.
      expect (run K ops (\<lambda>_ L. L) n m (Some (millis 20)) (\<lambda>L. L) event_loop) (\<lambda>_ event_loop.
      Ok (lp_data event_loop)))))"

text \<open>\<open>examples/high_precision.rs\<close>: the time it prints.\<close>

definition high_precision_main :: "'p poller_ops \<Rightarrow> nat \<Rightarrow> 'p \<Rightarrow> duration program" where
  "high_precision_main K n p =
     (let ops = timer_ops K (timed_callback K (\<lambda>_. TDrop) False) :: (timer, unit, 'p, (instant \<times> instant) list) loop_ops in
      expect_new (try_new K (Inr p) []) (\<lambda>event_loop.
      let before = loop_now K event_loop in
      expect (insert_source ops (Timer_from_duration (loop_now K event_loop) (micros 20)) event_loop) (\<lambda>_ event_loop.
      expect (dispatch K ops (\<lambda>_ L. L) n None event_loop) (\<lambda>_ event_loop.
      Ok (loop_now K event_loop - before)))))"

text \<open>\<open>doc/src/timer_example.rs\<close>.\<close>

definition timer_book_main :: "'p poller_ops \<Rightarrow> nat \<Rightarrow> 'p \<Rightarrow> (instant \<times> instant) list program" where
  "timer_book_main K n p =
     (let ops = timer_ops K (timed_callback K (\<lambda>_. TDrop) False) :: (timer, unit, 'p, (instant \<times> instant) list) loop_ops in
      expect_new (try_new K (Inr p) []) (\<lambda>event_loop.
      let timer = Timer_from_duration (loop_now K event_loop) (secs 5) in
      expect (insert_source ops timer event_loop) (\<lambda>_ event_loop.
      expect (dispatch K ops (\<lambda>_ L. L) n None event_loop) (\<lambda>_ event_loop.
      Ok (lp_data event_loop)))))"

context timed_poller
begin

text \<open>A run with a timeout of \<open>to\<close> that a timer stops ends within \<open>m\<close> rounds past the deadline.\<close>

lemma run_until_fired:
  fixes L :: "(timer, 'i, 'p, (instant \<times> instant) list) loop_state"
  assumes "0 < n" and "0 < to"
  shows "armed regs tm d t deadline L \<Longrightarrow> \<not> lp_stop L \<Longrightarrow> deadline \<le> loop_now K L + m * to \<Longrightarrow>
    \<exists>L' now. run_loop K (timer_ops K (timed_callback K act True)) run_idle n (Some to) (\<lambda>L. L) (Suc m) L = (Ok (), L') \<and>
      lp_data L' = lp_data L @ [(deadline, now)] \<and> deadline \<le> now"
proof (induction m arbitrary: L)
  case (0 L)
  then show ?case using timer_dispatch [OF 0(1) assms(1), of act True run_idle "Some to"] assms(2) by fastforce
next
  case (Suc m)
  obtain L1 now where L1: "dispatch K (timer_ops K (timed_callback K act True)) run_idle n (Some to) L = (Ok (), L1)"
    "deadline \<le> now \<or> loop_now K L + to \<le> now"
    "if deadline \<le> now then lp_data L1 = lp_data L @ [(deadline, now)] \<and> lp_stop L1
     else lp_data L1 = lp_data L \<and> armed regs tm d t deadline L1 \<and> lp_stop L1 = lp_stop L \<and> loop_now K L1 = now"
    using timer_dispatch [OF Suc.prems(1) assms(1), of act True run_idle "Some to"] by (elim exE conjE) (auto split: if_splits)
  show ?case
  proof (cases "deadline \<le> now")
    case True
    with L1 Suc.prems(2) show ?thesis by (intro exI [of _ L1] exI [of _ now]) simp
  next
    case False
    with L1 Suc.prems(2,3) have "armed regs tm d t deadline L1" "\<not> lp_stop L1" "deadline \<le> loop_now K L1 + m * to"
      "lp_data L1 = lp_data L"
      by auto
    from Suc.IH [OF this(1,2,3)] this(4) L1(1) Suc.prems(2) show ?thesis by auto
  qed
qed

lemma timer_inserted:
  fixes p :: 'p and dat :: 'd
  assumes "regs p = Map.empty" and "pl_now K p + d \<le> INSTANT_MAX"
  shows "\<exists>(L :: (timer, 'i, 'p, 'd) loop_state) t L1 tm. try_new K (Inr p) dat = Ok L \<and> loop_now K L = pl_now K p \<and>
    insert_source (timer_ops K cb) (Timer_from_duration (pl_now K p) d) L = (Ok t, L1) \<and>
    armed regs tm 0 t (pl_now K p + d) L1 \<and> lp_data L1 = dat \<and> loop_now K L1 = pl_now K p"
proof -
  obtain L :: "(timer, 'i, 'p, 'd) loop_state" where L: "try_new K (Inr p) dat = Ok L" "loop_now K L = pl_now K p"
    by (simp add: try_new_def Poll_new_def Poll_new_inner_def loop_now_def)
  have d: "Timer_from_duration (pl_now K p) d = Timer_from_deadline (pl_now K p + d)"
    using assms(2) by (simp add: Timer_from_duration_def Timer_from_deadline_def instant_checked_add_def)
  obtain L1 t tm where "insert_source (timer_ops K cb) (Timer_from_deadline (pl_now K p + d)) L = (Ok t, L1)"
      "armed regs tm 0 t (pl_now K p + d) L1" "lp_data L1 = dat" "poller (lp_poll L1) = p"
    using insert_timer_arms [OF L(1) assms(1), of cb "pl_now K p + d"] by blast
  with L show ?thesis unfolding d by (metis loop_now_def)
qed

text \<open>One dispatch without a timeout.\<close>

lemma one_timer_dispatch:
  fixes p :: 'p
  assumes "regs p = Map.empty" and "pl_now K p + d \<le> INSTANT_MAX" and "0 < n"
  shows "\<exists>(L :: (timer, 'i, 'p, (instant \<times> instant) list) loop_state) t L1 L2 now. try_new K (Inr p) [] = Ok L \<and> loop_now K L = pl_now K p \<and>
    insert_source (timer_ops K (timed_callback K (\<lambda>_. TDrop) stops)) (Timer_from_duration (pl_now K p) d) L = (Ok t, L1) \<and>
    dispatch K (timer_ops K (timed_callback K (\<lambda>_. TDrop) stops)) run_idle n None L1 = (Ok (), L2) \<and>
    pl_now K p + d \<le> now \<and> lp_data L2 = [(pl_now K p + d, now)] \<and> loop_now K L2 = now"
proof -
  obtain L :: "(timer, 'i, 'p, (instant \<times> instant) list) loop_state" and t L1 tm
    where L: "try_new K (Inr p) [] = Ok L" "loop_now K L = pl_now K p"
      "insert_source (timer_ops K (timed_callback K (\<lambda>_. TDrop) stops)) (Timer_from_duration (pl_now K p) d) L = (Ok t, L1)"
      "armed regs tm 0 t (pl_now K p + d) L1" "lp_data L1 = []"
    using timer_inserted [where dat = "[] :: (instant \<times> instant) list" and cb = "timed_callback K (\<lambda>_. TDrop) stops", OF assms(1,2)] by blast
  with timer_dispatch [OF L(4) assms(3), of "\<lambda>_. TDrop" stops run_idle None] show ?thesis by force
qed

lemma timer_programs:
  fixes p :: 'p
  assumes "regs p = Map.empty" and "pl_now K p + secs 5 \<le> INSTANT_MAX" and "0 < n" and "100 < m"
  shows "\<exists>now. timer_example_main K n m p = Ok [(pl_now K p + secs 2, now)] \<and> pl_now K p + secs 2 \<le> now"
    and "\<exists>now. timer_book_main K n p = Ok [(pl_now K p + secs 5, now)] \<and> pl_now K p + secs 5 \<le> now"
    and "\<exists>slept. high_precision_main K n p = Ok slept \<and> micros 20 \<le> slept"
proof -
  have two: "pl_now K p + secs 2 \<le> INSTANT_MAX" and few: "pl_now K p + micros 20 \<le> INSTANT_MAX" using assms(2) by simp_all
  obtain L :: "(timer, unit, 'p, (instant \<times> instant) list) loop_state" and t L1 tm
    where L: "try_new K (Inr p) [] = Ok L" "loop_now K L = pl_now K p"
      "insert_source (timer_ops K (timed_callback K (\<lambda>_. TDrop) True)) (Timer_from_duration (pl_now K p) (secs 2)) L = (Ok t, L1)"
      "armed regs tm 0 t (pl_now K p + secs 2) L1" "lp_data L1 = []" "loop_now K L1 = pl_now K p"
    using timer_inserted [where dat = "[] :: (instant \<times> instant) list" and cb = "timed_callback K (\<lambda>_. TDrop) True", OF assms(1) two] by blast
  let ?L1 = "L1\<lparr>lp_stop := False\<rparr>"
  obtain m' where m: "m = Suc m'" "100 \<le> m'" using assms(4) by (cases m) auto
  have "armed regs tm 0 t (pl_now K p + secs 2) ?L1" "\<not> lp_stop ?L1" "pl_now K p + secs 2 \<le> loop_now K ?L1 + m' * millis 20"
    "lp_data ?L1 = []"
    using L(4-6) m(2) by (simp_all add: armed_def loop_now_def)
  from run_until_fired [OF assms(3) _ this(1,2,3), of "\<lambda>_. TDrop" "\<lambda>_ L. L"] this(4)
  show "\<exists>now. timer_example_main K n m p = Ok [(pl_now K p + secs 2, now)] \<and> pl_now K p + secs 2 \<le> now"
    using L(1-3) by (auto simp: timer_example_main_def expect_new_def expect_def run_def m(1))
  obtain L :: "(timer, unit, 'p, (instant \<times> instant) list) loop_state" and t L1 L2 now
    where "try_new K (Inr p) [] = Ok L" "loop_now K L = pl_now K p"
      "insert_source (timer_ops K (timed_callback K (\<lambda>_. TDrop) False)) (Timer_from_duration (pl_now K p) (secs 5)) L = (Ok t, L1)"
      "dispatch K (timer_ops K (timed_callback K (\<lambda>_. TDrop) False)) (\<lambda>_ L. L) n None L1 = (Ok (), L2)"
      "pl_now K p + secs 5 \<le> now" "lp_data L2 = [(pl_now K p + secs 5, now)]"
    using one_timer_dispatch [OF assms(1,2,3), of False "\<lambda>_ L. L"] by blast
  then show "\<exists>now. timer_book_main K n p = Ok [(pl_now K p + secs 5, now)] \<and> pl_now K p + secs 5 \<le> now"
    by (simp add: timer_book_main_def expect_new_def expect_def Let_def)
  obtain L :: "(timer, unit, 'p, (instant \<times> instant) list) loop_state" and t L1 L2 now
    where "try_new K (Inr p) [] = Ok L" "loop_now K L = pl_now K p"
      "insert_source (timer_ops K (timed_callback K (\<lambda>_. TDrop) False)) (Timer_from_duration (pl_now K p) (micros 20)) L = (Ok t, L1)"
      "dispatch K (timer_ops K (timed_callback K (\<lambda>_. TDrop) False)) (\<lambda>_ L. L) n None L1 = (Ok (), L2)"
      "pl_now K p + micros 20 \<le> now" "loop_now K L2 = now"
    using one_timer_dispatch [OF assms(1) few assms(3), of False "\<lambda>_ L. L"] by blast
  then show "\<exists>slept. high_precision_main K n p = Ok slept \<and> micros 20 \<le> slept"
    by (simp add: high_precision_main_def expect_new_def expect_def Let_def)
qed

end

section \<open>Properties\<close>

lemma crate_example_main_eq: "crate_example_main K n m p = timer_example_main K n m p"
  by (simp add: crate_example_main_def timer_example_main_def Let_def)

text \<open>
  C25: the examples do what they are written to do. On every poller that keeps time and has room for five
  more seconds on its clock, \<open>examples/timer.rs\<close> and the program in the documentation of the crate leave
  \<open>run\<close> with success after their timer has fired once, with the deadline two seconds after their start and not before it; the book's example
  ends after one dispatch with its timer fired; and the loop of \<open>examples/high_precision.rs\<close> slept at
  least the twenty microseconds it asked for.
\<close>

theorem timer_examples_finish:
  assumes "timed_poller K regs" and "regs p = Map.empty" and "pl_now K p + secs 5 \<le> INSTANT_MAX" and "0 < n" and "100 < m"
  shows "(\<exists>now. timer_example_main K n m p = Ok [(pl_now K p + secs 2, now)] \<and>
      crate_example_main K n m p = Ok [(pl_now K p + secs 2, now)] \<and> pl_now K p + secs 2 \<le> now) \<and>
    (\<exists>now. timer_book_main K n p = Ok [(pl_now K p + secs 5, now)] \<and> pl_now K p + secs 5 \<le> now) \<and>
    (\<exists>slept. high_precision_main K n p = Ok slept \<and> micros 20 \<le> slept)"
  unfolding crate_example_main_eq using timed_poller.timer_programs [OF assms] by blast

theorem timer_examples_finish_witness:
  "\<exists>now. timer_example_main LXP 1 101 \<lparr>lx_regs = [], lx_counters = \<lambda>_. 0, lx_now = 7, lx_next = 3\<rparr> = Ok [(2000000007, now)]"
proof -
  let ?p = "\<lparr>lx_regs = [], lx_counters = \<lambda>_. 0, lx_now = 7, lx_next = 3\<rparr>"
  have "lx_table ?p = Map.empty" "pl_now LXP ?p + secs 5 \<le> INSTANT_MAX" by (simp_all add: lx_table_def INSTANT_MAX_def)
  from timer_examples_finish [OF linux_clock.timed_poller_axioms this, of 1 101] show ?thesis by simp blast
qed

text \<open>
  The crate's tests of its timers, on a system with a free clock: in each of them every
  \<open>unwrap\<close> succeeds and every assertion holds, whenever the test starts. Timers fire in the dispatch
  whose time reaches their deadline and in none before; an immediate timer fires in the first; a
  removed one never; a repeating one once per period; and a duration past the end of time makes a
  timer that stays silent and does not disturb the others.
\<close>

theorem timer_tests_pass:
  assumes "lx_now p \<le> secs 1000000000" and "lx_regs p = []"
  shows "test_simple_timer p = Ok () \<and> test_simple_timer_instant p = Ok () \<and> test_immediate_timer p = Ok () \<and>
    test_high_precision_timer p = Ok () \<and> test_cancel_timer p = Ok () \<and> test_repeating_timer p = Ok () \<and>
    test_no_overflow p = Ok ()"
  using timer_tests_simple [OF assms] timer_tests_steps [OF assms] timer_tests_overflow [OF assms] by simp

theorem timer_tests_pass_witness:
  "test_repeating_timer \<lparr>lx_regs = [], lx_counters = \<lambda>_. 0, lx_now = 12, lx_next = 3\<rparr> = Ok ()"
  by (rule timer_tests_pass [THEN conjunct2, THEN conjunct2, THEN conjunct2, THEN conjunct2, THEN conjunct2, THEN conjunct1]) simp_all

end
