(* ===== verification/Timer_Benches.thy ===== *)
theory Timer_Benches
  imports Timer_Programs Timer_Agenda
begin

text \<open>
  The benchmarks of the timers (\<open>benches/timer.rs\<close>): among others that are left alone, one timer is
  removed and inserted again in every round. The closure that is measured runs \<open>n\<close> times.
\<close>

section \<open>The benchmarks\<close>

definition bench_ops :: "(timer, nat, linux, unit) loop_ops" where
  "bench_ops = timer_ops LXP (\<lambda>_ L. (TDrop, L))"

definition bench_insert :: "duration \<Rightarrow> (timer, unit) test_loop \<Rightarrow> (timer insert_error, registration_token) outcome \<times> (timer, unit) test_loop" where
  "bench_insert d L = insert_source bench_ops (Timer_from_duration (loop_now LXP L) d) L"

text \<open>The closure that is measured, and \<open>n\<close> runs of it.\<close>

definition bench_extend :: "registration_token \<times> (timer, unit) test_loop \<Rightarrow> (registration_token \<times> (timer, unit) test_loop) program" where
  "bench_extend = (\<lambda>(timeout_token, L).
     expect (handle_remove LXP bench_ops timeout_token L) (\<lambda>_ L.
     expect (bench_insert (secs 600) L) (\<lambda>timeout_token L.
     expect (test_dispatch bench_ops (Some 0) L) (\<lambda>_ L.
     Ok (timeout_token, L)))))"

fun bench_iter :: "nat \<Rightarrow> registration_token \<times> (timer, unit) test_loop \<Rightarrow> (registration_token \<times> (timer, unit) test_loop) program" where
  "bench_iter 0 s = Ok s"
| "bench_iter (Suc n) s = expect (bench_extend s, ()) (\<lambda>s _. bench_iter n s)"

definition bench_single :: "nat \<Rightarrow> linux \<Rightarrow> (registration_token \<times> (timer, unit) test_loop) program" where
  "bench_single n p =
     expect_new (test_new p ()) (\<lambda>L.
     expect (bench_insert (secs 600) L) (\<lambda>timeout_token L.
     bench_iter n (timeout_token, L)))"

definition bench_mixed :: "nat \<Rightarrow> linux \<Rightarrow> (registration_token \<times> (timer, unit) test_loop) program" where
  "bench_mixed n p =
     expect_new (test_new p ()) (\<lambda>L.
     expect (bench_insert (secs 599) L) (\<lambda>_ L.
     expect (bench_insert (secs 600) L) (\<lambda>timeout_token L.
     expect (bench_insert (secs 900) L) (\<lambda>_ L.
     bench_iter n (timeout_token, L)))))"

text \<open>\<open>mixed_multiple\<close>, with \<open>k\<close> timers inserted in a row.\<close>

fun bench_many :: "nat \<Rightarrow> duration \<Rightarrow> (timer, unit) test_loop \<Rightarrow> (timer insert_error, unit) outcome \<times> (timer, unit) test_loop" where
  "bench_many 0 d L = (Ok (), L)"
| "bench_many (Suc k) d L = and_then (bench_insert d L) (\<lambda>_ L. bench_many k d L)"

definition bench_mixed_multiple :: "nat \<Rightarrow> linux \<Rightarrow> (registration_token \<times> (timer, unit) test_loop) program" where
  "bench_mixed_multiple n p =
     expect_new (test_new p ()) (\<lambda>L.
     expect (bench_many 1000 (secs 599) L) (\<lambda>_ L.
     expect (bench_insert (secs 600) L) (\<lambda>timeout_token L.
     expect (bench_many 1000 (secs 900) L) (\<lambda>_ L.
     bench_iter n (timeout_token, L)))))"

section \<open>A round\<close>

text \<open>A timer is removed: it leaves the wheel, its slot is free.\<close>

lemma remove_stocked:
  assumes "stocked regs D A i m L" and "a \<in> A"
  shows "\<exists>L'. handle_remove K (timer_ops K cb) (td_token a) L = (Ok (), L') \<and> stocked regs D (A - {a}) i m L' \<and>
    poller (lp_poll L') = poller (lp_poll L)"
proof -
  have L: "alarms regs D A L" "mset (tw_heap (timers (lp_poll L))) = mset_set A" "td_counter ` A \<subseteq> of_nat ` {..<i}"
    using assms(1) by (simp_all add: stocked_def)
  note fr = alarmsD [OF L(1)]
  let ?t = "td_token a" and ?d = "D (td_token a)" and ?w = "timers (lp_poll L)"
  let ?c = "\<lparr>cell_val = SourceDisp \<lparr>di_source = \<lparr>tm_registration = None, tm_deadline = Some (td_deadline a)\<rparr>, di_needs = False\<rparr>,
    cell_borrowed = False\<rparr>"
  let ?L' = "L\<lparr>lp_sources := sl_release ?t (lp_sources L), lp_poll := (lp_poll L)\<lparr>timers := wheel_cancel (td_counter a) ?w\<rparr>,
    lp_cells := (lp_cells L)[?d := ?c]\<rparr>"
  have al: "alarm D a L" using L(1) assms(2) by (simp add: alarms_def)
  then have rm: "handle_remove K (timer_ops K cb) ?t L = (Ok (), ?L')"
    by (auto simp: alarm_def handle_remove_def sl_lookup_iff sl_get_mut_def vec_get_def sl_release_eq loop_unregister_def disp_unregister_def
        timer_ops_def timer_unregister_def store_disp_def log_error_def)
  have "alarms regs D (A - {a}) ?L'"
    by (rule alarms_removed [OF L(1) assms(2)]) (simp_all add: fr)
  moreover have "size (filter_mset (\<lambda>b. td_counter b = c) (mset_set A)) \<le> 1" for c
  proof -
    have "card {b \<in> A. td_counter b = c} \<le> Suc 0" using fr(7) inj_onD [OF fr(9)] by (subst card_le_Suc0_iff_eq) simp_all
    then show ?thesis using fr(7) by simp
  qed
  then have "distinct_counters (wheel_items ?w)" using L(2) by (simp add: distinct_counters_def wheel_items_def)
  then have "mset (tw_heap (wheel_cancel (td_counter a) ?w)) = filter_mset (\<lambda>b. td_counter b \<noteq> td_counter a) (mset_set A)"
    using wheel.items_cancel [of ?w "td_counter a"] L(2) by (simp add: wheel_items_def)
  moreover have "{b \<in> A. td_counter b \<noteq> td_counter a} = A - {a}" using inj_onD [OF fr(9) _ _ assms(2)] by auto
  moreover have "card (A - {a}) \<le> card A" using fr(7) by (simp add: card_mono)
  ultimately show ?thesis using assms(1) rm fr(7) by (intro exI [of _ ?L']) (auto simp: stocked_def sl_release_eq)
qed

text \<open>A dispatch without waiting and with nothing due.\<close>

lemma quiet_dispatch:
  fixes L :: "(timer, 'd) test_loop"
  assumes "stocked lx_table D A i m L" and "A \<noteq> {}" and "\<forall>b \<in> A. loop_now LXP L < td_deadline b"
  shows "test_dispatch ops (Some 0) L = (Ok (), L)"
proof -
  let ?P = "lp_poll L" and ?now = "loop_now LXP L"
  have L: "alarms lx_table D A L" "mset (tw_heap (timers ?P)) = mset_set A" using assms(1) by (simp_all add: stocked_def)
  note fr = alarmsD [OF L(1)]
  have "tw_heap (timers ?P) \<noteq> []" using assms(2) L(2) fr(7) by (auto simp: mset_set_empty_iff)
  then obtain e where e: "heap_peek (tw_heap (timers ?P)) = Some e" by (metis heap_peek_None_iff not_None_eq)
  have "e \<in># mset_set A" using heap_peek_SomeD [OF e] L(2) by (metis set_mset_mset)
  then have late: "?now < td_deadline e" using assms(3) fr(7) by simp
  have "lx_regs (poller ?P) = []" using fr(5) by (simp add: lx_table_def)
  then have wait: "pl_wait LXP (poller ?P) (Some 0) = (Inr [], poller ?P)" by (simp add: LXP_def lx_wait_def lx_ready_def)
  have "poll_timeout LXP ?P (Some 0) = Some 0"
    using e by (simp add: poll_timeout_def wheel_next_deadline_def)
  moreover have "drain_expired ?now (timers ?P) = ([], timers ?P)"
    using e late by (simp add: drain_expired.simps [of ?now] wheel_next_expired_def)
  ultimately have "Poll_poll LXP (Some 0) ?P = (Ok [], ?P)"
    using wait by (simp add: Poll_poll_def loop_now_def)
  then have "loop_poll LXP 1 (pl_now LXP (poller ?P)) (Some 0) L = (Ok (Some []), L)" by (simp add: loop_poll_def)
  from dispatch_events_listed [OF fr(1) this fr(1,2)]
  have "dispatch_events LXP ops 1 (Some 0) L = (Ok (), L)" by simp
  then show ?thesis using fr(3) by (simp add: test_dispatch_def dispatch_def dispatch_no_idles)
qed

text \<open>
  The loop between two rounds: \<open>M\<close> are the deadlines of its timers, of which that of the token is extended,
  and its table has as many slots.
\<close>

definition bench_state :: "linux \<Rightarrow> instant multiset \<Rightarrow> nat \<Rightarrow> registration_token \<times> (timer, unit) test_loop \<Rightarrow> bool" where
  "bench_state p M i = (\<lambda>(t, L). \<exists>D A a. stocked lx_table D A i (size M) L \<and> poller (lp_poll L) = p \<and> deadlines A = M \<and>
     a \<in> A \<and> td_token a = t \<and> td_deadline a = lx_now p + secs 600)"

lemma bench_insert_stocked:
  assumes "stocked lx_table D A i m L" and "i < 2 ^ 32" and "loop_now LXP L + d \<le> INSTANT_MAX"
  shows "\<exists>L' D' a. bench_insert d L = (Ok (td_token a), L') \<and> stocked lx_table D' (insert a A) (Suc i) (max m (Suc (card A))) L' \<and>
    a \<notin> A \<and> td_deadline a = loop_now LXP L + d \<and> poller (lp_poll L') = poller (lp_poll L)"
proof -
  have "Timer_from_duration (loop_now LXP L) d = Timer_from_deadline (loop_now LXP L + d)"
    using assms(3) by (simp add: Timer_from_duration_def Timer_from_deadline_def instant_checked_add_def)
  then show ?thesis using insert_stocked [OF assms(1,2), of LXP "\<lambda>_ L. (TDrop, L)" "loop_now LXP L + d"]
    by (simp add: bench_insert_def bench_ops_def)
qed

lemma bench_round:
  assumes "bench_state p M i s" and "i < 2 ^ 32" and "lx_now p + secs 600 \<le> INSTANT_MAX" and "\<forall>d \<in># M. lx_now p < d"
  shows "\<exists>s'. bench_extend s = Ok s' \<and> bench_state p M (Suc i) s'"
proof -
  obtain t L D A a where s: "s = (t, L)" "stocked lx_table D A i (size M) L" "poller (lp_poll L) = p" "deadlines A = M"
    "a \<in> A" "td_token a = t" "td_deadline a = lx_now p + secs 600"
    using assms(1) by (cases s) (auto simp: bench_state_def)
  have fin: "finite A" using s(2) by (auto simp: stocked_def alarms_def)
  obtain L1 where L1: "handle_remove LXP bench_ops t L = (Ok (), L1)" "stocked lx_table D (A - {a}) i (size M) L1" "poller (lp_poll L1) = p"
    using remove_stocked [OF s(2,5), of LXP "\<lambda>_ L. (TDrop, L)"] s(3,6) by (auto simp: bench_ops_def)
  obtain L2 D2 b where L2: "bench_insert (secs 600) L1 = (Ok (td_token b), L2)" "b \<notin> A - {a}" "td_deadline b = lx_now p + secs 600"
    "stocked lx_table D2 (insert b (A - {a})) (Suc i) (max (size M) (Suc (card (A - {a})))) L2" "poller (lp_poll L2) = p"
    using bench_insert_stocked [OF L1(2) assms(2), of "secs 600"] assms(3) L1(3) by (auto simp: loop_now_def)
  have "deadlines A = add_mset (td_deadline a) (deadlines (A - {a}))"
    by (simp add: deadlines_def mset_set.remove [OF fin s(5)])
  then have M: "deadlines (insert b (A - {a})) = M" using L2(2,3) s(4,7) fin by (simp add: deadlines_def)
  moreover have "Suc (card (A - {a})) = size M" using card_Suc_Diff1 [OF fin s(5)] s(4) by (auto simp: deadlines_def)
  moreover have "\<forall>c \<in> insert b (A - {a}). loop_now LXP L2 < td_deadline c"
  proof
    fix c assume "c \<in> insert b (A - {a})"
    then have "td_deadline c \<in># deadlines (insert b (A - {a}))" using fin by (auto simp: deadlines_def)
    then show "loop_now LXP L2 < td_deadline c" using assms(4) M L2(5) by (simp add: loop_now_def)
  qed
  then have "test_dispatch bench_ops (Some 0) L2 = (Ok (), L2)" using quiet_dispatch [OF L2(4)] by blast
  ultimately show ?thesis using s(1) L1(1) L2 by (auto simp: bench_extend_def expect_def bench_state_def)
qed

lemma bench_rounds:
  assumes "bench_state p M i s" and "i + n \<le> 2 ^ 32" and "lx_now p + secs 600 \<le> INSTANT_MAX" and "\<forall>d \<in># M. lx_now p < d"
  shows "\<exists>s'. bench_iter n s = Ok s' \<and> bench_state p M (i + n) s'"
  using assms(1,2)
proof (induction n arbitrary: s i)
  case (Suc n)
  obtain s1 where s1: "bench_extend s = Ok s1" "bench_state p M (Suc i) s1"
    using bench_round [OF Suc.prems(1) _ assms(3,4)] Suc.prems(2) by auto
  from Suc.IH [OF s1(2)] Suc.prems(2) s1(1) show ?case by (auto simp: expect_def)
qed auto

section \<open>Before the rounds\<close>

lemma bench_many_stocked:
  assumes "stocked lx_table D A i i L" and "card A = i" and "i + k \<le> 2 ^ 32" and "poller (lp_poll L) = p" and "lx_now p + d \<le> INSTANT_MAX"
  shows "\<exists>L' D' A'. bench_many k d L = (Ok (), L') \<and> stocked lx_table D' A' (i + k) (i + k) L' \<and> card A' = i + k \<and> A \<subseteq> A' \<and>
    deadlines A' = deadlines A + replicate_mset k (lx_now p + d) \<and> poller (lp_poll L') = p"
  using assms(1-4)
proof (induction k arbitrary: L D A i)
  case (Suc k)
  have fin: "finite A" using Suc.prems(1) by (auto simp: stocked_def alarms_def)
  obtain L1 D1 a where a: "bench_insert d L = (Ok (td_token a), L1)" "stocked lx_table D1 (insert a A) (Suc i) (Suc i) L1" "a \<notin> A"
    "td_deadline a = lx_now p + d" "poller (lp_poll L1) = p"
    using bench_insert_stocked [OF Suc.prems(1), of d] Suc.prems(2-4) assms(5) by (auto simp: loop_now_def)
  have "card (insert a A) = Suc i" using a(3) fin Suc.prems(2) by simp
  from Suc.IH [OF a(2) this _ a(5)] Suc.prems(3) obtain L' D' A' where
    "bench_many k d L1 = (Ok (), L')" "stocked lx_table D' A' (i + Suc k) (i + Suc k) L'" "card A' = i + Suc k" "insert a A \<subseteq> A'"
    "deadlines A' = deadlines (insert a A) + replicate_mset k (lx_now p + d)" "poller (lp_poll L') = p"
    by auto
  moreover have "deadlines (insert a A) = add_mset (lx_now p + d) (deadlines A)" using a(3,4) fin by (simp add: deadlines_def)
  ultimately show ?case using a(1) by (intro exI [of _ L'] exI [of _ D'] exI [of _ A']) simp
qed auto

text \<open>All three: the timer among \<open>k\<close> that are due before and \<open>k\<close> that are due after it.\<close>

definition bench_around :: "nat \<Rightarrow> nat \<Rightarrow> linux \<Rightarrow> (registration_token \<times> (timer, unit) test_loop) program" where
  "bench_around k n p =
     expect_new (test_new p ()) (\<lambda>L.
     expect (bench_many k (secs 599) L) (\<lambda>_ L.
     expect (bench_insert (secs 600) L) (\<lambda>timeout_token L.
     expect (bench_many k (secs 900) L) (\<lambda>_ L.
     bench_iter n (timeout_token, L)))))"

lemma expect_one: "expect (and_then q (\<lambda>_ L. (Ok (), L))) f = expect q (\<lambda>_. f ())"
  by (simp add: expect_def fun_eq_iff split: outcome.splits prod.splits)

lemma benches_around:
  "bench_single n p = bench_around 0 n p" "bench_mixed n p = bench_around 1 n p" "bench_mixed_multiple n p = bench_around 1000 n p"
proof -
  show "bench_single n p = bench_around 0 n p" by (simp add: bench_single_def bench_around_def expect_def)
  have "bench_many 0 d = (\<lambda>L. (Ok (), L))" for d by (rule ext) simp
  then have "bench_many 1 d L = and_then (bench_insert d L) (\<lambda>_ L. (Ok (), L))" for d L by simp
  then show "bench_mixed n p = bench_around 1 n p" by (simp only: bench_mixed_def bench_around_def expect_one)
  show "bench_mixed_multiple n p = bench_around 1000 n p" by (simp only: bench_mixed_multiple_def bench_around_def)
qed

text \<open>However often the closure is measured, the loop does not grow.\<close>

definition wheel_size :: "(timer, unit) test_loop \<Rightarrow> nat" where
  "wheel_size L = length (tw_heap (timers (lp_poll L)))"

lemma bench_around_rounds:
  assumes "lx_regs p = []" and "lx_now p \<le> secs 1000000000" and "n + 2 * k + 1 \<le> 2 ^ 32"
  shows "\<exists>t L. bench_around k n p = Ok (t, L) \<and> length (lp_sources L) = 2 * k + 1 \<and> wheel_size L = 2 * k + 1"
proof -
  let ?now = "lx_now p"
  have d: "?now + secs 599 \<le> INSTANT_MAX" "?now + secs 600 \<le> INSTANT_MAX" "?now + secs 900 \<le> INSTANT_MAX"
    using assms(2) by (simp_all add: INSTANT_MAX_def)
  obtain L0 :: "(timer, unit) test_loop" where L0: "test_new p () = Ok L0"
    by (simp add: test_new_def try_new_def Poll_new_def Poll_new_inner_def)
  have "lx_table p = Map.empty" using assms(1) by (simp add: lx_table_def)
  note new = new_loop_stocked [where regs = lx_table, OF L0 [unfolded test_new_def] this]
  obtain L1 D1 A1 where L1: "bench_many k (secs 599) L0 = (Ok (), L1)" "stocked lx_table D1 A1 k k L1" "card A1 = k"
    "deadlines A1 = replicate_mset k (?now + secs 599)" "poller (lp_poll L1) = p"
    using bench_many_stocked [OF new(1) _ _ new(3) d(1), of k] assms(3) by (auto simp: deadlines_def)
  have fin: "finite A1" using L1(2) by (auto simp: stocked_def alarms_def)
  obtain L2 D2 a where L2: "bench_insert (secs 600) L1 = (Ok (td_token a), L2)" "stocked lx_table D2 (insert a A1) (Suc k) (Suc k) L2"
    "a \<notin> A1" "td_deadline a = ?now + secs 600" "poller (lp_poll L2) = p"
    using bench_insert_stocked [OF L1(2), of "secs 600"] d(2) L1(3,5) assms(3) by (auto simp: loop_now_def)
  have card: "card (insert a A1) = Suc k" using L1(3) L2(3) fin by simp
  obtain L3 D3 A3 where L3: "bench_many k (secs 900) L2 = (Ok (), L3)" "stocked lx_table D3 A3 (Suc k + k) (Suc k + k) L3"
    "insert a A1 \<subseteq> A3" "deadlines A3 = deadlines (insert a A1) + replicate_mset k (?now + secs 900)" "poller (lp_poll L3) = p"
    using bench_many_stocked [OF L2(2) card _ L2(5) d(3), of k] assms(3) by auto
  let ?M = "add_mset (?now + secs 600) (replicate_mset k (?now + secs 599) + replicate_mset k (?now + secs 900))"
  have "deadlines A3 = ?M" using L1(4) L2(3,4) L3(4) fin by (simp add: deadlines_def)
  moreover have size: "size ?M = Suc k + k" by simp
  ultimately have st: "bench_state p ?M (Suc k + k) (td_token a, L3)" unfolding bench_state_def size using L2(4) L3 by blast
  have "\<forall>d \<in># ?M. ?now < d" by auto
  from bench_rounds [OF st _ d(2) this, of n] assms(3) obtain t L where
    run: "bench_iter n (td_token a, L3) = Ok (t, L)" "bench_state p ?M (Suc k + k + n) (t, L)" by auto
  then obtain D A where A: "stocked lx_table D A (Suc k + k + n) (Suc k + k) L" "deadlines A = ?M"
    unfolding bench_state_def size by blast
  have "wheel_size L = size (mset_set A)" using A(1) by (simp add: wheel_size_def stocked_def flip: size_mset)
  also have "\<dots> = size ?M" using A(2) by (metis deadlines_def size_image_mset)
  finally have "wheel_size L = Suc k + k" by simp
  moreover have "length (lp_sources L) = Suc k + k" using A(1) by (simp add: stocked_def)
  ultimately show ?thesis using L0 L1(1) L2(1) L3(1) run(1) by (simp add: bench_around_def expect_new_def expect_def)
qed

section \<open>Properties\<close>

text \<open>
  Extending a timer over and over, which is what the benchmarks do, always succeeds and leaves
  nothing behind: after any number of rounds the table still has one slot per timer and the
  wheel one entry per timer, as long as the insertions are not more than the counter of the wheel
  tells apart.
\<close>

theorem extended_timers_leave_nothing:
  assumes "lx_regs p = []" and "lx_now p \<le> secs 1000000000" and "n + 2001 \<le> 2 ^ 32"
  shows "(\<exists>t L. bench_single n p = Ok (t, L) \<and> length (lp_sources L) = 1 \<and> wheel_size L = 1) \<and>
    (\<exists>t L. bench_mixed n p = Ok (t, L) \<and> length (lp_sources L) = 3 \<and> wheel_size L = 3) \<and>
    (\<exists>t L. bench_mixed_multiple n p = Ok (t, L) \<and> length (lp_sources L) = 2001 \<and> wheel_size L = 2001)"
  using bench_around_rounds [OF assms(1,2), of n 0] bench_around_rounds [OF assms(1,2), of n 1]
    bench_around_rounds [OF assms(1,2), of n 1000] assms(3)
  unfolding benches_around by simp

theorem extended_timers_leave_nothing_witness:
  "\<exists>t L. bench_mixed_multiple 1000000 \<lparr>lx_regs = [], lx_counters = \<lambda>_. 0, lx_now = 12, lx_next = 3\<rparr> = Ok (t, L) \<and> wheel_size L = 2001"
  using extended_timers_leave_nothing [of "\<lparr>lx_regs = [], lx_counters = \<lambda>_. 0, lx_now = 12, lx_next = 3\<rparr>" 1000000] by auto

end
