(* ===== verification/Stream_Programs.thy ===== *)
theory Stream_Programs
  imports Stream_Loop Test_Kit
begin

text \<open>
  The test of \<open>src/src/sources/stream.rs\<close> as a program. Its sender is on a thread; how many calls the
  thread makes before each dispatch is given as a schedule, and the test ends well for every one.
\<close>

section \<open>The program\<close>

type_synonym stream_data = "unit fut_channel \<times> nat"
type_synonym stream_test = "((unit, eventfd_source) stream_source, stream_data) test_loop"

text \<open>\<open>if let Some(()) = evt { *count += 1; }\<close>\<close>

definition count_some :: "unit option \<Rightarrow> nat \<Rightarrow> nat" where
  "count_some evt cnt = (case evt of Some _ \<Rightarrow> cnt + 1 | None \<Rightarrow> cnt)"

definition stream_count_ops :: "((unit, eventfd_source) stream_source, nat, linux, stream_data) loop_ops" where
  "stream_count_ops = stream_ops LXP LXE pair_first pair_second count_some 4"

text \<open>
  The thread: two items, then the drop of the sender (\<open>None\<close>). An \<open>unwrap\<close> that panics drops it too.
  \<open>sender_thread\<close> makes the next \<open>k\<close> calls and returns those that are left.
\<close>

definition sender_script :: "unit option list" where
  "sender_script = [Some (), Some (), None]"

fun sender_thread :: "raw_fd \<Rightarrow> nat \<Rightarrow> unit option list \<Rightarrow> stream_test \<Rightarrow> unit option list \<times> stream_test" where
  "sender_thread fd 0 script L = (script, L)"
| "sender_thread fd (Suc k) [] L = ([], L)"
| "sender_thread fd (Suc k) (Some m # script) L =
     (case fut_try_send (in_data pair_first) (stream_wake (eventfd_ping LXE loop_system) fd) m L of
        (Ok _, L') \<Rightarrow> sender_thread fd k script L'
      | (_, L') \<Rightarrow> ([], fut_close (in_data pair_first) (stream_wake (eventfd_ping LXE loop_system) fd) L'))"
| "sender_thread fd (Suc k) (None # script) L =
     sender_thread fd k script (fut_close (in_data pair_first) (stream_wake (eventfd_ping LXE loop_system) fd) L)"

text \<open>The \<open>while\<close>; a schedule that ends before the loop does leaves it going.\<close>

fun stream_wait :: "raw_fd \<Rightarrow> nat list \<Rightarrow> unit option list \<Rightarrow> stream_test \<Rightarrow> unit program" where
  "stream_wait fd ks script L =
     (if snd (lp_data L) < 2 then
        (case ks of
           [] \<Rightarrow> Diverge
         | k # ks \<Rightarrow>
             (case sender_thread fd k script L of (script, L) \<Rightarrow>
                expect (test_dispatch stream_count_ops (Some 0) L) (\<lambda>_ L. stream_wait fd ks script L)))
      else Ok ())"

definition test_channel_stream :: "nat \<Rightarrow> nat list \<Rightarrow> linux \<Rightarrow> unit program" where
  "test_channel_stream k ks p =
     expect_new (test_new p (\<lparr>fc_items = [], fc_bound = Some 5, fc_closed = False, fc_waker = False\<rparr>, 0)) (\<lambda>L.
     expect (stream_new (eventfd_make_ping LXE loop_system) (eventfd_ping LXE loop_system) () L) (\<lambda>source L.
     let fd = the (gn_file (ss_source source)) in
     expect (insert_source stream_count_ops source L) (\<lambda>token L.
     case sender_thread fd k sender_script L of (script, L) \<Rightarrow>
     expect (test_dispatch stream_count_ops (Some 0) L) (\<lambda>_ L.
     case handle_update stream_count_ops token L of (_, L) \<Rightarrow>
     stream_wait fd ks script L))))"

section \<open>How it runs\<close>

text \<open>
  The state of the channel as in \<open>streaming\<close>, with \<open>m\<close> items that the thread has still to send.
\<close>

abbreviation channel_at :: "raw_fd \<Rightarrow> (unit, eventfd_source) stream_source \<Rightarrow> token \<Rightarrow> unit list \<times> bool \<times> unit option list \<times> bool
    \<Rightarrow> stream_test \<Rightarrow> bool" where
  "channel_at fd ss t \<equiv> linux_level.streaming fd pair_first pair_second count_some 0 (Some 5) ss 0 t"

fun script_ok :: "nat \<Rightarrow> unit option list \<Rightarrow> unit list \<times> bool \<times> unit option list \<times> bool \<Rightarrow> bool" where
  "script_ok m script (xs, closed, out, over) \<longleftrightarrow>
     m + length xs + fold count_some out 0 = 2 \<and> (closed \<longrightarrow> m = 0) \<and> (over \<longrightarrow> closed \<and> xs = []) \<and>
     script = (if closed then [] else replicate m (Some ()) @ [None])"

lemma fold_count_some: "fold count_some (map Some xs @ ys) c = fold count_some ys (c + length xs)"
  by (induction xs arbitrary: c) (simp_all add: count_some_def)

lemma channel_at_count: "channel_at fd ss t (xs, closed, out, over) L \<Longrightarrow> snd (lp_data L) = fold count_some out 0"
  by (simp add: linux_level.streaming_def pair_second_def Let_def)

text \<open>The thread's calls are steps of the channel; none of them fails.\<close>

lemma thread_runs:
  assumes "channel_at fd ss t (xs, closed, out, over) L" and "script_ok m script (xs, closed, out, over)"
  shows "\<exists>xs' closed' script' L'. sender_thread fd k script L = (script', L') \<and>
    channel_at fd ss t (xs', closed', out, over) L' \<and> script_ok (m - k) script' (xs', closed', out, over)"
  using assms
proof (induction fd k script L arbitrary: xs closed m rule: sender_thread.induct)
  case (1 fd script L)
  then show ?case by (intro exI [of _ xs] exI [of _ closed] exI [of _ script] exI [of _ L]) simp
next
  case (2 fd k L)
  then have "m = 0" by (cases closed) simp_all
  with 2 show ?case by (intro exI [of _ xs] exI [of _ closed] exI [of _ "[]"] exI [of _ L]) simp
next
  case (3 fd k i script L)
  have m: "\<not> closed" "script = replicate (m - 1) (Some ()) @ [None]" "0 < m" "length xs < 2" "\<not> over"
    using 3(3) by (cases m; simp split: if_splits; fail)+
  let ?c = "acc_get pair_first (lp_data L)"
  have c: "fc_items ?c = xs" "fc_bound ?c = Some 5" "fc_closed ?c = closed"
    using 3(2) by (auto simp: linux_level.streaming_def Let_def)
  obtain L1 where L1: "fut_try_send (in_data pair_first) (stream_wake (eventfd_ping LXE loop_system) fd) i L = (Ok (), L1)"
    using c m by (simp add: fut_try_send_def fut_full_def Let_def)
  have "channel_at fd ss t (xs @ [i], closed, out, over) L1"
    using linux_level.streaming_step [OF pair_ok zero_less_one 3(2), of 4 "\<lambda>_ L. L" "StreamSend i"] m L1 by simp
  moreover have "script_ok (m - 1) script (xs @ [i], closed, out, over)" using 3(3) m by simp
  ultimately show ?case using 3(1) [OF L1 [symmetric] refl, of "xs @ [i]" closed "m - 1"] L1 by simp
next
  case (4 fd k script L)
  have m: "\<not> closed" "script = []" "m = 0" "length xs < 4"
    using 4(3) by (cases m; simp split: if_splits; fail)+
  let ?L1 = "fut_close (in_data pair_first) (stream_wake (eventfd_ping LXE loop_system) fd) L"
  have "channel_at fd ss t (xs, True, out, over) ?L1"
    using linux_level.streaming_step [OF pair_ok zero_less_one 4(2), of 4 "\<lambda>_ L. L" StreamClose] m by simp
  moreover have "script_ok 0 script (xs, True, out, over)" using 4(3) m by simp
  ultimately show ?case using 4(1) [of xs True 0] m by simp
qed

text \<open>A dispatch takes what waits.\<close>

lemma round_delivers:
  assumes "channel_at fd ss t (xs, closed, out, False) L" and "script_ok m script (xs, closed, out, False)"
  shows "\<exists>out' L'. test_dispatch stream_count_ops (Some 0) L = (Ok (), L') \<and>
    channel_at fd ss t ([], closed, out', closed) L' \<and> script_ok m script ([], closed, out', closed)"
proof -
  have "length (fst (xs, closed, out, False)) < 4" using assms(2) by simp
  from linux_level.streaming_step [OF pair_ok zero_less_one assms(1) this, of "\<lambda>_ L. L" "StreamDispatch 0"] obtain L' where
    "stream_do LXP LXE fd pair_first stream_count_ops (\<lambda>_ L. L) 1 t (StreamDispatch 0) L = (Ok (), L')"
    "channel_at fd ss t ([], closed, out @ map Some xs @ (if closed then [None] else []), closed) L'"
    by (auto simp: stream_count_ops_def)
  moreover have "sl_lookup (lp_sources L) t \<noteq> None" using assms(1) by (simp add: linux_level.streaming_def serving_def Let_def)
  moreover have "script_ok m script ([], closed, out @ map Some xs @ (if closed then [None] else []), closed)"
    using assms(2) fold_count_some [of xs "[]"] by (auto simp: fold_count_some) (auto simp: count_some_def)
  ultimately show ?thesis by (auto simp: test_dispatch_def)
qed

lemma waits:
  "channel_at fd ss t ([], closed, out, closed) L \<Longrightarrow> script_ok m script ([], closed, out, closed) \<Longrightarrow>
    stream_wait fd ks script L = (if m \<le> sum_list ks then Ok () else Diverge)"
proof (induction ks arbitrary: closed out L m script)
  case Nil
  then show ?case using channel_at_count [OF Nil(1)] by (auto simp: expect_def)
next
  case (Cons k ks)
  note count = channel_at_count [OF Cons.prems(1)]
  show ?case
  proof (cases "m = 0")
    case True
    with count Cons.prems(2) show ?thesis by simp
  next
    case False
    then have "\<not> closed" "snd (lp_data L) < 2" using Cons.prems(2) count by auto
    from thread_runs [OF Cons.prems, of k] obtain xs' closed' script' L1 where
      L1: "sender_thread fd k script L = (script', L1)" "channel_at fd ss t (xs', closed', out, False) L1"
        "script_ok (m - k) script' (xs', closed', out, False)" using \<open>\<not> closed\<close> by auto
    from round_delivers [OF L1(2,3)] obtain out' L2 where L2: "test_dispatch stream_count_ops (Some 0) L1 = (Ok (), L2)"
      "channel_at fd ss t ([], closed', out', closed') L2" "script_ok (m - k) script' ([], closed', out', closed')" by blast
    have "stream_wait fd (k # ks) script L = stream_wait fd ks script' L2"
      using L1(1) L2(1) \<open>snd (lp_data L) < 2\<close> by (simp add: expect_def)
    with Cons.IH [OF L2(2,3)] show ?thesis by (simp add: le_diff_conv add.commute)
  qed
qed

text \<open>The \<open>update\<close> registers the source again as it was.\<close>

lemma update_keeps:
  assumes at: "channel_at fd ss t \<sigma> L" and reg: "gn_interest (ss_source ss) = Interest_READ" "gn_mode (ss_source ss) = Level"
    and "handle_update stream_count_ops t L = (r, L')"
  shows "channel_at fd ss t \<sigma> L'"
proof (cases "sl_lookup (lp_sources L) t")
  case None
  then have "L' = L" using assms(4) by (auto simp: handle_update_def sl_lookup_def split: outcome.splits option.splits)
  with at show ?thesis by simp
next
  case (Some d)
  obtain xs closed out over where \<sigma>: "\<sigma> = (xs, closed, out, over)" by (cases \<sigma>) auto
  have sv: "serving lx_table fd (ss_source ss) ss 0 t L" using at Some by (simp add: \<sigma> linux_level.streaming_def Let_def split: if_splits)
  let ?e = "lp_sources L ! get_id t" and ?p = "poller (lp_poll L)" and ?ev = "cvt_interest Interest_READ t"
  let ?L = "L\<lparr>lp_poll := (lp_poll L)\<lparr>poller := ?p\<lparr>lx_regs := (fd, ?ev, PollLevel) # lx_regs ?p\<rparr>\<rparr>\<rparr>"
  have s: "gn_file (ss_source ss) = Some fd" "gn_token (ss_source ss) = Some t" "0 < length (lp_cells L)"
    "lp_cells L ! 0 = \<lparr>cell_val = SourceDisp \<lparr>di_source = ss, di_needs = False\<rparr>, cell_borrowed = False\<rparr>"
    "lx_table ?p = [fd \<mapsto> (?ev, PollLevel)]" "level_triggered (lp_poll L) = None" "sl_lookup (lp_sources L) t = Some 0" "tok_sub_id t = 0"
    using sv by (simp_all add: serving_def)
  have e: "sl_get (lp_sources L) t = Ok ?e" "se_source ?e = Some 0"
    using s(7) by (auto simp: sl_lookup_iff sl_get_iff)
  have tok: "forget_sub_id (se_token ?e) = t"
    using s(7,8) by (cases t) (auto simp: sl_lookup_iff forget_sub_id_def same_source_as_def)
  have "(ss_source ss)\<lparr>gn_token := Some t\<rparr> = ss_source ss" using s(2) by (cases "ss_source ss") simp
  then have same: "ss\<lparr>ss_source := (ss_source ss)\<lparr>gn_token := Some t\<rparr>\<rparr> = ss" by (cases ss) simp
  have cells: "(lp_cells L)[0 := \<lparr>cell_val = SourceDisp \<lparr>di_source = ss, di_needs = False\<rparr>, cell_borrowed = False\<rparr>] = lp_cells L"
    using s(4) by (metis list_update_id)
  with e tok s reg have "handle_update stream_count_ops t L = (Ok (), ?L)"
    by (simp add: same cells handle_update_def loop_reregister_def store_disp_def disp_reregister_def stream_count_ops_def stream_ops_def
        stream_reregister_def eventfd_reregister_def generic_reregister_def Poll_reregister_def track_level_def cvt_mode_def
        TokenFactory_new_def factory_token_def increment_sub_id_def checked_add16_def MASK_SUBID_def BITS_SUBID_def Let_def)
  then have "L' = ?L" using assms(4) by simp
  moreover have "lx_table (?p\<lparr>lx_regs := (fd, ?ev, PollLevel) # lx_regs ?p\<rparr>) = lx_table ?p" using s(5) by (simp add: lx_table_def)
  ultimately show ?thesis using at serving_frame [of lx_table L' L fd "ss_source ss" ss 0 t]
    by (simp add: \<sigma> linux_level.streaming_def Let_def loop_frame_def)
qed

section \<open>The test\<close>

lemma channel_stream_start:
  assumes "lx_regs p = []" and "fd = lx_next p"
  shows "\<exists>L L1 L2 source ss t. test_new p (\<lparr>fc_items = [], fc_bound = Some 5, fc_closed = False, fc_waker = False\<rparr>, 0) = Ok L \<and>
    stream_new (eventfd_make_ping LXE loop_system) (eventfd_ping LXE loop_system) () L = (Ok source, L1) \<and>
    gn_file (ss_source source) = Some fd \<and> insert_source stream_count_ops source L1 = (Ok t, L2) \<and>
    channel_at fd ss t ([], False, [], False) L2 \<and> gn_interest (ss_source ss) = Interest_READ \<and> gn_mode (ss_source ss) = Level"
  by (simp add: run_calls run_table run_pings stream_new_def stream_wake_def assms stream_count_ops_def stream_ops_def stream_register_def
     linux_level.streaming_def serving_def pair_first_def pair_second_def TimerWheel_new_def lx_table_def Let_def)

lemma channel_stream_rest:
  assumes at: "channel_at fd ss t ([], False, [], False) L"
    and reg: "gn_interest (ss_source ss) = Interest_READ" "gn_mode (ss_source ss) = Level"
  shows "(case sender_thread fd k sender_script L of (script, L) \<Rightarrow>
     expect (test_dispatch stream_count_ops (Some 0) L) (\<lambda>_ L.
     case handle_update stream_count_ops t L of (_, L) \<Rightarrow> stream_wait fd ks script L)) = (if 2 \<le> k + sum_list ks then Ok () else Diverge)"
proof -
  have "script_ok 2 sender_script ([], False, [], False)" by (simp add: sender_script_def numeral_2_eq_2)
  from thread_runs [OF at this, of k] obtain xs closed script L1 where
    L1: "sender_thread fd k sender_script L = (script, L1)" "channel_at fd ss t (xs, closed, [], False) L1"
      "script_ok (2 - k) script (xs, closed, [], False)" by blast
  from round_delivers [OF L1(2,3)] obtain out L2 where L2: "test_dispatch stream_count_ops (Some 0) L1 = (Ok (), L2)"
    "channel_at fd ss t ([], closed, out, closed) L2" "script_ok (2 - k) script ([], closed, out, closed)" by blast
  obtain r L3 where L3: "handle_update stream_count_ops t L2 = (r, L3)" by force
  from waits [OF update_keeps [OF L2(2) reg L3] L2(3), of ks] L1(1) L2(1) L3 show ?thesis
    by (simp add: expect_def le_diff_conv add.commute)
qed

text \<open>
  \<open>channel_stream\<close> ends, without a panic, as soon as the thread has sent both items, at whatever points it
  makes its calls; until then it goes on waiting. A schedule with fewer calls than that ends first.
\<close>

theorem stream_test_passes:
  assumes "lx_regs p = []"
  shows "test_channel_stream k ks p = (if 2 \<le> k + sum_list ks then Ok () else Diverge)"
proof -
  obtain L L1 L2 source ss t where
    "test_new p (\<lparr>fc_items = [], fc_bound = Some 5, fc_closed = False, fc_waker = False\<rparr>, 0) = Ok L"
    "stream_new (eventfd_make_ping LXE loop_system) (eventfd_ping LXE loop_system) () L = (Ok source, L1)"
    "gn_file (ss_source source) = Some (lx_next p)" "insert_source stream_count_ops source L1 = (Ok t, L2)"
    "channel_at (lx_next p) ss t ([], False, [], False) L2" "gn_interest (ss_source ss) = Interest_READ" "gn_mode (ss_source ss) = Level"
    using channel_stream_start [OF assms refl] by blast
  with channel_stream_rest [where fd = "lx_next p" and ss = ss and t = t and L = L2 and k = k and ks = ks] show ?thesis
    by (simp add: test_channel_stream_def expect_new_def expect_def [of "(Ok _, _)"])
qed

end
