(* ===== verification/Channel_Programs.thy ===== *)
theory Channel_Programs
  imports Test_Kit Channel_Loop
begin

text \<open>
  The tests of \<open>src/src/sources/channel.rs\<close> as programs. Their data is the queue of the channel, which the
  sender and the source share, and the tuple the callback writes to.
\<close>

section \<open>Channels in programs\<close>

definition no_queue :: "'m mpsc" where
  "no_queue = \<lparr>mq_msgs = [], mq_senders = 0, mq_receiver = False, mq_bound = None\<rparr>"

definition test_channel :: "nat option \<Rightarrow> ('d, 'm mpsc) access \<Rightarrow> ('s, 'd) test_loop
    \<Rightarrow> (unit, raw_fd \<times> eventfd_source channel) outcome \<times> ('s, 'd) test_loop" where
  "test_channel bound q L = channel_new bound (in_data q) (eventfd_make_ping LXE loop_system) L"

definition test_send :: "('d, 'm mpsc) access \<Rightarrow> raw_fd \<Rightarrow> 'm \<Rightarrow> ('s, 'd) test_loop \<Rightarrow> ('m, unit) outcome \<times> ('s, 'd) test_loop" where
  "test_send q fd m L = sender_send (in_data q) (eventfd_ping LXE loop_system fd) m L"

definition test_drop_sender :: "('d, 'm mpsc) access \<Rightarrow> raw_fd \<Rightarrow> ('s, 'd) test_loop \<Rightarrow> ('s, 'd) test_loop" where
  "test_drop_sender q fd L = sender_drop (in_data q) (eventfd_ping LXE loop_system fd) L"

text \<open>The same for the \<open>SyncSender\<close>; a \<open>send\<close> that blocks has nothing to wait for.\<close>

definition test_sync_send :: "('d, 'm mpsc) access \<Rightarrow> raw_fd \<Rightarrow> 'm \<Rightarrow> ('s, 'd) test_loop \<Rightarrow> ('m, unit) outcome \<times> ('s, 'd) test_loop" where
  "test_sync_send q fd m L = sync_send (in_data q) (eventfd_ping LXE loop_system fd) (\<lambda>L. L) m L"

definition test_sync_try_send :: "('d, 'm mpsc) access \<Rightarrow> raw_fd \<Rightarrow> 'm \<Rightarrow> ('s, 'd) test_loop
    \<Rightarrow> ('m try_send_error, unit) outcome \<times> ('s, 'd) test_loop" where
  "test_sync_try_send q fd m L = sync_try_send (in_data q) (eventfd_ping LXE loop_system fd) m L"

definition test_drop_sync_sender :: "('d, 'm mpsc) access \<Rightarrow> raw_fd \<Rightarrow> ('s, 'd) test_loop \<Rightarrow> ('s, 'd) test_loop" where
  "test_drop_sync_sender q fd L = sync_sender_drop (in_data q) (eventfd_ping LXE loop_system fd) L"

text \<open>A receive loop runs one message at a time.\<close>

lemma recv_loop_numeral:
  "recv_loop q callback (numeral k) c w =
     (case channel_try_recv q w of
        (TryOk val, w') \<Rightarrow> recv_loop q callback (pred_numeral k) c (callback (Msg val) w')
      | (TryEmpty, w') \<Rightarrow> ((True, snd c), w')
      | (TryDisconnected, w') \<Rightarrow> ((fst c, True), callback Closed w'))"
  unfolding numeral_eq_Suc by (rule recv_loop.simps(2))

lemma channel_ops_simps [simp]:
  "so_process (channel_ops K E fd q lg f) =
     channel_process (eventfd_process E loop_system) (eventfd_ping E loop_system fd) (in_data q) (channel_callback lg f)"
  "so_register (channel_ops K E fd q lg f) = channel_register (eventfd_register K)"
  "so_reregister (channel_ops K E fd q lg f) = channel_reregister (eventfd_reregister K)"
  "so_unregister (channel_ops K E fd q lg f) = channel_unregister (eventfd_unregister K)"
  "so_needs_extra (channel_ops K E fd q lg f) = default_needs_extra"
  by (simp_all add: channel_ops_def)

lemmas run_channels = test_channel_def test_send_def test_drop_sender_def test_sync_send_def test_sync_try_send_def
  test_drop_sync_sender_def no_queue_def channel_new_def
  sender_send_def sender_drop_def sync_send_def sync_try_send_def sync_sender_drop_def ping_on_drop_def
  mpsc_send_def mpsc_try_send_def mpsc_full_def mpsc_push_def mpsc_try_recv_def
  channel_process_def channel_try_recv_def recv_loop_numeral channel_callback_def channel_max_def USIZE_MAX_def MAX_EVENTS_CHECK_def
  channel_register_def channel_unregister_def channel_reregister_def pair_first_def pair_second_def

section \<open>The tests\<close>

definition got_event :: "unit event \<Rightarrow> bool \<times> bool \<Rightarrow> bool \<times> bool" where
  "got_event evt got = (case evt of Msg _ \<Rightarrow> (True, snd got) | Closed \<Rightarrow> (fst got, True))"

definition test_basic_channel :: "linux \<Rightarrow> unit program" where
  "test_basic_channel p =
     (let ops = channel_ops LXP LXE (lx_next p) pair_first pair_second got_event in
      expect_new (test_new p (no_queue, (False, False))) (\<lambda>L.
      expect (test_channel None pair_first L) (\<lambda>(tx, rx) L.
      expect (insert_source ops rx L) (\<lambda>_ L.
      expect (test_dispatch ops (Some 0) L) (\<lambda>_ L.
      assert_that (snd (lp_data L) = (False, False)) (
      expect (test_send pair_first tx () L) (\<lambda>_ L.
      expect (test_dispatch ops (Some 0) L) (\<lambda>_ L.
      assert_that (snd (lp_data L) = (True, False)) (
      let L = test_drop_sender pair_first tx L in
      expect (test_dispatch ops (Some 0) L) (\<lambda>_ L.
      assert_that (snd (lp_data L) = (True, True)) (Ok ())))))))))))"

definition count_event :: "unit event \<Rightarrow> nat \<times> bool \<Rightarrow> nat \<times> bool" where
  "count_event evt received = (case evt of Msg _ \<Rightarrow> (fst received + 1, snd received) | Closed \<Rightarrow> (fst received, True))"

definition test_basic_sync_channel :: "linux \<Rightarrow> unit program" where
  "test_basic_sync_channel p =
     (let ops = channel_ops LXP LXE (lx_next p) pair_first pair_second count_event in
      expect_new (test_new p (no_queue, (0, False))) (\<lambda>L.
      expect (test_channel (Some 2) pair_first L) (\<lambda>(tx, rx) L.
      expect (insert_source ops rx L) (\<lambda>_ L.
      expect (test_dispatch ops (Some 0) L) (\<lambda>_ L.
      assert_that (fst (snd (lp_data L)) = 0) (assert_that (\<not> snd (snd (lp_data L))) (
      expect (test_sync_send pair_first tx () L) (\<lambda>_ L.
      expect (test_sync_send pair_first tx () L) (\<lambda>_ L.
      case test_sync_try_send pair_first tx () L of (r, L) \<Rightarrow>
      assert_that (\<not> is_ok r) (
      expect (test_dispatch ops (Some 0) L) (\<lambda>_ L.
      assert_that (fst (snd (lp_data L)) = 2) (assert_that (\<not> snd (snd (lp_data L))) (
      expect (test_sync_send pair_first tx () L) (\<lambda>_ L.
      let L = test_drop_sync_sender pair_first tx L in
      expect (test_dispatch ops (Some 0) L) (\<lambda>_ L.
      assert_that (fst (snd (lp_data L)) = 3) (assert_that (snd (snd (lp_data L))) (Ok ())))))))))))))))))"

text \<open>The \<open>for\<close> loop that sends, and the rest of the program after it.\<close>

fun test_send_times :: "('d, unit mpsc) access \<Rightarrow> raw_fd \<Rightarrow> nat \<Rightarrow> ('s, 'd) test_loop \<Rightarrow> (('s, 'd) test_loop \<Rightarrow> 'r program) \<Rightarrow> 'r program" where
  "test_send_times q fd 0 L k = k L"
| "test_send_times q fd (Suc n) L k = expect (test_send q fd () L) (\<lambda>_ L. test_send_times q fd n L k)"

definition test_more_than_1024 :: "linux \<Rightarrow> unit program" where
  "test_more_than_1024 p =
     (let ops = channel_ops LXP LXE (lx_next p) pair_first pair_second count_event in
      expect_new (test_new p (no_queue, (0, False))) (\<lambda>L.
      expect (test_channel None pair_first L) (\<lambda>(tx, rx) L.
      expect (insert_source ops rx L) (\<lambda>_ L.
      expect (test_dispatch ops (Some 0) L) (\<lambda>_ L.
      assert_that (fst (snd (lp_data L)) = 0) (assert_that (\<not> snd (snd (lp_data L))) (
      test_send_times pair_first tx (MAX_EVENTS_CHECK + 1) L (\<lambda>L.
      expect (test_dispatch ops (Some 0) L) (\<lambda>_ L.
      assert_that (fst (snd (lp_data L)) = MAX_EVENTS_CHECK) (assert_that (\<not> snd (snd (lp_data L))) (
      expect (test_dispatch ops (Some 0) L) (\<lambda>_ L.
      assert_that (fst (snd (lp_data L)) = MAX_EVENTS_CHECK + 1) (assert_that (\<not> snd (snd (lp_data L))) (Ok ()))))))))))))))"

lemma channel_tests:
  assumes "lx_regs p = []"
  shows "test_basic_channel p = Ok ()" "test_basic_sync_channel p = Ok ()"
  using assms
  by (simp_all add: test_basic_channel_def test_basic_sync_channel_def got_event_def count_event_def
      run_channels run_calls run_table run_dispatch run_timers run_pings)

lemma test_send_times_all:
  assumes "access_ok q"
  shows "mq_receiver (acc_get q (lp_data L)) \<Longrightarrow>
    test_send_times q fd n L k = k (send_all LXE fd q (replicate n ()) L)"
proof (induction n arbitrary: L)
  case 0
  then show ?case by (simp add: send_all_def)
next
  case (Suc n)
  obtain L1 where send: "test_send q fd () L = (Ok (), L1)" and
    data: "lp_data L1 = acc_put q (mpsc_push () (acc_get q (lp_data L))) (lp_data L)"
    using Suc.prems by (simp add: test_send_def sender_send_def on_component_def mpsc_send_def linux_loop.ping_in_loop(2))
  then have "mq_receiver (acc_get q (lp_data L1))"
    using Suc.prems assms by (simp add: access_ok_simps mpsc_push_def)
  from Suc.IH [OF this] have "test_send_times q fd (Suc n) L k = k (send_all LXE fd q (replicate n ()) L1)"
    by (simp add: send expect_def)
  then show ?case using send by (simp add: send_all_def test_send_def)
qed

lemma fold_count_event: "(count_event (Msg ()) ^^ n) r = (fst r + n, snd r)"
  by (induction n) (simp_all add: count_event_def)

text \<open>The rest of the last test once its loop serves the channel and no ping is pending.\<close>

lemma more_than_1024_rest:
  fixes L :: "(eventfd_source channel, unit mpsc \<times> nat \<times> bool) test_loop"
  assumes sv: "serving lx_table fd (ch_source ch) ch d t L" and "lx_counters (poller (lp_poll L)) fd = 0"
    and cap: "channel_max (ch_capacity ch) = MAX_EVENTS_CHECK"
    and data: "lp_data L = (\<lparr>mq_msgs = [], mq_senders = 1, mq_receiver = True, mq_bound = None\<rparr>, (0, False))"
    and ops: "ops = channel_ops LXP LXE fd pair_first pair_second count_event" and N: "N = Suc MAX_EVENTS_CHECK"
  shows "test_send_times pair_first fd N L (\<lambda>L.
      expect (test_dispatch ops (Some 0) L) (\<lambda>_ L.
      assert_that (fst (snd (lp_data L)) = MAX_EVENTS_CHECK) (assert_that (\<not> snd (snd (lp_data L))) (
      expect (test_dispatch ops (Some 0) L) (\<lambda>_ L.
      assert_that (fst (snd (lp_data L)) = MAX_EVENTS_CHECK + 1) (assert_that (\<not> snd (snd (lp_data L))) (Ok ()))))))) = Ok ()"
proof -
  let ?m = "MAX_EVENTS_CHECK"
  obtain msgs where msgs: "replicate (?m + 1) () = msgs" "length msgs = ?m + 1" "take ?m msgs = replicate ?m ()" "drop ?m msgs = [()]"
    by (metis add_diff_cancel_left' drop_replicate length_replicate replicate_0 replicate_Suc take_replicate min_add_distrib_left
        One_nat_def min.absorb1 le_add1)
  let ?L1 = "send_all LXE fd pair_first msgs L"
  have pos: "0 < ?m" by (simp add: MAX_EVENTS_CHECK_def)
  have start: "mq_receiver (acc_get pair_first (lp_data L))" "even (lx_counters (poller (lp_poll L)) fd)"
    using data assms(2) by (simp_all add: pair_first_def)
  have sent: "serving lx_table fd (ch_source ch) ch d t ?L1" "2 \<le> unat (lx_counters (poller (lp_poll ?L1)) fd)"
    "even (lx_counters (poller (lp_poll ?L1)) fd)" "msgs = mq_msgs (acc_get pair_first (lp_data ?L1))"
    "mq_senders (acc_get pair_first (lp_data ?L1)) = 1" "snd (lp_data ?L1) = (0, False)"
    using linux_loop.send_all_effect [OF pair_ok start, of msgs] sv data msgs(2)
      serving_frame [of lx_table ?L1 L fd "ch_source ch" ch d t]
    by (auto simp: pair_first_def pair_second_def)
  have open1: "False \<longleftrightarrow> length msgs < ?m \<and> mq_senders (acc_get pair_first (lp_data ?L1)) = 0" using sent(5) by simp
  obtain L2 where L2: "test_dispatch ops (Some 0) ?L1 = (Ok (), L2)" "serving lx_table fd (ch_source ch) ch d t L2"
    "lx_counters (poller (lp_poll L2)) fd = 2" "snd (lp_data L2) = (?m, False)" "[()] = mq_msgs (acc_get pair_first (lp_data L2))"
    "mq_senders (acc_get pair_first (lp_data L2)) = 1"
    using linux_loop.channel_dispatch [OF pair_ok zero_less_one sent(1,2,3,4) cap [symmetric] open1, of count_event "\<lambda>_ L. L" "Some 0"] sent(5,6)
    by (auto simp: ops test_dispatch_def pair_second_def msgs fold_count_event)
  have open2: "False \<longleftrightarrow> length [()] < ?m \<and> mq_senders (acc_get pair_first (lp_data L2)) = 0" using L2(6) by simp
  have count: "2 \<le> unat (lx_counters (poller (lp_poll L2)) fd)" "even (lx_counters (poller (lp_poll L2)) fd)" using L2(3) by simp_all
  obtain L3 where L3: "test_dispatch ops (Some 0) L2 = (Ok (), L3)" "snd (lp_data L3) = (?m + 1, False)"
    using linux_loop.channel_dispatch [OF pair_ok zero_less_one L2(2) count L2(5) cap [symmetric] open2, of count_event "\<lambda>_ L. L" "Some 0"] L2(4) pos
    by (auto simp: ops test_dispatch_def pair_second_def count_event_def take_Cons')
  from L2(1,4) L3 start(1) show ?thesis
    by (simp only: test_send_times_all [OF pair_ok(1)] N Suc_eq_plus1 msgs(1)) (simp add: expect_def assert_that_def)
qed

lemma more_than_1024_start:
  "acc_get pair_first w = fst w" "acc_put pair_first a w = (a, snd w)"
  "acc_get pair_second w = snd w" "acc_put pair_second b w = (fst w, b)"
  "channel_max USIZE_MAX = MAX_EVENTS_CHECK"
  "mq_msgs (acc_get q w) = [] \<Longrightarrow> mq_senders (acc_get q w) = Suc 0 \<Longrightarrow> recv_loop q callback MAX_EVENTS_CHECK c w = ((True, snd c), acc_put q (acc_get q w) w)"
  by (simp_all add: pair_first_def pair_second_def channel_max_def USIZE_MAX_def MAX_EVENTS_CHECK_def recv_loop_numeral
      channel_try_recv_def on_component_def mpsc_try_recv_def)

lemma send_times_cong: "fd = fd' \<Longrightarrow> n = n' \<Longrightarrow> L = L' \<Longrightarrow> test_send_times q fd n L k = test_send_times q fd' n' L' k"
  by simp

lemma more_than_1024_test:
  assumes "lx_regs p = []"
  shows "test_more_than_1024 p = Ok ()"
  unfolding test_more_than_1024_def Let_def
  by (simp add: more_than_1024_start run_channels run_calls run_table run_dispatch run_timers run_pings assms
      del: test_send_times.simps pair_first_def pair_second_def MAX_EVENTS_CHECK_def channel_max_def USIZE_MAX_def cong: send_times_cong)
    (rule more_than_1024_rest [where d = 0 and t = "\<lparr>tok_id = 0, tok_version = 0, tok_sub_id = 0\<rparr>" and
        ch = "\<lparr>ch_source = (Generic_new (lx_next p) Interest_READ Level)\<lparr>gn_poller := True,
          gn_token := Some \<lparr>tok_id = 0, tok_version = 0, tok_sub_id = 0\<rparr>\<rparr>, ch_capacity = USIZE_MAX\<rparr>"],
      simp_all add: serving_def Generic_new_def Interest_READ_def cvt_interest_def sl_lookup_def sl_get_def vec_get_def get_id_def same_source_as_def more_than_1024_start lx_table_def)

end
