(* ===== verification/Loop_Programs.thy ===== *)
theory Loop_Programs
  imports Channel_Programs Timer_Source Loop_Handles
begin

text \<open>
  The tests of \<open>src/src/loop_logic.rs\<close> that are not in \<open>Ping_Programs\<close>, as programs: idle callbacks,
  sources with lifecycle events, the reuse of a slot, and \<open>block_on\<close>.
\<close>

section \<open>Idle callbacks\<close>

text \<open>The idle closure \<open>|d| { *d = true; }\<close> has the name 0.\<close>

definition set_idle :: "nat \<Rightarrow> (timer, bool) test_loop \<Rightarrow> (timer, bool) test_loop" where
  "set_idle f L = (if f = 0 then L\<lparr>lp_data := True\<rparr> else L)"

definition test_dispatch_idle :: "linux \<Rightarrow> unit program" where
  "test_dispatch_idle p =
     (let ops = timer_ops LXP (\<lambda>_ L. (TDrop, L)) in
      expect_new (test_new p False) (\<lambda>L.
      case insert_idle 0 L of (_, L) \<Rightarrow>
      expect (dispatch LXP ops set_idle 1 (Some 0) L) (\<lambda>_ L.
      assert_that (lp_data L) (Ok ()))))"

definition test_cancel_idle :: "linux \<Rightarrow> unit program" where
  "test_cancel_idle p =
     (let ops = timer_ops LXP (\<lambda>_ L. (TDrop, L)) in
      expect_new (test_new p False) (\<lambda>L.
      case insert_idle 0 L of (idle, L) \<Rightarrow>
      expect (idle_cancel idle L) (\<lambda>_ L.
      expect (dispatch LXP ops set_idle 1 (Some 0) L) (\<lambda>_ L.
      assert_that (\<not> lp_data L) (Ok ())))))"

lemma idle_tests:
  assumes "lx_regs p = []"
  shows "test_dispatch_idle p = Ok ()" "test_cancel_idle p = Ok ()"
  using assms
  by (simp_all add: test_dispatch_idle_def test_cancel_idle_def insert_idle_def idle_cancel_def set_idle_def
      run_calls run_table run_dispatch run_timers)

section \<open>Sources with lifecycle events\<close>

text \<open>
  The \<open>Lock\<close> that the tests share between a source and the loop's data: whether it is locked, and
  how often it was locked and how many events were seen. \<open>lock\<close> and \<open>unlock\<close> panic in the wrong
  state; a panic is kept, and the program asserts that there was none. The queue of the channel is
  the last field.
\<close>

record lock =
  lk_locked :: bool
  lk_count :: nat
  lk_events :: nat
  lk_panicked :: bool
  lk_queue :: "unit mpsc"

definition lock_lock :: "lock \<Rightarrow> lock" where
  "lock_lock l =
     (if lk_locked l then l\<lparr>lk_panicked := True\<rparr> else l\<lparr>lk_count := lk_count l + 1, lk_locked := True\<rparr>)"

definition lock_unlock :: "lock \<Rightarrow> lock" where
  "lock_unlock l = (if \<not> lk_locked l then l\<lparr>lk_panicked := True\<rparr> else l\<lparr>lk_locked := False\<rparr>)"

definition queue_of_lock :: "(lock, unit mpsc) access" where
  "queue_of_lock = \<lparr>acc_get = lk_queue, acc_put = (\<lambda>q l. l\<lparr>lk_queue := q\<rparr>)\<rparr>"

definition on_lock :: "(lock \<Rightarrow> lock) \<Rightarrow> ('s, lock) test_loop \<Rightarrow> ('s, lock) test_loop" where
  "on_lock f L = L\<lparr>lp_data := f (lp_data L)\<rparr>"

text \<open>\<open>LockingSource\<close>: a channel, locked while the loop sleeps. Its callback takes the lock once more.\<close>

type_synonym locking_source = "eventfd_source channel"

definition locking_process :: "raw_fd \<Rightarrow> (locking_source, (locking_source, lock) test_loop) process_op" where
  "locking_process fd =
     channel_process (eventfd_process LXE loop_system) (eventfd_ping LXE loop_system fd) (in_data queue_of_lock)
       (\<lambda>_ L. on_lock lock_unlock (on_lock lock_lock L))"

definition locking_register :: "(locking_source, linux) register_op" where
  "locking_register src poll tf = channel_register (eventfd_register LXP) src poll tf"

definition locking_reregister :: "(locking_source, linux) register_op" where
  "locking_reregister src poll tf = channel_reregister (eventfd_reregister LXP) src poll tf"

definition locking_unregister :: "(locking_source, linux) unregister_op" where
  "locking_unregister src poll = channel_unregister (eventfd_unregister LXP) src poll"

definition locking_before_sleep :: "locking_source \<Rightarrow> (locking_source, lock) test_loop
    \<Rightarrow> (readiness \<times> token) option cresult \<times> locking_source \<times> (locking_source, lock) test_loop" where
  "locking_before_sleep src L = (Ok None, src, on_lock lock_lock L)"

definition locking_before_handle :: "locking_source \<Rightarrow> (readiness \<times> token) list \<Rightarrow> (locking_source, lock) test_loop
    \<Rightarrow> locking_source \<times> (locking_source, lock) test_loop" where
  "locking_before_handle src events L =
     (src, on_lock (\<lambda>l. lock_unlock (l\<lparr>lk_events := lk_events l + length events\<rparr>)) L)"

definition locking_ops :: "raw_fd \<Rightarrow> (locking_source, nat, linux, lock) loop_ops" where
  "locking_ops fd =
     \<lparr>so_process = locking_process fd, so_register = locking_register, so_reregister = locking_reregister,
      so_unregister = locking_unregister, so_needs_extra = (\<lambda>_. True),
      so_before_sleep = locking_before_sleep, so_before_handle = locking_before_handle\<rparr>"

text \<open>The descriptor in the operations is that of the channel's own ping, the next one of the system.\<close>

definition test_additional_events :: "linux \<Rightarrow> unit program" where
  "test_additional_events p =
     (let ops = locking_ops (lx_next p) in
      expect_new (test_new p \<lparr>lk_locked = False, lk_count = 0, lk_events = 0, lk_panicked = False, lk_queue = no_queue\<rparr>) (\<lambda>L.
      expect (test_channel None queue_of_lock L) (\<lambda>(sender, channel) L.
      expect (insert_source ops channel L) (\<lambda>token L.
      expect (test_send queue_of_lock sender () L) (\<lambda>_ L.
      expect (test_dispatch ops None L) (\<lambda>_ L.
      assert_that (lk_count (lp_data L) = 2) (
      assert_that (lk_events (lp_data L) = 1) (
      expect (handle_disable LXP ops token L) (\<lambda>_ L.
      expect (test_dispatch ops (Some 0) L) (\<lambda>_ L.
      assert_that (lk_count (lp_data L) = 2) (
      expect (handle_enable ops token L) (\<lambda>_ L.
      expect (test_dispatch ops (Some 0) L) (\<lambda>_ L.
      assert_that (lk_count (lp_data L) = 3) (
      expect (handle_remove LXP ops token L) (\<lambda>_ L.
      expect (test_dispatch ops (Some 0) L) (\<lambda>_ L.
      assert_that (lk_count (lp_data L) = 3) (
      assert_that (lk_events (lp_data L) = 1) (
      assert_that (\<not> lk_panicked (lp_data L)) (Ok ())))))))))))))))))))"

text \<open>\<open>NoopWithDefaultHandlers\<close>: the same with the provided methods, boxed, behind a reference.\<close>

definition noop_ops :: "raw_fd \<Rightarrow> (locking_source, nat, linux, lock) loop_ops" where
  "noop_ops fd =
     \<lparr>so_process = channel_process (eventfd_process LXE loop_system) (eventfd_ping LXE loop_system fd) (in_data queue_of_lock) (\<lambda>_ L. L),
      so_register = channel_register (eventfd_register LXP), so_reregister = channel_reregister (eventfd_reregister LXP),
      so_unregister = channel_unregister (eventfd_unregister LXP), so_needs_extra = (\<lambda>_. True),
      so_before_sleep = default_before_sleep, so_before_handle = default_before_handle\<rparr>"

definition test_default_additional_events :: "linux \<Rightarrow> unit program" where
  "test_default_additional_events p =
     (let ops = box_source_ops (ref_source_ops (noop_ops (lx_next p))) in
      expect_new (test_new p \<lparr>lk_locked = False, lk_count = 0, lk_events = 0, lk_panicked = False, lk_queue = no_queue\<rparr>) (\<lambda>L.
      expect (test_channel None queue_of_lock L) (\<lambda>(sender, channel) L.
      expect (insert_source ops channel L) (\<lambda>_ L.
      expect (test_send queue_of_lock sender () L) (\<lambda>_ L.
      expect (test_dispatch ops None L) (\<lambda>_ L.
      (Ok ())))))))"

text \<open>
  \<open>InstantWakeupLockingSource\<close> reports an event of its own before the loop sleeps. Its state is the
  token it was given; the failure of \<open>assert_eq!\<close> and the \<open>unreachable!()\<close> methods are panics.
\<close>

definition wakeup_process :: "(token option, (token option, lock) test_loop) process_op" where
  "wakeup_process src rd token L =
     (if src \<noteq> Some token then (Panic, src, L)
      else (Ok Continue, src, on_lock lock_unlock (on_lock lock_lock L)))"

definition wakeup_register :: "(token option, linux) register_op" where
  "wakeup_register src poll tf =
     (case factory_token tf of
        (Ok token, tf') \<Rightarrow> (Ok (), Some token, poll, tf')
      | (_, tf') \<Rightarrow> (Panic, src, poll, tf'))"

definition wakeup_reregister :: "(token option, linux) register_op" where
  "wakeup_reregister src poll tf = (Panic, src, poll, tf)"

definition wakeup_unregister :: "(token option, linux) unregister_op" where
  "wakeup_unregister src poll = (Panic, src, poll)"

definition wakeup_before_sleep :: "token option \<Rightarrow> (token option, lock) test_loop
    \<Rightarrow> (readiness \<times> token) option cresult \<times> token option \<times> (token option, lock) test_loop" where
  "wakeup_before_sleep src L =
     (let L' = on_lock lock_lock L in
      case src of
        Some token \<Rightarrow> (Ok (Some (Readiness_EMPTY, token)), src, L')
      | None \<Rightarrow> (Panic, src, L'))"

definition wakeup_before_handle :: "token option \<Rightarrow> (readiness \<times> token) list \<Rightarrow> (token option, lock) test_loop
    \<Rightarrow> token option \<times> (token option, lock) test_loop" where
  "wakeup_before_handle src events L = (src, on_lock lock_unlock L)"

definition wakeup_ops :: "(token option, nat, linux, lock) loop_ops" where
  "wakeup_ops =
     \<lparr>so_process = wakeup_process, so_register = wakeup_register, so_reregister = wakeup_reregister,
      so_unregister = wakeup_unregister, so_needs_extra = (\<lambda>_. True),
      so_before_sleep = wakeup_before_sleep, so_before_handle = wakeup_before_handle\<rparr>"

definition test_additional_events_synthetic :: "linux \<Rightarrow> unit program" where
  "test_additional_events_synthetic p =
     expect_new (test_new p \<lparr>lk_locked = False, lk_count = 0, lk_events = 0, lk_panicked = False, lk_queue = no_queue\<rparr>) (\<lambda>L.
     expect (insert_source wakeup_ops None L) (\<lambda>_ L.
     expect (test_dispatch wakeup_ops None L) (\<lambda>_ L.
     assert_that (\<not> lk_panicked (lp_data L)) (Ok ()))))"

lemmas run_locks = lock_lock_def lock_unlock_def on_lock_def queue_of_lock_def no_queue_def
  locking_ops_def locking_process_def locking_register_def locking_unregister_def locking_before_sleep_def
  locking_before_handle_def wakeup_ops_def wakeup_process_def wakeup_register_def wakeup_before_sleep_def
  wakeup_before_handle_def noop_ops_def default_before_sleep_def default_before_handle_def

lemma lifecycle_tests:
  assumes "lx_regs p = []"
  shows "test_additional_events_synthetic p = Ok ()"
  using assms
  by (simp add: test_additional_events_synthetic_def run_locks event_iterator_def run_calls run_table run_dispatch run_timers Readiness_EMPTY_def)

lemma channel_lifecycle_tests:
  assumes "lx_regs p = []"
  shows "test_default_additional_events p = Ok ()"
  using assms
  by (simp add: test_default_additional_events_def box_source_ops_def ref_source_ops_def run_locks event_iterator_def run_channels run_calls run_table run_dispatch run_timers run_pings)

lemma channel_lifecycle_tests2:
  assumes "lx_regs p = []"
  shows "test_additional_events p = Ok ()"
  using assms
  by (simp add: test_additional_events_def run_locks event_iterator_def run_channels run_calls run_table run_dispatch run_timers run_pings)

section \<open>A source with a source inside\<close>

text \<open>
  \<open>WithSubSource\<close> of \<open>drop_of_subsource\<close> keeps the third token it takes from the factory and reports it
  before the loop sleeps. Its state is that token; the data of the loop is \<open>ran\<close>.
\<close>

definition subsource_process :: "(token option, (token option, bool) test_loop) process_op" where
  "subsource_process src rd token L = (Ok Remove, src, L\<lparr>lp_data := True\<rparr>)"

definition subsource_register :: "(token option, linux) register_op" where
  "subsource_register src poll tf =
     (case factory_token tf of
        (Ok _, tf) \<Rightarrow>
          (case factory_token tf of
             (Ok _, tf) \<Rightarrow>
               (case factory_token tf of
                  (Ok token, tf) \<Rightarrow> (Ok (), Some token, poll, tf)
                | (_, tf) \<Rightarrow> (Panic, src, poll, tf))
           | (_, tf) \<Rightarrow> (Panic, src, poll, tf))
      | (_, tf) \<Rightarrow> (Panic, src, poll, tf))"

definition subsource_reregister :: "(token option, linux) register_op" where
  "subsource_reregister src poll tf = (Ok (), src, poll, tf)"

definition subsource_unregister :: "(token option, linux) unregister_op" where
  "subsource_unregister src poll = (Ok (), src, poll)"

definition subsource_before_sleep :: "token option \<Rightarrow> (token option, bool) test_loop
    \<Rightarrow> (readiness \<times> token) option cresult \<times> token option \<times> (token option, bool) test_loop" where
  "subsource_before_sleep src L =
     (Ok (map_option (\<lambda>token. (\<lparr>rd_readable = True, rd_writable = False, rd_error = False\<rparr>, token)) src), src, L)"

definition subsource_ops :: "(token option, nat, linux, bool) loop_ops" where
  "subsource_ops =
     \<lparr>so_process = subsource_process, so_register = subsource_register, so_reregister = subsource_reregister,
      so_unregister = subsource_unregister, so_needs_extra = (\<lambda>_. True),
      so_before_sleep = subsource_before_sleep, so_before_handle = default_before_handle\<rparr>"

definition test_drop_of_subsource :: "linux \<Rightarrow> unit program" where
  "test_drop_of_subsource p =
     expect_new (test_new p False) (\<lambda>L.
     expect (insert_source subsource_ops None L) (\<lambda>_ L.
     expect (test_dispatch subsource_ops (Some 0) L) (\<lambda>_ L.
     assert_that (lp_data L) (Ok ()))))"

lemma subsource_test:
  assumes "lx_regs p = []"
  shows "test_drop_of_subsource p = Ok ()"
  using assms
  by (simp add: test_drop_of_subsource_def subsource_ops_def subsource_process_def subsource_register_def subsource_unregister_def
      subsource_before_sleep_def default_before_handle_def event_iterator_def run_calls run_table run_dispatch run_timers)

section \<open>The reuse of a slot\<close>

text \<open>
  \<open>reuse\<close>: the callback of the first timer (\<open>Inl\<close>) removes its own source and inserts an immediate one
  (\<open>Inr\<close>), which takes the freed slot. The data is the token of the first timer and \<open>data\<close>. The calls
  in the callback use only the registration operations of the sources.
\<close>

type_synonym reuse_loop = "(timer + timer, registration_token option \<times> nat) test_loop"

definition reuse_quiet :: "(timer + timer, nat, linux, registration_token option \<times> nat) loop_ops" where
  "reuse_quiet = sum_ops (timer_ops LXP (\<lambda>_ L. (TDrop, L))) (timer_ops LXP (\<lambda>_ L. (TDrop, L)))"

definition reuse_first :: "instant \<Rightarrow> reuse_loop \<Rightarrow> timeout_action \<times> reuse_loop" where
  "reuse_first deadline L =
     (case fst (lp_data L) of
        None \<Rightarrow> (TDrop, L)
      | Some own_token \<Rightarrow>
          (let L = snd (handle_remove LXP reuse_quiet own_token L) in
           (TDrop, snd (insert_source reuse_quiet (Inr (Timer_immediate (loop_now LXP L))) L))))"

definition reuse_second :: "instant \<Rightarrow> reuse_loop \<Rightarrow> timeout_action \<times> reuse_loop" where
  "reuse_second deadline L = (TDrop, L\<lparr>lp_data := (fst (lp_data L), 2)\<rparr>)"

definition reuse_ops :: "(timer + timer, nat, linux, registration_token option \<times> nat) loop_ops" where
  "reuse_ops = sum_ops (timer_ops LXP reuse_first) (timer_ops LXP reuse_second)"

text \<open>The \<open>loop\<close>, of at most \<open>m\<close> rounds.\<close>

fun reuse_rounds :: "nat \<Rightarrow> instant \<Rightarrow> reuse_loop \<Rightarrow> nat program" where
  "reuse_rounds 0 now L = Diverge"
| "reuse_rounds (Suc m) now L =
     expect (test_dispatch reuse_ops (Some (secs 3)) L) (\<lambda>_ L.
     if secs 3 < saturating_duration_since (loop_now LXP L) now then Ok (snd (lp_data L))
     else reuse_rounds m now L)"

definition test_reuse :: "nat \<Rightarrow> linux \<Rightarrow> unit program" where
  "test_reuse m p =
     expect_new (test_new p (None, 1)) (\<lambda>L.
     expect (insert_source reuse_ops (Inl (Timer_from_duration (loop_now LXP L) (secs 1))) L) (\<lambda>first_timer_token L.
     expect ((reuse_rounds m (loop_now LXP L) (L\<lparr>lp_data := (Some first_timer_token, snd (lp_data L))\<rparr>), ())) (\<lambda>data _.
     assert_that (data = 2) (Ok ()))))"

lemma reuse_test:
  assumes "lx_regs p = []" and "lx_now p \<le> secs 1000000000"
  shows "test_reuse (Suc (Suc (Suc m))) p = Ok ()"
  using assms
  by (simp add: test_reuse_def reuse_ops_def reuse_quiet_def reuse_first_def reuse_second_def sum_result_def
      run_calls run_table run_dispatch run_timers)

section \<open>block_on\<close>

text \<open>
  The \<open>async\<close> block of the two tests of \<open>block_on\<close>: it has not started, or waits for its
  \<open>TimeoutFuture\<close>. The data of the loop is what the block shares: the slot for the waker, which it
  has in common with the timer's callback, and \<open>data\<close>. The only waker is that of \<open>block_on\<close>. The result
  of the block is a program, as its \<open>unwrap\<close> may panic.
\<close>

datatype async_block = AsyncStart | AsyncWaiting timeout_future

definition block_timeout :: "instant \<Rightarrow> (timer + timer, nat option \<times> nat) test_loop
    \<Rightarrow> timeout_action \<times> (timer + timer, nat option \<times> nat) test_loop" where
  "block_timeout deadline L =
     (case timeout_callback (fst (lp_data L)) deadline L of
        (action, L) \<Rightarrow> (action, if lp_woken L = [] then L else loop_waker_wake LXP (L\<lparr>lp_woken := []\<rparr>)))"

definition block_ops :: "(timer + timer, nat, linux, nat option \<times> nat) loop_ops" where
  "block_ops =
     sum_ops (timer_ops LXP block_timeout) (timer_ops LXP (\<lambda>deadline L. (TDrop, signal_stop L)))"

definition async_await :: "timeout_future \<Rightarrow> (timer + timer, nat option \<times> nat) test_loop
    \<Rightarrow> nat program option \<times> async_block \<times> (timer + timer, nat option \<times> nat) test_loop" where
  "async_await f L =
     (case timeout_future_poll (loop_now LXP L) 0 f of
        (True, f) \<Rightarrow> (Some (Ok 11), AsyncWaiting f, L\<lparr>lp_data := (tf_waker f, 32)\<rparr>)
      | (False, f) \<Rightarrow> (None, AsyncWaiting f, L\<lparr>lp_data := (tf_waker f, snd (lp_data L))\<rparr>))"

fun async_poll :: "async_block \<Rightarrow> (timer + timer, nat option \<times> nat) test_loop
    \<Rightarrow> nat program option \<times> async_block \<times> (timer + timer, nat option \<times> nat) test_loop" where
  "async_poll AsyncStart L =
     (case TimeoutFuture_from_duration LXP block_ops Inl (secs 2) L of
        (Ok f, L) \<Rightarrow> async_await f L
      | (_, L) \<Rightarrow> (Some Panic, AsyncStart, L))"
| "async_poll (AsyncWaiting f) L = async_await f L"

definition test_block_on :: "nat \<Rightarrow> linux \<Rightarrow> unit program" where
  "test_block_on m p =
     expect_new (test_new p (None, 22)) (\<lambda>L.
     expect (block_on LXP block_ops (\<lambda>_ L. L) 1 m async_poll (\<lambda>L. L) AsyncStart L) (\<lambda>result L.
     assert_that (result = Some (Ok 11)) (
     assert_that (snd (lp_data L) = 32) (Ok ()))))"

definition test_block_on_early_cancel :: "nat \<Rightarrow> linux \<Rightarrow> unit program" where
  "test_block_on_early_cancel m p =
     expect_new (test_new p (None, 22)) (\<lambda>L.
     expect (insert_source block_ops (Inr (Timer_from_duration (loop_now LXP L) (secs 1))) L) (\<lambda>_ L.
     expect (block_on LXP block_ops (\<lambda>_ L. L) 1 m async_poll (\<lambda>L. L) AsyncStart L) (\<lambda>result L.
     assert_that (result = None) (
     assert_that (snd (lp_data L) = 22) (Ok ())))))"

lemmas run_block_on = block_on_def block_ops_def async_await_def block_timeout_def timeout_callback_def loop_waker_wake_def
  signal_wakeup_def signal_stop_def Notifier_notify_def timeout_future_poll_def TimeoutFuture_from_duration_def
  TimeoutFuture_from_deadline_inner_def sum_result_def

lemma block_on_tests:
  assumes "lx_regs p = []" and "lx_now p \<le> secs 1000000000"
  shows "test_block_on (Suc (Suc m)) p = Ok ()" "test_block_on_early_cancel (Suc (Suc m)) p = Ok ()"
  using assms
  by (simp_all add: test_block_on_def test_block_on_early_cancel_def run_block_on run_calls run_table run_dispatch run_timers)

section \<open>Weak handles\<close>

text \<open>
  \<open>weak_loop_handle\<close>: the data is the allocation behind the handles, and whether an assertion in a
  callback failed. The callbacks own weak handles only. Dropping the \<open>EventLoop\<close> drops its handle.
\<close>

definition assert_upgrade :: "weak_handle \<Rightarrow> ('s, loop_alloc \<times> bool) test_loop \<Rightarrow> ('s, loop_alloc \<times> bool) test_loop" where
  "assert_upgrade weak L =
     (case weak_upgrade weak (fst (lp_data L)) of
        (True, a) \<Rightarrow> L\<lparr>lp_data := (handle_drop a, snd (lp_data L))\<rparr>
      | (False, a) \<Rightarrow> L\<lparr>lp_data := (a, True)\<rparr>)"

definition test_weak_loop_handle :: "linux \<Rightarrow> unit program" where
  "test_weak_loop_handle p =
     (let a = \<lparr>la_strong = 1, la_weak = 0, la_callbacks = Some []\<rparr> in
      case handle_downgrade (handle_clone a) of (weak_handle1, a) \<Rightarrow>
      let a = handle_drop a in
      case weak_clone weak_handle1 a of (weak_handle2, a) \<Rightarrow>
      case weak_clone weak_handle1 a of (weak_handle3, a) \<Rightarrow>
      let ops = timer_ops LXP (\<lambda>_ L. (TDrop, assert_upgrade weak_handle1 L)) in
      expect_new (test_new p (a, False)) (\<lambda>L.
      expect (insert_source ops (Timer_immediate (loop_now LXP L)) L) (\<lambda>_ L.
      case insert_idle 0 L of (_, L) \<Rightarrow>
      expect (dispatch LXP ops (\<lambda>_. assert_upgrade weak_handle2) 1 None L) (\<lambda>_ L.
      assert_that (\<not> snd (lp_data L)) (
      let a = handle_drop (fst (lp_data L)) in
      assert_that (weak_expired weak_handle3 a) (Ok ()))))))"

lemma weak_handle_test:
  assumes "lx_regs p = []"
  shows "test_weak_loop_handle p = Ok ()"
  using assms
  by (simp add: test_weak_loop_handle_def assert_upgrade_def weak_upgrade_def weak_expired_def handle_downgrade_def handle_clone_def
      handle_drop_def insert_idle_def run_calls run_table run_dispatch run_timers)

section \<open>Descriptors\<close>

definition fd_ops :: "'p poller_ops \<Rightarrow> (raw_fd generic, nat, 'p, unit) loop_ops" where
  "fd_ops K = generic_ops K (\<lambda>fd. fd) BIo (\<lambda>_ fd L. (Ok Continue, fd, L))"

text \<open>\<open>insert_source_no_interest\<close>: \<open>fd\<close> is the read end of its pipe.\<close>

definition test_insert_source_no_interest :: "raw_fd \<Rightarrow> linux \<Rightarrow> unit program" where
  "test_insert_source_no_interest fd p =
     expect_new (test_new p ()) (\<lambda>L.
     case Dispatcher_new (fd_ops LXP) (Generic_new fd Interest_EMPTY Level) L of
       (dispatcher, L) \<Rightarrow>
         (case register_dispatcher (fd_ops LXP) dispatcher L of
            (Ok token, L) \<Rightarrow> expect (handle_remove LXP (fd_ops LXP) token L) (\<lambda>_ L. (Ok ()))))"

text \<open>\<open>insert_bad_source\<close>: the descriptor 420 is not open.\<close>

definition test_insert_bad_source :: "'p poller_ops \<Rightarrow> 'p \<Rightarrow> unit program" where
  "test_insert_bad_source K p =
     expect_new (try_new K (Inr p) ()) (\<lambda>event_loop.
     case insert_source (fd_ops K) (Generic_new 420 Interest_READ Level) event_loop of
       (ret, _) \<Rightarrow> assert_that (\<not> is_ok ret) (Ok ()))"

lemma descriptor_tests:
  "lx_regs p = [] \<Longrightarrow> test_insert_source_no_interest fd p = Ok ()"
  "(\<And>ev m. pl_add K P 420 ev m = (Inl e, P)) \<Longrightarrow> test_insert_bad_source K P = Ok ()"
  by (simp_all add: test_insert_source_no_interest_def test_insert_bad_source_def fd_ops_def generic_ops_def Interest_EMPTY_def
      run_calls run_table run_dispatch run_timers run_pings)

section \<open>Properties\<close>

text \<open>
  The crate's tests of the event loop itself pass, whenever they start, on the reference system when
  nothing is registered. An idle callback runs in the next dispatch unless it was cancelled. A source
  with lifecycle events is told before every sleep and after it, and no more once it is disabled or
  removed; an event that it reports by itself is dispatched, also to a sub-source. A source inserted
  into the slot that its predecessor freed in its own callback gets its event. \<open>block_on\<close> returns the
  future's value, or \<open>None\<close> and the future unfinished when it is stopped first, in two rounds. A weak
  handle upgrades in callbacks and is expired after the loop; and a descriptor that the system does
  not know is an error of the insertion.
\<close>

theorem loop_tests_pass:
  assumes "lx_regs p = []" and "lx_now p \<le> secs 1000000000" and "2 \<le> m" and "3 \<le> k"
    and "\<And>ev md. pl_add K P 420 ev md = (Inl e, P)"
  shows "test_dispatch_idle p = Ok () \<and> test_cancel_idle p = Ok () \<and> test_additional_events p = Ok () \<and>
    test_default_additional_events p = Ok () \<and> test_additional_events_synthetic p = Ok () \<and> test_drop_of_subsource p = Ok () \<and>
    test_reuse k p = Ok () \<and> test_block_on m p = Ok () \<and> test_block_on_early_cancel m p = Ok () \<and>
    test_weak_loop_handle p = Ok () \<and> test_insert_source_no_interest fd p = Ok () \<and> test_insert_bad_source K P = Ok ()"
proof -
  obtain m' k' where "m = Suc (Suc m')" "k = Suc (Suc (Suc k'))"
    using assms(3,4) by (metis Suc_le_D numeral_2_eq_2 numeral_3_eq_3 Suc_le_mono)
  with block_on_tests [OF assms(1,2)] reuse_test [OF assms(1,2)]
  have "test_block_on m p = Ok ()" "test_block_on_early_cancel m p = Ok ()" "test_reuse k p = Ok ()" by simp_all
  then show ?thesis
    using idle_tests [OF assms(1)] lifecycle_tests [OF assms(1)] channel_lifecycle_tests [OF assms(1)] channel_lifecycle_tests2 [OF assms(1)]
      subsource_test [OF assms(1)] weak_handle_test [OF assms(1)] descriptor_tests(1) [OF assms(1)] descriptor_tests(2) [OF assms(5)]
    by simp
qed

text \<open>A poller on which the descriptor 420 is not open (\<open>EBADF\<close>).\<close>

definition LXB :: "linux poller_ops" where
  "LXB = LXP\<lparr>pl_add := (\<lambda>p fd ev m. if fd = 420 then (Inl (OtherIo 9), p) else pl_add LXP p fd ev m)\<rparr>"

theorem loop_tests_pass_witness:
  "test_dispatch_idle \<lparr>lx_regs = [], lx_counters = \<lambda>_. 0, lx_now = 12, lx_next = 3\<rparr> = Ok ()"
  by (rule loop_tests_pass [where K = LXB and m = 2 and k = 3, THEN conjunct1]) (simp_all add: LXB_def)

end
