(* ===== verification/Ping_Programs.thy ===== *)
theory Ping_Programs
  imports Test_Kit Transient_Source
begin

text \<open>
  The tests of \<open>src/src/sources/ping.rs\<close> and those of \<open>src/src/loop_logic.rs\<close> that use pings, as
  programs.
\<close>

section \<open>One ping\<close>

definition dispatched_ops :: "(eventfd_source, nat, linux, bool) loop_ops" where
  "dispatched_ops = ping_ops LXP LXE (\<lambda>L. L\<lparr>lp_data := True\<rparr>)"

definition test_ping :: "linux \<Rightarrow> unit program" where
  "test_ping p =
     expect_new (test_new p False) (\<lambda>L.
     expect (test_make_ping L) (\<lambda>(fd, source) L.
     expect (insert_source dispatched_ops source L) (\<lambda>_ L.
     let L = send_ping fd L in
     expect (test_dispatch dispatched_ops (Some 0) (L\<lparr>lp_data := False\<rparr>)) (\<lambda>_ L.
     assert_that (lp_data L) (
     expect (test_dispatch dispatched_ops (Some 0) (L\<lparr>lp_data := False\<rparr>)) (\<lambda>_ L.
     assert_that (\<not> lp_data L) (Ok ())))))))"

definition test_ping_closed :: "linux \<Rightarrow> unit program" where
  "test_ping_closed p =
     expect_new (test_new p False) (\<lambda>L.
     expect (test_make_ping L) (\<lambda>(fd, source) L.
     let L = ping_drop fd L in
     expect (insert_source dispatched_ops source L) (\<lambda>_ L.
     expect (test_dispatch dispatched_ops (Some 0) L) (\<lambda>_ L.
     assert_that (\<not> lp_data L) (
     let now = loop_now LXP L in
     expect (test_dispatch dispatched_ops (Some (millis 100)) L) (\<lambda>_ L.
     assert_that (millis 100 \<le> loop_now LXP L - now) (Ok ())))))))"

section \<open>Pings in a transient source\<close>

definition transient_dispatched_ops :: "(eventfd_source transient_state, nat, linux, bool) loop_ops" where
  "transient_dispatched_ops = transient_ops (ping_ops LXP LXE (\<lambda>L. L\<lparr>lp_data := True\<rparr>))"

definition test_ping_removed :: "linux \<Rightarrow> unit program" where
  "test_ping_removed p =
     expect_new (test_new p False) (\<lambda>L.
     expect (test_make_ping L) (\<lambda>(sender, source) L.
     let wrapper = transient_from source in
     assert_that (\<not> transient_is_none wrapper) (
     expect (register_new transient_dispatched_ops wrapper L) (\<lambda>(dispatcher, token) L.
     let L = ping_drop sender L in
     expect (test_dispatch transient_dispatched_ops (Some 0) L) (\<lambda>_ L.
     assert_that (\<not> lp_data L) (
     expect (handle_remove LXP transient_dispatched_ops token L) (\<lambda>_ L.
     expect (take_source dispatcher L) (\<lambda>wrapper L.
     assert_that (transient_is_none wrapper) (Ok ())))))))))"

definition test_ping_fired_and_removed :: "linux \<Rightarrow> unit program" where
  "test_ping_fired_and_removed p =
     expect_new (test_new p False) (\<lambda>L.
     expect (test_make_ping L) (\<lambda>(sender, source) L.
     let wrapper = transient_from source in
     assert_that (\<not> transient_is_none wrapper) (
     expect (register_new transient_dispatched_ops wrapper L) (\<lambda>(dispatcher, token) L.
     let L = ping_drop sender (send_ping sender L) in
     expect (test_dispatch transient_dispatched_ops (Some 0) L) (\<lambda>_ L.
     assert_that (lp_data L) (
     expect (handle_remove LXP transient_dispatched_ops token L) (\<lambda>_ L.
     expect (take_source dispatcher L) (\<lambda>wrapper L.
     assert_that (transient_is_none wrapper) (Ok ())))))))))"

text \<open>Three handles of the one ping, \<open>senders\<close>; each is dropped where the test drops it.\<close>

definition test_ping_multiple_senders :: "linux \<Rightarrow> unit program" where
  "test_ping_multiple_senders p =
     expect_new (test_new p False) (\<lambda>L.
     expect (test_make_ping L) (\<lambda>(fd, source) L.
     let wrapper = transient_from source; senders = ping_clone (ping_clone (ping_handle fd)) in
     assert_that (\<not> transient_is_none wrapper) (
     expect (register_new transient_dispatched_ops wrapper L) (\<lambda>(dispatcher, token) L.
     let (senders, L) = ping_handle_drop LXE loop_system senders (send_ping (ph_fd senders) L) in
     expect (test_dispatch transient_dispatched_ops (Some 0) L) (\<lambda>_ L.
     assert_that (lp_data L) (
     let L = send_ping (ph_fd senders) (L\<lparr>lp_data := False\<rparr>) in
     expect (test_dispatch transient_dispatched_ops (Some 0) L) (\<lambda>_ L.
     assert_that (lp_data L) (
     let (senders, L) = ping_handle_drop LXE loop_system senders (L\<lparr>lp_data := False\<rparr>) in
     let (senders, L) = ping_handle_drop LXE loop_system senders L in
     expect (test_dispatch transient_dispatched_ops (Some 0) L) (\<lambda>_ L.
     assert_that (\<not> lp_data L) (
     expect (handle_remove LXP transient_dispatched_ops token L) (\<lambda>_ L.
     expect (take_source dispatcher L) (\<lambda>wrapper L.
     assert_that (transient_is_none wrapper) (Ok ())))))))))))))"

section \<open>Pings in the tests of the loop\<close>

definition test_invalid_token :: "linux \<Rightarrow> unit program" where
  "test_invalid_token p =
     expect_new (test_new p False) (\<lambda>L.
     expect (test_make_ping L) (\<lambda>(_, source) L.
     expect (insert_source dispatched_ops source L) (\<lambda>reg_token L.
     expect (handle_remove LXP dispatched_ops reg_token L) (\<lambda>_ L.
     case handle_enable dispatched_ops reg_token L of
       (ret, L) \<Rightarrow> assert_that (\<not> is_ok ret) (Ok ())))))"

definition test_disarm_rearm :: "linux \<Rightarrow> unit program" where
  "test_disarm_rearm p =
     expect_new (test_new p False) (\<lambda>L.
     expect (test_make_ping L) (\<lambda>(fd, ping_source) L.
     expect (insert_source dispatched_ops ping_source L) (\<lambda>ping_token L.
     let L = send_ping fd L in
     expect (test_dispatch dispatched_ops (Some 0) (L\<lparr>lp_data := False\<rparr>)) (\<lambda>_ L.
     assert_that (lp_data L) (
     let L = send_ping fd L in
     expect (handle_disable LXP dispatched_ops ping_token L) (\<lambda>_ L.
     expect (test_dispatch dispatched_ops (Some 0) (L\<lparr>lp_data := False\<rparr>)) (\<lambda>_ L.
     assert_that (\<not> lp_data L) (
     expect (handle_enable dispatched_ops ping_token L) (\<lambda>_ L.
     expect (test_dispatch dispatched_ops (Some 0) (L\<lparr>lp_data := False\<rparr>)) (\<lambda>_ L.
     assert_that (lp_data L) (Ok ())))))))))))"

text \<open>\<open>DoubleSource\<close> of \<open>multiple_tokens\<close>: two pings in one source; \<open>cb\<close> is called with 1 or 2.\<close>

record double_source =
  ping1 :: eventfd_source
  ping2 :: eventfd_source

definition double_process :: "(nat \<Rightarrow> ('s, 'i, linux, 'd) loop_state \<Rightarrow> ('s, 'i, linux, 'd) loop_state)
    \<Rightarrow> (double_source, ('s, 'i, linux, 'd) loop_state) process_op" where
  "double_process cb src rd token w =
     (case eventfd_process LXE loop_system (ping1 src) rd token (\<lambda>_ w. ((), cb 1 w)) () w of
        (Ok _, s1, _, w1) \<Rightarrow>
          (case eventfd_process LXE loop_system (ping2 src) rd token (\<lambda>_ w. ((), cb 2 w)) () w1 of
             (r, s2, _, w2) \<Rightarrow> (map_ok (\<lambda>_. Continue) r, \<lparr>ping1 = s1, ping2 = s2\<rparr>, w2))
      | (r, s1, _, w1) \<Rightarrow> (r, src\<lparr>ping1 := s1\<rparr>, w1))"

definition double_both :: "(eventfd_source, linux) register_op \<Rightarrow> (double_source, linux) register_op" where
  "double_both reg src P tf =
     (case reg (ping1 src) P tf of
        (Ok _, s1, P1, tf1) \<Rightarrow>
          (case reg (ping2 src) P1 tf1 of (r, s2, P2, tf2) \<Rightarrow> (r, \<lparr>ping1 = s1, ping2 = s2\<rparr>, P2, tf2))
      | (r, s1, P1, tf1) \<Rightarrow> (r, src\<lparr>ping1 := s1\<rparr>, P1, tf1))"

definition double_register :: "(double_source, linux) register_op" where
  "double_register src P tf = double_both (eventfd_register LXP) src P tf"

definition double_reregister :: "(double_source, linux) register_op" where
  "double_reregister src P tf = double_both (eventfd_reregister LXP) src P tf"

definition double_unregister :: "(double_source, linux) unregister_op" where
  "double_unregister src P =
     (case eventfd_unregister LXP (ping1 src) P of
        (Ok _, s1, P1) \<Rightarrow> (case eventfd_unregister LXP (ping2 src) P1 of (r, s2, P2) \<Rightarrow> (r, \<lparr>ping1 = s1, ping2 = s2\<rparr>, P2))
      | (r, s1, P1) \<Rightarrow> (r, src\<lparr>ping1 := s1\<rparr>, P1))"

definition double_ops :: "(double_source, nat, linux, nat) loop_ops" where
  "double_ops =
     \<lparr>so_process = double_process (\<lambda>i L. L\<lparr>lp_data := lp_data L + i\<rparr>), so_register = double_register,
      so_reregister = double_reregister, so_unregister = double_unregister, so_needs_extra = default_needs_extra,
      so_before_sleep = default_before_sleep, so_before_handle = default_before_handle\<rparr>"

definition test_multiple_tokens :: "linux \<Rightarrow> unit program" where
  "test_multiple_tokens p =
     expect_new (test_new p 0) (\<lambda>L.
     expect (test_make_ping L) (\<lambda>(fd1, source1) L.
     expect (test_make_ping L) (\<lambda>(fd2, source2) L.
     expect (insert_source double_ops \<lparr>ping1 = source1, ping2 = source2\<rparr> L) (\<lambda>_ L.
     let L = send_ping fd1 (L\<lparr>lp_data := 0\<rparr>) in
     expect (test_dispatch double_ops (Some 0) L) (\<lambda>_ L.
     assert_that (lp_data L = 1) (
     let L = send_ping fd2 (L\<lparr>lp_data := 0\<rparr>) in
     expect (test_dispatch double_ops (Some 0) L) (\<lambda>_ L.
     assert_that (lp_data L = 2) (
     let L = send_ping fd2 (send_ping fd1 (L\<lparr>lp_data := 0\<rparr>)) in
     expect (test_dispatch double_ops (Some 0) L) (\<lambda>_ L.
     assert_that (lp_data L = 3) (Ok ()))))))))))"

text \<open>
  \<open>kill_source\<close>: a callback that removes its own source. \<open>remove\<close> calls only the registration
  operations of the sources, which do not depend on the callback.
\<close>

definition kill_callback :: "(eventfd_source, nat, linux, registration_token option) loop_state
    \<Rightarrow> (eventfd_source, nat, linux, registration_token option) loop_state" where
  "kill_callback L =
     (case lp_data L of
        Some src \<Rightarrow> snd (handle_remove LXP (ping_ops LXP LXE (\<lambda>L. L)) src (L\<lparr>lp_data := None\<rparr>))
      | None \<Rightarrow> L)"

definition test_kill_source :: "linux \<Rightarrow> unit program" where
  "test_kill_source p =
     (let ops = ping_ops LXP LXE kill_callback in
      expect_new (test_new p None) (\<lambda>L.
      expect (test_make_ping L) (\<lambda>(fd, ping_source) L.
      expect (insert_source ops ping_source L) (\<lambda>ping_token L.
      let L = (send_ping fd L)\<lparr>lp_data := Some ping_token\<rparr> in
      expect (test_dispatch ops (Some 0) L) (\<lambda>_ L.
      assert_that (lp_data L = None) (Ok ()))))))"

text \<open>\<open>non_static_data\<close>: the data is a queue that outlives the loop.\<close>

definition test_non_static_data :: "linux \<Rightarrow> unit program" where
  "test_non_static_data p =
     (let ops = ping_ops LXP LXE (\<lambda>L. L\<lparr>lp_data := lp_data L @ [()]\<rparr>) in
      expect_new (test_new p []) (\<lambda>L.
      expect (test_make_ping L) (\<lambda>(fd, ping_source) L.
      expect (insert_source ops ping_source L) (\<lambda>_ L.
      let L = send_ping fd L in
      expect (test_dispatch ops (Some 0) L) (\<lambda>_ L.
      let receiver = lp_data L in
      assert_that (receiver \<noteq> []) (Ok ()))))))"

lemmas run_ping_program = run_calls run_table run_dispatch run_pings run_timers run_dispatchers
  dispatched_ops_def

lemma ping_tests:
  assumes "lx_regs p = []"
  shows "test_ping p = Ok ()" "test_ping_closed p = Ok ()" "test_invalid_token p = Ok ()" "test_disarm_rearm p = Ok ()"
  using assms
  by (simp_all add: test_ping_def test_ping_closed_def test_invalid_token_def test_disarm_rearm_def run_ping_program)

lemma transient_ping_tests:
  assumes "lx_regs p = []"
  shows "test_ping_removed p = Ok ()" "test_ping_fired_and_removed p = Ok ()"
  using assms
  by (simp_all add: test_ping_removed_def test_ping_fired_and_removed_def transient_dispatched_ops_def transient_ops_def
      transient_source_defs transient_from_def transient_is_none_def run_ping_program)

lemma transient_senders_test:
  assumes "lx_regs p = []"
  shows "test_ping_multiple_senders p = Ok ()"
  using assms
  by (simp add: test_ping_multiple_senders_def transient_dispatched_ops_def transient_ops_def
      transient_source_defs transient_from_def transient_is_none_def run_ping_program)

lemma multiple_tokens_test:
  assumes "lx_regs p = []"
  shows "test_multiple_tokens p = Ok ()"
  using assms
  by (simp add: test_multiple_tokens_def double_ops_def double_process_def double_both_def double_register_def run_ping_program)

lemma kill_source_test:
  assumes "lx_regs p = []"
  shows "test_kill_source p = Ok ()" "test_non_static_data p = Ok ()"
  using assms
  by (simp_all add: test_kill_source_def test_non_static_data_def kill_callback_def run_ping_program)

end
