(* ===== verification/Source_Programs.thy ===== *)
theory Source_Programs
  imports Ping_Programs Batch
begin

text \<open>
  The tests of \<open>src/src/sources/mod.rs\<close>, \<open>src/src/macros.rs\<close> and \<open>src/src/token.rs\<close> as programs.
\<close>

section \<open>Boxed and borrowed sources\<close>

definition test_boxed_source :: "linux \<Rightarrow> unit program" where
  "test_boxed_source p =
     (let ops = box_source_ops dispatched_ops in
      expect_new (test_new p False) (\<lambda>L.
      expect (test_make_ping L) (\<lambda>(pinger, source) L.
      expect (insert_source ops source L) (\<lambda>token L.
      let L = send_ping pinger L in
      expect (test_dispatch ops (Some 0) L) (\<lambda>_ L.
      assert_that (lp_data L) (
      let L = L\<lparr>lp_data := False\<rparr> in
      expect (handle_update ops token L) (\<lambda>_ L.
      let L = send_ping pinger L in
      expect (test_dispatch ops (Some 0) L) (\<lambda>_ L.
      assert_that (lp_data L) (
      let L = L\<lparr>lp_data := False\<rparr> in
      expect (handle_remove LXP ops token L) (\<lambda>_ L.
      expect (test_dispatch ops (Some 0) L) (\<lambda>_ L.
      assert_that (\<not> lp_data L) (Ok ()))))))))))))"

definition test_mut_ref_source :: "linux \<Rightarrow> unit program" where
  "test_mut_ref_source p =
     (let ops = ref_source_ops dispatched_ops in
      expect_new (test_new p False) (\<lambda>L.
      expect (test_make_ping L) (\<lambda>(pinger, source) L.
      expect (insert_source ops source L) (\<lambda>token L.
      let L = send_ping pinger L in
      expect (test_dispatch ops (Some 0) L) (\<lambda>_ L.
      assert_that (lp_data L) (
      let L = L\<lparr>lp_data := False\<rparr> in
      expect (handle_update ops token L) (\<lambda>_ L.
      let L = send_ping pinger L in
      expect (test_dispatch ops (Some 0) L) (\<lambda>_ L.
      assert_that (lp_data L) (
      let L = L\<lparr>lp_data := False\<rparr> in
      expect (handle_remove LXP ops token L) (\<lambda>_ L.
      expect (test_dispatch ops (Some 0) L) (\<lambda>_ L.
      assert_that (\<not> lp_data L) (Ok ()))))))))))))"

lemma source_impl_tests:
  assumes "lx_regs p = []"
  shows "test_boxed_source p = Ok ()" "test_mut_ref_source p = Ok ()"
  using assms
  by (simp_all add: test_boxed_source_def test_mut_ref_source_def run_ping_program)

section \<open>Actions and tokens\<close>

fun assert_all :: "bool list \<Rightarrow> unit program" where
  "assert_all [] = Ok ()"
| "assert_all (b # bs) = assert_that b (assert_all bs)"

definition test_post_action_combine :: "unit program" where
  "test_post_action_combine = assert_all
     [post_bitor Continue Continue = Continue, post_bitor Continue Reregister = Reregister,
      post_bitor Continue Disable = Reregister, post_bitor Continue Remove = Reregister,
      post_bitor Reregister Continue = Reregister, post_bitor Reregister Reregister = Reregister,
      post_bitor Reregister Disable = Reregister, post_bitor Reregister Remove = Reregister,
      post_bitor Disable Continue = Reregister, post_bitor Disable Reregister = Reregister,
      post_bitor Disable Disable = Disable, post_bitor Disable Remove = Reregister,
      post_bitor Remove Continue = Reregister, post_bitor Remove Reregister = Reregister,
      post_bitor Remove Disable = Reregister, post_bitor Remove Remove = Remove]"

definition test_post_action_combine_assign :: "unit program" where
  "test_post_action_combine_assign = assert_all
     [post_bitor_assign Continue Continue = Continue, post_bitor_assign Continue Reregister = Reregister,
      post_bitor_assign Continue Disable = Reregister, post_bitor_assign Continue Remove = Reregister,
      post_bitor_assign Reregister Continue = Reregister, post_bitor_assign Reregister Reregister = Reregister,
      post_bitor_assign Reregister Disable = Reregister, post_bitor_assign Reregister Remove = Reregister,
      post_bitor_assign Disable Continue = Reregister, post_bitor_assign Disable Reregister = Reregister,
      post_bitor_assign Disable Disable = Disable, post_bitor_assign Disable Remove = Reregister,
      post_bitor_assign Remove Continue = Reregister, post_bitor_assign Remove Reregister = Reregister,
      post_bitor_assign Remove Disable = Reregister, post_bitor_assign Remove Remove = Remove]"

text \<open>This test has to panic, whatever the width \<open>w\<close> of pointers.\<close>

definition test_overflow_subid :: "nat \<Rightarrow> unit program" where
  "test_overflow_subid w =
     (case (increment_sub_id w \<lparr>tok_id = 0, tok_version = 0, tok_sub_id = MASK_SUBID w\<rparr> :: token_inner program) of
        Ok _ \<Rightarrow> Ok ()
      | _ \<Rightarrow> Panic)"

lemma value_tests: "test_post_action_combine = Ok ()" "test_post_action_combine_assign = Ok ()"
  by (simp_all add: test_post_action_combine_def test_post_action_combine_assign_def assert_that_def post_bitor_def post_bitor_assign_def)

lemma overflow_subid_test:
  assumes "w \<in> {16, 32, 64}"
  shows "test_overflow_subid w = Panic"
proof -
  from assms consider "w = 16" | "w = 32" | "w = 64" by blast
  then show ?thesis
    by cases (simp_all add: test_overflow_subid_def increment_sub_id_def checked_add16_def MASK_SUBID_def BITS_SUBID_def)
qed

section \<open>A source of three pings\<close>

record batch_source =
  bt_ping0 :: eventfd_source
  bt_ping1 :: eventfd_source
  bt_ping2 :: eventfd_source

definition batch_pings :: "batch_source \<Rightarrow> eventfd_source list" where
  "batch_pings src = [bt_ping0 src, bt_ping1 src, bt_ping2 src]"

definition batch_of :: "eventfd_source list \<Rightarrow> batch_source" where
  "batch_of ps = \<lparr>bt_ping0 = ps ! 0, bt_ping1 = ps ! 1, bt_ping2 = ps ! 2\<rparr>"

definition batch_process :: "(nat \<Rightarrow> 'w \<Rightarrow> 'w) \<Rightarrow> ('w, linux) access \<Rightarrow> (batch_source, 'w) process_op" where
  "batch_process callback sys src rd token w =
     (case eventfd_process LXE sys (bt_ping0 src) rd token (\<lambda>_ w. ((), callback 0 w)) () w of
        (Ok _, p0, _, w) \<Rightarrow>
          (case eventfd_process LXE sys (bt_ping1 src) rd token (\<lambda>_ w. ((), callback 1 w)) () w of
             (Ok _, p1, _, w) \<Rightarrow>
               (case eventfd_process LXE sys (bt_ping2 src) rd token (\<lambda>_ w. ((), callback 2 w)) () w of
                  (r, p2, _, w) \<Rightarrow> (map_ok (\<lambda>_. Continue) r, \<lparr>bt_ping0 = p0, bt_ping1 = p1, bt_ping2 = p2\<rparr>, w))
           | (r, p1, _, w) \<Rightarrow> (r, src\<lparr>bt_ping0 := p0, bt_ping1 := p1\<rparr>, w))
      | (r, p0, _, w) \<Rightarrow> (r, src\<lparr>bt_ping0 := p0\<rparr>, w))"

definition batch_source_ops :: "(batch_source, nat, linux, bool list) loop_ops" where
  "batch_source_ops =
     \<lparr>so_process = batch_process (\<lambda>idx L. L\<lparr>lp_data := (lp_data L)[idx := True]\<rparr>) loop_system,
      so_register = (\<lambda>src P tf. case batch_register (eventfd_register LXP) (batch_pings src) P tf of (r, ps, x) \<Rightarrow> (r, batch_of ps, x)),
      so_reregister = (\<lambda>src P tf. case batch_reregister (eventfd_reregister LXP) (batch_pings src) P tf of (r, ps, x) \<Rightarrow> (r, batch_of ps, x)),
      so_unregister = (\<lambda>src P. case batch_unregister (eventfd_unregister LXP) (batch_pings src) P of (r, ps, x) \<Rightarrow> (r, batch_of ps, x)),
      so_needs_extra = default_needs_extra, so_before_sleep = default_before_sleep, so_before_handle = default_before_handle\<rparr>"

definition test_batch_operations :: "linux \<Rightarrow> unit program" where
  "test_batch_operations p =
     expect_new (test_new p [False, False, False]) (\<lambda>L.
     expect (test_make_ping L) (\<lambda>(send0, ping0) L.
     expect (test_make_ping L) (\<lambda>(send1, ping1) L.
     expect (test_make_ping L) (\<lambda>(send2, ping2) L.
     expect (insert_source batch_source_ops \<lparr>bt_ping0 = ping0, bt_ping1 = ping1, bt_ping2 = ping2\<rparr> L) (\<lambda>token L.
     let L = send_ping send2 (send_ping send1 (send_ping send0 L)) in
     expect (test_dispatch batch_source_ops (Some 0) L) (\<lambda>_ L.
     assert_that (lp_data L = [True, True, True]) (
     let L = L\<lparr>lp_data := [False, False, False]\<rparr> in
     expect (handle_update batch_source_ops token L) (\<lambda>_ L.
     let L = send_ping send2 (send_ping send1 (send_ping send0 L)) in
     expect (test_dispatch batch_source_ops (Some 0) L) (\<lambda>_ L.
     assert_that (lp_data L = [True, True, True]) (
     let L = L\<lparr>lp_data := [False, False, False]\<rparr> in
     expect (handle_remove LXP batch_source_ops token L) (\<lambda>_ L.
     let L = send_ping send2 (send_ping send1 (send_ping send0 L)) in
     expect (test_dispatch batch_source_ops (Some 0) L) (\<lambda>_ L.
     assert_that (lp_data L = [False, False, False]) (Ok ())))))))))))))"

lemma batch_test:
  assumes "lx_regs p = []"
  shows "test_batch_operations p = Ok ()"
  using assms
  by (simp add: test_batch_operations_def batch_source_ops_def batch_process_def batch_pings_def batch_of_def run_ping_program)

section \<open>Properties\<close>

text \<open>
  The crate's tests of its pings and of sources made of them pass on the reference system when nothing
  is registered: no \<open>unwrap\<close> meets an error and every assertion holds. An event follows a ping and
  only a ping; closing the last handle removes the source without one; a ping that is sent while
  the source is disabled waits until it is enabled; a removed source, a source removed by its own
  callback and a source removed with an event pending stay silent; the sources inside a composite
  source are told apart by their sub-tokens; boxed and borrowed sources behave as the sources; and the sub-id past the last panics at every width.
\<close>

theorem ping_tests_pass:
  assumes "lx_regs p = []"
  shows "test_ping p = Ok () \<and> test_ping_closed p = Ok () \<and> test_ping_removed p = Ok () \<and> test_ping_fired_and_removed p = Ok () \<and>
    test_ping_multiple_senders p = Ok () \<and> test_invalid_token p = Ok () \<and> test_disarm_rearm p = Ok () \<and>
    test_multiple_tokens p = Ok () \<and> test_kill_source p = Ok () \<and> test_non_static_data p = Ok () \<and>
    test_boxed_source p = Ok () \<and> test_mut_ref_source p = Ok () \<and> test_batch_operations p = Ok () \<and>
    test_post_action_combine = Ok () \<and> test_post_action_combine_assign = Ok () \<and>
    list_all (\<lambda>w. test_overflow_subid w = Panic) [16, 32, 64]"
  using ping_tests [OF assms] transient_ping_tests [OF assms] transient_senders_test [OF assms] multiple_tokens_test [OF assms]
    kill_source_test [OF assms] source_impl_tests [OF assms] batch_test [OF assms] value_tests overflow_subid_test by simp

theorem ping_tests_pass_witness:
  "test_ping \<lparr>lx_regs = [], lx_counters = \<lambda>_. 0, lx_now = 12, lx_next = 3\<rparr> = Ok ()"
  by (rule ping_tests_pass [THEN conjunct1]) simp

end
