(* ===== verification/Transient_Programs.thy ===== *)
theory Transient_Programs
  imports Channel_Programs Transient_Registry
begin

text \<open>
  The tests of \<open>src/src/sources/transient.rs\<close> as programs, with the sources they define around the
  wrapper. A Rust value is dropped when nothing owns it any more, so that whether a test's inner
  source was dropped is read off the dispatcher that owned it.
\<close>

definition source_in :: "nat \<Rightarrow> ('s, 'd) test_loop \<Rightarrow> 's option" where
  "source_in d L = (case cell_val (lp_cells L ! d) of SourceDisp di \<Rightarrow> Some (di_source di) | IoDisp _ \<Rightarrow> None)"

definition child_dropped :: "nat \<Rightarrow> ('t transient_state, 'd) test_loop \<Rightarrow> bool" where
  "child_dropped d L = (case source_in d L of Some wrapper \<Rightarrow> transient_is_none wrapper | None \<Rightarrow> True)"

text \<open>A ping source whose events end with an action of its own; the rest is the ping's.\<close>

definition then_action :: "post_action \<Rightarrow> ('e, post_action) outcome \<times> 's \<times> 'w \<Rightarrow> ('e, post_action) outcome \<times> 's \<times> 'w" where
  "then_action action res = (case res of (Ok _, s, w) \<Rightarrow> (Ok action, s, w) | _ \<Rightarrow> res)"

section \<open>test_transient_drop and test_transient_disable\<close>

definition test_source_ops :: "(eventfd_source, linux, ('s, bool) test_loop) source_ops" where
  "test_source_ops =
     (let ping = ping_ops LXP LXE (\<lambda>L. L\<lparr>lp_data := True\<rparr>) in
      \<lparr>so_process = (\<lambda>src rd token L. then_action Remove (so_process ping src rd token L)),
       so_register = so_register ping, so_reregister = so_reregister ping, so_unregister = so_unregister ping,
       so_needs_extra = default_needs_extra, so_before_sleep = default_before_sleep, so_before_handle = default_before_handle\<rparr>)"

definition test_transient_drop :: "linux \<Rightarrow> unit program" where
  "test_transient_drop p =
     (let ops = transient_ops test_source_ops in
      expect_new (test_new p False) (\<lambda>L.
      expect (test_make_ping L) (\<lambda>(pinger, inner) L.
      let outer = transient_from inner in
      expect (insert_source ops outer L) (\<lambda>_ L.
      let L = send_ping pinger L in
      expect (test_dispatch ops (Some 0) L) (\<lambda>_ L.
      assert_that (lp_data L) (
      assert_that (child_dropped 0 L) (
      let L = send_ping pinger (L\<lparr>lp_data := False\<rparr>) in
      expect (test_dispatch ops (Some 0) L) (\<lambda>_ L.
      assert_that (\<not> lp_data L) (Ok ())))))))))"

definition disabling_source_ops :: "(eventfd_source, linux, ('s, bool) test_loop) source_ops" where
  "disabling_source_ops =
     (let ping = ping_ops LXP LXE (\<lambda>L. L\<lparr>lp_data := True\<rparr>) in
      \<lparr>so_process = (\<lambda>src rd token L. then_action Disable (so_process ping src rd token L)),
       so_register = so_register ping, so_reregister = so_reregister ping, so_unregister = so_unregister ping,
       so_needs_extra = default_needs_extra, so_before_sleep = default_before_sleep, so_before_handle = default_before_handle\<rparr>)"

definition test_transient_disable :: "linux \<Rightarrow> unit program" where
  "test_transient_disable p =
     (let ops = transient_ops disabling_source_ops in
      expect_new (test_new p False) (\<lambda>L.
      expect (test_make_ping L) (\<lambda>(pinger, inner) L.
      let outer = transient_from inner in
      expect (insert_source ops outer L) (\<lambda>token L.
      let L = send_ping pinger L in
      expect (test_dispatch ops (Some 0) L) (\<lambda>_ L.
      assert_that (lp_data L) (
      let L = send_ping pinger L in
      expect (test_dispatch ops (Some 0) (L\<lparr>lp_data := False\<rparr>)) (\<lambda>_ L.
      assert_that (\<not> lp_data L) (
      expect (handle_enable ops token L) (\<lambda>_ L.
      let L = send_ping pinger L in
      expect (test_dispatch ops (Some 0) (L\<lparr>lp_data := False\<rparr>)) (\<lambda>_ L.
      assert_that (lp_data L) (Ok ())))))))))))"

section \<open>test_transient_passthrough\<close>

definition test_transient_passthrough :: "linux \<Rightarrow> unit program" where
  "test_transient_passthrough p =
     (let ops = transient_ops (channel_ops LXP LXE (lx_next p) pair_first pair_second (\<lambda>msg queue. queue @ [msg])) in
      expect_new (test_new p (no_queue, [])) (\<lambda>L.
      expect (test_channel None pair_first L) (\<lambda>(sender, receiver) L.
      let outer = transient_from receiver in
      expect (insert_source ops outer L) (\<lambda>_ L.
      expect (test_send pair_first sender (0 :: u32) L) (\<lambda>_ L.
      expect (test_send pair_first sender 1 L) (\<lambda>_ L.
      expect (test_send pair_first sender 2 L) (\<lambda>_ L.
      expect (test_send pair_first sender 3 L) (\<lambda>_ L.
      let L = test_drop_sender pair_first sender L in
      expect (test_dispatch ops (Some 0) L) (\<lambda>_ L.
      assert_that (snd (lp_data L) = [Msg 0, Msg 1, Msg 2, Msg 3, Closed]) (Ok ()))))))))))"

section \<open>test_transient_map\<close>

text \<open>\<open>IdSource\<close>, whose events are its number, and \<open>WrapperSource\<close>, which counts each call in it.\<close>

record id_source =
  is_id :: u32
  is_ping :: eventfd_source

definition id_process :: "(u32 \<Rightarrow> 'w \<Rightarrow> 'w) \<Rightarrow> ('w, linux) access \<Rightarrow> (id_source, 'w) process_op" where
  "id_process callback sys src rd token w =
     (let i = is_id src in
      case eventfd_process LXE sys (is_ping src) rd token (\<lambda>_ w. ((), callback i w)) () w of
        (Ok _, s', _, w') \<Rightarrow> (Ok (if 2 < is_id src then Remove else Continue), src\<lparr>is_ping := s'\<rparr>, w')
      | (r, s', _, w') \<Rightarrow> (r, src\<lparr>is_ping := s'\<rparr>, w'))"

definition id_register :: "(id_source, linux) register_op" where
  "id_register src P tf = (case eventfd_register LXP (is_ping src) P tf of (r, s', x) \<Rightarrow> (r, src\<lparr>is_ping := s'\<rparr>, x))"

definition id_reregister :: "(id_source, linux) register_op" where
  "id_reregister src P tf = (case eventfd_reregister LXP (is_ping src) P tf of (r, s', x) \<Rightarrow> (r, src\<lparr>is_ping := s'\<rparr>, x))"

definition id_unregister :: "(id_source, linux) unregister_op" where
  "id_unregister src P = (case eventfd_unregister LXP (is_ping src) P of (r, s', x) \<Rightarrow> (r, src\<lparr>is_ping := s'\<rparr>, x))"

definition count_call :: "id_source transient_state \<Rightarrow> id_source transient_state" where
  "count_call st = snd (transient_map (\<lambda>inner. ((), inner\<lparr>is_id := is_id inner + 1\<rparr>)) st)"

definition counting_process :: "(u32 \<Rightarrow> 'w \<Rightarrow> 'w) \<Rightarrow> ('w, linux) access \<Rightarrow> (id_source transient_state, 'w) process_op" where
  "counting_process callback sys st rd token w =
     (case transient_process (id_process callback sys) st rd token w of
        (action, st', w') \<Rightarrow> (action, count_call st', w'))"

definition counting_register :: "(id_source transient_state, linux) register_op" where
  "counting_register st P tf = transient_register id_register (count_call st) P tf"

definition counting_reregister :: "(id_source transient_state, linux) register_op" where
  "counting_reregister st P tf = transient_reregister id_register id_reregister id_unregister (count_call st) P tf"

definition counting_unregister :: "(id_source transient_state, linux) unregister_op" where
  "counting_unregister st P = transient_unregister id_unregister (count_call st) P"

definition counting_ops :: "(id_source transient_state, nat, linux, u32) loop_ops" where
  "counting_ops =
     \<lparr>so_process = counting_process (\<lambda>got_id L. L\<lparr>lp_data := got_id\<rparr>) loop_system, so_register = counting_register,
      so_reregister = counting_reregister, so_unregister = counting_unregister, so_needs_extra = default_needs_extra,
      so_before_sleep = default_before_sleep, so_before_handle = default_before_handle\<rparr>"

definition test_transient_map :: "linux \<Rightarrow> unit program" where
  "test_transient_map p =
     expect_new (test_new p 0) (\<lambda>L.
     expect (test_make_ping L) (\<lambda>(pinger, ping) L.
     let outer = transient_from \<lparr>is_id = 0, is_ping = ping\<rparr> in
     expect (register_new counting_ops outer L) (\<lambda>(dispatcher, token) L.
     let L = send_ping pinger L in
     expect (test_dispatch counting_ops (Some 0) L) (\<lambda>_ L.
     assert_that (lp_data L = 1) (
     let L = send_ping pinger L in
     expect (test_dispatch counting_ops (Some 0) L) (\<lambda>_ L.
     assert_that (lp_data L = 2) (
     let L = send_ping pinger L in
     expect (test_dispatch counting_ops (Some 0) L) (\<lambda>_ L.
     assert_that (lp_data L = 3) (
     let L = send_ping pinger L in
     expect (test_dispatch counting_ops (Some 0) L) (\<lambda>_ L.
     assert_that (lp_data L = 3) (
     expect (handle_remove LXP counting_ops token L) (\<lambda>_ L.
     expect (take_source dispatcher L) (\<lambda>top_after L.
     assert_that (fst (transient_map (\<lambda>inner. ((), inner)) top_after) = None) (Ok ()))))))))))))))"

lemmas run_transients = transient_ops_def transient_source_defs transient_from_def transient_is_none_def child_dropped_def
  source_in_def then_action_def test_source_ops_def disabling_source_ops_def

lemma transient_tests:
  assumes "lx_regs p = []"
  shows "test_transient_drop p = Ok ()" "test_transient_disable p = Ok ()"
  using assms
  by (simp_all add: test_transient_drop_def test_transient_disable_def run_transients run_calls run_table run_dispatch run_pings run_timers)

lemma transient_passthrough_test:
  assumes "lx_regs p = []"
  shows "test_transient_passthrough p = Ok ()"
  using assms
  by (simp add: test_transient_passthrough_def run_transients run_channels run_calls run_table run_dispatch run_pings run_timers)

lemma transient_map_test:
  assumes "lx_regs p = []"
  shows "test_transient_map p = Ok ()"
  using assms
  by (simp add: test_transient_map_def counting_ops_def counting_process_def counting_register_def counting_reregister_def
      counting_unregister_def count_call_def id_process_def id_register_def id_unregister_def id_reregister_def
      run_transients run_calls run_table run_dispatch run_pings run_timers run_dispatchers)

section \<open>test_transient_replace_unregister\<close>

text \<open>
  A wrapper's \<open>process_events\<close> gives its child a callback that also sets a local variable of its own:
  the child's world is the wrapper's with that variable beside it.
\<close>

definition beside :: "('w, 'a) access \<Rightarrow> ('v \<times> 'w, 'a) access" where
  "beside a = \<lparr>acc_get = (\<lambda>(v, w). acc_get a w), acc_put = (\<lambda>x (v, w). (v, acc_put a x w))\<rparr>"

text \<open>
  \<open>FinishImmediatelySource\<close>: one event with its number, then it is done. Its field \<open>registered\<close> is read
  by its \<open>Drop\<close>, when the wrapper has lost the source: the flags of the inner sources are therefore kept
  by the wrapper, under the descriptor of each, and are handed to their calls beside the poller.
\<close>

record finish_source =
  fi_source :: eventfd_source
  fi_data :: "int option"

definition finish_new :: "eventfd_source \<Rightarrow> int \<Rightarrow> finish_source" where
  "finish_new source dat = \<lparr>fi_source = source, fi_data = Some dat\<rparr>"

definition finish_fd :: "finish_source \<Rightarrow> raw_fd" where
  "finish_fd src = (case gn_file (fi_source src) of Some fd \<Rightarrow> fd | None \<Rightarrow> 0)"

definition with_flags :: "'x \<Rightarrow> 'p poll \<Rightarrow> ('p \<times> 'x) poll" where
  "with_flags x P = \<lparr>poller = (poller P, x), level_triggered = level_triggered P, timers = timers P\<rparr>"

definition without_flags :: "('p \<times> 'x) poll \<Rightarrow> 'p poll" where
  "without_flags P = \<lparr>poller = fst (poller P), level_triggered = level_triggered P, timers = timers P\<rparr>"

definition flags_of :: "('p \<times> 'x) poll \<Rightarrow> 'x" where
  "flags_of P = snd (poller P)"

definition finish_process :: "(int \<Rightarrow> 'w \<Rightarrow> 'w) \<Rightarrow> ('w, linux) access \<Rightarrow> (finish_source, 'w) process_op" where
  "finish_process callback sys src rd token w =
     (case eventfd_process LXE sys (fi_source src) rd token
             (\<lambda>dat w. case dat of Some d \<Rightarrow> (None, callback d w) | None \<Rightarrow> (None, w)) (fi_data src) w of
        (Ok _, s', dat, w') \<Rightarrow>
          (Ok (if dat = None then Remove else Continue), src\<lparr>fi_source := s', fi_data := dat\<rparr>, w')
      | (r, s', _, w') \<Rightarrow> (r, src\<lparr>fi_source := s', fi_data := None\<rparr>, w'))"

definition finish_register :: "(finish_source, linux \<times> (raw_fd \<Rightarrow> bool)) register_op" where
  "finish_register src P tf =
     (case eventfd_register LXP (fi_source src) (without_flags P) tf of
        (r, s', P', tf') \<Rightarrow> (r, src\<lparr>fi_source := s'\<rparr>, with_flags ((flags_of P)(finish_fd src := True)) P', tf'))"

definition finish_reregister :: "(finish_source, linux \<times> (raw_fd \<Rightarrow> bool)) register_op" where
  "finish_reregister src P tf =
     (case eventfd_reregister LXP (fi_source src) (without_flags P) tf of
        (r, s', P', tf') \<Rightarrow> (r, src\<lparr>fi_source := s'\<rparr>, with_flags (flags_of P) P', tf'))"

definition finish_unregister :: "(finish_source, linux \<times> (raw_fd \<Rightarrow> bool)) unregister_op" where
  "finish_unregister src P =
     (case eventfd_unregister LXP (fi_source src) (without_flags P) of
        (r, s', P') \<Rightarrow> (r, src\<lparr>fi_source := s'\<rparr>, with_flags ((flags_of P)(finish_fd src := False)) P'))"

text \<open>\<open>WrapperSource\<close>: when its child has fired it puts the replacement in its place.\<close>

record replacing_source =
  wr_current :: "finish_source transient_state"
  wr_replacement :: "finish_source option"
  wr_flags :: "raw_fd \<Rightarrow> bool"

definition replacing_new :: "finish_source \<Rightarrow> finish_source \<Rightarrow> replacing_source" where
  "replacing_new first second = \<lparr>wr_current = transient_from first, wr_replacement = Some second, wr_flags = (\<lambda>_. False)\<rparr>"

text \<open>The inner sources that the wrapper owns; those that it loses in a call are dropped.\<close>

definition wrapper_owns :: "replacing_source \<Rightarrow> raw_fd list" where
  "wrapper_owns src =
     map finish_fd (transient_children (wr_current src) @ (case wr_replacement src of Some c \<Rightarrow> [c] | None \<Rightarrow> []))"

text \<open>\<open>Drop\<close> of \<open>FinishImmediatelySource\<close>: a source dropped while still registered is a failed assertion.\<close>

definition finish_drop :: "replacing_source \<Rightarrow> replacing_source \<Rightarrow> ('e, 'a) outcome \<Rightarrow> ('e, 'a) outcome" where
  "finish_drop src src' r =
     (if list_all (\<lambda>fd. fd \<in> set (wrapper_owns src') \<or> \<not> wr_flags src' fd) (wrapper_owns src) then r else Panic)"

definition replacing_process :: "(int \<Rightarrow> 'w \<Rightarrow> 'w) \<Rightarrow> ('w, linux) access \<Rightarrow> (replacing_source, 'w) process_op" where
  "replacing_process callback sys src rd token w =
     (case transient_process (finish_process (\<lambda>dat (fired, w). (True, callback dat w)) (beside sys)) (wr_current src) rd token (False, w) of
        (Ok post_action, current, (fired, w')) \<Rightarrow>
          if fired then
            (let src' = (case wr_replacement src of
                           Some replacement \<Rightarrow> src\<lparr>wr_current := transient_replace replacement current, wr_replacement := None\<rparr>
                         | None \<Rightarrow> src\<lparr>wr_current := current\<rparr>) in
             (finish_drop src src' (if post_action = Reregister then Ok post_action else Panic), src', w'))
          else (Ok post_action, src\<lparr>wr_current := current\<rparr>, w')
      | (r, current, (_, w')) \<Rightarrow> (r, src\<lparr>wr_current := current\<rparr>, w'))"

definition replacing_register :: "(replacing_source, linux) register_op" where
  "replacing_register src P tf =
     (case transient_register finish_register (wr_current src) (with_flags (wr_flags src) P) tf of
        (r, s', P', tf') \<Rightarrow>
          (let src' = src\<lparr>wr_current := s', wr_flags := flags_of P'\<rparr> in (finish_drop src src' r, src', without_flags P', tf')))"

definition replacing_reregister :: "(replacing_source, linux) register_op" where
  "replacing_reregister src P tf =
     (case transient_reregister finish_register finish_reregister finish_unregister (wr_current src) (with_flags (wr_flags src) P) tf of
        (r, s', P', tf') \<Rightarrow>
          (let src' = src\<lparr>wr_current := s', wr_flags := flags_of P'\<rparr> in (finish_drop src src' r, src', without_flags P', tf')))"

definition replacing_unregister :: "(replacing_source, linux) unregister_op" where
  "replacing_unregister src P =
     (case transient_unregister finish_unregister (wr_current src) (with_flags (wr_flags src) P) of
        (r, s', P') \<Rightarrow>
          (let src' = src\<lparr>wr_current := s', wr_flags := flags_of P'\<rparr> in (finish_drop src src' r, src', without_flags P')))"

definition replacing_ops :: "(replacing_source, nat, linux, int option) loop_ops" where
  "replacing_ops =
     \<lparr>so_process = replacing_process (\<lambda>dat L. signal_stop (L\<lparr>lp_data := Some dat\<rparr>)) loop_system,
      so_register = replacing_register, so_reregister = replacing_reregister, so_unregister = replacing_unregister,
      so_needs_extra = default_needs_extra, so_before_sleep = default_before_sleep, so_before_handle = default_before_handle\<rparr>"

text \<open>
  Whether the wrapper still owns the inner source over the descriptor \<open>fd\<close>, and whether the loop still
  owns the wrapper.
\<close>

definition inner_owned :: "raw_fd \<Rightarrow> (replacing_source, int option) test_loop \<Rightarrow> bool" where
  "inner_owned fd L = (case source_in 0 L of None \<Rightarrow> False | Some wrapper \<Rightarrow> fd \<in> set (wrapper_owns wrapper))"

text \<open>At the end of the test the loop is dropped, and the wrapper with what it still owns.\<close>

definition drop_wrapper :: "(replacing_source, int option) test_loop \<Rightarrow> unit program" where
  "drop_wrapper L =
     (case source_in 0 L of
        None \<Rightarrow> Ok ()
      | Some wrapper \<Rightarrow> finish_drop wrapper (wrapper\<lparr>wr_current := TNone, wr_replacement := None\<rparr>) (Ok ()))"

definition outer_owned :: "registration_token \<Rightarrow> (replacing_source, int option) test_loop \<Rightarrow> bool" where
  "outer_owned token L = (sl_lookup (lp_sources L) token = Some 0)"

definition test_transient_replace_unregister :: "nat \<Rightarrow> linux \<Rightarrow> unit program" where
  "test_transient_replace_unregister m p =
     expect_new (test_new p None) (\<lambda>L.
     expect (test_make_ping L) (\<lambda>(ping0_tx, ping0_rx) L.
     expect (test_make_ping L) (\<lambda>(ping1_tx, ping1_rx) L.
     let inner0 = finish_new ping0_rx 0; inner1 = finish_new ping1_rx 1; outer = replacing_new inner0 inner1 in
     expect (insert_source replacing_ops outer L) (\<lambda>token L.
     let L = send_ping ping1_tx (send_ping ping0_tx L) in
     expect (run LXP replacing_ops (\<lambda>_ L. L) 1 m None (\<lambda>L. L) L) (\<lambda>_ L.
     assert_that (lp_data L = Some 0) (
     let L = L\<lparr>lp_data := None\<rparr> in
     assert_that (outer_owned token L) (
     assert_that (\<not> inner_owned ping0_tx L) (
     assert_that (inner_owned ping1_tx L) (
     expect (run LXP replacing_ops (\<lambda>_ L. L) 1 m None (\<lambda>L. L) L) (\<lambda>_ L.
     assert_that (lp_data L = Some 1) (drop_wrapper L)))))))))))"

lemmas run_replacing = replacing_ops_def replacing_process_def replacing_register_def replacing_reregister_def replacing_unregister_def
  replacing_new_def finish_new_def finish_process_def finish_register_def finish_reregister_def finish_unregister_def
  beside_def finish_fd_def with_flags_def without_flags_def flags_of_def transient_children_def wrapper_owns_def
  finish_drop_def drop_wrapper_def inner_owned_def outer_owned_def source_in_def transient_source_defs transient_from_def transient_replace_def
  run_def signal_stop_def

lemma transient_replace_test:
  assumes "lx_regs p = []"
  shows "test_transient_replace_unregister (Suc (Suc m)) p = Ok ()"
  using assms
  by (simp add: test_transient_replace_unregister_def run_replacing run_calls run_table run_dispatch run_pings run_timers)

section \<open>test_transient_remove\<close>

definition STOP_AT :: int where
  "STOP_AT = 2"

text \<open>The \<open>WrapperSource\<close> of this test is its one field.\<close>

type_synonym removing_source = "eventfd_source channel transient_state"

definition removing_process :: "raw_fd \<Rightarrow> (int \<Rightarrow> 'w \<Rightarrow> 'w) \<Rightarrow> ('w, linux) access \<Rightarrow> ('w, int mpsc) access \<Rightarrow> (removing_source, 'w) process_op" where
  "removing_process fd callback sys q inner rd token w =
     (case transient_process
             (channel_process (eventfd_process LXE (beside sys)) (eventfd_ping LXE (beside sys) fd) (beside q)
               (\<lambda>evt (remove, w). case evt of Msg num \<Rightarrow> (STOP_AT \<le> num, callback num w) | Closed \<Rightarrow> (remove, w)))
             inner rd token (False, w) of
        (Ok post_action, inner', (remove, w')) \<Rightarrow>
          if remove then (Ok (post_bitor_assign post_action Reregister), transient_remove inner', w')
          else (Ok post_action, inner', w')
      | (r, inner', (_, w')) \<Rightarrow> (r, inner', w'))"

definition removing_ops :: "raw_fd \<Rightarrow> (removing_source, nat, linux, int mpsc \<times> int option) loop_ops" where
  "removing_ops fd =
     \<lparr>so_process = removing_process fd (\<lambda>num L. L\<lparr>lp_data := (fst (lp_data L), Some num)\<rparr>) loop_system (in_data pair_first),
      so_register = transient_register (channel_register (eventfd_register LXP)),
      so_reregister = transient_reregister (channel_register (eventfd_register LXP)) (channel_reregister (eventfd_reregister LXP))
        (channel_unregister (eventfd_unregister LXP)),
      so_unregister = transient_unregister (channel_unregister (eventfd_unregister LXP)),
      so_needs_extra = default_needs_extra, so_before_sleep = default_before_sleep, so_before_handle = default_before_handle\<rparr>"

text \<open>The receiver of the queue is a field of the channel and is dropped with it.\<close>

definition drop_receiver :: "(removing_source, int mpsc \<times> int option) test_loop \<Rightarrow> (removing_source, int mpsc \<times> int option) test_loop" where
  "drop_receiver L =
     (if child_dropped 0 L then L\<lparr>lp_data := ((fst (lp_data L))\<lparr>mq_receiver := False\<rparr>, snd (lp_data L))\<rparr> else L)"

fun removing_rounds :: "raw_fd \<Rightarrow> int list \<Rightarrow> (removing_source, int mpsc \<times> int option) test_loop
    \<Rightarrow> ((removing_source, int mpsc \<times> int option) test_loop \<Rightarrow> 'r program) \<Rightarrow> 'r program" where
  "removing_rounds sender [] L k = k L"
| "removing_rounds sender (num # nums) L k =
     expect (test_send pair_first sender num L) (\<lambda>_ L.
     expect (test_dispatch (removing_ops sender) (Some 0) L) (\<lambda>_ L.
     assert_that (snd (lp_data L) = Some num) (
     removing_rounds sender nums (drop_receiver (L\<lparr>lp_data := (fst (lp_data L), None)\<rparr>)) k)))"

definition test_transient_remove :: "linux \<Rightarrow> unit program" where
  "test_transient_remove p =
     (let ops = removing_ops (lx_next p) in
      expect_new (test_new p (no_queue, None)) (\<lambda>L.
      expect (test_channel None pair_first L) (\<lambda>(sender, receiver) L.
      expect (insert_source ops (transient_from receiver) L) (\<lambda>_ L.
      removing_rounds sender [0 .. STOP_AT] L (\<lambda>L.
      case test_send pair_first sender (STOP_AT + 1) L of (r, L) \<Rightarrow>
      assert_that (r = Err (STOP_AT + 1)) (Ok ()))))))"

lemma transient_remove_test:
  assumes "lx_regs p = []"
  shows "test_transient_remove p = Ok ()"
proof -
  have upto: "[0 .. 2] = [0, 1, 2 :: int]" by (simp add: upto.simps)
  show ?thesis
    using assms
    by (simp add: test_transient_remove_def upto STOP_AT_def removing_ops_def removing_process_def beside_def drop_receiver_def
        transient_remove_def post_bitor_assign_def post_bitor_def
        run_transients run_channels run_calls run_table run_dispatch run_pings run_timers)
qed

section \<open>Properties\<close>

text \<open>
  The crate's tests of the transient wrapper pass on the reference system when nothing is registered. The
  child that asks to be removed is dropped while its wrapper stays in the loop, and its last event
  is delivered; the parent's changes reach the child until then; a child that asks to be disabled is
  silent until the wrapper is enabled again; a child replaced in its own event is gone and its
  replacement, registered in its place, gets the next event, each within the two rounds of \<open>run\<close>; and a
  removed channel is closed to its sender.
\<close>

theorem transient_tests_pass:
  assumes "lx_regs p = []" and "2 \<le> m"
  shows "test_transient_drop p = Ok () \<and> test_transient_passthrough p = Ok () \<and> test_transient_map p = Ok () \<and>
    test_transient_disable p = Ok () \<and> test_transient_replace_unregister m p = Ok () \<and> test_transient_remove p = Ok ()"
proof -
  obtain m' where "m = Suc (Suc m')" using assms(2) by (metis Suc_le_D numeral_2_eq_2 Suc_le_mono)
  then show ?thesis
    using transient_tests [OF assms(1)] transient_passthrough_test [OF assms(1)] transient_map_test [OF assms(1)]
      transient_replace_test [OF assms(1)] transient_remove_test [OF assms(1)] by simp
qed

theorem transient_tests_pass_witness:
  "test_transient_drop \<lparr>lx_regs = [], lx_counters = \<lambda>_. 0, lx_now = 12, lx_next = 3\<rparr> = Ok ()"
  by (rule transient_tests_pass [where m = 2, THEN conjunct1]) simp_all

end
