(* ===== verification/Signals_Programs.thy ===== *)
theory Signals_Programs
  imports Test_Kit Signals_Source
begin

text \<open>
  \<open>src/tests/signals.rs\<close>: the integration tests of the signal source as programs, on a Linux system with
  signals.
\<close>

section \<open>A system with signals\<close>

text \<open>
  The thread's mask, the pending signals in their order, and those the process got as ordinary
  signals, which would have ended it. A signalfd is readable while a signal it watches is pending.
\<close>

record sigsys =
  ss_regs :: "(raw_fd \<times> pevent \<times> poll_mode) list"
  ss_blocked :: "signal set"
  ss_watched :: "raw_fd \<Rightarrow> signal set option"
  ss_pend :: "signal list"
  ss_lost :: "signal list"
  ss_now :: instant
  ss_next :: raw_fd

definition ss_table :: "sigsys \<Rightarrow> raw_fd \<rightharpoonup> pevent \<times> poll_mode" where
  "ss_table p = map_of (ss_regs p)"

definition ss_watching :: "raw_fd \<Rightarrow> sigsys \<Rightarrow> signal list" where
  "ss_watching fd p = filter (\<lambda>s. case ss_watched p fd of Some m \<Rightarrow> s \<in> m | None \<Rightarrow> False) (ss_pend p)"

definition ss_ready :: "sigsys \<Rightarrow> pevent list" where
  "ss_ready p = map (\<lambda>fd. fst (the (ss_table p fd)))
     (filter (\<lambda>fd. ev_readable (fst (the (ss_table p fd))) \<and> ss_watching fd p \<noteq> []) (remdups (map fst (ss_regs p))))"

definition ss_wait :: "sigsys \<Rightarrow> duration option \<Rightarrow> (io_error + pevent list) \<times> sigsys" where
  "ss_wait p timeout =
     (let evs = ss_ready p in
      (Inr evs, if evs = [] then p\<lparr>ss_now := ss_now p + (case timeout of Some t \<Rightarrow> t | None \<Rightarrow> 0)\<rparr> else p))"

definition SSP :: "sigsys poller_ops" where
  "SSP = \<lparr>pl_now = ss_now, pl_supports_level = (\<lambda>_. True),
     pl_add = (\<lambda>p fd ev m. if ss_table p fd = None then (Inr (), p\<lparr>ss_regs := (fd, ev, m) # ss_regs p\<rparr>) else (Inl AlreadyExists, p)),
     pl_modify = (\<lambda>p fd ev m. if ss_table p fd = None then (Inl NotFound, p) else (Inr (), p\<lparr>ss_regs := (fd, ev, m) # ss_regs p\<rparr>)),
     pl_delete = (\<lambda>p fd. if ss_table p fd = None then (Inl NotFound, p)
        else (Inr (), p\<lparr>ss_regs := filter (\<lambda>(fd', _). fd' \<noteq> fd) (ss_regs p)\<rparr>)),
     pl_wait = ss_wait,
     pl_notify = (\<lambda>p. (Inr (), p))\<rparr>"

text \<open>The numbers of the signals on Linux, on most architectures; 16 and 30 are not in the enumeration.\<close>

definition linux_signals :: "(int \<times> signal) list" where
  "linux_signals =
     [(1, SIGHUP), (2, SIGINT), (3, SIGQUIT), (4, SIGILL), (5, SIGTRAP), (6, SIGABRT), (7, SIGBUS), (8, SIGFPE), (9, SIGKILL),
      (10, SIGUSR1), (11, SIGSEGV), (12, SIGUSR2), (13, SIGPIPE), (14, SIGALRM), (15, SIGTERM), (17, SIGCHLD), (18, SIGCONT),
      (19, SIGSTOP), (20, SIGTSTP), (21, SIGTTIN), (22, SIGTTOU), (23, SIGURG), (24, SIGXCPU), (25, SIGXFSZ), (26, SIGVTALRM),
      (27, SIGPROF), (28, SIGWINCH), (29, SIGIO), (31, SIGSYS)]"

definition signal_number :: "signal \<Rightarrow> int" where
  "signal_number s = (case filter (\<lambda>(_, s'). s' = s) linux_signals of (n, _) # _ \<Rightarrow> n | [] \<Rightarrow> 0)"

definition siginfo_of :: "signal \<Rightarrow> siginfo" where
  "siginfo_of s =
     \<lparr>si_signo = signal_number s, si_errno = 0, si_code = 0, si_pid = 1, si_uid = 0, si_fd = 0, si_tid = 0, si_band = 0,
      si_overrun = 0, si_trapno = 0, si_status = 0\<rparr>"

text \<open>Unblocking a pending signal delivers it; a signal sent while it is not blocked is delivered at once.\<close>

definition ss_unblock :: "sigsys \<Rightarrow> sigset \<Rightarrow> (io_error + unit) \<times> sigsys" where
  "ss_unblock p m =
     (Inr (), p\<lparr>ss_blocked := ss_blocked p - set m, ss_pend := filter (\<lambda>s. s \<notin> set m) (ss_pend p),
                ss_lost := ss_lost p @ filter (\<lambda>s. s \<in> set m) (ss_pend p)\<rparr>)"

definition ss_kill :: "signal \<Rightarrow> sigsys \<Rightarrow> sigsys" where
  "ss_kill s p = (if s \<in> ss_blocked p then p\<lparr>ss_pend := List.insert s (ss_pend p)\<rparr> else p\<lparr>ss_lost := ss_lost p @ [s]\<rparr>)"

definition SSG :: "sigsys signal_ops" where
  "SSG = \<lparr>sg_block = (\<lambda>p m. (Inr (), p\<lparr>ss_blocked := ss_blocked p \<union> maskable (set m)\<rparr>)),
     sg_unblock = ss_unblock,
     sg_open = (\<lambda>p m. if ss_watched p (ss_next p) = None
        then (Inr (ss_next p), p\<lparr>ss_watched := (ss_watched p)(ss_next p \<mapsto> maskable (set m)), ss_next := ss_next p + 1\<rparr>)
        else (Inl AlreadyExists, p)),
     sg_set_mask = (\<lambda>p fd m. if ss_watched p fd = None then (Inl NotFound, p)
        else (Inr (), p\<lparr>ss_watched := (ss_watched p)(fd \<mapsto> maskable (set m))\<rparr>)),
     sg_read = (\<lambda>p fd. case ss_watching fd p of
        [] \<Rightarrow> (Inr None, p)
      | s # _ \<Rightarrow> (Inr (Some (siginfo_of s)), p\<lparr>ss_pend := remove1 s (ss_pend p)\<rparr>))\<rparr>"

lemma SSG_contract:
  "signal_contract SSG ss_blocked ss_watched (\<lambda>p. set (ss_pend p)) (\<lambda>p. set (ss_lost p))"
  by (auto simp: signal_contract_def SSG_def ss_unblock_def)

lemma SSP_simps [simp]:
  "pl_now SSP = ss_now" "pl_supports_level SSP p = True" "pl_wait SSP = ss_wait" "pl_notify SSP p = (Inr (), p)"
  "pl_add SSP p fd ev m = (if ss_table p fd = None then (Inr (), p\<lparr>ss_regs := (fd, ev, m) # ss_regs p\<rparr>) else (Inl AlreadyExists, p))"
  "pl_modify SSP p fd ev m = (if ss_table p fd = None then (Inl NotFound, p) else (Inr (), p\<lparr>ss_regs := (fd, ev, m) # ss_regs p\<rparr>))"
  "pl_delete SSP p fd = (if ss_table p fd = None then (Inl NotFound, p)
     else (Inr (), p\<lparr>ss_regs := filter (\<lambda>(fd', _). fd' \<noteq> fd) (ss_regs p)\<rparr>))"
  by (simp_all add: SSP_def)

section \<open>Signals in programs\<close>

text \<open>The data of the loop: the signal received, and whether an assertion in the callback failed.\<close>

type_synonym sig_loop = "(signals, nat, sigsys, signal option \<times> bool) loop_state"

definition sig_system :: "(sigsys \<Rightarrow> 'a \<times> sigsys) \<Rightarrow> sig_loop \<Rightarrow> 'a \<times> sig_loop" where
  "sig_system f L = (case f (poller (lp_poll L)) of (r, p) \<Rightarrow> (r, L\<lparr>lp_poll := (lp_poll L)\<lparr>poller := p\<rparr>\<rparr>))"

definition sig_ops :: "(siginfo \<Rightarrow> sig_loop \<Rightarrow> sig_loop) \<Rightarrow> (signals, nat, sigsys, signal option \<times> bool) loop_ops" where
  "sig_ops callback =
     \<lparr>so_process = signals_process SSG loop_system callback 3, so_register = signals_register SSP,
      so_reregister = signals_reregister SSP, so_unregister = signals_unregister SSP,
      so_needs_extra = default_needs_extra, so_before_sleep = default_before_sleep, so_before_handle = default_before_handle\<rparr>"

definition sig_dispatch :: "(signals, nat, sigsys, signal option \<times> bool) loop_ops \<Rightarrow> sig_loop \<Rightarrow> unit cresult \<times> sig_loop" where
  "sig_dispatch ops L = dispatch SSP ops (\<lambda>_ L. L) 1 (Some (millis 10)) L"

definition sig_kill :: "signal \<Rightarrow> sig_loop \<Rightarrow> sig_loop" where
  "sig_kill s L = snd (sig_system (\<lambda>p. ((), ss_kill s p)) L)"

text \<open>A call on the source in a dispatcher, through \<open>as_source_mut\<close>.\<close>

definition on_signals :: "nat \<Rightarrow> (signals \<Rightarrow> sigsys \<Rightarrow> unit cresult \<times> signals \<times> sigsys) \<Rightarrow> sig_loop \<Rightarrow> unit cresult \<times> sig_loop" where
  "on_signals dispatcher f L =
     (case cell_val (lp_cells L ! dispatcher) of
        IoDisp _ \<Rightarrow> (Panic, L)
      | SourceDisp di \<Rightarrow>
          (case f (di_source di) (poller (lp_poll L)) of
             (r, src, p) \<Rightarrow>
               (case as_source_mut dispatcher (\<lambda>_. src) (L\<lparr>lp_poll := (lp_poll L)\<lparr>poller := p\<rparr>\<rparr>) of
                  (Ok _, L) \<Rightarrow> (r, L)
                | (e, L) \<Rightarrow> (e, L))))"

definition record_signal :: "siginfo \<Rightarrow> sig_loop \<Rightarrow> sig_loop" where
  "record_signal evt L =
     (case event_signal (map_of linux_signals) evt of
        Ok s \<Rightarrow> L\<lparr>lp_data := (Some s, snd (lp_data L))\<rparr>
      | _ \<Rightarrow> L\<lparr>lp_data := (fst (lp_data L), True)\<rparr>)"

section \<open>The tests\<close>

definition test_single_usr1 :: "sigsys \<Rightarrow> unit program" where
  "test_single_usr1 p =
     (let ops = sig_ops (\<lambda>evt L. case event_signal (map_of linux_signals) evt of
                   Ok s \<Rightarrow> L\<lparr>lp_data := (Some s, snd (lp_data L) \<or> s \<noteq> SIGUSR1)\<rparr>
                 | _ \<Rightarrow> L\<lparr>lp_data := (fst (lp_data L), True)\<rparr>) in
      expect_new (try_new SSP (Inr p) (None, False)) (\<lambda>L.
      expect (sig_system (Signals_new SSG [SIGUSR1]) L) (\<lambda>signals L.
      expect (insert_source ops signals L) (\<lambda>_ L.
      let L = sig_kill SIGUSR1 L in
      expect (sig_dispatch ops L) (\<lambda>_ L.
      assert_that (fst (lp_data L) \<noteq> None) (assert_that (\<not> snd (lp_data L)) (Ok ())))))))"

definition test_usr2_added_afterwards :: "sigsys \<Rightarrow> unit program" where
  "test_usr2_added_afterwards p =
     (let ops = sig_ops record_signal in
      expect_new (try_new SSP (Inr p) (None, False)) (\<lambda>L.
      expect (sig_system (Signals_new SSG [SIGUSR1]) L) (\<lambda>signals L.
      case Dispatcher_new ops signals L of (dispatcher, L) \<Rightarrow>
      expect (register_dispatcher ops dispatcher L) (\<lambda>_ L.
      expect (on_signals dispatcher (add_signals SSG [SIGUSR2]) L) (\<lambda>_ L.
      let L = sig_kill SIGUSR2 L in
      expect (sig_dispatch ops L) (\<lambda>_ L.
      assert_that (fst (lp_data L) = Some SIGUSR2) (assert_that (\<not> snd (lp_data L)) (Ok ()))))))))"

definition test_usr2_signal_removed :: "sigsys \<Rightarrow> unit program" where
  "test_usr2_signal_removed p =
     (let ops = sig_ops record_signal in
      expect_new (try_new SSP (Inr p) (None, False)) (\<lambda>L.
      expect (sig_system (Signals_new SSG [SIGUSR1, SIGUSR2]) L) (\<lambda>signals L.
      case Dispatcher_new ops signals L of (dispatcher, L) \<Rightarrow>
      expect (register_dispatcher ops dispatcher L) (\<lambda>_ L.
      expect (on_signals dispatcher (remove_signals SSG [SIGUSR2]) L) (\<lambda>_ L.
      case sig_system (\<lambda>p. sg_block SSG p [SIGUSR2]) L of (r, L) \<Rightarrow>
      assert_that (r = Inr ()) (
      let L = sig_kill SIGUSR2 L in
      expect (sig_dispatch ops L) (\<lambda>_ L.
      assert_that (fst (lp_data L) = None) (
      expect (on_signals dispatcher (set_signals SSG [SIGUSR2]) L) (\<lambda>_ L.
      expect (sig_dispatch ops L) (\<lambda>_ L.
      assert_that (fst (lp_data L) = Some SIGUSR2) (assert_that (\<not> snd (lp_data L)) (Ok ()))))))))))))"

text \<open>\<open>main\<close> runs the tests in turn; \<open>reset_mask\<close> empties the thread's mask between them.\<close>

definition signals_main :: "sigsys \<Rightarrow> unit program list" where
  "signals_main p = map (\<lambda>test. test (p\<lparr>ss_blocked := {}\<rparr>)) [test_single_usr1, test_usr2_added_afterwards, test_usr2_signal_removed]"

lemmas run_signals = sig_system_def sig_ops_def sig_dispatch_def sig_kill_def on_signals_def record_signal_def as_source_mut_def
  Signals_new_def add_signals_def remove_signals_def set_signals_def sys_then_def with_sfd_def sigset_add_def sigset_remove_def maskable_def
  signals_process_def signals_register_def signals_reregister_def signals_unregister_def event_signal_def signal_from_num_def
  SSG_def ss_unblock_def ss_kill_def ss_wait_def ss_ready_def ss_watching_def ss_table_def siginfo_of_def signal_number_def linux_signals_def
  generic_process_def on_component_def Generic_new_def generic_register_def generic_reregister_def generic_unregister_def
  Poll_register_def Poll_reregister_def Poll_unregister_def track_level_def cvt_mode_def cvt_interest_def Interest_READ_def
  signal_read_loop.simps numeral_3_eq_3

lemma signals_tests:
  assumes "ss_regs p = []" and "ss_pend p = []" and "ss_watched p (ss_next p) = None"
  shows "test_single_usr1 p = Ok ()" "test_usr2_added_afterwards p = Ok ()" "test_usr2_signal_removed p = Ok ()"
  using assms
  by (simp_all add: test_single_usr1_def test_usr2_added_afterwards_def test_usr2_signal_removed_def run_signals
      run_calls run_table run_dispatch run_timers)

section \<open>Properties\<close>

text \<open>
  The integration tests of the signal source pass on the reference system with signals when nothing is
  registered and no signal is pending: a watched signal is received in the dispatch after it was
  sent, so is one that was added later, and one that was removed is not, but is received once the
  source watches it again.
\<close>

theorem signal_tests_pass:
  assumes "ss_regs p = []" and "ss_pend p = []" and "ss_watched p (ss_next p) = None"
  shows "list_all (\<lambda>r. r = Ok ()) (signals_main p)"
  using signals_tests [of "p\<lparr>ss_blocked := {}\<rparr>"] assms by (simp add: signals_main_def)

theorem signal_tests_pass_witness:
  "list_all (\<lambda>r. r = Ok ()) (signals_main \<lparr>ss_regs = [], ss_blocked = {SIGTERM}, ss_watched = \<lambda>_. None, ss_pend = [], ss_lost = [],
     ss_now = 4, ss_next = 3\<rparr>)"
  by (rule signal_tests_pass) simp_all

end
