(* ===== verification/Unix_Programs.thy ===== *)
theory Unix_Programs
  imports Test_Kit Async_Flags
begin

text \<open>
  Programs with sockets: the tests of \<open>src/src/sources/generic.rs\<close>, \<open>change_interests\<close> of
  \<open>src/src/loop_logic.rs\<close> and \<open>double_adapt_io\<close> and \<open>double_adapt_io_error\<close> of \<open>src/src/io.rs\<close>, on a system
  with Unix stream sockets.
\<close>

section \<open>A system with socket pairs\<close>

text \<open>
  A socket has the bytes that wait to be read from it and its peer, an eventfd its counter, and all
  have status flags. The poller reports what a descriptor is registered for and ready for; a one-shot registration is then
  disarmed. A write goes to the peer and is never short.
\<close>

record unix =
  ux_regs :: "(raw_fd \<times> pevent \<times> poll_mode) list"
  ux_inbox :: "raw_fd \<Rightarrow> nat list"
  ux_peer :: "raw_fd \<Rightarrow> raw_fd"
  ux_counters :: "raw_fd \<Rightarrow> u64"
  ux_flags :: "raw_fd \<Rightarrow> 32 word"
  ux_now :: instant
  ux_next :: raw_fd

definition ux_table :: "unix \<Rightarrow> raw_fd \<rightharpoonup> pevent \<times> poll_mode" where
  "ux_table p = map_of (ux_regs p)"

text \<open>A socket is always writable.\<close>

definition ux_event :: "unix \<Rightarrow> raw_fd \<Rightarrow> pevent" where
  "ux_event p fd =
     (let ev = fst (the (ux_table p fd)) in
      \<lparr>ev_key = ev_key ev, ev_readable = ev_readable ev \<and> (ux_inbox p fd \<noteq> [] \<or> ux_counters p fd \<noteq> 0), ev_writable = ev_writable ev\<rparr>)"

definition ux_ready :: "unix \<Rightarrow> raw_fd list" where
  "ux_ready p = filter (\<lambda>fd. ev_readable (ux_event p fd) \<or> ev_writable (ux_event p fd)) (remdups (map fst (ux_regs p)))"

definition ux_disarm :: "raw_fd list \<Rightarrow> raw_fd \<times> pevent \<times> poll_mode \<Rightarrow> raw_fd \<times> pevent \<times> poll_mode" where
  "ux_disarm fds = (\<lambda>(fd, ev, m).
     (fd, if m = PollOneshot \<and> fd \<in> set fds then ev\<lparr>ev_readable := False, ev_writable := False\<rparr> else ev, m))"

definition ux_wait :: "unix \<Rightarrow> duration option \<Rightarrow> (io_error + pevent list) \<times> unix" where
  "ux_wait p timeout =
     (let fds = ux_ready p in
      (Inr (map (ux_event p) fds),
       p\<lparr>ux_regs := map (ux_disarm fds) (ux_regs p),
         ux_now := (if fds = [] then ux_now p + (case timeout of Some t \<Rightarrow> t | None \<Rightarrow> 0) else ux_now p)\<rparr>))"

definition UXP :: "unix poller_ops" where
  "UXP = \<lparr>pl_now = ux_now, pl_supports_level = (\<lambda>_. True),
     pl_add = (\<lambda>p fd ev m. if ux_table p fd = None then (Inr (), p\<lparr>ux_regs := (fd, ev, m) # ux_regs p\<rparr>) else (Inl AlreadyExists, p)),
     pl_modify = (\<lambda>p fd ev m. if ux_table p fd = None then (Inl NotFound, p) else (Inr (), p\<lparr>ux_regs := (fd, ev, m) # ux_regs p\<rparr>)),
     pl_delete = (\<lambda>p fd. if ux_table p fd = None then (Inl NotFound, p)
        else (Inr (), p\<lparr>ux_regs := filter (\<lambda>(fd', _). fd' \<noteq> fd) (ux_regs p)\<rparr>)),
     pl_wait = ux_wait,
     pl_notify = (\<lambda>p. (Inr (), p))\<rparr>"

definition UXF :: "unix fcntl_ops" where
  "UXF = \<lparr>fc_getfl = (\<lambda>p fd. (Inr (ux_flags p fd), p)),
     fc_setfl = (\<lambda>p fd n. (Inr (), p\<lparr>ux_flags := (ux_flags p)(fd := n)\<rparr>)), fc_nonblock = 2048\<rparr>"

definition ux_pair :: "unix \<Rightarrow> (raw_fd \<times> raw_fd) \<times> unix" where
  "ux_pair p =
     (let a = ux_next p; b = a + 1 in
      ((a, b), p\<lparr>ux_inbox := (ux_inbox p)(a := [], b := []), ux_counters := (ux_counters p)(a := 0, b := 0), ux_peer := (ux_peer p)(a := b, b := a),
                 ux_flags := (ux_flags p)(a := 2, b := 2), ux_next := b + 1\<rparr>))"

definition ux_write :: "raw_fd \<Rightarrow> nat list \<Rightarrow> unix \<Rightarrow> (io_error + nat) \<times> unix" where
  "ux_write fd bytes p =
     (Inr (length bytes), p\<lparr>ux_inbox := (ux_inbox p)(ux_peer p fd := ux_inbox p (ux_peer p fd) @ bytes)\<rparr>)"

definition ux_read :: "raw_fd \<Rightarrow> nat \<Rightarrow> unix \<Rightarrow> (io_error + nat list) \<times> unix" where
  "ux_read fd len p =
     (if ux_inbox p fd = [] then (Inl WouldBlock, p)
      else (Inr (take len (ux_inbox p fd)), p\<lparr>ux_inbox := (ux_inbox p)(fd := drop len (ux_inbox p fd))\<rparr>))"

definition UXE :: "unix eventfd_ops" where
  "UXE = \<lparr>ef_create = (\<lambda>p. (Inr (ux_next p), p\<lparr>ux_inbox := (ux_inbox p)(ux_next p := []),
       ux_counters := (ux_counters p)(ux_next p := 0), ux_next := ux_next p + 1\<rparr>)),
     ef_write = (\<lambda>p fd v. case ef_write EFK (ux_counters p) fd v of (r, c) \<Rightarrow> (r, p\<lparr>ux_counters := c\<rparr>)),
     ef_read = (\<lambda>p fd. case ef_read EFK (ux_counters p) fd of (r, c) \<Rightarrow> (r, p\<lparr>ux_counters := c\<rparr>))\<rparr>"

text \<open>It is a system of the kind that the contracts describe.\<close>

lemma ux_wait_table: "dom (ux_table (snd (ux_wait p t))) = dom (ux_table p)"
proof -
  have "dom (map_of (map (ux_disarm fds) rs)) = dom (map_of rs)" for fds rs
    by (simp add: dom_map_of_conv_image_fst image_image ux_disarm_def case_prod_beta)
  then show ?thesis by (simp add: ux_table_def ux_wait_def Let_def)
qed

lemma UXP_contract: "poller_contract UXP ux_table"
proof -
  have key: "\<exists>fd' e. (\<exists>m. ux_table p fd' = Some (e, m)) \<and> ev_key e = ev_key (ux_event p fd)" if "fd \<in> set (ux_ready p)" for p fd
  proof -
    from that have "fd \<in> fst ` set (ux_regs p)" by (auto simp: ux_ready_def)
    then obtain e m where "ux_table p fd = Some (e, m)" by (metis ux_table_def map_of_eq_None_iff not_None_eq prod.collapse)
    then show ?thesis by (intro exI [of _ fd] exI [of _ e]) (simp add: ux_event_def Let_def)
  qed
  have "case ux_wait p t of
        (Inl _, p') \<Rightarrow> dom (ux_table p') = dom (ux_table p) \<and> ux_now p \<le> ux_now p'
      | (Inr evs, p') \<Rightarrow> dom (ux_table p') = dom (ux_table p) \<and> ux_now p \<le> ux_now p' \<and>
          (\<forall>ev \<in> set evs. \<exists>fd e m. ux_table p fd = Some (e, m) \<and> ev_key e = ev_key ev)" for p t
    using ux_wait_table [of p t] key [of _ p] by (simp add: ux_wait_def Let_def)
  moreover have "pl_wait UXP = ux_wait" "pl_now UXP = ux_now" by (simp_all add: UXP_def)
  ultimately show ?thesis
    unfolding poller_contract_def by (simp_all only: simp_thms) (simp add: UXP_def ux_table_def map_of_filter_fst)
qed

lemma UXE_contract: "eventfd_contract UXE fd (\<lambda>p. ux_counters p fd)"
  by (simp add: eventfd_contract_def UXE_def EFK_def)

lemma UXF_contract: "fcntl_contract UXF ux_flags (\<lambda>_. UNIV)" "keeps_flags UXP ux_flags (\<lambda>_. UNIV)"
proof -
  have "(2048 :: 32 word) = push_bit 11 1" by simp
  then show "fcntl_contract UXF ux_flags (\<lambda>_. UNIV)" unfolding fcntl_contract_def UXF_def
    by (auto intro!: exI [of _ "11 :: nat"])
  show "keeps_flags UXP ux_flags (\<lambda>_. UNIV)" by (simp add: keeps_flags_def UXP_def)
qed

lemma UXP_simps [simp]:
  "pl_now UXP = ux_now" "pl_supports_level UXP p = True" "pl_wait UXP = ux_wait" "pl_notify UXP p = (Inr (), p)"
  "pl_add UXP p fd ev m = (if ux_table p fd = None then (Inr (), p\<lparr>ux_regs := (fd, ev, m) # ux_regs p\<rparr>) else (Inl AlreadyExists, p))"
  "pl_modify UXP p fd ev m = (if ux_table p fd = None then (Inl NotFound, p) else (Inr (), p\<lparr>ux_regs := (fd, ev, m) # ux_regs p\<rparr>))"
  "pl_delete UXP p fd = (if ux_table p fd = None then (Inl NotFound, p)
     else (Inr (), p\<lparr>ux_regs := filter (\<lambda>(fd', _). fd' \<noteq> fd) (ux_regs p)\<rparr>))"
  by (simp_all add: UXP_def)

section \<open>Sockets in programs\<close>

type_synonym ('s, 'd) unix_loop = "('s, nat, unix, 'd) loop_state"

definition unix_new :: "unix \<Rightarrow> 'd \<Rightarrow> ('s, 'd) unix_loop cresult" where
  "unix_new p dat = try_new UXP (Inr p) dat"

definition unix_dispatch :: "('s, nat, unix, 'd) loop_ops \<Rightarrow> duration option \<Rightarrow> ('s, 'd) unix_loop
    \<Rightarrow> unit cresult \<times> ('s, 'd) unix_loop" where
  "unix_dispatch ops timeout L = dispatch UXP ops (\<lambda>_ L. L) 1 timeout L"

definition unwrap_io :: "(io_error + 'a) \<times> 'w \<Rightarrow> (io_error, 'a) outcome \<times> 'w" where
  "unwrap_io q = (case q of (Inr a, w) \<Rightarrow> (Ok a, w) | (Inl e, w) \<Rightarrow> (Err e, w))"

definition stream_pair :: "('s, 'd) unix_loop \<Rightarrow> (raw_fd \<times> raw_fd) \<times> ('s, 'd) unix_loop" where
  "stream_pair L = with_system ux_pair L"

definition stream_write :: "raw_fd \<Rightarrow> nat list \<Rightarrow> ('s, 'd) unix_loop \<Rightarrow> (io_error, nat) outcome \<times> ('s, 'd) unix_loop" where
  "stream_write fd bytes L = unwrap_io (with_system (ux_write fd bytes) L)"

definition stream_read :: "raw_fd \<Rightarrow> nat \<Rightarrow> ('s, 'd) unix_loop \<Rightarrow> (io_error + nat list) \<times> ('s, 'd) unix_loop" where
  "stream_read fd len L = with_system (ux_read fd len) L"

lemmas run_unix = unix_new_def unix_dispatch_def unwrap_io_def stream_pair_def stream_write_def stream_read_def with_system_def
  ux_pair_def ux_write_def ux_read_def ux_wait_def ux_ready_def ux_event_def ux_table_def ux_disarm_def

section \<open>Tests of the generic source\<close>

text \<open>The callback of the tests reads six bytes; a failed assertion is a panic.\<close>

definition read_six :: "(raw_fd, io_error, ('s, bool) unix_loop) generic_callback" where
  "read_six readiness file L =
     (if \<not> rd_readable readiness \<or> rd_writable readiness then (Panic, file, L)
      else case stream_read file 10 L of
             (Inr bytes, L) \<Rightarrow>
               (if bytes = [1, 2, 3, 4, 5, 6] then (Ok Continue, file, L\<lparr>lp_data := True\<rparr>) else (Panic, file, L))
           | (Inl _, L) \<Rightarrow> (Panic, file, L))"

definition read_ops :: "(raw_fd generic, nat, unix, bool) loop_ops" where
  "read_ops = generic_ops UXP (\<lambda>fd. fd) BIo read_six"

definition test_dispatch_unix :: "unix \<Rightarrow> unit program" where
  "test_dispatch_unix p =
     expect_new (unix_new p False) (\<lambda>L.
     case stream_pair L of ((tx, rx), L) \<Rightarrow>
     let generic = Generic_new rx Interest_READ Level in
     expect (insert_source read_ops generic L) (\<lambda>_ L.
     expect (unix_dispatch read_ops (Some 0) L) (\<lambda>_ L.
     assert_that (\<not> lp_data L) (
     expect (stream_write tx [1, 2, 3, 4, 5, 6] L) (\<lambda>ret L.
     assert_that (ret = 6) (
     expect (unix_dispatch read_ops (Some 0) L) (\<lambda>_ L.
     assert_that (lp_data L) (Ok ()))))))))"

text \<open>
  \<open>register_deregister_unix\<close>: the callback of its \<open>Dispatcher\<close> only sets the flag. The source is
  taken out of the dispatcher and inserted with the other callback.
\<close>

definition flag_ops :: "(raw_fd generic, nat, unix, bool) loop_ops" where
  "flag_ops = generic_ops UXP (\<lambda>fd. fd) BIo (\<lambda>_ fd L. (Ok Continue, fd, L\<lparr>lp_data := True\<rparr>))"

definition two_generics :: "(raw_fd generic + raw_fd generic, nat, unix, bool) loop_ops" where
  "two_generics = sum_ops (generic_ops UXP (\<lambda>fd. fd) BIo (\<lambda>_ fd L. (Ok Continue, fd, L\<lparr>lp_data := True\<rparr>)))
     (generic_ops UXP (\<lambda>fd. fd) BIo read_six)"

definition test_register_deregister_unix :: "unix \<Rightarrow> unit program" where
  "test_register_deregister_unix p =
     (let ops = two_generics in
      expect_new (unix_new p False) (\<lambda>L.
      case stream_pair L of ((tx, rx), L) \<Rightarrow>
      let generic = Generic_new rx Interest_READ Level in
      case Dispatcher_new ops (Inl generic) L of (dispatcher, L) \<Rightarrow>
      expect (register_dispatcher ops dispatcher L) (\<lambda>generic_token L.
      expect (unix_dispatch ops (Some 0) L) (\<lambda>_ L.
      assert_that (\<not> lp_data L) (
      expect (handle_remove UXP ops generic_token L) (\<lambda>_ L.
      expect (stream_write tx [1, 2, 3, 4, 5, 6] L) (\<lambda>ret L.
      assert_that (ret = 6) (
      expect (unix_dispatch ops (Some 0) L) (\<lambda>_ L.
      assert_that (\<not> lp_data L) (
      expect (into_source_inner 0 dispatcher L, L) (\<lambda>source L.
      case source of
        Inr _ \<Rightarrow> Panic
      | Inl generic \<Rightarrow>
          expect (insert_source ops (Inr generic) L) (\<lambda>_ L.
          expect (unix_dispatch ops (Some 0) L) (\<lambda>_ L.
          assert_that (lp_data L) (Ok ()))))))))))))))"

text \<open>\<open>duplicate_insert\<close>: a source whose registration failed is given back and dropped.\<close>

definition test_duplicate_insert :: "unix \<Rightarrow> unit program" where
  "test_duplicate_insert p =
     expect_new (unix_new p False) (\<lambda>L.
     case stream_pair L of ((_, rx), L) \<Rightarrow>
     expect (insert_source flag_ops (Generic_new rx Interest_READ Level) L) (\<lambda>token L.
     case insert_source flag_ops (Generic_new rx Interest_READ Level) L of (ret, L) \<Rightarrow>
     assert_that (\<not> is_ok ret) (
     expect (handle_update flag_ops token L) (\<lambda>_ L. (Ok ())))))"

lemmas run_generic = generic_ops_def box_process_def generic_process_def Generic_new_def generic_register_def generic_reregister_def
  generic_unregister_def Poll_register_def Poll_reregister_def Poll_unregister_def track_level_def cvt_mode_def cvt_interest_def
  Interest_READ_def Interest_WRITE_def

lemma generic_tests:
  assumes "ux_regs p = []"
  shows "test_dispatch_unix p = Ok ()" "test_duplicate_insert p = Ok ()" "test_register_deregister_unix p = Ok ()"
  using assms
  by (simp_all add: test_dispatch_unix_def test_duplicate_insert_def test_register_deregister_unix_def read_ops_def read_six_def
      flag_ops_def two_generics_def sum_result_def run_unix run_generic run_calls run_table run_dispatch run_timers)

section \<open>A change of interest\<close>

text \<open>The loop of the callback reads until nothing is left; \<open>n\<close> bounds its rounds.\<close>

fun recv_all :: "nat \<Rightarrow> raw_fd \<Rightarrow> ('s, 'd) unix_loop \<Rightarrow> (io_error, post_action) outcome \<times> ('s, 'd) unix_loop" where
  "recv_all 0 fd L = (Diverge, L)"
| "recv_all (Suc n) fd L =
     (case stream_read fd 32 L of
        (Inr [], L) \<Rightarrow> (Ok Continue, L)
      | (Inr _, L) \<Rightarrow> recv_all n fd L
      | (Inl e, L) \<Rightarrow> if e = WouldBlock then (Ok Continue, L) else (Err e, L))"

definition drain_ops :: "nat \<Rightarrow> (raw_fd generic, nat, unix, bool) loop_ops" where
  "drain_ops n = generic_ops UXP (\<lambda>fd. fd) BIo
     (\<lambda>_ fd L. case recv_all n fd (L\<lparr>lp_data := True\<rparr>) of (r, L) \<Rightarrow> (r, fd, L))"

definition test_change_interests :: "nat \<Rightarrow> unix \<Rightarrow> unit program" where
  "test_change_interests n p =
     (let ops = drain_ops n in
      expect_new (unix_new p False) (\<lambda>L.
      case stream_pair L of ((sock1, sock2), L) \<Rightarrow>
      let source = Generic_new sock1 Interest_READ Level in
      case Dispatcher_new ops source L of (dispatcher, L) \<Rightarrow>
      expect (register_dispatcher ops dispatcher L) (\<lambda>sock_token_1 L.
      expect (unix_dispatch ops (Some 0) (L\<lparr>lp_data := False\<rparr>)) (\<lambda>_ L.
      assert_that (\<not> lp_data L) (
      expect (stream_write sock2 [1, 2, 3] L) (\<lambda>_ L.
      expect (unix_dispatch ops (Some 0) (L\<lparr>lp_data := False\<rparr>)) (\<lambda>_ L.
      assert_that (lp_data L) (
      expect (unix_dispatch ops (Some 0) (L\<lparr>lp_data := False\<rparr>)) (\<lambda>_ L.
      assert_that (\<not> lp_data L) (
      expect (as_source_mut dispatcher (\<lambda>g. g\<lparr>gn_interest := Interest_WRITE\<rparr>) L) (\<lambda>_ L.
      expect (handle_update ops sock_token_1 L) (\<lambda>_ L.
      expect (unix_dispatch ops (Some 0) (L\<lparr>lp_data := False\<rparr>)) (\<lambda>_ L.
      assert_that (lp_data L) (
      expect (as_source_mut dispatcher (\<lambda>g. g\<lparr>gn_interest := Interest_READ\<rparr>) L) (\<lambda>_ L.
      expect (handle_update ops sock_token_1 L) (\<lambda>_ L.
      expect (unix_dispatch ops (Some 0) (L\<lparr>lp_data := False\<rparr>)) (\<lambda>_ L.
      assert_that (\<not> lp_data L) (Ok ()))))))))))))))))))"

lemma change_interests_test:
  assumes "ux_regs p = []"
  shows "test_change_interests (Suc (Suc n)) p = Ok ()"
  using assms
  by (simp add: test_change_interests_def drain_ops_def as_source_mut_def run_unix run_generic run_calls run_table run_dispatch run_timers)

section \<open>Adapters over one descriptor\<close>

definition test_double_adapt_io :: "unix \<Rightarrow> unit program" where
  "test_double_adapt_io p =
     expect_new (unix_new p () :: (nat, unit) unix_loop cresult) (\<lambda>L.
     case stream_pair L of ((socket, _), L) \<Rightarrow>
     expect (adapt_io UXP (set_nonblocking UXF) socket L) (\<lambda>a L.
     expect (async_close UXP (set_nonblocking UXF) a L) (\<lambda>_ L.
     expect (adapt_io UXP (set_nonblocking UXF) socket L) (\<lambda>a L.
     expect (async_close UXP (set_nonblocking UXF) a L) (\<lambda>_ L. (Ok ()))))))"

definition test_double_adapt_io_error :: "unix \<Rightarrow> unit program" where
  "test_double_adapt_io_error p =
     expect_new (unix_new p () :: (nat, unit) unix_loop cresult) (\<lambda>L.
     case stream_pair L of ((socket, _), L) \<Rightarrow>
     expect (adapt_io UXP (set_nonblocking UXF) socket L) (\<lambda>a L.
     case adapt_io UXP (set_nonblocking UXF) socket L of
       (r, L) \<Rightarrow> assert_that (r = Err (IoError AlreadyExists)) (Ok ())))"

lemmas run_adapters = adapt_io_def async_close_def async_drop_def Async_new_def set_nonblocking_def UXF_def
  error_from_io_def io_register_def io_reregister_def io_kill_def io_put_def io_at_def io_disp_new_def

lemma adapt_tests:
  assumes "ux_regs p = []"
  shows "test_double_adapt_io p = Ok ()" "test_double_adapt_io_error p = Ok ()"
  using assms
  by (simp_all add: test_double_adapt_io_def test_double_adapt_io_error_def run_adapters run_unix run_generic run_calls run_table run_dispatch)

end
