(* ===== verification/Executor_Programs.thy ===== *)
theory Executor_Programs
  imports Channel_Programs Executor_Loop Timer_Source
begin

text \<open>
  The tests of \<open>src/src/sources/futures.rs\<close> as programs. The data of the loop is the state of the executor,
  which the scheduler shares, and the value that futures and callback change.
\<close>

definition no_executor :: "'t exec_state" where
  "no_executor = \<lparr>es_incoming = [], es_active = None, es_notified = False, es_receiver = False\<rparr>"

definition test_executor :: "('s, 't exec_state \<times> 'st) test_loop
    \<Rightarrow> (raw_fd \<times> eventfd_source) cresult \<times> ('s, 't exec_state \<times> 'st) test_loop" where
  "test_executor L = executor_new (in_data pair_first) (eventfd_make_ping LXE loop_system) L"

text \<open>\<open>vacant_key\<close> of a slab from which nothing is removed before the last insertion.\<close>

definition test_schedule :: "raw_fd \<Rightarrow> ('s, 't exec_state \<times> 'st) test_loop
    \<Rightarrow> (executor_destroyed, nat) outcome \<times> ('s, 't exec_state \<times> 'st) test_loop" where
  "test_schedule fd L = schedule (in_data pair_first) (eventfd_ping LXE loop_system fd) slab_size L"

text \<open>
  The waker of task \<open>i\<close> is the number \<open>i\<close>: a call of it schedules the task. The calls that sources make
  during a dispatch are carried out before the executor next looks at its queue and before the
  next wait, which nothing between can tell from carrying them out at once.
\<close>

definition deliver_wakes :: "'p eventfd_ops \<Rightarrow> ('d, 't exec_state) access \<Rightarrow> raw_fd
    \<Rightarrow> ('s, 'i, 'p, 'd) loop_state \<Rightarrow> ('s, 'i, 'p, 'd) loop_state" where
  "deliver_wakes E ex fd L =
     fold (\<lambda>i L. snd (exec_wake (in_data ex) (eventfd_ping E loop_system fd) i L)) (lp_woken L) (L\<lparr>lp_woken := []\<rparr>)"

definition waking_executor_ops :: "'p poller_ops \<Rightarrow> 'p eventfd_ops \<Rightarrow> ('d, 't exec_state) access \<Rightarrow> raw_fd
    \<Rightarrow> (nat \<Rightarrow> ('s, 'i, 'p, 'd) loop_state \<Rightarrow> 't option \<times> ('s, 'i, 'p, 'd) loop_state)
    \<Rightarrow> ('t \<Rightarrow> ('s, 'i, 'p, 'd) loop_state \<Rightarrow> ('s, 'i, 'p, 'd) loop_state)
    \<Rightarrow> (eventfd_source, 'p, ('s, 'i, 'p, 'd) loop_state) source_ops" where
  "waking_executor_ops K E ex fd poll_future callback =
     \<lparr>so_process = (\<lambda>src rd token L. executor_process (eventfd_process E loop_system) (eventfd_ping E loop_system fd)
        (in_data ex) poll_future callback src rd token (deliver_wakes E ex fd L)),
      so_register = executor_register (eventfd_register K), so_reregister = executor_reregister (eventfd_reregister K),
      so_unregister = executor_unregister (eventfd_unregister K), so_needs_extra = default_needs_extra,
      so_before_sleep = default_before_sleep, so_before_handle = default_before_handle\<rparr>"

text \<open>\<open>ready\<close>: the future \<open>async { 42 }\<close>.\<close>

definition ready_program :: "(u32, u32) task_program" where
  "ready_program = \<lparr>pr_poll = (\<lambda>_ got. (Some 42, [], got)), pr_callback = (\<lambda>ret got. ([], ret))\<rparr>"

definition test_ready :: "linux \<Rightarrow> unit program" where
  "test_ready p =
     (let ops = executor_ops LXP LXE (lx_next p) pair_first pair_second slab_size ready_program in
      expect_new (test_new p (no_executor, 0)) (\<lambda>L.
      expect (test_executor L) (\<lambda>(sched, exec) L.
      expect (insert_source ops exec L) (\<lambda>_ L.
      expect (test_dispatch ops (Some 0) L) (\<lambda>_ L.
      assert_that (snd (lp_data L) = 0) (
      expect (test_schedule sched L) (\<lambda>_ L.
      expect (test_dispatch ops (Some 0) L) (\<lambda>_ L.
      assert_that (snd (lp_data L) = 42) (Ok ())))))))))"

text \<open>\<open>more_than_1024\<close>: each future counts.\<close>

definition counting_program :: "(unit, nat) task_program" where
  "counting_program = \<lparr>pr_poll = (\<lambda>_ counter. (Some (), [], counter + 1)), pr_callback = (\<lambda>_ counter. ([], counter))\<rparr>"

fun test_schedule_times :: "raw_fd \<Rightarrow> nat \<Rightarrow> ('s, 't exec_state \<times> 'st) test_loop
    \<Rightarrow> (('s, 't exec_state \<times> 'st) test_loop \<Rightarrow> 'r program) \<Rightarrow> 'r program" where
  "test_schedule_times fd 0 L k = k L"
| "test_schedule_times fd (Suc n) L k = expect (test_schedule fd L) (\<lambda>_ L. test_schedule_times fd n L k)"

definition test_executor_more_than_1024 :: "linux \<Rightarrow> unit program" where
  "test_executor_more_than_1024 p =
     (let ops = executor_ops LXP LXE (lx_next p) pair_first pair_second slab_size counting_program in
      expect_new (test_new p (no_executor, 0)) (\<lambda>L.
      expect (test_executor L) (\<lambda>(sched, exec) L.
      expect (insert_source ops exec L) (\<lambda>_ L.
      test_schedule_times sched 1025 L (\<lambda>L.
      expect (test_dispatch ops (Some 0) L) (\<lambda>_ L.
      assert_that (snd (lp_data L) = 1024) (
      expect (test_dispatch ops (Some 0) L) (\<lambda>_ L.
      assert_that (snd (lp_data L) = 1025) (Ok ())))))))))"

section \<open>Running them\<close>

lemmas exec_loop_numeral = exec_loop.simps(2) [where n = "pred_numeral k" for k, folded numeral_eq_Suc]

lemma executor_ops_simps [simp]:
  "so_process (executor_ops K E fd ex sx vk prog) =
     executor_process (eventfd_process E loop_system) (eventfd_ping E loop_system fd) (in_data ex)
       (task_poll prog (in_data ex) (in_data sx) (eventfd_ping E loop_system fd) vk)
       (task_callback prog (in_data ex) (in_data sx) (eventfd_ping E loop_system fd) vk)"
  "so_register (executor_ops K E fd ex sx vk prog) = executor_register (eventfd_register K)"
  "so_reregister (executor_ops K E fd ex sx vk prog) = executor_reregister (eventfd_reregister K)"
  "so_unregister (executor_ops K E fd ex sx vk prog) = executor_unregister (eventfd_unregister K)"
  "so_needs_extra (executor_ops K E fd ex sx vk prog) = default_needs_extra"
  by (simp_all add: executor_ops_def Let_def)

lemma waking_executor_ops_simps [simp]:
  "so_process (waking_executor_ops K E ex fd pf cb) = (\<lambda>src rd token L. executor_process (eventfd_process E loop_system)
     (eventfd_ping E loop_system fd) (in_data ex) pf cb src rd token (deliver_wakes E ex fd L))"
  "so_register (waking_executor_ops K E ex fd pf cb) = executor_register (eventfd_register K)"
  "so_reregister (waking_executor_ops K E ex fd pf cb) = executor_reregister (eventfd_reregister K)"
  "so_unregister (waking_executor_ops K E ex fd pf cb) = executor_unregister (eventfd_unregister K)"
  "so_needs_extra (waking_executor_ops K E ex fd pf cb) = default_needs_extra"
  by (simp_all add: waking_executor_ops_def)

lemmas run_executors = deliver_wakes_def exec_wake_def wake_task_def unfinished_def test_executor_def test_schedule_def no_executor_def executor_new_def schedule_def exec_send_def
  executor_process_def exec_on_ping_def exec_loop_numeral runnable_run_def store_on_drop_def task_poll_def task_callback_def
  slab_insert_def slab_get_def slab_remove_def slab_set_def slab_size_def slab_new_def executor_register_def executor_unregister_def executor_reregister_def

lemma ready_test:
  assumes "lx_regs p = []"
  shows "test_ready p = Ok ()"
  using assms
  by (simp add: test_ready_def ready_program_def pair_first_def pair_second_def run_executors run_calls run_table run_dispatch run_timers run_pings)

text \<open>The tasks of the second test: as many are queued as were scheduled, and each poll counts one.\<close>

lemma test_schedule_times_all:
  fixes L :: "(eventfd_source, 't exec_state \<times> 'st) test_loop"
  assumes "exec_alive pair_first (lp_data L)" and "notified_pings pair_first (lp_data L) (lx_counters (poller (lp_poll L)) fd)"
  shows "test_schedule_times fd n L k = k (fold (task_act (in_data pair_first) (in_data pair_second) (eventfd_ping LXE loop_system fd) slab_size None)
    (replicate n (Spawn (\<lambda>_ st. st))) L)"
  using assms
proof (induction n arbitrary: L)
  case 0
  then show ?case by simp
next
  case (Suc n)
  let ?spawn = "task_act (in_data pair_first) (in_data pair_second) (eventfd_ping LXE loop_system fd) slab_size None (Spawn (\<lambda>_ st. st))"
  have call: "exec_call lx_table (\<lambda>p. lx_counters p fd) pair_first pair_second L
      (rq_act slab_size None (Spawn (\<lambda>_ st. st)) (rq_of pair_first pair_second (lp_data L))) (?spawn L)"
    by (rule linux_loop.act_call [OF pair_ok Suc.prems])
  obtain tasks where tasks: "es_active (fst (lp_data L)) = Some tasks" "es_receiver (fst (lp_data L))"
    using Suc.prems(1) by (auto simp: exec_alive_def pair_first_def)
  have "\<exists>i. test_schedule fd L = (Ok i, ?spawn L)"
    using tasks by (simp add: test_schedule_def schedule_def exec_send_def pair_first_def pair_second_def Let_def)
  then obtain i where i: "test_schedule fd L = (Ok i, ?spawn L)" ..
  have "exec_alive pair_first (lp_data (?spawn L))"
    "notified_pings pair_first (lp_data (?spawn L)) (lx_counters (poller (lp_poll (?spawn L))) fd)"
    using call by (simp_all add: exec_call_def)
  from Suc.IH [OF this] show ?case by (simp add: i expect_def)
qed

definition counted_slab :: "nat \<Rightarrow> unit active slab" where
  "counted_slab n = \<lparr>sb_entries = map (\<lambda>i. Some (Future i)) [0..<n], sb_history = map SlabInsert (rev [0..<n])\<rparr>"

lemma counting_queued:
  "(rq_act slab_size None (Spawn (\<lambda>_ st. st)) ^^ n) \<lparr>rq_queue = [], rq_active = slab_new, rq_st = c\<rparr>
    = \<lparr>rq_queue = [0..<n], rq_active = counted_slab n, rq_st = c\<rparr>"
  by (induction n) (simp_all add: counted_slab_def slab_insert_def slab_size_def slab_new_def Let_def)

lemma counting_polled:
  "rq_queue (rq_steps slab_size counting_program m q) = drop m (rq_queue q) \<and>
   rq_st (rq_steps slab_size counting_program m q) = rq_st q + min m (length (rq_queue q))"
proof (induction m arbitrary: q)
  case (Suc m)
  have "rq_queue (rq_step slab_size counting_program q) = tl (rq_queue q) \<and>
      rq_st (rq_step slab_size counting_program q) = rq_st q + min 1 (length (rq_queue q))"
    by (simp add: rq_step_def counting_program_def split: list.splits)
  with Suc.IH [of "rq_step slab_size counting_program q"] show ?case
    by (cases "rq_queue q") (auto simp: drop_Suc)
qed simp

lemma counting_inv: "rq_inv \<lparr>rq_queue = [0..<n], rq_active = counted_slab n, rq_st = c\<rparr>"
  by (auto simp: rq_inv_def counted_slab_def slab_size_def)

lemma executor_1024_rest:
  fixes L :: "(eventfd_source, unit exec_state \<times> nat) test_loop"
  assumes sv: "serving lx_table fd g g d t L" and "lx_counters (poller (lp_poll L)) fd = 0"
    and data: "lp_data L = (\<lparr>es_incoming = [], es_active = Some slab_new, es_notified = False, es_receiver = True\<rparr>, 0)"
    and ops: "ops = executor_ops LXP LXE fd pair_first pair_second slab_size counting_program"
  shows "test_schedule_times fd 1025 L (\<lambda>L.
      expect (test_dispatch ops (Some 0) L) (\<lambda>_ L.
      assert_that (snd (lp_data L) = 1024) (
      expect (test_dispatch ops (Some 0) L) (\<lambda>_ L.
      assert_that (snd (lp_data L) = 1025) (Ok ()))))) = Ok ()"
proof -
  let ?rq = "\<lambda>L. rq_of pair_first pair_second (lp_data (L :: (eventfd_source, unit exec_state \<times> nat) test_loop))"
  let ?c = "\<lambda>L. lx_counters (poller (lp_poll (L :: (eventfd_source, unit exec_state \<times> nat) test_loop))) fd"
  let ?Q = "\<lparr>rq_queue = [0..<1025], rq_active = counted_slab 1025, rq_st = 0\<rparr> :: (unit, nat) run_queue"
  have start: "exec_alive pair_first (lp_data L)" "notified_pings pair_first (lp_data L) (?c L)"
    "queue_pings pair_first (lp_data L) (?c L)" "?rq L = \<lparr>rq_queue = [], rq_active = slab_new, rq_st = 0\<rparr>"
    using data assms(2) by (simp_all add: exec_alive_def notified_pings_def queue_pings_def rq_of_def pair_first_def pair_second_def)
  obtain L1 where L1: "fold (task_act (in_data pair_first) (in_data pair_second) (eventfd_ping LXE loop_system fd) slab_size None)
      (replicate 1025 (Spawn (\<lambda>_ st. st))) L = L1" by blast
  have queued: "fold (rq_act slab_size None) (replicate 1025 (Spawn (\<lambda>_ st. st))) (?rq L) = ?Q"
    unfolding start(4) fold_replicate by (rule counting_queued)
  have "exec_call lx_table (\<lambda>p. lx_counters p fd) pair_first pair_second L ?Q L1"
    using linux_loop.acts_call [OF pair_ok start(1,2), of slab_size None "replicate 1025 (Spawn (\<lambda>_ st. st))"] unfolding L1 queued .
  then have s1: "loop_frame lx_table L1 = loop_frame lx_table L" "?rq L1 = ?Q" "exec_alive pair_first (lp_data L1)"
    "notified_pings pair_first (lp_data L1) (?c L1)" "queue_pings pair_first (lp_data L1) (?c L1)"
    using start(3) by (simp_all add: exec_call_def)
  have sv1: "serving lx_table fd g g d t L1" using sv serving_frame [OF s1(1)] by blast
  have inv1: "rq_inv (?rq L1)" unfolding s1(2) by (rule counting_inv)
  have vk: "slab_size xs \<le> slab_size xs" for xs :: "unit active slab" by simp
  have "rq_queue (?rq L1) \<noteq> []" unfolding s1(2) by simp
  from linux_loop.executor_dispatch [OF pair_ok vk zero_less_one sv1 s1(3,4,5) inv1 this, of counting_program "\<lambda>_ L. L" "Some 0"]
  obtain L2 where L2: "test_dispatch ops (Some 0) L1 = (Ok (), L2)" "?rq L2 = rq_steps slab_size counting_program 1024 ?Q"
    "exec_alive pair_first (lp_data L2)" "notified_pings pair_first (lp_data L2) (?c L2)"
    "queue_pings pair_first (lp_data L2) (?c L2)" "serving lx_table fd g g d t L2"
    unfolding s1(2) ops test_dispatch_def by blast
  have q2: "rq_queue (?rq L2) = [1024]" "rq_st (?rq L2) = 1024"
    using counting_polled [of 1024 ?Q] unfolding L2(2) by simp_all
  have "rq_inv (rq_steps slab_size counting_program m q)" if "rq_inv q" for m and q :: "(unit, nat) run_queue"
    using that by (induction m arbitrary: q) (simp_all add: rq_step_inv [OF vk])
  from this [OF counting_inv] have inv2: "rq_inv (?rq L2)" unfolding L2(2) .
  have "rq_queue (?rq L2) \<noteq> []" using q2(1) by simp
  from linux_loop.executor_dispatch [OF pair_ok vk zero_less_one L2(6,3,4,5) inv2 this, of counting_program "\<lambda>_ L. L" "Some 0"]
  obtain L3 where L3: "test_dispatch ops (Some 0) L2 = (Ok (), L3)" "?rq L3 = rq_steps slab_size counting_program 1024 (?rq L2)"
    unfolding ops test_dispatch_def by blast
  have "rq_st (?rq L3) = 1025" using counting_polled [of 1024 "?rq L2"] q2 unfolding L3(2) by simp
  then have "snd (lp_data L2) = 1024" "snd (lp_data L3) = 1025" using q2(2) by (simp_all add: rq_of_def pair_second_def)
  then show ?thesis
    by (simp only: test_schedule_times_all [OF start(1,2)] L1) (simp add: L2(1) L3(1) expect_def assert_that_def)
qed

lemma schedule_times_cong:
  "fd = fd' \<Longrightarrow> n = n' \<Longrightarrow> L = L' \<Longrightarrow> test_schedule_times fd n L k = test_schedule_times fd' n' L' k"
  by simp

lemma executor_more_than_1024_test:
  assumes "lx_regs p = []"
  shows "test_executor_more_than_1024 p = Ok ()"
proof -
  have pairs: "acc_get pair_first w = fst w" "acc_put pair_first a w = (a, snd w)" for w :: "'a \<times> 'b" and a
    by (simp_all add: pair_first_def)
  show ?thesis
    unfolding test_executor_more_than_1024_def Let_def
    by (simp add: pairs run_executors run_calls run_table run_dispatch run_timers run_pings assms
        del: test_schedule_times.simps cong: schedule_times_cong)
      (rule executor_1024_rest [where d = 0 and t = "\<lparr>tok_id = 0, tok_version = 0, tok_sub_id = 0\<rparr>" and
          g = "(Generic_new (lx_next p) Interest_READ Level)\<lparr>gn_poller := True,
            gn_token := Some \<lparr>tok_id = 0, tok_version = 0, tok_sub_id = 0\<rparr>\<rparr>"],
        simp_all add: serving_def Generic_new_def Interest_READ_def cvt_interest_def sl_lookup_def sl_get_def vec_get_def get_id_def
          same_source_as_def lx_table_def slab_new_def)
qed

section \<open>Futures of timers\<close>

text \<open>
  \<open>timeout_future\<close> of \<open>src/src/sources/timer.rs\<close>: three \<open>TimeoutFuture\<close>s on an executor. Each has a timer in the
  loop whose callback calls the waker in the slot that it shares with the future.
\<close>

record timeout_data =
  td_exec :: "unit exec_state"
  td_futures :: "timeout_future list"
  td_dispatched :: nat

type_synonym timeout_source = "eventfd_source + timer + timer + timer"

type_synonym timeout_loop = "(timeout_source, timeout_data) test_loop"

definition in_td_exec :: "(timeout_data, unit exec_state) access" where
  "in_td_exec = \<lparr>acc_get = td_exec, acc_put = (\<lambda>x d. d\<lparr>td_exec := x\<rparr>)\<rparr>"

definition timeout_task :: "nat \<Rightarrow> timeout_loop \<Rightarrow> unit option \<times> timeout_loop" where
  "timeout_task i L =
     (case timeout_future_poll (loop_now LXP L) i (td_futures (lp_data L) ! i) of
        (ready, f) \<Rightarrow>
          (if ready then Some () else None, L\<lparr>lp_data := (lp_data L)\<lparr>td_futures := (td_futures (lp_data L))[i := f]\<rparr>\<rparr>))"

definition timeout_timer :: "nat \<Rightarrow> instant \<Rightarrow> timeout_loop \<Rightarrow> timeout_action \<times> timeout_loop" where
  "timeout_timer i deadline L = timeout_callback (tf_waker (td_futures (lp_data L) ! i)) deadline L"

definition timeout_ops :: "raw_fd \<Rightarrow> (timeout_source, nat, linux, timeout_data) loop_ops" where
  "timeout_ops fd =
     sum_ops (waking_executor_ops LXP LXE in_td_exec fd timeout_task
         (\<lambda>_ L. L\<lparr>lp_data := (lp_data L)\<lparr>td_dispatched := td_dispatched (lp_data L) + 1\<rparr>\<rparr>))
       (sum_ops (timer_ops LXP (timeout_timer 0)) (sum_ops (timer_ops LXP (timeout_timer 1)) (timer_ops LXP (timeout_timer 2))))"

definition timeout_dispatch :: "raw_fd \<Rightarrow> duration \<Rightarrow> timeout_loop \<Rightarrow> unit cresult \<times> timeout_loop" where
  "timeout_dispatch fd timeout L =
     (case test_dispatch (timeout_ops fd) (Some timeout) L of (r, L) \<Rightarrow> (r, deliver_wakes LXE in_td_exec fd L))"

definition timeout_schedule :: "raw_fd \<Rightarrow> timeout_loop \<Rightarrow> (executor_destroyed, nat) outcome \<times> timeout_loop" where
  "timeout_schedule fd L = schedule (in_data in_td_exec) (eventfd_ping LXE loop_system fd) slab_size L"

definition test_timeout_future :: "linux \<Rightarrow> unit program" where
  "test_timeout_future p =
     (let ops = timeout_ops (lx_next p) in
      expect_new (test_new p \<lparr>td_exec = no_executor, td_futures = [], td_dispatched = 0\<rparr>) (\<lambda>L.
      expect (TimeoutFuture_from_duration LXP ops (\<lambda>t. Inr (Inl t)) (millis 500) L) (\<lambda>timeout_1 L.
      expect (TimeoutFuture_from_duration LXP ops (\<lambda>t. Inr (Inr (Inl t))) (millis 1500) L) (\<lambda>timeout_2 L.
      expect (TimeoutFuture_from_duration LXP ops (\<lambda>t. Inr (Inr (Inr t))) DURATION_MAX L) (\<lambda>timeout_3 L.
      let L = L\<lparr>lp_data := (lp_data L)\<lparr>td_futures := [timeout_1, timeout_2, timeout_3]\<rparr>\<rparr> in
      expect (executor_new (in_data in_td_exec) (eventfd_make_ping LXE loop_system) L) (\<lambda>(sched, exec) L.
      expect (insert_source ops (Inl exec) L) (\<lambda>_ L.
      expect (timeout_schedule sched L) (\<lambda>_ L.
      expect (timeout_schedule sched L) (\<lambda>_ L.
      expect (timeout_schedule sched L) (\<lambda>_ L.
      expect (timeout_dispatch sched 0 L) (\<lambda>_ L.
      expect (timeout_dispatch sched 0 L) (\<lambda>_ L.
      assert_that (td_dispatched (lp_data L) = 0) (
      expect (timeout_dispatch sched (millis 1000) L) (\<lambda>_ L.
      expect (timeout_dispatch sched 0 L) (\<lambda>_ L.
      assert_that (td_dispatched (lp_data L) = 1) (
      expect (timeout_dispatch sched (millis 1100) L) (\<lambda>_ L.
      expect (timeout_dispatch sched 0 L) (\<lambda>_ L.
      assert_that (td_dispatched (lp_data L) = 2) (Ok ())))))))))))))))))))"

lemma timeout_future_test:
  assumes "lx_regs p = []" and "lx_now p \<le> secs 1000000000"
  shows "test_timeout_future p = Ok ()"
  using assms
  by (simp add: test_timeout_future_def timeout_ops_def timeout_dispatch_def timeout_schedule_def timeout_task_def timeout_timer_def
      timeout_callback_def timeout_future_poll_def TimeoutFuture_from_duration_def TimeoutFuture_from_deadline_inner_def in_td_exec_def
      sum_result_def DURATION_MAX_def run_executors run_calls run_table run_dispatch run_timers run_pings)

section \<open>Properties\<close>

text \<open>
  The crate's tests of channels, executors and timeout futures pass on the reference system when nothing
  is registered.
  Messages and results arrive in the dispatch after they were sent, once, and none without; a full
  bounded channel refuses; the last sender's drop is seen as \<open>Closed\<close> after the messages. Of more
  than 1024 messages, or 1024 futures, one dispatch handles exactly 1024 and the next the rest. A
  timeout future resolves in the second dispatch after its deadline, and one with a deadline past
  the end of time never.
\<close>

theorem queue_tests_pass:
  assumes "lx_regs p = []" and "lx_now p \<le> secs 1000000000"
  shows "test_basic_channel p = Ok () \<and> test_basic_sync_channel p = Ok () \<and> test_more_than_1024 p = Ok () \<and>
    test_ready p = Ok () \<and> test_executor_more_than_1024 p = Ok () \<and> test_timeout_future p = Ok ()"
  using channel_tests [OF assms(1)] more_than_1024_test [OF assms(1)] ready_test [OF assms(1)] executor_more_than_1024_test [OF assms(1)]
    timeout_future_test [OF assms] by simp

theorem queue_tests_pass_witness:
  "test_more_than_1024 \<lparr>lx_regs = [], lx_counters = \<lambda>_. 0, lx_now = 12, lx_next = 3\<rparr> = Ok ()"
  by (rule queue_tests_pass [THEN conjunct2, THEN conjunct2, THEN conjunct1]) simp_all

end
