(* ===== verification/Async_Programs.thy ===== *)
theory Async_Programs
  imports Unix_Programs Executor_Programs
begin

text \<open>
  Futures over sockets: the tests \<open>read_write\<close>, \<open>read_write_vectored\<close> and \<open>readable\<close> of \<open>src/src/io.rs\<close>. An
  executor polls futures that wait for an \<open>Async\<close> adapter; the loop tells the adapter, which wakes
  the future's task, which schedules it on the executor.
\<close>

section \<open>Tasks and wakers\<close>

text \<open>
  The data of the loop: the executor, the adapters that the futures own, what the reader has read,
  whether it is done, and whether an \<open>unwrap\<close> or an assertion in a future failed.
\<close>

record futures_data =
  fd_exec :: "unit exec_state"
  fd_rx :: async_io
  fd_tx :: async_io
  fd_buf :: "nat list"
  fd_done :: bool
  fd_panicked :: bool

type_synonym futures_loop = "(eventfd_source, futures_data) unix_loop"

definition in_exec :: "(futures_data, unit exec_state) access" where
  "in_exec = \<lparr>acc_get = fd_exec, acc_put = (\<lambda>x d. d\<lparr>fd_exec := x\<rparr>)\<rparr>"

abbreviation futures_ops :: "raw_fd \<Rightarrow> (nat \<Rightarrow> futures_loop \<Rightarrow> unit option \<times> futures_loop) \<Rightarrow> (unit \<Rightarrow> futures_loop \<Rightarrow> futures_loop)
    \<Rightarrow> (eventfd_source, nat, unix, futures_data) loop_ops" where
  "futures_ops fd poll_future callback \<equiv> waking_executor_ops UXP UXE in_exec fd poll_future callback"

definition futures_dispatch :: "raw_fd \<Rightarrow> (eventfd_source, nat, unix, futures_data) loop_ops \<Rightarrow> duration option \<Rightarrow> futures_loop
    \<Rightarrow> unit cresult \<times> futures_loop" where
  "futures_dispatch fd ops timeout L =
     (case unix_dispatch ops timeout L of (r, L) \<Rightarrow> (r, deliver_wakes UXE in_exec fd L))"

definition futures_schedule :: "raw_fd \<Rightarrow> futures_loop \<Rightarrow> (executor_destroyed, nat) outcome \<times> futures_loop" where
  "futures_schedule fd L = schedule (in_data in_exec) (eventfd_ping UXE loop_system fd) slab_size L"

definition futures_new :: "unix \<Rightarrow> futures_loop cresult" where
  "futures_new p =
     unix_new p \<lparr>fd_exec = no_executor, fd_rx = \<lparr>as_dispatcher = 0, as_was_nonblocking = False\<rparr>,
       fd_tx = \<lparr>as_dispatcher = 0, as_was_nonblocking = False\<rparr>, fd_buf = [], fd_done = False, fd_panicked = False\<rparr>"

definition futures_executor :: "futures_loop \<Rightarrow> (raw_fd \<times> eventfd_source) cresult \<times> futures_loop" where
  "futures_executor L = executor_new (in_data in_exec) (eventfd_make_ping UXE loop_system) L"

definition future_panics :: "futures_loop \<Rightarrow> futures_loop" where
  "future_panics L = L\<lparr>lp_data := (lp_data L)\<lparr>fd_panicked := True\<rparr>\<rparr>"

text \<open>The end of a future drops the adapter it owns.\<close>

definition future_ends :: "async_io \<Rightarrow> futures_loop \<Rightarrow> unit option \<times> futures_loop" where
  "future_ends a L =
     (case async_close UXP (set_nonblocking UXF) a L of
        (Ok _, L) \<Rightarrow> (Some (), L)
      | (_, L) \<Rightarrow> (Some (), future_panics L))"

text \<open>The loop \<open>while !done { dispatch(None) }\<close>, of at most \<open>m\<close> rounds.\<close>

fun until_done :: "nat \<Rightarrow> raw_fd \<Rightarrow> (eventfd_source, nat, unix, futures_data) loop_ops \<Rightarrow> futures_loop \<Rightarrow> unit program" where
  "until_done 0 fd ops L = (if fd_done (lp_data L) then assert_that (\<not> fd_panicked (lp_data L)) (Ok ()) else Diverge)"
| "until_done (Suc m) fd ops L =
     (if fd_done (lp_data L) then assert_that (\<not> fd_panicked (lp_data L)) (Ok ())
      else expect (futures_dispatch fd ops None L) (\<lambda>_ L. until_done m fd ops L))"

section \<open>read_write and read_write_vectored\<close>

definition hello :: "nat list" where
  "hello = [72, 101, 108, 108, 111, 32, 87, 111, 114, 108, 100, 33]"

definition reader_done :: "futures_loop \<Rightarrow> unit option \<times> futures_loop" where
  "reader_done L =
     (if fd_buf (lp_data L) \<noteq> hello then (Some (), future_panics L)
      else future_ends (fd_rx (lp_data L)) (L\<lparr>lp_data := (lp_data L)\<lparr>fd_done := True\<rparr>\<rparr>))"

text \<open>
  \<open>rx.read_exact(&mut buf)\<close> reads until the buffer is full, in at most \<open>n\<close> pieces; \<open>rx\<close> is also the
  descriptor, \<open>0\<close> the task.
\<close>

fun read_exact :: "nat \<Rightarrow> raw_fd \<Rightarrow> futures_loop \<Rightarrow> unit option \<times> futures_loop" where
  "read_exact 0 rx L = (None, future_panics L)"
| "read_exact (Suc n) rx L =
     (if length (fd_buf (lp_data L)) = 12 then reader_done L
      else case stream_read rx (12 - length (fd_buf (lp_data L))) L of
             (result, L) \<Rightarrow>
               (case poll_read UXP result (fd_rx (lp_data L)) 0 L of
                  (Ok None, L) \<Rightarrow> (None, L)
                | (Ok (Some (Inr bytes)), L) \<Rightarrow>
                    read_exact n rx (L\<lparr>lp_data := (lp_data L)\<lparr>fd_buf := fd_buf (lp_data L) @ bytes\<rparr>\<rparr>)
                | (_, L) \<Rightarrow> (None, future_panics L)))"

text \<open>\<open>rx.read_vectored(&mut ioslices)\<close> reads once and has to fill all six slices.\<close>

definition read_vectored :: "raw_fd \<Rightarrow> futures_loop \<Rightarrow> unit option \<times> futures_loop" where
  "read_vectored rx L =
     (case stream_read rx 12 L of
        (result, L) \<Rightarrow>
          (case poll_read UXP result (fd_rx (lp_data L)) 0 L of
             (Ok None, L) \<Rightarrow> (None, L)
           | (Ok (Some (Inr bytes)), L) \<Rightarrow>
               if length bytes \<noteq> 12 then (Some (), future_panics L)
               else reader_done (L\<lparr>lp_data := (lp_data L)\<lparr>fd_buf := bytes\<rparr>\<rparr>)
           | (_, L) \<Rightarrow> (Some (), future_panics L)))"

text \<open>\<open>tx.write_all\<close> and \<open>tx.write_vectored\<close> of the twelve bytes, and \<open>tx.flush()\<close>; a write is never short here.\<close>

definition write_hello :: "raw_fd \<Rightarrow> futures_loop \<Rightarrow> unit option \<times> futures_loop" where
  "write_hello tx L =
     (case with_system (ux_write tx hello) L of
        (result, L) \<Rightarrow>
          (case poll_write UXP result (fd_tx (lp_data L)) 1 L of
             (Ok None, L) \<Rightarrow> (None, L)
           | (Ok (Some (Inr written)), L) \<Rightarrow>
               if written \<noteq> 12 then (Some (), future_panics L)
               else (case poll_flush UXP (Inr ()) (fd_tx (lp_data L)) 1 L of
                       (Ok None, L) \<Rightarrow> (None, L)
                     | (Ok (Some (Inr _)), L) \<Rightarrow> future_ends (fd_tx (lp_data L)) L
                     | (_, L) \<Rightarrow> (Some (), future_panics L))
           | (_, L) \<Rightarrow> (Some (), future_panics L)))"

definition test_read_write_with :: "(raw_fd \<Rightarrow> futures_loop \<Rightarrow> unit option \<times> futures_loop) \<Rightarrow> nat \<Rightarrow> unix \<Rightarrow> unit program" where
  "test_read_write_with reader m p =
     expect_new (futures_new p) (\<lambda>L.
     expect (futures_executor L) (\<lambda>(sched, exec) L.
     case stream_pair L of ((tx, rx), L) \<Rightarrow>
     let ops = futures_ops sched (\<lambda>i. if i = 0 then reader rx else write_hello tx) (\<lambda>_ L. L) in
     expect (insert_source ops exec L) (\<lambda>_ L.
     expect (adapt_io UXP (set_nonblocking UXF) tx L) (\<lambda>atx L.
     expect (adapt_io UXP (set_nonblocking UXF) rx L) (\<lambda>arx L.
     let L = L\<lparr>lp_data := (lp_data L)\<lparr>fd_tx := atx, fd_rx := arx\<rparr>\<rparr> in
     expect (futures_schedule sched L) (\<lambda>_ L.
     expect (futures_dispatch sched ops (Some (millis 10)) L) (\<lambda>_ L.
     assert_that (\<not> fd_done (lp_data L)) (
     expect (futures_schedule sched L) (\<lambda>_ L.
     until_done m sched ops L)))))))))"

definition test_read_write :: "nat \<Rightarrow> unix \<Rightarrow> unit program" where
  "test_read_write m p = test_read_write_with (read_exact 13) m p"

definition test_read_write_vectored :: "nat \<Rightarrow> unix \<Rightarrow> unit program" where
  "test_read_write_vectored m p = test_read_write_with read_vectored m p"

section \<open>readable\<close>

definition until_readable :: "futures_loop \<Rightarrow> unit option \<times> futures_loop" where
  "until_readable L =
     (case readable_poll UXP (fd_rx (lp_data L)) 0 L of
        (Ok True, L) \<Rightarrow> future_ends (fd_rx (lp_data L)) L
      | (Ok False, L) \<Rightarrow> (None, L)
      | (_, L) \<Rightarrow> (Some (), future_panics L))"

definition test_readable :: "nat \<Rightarrow> unix \<Rightarrow> unit program" where
  "test_readable m p =
     expect_new (futures_new p) (\<lambda>L.
     expect (futures_executor L) (\<lambda>(sched, exec) L.
     let ops = futures_ops sched (\<lambda>_. until_readable) (\<lambda>_ L. L\<lparr>lp_data := (lp_data L)\<lparr>fd_done := True\<rparr>\<rparr>) in
     expect (insert_source ops exec L) (\<lambda>_ L.
     case stream_pair L of ((tx, rx), L) \<Rightarrow>
     expect (adapt_io UXP (set_nonblocking UXF) rx L) (\<lambda>arx L.
     let L = L\<lparr>lp_data := (lp_data L)\<lparr>fd_rx := arx\<rparr>\<rparr> in
     expect (futures_schedule sched L) (\<lambda>_ L.
     expect (futures_dispatch sched ops (Some (millis 100)) L) (\<lambda>_ L.
     assert_that (\<not> fd_done (lp_data L)) (
     expect (stream_write tx [42] L) (\<lambda>_ L.
     until_done m sched ops L))))))))"

section \<open>Running them\<close>

lemma UXE_simps [simp]:
  "ef_create UXE p = (Inr (ux_next p), p\<lparr>ux_inbox := (ux_inbox p)(ux_next p := []),
     ux_counters := (ux_counters p)(ux_next p := 0), ux_next := ux_next p + 1\<rparr>)"
  "ef_write UXE p fd v = (if unat (ux_counters p fd) + unat v < 2 ^ 64 - 1
     then (Inr (), p\<lparr>ux_counters := (ux_counters p)(fd := ux_counters p fd + v)\<rparr>) else (Inl WouldBlock, p))"
  "ef_read UXE p fd = (if ux_counters p fd = 0 then (Inl WouldBlock, p)
     else (Inr (8, ux_counters p fd), p\<lparr>ux_counters := (ux_counters p)(fd := 0)\<rparr>))"
  by (simp_all add: UXE_def EFK_def)

lemmas run_futures = futures_new_def futures_executor_def futures_schedule_def futures_dispatch_def
  in_exec_def future_ends_def poll_read_def poll_write_def poll_flush_def async_try_io_def async_register_waker_def
  readable_poll_def async_poll_def io_readiness_def io_process_events_def Readiness_EMPTY_def Interest_EMPTY_def Interest_WRITE_def

lemmas read_exact_numeral = read_exact.simps(2) [where n = "pred_numeral k" for k, folded numeral_eq_Suc]

lemma until_done_end [simp]:
  "fd_done (lp_data L) \<Longrightarrow> until_done m fd ops L = assert_that (\<not> fd_panicked (lp_data L)) (Ok ())"
  by (cases m) simp_all

lemma readable_test:
  assumes "ux_regs p = []"
  shows "test_readable (Suc (Suc m)) p = Ok ()"
  using assms
  by (simp add: test_readable_def until_readable_def run_futures run_adapters run_unix run_executors run_calls run_table run_dispatch run_timers run_pings)

lemma read_write_tests:
  assumes "ux_regs p = []"
  shows "test_read_write (Suc (Suc (Suc m))) p = Ok ()" "test_read_write_vectored (Suc (Suc (Suc m))) p = Ok ()"
  using assms
  by (simp_all add: test_read_write_def test_read_write_vectored_def read_exact_numeral test_read_write_with_def read_vectored_def reader_done_def write_hello_def hello_def
      run_futures run_adapters run_unix run_executors run_calls run_table run_dispatch run_timers run_pings)

section \<open>Properties\<close>

text \<open>
  The crate's tests with sockets pass on the reference system when nothing is registered. A generic source
  has an event when its descriptor is readable and registered, and only then, also after it was
  removed and inserted again; a change of its interest takes effect with \<open>update\<close>; a descriptor is
  registered once, for sources as for adapters, and is free again when the adapter is dropped. A
  future that waits for an adapter does not advance before the bytes are there, and is finished
  within three more rounds of the loop: the adapter's event wakes the task, the task pings the
  executor, the executor polls the future.
\<close>

theorem socket_tests_pass:
  assumes "ux_regs p = []" and "2 \<le> n" and "3 \<le> m"
  shows "test_dispatch_unix p = Ok () \<and> test_register_deregister_unix p = Ok () \<and> test_duplicate_insert p = Ok () \<and>
    test_change_interests n p = Ok () \<and> test_double_adapt_io p = Ok () \<and> test_double_adapt_io_error p = Ok () \<and>
    test_readable m p = Ok () \<and> test_read_write m p = Ok () \<and> test_read_write_vectored m p = Ok ()"
proof -
  obtain n' m' where "n = Suc (Suc n')" "m = Suc (Suc (Suc m'))"
    using assms(2,3) by (metis Suc_le_D numeral_2_eq_2 numeral_3_eq_3 Suc_le_mono)
  with change_interests_test [OF assms(1)] readable_test [OF assms(1)] read_write_tests [OF assms(1)]
  have "test_change_interests n p = Ok ()" "test_readable m p = Ok ()" "test_read_write m p = Ok ()" "test_read_write_vectored m p = Ok ()"
    by simp_all
  with generic_tests [OF assms(1)] adapt_tests [OF assms(1)] show ?thesis by simp
qed

theorem socket_tests_pass_witness:
  "test_dispatch_unix \<lparr>ux_regs = [], ux_inbox = \<lambda>_. [], ux_peer = \<lambda>_. 0, ux_counters = \<lambda>_. 0, ux_flags = \<lambda>_. 0, ux_now = 4, ux_next = 3\<rparr> = Ok ()"
  by (rule socket_tests_pass [where n = 2 and m = 3, THEN conjunct1]) simp_all

end
